(* ===== verification/Prelude.thy ===== *)
theory Prelude
  imports Complex_Main "HOL-Library.Word" "HOL-Library.Char_ord" "HOL-Library.List_Lexorder"
begin

text \<open>
  Shared vocabulary of the development: the result of a Rust function (a value, an error value or
  a panic), the byte classes the lexers and parsers test, the decimal rendering used by
  \<^verbatim>\<open>format!\<close>, the type abbreviations of the model, and the generic list lemmas the
  component theories use.

  A Rust \<^verbatim>\<open>String\<close> is a list of UTF-8 bytes, so it is a \<open>string\<close>; lengths and offsets count
  bytes. Integers of fixed width are words. The services are built with the release profile of
  \<^verbatim>\<open>Cargo.toml\<close> (no overflow checks), so \<open>+\<close> and \<open>-\<close> on words wrap.
\<close>

section \<open>Types\<close>

type_synonym u8 = "8 word"
type_synonym u32 = "32 word"
type_synonym u64 = "64 word"
type_synonym i32 = "32 word"
type_synonym i64 = "64 word"
type_synonym ('k, 'v) hash_map = "'k \<rightharpoonup> 'v"
type_synonym uuid = string

section \<open>Results of Rust functions\<close>

text \<open>
  \<open>Ok\<close> and \<open>Err\<close> are the constructors of \<^verbatim>\<open>Result\<close>; \<open>Panic\<close> is a failed assertion, a failed
  \<^verbatim>\<open>expect\<close> or an index out of range (the process aborts: \<^verbatim>\<open>panic = "abort"\<close>).
\<close>

datatype ('e, 'a) outcome = Ok 'a | Err 'e | Panic

fun obind :: "('e, 'a) outcome \<Rightarrow> ('a \<Rightarrow> ('e, 'b) outcome) \<Rightarrow> ('e, 'b) outcome" where
  "obind (Ok x) f = f x"
| "obind (Err e) f = Err e"
| "obind Panic f = Panic"

fun ok_or :: "'e \<Rightarrow> 'a option \<Rightarrow> ('e, 'a) outcome" where
  "ok_or e None = Err e"
| "ok_or e (Some x) = Ok x"

definition unwrap_or :: "'a \<Rightarrow> 'a option \<Rightarrow> 'a" where
  "unwrap_or d x = (case x of None \<Rightarrow> d | Some y \<Rightarrow> y)"

named_theorems outcome_simps \<open>inversion of monadic results\<close>

lemma obind_cong [fundef_cong]:
  "m = m' \<Longrightarrow> (\<And>x. m' = Ok x \<Longrightarrow> f x = f' x) \<Longrightarrow> obind m f = obind m' f'"
  by (cases m') auto

lemma obind_Ok_iff [outcome_simps]: "obind m f = Ok y \<longleftrightarrow> (\<exists>x. m = Ok x \<and> f x = Ok y)"
  by (cases m) auto

lemma obind_Err_iff [outcome_simps]:
  "obind m f = Err e \<longleftrightarrow> m = Err e \<or> (\<exists>x. m = Ok x \<and> f x = Err e)"
  by (cases m) auto

lemma obind_Panic_iff [outcome_simps]:
  "obind m f = Panic \<longleftrightarrow> m = Panic \<or> (\<exists>x. m = Ok x \<and> f x = Panic)"
  by (cases m) auto

lemma ok_or_Ok_iff [outcome_simps]: "ok_or e m = Ok x \<longleftrightarrow> m = Some x"
  by (cases m) auto

lemma ok_or_Err_iff [outcome_simps]: "ok_or e m = Err e' \<longleftrightarrow> m = None \<and> e' = e"
  by (cases m) auto

lemma ok_or_Panic [simp]: "ok_or e m \<noteq> Panic"
  by (cases m) auto

lemma unwrap_or_simps [simp]: "unwrap_or d None = d" "unwrap_or d (Some x) = x"
  by (simp_all add: unwrap_or_def)

section \<open>Status of a remote call\<close>

datatype grpc_code = NotFound | AlreadyExists | InvalidArgument | FailedPrecondition | Aborted | Internal | OtherCode nat

datatype status = Status grpc_code string

section \<open>Byte classes\<close>

definition is_ascii_digit :: "char \<Rightarrow> bool" where
  "is_ascii_digit c \<longleftrightarrow> CHR ''0'' \<le> c \<and> c \<le> CHR ''9''"

definition is_ascii_lower :: "char \<Rightarrow> bool" where
  "is_ascii_lower c \<longleftrightarrow> CHR ''a'' \<le> c \<and> c \<le> CHR ''z''"

definition digit_val :: "char \<Rightarrow> nat" where
  "digit_val c = of_char c - 48"

text \<open>The value of a string of decimal digits, most significant digit first.\<close>

definition digits_val :: "string \<Rightarrow> nat" where
  "digits_val = foldl (\<lambda>n c. 10 * n + digit_val c) 0"

text \<open>The first and last byte of a token decide whether a slice of a \<^verbatim>\<open>str\<close> is at a character boundary.\<close>

definition is_ascii :: "char \<Rightarrow> bool" where
  "is_ascii c \<longleftrightarrow> (of_char c :: nat) < 128"

lemma is_ascii_digit_of_char: "is_ascii_digit c \<longleftrightarrow> 48 \<le> (of_char c :: nat) \<and> of_char c \<le> (57 :: nat)"
  by (simp add: is_ascii_digit_def less_eq_char_def)

lemma is_ascii_lower_of_char: "is_ascii_lower c \<longleftrightarrow> 97 \<le> (of_char c :: nat) \<and> of_char c \<le> (122 :: nat)"
  by (simp add: is_ascii_lower_def less_eq_char_def)

lemma digit_is_ascii: "is_ascii_digit c \<Longrightarrow> is_ascii c"
  by (simp add: is_ascii_digit_of_char is_ascii_def)

lemma lower_is_ascii: "is_ascii_lower c \<Longrightarrow> is_ascii c"
  by (simp add: is_ascii_lower_of_char is_ascii_def)

section \<open>Decimal rendering of integers\<close>

fun show_nat :: "nat \<Rightarrow> string" where
  "show_nat n = (if n < 10 then [char_of (48 + n)] else show_nat (n div 10) @ [char_of (48 + n mod 10)])"

declare show_nat.simps [simp del]

definition show_int :: "int \<Rightarrow> string" where
  "show_int i = (if i < 0 then CHR ''-'' # show_nat (nat (- i)) else show_nat (nat i))"

lemma digits_val_append_one: "digits_val (s @ [c]) = 10 * digits_val s + digit_val c"
  by (simp add: digits_val_def)

lemma digit_val_char_of: "n < 10 \<Longrightarrow> digit_val (char_of (48 + n)) = n"
  by (simp add: digit_val_def)

text \<open>Rendering a number and reading its digits back gives the number, so the rendering is injective.\<close>

lemma digits_val_show_nat: "digits_val (show_nat n) = n"
proof (induction n rule: show_nat.induct)
  case (1 n)
  show ?case
  proof (cases "n < 10")
    case True
    then show ?thesis
      using digit_val_char_of [OF True]
      by (simp add: show_nat.simps [of n] digits_val_def)
  next
    case False
    have d: "n mod 10 < 10" by simp
    show ?thesis
      using False "1.IH" digit_val_char_of [OF d]
      by (simp add: show_nat.simps [of n] digits_val_append_one)
  qed
qed

lemma inj_show_nat: "inj show_nat"
  by (metis digits_val_show_nat injI)

section \<open>Lists\<close>

lemma takeWhile_dropWhile_length:
  "length (takeWhile P xs) + length (dropWhile P xs) = length xs"
  by (metis length_append takeWhile_dropWhile_id)

lemma length_dropWhile_less: "xs \<noteq> [] \<Longrightarrow> P (hd xs) \<Longrightarrow> length (dropWhile P xs) < length xs"
  by (cases xs) (auto simp: le_imp_less_Suc length_dropWhile_le)

lemma list_all_takeWhile: "list_all P xs \<Longrightarrow> takeWhile P xs = xs" "list_all P xs \<Longrightarrow> dropWhile P xs = []"
  by (induction xs) auto

lemma list_all_takeWhile_stop:
  "list_all P xs \<Longrightarrow> \<not> P y \<Longrightarrow> takeWhile P (xs @ y # ys) = xs"
  "list_all P xs \<Longrightarrow> \<not> P y \<Longrightarrow> dropWhile P (xs @ y # ys) = y # ys"
  by (induction xs) auto

lemma last_snoc_nth: "xs \<noteq> [] \<Longrightarrow> xs ! (length xs - 1) = last xs"
  by (simp add: last_conv_nth)

lemma find_Some_mem: "find P xs = Some x \<Longrightarrow> x \<in> set xs \<and> P x"
  by (induction xs) (auto split: if_splits)

lemma sorted_list_of_string_set:
  "finite A \<Longrightarrow> sorted (sorted_list_of_set A) \<and> distinct (sorted_list_of_set A) \<and> set (sorted_list_of_set A) = (A :: string set)"
  by simp

section \<open>Maps\<close>

text \<open>\<^verbatim>\<open>iter.collect::<HashMap<_, _>>()\<close>: a later pair overwrites an earlier one with the same key.\<close>

definition collect_map :: "('k \<times> 'v) list \<Rightarrow> ('k, 'v) hash_map" where
  "collect_map ps = map_of (rev ps)"

lemma finite_dom_collect_map [simp]: "finite (dom (collect_map ps))"
  by (simp add: collect_map_def finite_dom_map_of)

lemma collect_map_SomeD: "collect_map (map (\<lambda>x. (key x, x)) xs) k = Some v \<Longrightarrow> v \<in> set xs \<and> key v = k"
  by (auto simp: collect_map_def dest!: map_of_SomeD)

lemma collect_map_dom: "dom (collect_map ps) = fst ` set ps"
  by (simp add: collect_map_def dom_map_of_conv_image_fst)

text \<open>
  The iteration order of a \<^verbatim>\<open>HashMap\<close> is unspecified. Where the code collects the values of a map into
  a vector, the order is a parameter \<open>vals\<close>; \<open>hash_map_values\<close> is what the library documents: every
  entry is visited exactly once.
\<close>

definition hash_map_values :: "(('k, 'v) hash_map \<Rightarrow> 'v list) \<Rightarrow> bool" where
  "hash_map_values vals \<longleftrightarrow>
     (\<forall>m. finite (dom m) \<longrightarrow> (\<exists>ks. distinct ks \<and> set ks = dom m \<and> vals m = map (\<lambda>k. the (m k)) ks))"

definition keyed :: "('v \<Rightarrow> 'k) \<Rightarrow> ('k, 'v) hash_map \<Rightarrow> bool" where
  "keyed key m \<longleftrightarrow> finite (dom m) \<and> (\<forall>k v. m k = Some v \<longrightarrow> key v = k)"

lemma keyed_upd: "keyed key m \<Longrightarrow> key v = k \<Longrightarrow> keyed key (m(k \<mapsto> v))"
  by (auto simp: keyed_def split: if_splits)

lemma keyed_del: "keyed key m \<Longrightarrow> keyed key (m(k := None))"
  by (auto simp: keyed_def split: if_splits intro: finite_subset [of _ "dom m"])

lemma keyed_collect: "keyed key (collect_map (map (\<lambda>x. (key x, x)) xs))"
  by (auto simp: keyed_def dest: collect_map_SomeD)

lemma map_of_distinct_keys:
  "distinct (map key vs) \<Longrightarrow> v \<in> set vs \<Longrightarrow> map_of (map (\<lambda>x. (key x, x)) vs) (key v) = Some v"
  by (rule map_of_is_SomeI) (auto simp: comp_def)

text \<open>Collecting the values of a map that is keyed by a field of its entries and indexing them again gives the map back.\<close>

lemma collect_values:
  assumes "hash_map_values vals" "keyed key m"
  shows "collect_map (map (\<lambda>x. (key x, x)) (vals m)) = m"
    and "set (vals m) = ran m" and "distinct (map key (vals m))"
proof -
  from assms obtain ks where ks: "distinct ks" "set ks = dom m" "vals m = map (\<lambda>k. the (m k)) ks"
    unfolding hash_map_values_def keyed_def by blast
  have key: "key (the (m k)) = k" if "k \<in> set ks" for k
    using that assms(2) ks(2) by (auto simp: keyed_def)
  then have keys: "map key (vals m) = ks"
    by (simp add: ks(3) map_idI)
  then show dist: "distinct (map key (vals m))" using ks(1) by simp
  show ran: "set (vals m) = ran m"
    by (force simp: ks(2,3) ran_def dom_def)
  show "collect_map (map (\<lambda>x. (key x, x)) (vals m)) = m"
  proof
    fix k
    show "collect_map (map (\<lambda>x. (key x, x)) (vals m)) k = m k"
    proof (cases "m k")
      case None
      then have "k \<notin> set (map key (vals m))" using keys ks(2) by auto
      with None show ?thesis
        by (auto simp: collect_map_def map_of_eq_None_iff rev_map)
    next
      case (Some v)
      then have "v \<in> set (rev (vals m))" "key v = k"
        using ran assms(2) by (auto simp: ran_def keyed_def)
      with dist show ?thesis
        using map_of_distinct_keys [of key "rev (vals m)" v] Some
        by (simp add: collect_map_def rev_map distinct_map)
    qed
  qed
qed

section \<open>Transition systems\<close>

text \<open>
  The stateful components are step relations; \<open>reach\<close> is reachability, and the locale gives the
  invariant rule once.
\<close>

inductive reach :: "('s \<Rightarrow> bool) \<Rightarrow> ('s \<Rightarrow> 's \<Rightarrow> bool) \<Rightarrow> 's \<Rightarrow> bool"
  for init :: "'s \<Rightarrow> bool" and step :: "'s \<Rightarrow> 's \<Rightarrow> bool" where
  reach_init: "init s \<Longrightarrow> reach init step s"
| reach_step: "reach init step s \<Longrightarrow> step s t \<Longrightarrow> reach init step t"

locale inductive_invariant =
  fixes init :: "'s \<Rightarrow> bool" and step :: "'s \<Rightarrow> 's \<Rightarrow> bool" and inv :: "'s \<Rightarrow> bool"
  assumes inv_init: "init s \<Longrightarrow> inv s"
    and inv_step: "inv s \<Longrightarrow> step s t \<Longrightarrow> inv t"
begin

lemma reach_inv: "reach init step s \<Longrightarrow> inv s"
  by (induction rule: reach.induct) (auto intro: inv_init inv_step)

lemma steps_inv: "step\<^sup>*\<^sup>* s t \<Longrightarrow> inv s \<Longrightarrow> inv t"
  by (induction rule: rtranclp_induct) (auto intro: inv_step)

end

section \<open>Signed reading of words\<close>

lemma sint_i32_int: "0 \<le> i \<Longrightarrow> i < 2 ^ 31 \<Longrightarrow> sint (word_of_int i :: i32) = i"
  by (simp add: sint_sbintrunc' signed_take_bit_int_eq_self)

lemma sint_i32_nat: "n < 2 ^ 31 \<Longrightarrow> sint (of_nat n :: i32) = int n"
  by (metis sint_i32_int of_int_of_nat_eq of_nat_0_le_iff of_nat_less_numeral_power_cancel_iff)

section \<open>Operations on a state\<close>

text \<open>
  A fallible operation that reads and updates a state. An error ends the sequence; the updates before
  it stay.
\<close>

type_synonym ('s, 'e, 'a) state_op = "'s \<Rightarrow> ('e, 'a) outcome \<times> 's"

definition dbind :: "('s, 'e, 'a) state_op \<Rightarrow> ('a \<Rightarrow> ('s, 'e, 'b) state_op) \<Rightarrow> ('s, 'e, 'b) state_op" where
  "dbind m k db = (case m db of (Ok x, db') \<Rightarrow> k x db' | (Err e, db') \<Rightarrow> (Err e, db') | (Panic, db') \<Rightarrow> (Panic, db'))"

definition dreturn :: "('e, 'a) outcome \<Rightarrow> ('s, 'e, 'a) state_op" where
  "dreturn x db = (x, db)"

definition dmap_err :: "('e \<Rightarrow> 'f) \<Rightarrow> ('s, 'e, 'a) state_op \<Rightarrow> ('s, 'f, 'a) state_op" where
  "dmap_err f m db = (case m db of (Ok x, db') \<Rightarrow> (Ok x, db') | (Err e, db') \<Rightarrow> (Err (f e), db') | (Panic, db') \<Rightarrow> (Panic, db'))"

text \<open>\<^verbatim>\<open>let _ = op.await;\<close> and \<^verbatim>\<open>op.await.ok();\<close>: the effect stays, the result is dropped.\<close>

definition ignore :: "('s, 'f, 'a) state_op \<Rightarrow> ('s, 'e, unit) state_op" where
  "ignore m db = (Ok (), snd (m db))"

lemma dbind_simps [simp]:
  "m db = (Ok x, db') \<Longrightarrow> dbind m k db = k x db'"
  "m db = (Err e, db') \<Longrightarrow> dbind m k db = (Err e, db')"
  by (simp_all add: dbind_def)

lemma dbind_Ok:
  "dbind m k db = (Ok y, db') \<longleftrightarrow> (\<exists>x db1. m db = (Ok x, db1) \<and> k x db1 = (Ok y, db'))"
  by (auto simp: dbind_def split: prod.splits outcome.splits)

lemma dmap_err_simps [simp]:
  "m db = (Ok x, db') \<Longrightarrow> dmap_err f m db = (Ok x, db')"
  "m db = (Err e, db') \<Longrightarrow> dmap_err f m db = (Err (f e), db')"
  by (simp_all add: dmap_err_def)

lemma snd_dmap_err [simp]: "snd (dmap_err f m db) = snd (m db)"
  by (cases "m db"; cases "fst (m db)") (auto simp: dmap_err_def)

end
