(* ===== verification/Hashing.thy ===== *)
theory Hashing
  imports Prelude
begin

unbundle bit_operations_syntax

text \<open>
  The crate \<^verbatim>\<open>experimentation-hash\<close>: MurmurHash3 (x86, 32 bit) and the bucket function every SDK and
  service calls. \<open>bucketing\<close> is the interface the assignment service relies on: a total, bounded map
  from keys to buckets, failing only on an empty layer.
\<close>

section \<open>MurmurHash3\<close>

definition C1 :: u32 where "C1 = 0xcc9e2d51"
definition C2 :: u32 where "C2 = 0x1b873593"

definition from_le_bytes :: "u8 \<Rightarrow> u8 \<Rightarrow> u8 \<Rightarrow> u8 \<Rightarrow> u32" where
  "from_le_bytes b0 b1 b2 b3 =
     ucast b0 OR push_bit 8 (ucast b1) OR push_bit 16 (ucast b2) OR push_bit 24 (ucast b3)"

definition mix_k1 :: "u32 \<Rightarrow> u32" where
  "mix_k1 k1 = word_rotl 15 (k1 * C1) * C2"

definition mix_h1 :: "u32 \<Rightarrow> u32 \<Rightarrow> u32" where
  "mix_h1 h1 k1 = word_rotl 13 (h1 XOR k1) * 5 + 0xe6546b64"

text \<open>The loop \<^verbatim>\<open>for i in 0..n_blocks\<close> over the four-byte blocks of \<open>data\<close>.\<close>

definition block_k1 :: "u8 list \<Rightarrow> nat \<Rightarrow> u32" where
  "block_k1 data i = (let offset = i * 4 in
     from_le_bytes (data ! offset) (data ! (offset + 1)) (data ! (offset + 2)) (data ! (offset + 3)))"

definition murmur_body :: "u8 list \<Rightarrow> u32 \<Rightarrow> u32" where
  "murmur_body data seed =
     foldl (\<lambda>h1 i. mix_h1 h1 (mix_k1 (block_k1 data i))) seed [0..<length data div 4]"

fun murmur_tail :: "u32 \<Rightarrow> u8 list \<Rightarrow> u32" where
  "murmur_tail h1 [t0, t1, t2] =
     h1 XOR mix_k1 (push_bit 16 (ucast t2) XOR push_bit 8 (ucast t1) XOR ucast t0)"
| "murmur_tail h1 [t0, t1] = h1 XOR mix_k1 (push_bit 8 (ucast t1) XOR ucast t0)"
| "murmur_tail h1 [t0] = h1 XOR mix_k1 (ucast t0)"
| "murmur_tail h1 _ = h1"

definition fmix32 :: "u32 \<Rightarrow> u32" where
  "fmix32 h0 =
     (let h1 = h0 XOR drop_bit 16 h0;
          h2 = h1 * 0x85ebca6b;
          h3 = h2 XOR drop_bit 13 h2;
          h4 = h3 * 0xc2b2ae35
      in h4 XOR drop_bit 16 h4)"

definition murmurhash3_x86_32 :: "u8 list \<Rightarrow> u32 \<Rightarrow> u32" where
  "murmurhash3_x86_32 data seed =
     (let n_blocks = length data div 4;
          h1 = murmur_tail (murmur_body data seed) (drop (n_blocks * 4) data)
      in fmix32 (h1 XOR of_nat (length data)))"

section \<open>Buckets\<close>

definition as_bytes :: "string \<Rightarrow> u8 list" where
  "as_bytes = map of_char"

definition bucket_key :: "string \<Rightarrow> string \<Rightarrow> string" where
  "bucket_key user_id salt = user_id @ [CHR 0x00] @ salt"

definition bucket :: "string \<Rightarrow> string \<Rightarrow> u32 \<Rightarrow> ('e, u32) outcome" where
  "bucket user_id salt total_buckets =
     (if total_buckets > 0
      then Ok (murmurhash3_x86_32 (as_bytes (bucket_key user_id salt)) 0 mod total_buckets)
      else Panic)"

definition is_in_allocation :: "u32 \<Rightarrow> u32 \<Rightarrow> u32 \<Rightarrow> bool" where
  "is_in_allocation b start_bucket end_bucket \<longleftrightarrow> start_bucket \<le> b \<and> b \<le> end_bucket"

section \<open>Facts about the hash\<close>

text \<open>The block loop reads inside \<open>data\<close>, so the indexing never panics.\<close>

lemma block_index_in_range: "i < length data div 4 \<Longrightarrow> i * 4 + 3 < length (data :: u8 list)"
  by presburger

text \<open>A streaming reference: consume four bytes at a time, then the tail.\<close>

fun murmur_stream :: "u32 \<Rightarrow> u8 list \<Rightarrow> u32" where
  "murmur_stream h1 (b0 # b1 # b2 # b3 # rest) =
     murmur_stream (mix_h1 h1 (mix_k1 (from_le_bytes b0 b1 b2 b3))) rest"
| "murmur_stream h1 tail = murmur_tail h1 tail"

lemma murmur_body_step:
  "murmur_body (b0 # b1 # b2 # b3 # rest) h = murmur_body rest (mix_h1 h (mix_k1 (from_le_bytes b0 b1 b2 b3)))"
proof -
  let ?data = "b0 # b1 # b2 # b3 # rest"
  have len: "length ?data div 4 = Suc (length rest div 4)" by simp
  have blk: "block_k1 ?data (Suc i) = block_k1 rest i" for i
    by (simp add: block_k1_def Let_def numeral_3_eq_3)
  have b0: "block_k1 ?data 0 = from_le_bytes b0 b1 b2 b3"
    by (simp add: block_k1_def Let_def numeral_2_eq_2 numeral_3_eq_3)
  have "murmur_body ?data h =
      foldl (\<lambda>h1 i. mix_h1 h1 (mix_k1 (block_k1 ?data i))) h (0 # map Suc [0..<length rest div 4])"
    unfolding murmur_body_def len by (simp only: upt_conv_Cons zero_less_Suc map_Suc_upt)
  then show ?thesis
    by (simp add: b0 blk murmur_body_def foldl_map)
qed

lemma drop_four: "drop (n + 4) (a # b # c # d # xs) = drop n xs"
  by (simp add: eval_nat_numeral)

lemma murmur_stream_eq:
  "murmur_tail (murmur_body data h) (drop (length data div 4 * 4) data) = murmur_stream h data"
proof (induction h data rule: murmur_stream.induct)
  case (1 h b0 b1 b2 b3 rest)
  have "length (b0 # b1 # b2 # b3 # rest) div 4 * 4 = length rest div 4 * 4 + 4" by simp
  then have "drop (length (b0 # b1 # b2 # b3 # rest) div 4 * 4) (b0 # b1 # b2 # b3 # rest) = drop (length rest div 4 * 4) rest"
    by (simp only: drop_four)
  with "1.IH" show ?case by (simp only: murmur_body_step murmur_stream.simps)
qed (simp_all add: murmur_body_def)

text \<open>Each step of the finaliser is a bijection of the 32-bit words.\<close>

lemma xorshift16_inverse:
  fixes y :: u32
  assumes "x = y XOR drop_bit 16 y"
  shows "y = x XOR drop_bit 16 x"
  unfolding assms by (rule bit_eqI) (auto simp: bit_simps)

lemma xorshift13_inverse:
  fixes y :: u32
  assumes "x = y XOR drop_bit 13 y"
  shows "y = x XOR drop_bit 13 x XOR drop_bit 26 x"
  unfolding assms by (rule bit_eqI) (auto simp: bit_simps)

lemma odd_mult_inverse:
  fixes y c d :: u32
  assumes "c * d = 1" "x = y * c"
  shows "y = x * d"
  using assms by (simp add: mult.assoc)

lemma mult_cancel_unit:
  fixes a b c d :: u32
  assumes "c * d = 1" "a * c = b * c"
  shows "a = b"
  using odd_mult_inverse [OF assms(1) refl] assms(2) by metis

lemma C1_unit: "C1 * 0xdee13bb1 = 1" and C2_unit: "C2 * 0x56ed309b = 1"
  by (simp_all add: C1_def C2_def)

lemma word_rotl_cancel: "word_rotl n a = word_rotl n b \<Longrightarrow> a = (b :: u32)"
  by (metis word_rot_gal)

lemma mix_k1_cancel: "mix_k1 a = mix_k1 b \<Longrightarrow> a = b"
  unfolding mix_k1_def
  by (drule mult_cancel_unit [OF C2_unit], drule word_rotl_cancel, drule mult_cancel_unit [OF C1_unit])

lemma xor_cancel_left: "a XOR b = a XOR c \<Longrightarrow> b = (c :: u32)"
  by (drule arg_cong [where f = "\<lambda>x. a XOR x"]) (simp add: xor.assoc [symmetric])

lemma mix_h1_xor_cancel: "mix_h1 h k = mix_h1 h' k' \<Longrightarrow> h XOR k = h' XOR k'"
proof -
  assume "mix_h1 h k = mix_h1 h' k'"
  then have "word_rotl 13 (h XOR k) * 5 = word_rotl 13 (h' XOR k') * 5"
    by (simp add: mix_h1_def)
  moreover have "(5 :: u32) * 0xcccccccd = 1" by simp
  ultimately have "word_rotl 13 (h XOR k) = word_rotl 13 (h' XOR k')" using mult_cancel_unit by blast
  then show ?thesis by (rule word_rotl_cancel)
qed

lemma mix_h1_cancel: "mix_h1 h k = mix_h1 h' k \<Longrightarrow> h = h'" "mix_h1 h k = mix_h1 h k' \<Longrightarrow> k = k'"
  using mix_h1_xor_cancel xor_cancel_left xor.commute by metis+

lemma xor_cancel_right: "b XOR a = c XOR a \<Longrightarrow> b = (c :: u32)"
  by (metis xor_cancel_left xor.commute)

lemma bytes_of_le:
  "ucast (from_le_bytes b0 b1 b2 b3) = b0"
  "ucast (drop_bit 8 (from_le_bytes b0 b1 b2 b3)) = b1"
  "ucast (drop_bit 16 (from_le_bytes b0 b1 b2 b3)) = b2"
  "ucast (drop_bit 24 (from_le_bytes b0 b1 b2 b3)) = b3"
  by (rule bit_eqI; force simp: from_le_bytes_def bit_simps dest: bit_imp_le_length)+

lemma from_le_bytes_cancel:
  "from_le_bytes a b c d = from_le_bytes a' b' c' d' \<Longrightarrow> a = a' \<and> b = b' \<and> c = c' \<and> d = d'"
  by (metis bytes_of_le)

lemma murmur_tail_cancel: "murmur_tail h t = murmur_tail h' t \<Longrightarrow> h = h'"
  by (cases "(h, t)" rule: murmur_tail.cases) (auto dest: xor_cancel_right)

lemma murmur_stream_cancel: "murmur_stream h data = murmur_stream h' data \<Longrightarrow> h = h'"
proof (induction h data arbitrary: h' rule: murmur_stream.induct)
  case (1 h b0 b1 b2 b3 rest)
  then show ?case by (auto dest: mix_h1_cancel(1))
qed (auto dest: xor_cancel_right)

lemma inj_fmix32: "inj fmix32"
proof (rule inj_on_inverseI)
  fix h :: u32
  define h1 where "h1 = h XOR drop_bit 16 h"
  define h2 where "h2 = h1 * 0x85ebca6b"
  define h3 where "h3 = h2 XOR drop_bit 13 h2"
  define h4 where "h4 = h3 * 0xc2b2ae35"
  define h5 where "h5 = h4 XOR drop_bit 16 h4"
  let ?inv = "\<lambda>w. let a = (w XOR drop_bit 16 w) * 0x7ed1b41d;
                     b = (a XOR drop_bit 13 a XOR drop_bit 26 a) * 0xa5cb9243
                 in b XOR drop_bit 16 (b :: u32)"
  have f: "fmix32 h = h5"
    by (simp add: fmix32_def Let_def h1_def h2_def h3_def h4_def h5_def)
  have "h4 = h5 XOR drop_bit 16 h5" by (rule xorshift16_inverse [OF h5_def])
  moreover have "h3 = h4 * 0x7ed1b41d" by (rule odd_mult_inverse [OF _ h4_def]) simp
  moreover have "h2 = h3 XOR drop_bit 13 h3 XOR drop_bit 26 h3" by (rule xorshift13_inverse [OF h3_def])
  moreover have "h1 = h2 * 0xa5cb9243" by (rule odd_mult_inverse [OF _ h2_def]) simp
  moreover have "h = h1 XOR drop_bit 16 h1" by (rule xorshift16_inverse [OF h1_def])
  ultimately show "?inv (fmix32 h) = h" unfolding f Let_def by metis
qed

lemma murmurhash3_stream:
  "murmurhash3_x86_32 data seed = fmix32 (murmur_stream seed data XOR of_nat (length data))"
  by (simp add: murmurhash3_x86_32_def Let_def murmur_stream_eq)

lemma murmur_stream_append:
  "length pre mod 4 = 0 \<Longrightarrow> \<exists>h'. \<forall>rest. murmur_stream h (pre @ rest) = murmur_stream h' rest"
proof (induction h pre rule: murmur_stream.induct)
  case (1 h b0 b1 b2 b3 pre)
  then have "length pre mod 4 = 0" by simp
  with "1.IH" show ?case by simp
qed auto

lemma murmur_stream_block_cancel:
  assumes "murmur_stream h ([a, b, c, d] @ post) = murmur_stream h ([a', b', c', d'] @ post)"
  shows "[a, b, c, d] = [a', b', c', d']"
proof -
  from assms have "mix_h1 h (mix_k1 (from_le_bytes a b c d)) = mix_h1 h (mix_k1 (from_le_bytes a' b' c' d'))"
    unfolding append.simps murmur_stream.simps by (rule murmur_stream_cancel)
  then have "mix_k1 (from_le_bytes a b c d) = mix_k1 (from_le_bytes a' b' c' d')"
    by (rule mix_h1_cancel(2))
  then have "from_le_bytes a b c d = from_le_bytes a' b' c' d'"
    by (rule mix_k1_cancel)
  then show ?thesis using from_le_bytes_cancel by simp
qed

lemma length_4_cases: "length xs = 4 \<Longrightarrow> \<exists>a b c d. xs = [a, b, c, d]"
  by (auto simp: eval_nat_numeral length_Suc_conv)

lemma separator_split:
  "x \<notin> set u \<Longrightarrow> x \<notin> set u' \<Longrightarrow> u @ x # s = u' @ x # s' \<Longrightarrow> u = u' \<and> s = s'"
proof (induction u arbitrary: u')
  case Nil
  then show ?case by (cases u') auto
next
  case (Cons c u)
  then show ?case by (cases u') auto
qed

section \<open>The bucketing interface\<close>

text \<open>
  What the callers of \<open>bucket\<close> rely on. From it: inside one layer and under one salt, a key is in
  at most one of several disjoint allocations, and in some one of a family that covers the layer.
\<close>

locale bucketing =
  fixes bkt :: "string \<Rightarrow> string \<Rightarrow> u32 \<Rightarrow> ('e, u32) outcome"
  assumes bkt_in_range: "0 < n \<Longrightarrow> \<exists>b. bkt u s n = Ok b \<and> b < n"
    and bkt_no_buckets: "bkt u s 0 = Panic"
begin

lemma bkt_Ok_bound: "bkt u s n = Ok b \<Longrightarrow> b < n"
  by (cases "n = 0") (use bkt_in_range [of n u s] bkt_no_buckets in \<open>auto simp: word_gt_0\<close>)

lemma bkt_cases: "bkt u s n = Panic \<and> n = 0 \<or> (\<exists>b. bkt u s n = Ok b \<and> b < n)"
  using bkt_in_range [of n u s] bkt_no_buckets by (cases "n = 0") (auto simp: word_gt_0)

lemma disjoint_ranges_exclusive:
  assumes "bkt u s n = Ok b"
    and "\<And>x. \<not> (is_in_allocation x lo hi \<and> is_in_allocation x lo' hi')"
  shows "\<not> (is_in_allocation b lo hi \<and> is_in_allocation b lo' hi')"
  using assms(2) by blast

lemma covering_ranges_hit:
  assumes "bkt u s n = Ok b" and "\<And>x. x < n \<Longrightarrow> \<exists>(lo, hi) \<in> set rs. is_in_allocation x lo hi"
  shows "\<exists>(lo, hi) \<in> set rs. is_in_allocation b lo hi"
  using assms bkt_Ok_bound by blast

end

interpretation murmur: bucketing bucket
  by unfold_locales (simp_all add: bucket_def word_gt_0 word_mod_less_divisor)

section \<open>Properties\<close>

text \<open>
  The MurmurHash3 implementation, which walks the input by block index and then matches on the length of the tail, computes the same value as a streaming pass that consumes four bytes at a time.
\<close>

theorem murmur_index_loop_is_streaming:
  "murmurhash3_x86_32 data seed = fmix32 (murmur_stream seed data XOR of_nat (length data))"
  by (rule murmurhash3_stream)

text \<open>
  Two inputs of the same length that differ in exactly one aligned four-byte block never have the same hash, whatever the seed.
\<close>

theorem one_block_change_changes_hash:
  assumes "length pre mod 4 = 0" "length blk = 4" "length blk' = 4" "blk \<noteq> blk'"
  shows "murmurhash3_x86_32 (pre @ blk @ post) seed \<noteq> murmurhash3_x86_32 (pre @ blk' @ post) seed"
proof
  obtain a b c d where b1: "blk = [a, b, c, d]" using length_4_cases [OF assms(2)] by blast
  obtain a' b' c' d' where b2: "blk' = [a', b', c', d']" using length_4_cases [OF assms(3)] by blast
  assume "murmurhash3_x86_32 (pre @ blk @ post) seed = murmurhash3_x86_32 (pre @ blk' @ post) seed"
  then have "murmur_stream seed (pre @ blk @ post) XOR of_nat (length (pre @ blk @ post)) =
      murmur_stream seed (pre @ blk' @ post) XOR of_nat (length (pre @ blk' @ post))"
    unfolding murmurhash3_stream by (rule injD [OF inj_fmix32])
  moreover have "length (pre @ blk' @ post) = length (pre @ blk @ post)" using assms(2,3) by simp
  ultimately have "murmur_stream seed (pre @ blk @ post) = murmur_stream seed (pre @ blk' @ post)"
    by (metis xor_cancel_right)
  moreover obtain h where "murmur_stream seed (pre @ r) = murmur_stream h r" for r
    using murmur_stream_append [OF assms(1)] by blast
  ultimately have "murmur_stream h ([a, b, c, d] @ post) = murmur_stream h ([a', b', c', d'] @ post)"
    unfolding b1 b2 by simp
  then show False using murmur_stream_block_cancel assms(4) b1 b2 by blast
qed

theorem one_block_change_changes_hash_witness:
  "murmurhash3_x86_32 ([] @ [1, 2, 3, 4] @ [5]) 7 \<noteq> murmurhash3_x86_32 ([] @ [1, 2, 3, 0] @ [5]) 7"
  by (rule one_block_change_changes_hash) simp_all

text \<open>
  The key that is hashed determines the pair of identifier and salt as long as no identifier contains the NUL separator.
\<close>

theorem bucket_key_injective:
  assumes "CHR 0x00 \<notin> set u" "CHR 0x00 \<notin> set u'" "(u, s) \<noteq> (u', s')"
  shows "bucket_key u s \<noteq> bucket_key u' s'"
  using assms separator_split [of "CHR 0x00" u u' s s'] by (auto simp: bucket_key_def)

theorem bucket_key_injective_witness: "bucket_key ''a'' ''bc'' \<noteq> bucket_key ''ab'' ''c''"
  by (rule bucket_key_injective) simp_all

text \<open>
  \<open>bucket\<close> panics exactly for an empty layer; otherwise it returns a bucket index below the number of buckets, and never an error.
\<close>

theorem bucket_total_and_bounded:
  "bucket u s n = (Panic :: ('e, u32) outcome) \<and> n = 0 \<or> (\<exists>b. bucket u s n = (Ok b :: ('e, u32) outcome) \<and> b < n)"
  by (rule murmur.bkt_cases)

end
