(* ===== verification/Float64.thy ===== *)
theory Float64
  imports Prelude "HOL-Library.Log_Nat"
begin

text \<open>
  The \<^verbatim>\<open>f64\<close> values and operations the sources use: rounding of an exact rational to the nearest
  binary64 value (ties to even, overflow to infinity, gradual underflow), the arithmetic built on it,
  the IEEE comparisons, \<^verbatim>\<open>trunc\<close>, the saturating cast \<^verbatim>\<open>as u32\<close>, and \<^verbatim>\<open>str::parse::<f64>\<close> with the
  grammar of the standard library.

  The two zeros are one value here: no comparison, sum, product or cast modelled can tell them
  apart, and no source divides by a value that can be a negative zero.
\<close>

section \<open>Values\<close>

datatype f64 = NaN | Inf bool | Fin rat

text \<open>\<open>Inf True\<close> is negative infinity. \<open>Fin q\<close> is the finite value \<open>q\<close>.\<close>

fun is_finite :: "f64 \<Rightarrow> bool" where
  "is_finite (Fin q) = True"
| "is_finite _ = False"

section \<open>Rounding\<close>

text \<open>\<open>rat_ilog2 q\<close> is the exponent of the greatest power of two not above a positive \<open>q\<close>.\<close>

definition rat_ilog2 :: "rat \<Rightarrow> int" where
  "rat_ilog2 q = (case quotient_of q of (n, d) \<Rightarrow>
     (let e = int (floorlog 2 (nat n)) - int (floorlog 2 (nat d))
      in if 2 powi e \<le> q then e else e - 1))"

definition round_even :: "rat \<Rightarrow> int" where
  "round_even q = (let f = \<lfloor>q\<rfloor>; r = q - of_int f
     in if r < 1 / 2 then f else if 1 / 2 < r then f + 1 else if even f then f else f + 1)"

definition ulp_exp :: "rat \<Rightarrow> int" where
  "ulp_exp q = max (rat_ilog2 q - 52) (- 1074)"

definition round_mag :: "rat \<Rightarrow> rat" where
  "round_mag a = of_int (round_even (a / 2 powi ulp_exp a)) * 2 powi ulp_exp a"

definition f64_round :: "rat \<Rightarrow> f64" where
  "f64_round q =
     (if q = 0 then Fin 0
      else let v = round_mag \<bar>q\<bar>
           in if 2 ^ 1024 \<le> v then Inf (q < 0) else Fin (if q < 0 then - v else v))"

section \<open>Arithmetic, comparisons and casts\<close>

fun f64_add :: "f64 \<Rightarrow> f64 \<Rightarrow> f64" where
  "f64_add (Fin a) (Fin b) = f64_round (a + b)"
| "f64_add NaN _ = NaN"
| "f64_add _ NaN = NaN"
| "f64_add (Inf s) (Inf t) = (if s = t then Inf s else NaN)"
| "f64_add (Inf s) _ = Inf s"
| "f64_add _ (Inf t) = Inf t"

fun f64_mul :: "f64 \<Rightarrow> f64 \<Rightarrow> f64" where
  "f64_mul (Fin a) (Fin b) = f64_round (a * b)"
| "f64_mul NaN _ = NaN"
| "f64_mul _ NaN = NaN"
| "f64_mul (Inf s) (Inf t) = Inf (s \<noteq> t)"
| "f64_mul (Inf s) (Fin b) = (if b = 0 then NaN else Inf (s \<noteq> (b < 0)))"
| "f64_mul (Fin a) (Inf t) = (if a = 0 then NaN else Inf (t \<noteq> (a < 0)))"

fun f64_div :: "f64 \<Rightarrow> f64 \<Rightarrow> f64" where
  "f64_div (Fin a) (Fin b) =
     (if b = 0 then (if a = 0 then NaN else Inf (a < 0)) else f64_round (a / b))"
| "f64_div NaN _ = NaN"
| "f64_div _ NaN = NaN"
| "f64_div (Inf s) (Inf t) = NaN"
| "f64_div (Inf s) (Fin b) = Inf (s \<noteq> (b < 0))"
| "f64_div (Fin a) (Inf t) = Fin 0"

fun f64_neg :: "f64 \<Rightarrow> f64" where
  "f64_neg NaN = NaN"
| "f64_neg (Inf s) = Inf (\<not> s)"
| "f64_neg (Fin q) = Fin (- q)"

definition f64_sub :: "f64 \<Rightarrow> f64 \<Rightarrow> f64" where
  "f64_sub x y = f64_add x (f64_neg y)"

fun f64_lt :: "f64 \<Rightarrow> f64 \<Rightarrow> bool" where
  "f64_lt (Fin a) (Fin b) = (a < b)"
| "f64_lt NaN _ = False"
| "f64_lt _ NaN = False"
| "f64_lt (Inf s) (Inf t) = (s \<and> \<not> t)"
| "f64_lt (Inf s) (Fin _) = s"
| "f64_lt (Fin _) (Inf t) = (\<not> t)"

fun f64_eq :: "f64 \<Rightarrow> f64 \<Rightarrow> bool" where
  "f64_eq NaN _ = False"
| "f64_eq x y = (x = y)"

definition f64_le :: "f64 \<Rightarrow> f64 \<Rightarrow> bool" where
  "f64_le x y \<longleftrightarrow> f64_lt x y \<or> f64_eq x y"

fun f64_abs :: "f64 \<Rightarrow> f64" where
  "f64_abs NaN = NaN"
| "f64_abs (Inf s) = Inf False"
| "f64_abs (Fin q) = Fin \<bar>q\<bar>"

text \<open>\<^verbatim>\<open>f64::max\<close>: a NaN argument is ignored.\<close>

definition f64_max :: "f64 \<Rightarrow> f64 \<Rightarrow> f64" where
  "f64_max x y = (if x = NaN then y else if y = NaN then x else if f64_lt x y then y else x)"

fun f64_trunc :: "f64 \<Rightarrow> f64" where
  "f64_trunc (Fin q) = Fin (if q < 0 then of_int \<lceil>q\<rceil> else of_int \<lfloor>q\<rfloor>)"
| "f64_trunc x = x"

text \<open>\<^verbatim>\<open>x as u32\<close> truncates, saturates at both ends and sends NaN to zero.\<close>

fun f64_to_u32 :: "f64 \<Rightarrow> u32" where
  "f64_to_u32 NaN = 0"
| "f64_to_u32 (Inf s) = (if s then 0 else - 1)"
| "f64_to_u32 (Fin q) = (if q < 0 then 0 else if 2 ^ 32 \<le> q then - 1 else of_int \<lfloor>q\<rfloor>)"

text \<open>\<^verbatim>\<open>n as f64\<close>; the conversion rounds, and is exact up to \<open>2\<^sup>5\<^sup>3\<close>.\<close>

definition f64_of_nat :: "nat \<Rightarrow> f64" where
  "f64_of_nat n = f64_round (of_nat n)"

definition f64_of_u32 :: "u32 \<Rightarrow> f64" where
  "f64_of_u32 w = f64_of_nat (unat w)"

section \<open>Parsing\<close>

text \<open>
  \<^verbatim>\<open>Number ::= [sign] ( 'inf' | 'infinity' | 'nan' | Digit* '.' Digit* [Exp] )\<close> with at least one
  digit in the mantissa, the point optional, the words matched without regard to case, and
  \<^verbatim>\<open>Exp ::= 'e' | 'E' [sign] Digit+\<close>.
\<close>

definition ascii_lower :: "char \<Rightarrow> char" where
  "ascii_lower c = (if CHR ''A'' \<le> c \<and> c \<le> CHR ''Z'' then char_of (of_char c + 32 :: nat) else c)"

fun split_sign :: "string \<Rightarrow> bool \<times> string" where
  "split_sign [] = (False, [])"
| "split_sign (c # cs) =
     (if c = CHR ''-'' then (True, cs) else if c = CHR ''+'' then (False, cs) else (False, c # cs))"

fun parse_exp :: "string \<Rightarrow> int option" where
  "parse_exp [] = Some 0"
| "parse_exp (c # cs) =
     (if c = CHR ''e'' \<or> c = CHR ''E''
      then (case split_sign cs of (neg, ds) \<Rightarrow>
              if ds \<noteq> [] \<and> list_all is_ascii_digit ds
              then Some (if neg then - int (digits_val ds) else int (digits_val ds))
              else None)
      else None)"

definition parse_decimal :: "string \<Rightarrow> rat option" where
  "parse_decimal s =
     (let ip = takeWhile is_ascii_digit s; r = dropWhile is_ascii_digit s;
          (fp, r') = (case r of [] \<Rightarrow> ([], [])
                      | c # cs \<Rightarrow> if c = CHR ''.'' then (takeWhile is_ascii_digit cs, dropWhile is_ascii_digit cs)
                                 else ([], r))
      in if ip = [] \<and> fp = [] then None
         else map_option (\<lambda>x. of_nat (digits_val (ip @ fp)) * 10 powi (x - int (length fp))) (parse_exp r'))"

definition parse_f64 :: "string \<Rightarrow> f64 option" where
  "parse_f64 s = (case split_sign s of (neg, r) \<Rightarrow>
     (let w = map ascii_lower r in
      if w = ''inf'' \<or> w = ''infinity'' then Some (Inf neg)
      else if w = ''nan'' then Some NaN
      else map_option (\<lambda>q. f64_round (if neg then - q else q)) (parse_decimal r)))"

section \<open>Correctness of rounding\<close>

lemma floorlog2_bounds:
  "0 < n \<Longrightarrow> (2::nat) ^ (floorlog 2 n - 1) \<le> n \<and> n < 2 ^ floorlog 2 n \<and> 0 < floorlog 2 n"
  using floorlog_bounds [of n 2] floorlog_eq_zero_iff [of 2 n] by fastforce

lemma bitlen_powi:
  assumes "0 < n"
  shows "(2::rat) powi (int (floorlog 2 (nat n)) - 1) \<le> of_int n \<and> of_int n < (2::rat) powi int (floorlog 2 (nat n))"
proof -
  define l where "l = floorlog 2 (nat n)"
  have l: "2 ^ (l - 1) \<le> nat n" "nat n < 2 ^ l" "0 < l"
    using floorlog2_bounds [of "nat n"] assms unfolding l_def by auto
  have "(2::int) ^ (l - 1) \<le> n" "n < 2 ^ l"
    using l(1,2) assms by (auto simp: nat_less_iff le_nat_iff)
  then have "of_int (2 ^ (l - 1)) \<le> (of_int n :: rat)" "(of_int n :: rat) < of_int (2 ^ l)"
    by (simp_all only: of_int_le_iff of_int_less_iff)
  then have "(2::rat) ^ (l - 1) \<le> of_int n" "of_int n < (2::rat) ^ l"
    by (simp_all only: of_int_power of_int_numeral)
  moreover have "(2::rat) powi (int l - 1) = 2 ^ (l - 1)"
    using l(3) by (simp add: power_int_def nat_diff_distrib)
  ultimately show ?thesis by (simp add: l_def [symmetric])
qed

lemma rat_ilog2_bounds:
  assumes "0 < q"
  shows "2 powi rat_ilog2 q \<le> q \<and> q < 2 powi (rat_ilog2 q + 1)"
proof -
  obtain n d where nd: "quotient_of q = (n, d)" by (cases "quotient_of q")
  then have q: "q = of_int n / of_int d" and d: "0 < d"
    using quotient_of_div quotient_of_denom_pos by blast+
  with assms have n: "0 < n" by (simp add: zero_less_divide_iff)
  define e where "e = int (floorlog 2 (nat n)) - int (floorlog 2 (nat d))"
  note bn = bitlen_powi [OF n] and bd = bitlen_powi [OF d]
  have "q < 2 powi int (floorlog 2 (nat n)) / 2 powi (int (floorlog 2 (nat d)) - 1)"
    unfolding q using bn bd n d by (intro frac_less) auto
  also have "\<dots> = 2 powi (e + 1)"
    unfolding e_def by (subst power_int_diff [symmetric]) (simp_all add: algebra_simps)
  finally have hi: "q < 2 powi (e + 1)" .
  have "2 powi (e - 1) = 2 powi (int (floorlog 2 (nat n)) - 1) / (2 powi int (floorlog 2 (nat d)) :: rat)"
    unfolding e_def by (subst power_int_diff [symmetric]) (simp_all add: algebra_simps)
  also have "\<dots> < q"
    unfolding q using bn bd n d by (intro frac_less2) auto
  finally have lo: "2 powi (e - 1) < q" .
  have "rat_ilog2 q = (if 2 powi e \<le> q then e else e - 1)"
    by (simp add: rat_ilog2_def nd e_def Let_def)
  with hi lo show ?thesis by auto
qed

lemma powi_less_cancel: "(2::rat) powi a < 2 powi b \<Longrightarrow> a < b"
  by (metis linorder_not_less one_le_numeral power_int_increasing)

lemma rat_ilog2_less: "0 < q \<Longrightarrow> q < 2 powi k \<Longrightarrow> rat_ilog2 q < k"
  using rat_ilog2_bounds [of q] by (metis order_le_less_trans powi_less_cancel)

lemma rat_ilog2_ge: "0 < q \<Longrightarrow> 2 powi k \<le> q \<Longrightarrow> k \<le> rat_ilog2 q"
  using rat_ilog2_bounds [of q] powi_less_cancel [of k "rat_ilog2 q + 1"] by (simp add: order_le_less_trans)

lemma rat_ilog2_mono: "0 < q \<Longrightarrow> q \<le> q' \<Longrightarrow> rat_ilog2 q \<le> rat_ilog2 q'"
  using rat_ilog2_bounds [of q] rat_ilog2_ge [of q' "rat_ilog2 q"] by simp

lemma round_even_of_int [simp]: "round_even (of_int m) = m"
  by (simp add: round_even_def)

lemma round_even_floor: "round_even q = \<lfloor>q\<rfloor> \<or> round_even q = \<lfloor>q\<rfloor> + 1"
  by (simp add: round_even_def Let_def)

lemma round_even_mono:
  assumes "q \<le> q'"
  shows "round_even q \<le> round_even q'"
proof (cases "\<lfloor>q\<rfloor> = \<lfloor>q'\<rfloor>")
  case True
  with assms show ?thesis
    unfolding round_even_def Let_def by auto
next
  case False
  with floor_mono [OF assms] show ?thesis
    using round_even_floor [of q] round_even_floor [of q'] by linarith
qed

lemma round_even_le: "q \<le> of_int m \<Longrightarrow> round_even q \<le> m"
  using round_even_mono [of q "of_int m"] by simp

lemma round_even_ge: "of_int m \<le> q \<Longrightarrow> m \<le> round_even q"
  using round_even_mono [of "of_int m" q] by simp

lemma powi_pos [simp]: "0 < (2::rat) powi e"
  by simp

lemma of_int_powi: "0 \<le> p \<Longrightarrow> of_int (2 ^ nat p) = (2::rat) powi p"
  by (simp add: power_int_def)

lemma powi_scale: "(2::rat) powi (k - e) * 2 powi e = 2 powi k"
  by (simp flip: power_int_add)

text \<open>Rounding a magnitude never crosses a multiple of its unit in the last place.\<close>

lemma round_mag_le:
  assumes "a \<le> of_int m * 2 powi ulp_exp a"
  shows "round_mag a \<le> of_int m * 2 powi ulp_exp a"
proof -
  have "a / 2 powi ulp_exp a \<le> of_int m" using assms by (simp add: pos_divide_le_eq)
  then have "round_even (a / 2 powi ulp_exp a) \<le> m" by (rule round_even_le)
  then show ?thesis by (simp add: round_mag_def)
qed

lemma round_mag_ge:
  assumes "of_int m * 2 powi ulp_exp a \<le> a"
  shows "of_int m * 2 powi ulp_exp a \<le> round_mag a"
proof -
  have "of_int m \<le> a / 2 powi ulp_exp a" using assms by (simp add: pos_le_divide_eq)
  then have "m \<le> round_even (a / 2 powi ulp_exp a)" by (rule round_even_ge)
  then show ?thesis by (simp add: round_mag_def)
qed

lemma round_mag_le_powi:
  assumes "a \<le> 2 powi k" "ulp_exp a \<le> k"
  shows "round_mag a \<le> 2 powi k"
  using round_mag_le [of a "2 ^ nat (k - ulp_exp a)"] assms
  by (simp only: of_int_powi powi_scale diff_ge_0_iff_ge)

lemma round_mag_ge_powi:
  assumes "2 powi k \<le> a" "ulp_exp a \<le> k"
  shows "2 powi k \<le> round_mag a"
  using round_mag_ge [of "2 ^ nat (k - ulp_exp a)" a] assms
  by (simp only: of_int_powi powi_scale diff_ge_0_iff_ge)

lemma round_mag_nonneg: "0 \<le> a \<Longrightarrow> 0 \<le> round_mag a"
  using round_mag_ge [of 0 a] by simp

lemma round_mag_mono:
  assumes "0 < a" "a \<le> b"
  shows "round_mag a \<le> round_mag b"
proof (cases "ulp_exp a = ulp_exp b")
  case True
  have "a / 2 powi ulp_exp b \<le> b / 2 powi ulp_exp b" using assms(2) by (simp add: divide_right_mono)
  then show ?thesis
    unfolding round_mag_def True by (intro mult_right_mono) (auto intro: round_even_mono)
next
  case False
  have le: "rat_ilog2 a \<le> rat_ilog2 b" by (rule rat_ilog2_mono) (use assms in auto)
  with False have lt: "rat_ilog2 a < rat_ilog2 b" and eb: "ulp_exp b = rat_ilog2 b - 52"
    and ea: "ulp_exp a \<le> rat_ilog2 b"
    by (auto simp: ulp_exp_def max_def split: if_splits)
  have "a \<le> 2 powi rat_ilog2 b"
    using rat_ilog2_bounds [OF assms(1)] lt power_int_increasing [of "rat_ilog2 a + 1" "rat_ilog2 b" "2::rat"] by simp
  then have "round_mag a \<le> 2 powi rat_ilog2 b" using ea by (rule round_mag_le_powi)
  also have "\<dots> \<le> round_mag b"
    using rat_ilog2_bounds [of b] assms eb by (intro round_mag_ge_powi) auto
  finally show ?thesis .
qed

text \<open>The finite binary64 values: an integer of at most 53 bits times a power of two.\<close>

definition representable :: "rat \<Rightarrow> bool" where
  "representable v \<longleftrightarrow> \<bar>v\<bar> < 2 ^ 1024 \<and>
     (\<exists>m e. v = of_int m * 2 powi e \<and> \<bar>m\<bar> < 2 ^ 53 \<and> - 1074 \<le> e)"

lemma round_mag_representable:
  assumes "0 < a" "a = of_int m * 2 powi e" "m < 2 ^ 53" "- 1074 \<le> e"
  shows "round_mag a = a"
proof -
  have "of_int m < (of_int (2 ^ 53) :: rat)" using assms(3) by (simp only: of_int_less_iff)
  then have "a < 2 ^ 53 * 2 powi e" using assms(2) mult_strict_right_mono [OF _ powi_pos] by (simp only: of_int_power of_int_numeral)
  also have "\<dots> = 2 powi (53 + e)" by (simp add: power_int_add)
  finally have "rat_ilog2 a < 53 + e" using assms(1) by (intro rat_ilog2_less)
  then have e: "ulp_exp a \<le> e" using assms(4) by (simp add: ulp_exp_def)
  then have "a = of_int (m * 2 ^ nat (e - ulp_exp a)) * 2 powi ulp_exp a"
    using assms(2) powi_scale [of e "ulp_exp a"] of_int_powi [of "e - ulp_exp a"]
    by (simp only: of_int_mult mult.assoc diff_ge_0_iff_ge)
  then show ?thesis using round_mag_le [of a] round_mag_ge [of _ a] by (metis order_antisym order_refl)
qed

lemma f64_round_representable: "representable v \<Longrightarrow> f64_round v = Fin v"
proof -
  assume "representable v"
  then obtain m e where v: "v = of_int m * 2 powi e" "\<bar>m\<bar> < 2 ^ 53" "- 1074 \<le> e" and b: "\<bar>v\<bar> < 2 ^ 1024"
    unfolding representable_def by blast
  have abs_v: "\<bar>v\<bar> = of_int \<bar>m\<bar> * 2 powi e" by (simp add: v(1) abs_mult)
  show ?thesis
  proof (cases "v = 0")
    case False
    then have "round_mag \<bar>v\<bar> = \<bar>v\<bar>"
      using abs_v v(2,3) by (intro round_mag_representable) auto
    with b False show ?thesis by (simp add: f64_round_def Let_def)
  qed (simp add: f64_round_def)
qed

lemma half_representable: "representable (1 / 2)"
proof -
  have "(1 / 2 :: rat) = of_int 1 * 2 powi - 1" by simp
  then show ?thesis unfolding representable_def by (intro conjI exI [of _ 1] exI [of _ "- 1"]) auto
qed

lemma f64_round_of_int: "\<bar>i\<bar> < 2 ^ 53 \<Longrightarrow> f64_round (of_int i) = Fin (of_int i)"
proof (rule f64_round_representable)
  assume i: "\<bar>i\<bar> < 2 ^ 53"
  then have "\<bar>i\<bar> < 2 ^ 1024" by (rule order_less_le_trans) (rule power_increasing; simp)
  then have "(of_int \<bar>i\<bar> :: rat) < of_int (2 ^ 1024)" by (simp only: of_int_less_iff)
  then have "\<bar>of_int i :: rat\<bar> < 2 ^ 1024" by (simp only: of_int_abs of_int_power of_int_numeral)
  with i show "representable (of_int i)"
    unfolding representable_def by (intro conjI exI [of _ i] exI [of _ 0]) auto
qed

lemma f64_of_nat_exact: "n < 2 ^ 53 \<Longrightarrow> f64_of_nat n = Fin (of_nat n)"
  using f64_round_of_int [of "int n"] by (simp add: f64_of_nat_def)

lemma f64_of_u32_exact: "f64_of_u32 w = Fin (of_nat (unat w))"
proof -
  have "unat w < 2 ^ 32" by (rule order_less_le_trans [OF unsigned_less]) simp
  then have "unat w < 2 ^ 53" by (rule order_less_le_trans) (rule power_increasing; simp)
  then show ?thesis by (simp add: f64_of_u32_def f64_of_nat_exact)
qed

lemma f64_round_mono_nonneg:
  assumes "0 \<le> a" "a \<le> b"
  shows "f64_le (f64_round a) (f64_round b)"
proof (cases "a = 0")
  case True
  with assms show ?thesis
    using round_mag_nonneg [of b] by (auto simp: f64_round_def Let_def f64_le_def)
next
  case False
  with assms have "round_mag a \<le> round_mag b" by (intro round_mag_mono) auto
  with assms False show ?thesis
    by (auto simp: f64_round_def Let_def f64_le_def)
qed

lemma f64_round_overflow: "2 ^ 1024 \<le> q \<Longrightarrow> f64_round q = Inf False"
proof -
  assume q: "2 ^ 1024 \<le> q"
  then have pos: "0 < q" by (rule less_le_trans [rotated]) simp
  have "round_mag (2 powi 1024) \<le> round_mag q" using q by (intro round_mag_mono) simp_all
  moreover have "round_mag (2 powi 1024) = 2 powi 1024"
    by (rule round_mag_representable [of _ 1 1024]) simp_all
  ultimately show ?thesis using pos by (simp add: f64_round_def Let_def)
qed

section \<open>Parsing of unsigned numbers\<close>

lemma not_digit_dot [simp]: "\<not> is_ascii_digit CHR ''.''"
  by (simp add: is_ascii_digit_of_char)

lemma parse_decimal_digits:
  "ip \<noteq> [] \<Longrightarrow> list_all is_ascii_digit ip \<Longrightarrow> parse_decimal ip = Some (of_nat (digits_val ip))"
  by (simp add: parse_decimal_def Let_def list_all_takeWhile)

lemma parse_decimal_frac:
  assumes "ip \<noteq> []" "list_all is_ascii_digit ip" "list_all is_ascii_digit fp"
  shows "parse_decimal (ip @ CHR ''.'' # fp) = Some (of_nat (digits_val (ip @ fp)) * 10 powi (- int (length fp)))"
  using assms by (simp add: parse_decimal_def Let_def list_all_takeWhile list_all_takeWhile_stop)

text \<open>A text that starts with a digit is neither signed nor one of the words.\<close>

lemma parse_f64_digit_head:
  assumes "is_ascii_digit c"
  shows "parse_f64 (c # cs) = map_option f64_round (parse_decimal (c # cs))"
proof -
  have n: "48 \<le> (of_char c :: nat)" "of_char c \<le> (57 :: nat)"
    using assms by (simp_all add: is_ascii_digit_of_char)
  then have "c \<noteq> CHR ''-''" "c \<noteq> CHR ''+''" "c \<noteq> CHR ''i''" "c \<noteq> CHR ''n''" by auto
  moreover have "ascii_lower c = c" using n by (simp add: ascii_lower_def less_eq_char_def)
  ultimately show ?thesis by (simp add: parse_f64_def)
qed

lemma parse_f64_digits:
  "s \<noteq> [] \<Longrightarrow> list_all is_ascii_digit s \<Longrightarrow> parse_f64 s = Some (f64_of_nat (digits_val s))"
  using parse_decimal_digits [of s] parse_f64_digit_head [of "hd s" "tl s"]
  by (cases s) (simp_all add: f64_of_nat_def)

lemma parse_f64_frac:
  assumes "ip \<noteq> []" "list_all is_ascii_digit ip" "list_all is_ascii_digit fp"
  shows "parse_f64 (ip @ CHR ''.'' # fp) = Some (f64_round (of_nat (digits_val (ip @ fp)) * 10 powi (- int (length fp))))"
  using parse_decimal_frac [OF assms] parse_f64_digit_head [of "hd ip" "tl ip @ CHR ''.'' # fp"] assms(1,2)
  by (cases ip) simp_all

lemma f64_round_nonneg: "0 \<le> q \<Longrightarrow> f64_round q = Inf False \<or> (\<exists>v. f64_round q = Fin v \<and> 0 \<le> v)"
  using round_mag_nonneg [of q] by (auto simp: f64_round_def Let_def)

lemmas parse_f64_eval = parse_f64_digits is_ascii_digit_of_char f64_of_nat_exact digits_val_def digit_val_def

section \<open>Rounding error\<close>

lemma ulp_exp_bound: "0 < a \<Longrightarrow> a < 2 powi k \<Longrightarrow> - 1022 < k \<Longrightarrow> ulp_exp a \<le> k - 53"
  using rat_ilog2_less [of a k] by (simp add: ulp_exp_def)

lemma round_even_error: "\<bar>of_int (round_even q) - q\<bar> \<le> 1 / 2"
proof -
  have "of_int \<lfloor>q\<rfloor> \<le> q" "q < of_int \<lfloor>q\<rfloor> + 1" by linarith+
  then show ?thesis unfolding round_even_def Let_def abs_le_iff by (cases "q - of_int \<lfloor>q\<rfloor> < 1 / 2"; cases "1 / 2 < q - of_int \<lfloor>q\<rfloor>"; cases "even \<lfloor>q\<rfloor>"; simp only: if_True if_False of_int_add of_int_1; linarith)
qed

text \<open>A magnitude below \<open>2 powi k\<close> is rounded by at most half a unit in the last place.\<close>

lemma round_mag_error:
  assumes "0 < a" "a < 2 powi k" "- 1022 < k"
  shows "\<bar>round_mag a - a\<bar> \<le> 2 powi (k - 54)"
proof -
  let ?u = "(2 :: rat) powi ulp_exp a"
  have "round_mag a - a = (of_int (round_even (a / ?u)) - a / ?u) * ?u" by (simp add: round_mag_def left_diff_distrib)
  then have "\<bar>round_mag a - a\<bar> = \<bar>of_int (round_even (a / ?u)) - a / ?u\<bar> * ?u" by (simp add: abs_mult)
  also have "\<dots> \<le> 1 / 2 * ?u" using round_even_error [of "a / ?u"] by (intro mult_right_mono) auto
  also have "\<dots> \<le> 1 / 2 * 2 powi (k - 53)" using ulp_exp_bound [OF assms] by (intro mult_left_mono power_int_increasing) auto
  also have "\<dots> = 2 powi (k - 54)" using powi_scale [of "k - 54" "- 1"] by (simp flip: power_int_add power_int_minus)
  finally show ?thesis .
qed

lemma f64_round_error:
  assumes "0 \<le> a" "a < 2 powi k" "- 1022 < k" "k \<le> 1023"
  obtains v where "f64_round a = Fin v" "0 \<le> v" "\<bar>v - a\<bar> \<le> 2 powi (k - 54)"
proof (cases "a = 0")
  case True
  then show ?thesis by (intro that [of 0]) (auto simp: f64_round_def)
next
  case False
  then have pos: "0 < a" using assms(1) by simp
  have "round_mag a \<le> 2 powi k" using assms(2,3) ulp_exp_bound [OF pos assms(2,3)] by (intro round_mag_le_powi) auto
  also have "\<dots> \<le> 2 powi 1023" using assms(4) by (intro power_int_increasing) auto
  finally have "round_mag a \<le> 2 ^ 1023" by simp
  also have "\<dots> < (2 :: rat) ^ 1024" by (rule power_strict_increasing) simp_all
  finally have "f64_round a = Fin (round_mag a)" using pos by (simp add: f64_round_def Let_def)
  then show ?thesis using that round_mag_nonneg [of a] round_mag_error [OF pos assms(2,3)] pos by auto
qed

lemma unat_f64_to_u32: "0 \<le> v \<Longrightarrow> v < 2 ^ 32 \<Longrightarrow> unat (f64_to_u32 (Fin v)) = nat \<lfloor>v\<rfloor>"
proof -
  assume v: "0 \<le> v" "v < 2 ^ 32"
  then have "\<lfloor>v\<rfloor> < 2 ^ 32" "0 \<le> \<lfloor>v\<rfloor>" by (simp_all add: floor_less_iff)
  then have "uint (word_of_int \<lfloor>v\<rfloor> :: u32) = \<lfloor>v\<rfloor>" by (simp add: uint_word_of_int)
  then show ?thesis using v by (simp add: unat_eq_nat_uint)
qed

end
