(* ===== verification/Assignment_Config.thy ===== *)
theory Assignment_Config
  imports Float64
begin

text \<open>
  Configuration of the assignment service M1: the types of \<^verbatim>\<open>config.rs\<close>, the construction of the two
  indexes, and the live cache of \<^verbatim>\<open>config_cache.rs\<close> that applies the update stream of M5 and
  publishes snapshots. Record fields carry a short prefix naming their struct.
\<close>

section \<open>Types of config.rs\<close>

record targeting_predicate =
  tp_attribute_key :: string
  tp_operator :: string
  tp_values :: "string list"

record targeting_group =
  tg_predicates :: "targeting_predicate list"

record targeting_rule =
  tr_groups :: "targeting_group list"

record session_config =
  ss_session_id_attribute :: string
  ss_allow_cross_session_variation :: bool

record interleaving_config =
  il_method :: string
  il_algorithm_ids :: "string list"
  il_max_list_size :: nat

definition default_max_list_size :: nat where
  "default_max_list_size = 50"

record slate_config =
  sl_num_slots :: int
  sl_candidate_pool_size :: int

record bandit_arm_config =
  arm_id :: string
  arm_name :: string
  arm_payload_json :: string

record bandit_config =
  bc_algorithm :: string
  bc_arms :: "bandit_arm_config list"
  bc_reward_metric_id :: string
  bc_context_feature_keys :: "string list"
  bc_min_exploration_fraction :: f64
  bc_warmup_observations :: int
  bc_content_id :: "string option"
  bc_cold_start_window_days :: "int option"
  bc_slate_config :: "slate_config option"

definition default_min_exploration :: f64 where
  "default_min_exploration = f64_round (1 / 10)"

definition default_warmup_observations :: int where
  "default_warmup_observations = 1000"

record switchback_config =
  sb_block_duration_secs :: int
  sb_planned_cycles :: int
  sb_cluster_attribute :: string
  sb_washout_period_secs :: int
  sb_design :: string

record meta_variant_objective =
  mo_variant_id :: string
  mo_reward_weights :: "(string, f64) hash_map"

record meta_experiment_config =
  me_base_algorithm :: string
  me_variant_objectives :: "meta_variant_objective list"
  me_outcome_metric_ids :: "string list"

record variant_config =
  vc_variant_id :: string
  vc_traffic_fraction :: f64
  vc_is_control :: bool
  vc_payload_json :: string

record allocation_config =
  ac_start_bucket :: u32
  ac_end_bucket :: u32

record layer_config =
  lc_layer_id :: string
  lc_total_buckets :: u32

record experiment_config =
  ec_experiment_id :: string
  ec_name :: string
  ec_state :: string
  ec_type :: string
  ec_hash_salt :: string
  ec_layer_id :: string
  ec_variants :: "variant_config list"
  ec_allocation :: allocation_config
  ec_targeting_rule :: "targeting_rule option"
  ec_session_config :: "session_config option"
  ec_interleaving_config :: "interleaving_config option"
  ec_bandit_config :: "bandit_config option"
  ec_is_cumulative_holdout :: bool
  ec_switchback_config :: "switchback_config option"
  ec_meta_experiment_config :: "meta_experiment_config option"

record config =
  cfg_experiments :: "experiment_config list"
  cfg_layers :: "layer_config list"
  cfg_experiments_by_id :: "(string, experiment_config) hash_map"
  cfg_layers_by_id :: "(string, layer_config) hash_map"

definition from_experiments_and_layers :: "experiment_config list \<Rightarrow> layer_config list \<Rightarrow> config" where
  "from_experiments_and_layers experiments layers =
     \<lparr>cfg_experiments = experiments, cfg_layers = layers,
      cfg_experiments_by_id = collect_map (map (\<lambda>e. (ec_experiment_id e, e)) experiments),
      cfg_layers_by_id = collect_map (map (\<lambda>l. (lc_layer_id l, l)) layers)\<rparr>"

text \<open>
  \<open>from_json\<close> deserialises with \<^verbatim>\<open>serde_json\<close> (the parameter \<open>from_str\<close>), asserts that every traffic
  fraction is finite and builds the indexes.
\<close>

definition from_json ::
  "(string \<Rightarrow> ('e, experiment_config list \<times> layer_config list) outcome) \<Rightarrow> string \<Rightarrow> ('e, config) outcome" where
  "from_json from_str json =
     obind (from_str json) (\<lambda>(experiments, layers).
       if \<forall>exp \<in> set experiments. \<forall>v \<in> set (ec_variants exp). is_finite (vc_traffic_fraction v)
       then Ok (from_experiments_and_layers experiments layers)
       else Panic)"

section \<open>The update stream\<close>

record proto_variant =
  pv_variant_id :: string
  pv_name :: string
  pv_traffic_fraction :: f64
  pv_is_control :: bool
  pv_payload_json :: string

record proto_experiment =
  pe_experiment_id :: string
  pe_name :: string
  pe_state :: int
  pe_type :: int
  pe_hash_salt :: string
  pe_layer_id :: string
  pe_variants :: "proto_variant list"
  pe_is_cumulative_holdout :: bool

record config_update =
  cu_experiment :: "proto_experiment option"
  cu_is_deletion :: bool
  cu_version :: int

text \<open>The names of the two protobuf enums, by number.\<close>

definition experiment_state_names :: "(int \<times> string) list" where
  "experiment_state_names =
     [(0, ''EXPERIMENT_STATE_UNSPECIFIED''), (1, ''EXPERIMENT_STATE_DRAFT''),
      (2, ''EXPERIMENT_STATE_STARTING''), (3, ''EXPERIMENT_STATE_RUNNING''),
      (4, ''EXPERIMENT_STATE_CONCLUDING''), (5, ''EXPERIMENT_STATE_CONCLUDED''),
      (6, ''EXPERIMENT_STATE_ARCHIVED''), (7, ''EXPERIMENT_STATE_PAUSED'')]"

definition experiment_type_names :: "(int \<times> string) list" where
  "experiment_type_names =
     [(0, ''EXPERIMENT_TYPE_UNSPECIFIED''), (1, ''EXPERIMENT_TYPE_AB''),
      (2, ''EXPERIMENT_TYPE_MULTIVARIATE''), (3, ''EXPERIMENT_TYPE_INTERLEAVING''),
      (4, ''EXPERIMENT_TYPE_SESSION_LEVEL''), (5, ''EXPERIMENT_TYPE_PLAYBACK_QOE''),
      (6, ''EXPERIMENT_TYPE_MAB''), (7, ''EXPERIMENT_TYPE_CONTEXTUAL_BANDIT''),
      (8, ''EXPERIMENT_TYPE_CUMULATIVE_HOLDOUT''), (9, ''EXPERIMENT_TYPE_META''),
      (10, ''EXPERIMENT_TYPE_SWITCHBACK''), (11, ''EXPERIMENT_TYPE_QUASI'')]"

definition strip_prefix :: "string \<Rightarrow> string \<Rightarrow> string option" where
  "strip_prefix p s = (if take (length p) s = p then Some (drop (length p) s) else None)"

text \<open>\<^verbatim>\<open>try_from(n).map(strip).unwrap_or_else(|_| "UNSPECIFIED")\<close>\<close>

definition enum_str :: "(int \<times> string) list \<Rightarrow> string \<Rightarrow> int \<Rightarrow> string" where
  "enum_str names prefix n =
     (case map_of names n of
        None \<Rightarrow> ''UNSPECIFIED''
      | Some s \<Rightarrow> unwrap_or s (strip_prefix prefix s))"

definition variant_from_proto :: "proto_variant \<Rightarrow> ('e, variant_config) outcome" where
  "variant_from_proto v =
     (if is_finite (pv_traffic_fraction v)
      then Ok \<lparr>vc_variant_id = pv_variant_id v, vc_traffic_fraction = pv_traffic_fraction v,
               vc_is_control = pv_is_control v, vc_payload_json = pv_payload_json v\<rparr>
      else Panic)"

fun map_outcome :: "('a \<Rightarrow> ('e, 'b) outcome) \<Rightarrow> 'a list \<Rightarrow> ('e, 'b list) outcome" where
  "map_outcome f [] = Ok []"
| "map_outcome f (x # xs) = obind (f x) (\<lambda>y. obind (map_outcome f xs) (\<lambda>ys. Ok (y # ys)))"

definition experiment_from_proto ::
  "proto_experiment \<Rightarrow> experiment_config option \<Rightarrow> ('e, experiment_config) outcome" where
  "experiment_from_proto p existing =
     obind (map_outcome variant_from_proto (pe_variants p)) (\<lambda>variants.
       Ok \<lparr>ec_experiment_id = pe_experiment_id p,
           ec_name = pe_name p,
           ec_state = enum_str experiment_state_names ''EXPERIMENT_STATE_'' (pe_state p),
           ec_type = enum_str experiment_type_names ''EXPERIMENT_TYPE_'' (pe_type p),
           ec_hash_salt = pe_hash_salt p,
           ec_layer_id = pe_layer_id p,
           ec_variants = variants,
           ec_allocation = (case existing of Some e \<Rightarrow> ec_allocation e
                            | None \<Rightarrow> \<lparr>ac_start_bucket = 0, ac_end_bucket = 9999\<rparr>),
           ec_targeting_rule = Option.bind existing ec_targeting_rule,
           ec_session_config = Option.bind existing ec_session_config,
           ec_interleaving_config = Option.bind existing ec_interleaving_config,
           ec_bandit_config = Option.bind existing ec_bandit_config,
           ec_is_cumulative_holdout = pe_is_cumulative_holdout p,
           ec_switchback_config = Option.bind existing ec_switchback_config,
           ec_meta_experiment_config = Option.bind existing ec_meta_experiment_config\<rparr>)"

section \<open>The cache\<close>

text \<open>
  \<open>cc_tx\<close> is the value held by the watch channel, which is what \<open>snapshot\<close> returns to every reader.
\<close>

record config_cache =
  cc_tx :: config
  cc_experiments :: "(string, experiment_config) hash_map"
  cc_layers :: "(string, layer_config) hash_map"
  cc_last_version :: int

definition cache_new :: "config \<Rightarrow> config_cache" where
  "cache_new initial =
     \<lparr>cc_tx = initial,
      cc_experiments = collect_map (map (\<lambda>e. (ec_experiment_id e, e)) (cfg_experiments initial)),
      cc_layers = collect_map (map (\<lambda>l. (lc_layer_id l, l)) (cfg_layers initial)),
      cc_last_version = 0\<rparr>"

text \<open>The iteration orders of the two hash maps are the parameters \<open>xs\<close> and \<open>ls\<close>.\<close>

type_synonym exp_order = "(string, experiment_config) hash_map \<Rightarrow> experiment_config list"
type_synonym layer_order = "(string, layer_config) hash_map \<Rightarrow> layer_config list"

definition publish :: "exp_order \<Rightarrow> layer_order \<Rightarrow> config_cache \<Rightarrow> config_cache" where
  "publish xs ls c = c\<lparr>cc_tx := from_experiments_and_layers (xs (cc_experiments c)) (ls (cc_layers c))\<rparr>"

definition register_layer :: "string \<Rightarrow> config_cache \<Rightarrow> config_cache" where
  "register_layer layer_id c =
     (if layer_id \<noteq> [] \<and> cc_layers c layer_id = None
      then c\<lparr>cc_layers := (cc_layers c)(layer_id \<mapsto> \<lparr>lc_layer_id = layer_id, lc_total_buckets = 10000\<rparr>)\<rparr>
      else c)"

definition bump_version :: "int \<Rightarrow> config_cache \<Rightarrow> config_cache" where
  "bump_version v c = (if v > cc_last_version c then c\<lparr>cc_last_version := v\<rparr> else c)"

definition apply_update ::
  "exp_order \<Rightarrow> layer_order \<Rightarrow> config_update \<Rightarrow> config_cache \<Rightarrow> ('e, config_cache) outcome" where
  "apply_update xs ls u c =
     (let exp_id = (case cu_experiment u of None \<Rightarrow> [] | Some e \<Rightarrow> pe_experiment_id e);
          updated =
            (if cu_is_deletion u
             then Ok (c\<lparr>cc_experiments := (cc_experiments c)(exp_id := None)\<rparr>)
             else case cu_experiment u of
                    None \<Rightarrow> Ok c
                  | Some p \<Rightarrow>
                      obind (experiment_from_proto p (cc_experiments c exp_id)) (\<lambda>exp_config.
                        let c' = register_layer (ec_layer_id exp_config) c
                        in Ok (c'\<lparr>cc_experiments := (cc_experiments c')(exp_id \<mapsto> exp_config)\<rparr>)))
      in obind updated (\<lambda>c'. Ok (publish xs ls (bump_version (cu_version u) c'))))"

definition last_version :: "config_cache \<Rightarrow> int" where
  "last_version c = cc_last_version c"

definition snapshot :: "config_cache \<Rightarrow> config" where
  "snapshot c = cc_tx c"

section \<open>Invariants of the cache\<close>

lemma map_outcome_Ok_iff: "map_outcome f xs = Ok ys \<longleftrightarrow> list_all2 (\<lambda>x y. f x = Ok y) xs ys"
  by (induction xs arbitrary: ys) (auto simp: outcome_simps list_all2_Cons1)

lemma map_outcome_Panic_iff: "(\<And>x. f x = Panic \<or> (\<exists>y. f x = Ok y)) \<Longrightarrow> map_outcome f xs = Panic \<longleftrightarrow> (\<exists>x \<in> set xs. f x = Panic)"
proof (induction xs)
  case (Cons x xs)
  then consider "f x = Panic" | y where "f x = Ok y" by blast
  then show ?case using Cons by cases (auto simp: outcome_simps)
qed simp

lemma experiment_from_proto_Ok:
  assumes "experiment_from_proto p existing = Ok e"
  shows "ec_experiment_id e = pe_experiment_id p" "ec_layer_id e = pe_layer_id p"
    "list_all (\<lambda>v. is_finite (vc_traffic_fraction v)) (ec_variants e)"
proof -
  from assms obtain vs where vs: "map_outcome variant_from_proto (pe_variants p) = (Ok vs :: ('a, variant_config list) outcome)"
    and e: "ec_variants e = vs" "ec_experiment_id e = pe_experiment_id p" "ec_layer_id e = pe_layer_id p"
    by (auto simp: experiment_from_proto_def outcome_simps)
  show "ec_experiment_id e = pe_experiment_id p" "ec_layer_id e = pe_layer_id p" by (simp_all add: e)
  have "list_all2 (\<lambda>x y. variant_from_proto x = (Ok y :: ('a, variant_config) outcome)) (pe_variants p) vs"
    using vs by (simp add: map_outcome_Ok_iff)
  then have "list_all (\<lambda>v. is_finite (vc_traffic_fraction v)) vs"
    by (induction rule: list_all2_induct) (auto simp: variant_from_proto_def split: if_splits)
  then show "list_all (\<lambda>v. is_finite (vc_traffic_fraction v)) (ec_variants e)" by (simp add: e)
qed

definition cache_step :: "exp_order \<Rightarrow> layer_order \<Rightarrow> config_cache \<Rightarrow> config_cache \<Rightarrow> bool" where
  "cache_step xs ls c c' \<longleftrightarrow> (\<exists>u. apply_update xs ls u c = (Ok c' :: (unit, config_cache) outcome))"

lemma apply_update_cases:
  assumes "apply_update xs ls u c = (Ok c' :: ('e, config_cache) outcome)"
  obtains (delete) x where "cu_is_deletion u"
      "c' = publish xs ls (bump_version (cu_version u) (c\<lparr>cc_experiments := (cc_experiments c)(x := None)\<rparr>))"
  | (unchanged) "\<not> cu_is_deletion u" "cu_experiment u = None" "c' = publish xs ls (bump_version (cu_version u) c)"
  | (upsert) p e where "\<not> cu_is_deletion u" "cu_experiment u = Some p"
      "experiment_from_proto p (cc_experiments c (pe_experiment_id p)) = (Ok e :: ('e, experiment_config) outcome)"
      "c' = publish xs ls (bump_version (cu_version u)
         ((register_layer (ec_layer_id e) c)\<lparr>cc_experiments := (cc_experiments c)(pe_experiment_id p \<mapsto> e)\<rparr>))"
proof (cases "cu_is_deletion u")
  case True
  then show thesis using assms delete by (auto simp: apply_update_def Let_def outcome_simps)
next
  case False
  show thesis
  proof (cases "cu_experiment u")
    case None
    with False show thesis using assms by (intro unchanged) (simp_all add: apply_update_def Let_def)
  next
    case (Some p)
    have [simp]: "cc_experiments (register_layer l c) = cc_experiments c" for l by (simp add: register_layer_def)
    obtain e where e: "experiment_from_proto p (cc_experiments c (pe_experiment_id p)) = (Ok e :: ('e, experiment_config) outcome)"
      using assms False Some by (auto simp: apply_update_def Let_def outcome_simps)
    then show thesis using assms by (intro upsert [OF False Some e]) (simp add: apply_update_def Let_def False Some)
  qed
qed

lemma cache_selectors [simp]:
  "cc_experiments (publish xs ls c) = cc_experiments c" "cc_layers (publish xs ls c) = cc_layers c"
  "cc_last_version (publish xs ls c) = cc_last_version c"
  "cc_experiments (bump_version v c) = cc_experiments c" "cc_layers (bump_version v c) = cc_layers c"
  "cc_last_version (bump_version v c) = max v (cc_last_version c)"
  "cc_last_version (register_layer l c) = cc_last_version c"
  "cc_experiments (register_layer l c) = cc_experiments c"
  by (simp_all add: publish_def bump_version_def register_layer_def)

lemma register_layer_facts:
  "keyed lc_layer_id (cc_layers c) \<Longrightarrow> keyed lc_layer_id (cc_layers (register_layer l c))"
  "dom (cc_layers (register_layer l c)) = dom (cc_layers c) \<union> (if l = [] then {} else {l})"
  by (auto simp: register_layer_def intro: keyed_upd)

lemma register_layer_buckets:
  "\<forall>l \<in> ran (cc_layers c). 0 < lc_total_buckets l \<Longrightarrow> \<forall>l \<in> ran (cc_layers (register_layer x c)). 0 < lc_total_buckets l"
  by (auto simp: register_layer_def ran_def split: if_splits)

text \<open>
  The maps are keyed by the identifiers of their entries, the published indexes are the maps, and every
  experiment with a layer has an entry for it that has buckets.
\<close>

definition cache_inv :: "config_cache \<Rightarrow> bool" where
  "cache_inv c \<longleftrightarrow>
     keyed ec_experiment_id (cc_experiments c) \<and> keyed lc_layer_id (cc_layers c) \<and>
     cfg_experiments_by_id (snapshot c) = cc_experiments c \<and> cfg_layers_by_id (snapshot c) = cc_layers c"

definition layers_inv :: "config_cache \<Rightarrow> bool" where
  "layers_inv c \<longleftrightarrow>
     (\<forall>e \<in> ran (cc_experiments c). ec_layer_id e \<noteq> [] \<longrightarrow> ec_layer_id e \<in> dom (cc_layers c)) \<and>
     (\<forall>l \<in> ran (cc_layers c). 0 < lc_total_buckets l)"

lemma publish_inv:
  assumes "hash_map_values xs" "hash_map_values ls" "keyed ec_experiment_id (cc_experiments c)" "keyed lc_layer_id (cc_layers c)"
  shows "cache_inv (publish xs ls c)"
proof -
  have "cfg_experiments_by_id (snapshot (publish xs ls c)) = cc_experiments c"
    using collect_values(1) [OF assms(1,3)] by (simp add: snapshot_def publish_def from_experiments_and_layers_def)
  moreover have "cfg_layers_by_id (snapshot (publish xs ls c)) = cc_layers c"
    using collect_values(1) [OF assms(2,4)] by (simp add: snapshot_def publish_def from_experiments_and_layers_def)
  ultimately show ?thesis using assms by (simp add: cache_inv_def)
qed

lemma apply_update_inv:
  assumes "hash_map_values xs" "hash_map_values ls" "cache_inv c" "apply_update xs ls u c = Ok c'"
  shows "cache_inv c'"
  using assms(4)
proof (cases rule: apply_update_cases)
  case (delete x)
  have "keyed ec_experiment_id ((cc_experiments c)(x := None))" using assms(3) by (simp add: cache_inv_def keyed_del)
  then show ?thesis unfolding delete(2) using assms(1-3) by (intro publish_inv) (simp_all add: cache_inv_def)
next
  case unchanged
  show ?thesis unfolding unchanged(3) using assms(1-3) by (intro publish_inv) (simp_all add: cache_inv_def)
next
  case (upsert p e)
  have "keyed ec_experiment_id ((cc_experiments c)(pe_experiment_id p \<mapsto> e))"
    using assms(3) experiment_from_proto_Ok(1) [OF upsert(3)] by (simp add: cache_inv_def keyed_upd)
  moreover have "keyed lc_layer_id (cc_layers (register_layer (ec_layer_id e) c))"
    using assms(3) by (simp add: cache_inv_def register_layer_facts)
  ultimately show ?thesis unfolding upsert(4) using assms(1,2) by (intro publish_inv) simp_all
qed

lemma apply_update_layers:
  assumes "layers_inv c" "apply_update xs ls u c = Ok c'"
  shows "layers_inv c'"
  using assms(2)
proof (cases rule: apply_update_cases)
  case (delete x)
  then show ?thesis using assms(1) by (auto simp: layers_inv_def ran_def split: if_splits)
next
  case unchanged
  then show ?thesis using assms(1) by (simp add: layers_inv_def)
next
  case (upsert p e)
  then show ?thesis
    using assms(1) register_layer_buckets [of c "ec_layer_id e"]
    by (fastforce simp: layers_inv_def ran_def register_layer_facts(2) split: if_splits)
qed

definition seeded :: "experiment_config list \<Rightarrow> layer_config list \<Rightarrow> config_cache \<Rightarrow> bool" where
  "seeded es ls c \<longleftrightarrow> c = cache_new (from_experiments_and_layers es ls)"

lemma seeded_inv: "seeded es ls c \<Longrightarrow> cache_inv c"
  by (simp add: seeded_def cache_inv_def cache_new_def snapshot_def from_experiments_and_layers_def keyed_collect)

lemma cache_inv_invariant:
  "hash_map_values xs \<Longrightarrow> hash_map_values ls \<Longrightarrow> inductive_invariant (seeded es ls0) (cache_step xs ls) cache_inv"
  by unfold_locales (auto simp: cache_step_def seeded_inv intro: apply_update_inv)

definition closed_seed :: "config_cache \<Rightarrow> bool" where
  "closed_seed c \<longleftrightarrow> layers_inv c \<and> (\<exists>es ls. seeded es ls c)"

interpretation stream_layers: inductive_invariant closed_seed "cache_step xs ls" layers_inv for xs ls
  by unfold_locales (auto simp: cache_step_def closed_seed_def intro: apply_update_layers)

fun apply_updates ::
  "exp_order \<Rightarrow> layer_order \<Rightarrow> config_update list \<Rightarrow> config_cache \<Rightarrow> ('e, config_cache) outcome" where
  "apply_updates xs ls [] c = Ok c"
| "apply_updates xs ls (u # us) c = obind (apply_update xs ls u c) (apply_updates xs ls us)"

lemma apply_update_version: "apply_update xs ls u c = Ok c' \<Longrightarrow> cc_last_version c' = max (cu_version u) (cc_last_version c)"
  by (erule apply_update_cases) simp_all

text \<open>A hash map whose iteration order is that of its sorted keys, as a concrete instance.\<close>

definition sorted_values :: "(string, 'v) hash_map \<Rightarrow> 'v list" where
  "sorted_values m = map (\<lambda>k. the (m k)) (sorted_list_of_set (dom m))"

lemma sorted_values_ok: "hash_map_values sorted_values"
  unfolding hash_map_values_def sorted_values_def
  by (intro allI impI, rule_tac x = "sorted_list_of_set (dom m)" in exI) simp

abbreviation state_str_of :: "int \<Rightarrow> string" where
  "state_str_of \<equiv> enum_str experiment_state_names ''EXPERIMENT_STATE_''"

lemma state_str_known:
  "state_str_of 0 = ''UNSPECIFIED''" "state_str_of 1 = ''DRAFT''" "state_str_of 2 = ''STARTING''" "state_str_of 3 = ''RUNNING''"
  "state_str_of 4 = ''CONCLUDING''" "state_str_of 5 = ''CONCLUDED''" "state_str_of 6 = ''ARCHIVED''" "state_str_of 7 = ''PAUSED''"
  by code_simp+

lemma state_str_unknown: "n \<notin> {0, 1, 2, 3, 4, 5, 6, 7} \<Longrightarrow> state_str_of n = ''UNSPECIFIED''"
  by (simp add: enum_str_def experiment_state_names_def)

lemma state_str_running: "state_str_of n = ''RUNNING'' \<longleftrightarrow> n = 3"
proof (cases "n \<in> {0, 1, 2, 3, 4, 5, 6, 7}")
  case True
  then show ?thesis by (elim insertE) (simp_all only: state_str_known list.inject char.inject, simp_all)
qed (simp add: state_str_unknown)

section \<open>Properties\<close>

text \<open>
  After any sequence of updates of the stream, the snapshot that readers see is exactly the content of the cache: its indexes are the maps of the cache, keyed by the identifiers of their entries, whatever the iteration order of the hash maps.
\<close>

theorem snapshot_mirrors_cache:
  assumes "hash_map_values xs" "hash_map_values ls" "reach (seeded es ls0) (cache_step xs ls) c"
  shows "cfg_experiments_by_id (snapshot c) = cc_experiments c \<and> cfg_layers_by_id (snapshot c) = cc_layers c \<and>
    (\<forall>x e. cfg_experiments_by_id (snapshot c) x = Some e \<longrightarrow> ec_experiment_id e = x)"
  using inductive_invariant.reach_inv [OF cache_inv_invariant [OF assms(1,2)] assms(3)]
  by (auto simp: cache_inv_def keyed_def)

theorem snapshot_mirrors_cache_witness:
  "cfg_experiments_by_id (snapshot (cache_new (from_experiments_and_layers [] []))) = Map.empty"
  using snapshot_mirrors_cache [OF sorted_values_ok sorted_values_ok reach_init [of "seeded [] []" "cache_new (from_experiments_and_layers [] [])"]]
  by (simp add: seeded_def cache_new_def collect_map_def from_experiments_and_layers_def)

text \<open>
  The version that the client sends when it reconnects is the largest version applied, also when updates arrive out of order.
\<close>

theorem last_version_is_maximum:
  assumes "apply_updates xs ls us c = (Ok c' :: ('e, config_cache) outcome)"
  shows "last_version c' = foldl (\<lambda>v u. max v (cu_version u)) (last_version c) us"
  using assms
proof (induction us arbitrary: c)
  case (Cons u us)
  then obtain d where d: "apply_update xs ls u c = (Ok d :: ('e, config_cache) outcome)" "apply_updates xs ls us d = (Ok c' :: ('e, config_cache) outcome)"
    by (auto simp: outcome_simps)
  then show ?case
    using Cons.IH [OF d(2)] apply_update_version [OF d(1)] by (simp add: last_version_def max.commute)
qed (simp add: last_version_def)

theorem last_version_is_maximum_witness:
  "\<exists>c'. apply_updates sorted_values sorted_values
      [\<lparr>cu_experiment = None, cu_is_deletion = False, cu_version = 5\<rparr>, \<lparr>cu_experiment = None, cu_is_deletion = False, cu_version = 3\<rparr>]
      (cache_new (from_experiments_and_layers [] [])) = (Ok c' :: (unit, config_cache) outcome) \<and> last_version c' = 5"
proof -
  let ?us = "[\<lparr>cu_experiment = None, cu_is_deletion = False, cu_version = 5\<rparr>, \<lparr>cu_experiment = None, cu_is_deletion = False, cu_version = 3\<rparr>]"
  have "\<exists>c'. apply_updates sorted_values sorted_values ?us (cache_new (from_experiments_and_layers [] [])) = (Ok c' :: (unit, config_cache) outcome)"
    by (simp add: apply_update_def Let_def)
  then obtain c' where "apply_updates sorted_values sorted_values ?us (cache_new (from_experiments_and_layers [] [])) = (Ok c' :: (unit, config_cache) outcome)" ..
  with last_version_is_maximum [OF this] show ?thesis
    by (simp add: last_version_def cache_new_def)
qed

text \<open>
  The only protobuf state that reaches the cache as RUNNING is the number 3, so no other state, known or unknown, ever serves assignments.
\<close>

theorem only_running_state_serves:
  assumes "experiment_from_proto p existing = Ok e"
  shows "ec_state e = ''RUNNING'' \<longleftrightarrow> pe_state p = 3"
proof -
  have "ec_state e = state_str_of (pe_state p)" using assms by (auto simp: experiment_from_proto_def outcome_simps)
  then show ?thesis by (simp add: state_str_running)
qed

theorem only_running_state_serves_witness:
  "\<exists>e. experiment_from_proto \<lparr>pe_experiment_id = ''x'', pe_name = [], pe_state = 7, pe_type = 1, pe_hash_salt = [], pe_layer_id = [],
      pe_variants = [], pe_is_cumulative_holdout = False\<rparr> None = (Ok e :: (unit, experiment_config) outcome) \<and> ec_state e \<noteq> ''RUNNING''"
proof -
  let ?p = "\<lparr>pe_experiment_id = ''x'', pe_name = [], pe_state = 7, pe_type = 1, pe_hash_salt = [], pe_layer_id = [],
      pe_variants = [], pe_is_cumulative_holdout = False\<rparr>"
  obtain e where e: "experiment_from_proto ?p None = (Ok e :: (unit, experiment_config) outcome)"
    by (simp add: experiment_from_proto_def)
  with only_running_state_serves [OF e] show ?thesis by auto
qed

text \<open>
  An update aborts the process exactly when it upserts an experiment with a non-finite traffic fraction; it never fails in any other way, and the cache then only holds finite fractions for that experiment.
\<close>

theorem update_panics_iff_nonfinite:
  "apply_update xs ls u c = Panic \<longleftrightarrow>
     \<not> cu_is_deletion u \<and> (\<exists>p. cu_experiment u = Some p \<and> (\<exists>v \<in> set (pe_variants p). \<not> is_finite (pv_traffic_fraction v)))"
proof -
  have "variant_from_proto v = (Panic :: ('a, variant_config) outcome) \<or> (\<exists>w. variant_from_proto v = (Ok w :: ('a, variant_config) outcome))" for v
    by (simp add: variant_from_proto_def)
  note panic = map_outcome_Panic_iff [of "variant_from_proto :: proto_variant \<Rightarrow> ('a, variant_config) outcome", OF this]
  have "(variant_from_proto v :: ('a, variant_config) outcome) = Panic \<longleftrightarrow> \<not> is_finite (pv_traffic_fraction v)" for v
    by (simp add: variant_from_proto_def)
  with panic have "(experiment_from_proto p ex :: ('a, experiment_config) outcome) = Panic \<longleftrightarrow> (\<exists>v \<in> set (pe_variants p). \<not> is_finite (pv_traffic_fraction v))" for p ex
    by (simp add: experiment_from_proto_def outcome_simps)
  then show ?thesis
    by (cases "cu_experiment u") (simp_all add: apply_update_def Let_def outcome_simps)
qed

end
