(* ===== verification/Rust_Text.thy ===== *)
theory Rust_Text
  imports Prelude
begin

text \<open>
  What the services use of Rust's \<^verbatim>\<open>str\<close>, on the bytes of the UTF-8 encoding: white space and
  \<^verbatim>\<open>trim\<close>, \<^verbatim>\<open>contains\<close>, and the \<^verbatim>\<open>{:?}\<close> rendering of a string.
\<close>

section \<open>White space\<close>

text \<open>\<^verbatim>\<open>(b as char).is_whitespace()\<close> on a single byte, read as a Latin-1 character.\<close>

definition latin1_whitespace :: "char \<Rightarrow> bool" where
  "latin1_whitespace c \<longleftrightarrow>
     (let n = of_char c :: nat in 9 \<le> n \<and> n \<le> 13 \<or> n = 32 \<or> n = 133 \<or> n = 160)"

text \<open>Unicode white space outside ASCII, in its UTF-8 encoding.\<close>

definition whitespace2 :: "nat \<Rightarrow> nat \<Rightarrow> bool" where
  "whitespace2 a b \<longleftrightarrow> a = 0xC2 \<and> (b = 0x85 \<or> b = 0xA0)"

definition whitespace3 :: "nat \<Rightarrow> nat \<Rightarrow> nat \<Rightarrow> bool" where
  "whitespace3 a b c \<longleftrightarrow>
     a = 0xE1 \<and> b = 0x9A \<and> c = 0x80 \<or>
     a = 0xE2 \<and> b = 0x80 \<and> (0x80 \<le> c \<and> c \<le> 0x8A \<or> c = 0xA8 \<or> c = 0xA9 \<or> c = 0xAF) \<or>
     a = 0xE2 \<and> b = 0x81 \<and> c = 0x9F \<or>
     a = 0xE3 \<and> b = 0x80 \<and> c = 0x80"

text \<open>\<^verbatim>\<open>str::trim\<close>: the Unicode white space at both ends, in its UTF-8 encoding.\<close>

fun trim_start :: "string \<Rightarrow> string" where
  "trim_start [] = []"
| "trim_start (a # s) =
     (if is_ascii a then if latin1_whitespace a then trim_start s else a # s
      else case s of
             [] \<Rightarrow> a # s
           | b # s2 \<Rightarrow>
               if whitespace2 (of_char a) (of_char b) then trim_start s2
               else case s2 of
                      [] \<Rightarrow> a # s
                    | c # s3 \<Rightarrow> if whitespace3 (of_char a) (of_char b) (of_char c) then trim_start s3 else a # s)"

text \<open>The same from the other end: the bytes come in reverse order.\<close>

fun trim_back :: "string \<Rightarrow> string" where
  "trim_back [] = []"
| "trim_back (a # s) =
     (if is_ascii a then if latin1_whitespace a then trim_back s else a # s
      else case s of
             [] \<Rightarrow> a # s
           | b # s2 \<Rightarrow>
               if whitespace2 (of_char b) (of_char a) then trim_back s2
               else case s2 of
                      [] \<Rightarrow> a # s
                    | c # s3 \<Rightarrow> if whitespace3 (of_char c) (of_char b) (of_char a) then trim_back s3 else a # s)"

definition trim :: "string \<Rightarrow> string" where
  "trim s = rev (trim_back (rev (trim_start s)))"

section \<open>Substrings\<close>

fun str_contains :: "string \<Rightarrow> string \<Rightarrow> bool" where
  "str_contains [] needle = (needle = [])"
| "str_contains (c # cs) needle = (take (length needle) (c # cs) = needle \<or> str_contains cs needle)"

section \<open>Debug rendering\<close>

text \<open>
  \<^verbatim>\<open>format!("{:?}", s)\<close>: quotes, backslashes and control characters are escaped; which characters
  outside ASCII are printable is a table of the standard library, \<open>wide\<close>, applied to each maximal run of
  bytes outside ASCII.
\<close>

definition hex_lower :: "nat \<Rightarrow> char" where
  "hex_lower n = (if n < 10 then char_of (48 + n) else char_of (87 + n))"

definition unicode_escape :: "nat \<Rightarrow> string" where
  "unicode_escape n = [CHR 0x5C, CHR ''u'', CHR ''{''] @ (if n < 16 then [hex_lower n] else [hex_lower (n div 16), hex_lower (n mod 16)]) @ ''}''"

definition escape_debug :: "char \<Rightarrow> string" where
  "escape_debug c =
     (let n = of_char c :: nat in
      if n = 0 then [CHR 0x5C, CHR ''0'']
      else if n = 9 then [CHR 0x5C, CHR ''t'']
      else if n = 10 then [CHR 0x5C, CHR ''n'']
      else if n = 13 then [CHR 0x5C, CHR ''r'']
      else if n = 34 \<or> n = 92 then [CHR 0x5C, c]
      else if n < 32 \<or> n = 127 then unicode_escape n
      else [c])"

function debug_bytes :: "(string \<Rightarrow> string) \<Rightarrow> string \<Rightarrow> string" where
  "debug_bytes wide [] = []"
| "debug_bytes wide (c # cs) =
     (if is_ascii c then escape_debug c @ debug_bytes wide cs
      else wide (c # takeWhile (\<lambda>d. \<not> is_ascii d) cs) @ debug_bytes wide (dropWhile (\<lambda>d. \<not> is_ascii d) cs))"
  by pat_completeness auto
termination debug_bytes
  by (relation "measure (\<lambda>(w, s). length s)") (auto simp: le_imp_less_Suc length_dropWhile_le)

definition debug_str :: "(string \<Rightarrow> string) \<Rightarrow> string \<Rightarrow> string" where
  "debug_str wide s = [CHR 0x22] @ debug_bytes wide s @ [CHR 0x22]"

end
