(* ===== verification/Targeting.thy ===== *)
theory Targeting
  imports Assignment_Config Rust_Text
begin

text \<open>
  Targeting rules (\<^verbatim>\<open>targeting.rs\<close>): a conjunction of groups, each a disjunction of predicates over the
  attributes of the request. A missing attribute never matches.
\<close>

section \<open>Evaluation\<close>

definition first_is :: "string list \<Rightarrow> (string \<Rightarrow> bool) \<Rightarrow> bool" where
  "first_is vs P = (case vs of [] \<Rightarrow> False | v # _ \<Rightarrow> P v)"

definition compare_numeric :: "string \<Rightarrow> string list \<Rightarrow> (f64 \<Rightarrow> f64 \<Rightarrow> bool) \<Rightarrow> bool" where
  "compare_numeric attr_value vals cmp =
     (case parse_f64 attr_value of
        None \<Rightarrow> False
      | Some a \<Rightarrow>
          (case (case vals of [] \<Rightarrow> None | v # _ \<Rightarrow> parse_f64 v) of
             None \<Rightarrow> False
           | Some b \<Rightarrow> cmp a b))"

definition evaluate_predicate :: "targeting_predicate \<Rightarrow> (string, string) hash_map \<Rightarrow> bool" where
  "evaluate_predicate pred attributes =
     (case attributes (tp_attribute_key pred) of
        None \<Rightarrow> False
      | Some attr_value \<Rightarrow>
          (let oper = tp_operator pred; vs = tp_values pred in
           if oper = ''EQUALS'' then first_is vs (\<lambda>v. v = attr_value)
           else if oper = ''NOT_EQUALS'' then first_is vs (\<lambda>v. v \<noteq> attr_value)
           else if oper = ''IN'' then list_ex (\<lambda>v. v = attr_value) vs
           else if oper = ''NOT_IN'' then \<not> list_ex (\<lambda>v. v = attr_value) vs
           else if oper = ''CONTAINS'' then first_is vs (\<lambda>v. str_contains attr_value v)
           else if oper = ''GT'' \<or> oper = ''GREATER_THAN'' then compare_numeric attr_value vs (\<lambda>a b. f64_lt b a)
           else if oper = ''LT'' \<or> oper = ''LESS_THAN'' then compare_numeric attr_value vs f64_lt
           else if oper = ''GTE'' then compare_numeric attr_value vs (\<lambda>a b. f64_le b a)
           else if oper = ''LTE'' then compare_numeric attr_value vs f64_le
           else False))"

definition evaluate_group :: "targeting_group \<Rightarrow> (string, string) hash_map \<Rightarrow> bool" where
  "evaluate_group g attributes =
     (if tg_predicates g = [] then True
      else list_ex (\<lambda>p. evaluate_predicate p attributes) (tg_predicates g))"

definition evaluate :: "targeting_rule \<Rightarrow> (string, string) hash_map \<Rightarrow> bool" where
  "evaluate rule attributes =
     (if tr_groups rule = [] then True
      else list_all (\<lambda>g. evaluate_group g attributes) (tr_groups rule))"

section \<open>Facts\<close>

lemma str_contains_iff: "str_contains s t \<longleftrightarrow> (\<exists>u v. s = u @ t @ v)"
proof (induction s)
  case (Cons c cs)
  have "take (length t) (c # cs) = t \<longleftrightarrow> (\<exists>v. c # cs = t @ v)"
    by (metis append_eq_conv_conj append_take_drop_id)
  then show ?case using Cons by (simp add: Cons_eq_append_conv) blast
qed simp

lemma evaluate_iff:
  "evaluate rule attrs \<longleftrightarrow>
     (\<forall>g \<in> set (tr_groups rule). tg_predicates g = [] \<or> (\<exists>p \<in> set (tg_predicates g). evaluate_predicate p attrs))"
  by (auto simp: evaluate_def evaluate_group_def list_all_iff list_ex_iff)

lemma evaluate_predicate_missing: "attrs (tp_attribute_key p) = None \<Longrightarrow> \<not> evaluate_predicate p attrs"
  by (simp add: evaluate_predicate_def)

lemma evaluate_predicate_frame:
  "attrs (tp_attribute_key p) = attrs' (tp_attribute_key p) \<Longrightarrow> evaluate_predicate p attrs = evaluate_predicate p attrs'"
  by (simp add: evaluate_predicate_def)

lemma f64_not_less: "a \<noteq> NaN \<Longrightarrow> b \<noteq> NaN \<Longrightarrow> \<not> f64_lt a b \<longleftrightarrow> f64_le b a"
  by (cases a; cases b) (auto simp: f64_le_def)

definition rule_keys :: "targeting_rule \<Rightarrow> string set" where
  "rule_keys rule = (\<Union>g \<in> set (tr_groups rule). tp_attribute_key ` set (tg_predicates g))"

section \<open>Properties\<close>

text \<open>
  Targeting fails closed: if a rule has a group with at least one predicate and every attribute that the group mentions is missing from the request, the rule does not match.
\<close>

theorem targeting_fails_closed:
  assumes "g \<in> set (tr_groups rule)" "tg_predicates g \<noteq> []"
    and "\<forall>p \<in> set (tg_predicates g). attrs (tp_attribute_key p) = None"
  shows "\<not> evaluate rule attrs"
  using assms by (auto simp: evaluate_iff dest: evaluate_predicate_missing)

theorem targeting_fails_closed_witness:
  "\<not> evaluate \<lparr>tr_groups = [\<lparr>tg_predicates = [\<lparr>tp_attribute_key = ''plan'', tp_operator = ''NOT_IN'', tp_values = []\<rparr>]\<rparr>]\<rparr> (\<lambda>_. None)"
  by (rule targeting_fails_closed [where g = "\<lparr>tg_predicates = [\<lparr>tp_attribute_key = ''plan'', tp_operator = ''NOT_IN'', tp_values = []\<rparr>]\<rparr>"]) simp_all

text \<open>
  The outcome of a rule depends only on the attributes the rule mentions.
\<close>

theorem targeting_depends_on_mentioned_keys:
  assumes "\<forall>k \<in> rule_keys rule. attrs k = attrs' k"
  shows "evaluate rule attrs = evaluate rule attrs'"
proof -
  have "evaluate_predicate p attrs = evaluate_predicate p attrs'"
    if "g \<in> set (tr_groups rule)" "p \<in> set (tg_predicates g)" for g p
    using that assms by (intro evaluate_predicate_frame) (auto simp: rule_keys_def)
  then show ?thesis unfolding evaluate_iff by blast
qed

theorem targeting_depends_on_mentioned_keys_witness:
  "evaluate \<lparr>tr_groups = [\<lparr>tg_predicates = [\<lparr>tp_attribute_key = ''plan'', tp_operator = ''IN'', tp_values = [''pro'']\<rparr>]\<rparr>]\<rparr> [''plan'' \<mapsto> ''pro'', ''age'' \<mapsto> ''7''] =
   evaluate \<lparr>tr_groups = [\<lparr>tg_predicates = [\<lparr>tp_attribute_key = ''plan'', tp_operator = ''IN'', tp_values = [''pro'']\<rparr>]\<rparr>]\<rparr> [''plan'' \<mapsto> ''pro'']"
  by (rule targeting_depends_on_mentioned_keys) (simp add: rule_keys_def)

text \<open>
  On two values that parse as numbers other than NaN the comparison operators are complementary: greater-than matches exactly when less-or-equal does not.
\<close>

theorem numeric_operators_complementary:
  assumes "attrs key = Some s" "parse_f64 s = Some a" "parse_f64 v = Some b" "a \<noteq> NaN" "b \<noteq> NaN"
  shows "evaluate_predicate \<lparr>tp_attribute_key = key, tp_operator = ''GT'', tp_values = v # vs\<rparr> attrs \<longleftrightarrow>
    \<not> evaluate_predicate \<lparr>tp_attribute_key = key, tp_operator = ''LTE'', tp_values = v # vs\<rparr> attrs"
proof -
  have gt: "evaluate_predicate \<lparr>tp_attribute_key = key, tp_operator = ''GT'', tp_values = v # vs\<rparr> attrs = f64_lt b a"
    using assms(1-3) by (simp add: evaluate_predicate_def compare_numeric_def)
  have lte: "evaluate_predicate \<lparr>tp_attribute_key = key, tp_operator = ''LTE'', tp_values = v # vs\<rparr> attrs = f64_le a b"
    using assms(1-3) by (simp add: evaluate_predicate_def compare_numeric_def)
  show ?thesis unfolding gt lte using f64_not_less [OF assms(5,4)] by blast
qed

theorem numeric_operators_complementary_witness:
  "evaluate_predicate \<lparr>tp_attribute_key = ''age'', tp_operator = ''GT'', tp_values = [''18'']\<rparr> [''age'' \<mapsto> ''21''] \<longleftrightarrow>
    \<not> evaluate_predicate \<lparr>tp_attribute_key = ''age'', tp_operator = ''LTE'', tp_values = [''18'']\<rparr> [''age'' \<mapsto> ''21'']"
proof (rule numeric_operators_complementary)
  show "parse_f64 ''21'' = Some (Fin 21)" by (simp add: parse_f64_eval)
  show "parse_f64 ''18'' = Some (Fin 18)" by (simp add: parse_f64_eval)
qed simp_all

end
