(* ===== verification/Switchback.thy ===== *)
theory Switchback
  imports Assignment_Config Hashing
begin

text \<open>
  Switchback (temporal alternation) assignment, \<^verbatim>\<open>switchback.rs\<close>: blocks aligned to the epoch, a washout
  window at the start of each block, and three designs that decide per block which arm is served.
  Times are \<^verbatim>\<open>i64\<close> seconds; no operation here can overflow, so they are integers.
\<close>

section \<open>Definitions\<close>

definition MIN_BLOCK_DURATION_SECS :: int where "MIN_BLOCK_DURATION_SECS = 3600"
definition MIN_PLANNED_CYCLES :: int where "MIN_PLANNED_CYCLES = 4"

definition compute_block_index :: "int \<Rightarrow> int \<Rightarrow> int" where
  "compute_block_index current_unix_secs block_duration_secs =
     (if block_duration_secs \<le> 0 then 0 else current_unix_secs div block_duration_secs)"

definition is_in_washout :: "int \<Rightarrow> int \<Rightarrow> int \<Rightarrow> bool" where
  "is_in_washout current_unix_secs block_duration_secs washout_period_secs =
     (if washout_period_secs \<le> 0 \<or> block_duration_secs \<le> 0 then False
      else current_unix_secs mod block_duration_secs < washout_period_secs)"

definition simple_alternating :: "int \<Rightarrow> bool" where
  "simple_alternating block_index \<longleftrightarrow> block_index mod 2 \<noteq> 0"

definition cluster_group :: "string \<Rightarrow> string \<Rightarrow> u32" where
  "cluster_group cluster_value experiment_id =
     murmurhash3_x86_32 (as_bytes (cluster_value @ [CHR 0x00] @ experiment_id @ [CHR 0x00] @ ''group'')) 0 mod 2"

definition regular_balanced :: "int \<Rightarrow> string \<Rightarrow> string \<Rightarrow> bool" where
  "regular_balanced block_index cluster_value experiment_id =
     (let base = simple_alternating block_index
      in if cluster_group cluster_value experiment_id = 0 then base else \<not> base)"

definition randomized :: "int \<Rightarrow> string \<Rightarrow> string \<Rightarrow> bool" where
  "randomized block_index cluster_value experiment_id \<longleftrightarrow>
     murmurhash3_x86_32
       (as_bytes (experiment_id @ [CHR 0x00] @ cluster_value @ [CHR 0x00] @ show_int block_index)) 0 mod 2 \<noteq> 0"

fun position :: "('a \<Rightarrow> bool) \<Rightarrow> 'a list \<Rightarrow> nat option" where
  "position P [] = None"
| "position P (x # xs) = (if P x then Some 0 else map_option Suc (position P xs))"

definition use_treatment :: "int \<Rightarrow> string \<Rightarrow> string \<Rightarrow> string \<Rightarrow> bool" where
  "use_treatment block_index design cluster_value experiment_id =
     (if design = ''REGULAR_BALANCED'' then regular_balanced block_index cluster_value experiment_id
      else if design = ''RANDOMIZED'' then randomized block_index cluster_value experiment_id
      else simple_alternating block_index)"

definition control_index :: "variant_config list \<Rightarrow> nat" where
  "control_index variants = unwrap_or 0 (position vc_is_control variants)"

definition treatment_index :: "variant_config list \<Rightarrow> nat" where
  "treatment_index variants = (if control_index variants = 0 then min 1 (length variants - 1) else 0)"

definition sb_select_variant ::
  "int \<Rightarrow> string \<Rightarrow> string \<Rightarrow> string \<Rightarrow> variant_config list \<Rightarrow> ('e, variant_config) outcome" where
  "sb_select_variant block_index design cluster_value experiment_id variants =
     (if variants = [] then Panic
      else if use_treatment block_index design cluster_value experiment_id
      then Ok (variants ! treatment_index variants)
      else Ok (variants ! control_index variants))"

definition validate_config :: "switchback_config \<Rightarrow> (string, unit) outcome" where
  "validate_config c =
     (if sb_block_duration_secs c < MIN_BLOCK_DURATION_SECS then
        Err (''switchback block_duration_secs ('' @ show_int (sb_block_duration_secs c) @ '') must be >= '' @
             show_int MIN_BLOCK_DURATION_SECS @ '' (1 hour)'')
      else if sb_planned_cycles c < MIN_PLANNED_CYCLES then
        Err (''switchback planned_cycles ('' @ show_int (sb_planned_cycles c) @ '') must be >= '' @
             show_int MIN_PLANNED_CYCLES)
      else if sb_washout_period_secs c < 0 then
        Err (''switchback washout_period_secs ('' @ show_int (sb_washout_period_secs c) @ '') must not be negative'')
      else if sb_washout_period_secs c > 0 \<and> sb_washout_period_secs c \<ge> sb_block_duration_secs c then
        Err (''switchback washout_period_secs ('' @ show_int (sb_washout_period_secs c) @
             '') must be < block_duration_secs ('' @ show_int (sb_block_duration_secs c) @ '')'')
      else Ok ())"

section \<open>Facts\<close>

lemma position_Some: "position P xs = Some i \<Longrightarrow> i < length xs \<and> P (xs ! i) \<and> (\<forall>j < i. \<not> P (xs ! j))"
proof (induction xs arbitrary: i)
  case (Cons x xs)
  then show ?case by (cases i) (auto split: if_splits simp: less_Suc_eq_0_disj)
qed simp

lemma position_None: "position P xs = None \<longleftrightarrow> (\<forall>x \<in> set xs. \<not> P x)"
  by (induction xs) auto

lemma control_index_bound: "vs \<noteq> [] \<Longrightarrow> control_index vs < length vs"
  using position_Some [of vc_is_control vs] by (cases "position vc_is_control vs") (auto simp: control_index_def)

lemma treatment_index_bound: "vs \<noteq> [] \<Longrightarrow> treatment_index vs < length vs"
  by (cases vs) (auto simp: treatment_index_def min_def)

lemma treatment_neq_control: "1 < length vs \<Longrightarrow> treatment_index vs \<noteq> control_index vs"
  by (auto simp: treatment_index_def min_def)

lemma simple_alternating_Suc: "simple_alternating (k + 1) \<longleftrightarrow> \<not> simple_alternating k"
  unfolding simple_alternating_def by presburger

lemma validate_config_Ok:
  "validate_config c = Ok () \<longleftrightarrow>
     3600 \<le> sb_block_duration_secs c \<and> 4 \<le> sb_planned_cycles c \<and> 0 \<le> sb_washout_period_secs c \<and>
     sb_washout_period_secs c < sb_block_duration_secs c"
  by (auto simp: validate_config_def MIN_BLOCK_DURATION_SECS_def MIN_PLANNED_CYCLES_def)

lemma cluster_group_cases: "cluster_group c e = 0 \<or> cluster_group c e = 1"
proof -
  have "cluster_group c e < 2"
    unfolding cluster_group_def by (rule word_mod_less_divisor) simp
  then show ?thesis by unat_arith
qed

section \<open>Properties\<close>

text \<open>
  For a positive block length, the block index of a time is \<open>k\<close> exactly when the time lies in the half-open interval from \<open>k\<close> to \<open>k + 1\<close> block lengths, also before the epoch.
\<close>

theorem block_index_interval:
  assumes "0 < d"
  shows "compute_block_index t d = k \<longleftrightarrow> k * d \<le> t \<and> t < (k + 1) * d"
proof -
  have m: "0 \<le> t mod d" "t mod d < d" using assms by simp_all
  have t: "t = d * (t div d) + t mod d" by simp
  have "t div d = k" if "k * d \<le> t" "t < (k + 1) * d"
    using that by (intro int_div_pos_eq [of _ _ _ "t - k * d"]) (auto simp: algebra_simps)
  moreover have "k * d \<le> t \<and> t < (k + 1) * d" if "t div d = k"
    using that m t by (auto simp: algebra_simps)
  ultimately have "t div d = k \<longleftrightarrow> k * d \<le> t \<and> t < (k + 1) * d" by blast
  with assms show ?thesis by (simp add: compute_block_index_def)
qed

theorem block_index_interval_witness: "compute_block_index (- 1) 3600 = - 1 \<longleftrightarrow> - 1 * 3600 \<le> (- 1 :: int) \<and> - 1 < (- 1 + 1) * (3600 :: int)"
  by (rule block_index_interval) simp

text \<open>
  Under a configuration that passes validation, the washout window is the leading part of every block and never the whole block: a time is in washout exactly when its offset from the start of its block is below the washout period, and the last second of each block is always served.
\<close>

theorem washout_leaves_block_open:
  assumes "validate_config c = Ok ()"
  shows "(is_in_washout t (sb_block_duration_secs c) (sb_washout_period_secs c) \<longleftrightarrow>
            t - compute_block_index t (sb_block_duration_secs c) * sb_block_duration_secs c < sb_washout_period_secs c)
       \<and> \<not> is_in_washout ((k + 1) * sb_block_duration_secs c - 1) (sb_block_duration_secs c) (sb_washout_period_secs c)"
proof -
  define d w where "d = sb_block_duration_secs c" and "w = sb_washout_period_secs c"
  from assms have dw: "0 < d" "0 \<le> w" "w < d" by (auto simp: validate_config_Ok d_def w_def)
  have off: "t - compute_block_index t d * d = t mod d" for t
    using dw(1) by (simp add: compute_block_index_def minus_div_mult_eq_mod)
  have "(k + 1) * d - 1 = (d - 1) + k * d" by (simp add: algebra_simps)
  then have last: "((k + 1) * d - 1) mod d = d - 1"
    using dw(1) by (simp only: mod_mult_self1) (rule mod_pos_pos_trivial, simp_all)
  have m: "0 \<le> t mod d" using dw(1) by simp
  show ?thesis unfolding d_def [symmetric] w_def [symmetric] off
    using dw last by (auto simp: is_in_washout_def leD [OF m])
qed

theorem washout_leaves_block_open_witness:
  "\<not> is_in_washout ((2 + 1) * 3600 - 1) 3600 600 \<and> validate_config \<lparr>sb_block_duration_secs = 3600, sb_planned_cycles = 4, sb_cluster_attribute = [], sb_washout_period_secs = 600, sb_design = []\<rparr> = Ok ()"
proof -
  have v: "validate_config \<lparr>sb_block_duration_secs = 3600, sb_planned_cycles = 4, sb_cluster_attribute = [], sb_washout_period_secs = 600, sb_design = []\<rparr> = Ok ()"
    by (simp add: validate_config_Ok)
  show ?thesis using washout_leaves_block_open [OF v, of 0 2] v by simp
qed

text \<open>
  Under the balanced design two clusters are always in opposite arms exactly when the hash puts them in different groups; clusters in one group are in the same arm in every block.
\<close>

theorem balanced_groups_complementary:
  "(cluster_group c1 eid = cluster_group c2 eid \<longrightarrow> regular_balanced k c1 eid = regular_balanced k c2 eid) \<and>
   (cluster_group c1 eid \<noteq> cluster_group c2 eid \<longrightarrow> regular_balanced k c1 eid \<noteq> regular_balanced k c2 eid)"
  using cluster_group_cases [of c1 eid] cluster_group_cases [of c2 eid]
  by (auto simp: regular_balanced_def Let_def)

theorem balanced_groups_complementary_witness:
  "''us'' \<noteq> ''eu'' \<and> (\<forall>k. regular_balanced k ''us'' ''e1'' = regular_balanced k ''eu'' ''e1'')"
proof -
  have "cluster_group ''us'' ''e1'' = cluster_group ''eu'' ''e1''" by code_simp
  then show ?thesis using balanced_groups_complementary [of "''us''" "''e1''" "''eu''"] by simp
qed

text \<open>
  With at least two variants, under the simple and the balanced design every cluster is served different variants in consecutive blocks.
\<close>

theorem consecutive_blocks_alternate:
  assumes "1 < length vs" "distinct vs" "design \<noteq> ''RANDOMIZED''"
  shows "\<exists>v v'. sb_select_variant k design cl eid vs = (Ok v :: ('e, variant_config) outcome) \<and>
    sb_select_variant (k + 1) design cl eid vs = (Ok v' :: ('e, variant_config) outcome) \<and> v \<in> set vs \<and> v' \<in> set vs \<and> v \<noteq> v'"
proof -
  have ne: "vs \<noteq> []" using assms(1) by auto
  have flip: "use_treatment (k + 1) design cl eid \<longleftrightarrow> \<not> use_treatment k design cl eid"
    using assms(3) by (simp add: use_treatment_def regular_balanced_def simple_alternating_Suc Let_def)
  have "vs ! treatment_index vs \<noteq> vs ! control_index vs"
    using nth_eq_iff_index_eq [OF assms(2)] treatment_index_bound [OF ne] control_index_bound [OF ne]
      treatment_neq_control [OF assms(1)] by metis
  then show ?thesis
    using ne flip treatment_index_bound [OF ne] control_index_bound [OF ne]
    by (cases "use_treatment k design cl eid") (auto simp: sb_select_variant_def)
qed

theorem consecutive_blocks_alternate_witness:
  "\<exists>v v'. sb_select_variant 5 ''REGULAR_BALANCED'' ''us'' ''e1''
      [\<lparr>vc_variant_id = ''a'', vc_traffic_fraction = Fin 0, vc_is_control = True, vc_payload_json = []\<rparr>,
       \<lparr>vc_variant_id = ''b'', vc_traffic_fraction = Fin 0, vc_is_control = False, vc_payload_json = []\<rparr>] = (Ok v :: (unit, variant_config) outcome) \<and>
    sb_select_variant (5 + 1) ''REGULAR_BALANCED'' ''us'' ''e1''
      [\<lparr>vc_variant_id = ''a'', vc_traffic_fraction = Fin 0, vc_is_control = True, vc_payload_json = []\<rparr>,
       \<lparr>vc_variant_id = ''b'', vc_traffic_fraction = Fin 0, vc_is_control = False, vc_payload_json = []\<rparr>] = (Ok v' :: (unit, variant_config) outcome) \<and>
    v \<in> set [\<lparr>vc_variant_id = ''a'', vc_traffic_fraction = Fin 0, vc_is_control = True, vc_payload_json = []\<rparr>,
       \<lparr>vc_variant_id = ''b'', vc_traffic_fraction = Fin 0, vc_is_control = False, vc_payload_json = []\<rparr>] \<and>
    v' \<in> set [\<lparr>vc_variant_id = ''a'', vc_traffic_fraction = Fin 0, vc_is_control = True, vc_payload_json = []\<rparr>,
       \<lparr>vc_variant_id = ''b'', vc_traffic_fraction = Fin 0, vc_is_control = False, vc_payload_json = []\<rparr>] \<and> v \<noteq> v'"
  by (rule consecutive_blocks_alternate) simp_all

end
