(* ===== verification/Interleaving.thy ===== *)
theory Interleaving
  imports Float64
begin

text \<open>
  The crate \<^verbatim>\<open>experimentation-interleaving\<close>: Team Draft, its N-way generalisation Team Draft Multileave,
  and Optimized Interleaving. Each repeatedly takes an item that is not yet in the merged list from
  one of the ranked lists and records which algorithm contributed it. The random number generator of
  the \<^verbatim>\<open>rand\<close> crate is a parameter: \<open>gen_bool\<close>, \<open>gen_range\<close> and \<open>gen_f64\<close> map a generator state to
  a draw and the next state; \<open>gen_range_ok\<close> is its documented range. The functions \<^verbatim>\<open>exp\<close> and
  \<^verbatim>\<open>log2\<close> on \<^verbatim>\<open>f64\<close>, whose precision the standard library leaves open, are parameters too.
\<close>

section \<open>Results\<close>

record interleaved_result =
  ir_merged_list :: "string list"
  ir_provenance :: "(string, string) hash_map"

definition gen_range_ok :: "(nat \<Rightarrow> 'r \<Rightarrow> nat \<times> 'r) \<Rightarrow> bool" where
  "gen_range_ok gen_range \<longleftrightarrow> (\<forall>n r. 0 < n \<longrightarrow> fst (gen_range n r) < n)"

section \<open>Team Draft\<close>

function skip_seen :: "string list \<Rightarrow> string set \<Rightarrow> nat \<Rightarrow> nat" where
  "skip_seen l seen i = (if i < length l \<and> l ! i \<in> seen then skip_seen l seen (i + 1) else i)"
  by pat_completeness auto
termination
  by (relation "measure (\<lambda>(l, seen, i). length l - i)") auto

declare skip_seen.simps [simp del]

record 'r team_state =
  ts_merged :: "string list"
  ts_provenance :: "(string, string) hash_map"
  ts_seen :: "string set"
  ts_idx_a :: nat
  ts_idx_b :: nat
  ts_count_a :: nat
  ts_count_b :: nat
  ts_rng :: 'r

text \<open>The body of the loop; \<open>None\<close> is the \<^verbatim>\<open>break\<close>.\<close>

definition team_step ::
  "('r \<Rightarrow> bool \<times> 'r) \<Rightarrow> string list \<Rightarrow> string list \<Rightarrow> string \<Rightarrow> string \<Rightarrow> 'r team_state \<Rightarrow> 'r team_state option" where
  "team_step gen_bool list_a list_b algo_a_id algo_b_id s =
     (let idx_a = skip_seen list_a (ts_seen s) (ts_idx_a s);
          idx_b = skip_seen list_b (ts_seen s) (ts_idx_b s);
          a_has_items = idx_a < length list_a;
          b_has_items = idx_b < length list_b
      in if \<not> a_has_items \<and> \<not> b_has_items then None
         else
           let (a_picks, rng) =
                 (if \<not> a_has_items then (False, ts_rng s)
                  else if \<not> b_has_items \<or> ts_count_a s < ts_count_b s then (True, ts_rng s)
                  else if ts_count_b s < ts_count_a s then (False, ts_rng s)
                  else gen_bool (ts_rng s))
           in if a_picks
              then let item = list_a ! idx_a in
                Some (s\<lparr>ts_seen := insert item (ts_seen s),
                        ts_provenance := (ts_provenance s)(item \<mapsto> algo_a_id),
                        ts_merged := ts_merged s @ [item],
                        ts_count_a := ts_count_a s + 1,
                        ts_idx_a := idx_a + 1, ts_idx_b := idx_b, ts_rng := rng\<rparr>)
              else let item = list_b ! idx_b in
                Some (s\<lparr>ts_seen := insert item (ts_seen s),
                        ts_provenance := (ts_provenance s)(item \<mapsto> algo_b_id),
                        ts_merged := ts_merged s @ [item],
                        ts_count_b := ts_count_b s + 1,
                        ts_idx_b := idx_b + 1, ts_idx_a := idx_a, ts_rng := rng\<rparr>))"

lemma team_step_grows:
  "team_step gb a b ida idb s = Some s' \<Longrightarrow> length (ts_merged s') = Suc (length (ts_merged s))"
  by (auto simp: team_step_def Let_def split: if_splits prod.splits)

function team_loop ::
  "('r \<Rightarrow> bool \<times> 'r) \<Rightarrow> string list \<Rightarrow> string list \<Rightarrow> string \<Rightarrow> string \<Rightarrow> nat \<Rightarrow> 'r team_state \<Rightarrow> 'r team_state" where
  "team_loop gen_bool list_a list_b ida idb k s =
     (if length (ts_merged s) < k \<and> (ts_idx_a s < length list_a \<or> ts_idx_b s < length list_b)
      then case team_step gen_bool list_a list_b ida idb s of
             None \<Rightarrow> s
           | Some s' \<Rightarrow> team_loop gen_bool list_a list_b ida idb k s'
      else s)"
  by pat_completeness auto
termination
  by (relation "measure (\<lambda>(gb, a, b, ida, idb, k, s). k - length (ts_merged s))")
    (auto dest: team_step_grows)

declare team_loop.simps [simp del]

definition team_init :: "'r \<Rightarrow> 'r team_state" where
  "team_init rng = \<lparr>ts_merged = [], ts_provenance = Map.empty, ts_seen = {}, ts_idx_a = 0, ts_idx_b = 0,
                    ts_count_a = 0, ts_count_b = 0, ts_rng = rng\<rparr>"

definition team_draft ::
  "('r \<Rightarrow> bool \<times> 'r) \<Rightarrow> string list \<Rightarrow> string list \<Rightarrow> string \<Rightarrow> string \<Rightarrow> nat \<Rightarrow> 'r \<Rightarrow> interleaved_result" where
  "team_draft gen_bool list_a list_b algo_a_id algo_b_id k rng =
     (let s = team_loop gen_bool list_a list_b algo_a_id algo_b_id k (team_init rng)
      in \<lparr>ir_merged_list = ts_merged s, ir_provenance = ts_provenance s\<rparr>)"

section \<open>Multileave\<close>

record 'r multi_state =
  ms_merged :: "string list"
  ms_provenance :: "(string, string) hash_map"
  ms_seen :: "string set"
  ms_pointers :: "nat list"
  ms_counts :: "nat list"
  ms_rng :: 'r

definition multi_step ::
  "(nat \<Rightarrow> 'r \<Rightarrow> nat \<times> 'r) \<Rightarrow> (string list \<times> string) list \<Rightarrow> 'r multi_state \<Rightarrow> 'r multi_state option" where
  "multi_step gen_range rankings s =
     (let n = length rankings;
          pointers = map (\<lambda>i. skip_seen (fst (rankings ! i)) (ms_seen s) (ms_pointers s ! i)) [0..<n];
          eligible = filter (\<lambda>i. pointers ! i < length (fst (rankings ! i))) [0..<n]
      in if eligible = [] then None
         else
           let min_count = Min (set (map (\<lambda>i. ms_counts s ! i) eligible));
               candidates = filter (\<lambda>i. ms_counts s ! i = min_count) eligible;
               (draw, rng) = gen_range (length candidates) (ms_rng s);
               chosen_team = candidates ! draw;
               item = fst (rankings ! chosen_team) ! (pointers ! chosen_team)
           in Some (s\<lparr>ms_seen := insert item (ms_seen s),
                      ms_provenance := (ms_provenance s)(item \<mapsto> snd (rankings ! chosen_team)),
                      ms_merged := ms_merged s @ [item],
                      ms_counts := (ms_counts s)[chosen_team := ms_counts s ! chosen_team + 1],
                      ms_pointers := pointers[chosen_team := pointers ! chosen_team + 1],
                      ms_rng := rng\<rparr>))"

lemma multi_step_grows:
  "multi_step gr rankings s = Some s' \<Longrightarrow> length (ms_merged s') = Suc (length (ms_merged s))"
  by (auto simp: multi_step_def Let_def split: if_splits prod.splits)

function multi_loop ::
  "(nat \<Rightarrow> 'r \<Rightarrow> nat \<times> 'r) \<Rightarrow> (string list \<times> string) list \<Rightarrow> nat \<Rightarrow> 'r multi_state \<Rightarrow> 'r multi_state" where
  "multi_loop gen_range rankings k s =
     (if length (ms_merged s) < k
      then case multi_step gen_range rankings s of
             None \<Rightarrow> s
           | Some s' \<Rightarrow> multi_loop gen_range rankings k s'
      else s)"
  by pat_completeness auto
termination
  by (relation "measure (\<lambda>(gr, rankings, k, s). k - length (ms_merged s))") (auto dest: multi_step_grows)

declare multi_loop.simps [simp del]

definition multi_init :: "nat \<Rightarrow> 'r \<Rightarrow> 'r multi_state" where
  "multi_init n rng = \<lparr>ms_merged = [], ms_provenance = Map.empty, ms_seen = {},
                       ms_pointers = replicate n 0, ms_counts = replicate n 0, ms_rng = rng\<rparr>"

definition multileave ::
  "(nat \<Rightarrow> 'r \<Rightarrow> nat \<times> 'r) \<Rightarrow> (string list \<times> string) list \<Rightarrow> nat \<Rightarrow> 'r \<Rightarrow> interleaved_result" where
  "multileave gen_range rankings k rng =
     (let s = multi_loop gen_range rankings k (multi_init (length rankings) rng)
      in \<lparr>ir_merged_list = ms_merged s, ir_provenance = ms_provenance s\<rparr>)"

section \<open>Optimized Interleaving\<close>

record candidate =
  cd_item :: string
  cd_source :: nat
  cd_rank :: nat

text \<open>\<^verbatim>\<open>candidates.retain(|c| dedup_seen.insert(c.item.clone()))\<close>: the first candidate of each item stays.\<close>

fun retain_first :: "string set \<Rightarrow> candidate list \<Rightarrow> candidate list" where
  "retain_first dedup_seen [] = []"
| "retain_first dedup_seen (c # cs) =
     (if cd_item c \<in> dedup_seen then retain_first dedup_seen cs
      else c # retain_first (insert (cd_item c) dedup_seen) cs)"

definition list_candidates :: "string set \<Rightarrow> nat \<Rightarrow> string list \<Rightarrow> candidate list" where
  "list_candidates seen source items =
     map (\<lambda>(rank, item). \<lparr>cd_item = item, cd_source = source, cd_rank = rank\<rparr>)
       (filter (\<lambda>(rank, item). item \<notin> seen) (List.enumerate 0 items))"

definition build_candidates ::
  "string list \<Rightarrow> string list \<Rightarrow> string set \<Rightarrow> nat list \<Rightarrow> nat \<Rightarrow> candidate list" where
  "build_candidates list_a list_b seen count balance_cap =
     retain_first {}
       (concat (map (\<lambda>(source, items). if count ! source \<ge> balance_cap then [] else list_candidates seen source items)
          (List.enumerate 0 [list_a, list_b])))"

definition score_candidate :: "(f64 \<Rightarrow> f64) \<Rightarrow> candidate \<Rightarrow> nat \<Rightarrow> nat list \<Rightarrow> f64" where
  "score_candidate log2 c pos count =
     (let rank_quality = f64_div (Fin 1) (f64_add (f64_of_nat (cd_rank c)) (Fin 1));
          position_weight = f64_div (Fin 1) (log2 (f64_of_nat (pos + 2)));
          other = 1 - cd_source c;
          balance_bonus =
            (if count ! cd_source c < count ! other then Fin (1 / 2)
             else if count ! cd_source c > count ! other then Fin (- 1 / 2)
             else Fin 0)
      in f64_add (f64_mul rank_quality position_weight) balance_bonus)"

fun first_reaching :: "f64 \<Rightarrow> f64 \<Rightarrow> nat \<Rightarrow> f64 list \<Rightarrow> nat option" where
  "first_reaching threshold cumulative i [] = None"
| "first_reaching threshold cumulative i (e # es) =
     (let cumulative' = f64_add cumulative e
      in if f64_le threshold cumulative' then Some i else first_reaching threshold cumulative' (i + 1) es)"

definition softmax_sample ::
  "(f64 \<Rightarrow> f64) \<Rightarrow> ('r \<Rightarrow> f64 \<times> 'r) \<Rightarrow> f64 list \<Rightarrow> 'r \<Rightarrow> nat \<times> 'r" where
  "softmax_sample exp_f64 gen_f64 scores rng =
     (if length scores = 1 then (0, rng)
      else
        let max_score = foldl f64_max (Inf True) scores;
            exp_scores = map (\<lambda>s. exp_f64 (f64_sub s max_score)) scores;
            sum_exp = foldl f64_add (Fin 0) exp_scores;
            (u, rng') = gen_f64 rng;
            threshold = f64_mul u sum_exp
        in (case first_reaching threshold (Fin 0) 0 exp_scores of
              Some i \<Rightarrow> (i, rng')
            | None \<Rightarrow> (length scores - 1, rng')))"

record 'r opt_state =
  os_merged :: "string list"
  os_provenance :: "(string, string) hash_map"
  os_seen :: "string set"
  os_count :: "nat list"
  os_rng :: 'r

definition opt_step ::
  "(f64 \<Rightarrow> f64) \<Rightarrow> (f64 \<Rightarrow> f64) \<Rightarrow> ('r \<Rightarrow> f64 \<times> 'r) \<Rightarrow> string list \<Rightarrow> string list \<Rightarrow> string \<Rightarrow> string \<Rightarrow> nat \<Rightarrow> nat \<Rightarrow>
   'r opt_state \<Rightarrow> 'r opt_state option" where
  "opt_step exp_f64 log2 gen_f64 list_a list_b algo_a_id algo_b_id balance_cap pos s =
     (let candidates = build_candidates list_a list_b (os_seen s) (os_count s) balance_cap
      in if candidates = [] then None
         else
           let scores = map (\<lambda>c. score_candidate log2 c pos (os_count s)) candidates;
               (idx, rng) = softmax_sample exp_f64 gen_f64 scores (os_rng s);
               chosen = candidates ! idx
           in Some (s\<lparr>os_seen := insert (cd_item chosen) (os_seen s),
                      os_provenance := (os_provenance s)(cd_item chosen \<mapsto> [algo_a_id, algo_b_id] ! cd_source chosen),
                      os_merged := os_merged s @ [cd_item chosen],
                      os_count := (os_count s)[cd_source chosen := os_count s ! cd_source chosen + 1],
                      os_rng := rng\<rparr>))"

text \<open>\<^verbatim>\<open>for pos in 0..k\<close>, with \<^verbatim>\<open>break\<close> when no candidate is left; \<open>n\<close> counts the positions left.\<close>

fun opt_loop ::
  "(f64 \<Rightarrow> f64) \<Rightarrow> (f64 \<Rightarrow> f64) \<Rightarrow> ('r \<Rightarrow> f64 \<times> 'r) \<Rightarrow> string list \<Rightarrow> string list \<Rightarrow> string \<Rightarrow> string \<Rightarrow> nat \<Rightarrow> nat \<Rightarrow> nat \<Rightarrow>
   'r opt_state \<Rightarrow> 'r opt_state" where
  "opt_loop ex lg gf a b ida idb cap pos 0 s = s"
| "opt_loop ex lg gf a b ida idb cap pos (Suc n) s =
     (case opt_step ex lg gf a b ida idb cap pos s of
        None \<Rightarrow> s
      | Some s' \<Rightarrow> opt_loop ex lg gf a b ida idb cap (pos + 1) n s')"

definition optimized_interleave ::
  "(f64 \<Rightarrow> f64) \<Rightarrow> (f64 \<Rightarrow> f64) \<Rightarrow> ('r \<Rightarrow> f64 \<times> 'r) \<Rightarrow> string list \<Rightarrow> string list \<Rightarrow> string \<Rightarrow> string \<Rightarrow> nat \<Rightarrow> 'r \<Rightarrow>
   interleaved_result" where
  "optimized_interleave exp_f64 log2 gen_f64 list_a list_b algo_a_id algo_b_id k rng =
     (let balance_cap = (k + 1) div 2;
          s = opt_loop exp_f64 log2 gen_f64 list_a list_b algo_a_id algo_b_id balance_cap 0 k
                \<lparr>os_merged = [], os_provenance = Map.empty, os_seen = {}, os_count = [0, 0], os_rng = rng\<rparr>
      in \<lparr>ir_merged_list = os_merged s, ir_provenance = os_provenance s\<rparr>)"

lemma skip_seen_bounds: "i \<le> length l \<Longrightarrow> i \<le> skip_seen l s i \<and> skip_seen l s i \<le> length l"
proof (induction l s i rule: skip_seen.induct)
  case (1 l s i)
  then show ?case by (cases "i < length l \<and> l ! i \<in> s") (auto simp: skip_seen.simps [of l s i])
qed

lemma skip_seen_unseen: "skip_seen l s i < length l \<Longrightarrow> l ! skip_seen l s i \<notin> s"
proof (induction l s i rule: skip_seen.induct)
  case (1 l s i)
  then show ?case by (cases "i < length l \<and> l ! i \<in> s") (auto simp: skip_seen.simps [of l s i])
qed

lemma skip_seen_passed: "set (take i l) \<subseteq> s \<Longrightarrow> set (take (skip_seen l s i) l) \<subseteq> s"
proof (induction l s i rule: skip_seen.induct)
  case (1 l s i)
  then show ?case
    by (cases "i < length l \<and> l ! i \<in> s")
      (auto simp: skip_seen.simps [of l s i] take_Suc_conv_app_nth)
qed

lemma skip_seen_exhausted:
  "set (take i l) \<subseteq> s \<Longrightarrow> i \<le> length l \<Longrightarrow> \<not> skip_seen l s i < length l \<Longrightarrow> set l \<subseteq> s"
  using skip_seen_passed [of i l s] skip_seen_bounds [of i l s] by simp

text \<open>What every algorithm keeps true of its merged list, provenance map and set of seen items.\<close>

definition draft_ok ::
  "(string list \<times> string) list \<Rightarrow> nat \<Rightarrow> string list \<Rightarrow> (string, string) hash_map \<Rightarrow> bool" where
  "draft_ok srcs k merged prov \<longleftrightarrow>
     distinct merged \<and> length merged \<le> k \<and> dom prov = set merged \<and>
     (\<forall>x a. prov x = Some a \<longrightarrow> (\<exists>l. (l, a) \<in> set srcs \<and> x \<in> set l))"

lemma draft_ok_empty: "draft_ok srcs k [] Map.empty"
  by (simp add: draft_ok_def)

lemma draft_ok_push:
  assumes "draft_ok srcs k merged prov" "x \<notin> set merged" "(l, a) \<in> set srcs" "x \<in> set l" "length merged < k"
  shows "draft_ok srcs k (merged @ [x]) (prov(x \<mapsto> a))"
  using assms unfolding draft_ok_def by auto

text \<open>Counting the items attributed to one algorithm.\<close>

definition picks :: "string \<Rightarrow> string list \<Rightarrow> (string, string) hash_map \<Rightarrow> nat" where
  "picks algo merged prov = length (filter (\<lambda>x. prov x = Some algo) merged)"

lemma picks_push:
  assumes "x \<notin> set merged"
  shows "picks algo (merged @ [x]) (prov(x \<mapsto> a)) = picks algo merged prov + (if a = algo then 1 else 0)"
proof -
  have "filter (\<lambda>y. (prov(x \<mapsto> a)) y = Some algo) merged = filter (\<lambda>y. prov y = Some algo) merged"
    using assms by (intro filter_cong) auto
  then show ?thesis by (simp add: picks_def)
qed

section \<open>Team Draft\<close>

definition near :: "nat \<Rightarrow> nat \<Rightarrow> bool" where
  "near m n \<longleftrightarrow> m \<le> n + 1 \<and> n \<le> m + 1"

definition team_inv :: "string list \<Rightarrow> string list \<Rightarrow> string \<Rightarrow> string \<Rightarrow> nat \<Rightarrow> 'r team_state \<Rightarrow> bool" where
  "team_inv a b ida idb k s \<longleftrightarrow>
     draft_ok [(a, ida), (b, idb)] k (ts_merged s) (ts_provenance s) \<and>
     ts_seen s = set (ts_merged s) \<and>
     ts_idx_a s \<le> length a \<and> set (take (ts_idx_a s) a) \<subseteq> ts_seen s \<and>
     ts_idx_b s \<le> length b \<and> set (take (ts_idx_b s) b) \<subseteq> ts_seen s \<and>
     (ida \<noteq> idb \<longrightarrow> ts_count_a s = picks ida (ts_merged s) (ts_provenance s) \<and>
                   ts_count_b s = picks idb (ts_merged s) (ts_provenance s)) \<and>
     (set a \<subseteq> ts_seen s \<or> set b \<subseteq> ts_seen s \<or> near (ts_count_a s) (ts_count_b s))"

lemma team_inv_init: "team_inv a b ida idb k (team_init rng)"
  by (simp add: team_inv_def team_init_def draft_ok_empty picks_def near_def)

text \<open>The two ways a step succeeds, with what its guards establish.\<close>

lemma team_step_cases:
  assumes "team_step gb a b ida idb s = Some s'"
  obtains (pick_a) i j r where
      "i = skip_seen a (ts_seen s) (ts_idx_a s)" "j = skip_seen b (ts_seen s) (ts_idx_b s)" "i < length a"
      "j < length b \<longrightarrow> ts_count_a s \<le> ts_count_b s"
      "s' = s\<lparr>ts_seen := insert (a ! i) (ts_seen s), ts_provenance := (ts_provenance s)(a ! i \<mapsto> ida),
              ts_merged := ts_merged s @ [a ! i], ts_count_a := ts_count_a s + 1,
              ts_idx_a := i + 1, ts_idx_b := j, ts_rng := r\<rparr>"
    | (pick_b) i j r where
      "i = skip_seen a (ts_seen s) (ts_idx_a s)" "j = skip_seen b (ts_seen s) (ts_idx_b s)" "j < length b"
      "i < length a \<longrightarrow> ts_count_b s \<le> ts_count_a s"
      "s' = s\<lparr>ts_seen := insert (b ! j) (ts_seen s), ts_provenance := (ts_provenance s)(b ! j \<mapsto> idb),
              ts_merged := ts_merged s @ [b ! j], ts_count_b := ts_count_b s + 1,
              ts_idx_b := j + 1, ts_idx_a := i, ts_rng := r\<rparr>"
proof -
  define i j where "i = skip_seen a (ts_seen s) (ts_idx_a s)" and "j = skip_seen b (ts_seen s) (ts_idx_b s)"
  define pr where "pr = (if \<not> i < length a then (False, ts_rng s)
                  else if \<not> j < length b \<or> ts_count_a s < ts_count_b s then (True, ts_rng s)
                  else if ts_count_b s < ts_count_a s then (False, ts_rng s)
                  else gb (ts_rng s))"
  have some: "i < length a \<or> j < length b"
    by (rule ccontr) (use assms in \<open>simp add: team_step_def Let_def i_def j_def\<close>)
  have pr: "fst pr \<Longrightarrow> i < length a \<and> (j < length b \<longrightarrow> ts_count_a s \<le> ts_count_b s)"
    "\<not> fst pr \<Longrightarrow> j < length b \<and> (i < length a \<longrightarrow> ts_count_b s \<le> ts_count_a s)"
    using some unfolding pr_def by (auto split: if_splits)
  obtain p r where p: "pr = (p, r)" by (cases pr)
  note eq = assms [unfolded team_step_def Let_def, folded i_def j_def, folded pr_def, unfolded p prod.case]
  show thesis
  proof (cases p)
    case True
    with eq some pr(1) p show thesis by (intro pick_a [OF i_def j_def]) auto
  next
    case False
    with eq some pr(2) p show thesis by (intro pick_b [OF i_def j_def]) auto
  qed
qed

lemma set_take_Suc_insert: "i < length l \<Longrightarrow> set (take i l) \<subseteq> s \<Longrightarrow> set (take (Suc i) l) \<subseteq> insert (l ! i) s"
  by (auto simp: take_Suc_conv_app_nth)

lemma team_step_inv:
  assumes inv: "team_inv a b ida idb k s" and step: "team_step gb a b ida idb s = Some s'"
    and room: "length (ts_merged s) < k"
  shows "team_inv a b ida idb k s'"
proof -
  note i = inv [unfolded team_inv_def]
  note fa = skip_seen_bounds [of "ts_idx_a s" a "ts_seen s"] skip_seen_passed [of "ts_idx_a s" a "ts_seen s"]
    skip_seen_exhausted [of "ts_idx_a s" a "ts_seen s"]
  note fb = skip_seen_bounds [of "ts_idx_b s" b "ts_seen s"] skip_seen_passed [of "ts_idx_b s" b "ts_seen s"]
    skip_seen_exhausted [of "ts_idx_b s" b "ts_seen s"]
  from step show ?thesis
  proof (cases rule: team_step_cases)
    case (pick_a p q r)
    have new: "a ! p \<notin> set (ts_merged s)" using skip_seen_unseen pick_a(1,3) i by metis
    have "draft_ok [(a, ida), (b, idb)] k (ts_merged s') (ts_provenance s')"
      using i pick_a(3,5) new room by (auto intro: draft_ok_push [where l = a])
    moreover have "set a \<subseteq> ts_seen s' \<or> set b \<subseteq> ts_seen s' \<or> near (ts_count_a s') (ts_count_b s')"
      using i fb pick_a by (auto simp: near_def)
    moreover have "p + 1 \<le> length a" "set (take (p + 1) a) \<subseteq> insert (a ! p) (ts_seen s)"
      "q \<le> length b" "set (take q b) \<subseteq> insert (a ! p) (ts_seen s)"
      using i fa fb pick_a(1-3) set_take_Suc_insert [of p a "ts_seen s"] by auto
    ultimately show ?thesis
      using i unfolding team_inv_def pick_a(5) by (simp add: picks_push [OF new])
  next
    case (pick_b p q r)
    have new: "b ! q \<notin> set (ts_merged s)" using skip_seen_unseen pick_b(2,3) i by metis
    have "draft_ok [(a, ida), (b, idb)] k (ts_merged s') (ts_provenance s')"
      using i pick_b(3,5) new room by (auto intro: draft_ok_push [where l = b])
    moreover have "set a \<subseteq> ts_seen s' \<or> set b \<subseteq> ts_seen s' \<or> near (ts_count_a s') (ts_count_b s')"
      using i fa pick_b by (auto simp: near_def)
    moreover have "q + 1 \<le> length b" "set (take (q + 1) b) \<subseteq> insert (b ! q) (ts_seen s)"
      "p \<le> length a" "set (take p a) \<subseteq> insert (b ! q) (ts_seen s)"
      using i fa fb pick_b(1-3) set_take_Suc_insert [of q b "ts_seen s"] by auto
    ultimately show ?thesis
      using i unfolding team_inv_def pick_b(5) by (simp add: picks_push [OF new])
  qed
qed

lemma team_step_None:
  assumes "team_inv a b ida idb k s" "team_step gb a b ida idb s = None"
  shows "set a \<union> set b \<subseteq> ts_seen s"
proof -
  from assms(2) have "\<not> skip_seen a (ts_seen s) (ts_idx_a s) < length a" "\<not> skip_seen b (ts_seen s) (ts_idx_b s) < length b"
    by (auto simp: team_step_def Let_def split: if_splits prod.splits)
  with assms(1) show ?thesis
    unfolding team_inv_def using skip_seen_exhausted by (metis Un_least)
qed

lemma team_loop_inv:
  "team_inv a b ida idb k s \<Longrightarrow> length (ts_merged s) \<le> k \<Longrightarrow>
   team_inv a b ida idb k (team_loop gb a b ida idb k s) \<and>
   (length (ts_merged (team_loop gb a b ida idb k s)) = k \<or>
    set a \<union> set b \<subseteq> ts_seen (team_loop gb a b ida idb k s))"
proof (induction gb a b ida idb k s rule: team_loop.induct)
  case (1 gb a b ida idb k s)
  show ?case
  proof (cases "length (ts_merged s) < k \<and> (ts_idx_a s < length a \<or> ts_idx_b s < length b)")
    case True
    show ?thesis
    proof (cases "team_step gb a b ida idb s")
      case None
      with "1.prems" True show ?thesis
        using team_step_None [OF "1.prems"(1) None] by (simp add: team_loop.simps [of gb a b ida idb k s])
    next
      case (Some s')
      have "team_inv a b ida idb k s'" using team_step_inv [OF "1.prems"(1) Some] True by blast
      with "1.IH" [OF True Some] team_step_grows [OF Some] True Some show ?thesis
        by (simp add: team_loop.simps [of gb a b ida idb k s])
    qed
  next
    case False
    with "1.prems" have "length (ts_merged s) = k \<or> (ts_idx_a s = length a \<and> ts_idx_b s = length b)"
      by (auto simp: team_inv_def)
    with False "1.prems" show ?thesis
      by (auto simp: team_loop.simps [of gb a b ida idb k s] team_inv_def)
  qed
qed

lemma draft_ok_subset: "draft_ok srcs k merged prov \<Longrightarrow> set merged \<subseteq> \<Union> (set ` fst ` set srcs)"
proof
  fix x assume "draft_ok srcs k merged prov" "x \<in> set merged"
  then obtain a l where "prov x = Some a" "(l, a) \<in> set srcs" "x \<in> set l"
    unfolding draft_ok_def by blast
  then show "x \<in> \<Union> (set ` fst ` set srcs)" by force
qed

lemma draft_ok_complete:
  assumes "draft_ok srcs k merged prov" "length merged = k \<or> \<Union> (set ` fst ` set srcs) \<subseteq> set merged"
  shows "length merged = min k (card (\<Union> (set ` fst ` set srcs)))"
proof -
  have len: "card (set merged) = length merged" "length merged \<le> k"
    using assms(1) by (auto simp: draft_ok_def distinct_card)
  have "card (set merged) \<le> card (\<Union> (set ` fst ` set srcs))"
    by (rule card_mono [OF _ draft_ok_subset [OF assms(1)]]) auto
  moreover have "set merged = \<Union> (set ` fst ` set srcs)" if "\<Union> (set ` fst ` set srcs) \<subseteq> set merged"
    using that draft_ok_subset [OF assms(1)] by blast
  ultimately show ?thesis using assms(2) len by (metis min.absorb1 min.absorb2)
qed

lemma team_draft_final:
  fixes rng :: 'r
  obtains s :: "'r team_state" where "team_inv a b ida idb k s"
    "length (ts_merged s) = k \<or> set a \<union> set b \<subseteq> ts_seen s"
    "ir_merged_list (team_draft gb a b ida idb k rng) = ts_merged s"
    "ir_provenance (team_draft gb a b ida idb k rng) = ts_provenance s"
proof
  let ?s = "team_loop gb a b ida idb k (team_init rng)"
  have "length (ts_merged (team_init rng)) \<le> k" by (simp add: team_init_def)
  note loop = team_loop_inv [OF team_inv_init this, where gb = gb]
  show "team_inv a b ida idb k ?s" "length (ts_merged ?s) = k \<or> set a \<union> set b \<subseteq> ts_seen ?s"
    using loop by blast+
  show "ir_merged_list (team_draft gb a b ida idb k rng) = ts_merged ?s"
    "ir_provenance (team_draft gb a b ida idb k rng) = ts_provenance ?s"
    by (simp_all add: team_draft_def Let_def)
qed

section \<open>Multileave\<close>

definition multi_inv :: "(string list \<times> string) list \<Rightarrow> nat \<Rightarrow> 'r multi_state \<Rightarrow> bool" where
  "multi_inv rankings k s \<longleftrightarrow>
     draft_ok rankings k (ms_merged s) (ms_provenance s) \<and> ms_seen s = set (ms_merged s) \<and>
     length (ms_pointers s) = length rankings \<and> length (ms_counts s) = length rankings \<and>
     (\<forall>i < length rankings. ms_pointers s ! i \<le> length (fst (rankings ! i)) \<and>
        set (take (ms_pointers s ! i) (fst (rankings ! i))) \<subseteq> ms_seen s) \<and>
     (\<forall>i < length rankings. \<forall>j < length rankings.
        \<not> set (fst (rankings ! i)) \<subseteq> ms_seen s \<longrightarrow> \<not> set (fst (rankings ! j)) \<subseteq> ms_seen s \<longrightarrow>
        near (ms_counts s ! i) (ms_counts s ! j)) \<and>
     (distinct (map snd rankings) \<longrightarrow>
        (\<forall>i < length rankings. ms_counts s ! i = picks (snd (rankings ! i)) (ms_merged s) (ms_provenance s)))"

lemma multi_inv_init: "multi_inv rankings k (multi_init (length rankings) rng)"
  by (simp add: multi_inv_def multi_init_def draft_ok_empty picks_def near_def)

lemma multi_step_cases:
  assumes "gen_range_ok gr" "multi_step gr rankings s = Some s'"
  obtains t ptrs r where
    "ptrs = map (\<lambda>i. skip_seen (fst (rankings ! i)) (ms_seen s) (ms_pointers s ! i)) [0..<length rankings]"
    "t < length rankings" "ptrs ! t < length (fst (rankings ! t))"
    "\<And>j. j < length rankings \<Longrightarrow> ptrs ! j < length (fst (rankings ! j)) \<Longrightarrow> ms_counts s ! t \<le> ms_counts s ! j"
    "s' = s\<lparr>ms_seen := insert (fst (rankings ! t) ! (ptrs ! t)) (ms_seen s),
            ms_provenance := (ms_provenance s)(fst (rankings ! t) ! (ptrs ! t) \<mapsto> snd (rankings ! t)),
            ms_merged := ms_merged s @ [fst (rankings ! t) ! (ptrs ! t)],
            ms_counts := (ms_counts s)[t := ms_counts s ! t + 1],
            ms_pointers := ptrs[t := ptrs ! t + 1], ms_rng := r\<rparr>"
proof -
  define ptrs where "ptrs = map (\<lambda>i. skip_seen (fst (rankings ! i)) (ms_seen s) (ms_pointers s ! i)) [0..<length rankings]"
  define el where "el = filter (\<lambda>i. ptrs ! i < length (fst (rankings ! i))) [0..<length rankings]"
  define mc where "mc = Min (set (map (\<lambda>i. ms_counts s ! i) el))"
  define cand where "cand = filter (\<lambda>i. ms_counts s ! i = mc) el"
  obtain d r where d: "gr (length cand) (ms_rng s) = (d, r)" by (cases "gr (length cand) (ms_rng s)")
  note step = assms(2) [unfolded multi_step_def Let_def, folded ptrs_def, folded el_def, folded mc_def, folded cand_def]
  have el: "el \<noteq> []" using step by (auto split: if_splits)
  then have mc: "mc \<in> set (map (\<lambda>i. ms_counts s ! i) el)" unfolding mc_def by (intro Min_in) auto
  then have "cand \<noteq> []" by (auto simp: cand_def filter_empty_conv)
  then have dl: "d < length cand" using assms(1) d by (metis fst_conv gen_range_ok_def length_greater_0_conv)
  then have t: "cand ! d \<in> set cand" by simp
  have min: "ms_counts s ! (cand ! d) \<le> ms_counts s ! j" if "j \<in> set el" for j
    using t that unfolding cand_def mc_def by auto
  show thesis
    by (rule that [OF ptrs_def, of "cand ! d" r])
      (use t min step el d in \<open>auto simp: cand_def [symmetric] el_def cand_def\<close>)
qed

lemma multi_skip_facts:
  assumes "multi_inv rankings k s"
    and "ptrs = map (\<lambda>i. skip_seen (fst (rankings ! i)) (ms_seen s) (ms_pointers s ! i)) [0..<length rankings]"
    and "i < length rankings"
  shows "ptrs ! i \<le> length (fst (rankings ! i))" "set (take (ptrs ! i) (fst (rankings ! i))) \<subseteq> ms_seen s"
    "ptrs ! i < length (fst (rankings ! i)) \<Longrightarrow> fst (rankings ! i) ! (ptrs ! i) \<notin> ms_seen s"
    "\<not> ptrs ! i < length (fst (rankings ! i)) \<Longrightarrow> set (fst (rankings ! i)) \<subseteq> ms_seen s"
proof -
  have p: "ptrs ! i = skip_seen (fst (rankings ! i)) (ms_seen s) (ms_pointers s ! i)"
    using assms(2,3) by simp
  have b: "ms_pointers s ! i \<le> length (fst (rankings ! i))" "set (take (ms_pointers s ! i) (fst (rankings ! i))) \<subseteq> ms_seen s"
    using assms(1,3) by (auto simp: multi_inv_def)
  show "ptrs ! i \<le> length (fst (rankings ! i))" using skip_seen_bounds [OF b(1)] p by simp
  show "set (take (ptrs ! i) (fst (rankings ! i))) \<subseteq> ms_seen s" using skip_seen_passed [OF b(2)] p by simp
  show "ptrs ! i < length (fst (rankings ! i)) \<Longrightarrow> fst (rankings ! i) ! (ptrs ! i) \<notin> ms_seen s"
    using skip_seen_unseen p by simp
  show "\<not> ptrs ! i < length (fst (rankings ! i)) \<Longrightarrow> set (fst (rankings ! i)) \<subseteq> ms_seen s"
    using skip_seen_exhausted [OF b(2,1)] p by simp
qed

lemma multi_step_inv:
  assumes inv: "multi_inv rankings k s" and gr: "gen_range_ok gr"
    and step: "multi_step gr rankings s = Some s'" and room: "length (ms_merged s) < k"
  shows "multi_inv rankings k s'"
proof -
  note i = inv [unfolded multi_inv_def]
  from gr step obtain t ptrs r where
    ptrs: "ptrs = map (\<lambda>i. skip_seen (fst (rankings ! i)) (ms_seen s) (ms_pointers s ! i)) [0..<length rankings]"
    and t: "t < length rankings" "ptrs ! t < length (fst (rankings ! t))"
    and least: "\<And>j. j < length rankings \<Longrightarrow> ptrs ! j < length (fst (rankings ! j)) \<Longrightarrow> ms_counts s ! t \<le> ms_counts s ! j"
    and s': "s' = s\<lparr>ms_seen := insert (fst (rankings ! t) ! (ptrs ! t)) (ms_seen s),
            ms_provenance := (ms_provenance s)(fst (rankings ! t) ! (ptrs ! t) \<mapsto> snd (rankings ! t)),
            ms_merged := ms_merged s @ [fst (rankings ! t) ! (ptrs ! t)],
            ms_counts := (ms_counts s)[t := ms_counts s ! t + 1],
            ms_pointers := ptrs[t := ptrs ! t + 1], ms_rng := r\<rparr>"
    by (rule multi_step_cases) (rule that, assumption, assumption, assumption, blast, assumption)
  let ?x = "fst (rankings ! t) ! (ptrs ! t)"
  note facts = multi_skip_facts [OF inv ptrs]
  have lp: "length ptrs = length rankings" by (simp add: ptrs)
  have new: "?x \<notin> set (ms_merged s)" using facts(3) [OF t] i by simp
  have "(fst (rankings ! t), snd (rankings ! t)) \<in> set rankings" using t by simp
  then have ok: "draft_ok rankings k (ms_merged s') (ms_provenance s')"
    using i new room t by (auto simp: s' intro: draft_ok_push [where l = "fst (rankings ! t)"])
  have ptr: "ms_pointers s' ! j \<le> length (fst (rankings ! j)) \<and> set (take (ms_pointers s' ! j) (fst (rankings ! j))) \<subseteq> ms_seen s'"
    if "j < length rankings" for j
    using facts(1,2) [OF that] t lp set_take_Suc_insert [OF t(2), of "ms_seen s"]
    by (cases "j = t") (auto simp: s')
  have near: "near (ms_counts s' ! p) (ms_counts s' ! q)"
    if "p < length rankings" "q < length rankings" "\<not> set (fst (rankings ! p)) \<subseteq> ms_seen s'" "\<not> set (fst (rankings ! q)) \<subseteq> ms_seen s'" for p q
  proof -
    have live: "\<not> set (fst (rankings ! p)) \<subseteq> ms_seen s" "\<not> set (fst (rankings ! q)) \<subseteq> ms_seen s"
      using that by (auto simp: s')
    then have "near (ms_counts s ! p) (ms_counts s ! q)" using i that by blast
    moreover have "ms_counts s ! t \<le> ms_counts s ! p" "ms_counts s ! t \<le> ms_counts s ! q"
      using least facts(4) that live by blast+
    ultimately show ?thesis using i t by (auto simp: s' near_def nth_list_update)
  qed
  have pick: "ms_counts s' ! j = picks (snd (rankings ! j)) (ms_merged s') (ms_provenance s')"
    if "distinct (map snd rankings)" "j < length rankings" for j
  proof -
    have "snd (rankings ! t) = snd (rankings ! j) \<longleftrightarrow> t = j"
      using nth_eq_iff_index_eq [OF that(1), of t j] t that(2) by simp
    then show ?thesis using i that t by (auto simp: s' picks_push [OF new] nth_list_update)
  qed
  show ?thesis
    unfolding multi_inv_def using ok ptr near pick i lp by (simp add: s')
qed

lemma multi_step_None:
  assumes "multi_inv rankings k s" "multi_step gr rankings s = None"
  shows "\<Union> (set ` fst ` set rankings) \<subseteq> ms_seen s"
proof -
  define ptrs where "ptrs = map (\<lambda>i. skip_seen (fst (rankings ! i)) (ms_seen s) (ms_pointers s ! i)) [0..<length rankings]"
  have "filter (\<lambda>i. ptrs ! i < length (fst (rankings ! i))) [0..<length rankings] = []"
    using assms(2) by (auto simp: multi_step_def Let_def ptrs_def [symmetric] split: if_splits prod.splits)
  then have "set (fst (rankings ! i)) \<subseteq> ms_seen s" if "i < length rankings" for i
    using multi_skip_facts(4) [OF assms(1) ptrs_def that] that by (simp add: filter_empty_conv)
  then show ?thesis by (force simp: in_set_conv_nth)
qed

lemma multi_loop_inv:
  "gen_range_ok gr \<Longrightarrow> multi_inv rankings k s \<Longrightarrow> length (ms_merged s) \<le> k \<Longrightarrow>
   multi_inv rankings k (multi_loop gr rankings k s) \<and>
   (length (ms_merged (multi_loop gr rankings k s)) = k \<or>
    \<Union> (set ` fst ` set rankings) \<subseteq> ms_seen (multi_loop gr rankings k s))"
proof (induction gr rankings k s rule: multi_loop.induct)
  case (1 gr rankings k s)
  show ?case
  proof (cases "length (ms_merged s) < k")
    case True
    show ?thesis
    proof (cases "multi_step gr rankings s")
      case None
      with "1.prems" True multi_step_None [OF "1.prems"(2) None] show ?thesis
        by (simp add: multi_loop.simps [of gr rankings k s])
    next
      case (Some s')
      have "multi_inv rankings k s'" by (rule multi_step_inv [OF "1.prems"(2,1) Some True])
      with "1.IH" [OF True Some "1.prems"(1)] multi_step_grows [OF Some] True Some show ?thesis
        by (simp add: multi_loop.simps [of gr rankings k s])
    qed
  next
    case False
    with "1.prems" show ?thesis by (simp add: multi_loop.simps [of gr rankings k s])
  qed
qed

lemma multileave_final:
  fixes rng :: 'r
  assumes "gen_range_ok gr"
  obtains s :: "'r multi_state" where "multi_inv rankings k s"
    "length (ms_merged s) = k \<or> \<Union> (set ` fst ` set rankings) \<subseteq> ms_seen s"
    "ir_merged_list (multileave gr rankings k rng) = ms_merged s"
    "ir_provenance (multileave gr rankings k rng) = ms_provenance s"
proof
  let ?s = "multi_loop gr rankings k (multi_init (length rankings) rng)"
  have "length (ms_merged (multi_init (length rankings) rng)) \<le> k" by (simp add: multi_init_def)
  note loop = multi_loop_inv [OF assms multi_inv_init this]
  show "multi_inv rankings k ?s" "length (ms_merged ?s) = k \<or> \<Union> (set ` fst ` set rankings) \<subseteq> ms_seen ?s"
    using loop by blast+
  show "ir_merged_list (multileave gr rankings k rng) = ms_merged ?s"
    "ir_provenance (multileave gr rankings k rng) = ms_provenance ?s"
    by (simp_all add: multileave_def Let_def)
qed

section \<open>Optimized Interleaving\<close>

lemma first_reaching_bound: "first_reaching th c i es = Some j \<Longrightarrow> i \<le> j \<and> j < i + length es"
  by (induction es arbitrary: c i) (auto simp: Let_def split: if_splits, fastforce+)

lemma softmax_sample_bound: "scores \<noteq> [] \<Longrightarrow> fst (softmax_sample ex gf scores r) < length scores"
  using first_reaching_bound [of _ "Fin 0" 0 "map (\<lambda>s. ex (f64_sub s (foldl f64_max (Inf True) scores))) scores"]
  by (auto simp: softmax_sample_def Let_def split: prod.splits option.splits)

lemma set_retain_first: "c \<in> set (retain_first seen cs) \<Longrightarrow> c \<in> set cs \<and> cd_item c \<notin> seen"
  by (induction cs arbitrary: seen) (auto split: if_splits)

lemma retain_first_covers: "c \<in> set cs \<Longrightarrow> cd_item c \<notin> seen \<Longrightarrow> \<exists>c' \<in> set (retain_first seen cs). cd_item c' = cd_item c"
proof (induction cs arbitrary: seen)
  case (Cons d cs)
  then show ?case by (cases "cd_item d = cd_item c") auto
qed simp

lemma set_list_candidates:
  "c \<in> set (list_candidates seen src l) \<longleftrightarrow>
     cd_source c = src \<and> cd_rank c < length l \<and> l ! cd_rank c = cd_item c \<and> cd_item c \<notin> seen"
  by (cases c) (auto simp: list_candidates_def in_set_enumerate_eq image_iff)

lemma nth_mem_eq: "l ! i = x \<Longrightarrow> i < length l \<Longrightarrow> x \<in> set l"
  by auto

lemma set_build_candidates:
  assumes "c \<in> set (build_candidates a b seen count cap)"
  shows "cd_source c < 2" "cd_item c \<in> set ([a, b] ! cd_source c)" "cd_item c \<notin> seen" "count ! cd_source c < cap"
proof -
  from assms have "(c \<in> set (list_candidates seen 0 a) \<and> count ! 0 < cap) \<or> (c \<in> set (list_candidates seen 1 b) \<and> count ! 1 < cap)"
    unfolding build_candidates_def by (auto dest!: set_retain_first split: if_splits)
  then show "cd_source c < 2" "cd_item c \<in> set ([a, b] ! cd_source c)" "cd_item c \<notin> seen" "count ! cd_source c < cap"
    by (auto simp: set_list_candidates intro: nth_mem_eq)
qed

definition opt_inv ::
  "string list \<Rightarrow> string list \<Rightarrow> string \<Rightarrow> string \<Rightarrow> nat \<Rightarrow> nat \<Rightarrow> nat \<Rightarrow> 'r opt_state \<Rightarrow> bool" where
  "opt_inv a b ida idb cap k pos s \<longleftrightarrow>
     draft_ok [(a, ida), (b, idb)] k (os_merged s) (os_provenance s) \<and> os_seen s = set (os_merged s) \<and>
     length (os_count s) = 2 \<and> (\<forall>i < 2. os_count s ! i \<le> cap) \<and> length (os_merged s) = pos \<and>
     (ida \<noteq> idb \<longrightarrow> os_count s = [picks ida (os_merged s) (os_provenance s), picks idb (os_merged s) (os_provenance s)])"

lemma opt_step_inv:
  assumes inv: "opt_inv a b ida idb cap k pos s" and step: "opt_step ex lg gf a b ida idb cap pos s = Some s'"
    and room: "pos < k"
  shows "opt_inv a b ida idb cap k (Suc pos) s'"
proof -
  note i = inv [unfolded opt_inv_def]
  define cs where "cs = build_candidates a b (os_seen s) (os_count s) cap"
  define scores where "scores = map (\<lambda>c. score_candidate lg c pos (os_count s)) cs"
  obtain idx r where smp: "softmax_sample ex gf scores (os_rng s) = (idx, r)"
    by (cases "softmax_sample ex gf scores (os_rng s)")
  note st = step [unfolded opt_step_def Let_def, folded cs_def, folded scores_def, unfolded smp prod.case]
  have ne: "cs \<noteq> []" using st by auto
  then have "idx < length cs"
    using softmax_sample_bound [of scores ex gf "os_rng s"] smp by (simp add: scores_def)
  then have c: "cs ! idx \<in> set cs" by simp
  define c where "c = cs ! idx"
  note cf = set_build_candidates [OF c [unfolded cs_def], folded cs_def, folded c_def]
  have s': "s' = s\<lparr>os_seen := insert (cd_item c) (os_seen s),
      os_provenance := (os_provenance s)(cd_item c \<mapsto> [ida, idb] ! cd_source c),
      os_merged := os_merged s @ [cd_item c],
      os_count := (os_count s)[cd_source c := os_count s ! cd_source c + 1], os_rng := r\<rparr>"
    using st ne by (simp add: c_def)
  have new: "cd_item c \<notin> set (os_merged s)" using cf(3) i by simp
  from cf(1) have src: "cd_source c = 0 \<or> cd_source c = 1" by auto
  then have "([a, b] ! cd_source c, [ida, idb] ! cd_source c) \<in> set [(a, ida), (b, idb)]" by auto
  then have "draft_ok [(a, ida), (b, idb)] k (os_merged s') (os_provenance s')"
    using i new room cf(2) unfolding s' by (auto intro: draft_ok_push)
  moreover have "\<forall>j < 2. os_count s' ! j \<le> cap"
  proof (intro allI impI)
    fix j :: nat assume j: "j < 2"
    have "length (os_count s) = 2" "os_count s ! j \<le> cap" using i j by blast+
    then show "os_count s' ! j \<le> cap" using cf(4) j by (cases "cd_source c = j") (simp_all add: s')
  qed
  moreover have "ida \<noteq> idb \<longrightarrow> os_count s' = [picks ida (os_merged s') (os_provenance s'), picks idb (os_merged s') (os_provenance s')]"
    using i src by (auto simp: s' picks_push [OF new])
  ultimately show ?thesis using i by (simp add: opt_inv_def s')
qed

lemma opt_loop_inv:
  "opt_inv a b ida idb cap k pos s \<Longrightarrow> pos + n \<le> k \<Longrightarrow>
   \<exists>pos'. opt_inv a b ida idb cap k pos' (opt_loop ex lg gf a b ida idb cap pos n s)"
proof (induction n arbitrary: pos s)
  case (Suc n)
  then show ?case
    using opt_step_inv [OF Suc.prems(1), of ex lg gf]
    by (cases "opt_step ex lg gf a b ida idb cap pos s") auto
qed auto

lemma optimized_final:
  fixes rng :: 'r
  obtains s :: "'r opt_state" and pos where "opt_inv a b ida idb ((k + 1) div 2) k pos s"
    "ir_merged_list (optimized_interleave ex lg gf a b ida idb k rng) = os_merged s"
    "ir_provenance (optimized_interleave ex lg gf a b ida idb k rng) = os_provenance s"
proof -
  let ?s0 = "\<lparr>os_merged = [], os_provenance = Map.empty, os_seen = {}, os_count = [0, 0], os_rng = rng\<rparr>"
  have "opt_inv a b ida idb ((k + 1) div 2) k 0 ?s0"
    by (auto simp: opt_inv_def draft_ok_empty picks_def less_2_cases_iff)
  then obtain pos where "opt_inv a b ida idb ((k + 1) div 2) k pos (opt_loop ex lg gf a b ida idb ((k + 1) div 2) 0 k ?s0)"
    using opt_loop_inv [where pos = 0 and n = k and k = k] by fastforce
  then show thesis by (rule that) (simp_all add: optimized_interleave_def Let_def)
qed

section \<open>The contract of an interleaver\<close>

text \<open>
  The service calls an interleaver through its result only. \<open>run srcs k rng\<close> is the call on the ranked
  lists \<open>srcs\<close>, each with the identifier of its algorithm; \<open>accepts\<close> restricts the calls that are made.
\<close>

locale interleaver =
  fixes run :: "(string list \<times> string) list \<Rightarrow> nat \<Rightarrow> 'r \<Rightarrow> interleaved_result"
    and accepts :: "(string list \<times> string) list \<Rightarrow> bool"
  assumes run_ok: "accepts srcs \<Longrightarrow> draft_ok srcs k (ir_merged_list (run srcs k rng)) (ir_provenance (run srcs k rng))"
begin

lemma run_distinct: "accepts srcs \<Longrightarrow> distinct (ir_merged_list (run srcs k rng))"
  using run_ok by (auto simp: draft_ok_def)

lemma run_attributed:
  assumes "accepts srcs" "x \<in> set (ir_merged_list (run srcs k rng))"
  shows "\<exists>l algo. ir_provenance (run srcs k rng) x = Some algo \<and> (l, algo) \<in> set srcs \<and> x \<in> set l"
  using run_ok [OF assms(1), of k rng] assms(2) unfolding draft_ok_def by blast

lemma run_bounded: "accepts srcs \<Longrightarrow> length (ir_merged_list (run srcs k rng)) \<le> k"
  using run_ok by (auto simp: draft_ok_def)

end

definition run_pairwise ::
  "(string list \<Rightarrow> string list \<Rightarrow> string \<Rightarrow> string \<Rightarrow> nat \<Rightarrow> 'r \<Rightarrow> interleaved_result) \<Rightarrow>
   (string list \<times> string) list \<Rightarrow> nat \<Rightarrow> 'r \<Rightarrow> interleaved_result" where
  "run_pairwise f srcs k rng = (case srcs of [(a, ida), (b, idb)] \<Rightarrow> f a b ida idb k rng
     | _ \<Rightarrow> \<lparr>ir_merged_list = [], ir_provenance = Map.empty\<rparr>)"

definition is_pair :: "(string list \<times> string) list \<Rightarrow> bool" where
  "is_pair srcs \<longleftrightarrow> length srcs = 2"

lemma is_pair_cases: "is_pair srcs \<Longrightarrow> \<exists>a ida b idb. srcs = [(a, ida), (b, idb)]"
  by (auto simp: is_pair_def numeral_2_eq_2 length_Suc_conv)

interpretation team: interleaver "run_pairwise (team_draft gb)" is_pair for gb
proof
  fix srcs k and rng :: 'a
  assume "is_pair srcs"
  then obtain a ida b idb where srcs: "srcs = [(a, ida), (b, idb)]" using is_pair_cases by blast
  show "draft_ok srcs k (ir_merged_list (run_pairwise (team_draft gb) srcs k rng)) (ir_provenance (run_pairwise (team_draft gb) srcs k rng))"
    by (rule team_draft_final [of a b ida idb k gb rng]) (simp add: srcs run_pairwise_def team_inv_def)
qed

interpretation optimized: interleaver "run_pairwise (optimized_interleave ex lg gf)" is_pair for ex lg gf
proof
  fix srcs k and rng :: 'a
  assume "is_pair srcs"
  then obtain a ida b idb where srcs: "srcs = [(a, ida), (b, idb)]" using is_pair_cases by blast
  show "draft_ok srcs k (ir_merged_list (run_pairwise (optimized_interleave ex lg gf) srcs k rng))
      (ir_provenance (run_pairwise (optimized_interleave ex lg gf) srcs k rng))"
    by (rule optimized_final [of a b ida idb k ex lg gf rng]) (simp add: srcs run_pairwise_def opt_inv_def)
qed

interpretation multi: interleaver "multileave gr" "\<lambda>_. gen_range_ok gr" for gr
proof
  fix srcs k and rng :: 'a
  assume "gen_range_ok gr"
  then show "draft_ok srcs k (ir_merged_list (multileave gr srcs k rng)) (ir_provenance (multileave gr srcs k rng))"
    by (rule multileave_final [of gr srcs k rng]) (simp add: multi_inv_def)
qed

section \<open>Properties\<close>

text \<open>
  Team Draft shows exactly as many distinct items as the size limit and the two rankings allow.
\<close>

theorem team_draft_complete:
  "length (ir_merged_list (team_draft gb a b ida idb k rng)) = min k (card (set a \<union> set b)) \<and>
   distinct (ir_merged_list (team_draft gb a b ida idb k rng))"
proof (rule team_draft_final [of a b ida idb k gb rng])
  fix s :: "'a team_state"
  assume s: "team_inv a b ida idb k s" "length (ts_merged s) = k \<or> set a \<union> set b \<subseteq> ts_seen s"
    "ir_merged_list (team_draft gb a b ida idb k rng) = ts_merged s"
  have ok: "draft_ok [(a, ida), (b, idb)] k (ts_merged s) (ts_provenance s)" "ts_seen s = set (ts_merged s)"
    using s(1) by (simp_all add: team_inv_def)
  then show ?thesis
    using draft_ok_complete [OF ok(1)] s(2,3) by (simp add: draft_ok_def)
qed

text \<open>
  Team Draft is fair: as long as each ranking still has an item that was not shown, the numbers of items credited to the two algorithms differ by at most one.
\<close>

theorem team_draft_balanced:
  assumes "ida \<noteq> idb"
    and "\<not> set a \<subseteq> set (ir_merged_list (team_draft gb a b ida idb k rng))"
    and "\<not> set b \<subseteq> set (ir_merged_list (team_draft gb a b ida idb k rng))"
  shows "near (picks ida (ir_merged_list (team_draft gb a b ida idb k rng)) (ir_provenance (team_draft gb a b ida idb k rng)))
              (picks idb (ir_merged_list (team_draft gb a b ida idb k rng)) (ir_provenance (team_draft gb a b ida idb k rng)))"
  by (rule team_draft_final [of a b ida idb k gb rng]) (use assms in \<open>auto simp: team_inv_def\<close>)

lemma team_draft_example:
  "team_draft (\<lambda>r. (r, \<not> r)) [''x'', ''y''] [''z'', ''w''] ''A'' ''B'' 2 True =
     \<lparr>ir_merged_list = [''x'', ''z''], ir_provenance = [''x'' \<mapsto> ''A'', ''z'' \<mapsto> ''B'']\<rparr>"
  by (simp add: team_draft_def team_loop.simps team_init_def team_step_def skip_seen.simps Let_def)

theorem team_draft_balanced_witness:
  "near (picks ''A'' [''x'', ''z''] [''x'' \<mapsto> ''A'', ''z'' \<mapsto> ''B'']) (picks ''B'' [''x'', ''z''] [''x'' \<mapsto> ''A'', ''z'' \<mapsto> ''B''])"
  using team_draft_balanced [of "''A''" "''B''" "[''x'', ''y'']" "\<lambda>r. (r, \<not> r)" "[''z'', ''w'']" 2 True]
  by (simp add: team_draft_example)

text \<open>
  C39: Multileave shows as many distinct items as the size limit and the rankings allow, credits each item to an algorithm that ranked it, and keeps the credited counts of any two algorithms with unseen items within one of each other.
\<close>

theorem multileave_complete_and_balanced:
  assumes "gen_range_ok gr" "distinct (map snd rankings)"
  shows "let merged = ir_merged_list (multileave gr rankings k rng); prov = ir_provenance (multileave gr rankings k rng) in
    length merged = min k (card (\<Union> (set ` fst ` set rankings))) \<and> draft_ok rankings k merged prov \<and>
    (\<forall>i < length rankings. \<forall>j < length rankings.
       set (fst (rankings ! i)) \<subseteq> set merged \<or> set (fst (rankings ! j)) \<subseteq> set merged \<or>
       near (picks (snd (rankings ! i)) merged prov) (picks (snd (rankings ! j)) merged prov))"
proof (rule multileave_final [OF assms(1), of rankings k rng])
  fix s :: "'a multi_state"
  assume s: "multi_inv rankings k s" "length (ms_merged s) = k \<or> \<Union> (set ` fst ` set rankings) \<subseteq> ms_seen s"
    "ir_merged_list (multileave gr rankings k rng) = ms_merged s"
    "ir_provenance (multileave gr rankings k rng) = ms_provenance s"
  have ok: "draft_ok rankings k (ms_merged s) (ms_provenance s)" "ms_seen s = set (ms_merged s)"
    using s(1) by (simp_all add: multi_inv_def)
  show ?thesis
    using draft_ok_complete [OF ok(1)] s(1,2) ok assms(2) unfolding Let_def s(3,4) multi_inv_def by metis
qed

theorem multileave_complete_and_balanced_witness:
  "let rankings = [([''x'', ''y''], ''A''), ([''y'', ''z''], ''B'')];
       merged = ir_merged_list (multileave (\<lambda>n r. (0, r)) rankings 2 ()); prov = ir_provenance (multileave (\<lambda>n r. (0, r)) rankings 2 ()) in
    length merged = min 2 (card (\<Union> (set ` fst ` set rankings))) \<and> draft_ok rankings 2 merged prov \<and>
    (\<forall>i < length rankings. \<forall>j < length rankings.
       set (fst (rankings ! i)) \<subseteq> set merged \<or> set (fst (rankings ! j)) \<subseteq> set merged \<or>
       near (picks (snd (rankings ! i)) merged prov) (picks (snd (rankings ! j)) merged prov))"
  unfolding Let_def
  by (rule multileave_complete_and_balanced [unfolded Let_def]) (simp_all add: gen_range_ok_def)

text \<open>
  Optimized Interleaving never credits more than half of the list size, rounded up, to one algorithm, and credits every item it shows to an algorithm that ranked it.
\<close>

theorem optimized_interleave_capped:
  assumes "ida \<noteq> idb"
  shows "let res = optimized_interleave ex lg gf a b ida idb k rng in
    picks ida (ir_merged_list res) (ir_provenance res) \<le> (k + 1) div 2 \<and>
    picks idb (ir_merged_list res) (ir_provenance res) \<le> (k + 1) div 2 \<and>
    draft_ok [(a, ida), (b, idb)] k (ir_merged_list res) (ir_provenance res)"
  unfolding Let_def
  by (rule optimized_final [of a b ida idb k ex lg gf rng])
    (use assms in \<open>auto simp: opt_inv_def less_2_cases_iff\<close>)

theorem optimized_interleave_capped_witness:
  "let res = optimized_interleave (\<lambda>x. Fin 1) (\<lambda>x. Fin 1) (\<lambda>r. (Fin 0, r)) [''x'', ''y''] [''z''] ''A'' ''B'' 2 () in
    picks ''A'' (ir_merged_list res) (ir_provenance res) \<le> (2 + 1) div 2 \<and>
    picks ''B'' (ir_merged_list res) (ir_provenance res) \<le> (2 + 1) div 2 \<and>
    draft_ok [([''x'', ''y''], ''A''), ([''z''], ''B'')] 2 (ir_merged_list res) (ir_provenance res)"
  by (rule optimized_interleave_capped) simp

end
