(* ===== verification/Bandit_Client.thy ===== *)
theory Bandit_Client
  imports Assignment_Config Interleaving
begin

text \<open>
  The client of the bandit policy service M4b (\<^verbatim>\<open>bandit_client.rs\<close>): the four remote calls with their
  timeout and error mapping, the extraction of context features from request attributes, the payload
  lookup, and the uniform arm selection that is the fallback when M4b does not answer in time.

  M4b itself is a parameter: the record \<open>grpc_bandit_client\<close> holds, per remote procedure, the reply to
  each request, which may be that no reply arrived before the deadline.
\<close>

section \<open>Messages\<close>

datatype 'a rpc_reply = Reply 'a | Failed status | DeadlineExceeded

datatype bandit_client_error = Timeout | Grpc status

record select_arm_request =
  sar_experiment_id :: string
  sar_user_id :: string
  sar_context_features :: "(string, f64) hash_map"

record arm_selection_result =
  as_arm_id :: string
  as_assignment_probability :: f64
  as_all_arm_probabilities :: "(string, f64) hash_map"

record arm_selection =
  sel_arm_id :: string
  sel_assignment_probability :: f64
  sel_payload_json :: string
  sel_all_arm_probabilities :: "(string, f64) hash_map"

record select_slate_request =
  ssr_experiment_id :: string
  ssr_user_id :: string
  ssr_candidate_item_ids :: "string list"
  ssr_n_slots :: int
  ssr_context_features :: "(string, f64) hash_map"

record slate_slot_assignment =
  sa_slot_index :: int
  sa_item_id :: string
  sa_probability :: f64

record slate_selection_result =
  sr_slate_item_ids :: "string list"
  sr_slot_assignments :: "slate_slot_assignment list"
  sr_is_uniform_random :: bool

record create_cold_start_request =
  ccr_content_id :: string
  ccr_content_metadata :: "(string, string) hash_map"
  ccr_window_days :: int

record cold_start_created =
  csc_experiment_id :: string
  csc_content_id :: string

record affinity_scores_result =
  af_content_id :: string
  af_segment_affinity_scores :: "(string, f64) hash_map"
  af_optimal_placements :: "(string, string) hash_map"

record grpc_bandit_client =
  m4b_select_arm :: "select_arm_request \<Rightarrow> arm_selection_result rpc_reply"
  m4b_select_slate :: "select_slate_request \<Rightarrow> slate_selection_result rpc_reply"
  m4b_create_cold_start_bandit :: "create_cold_start_request \<Rightarrow> cold_start_created rpc_reply"
  m4b_export_affinity_scores :: "string \<Rightarrow> affinity_scores_result rpc_reply"

section \<open>Remote calls\<close>

text \<open>\<^verbatim>\<open>timeout(call).await.map_err(|_| Timeout)?.map_err(Grpc)?\<close>\<close>

fun await :: "'a rpc_reply \<Rightarrow> (bandit_client_error, 'a) outcome" where
  "await (Reply x) = Ok x"
| "await (Failed s) = Err (Grpc s)"
| "await DeadlineExceeded = Err Timeout"

definition select_arm ::
  "grpc_bandit_client \<Rightarrow> string \<Rightarrow> string \<Rightarrow> (string, f64) hash_map \<Rightarrow> (bandit_client_error, arm_selection_result) outcome" where
  "select_arm self experiment_id user_id context_features =
     (let req = \<lparr>sar_experiment_id = experiment_id, sar_user_id = user_id, sar_context_features = context_features\<rparr>
      in obind (await (m4b_select_arm self req)) (\<lambda>arm.
           Ok \<lparr>as_arm_id = as_arm_id arm, as_assignment_probability = as_assignment_probability arm,
               as_all_arm_probabilities = as_all_arm_probabilities arm\<rparr>))"

definition select_slate ::
  "grpc_bandit_client \<Rightarrow> string \<Rightarrow> string \<Rightarrow> string list \<Rightarrow> int \<Rightarrow> (string, f64) hash_map \<Rightarrow>
   (bandit_client_error, slate_selection_result) outcome" where
  "select_slate self experiment_id user_id candidate_item_ids n_slots context_features =
     (let req = \<lparr>ssr_experiment_id = experiment_id, ssr_user_id = user_id,
                 ssr_candidate_item_ids = candidate_item_ids, ssr_n_slots = n_slots,
                 ssr_context_features = context_features\<rparr>
      in obind (await (m4b_select_slate self req)) (\<lambda>s.
           let slot_assignments =
                 map (\<lambda>a. \<lparr>sa_slot_index = sa_slot_index a, sa_item_id = sa_item_id a,
                           sa_probability = sa_probability a\<rparr>) (sr_slot_assignments s)
           in Ok \<lparr>sr_slate_item_ids = sr_slate_item_ids s, sr_slot_assignments = slot_assignments,
                  sr_is_uniform_random = sr_is_uniform_random s\<rparr>))"

definition create_cold_start_bandit ::
  "grpc_bandit_client \<Rightarrow> string \<Rightarrow> (string, string) hash_map \<Rightarrow> int \<Rightarrow> (bandit_client_error, cold_start_created) outcome" where
  "create_cold_start_bandit self content_id content_metadata window_days =
     (let req = \<lparr>ccr_content_id = content_id, ccr_content_metadata = content_metadata, ccr_window_days = window_days\<rparr>
      in obind (await (m4b_create_cold_start_bandit self req)) (\<lambda>inner.
           Ok \<lparr>csc_experiment_id = csc_experiment_id inner, csc_content_id = csc_content_id inner\<rparr>))"

definition export_affinity_scores ::
  "grpc_bandit_client \<Rightarrow> string \<Rightarrow> (bandit_client_error, affinity_scores_result) outcome" where
  "export_affinity_scores self experiment_id =
     obind (await (m4b_export_affinity_scores self experiment_id)) (\<lambda>inner.
       if \<forall>score \<in> ran (af_segment_affinity_scores inner). is_finite score
       then Ok \<lparr>af_content_id = af_content_id inner,
                af_segment_affinity_scores = af_segment_affinity_scores inner,
                af_optimal_placements = af_optimal_placements inner\<rparr>
       else Panic)"

section \<open>Local operations\<close>

definition lookup_arm_payload :: "bandit_arm_config list \<Rightarrow> string \<Rightarrow> string" where
  "lookup_arm_payload arms wanted = unwrap_or [] (map_option arm_payload_json (find (\<lambda>a. arm_id a = wanted) arms))"

definition extract_context_features :: "bandit_config \<Rightarrow> (string, string) hash_map \<Rightarrow> (string, f64) hash_map" where
  "extract_context_features bandit_config attributes =
     collect_map (List.map_filter
       (\<lambda>key. map_option (\<lambda>v. (key, v)) (Option.bind (attributes key) parse_f64))
       (bc_context_feature_keys bandit_config))"

definition select_arm_uniform ::
  "(nat \<Rightarrow> 'r \<Rightarrow> nat \<times> 'r) \<Rightarrow> bandit_config \<Rightarrow> 'r \<Rightarrow> (arm_selection \<times> 'r) option" where
  "select_arm_uniform gen_range bandit_config rng =
     (let n = length (bc_arms bandit_config)
      in if n = 0 then None
         else
           let prob = f64_div (Fin 1) (f64_of_nat n);
               (idx, rng') = gen_range n rng;
               arm = bc_arms bandit_config ! idx;
               all_probs = collect_map (map (\<lambda>a. (arm_id a, prob)) (bc_arms bandit_config))
           in Some (\<lparr>sel_arm_id = arm_id arm, sel_assignment_probability = prob,
                     sel_payload_json = arm_payload_json arm, sel_all_arm_probabilities = all_probs\<rparr>, rng'))"

section \<open>Facts\<close>

lemma await_cases: "await r = Ok x \<or> await r \<noteq> Ok x" "await r \<noteq> Panic"
  by (cases r; simp)+

lemma select_arm_no_panic [simp]: "select_arm c e u f \<noteq> Panic"
  by (simp add: select_arm_def outcome_simps await_cases)

lemma select_slate_no_panic [simp]: "select_slate c e u ids n f \<noteq> Panic"
  by (simp add: select_slate_def Let_def outcome_simps await_cases)

lemma lookup_arm_payload_member:
  "distinct (map arm_id arms) \<Longrightarrow> a \<in> set arms \<Longrightarrow> lookup_arm_payload arms (arm_id a) = arm_payload_json a"
proof (induction arms)
  case (Cons b arms)
  then show ?case by (cases "b = a") (auto simp: lookup_arm_payload_def)
qed simp

lemma extract_context_features_eq:
  "extract_context_features bc attrs key =
     (if key \<in> set (bc_context_feature_keys bc) then Option.bind (attrs key) parse_f64 else None)"
proof -
  have step: "map_of (rev (List.map_filter (\<lambda>k. map_option (\<lambda>v. (k, v)) (g k)) ks)) key = (if key \<in> set ks then g key else None)"
    for g :: "string \<Rightarrow> f64 option" and ks
    by (induction ks) (auto simp: List.map_filter_simps map_add_def split: option.splits if_splits)
  show ?thesis by (simp add: extract_context_features_def collect_map_def step)
qed

lemma select_arm_uniform_None: "select_arm_uniform gr bc rng = None \<longleftrightarrow> bc_arms bc = []"
  by (auto simp: select_arm_uniform_def Let_def split: prod.splits)

lemma select_arm_uniform_Some:
  assumes "gen_range_ok gr" "select_arm_uniform gr bc rng = Some (sel, rng')"
  shows "\<exists>a \<in> set (bc_arms bc). sel_arm_id sel = arm_id a \<and> sel_payload_json sel = arm_payload_json a"
    and "sel_assignment_probability sel = f64_div (Fin 1) (f64_of_nat (length (bc_arms bc)))"
    and "sel_all_arm_probabilities sel = (\<lambda>x. if x \<in> arm_id ` set (bc_arms bc) then Some (sel_assignment_probability sel) else None)"
proof -
  let ?arms = "bc_arms bc"
  obtain idx r where draw: "gr (length ?arms) rng = (idx, r)" by fastforce
  have ne: "?arms \<noteq> []" using assms(2) by (auto simp: select_arm_uniform_def)
  then have "idx < length ?arms" using assms(1) draw by (metis fst_conv gen_range_ok_def length_greater_0_conv)
  then have mem: "?arms ! idx \<in> set ?arms" by simp
  have sel: "sel_arm_id sel = arm_id (?arms ! idx)" "sel_payload_json sel = arm_payload_json (?arms ! idx)"
    "sel_assignment_probability sel = f64_div (Fin 1) (f64_of_nat (length ?arms))"
    "sel_all_arm_probabilities sel = collect_map (map (\<lambda>a. (arm_id a, sel_assignment_probability sel)) ?arms)"
    using assms(2) ne draw by (auto simp: select_arm_uniform_def Let_def)
  show "\<exists>a \<in> set ?arms. sel_arm_id sel = arm_id a \<and> sel_payload_json sel = arm_payload_json a"
    using mem sel(1,2) by blast
  show "sel_assignment_probability sel = f64_div (Fin 1) (f64_of_nat (length ?arms))" by (rule sel(3))
  have const: "map_of (rev (map (\<lambda>a. (arm_id a, p)) as)) x = (if x \<in> arm_id ` set as then Some p else None)"
    for as :: "bandit_arm_config list" and p :: f64 and x
    by (induction as) (auto simp: map_add_def split: option.splits)
  show "sel_all_arm_probabilities sel = (\<lambda>x. if x \<in> arm_id ` set ?arms then Some (sel_assignment_probability sel) else None)"
    by (subst sel(4)) (auto simp: collect_map_def const)
qed

section \<open>Properties\<close>

text \<open>
  The context features sent to M4b are exactly the configured feature keys whose request attribute is present and parses as a number, each with its parsed value.
\<close>

theorem context_features_exact:
  "extract_context_features bc attrs key = Some v \<longleftrightarrow>
     key \<in> set (bc_context_feature_keys bc) \<and> (\<exists>s. attrs key = Some s \<and> parse_f64 s = Some v)"
  by (cases "attrs key") (auto simp: extract_context_features_eq)

end
