(* ===== verification/Assignment_Service.thy ===== *)
theory Assignment_Service
  imports Hashing Targeting Switchback Bandit_Client "HOL-Library.Multiset"
begin

text \<open>
  The assignment service M1 (\<^verbatim>\<open>service.rs\<close>): single and batch assignment, switchback, bandit and
  meta-experiment assignment, interleaved lists and slates. Every handler reads one snapshot of the
  configuration. The clock, the bandit client and the random number generator \<^verbatim>\<open>StdRng\<close> with the
  library functions \<^verbatim>\<open>exp\<close> and \<^verbatim>\<open>log2\<close> are parameters held in the service record.
\<close>

section \<open>State and messages\<close>

record 'r std_rng =
  seed_from_u64 :: "u64 \<Rightarrow> 'r"
  rng_gen_bool :: "'r \<Rightarrow> bool \<times> 'r"
  rng_gen_range :: "nat \<Rightarrow> 'r \<Rightarrow> nat \<times> 'r"
  rng_gen_range_inclusive :: "nat \<Rightarrow> 'r \<Rightarrow> nat \<times> 'r"
  rng_gen_f64 :: "'r \<Rightarrow> f64 \<times> 'r"

record 'r assignment_service =
  svc_config :: config
  svc_bandit_client :: "grpc_bandit_client option"
  svc_now_secs :: int
  svc_rng :: "'r std_rng"
  svc_exp :: "f64 \<Rightarrow> f64"
  svc_log2 :: "f64 \<Rightarrow> f64"

record assignment_response =
  r_experiment_id :: string
  r_variant_id :: string
  r_payload_json :: string
  r_assignment_probability :: f64
  r_is_active :: bool
  r_block_index :: int
  r_is_control :: bool

record interleaved_response =
  ilr_merged_list :: "string list"
  ilr_provenance :: "(string, string) hash_map"

record slot_probability =
  sp_slot_index :: int
  sp_item_id :: string
  sp_probability :: f64

record slate_response =
  sl_experiment_id :: string
  sl_slate_item_ids :: "string list"
  sl_slot_probabilities :: "slot_probability list"
  sl_is_uniform_random :: bool

text \<open>A response with only the experiment set, as \<^verbatim>\<open>..Default::default()\<close> gives it.\<close>

definition unassigned :: "string \<Rightarrow> bool \<Rightarrow> assignment_response" where
  "unassigned experiment_id active =
     \<lparr>r_experiment_id = experiment_id, r_variant_id = [], r_payload_json = [], r_assignment_probability = Fin 0,
      r_is_active = active, r_block_index = 0, r_is_control = False\<rparr>"

section \<open>Seeds and variants\<close>

text \<open>The 64-bit seed: two 32-bit hashes of the same key, the one with seed 1 in the high half.\<close>

definition seed_of :: "string \<Rightarrow> u64" where
  "seed_of seed_input =
     (let lo = ucast (murmurhash3_x86_32 (as_bytes seed_input) 0) :: u64;
          hi = ucast (murmurhash3_x86_32 (as_bytes seed_input) 1) :: u64
      in or (push_bit 32 hi) lo)"

fun select_variant_loop :: "f64 \<Rightarrow> f64 \<Rightarrow> f64 \<Rightarrow> variant_config list \<Rightarrow> variant_config option" where
  "select_variant_loop alloc_size relative_bucket cumulative [] = None"
| "select_variant_loop alloc_size relative_bucket cumulative (v # vs) =
     (let cumulative' = f64_add cumulative (f64_mul (vc_traffic_fraction v) alloc_size)
      in if f64_lt relative_bucket cumulative' then Some v
         else select_variant_loop alloc_size relative_bucket cumulative' vs)"

definition select_variant :: "experiment_config \<Rightarrow> u32 \<Rightarrow> ('e, variant_config) outcome" where
  "select_variant e b =
     (let alloc_size = f64_of_u32 (ac_end_bucket (ec_allocation e) - ac_start_bucket (ec_allocation e) + 1);
          relative_bucket = f64_of_u32 (b - ac_start_bucket (ec_allocation e))
      in case select_variant_loop alloc_size relative_bucket (Fin 0) (ec_variants e) of
           Some v \<Rightarrow> Ok v
         | None \<Rightarrow> if ec_variants e = [] then Panic else Ok (last (ec_variants e)))"

section \<open>Bandit experiments\<close>

definition assign_bandit ::
  "'r assignment_service \<Rightarrow> experiment_config \<Rightarrow> string \<Rightarrow> string \<Rightarrow> (string, string) hash_map \<Rightarrow>
   (status, assignment_response) outcome" where
  "assign_bandit self e user_id experiment_id attributes =
     obind (ok_or (Status FailedPrecondition
              (''experiment '' @ experiment_id @ '' is MAB/CONTEXTUAL_BANDIT but has no bandit_config''))
            (ec_bandit_config e)) (\<lambda>bandit_config.
       let fallback =
             (let seed = seed_of (user_id @ [CHR 0x00] @ experiment_id);
                  rng = seed_from_u64 (svc_rng self) seed
              in obind (ok_or (Status FailedPrecondition
                          (''experiment '' @ experiment_id @ '' bandit_config has no arms''))
                        (select_arm_uniform (rng_gen_range (svc_rng self)) bandit_config rng)) (\<lambda>(selection, rng').
                   Ok \<lparr>r_experiment_id = experiment_id, r_variant_id = sel_arm_id selection,
                       r_payload_json = sel_payload_json selection,
                       r_assignment_probability = sel_assignment_probability selection,
                       r_is_active = True, r_block_index = 0, r_is_control = False\<rparr>))
       in case svc_bandit_client self of
            None \<Rightarrow> fallback
          | Some client \<Rightarrow>
              (let context_features = extract_context_features bandit_config attributes
               in case select_arm client experiment_id user_id context_features of
                    Ok result \<Rightarrow>
                      Ok \<lparr>r_experiment_id = experiment_id, r_variant_id = as_arm_id result,
                          r_payload_json = lookup_arm_payload (bc_arms bandit_config) (as_arm_id result),
                          r_assignment_probability = as_assignment_probability result,
                          r_is_active = True, r_block_index = 0, r_is_control = False\<rparr>
                  | Err _ \<Rightarrow> fallback
                  | Panic \<Rightarrow> Panic))"

definition assign_meta ::
  "'r assignment_service \<Rightarrow> experiment_config \<Rightarrow> string \<Rightarrow> string \<Rightarrow> variant_config \<Rightarrow> (string, string) hash_map \<Rightarrow>
   (status, assignment_response) outcome" where
  "assign_meta self e user_id experiment_id variant attributes =
     (let policy_key = experiment_id @ '':'' @ vc_variant_id variant
      in obind (ok_or (Status FailedPrecondition
              (''META experiment '' @ experiment_id @ '' has no bandit_config (needed for arm definitions)''))
            (ec_bandit_config e)) (\<lambda>bandit_config.
       let context_features = extract_context_features bandit_config attributes;
           fallback =
             (let seed = seed_of (user_id @ [CHR 0x00] @ experiment_id @ [CHR 0x00] @ vc_variant_id variant);
                  rng = seed_from_u64 (svc_rng self) seed
              in obind (ok_or (Status FailedPrecondition
                          (''META experiment '' @ experiment_id @ '' bandit_config has no arms''))
                        (select_arm_uniform (rng_gen_range (svc_rng self)) bandit_config rng)) (\<lambda>(selection, rng').
                   Ok \<lparr>r_experiment_id = experiment_id, r_variant_id = sel_arm_id selection,
                       r_payload_json = sel_payload_json selection,
                       r_assignment_probability = f64_mul (vc_traffic_fraction variant) (sel_assignment_probability selection),
                       r_is_active = True, r_block_index = 0, r_is_control = vc_is_control variant\<rparr>))
       in case svc_bandit_client self of
            None \<Rightarrow> fallback
          | Some client \<Rightarrow>
              (case select_arm client policy_key user_id context_features of
                 Ok result \<Rightarrow>
                   Ok \<lparr>r_experiment_id = experiment_id, r_variant_id = as_arm_id result,
                       r_payload_json = lookup_arm_payload (bc_arms bandit_config) (as_arm_id result),
                       r_assignment_probability = f64_mul (vc_traffic_fraction variant) (as_assignment_probability result),
                       r_is_active = True, r_block_index = 0, r_is_control = vc_is_control variant\<rparr>
               | Err _ \<Rightarrow> fallback
               | Panic \<Rightarrow> Panic)))"

section \<open>Switchback experiments\<close>

text \<open>\<open>svc_now_secs\<close> is the clock after \<^verbatim>\<open>unwrap_or_default\<close>, that is 0 for a clock before the epoch.\<close>

definition assign_switchback ::
  "'r assignment_service \<Rightarrow> experiment_config \<Rightarrow> string \<Rightarrow> (string, string) hash_map \<Rightarrow>
   (status, assignment_response) outcome" where
  "assign_switchback self e experiment_id attributes =
     obind (ok_or (Status FailedPrecondition
              (''experiment '' @ experiment_id @ '' is SWITCHBACK but has no switchback_config''))
            (ec_switchback_config e)) (\<lambda>sb.
     obind (case validate_config sb of Ok u \<Rightarrow> Ok u | Err msg \<Rightarrow> Err (Status FailedPrecondition msg) | Panic \<Rightarrow> Panic) (\<lambda>_.
       let now_secs = svc_now_secs self
       in if is_in_washout now_secs (sb_block_duration_secs sb) (sb_washout_period_secs sb)
          then Ok (unassigned experiment_id True)
          else
            let block_index = compute_block_index now_secs (sb_block_duration_secs sb);
                cluster_value = (if sb_cluster_attribute sb = [] then []
                                 else unwrap_or [] (attributes (sb_cluster_attribute sb)))
            in obind (sb_select_variant block_index (sb_design sb) cluster_value experiment_id (ec_variants e)) (\<lambda>variant.
                 Ok \<lparr>r_experiment_id = experiment_id, r_variant_id = vc_variant_id variant,
                     r_payload_json = vc_payload_json variant, r_assignment_probability = Fin 1,
                     r_is_active = True, r_block_index = block_index, r_is_control = vc_is_control variant\<rparr>)))"

section \<open>Assignment\<close>

text \<open>The entity that is hashed: the user, or the session for session-level experiments that allow variation.\<close>

definition hash_input_of :: "experiment_config \<Rightarrow> string \<Rightarrow> string \<Rightarrow> (status, string) outcome" where
  "hash_input_of e user_id session_id =
     (if ec_type e = ''SESSION_LEVEL''
      then if session_id = []
           then Err (Status InvalidArgument ''session_id required for session-level experiment'')
           else
             let cross_session = (case ec_session_config e of None \<Rightarrow> True | Some sc \<Rightarrow> ss_allow_cross_session_variation sc)
             in if cross_session then Ok session_id else Ok user_id
      else Ok user_id)"

definition targeted :: "experiment_config \<Rightarrow> (string, string) hash_map \<Rightarrow> bool" where
  "targeted e attributes = (case ec_targeting_rule e of None \<Rightarrow> True | Some rule \<Rightarrow> evaluate rule attributes)"

definition assign ::
  "'r assignment_service \<Rightarrow> string \<Rightarrow> string \<Rightarrow> string \<Rightarrow> (string, string) hash_map \<Rightarrow>
   (status, assignment_response) outcome" where
  "assign self experiment_id user_id session_id attributes =
     (let config = svc_config self
      in obind (ok_or (Status NotFound (''experiment not found: '' @ experiment_id))
                (cfg_experiments_by_id config experiment_id)) (\<lambda>e.
         if ec_state e \<noteq> ''RUNNING'' then Ok (unassigned experiment_id False)
         else if \<not> targeted e attributes then Ok (unassigned experiment_id True)
         else
           obind (ok_or (Status Internal (''layer not found: '' @ ec_layer_id e))
                  (cfg_layers_by_id config (ec_layer_id e))) (\<lambda>layer.
             if ec_type e = ''MAB'' \<or> ec_type e = ''CONTEXTUAL_BANDIT''
             then assign_bandit self e user_id experiment_id attributes
             else if ec_type e = ''SWITCHBACK'' then assign_switchback self e experiment_id attributes
             else if ec_type e = ''SLATE_BANDIT'' then Ok (unassigned experiment_id True)
             else
               obind (hash_input_of e user_id session_id) (\<lambda>hash_input.
               obind (bucket hash_input (ec_hash_salt e) (lc_total_buckets layer)) (\<lambda>b.
                 if \<not> is_in_allocation b (ac_start_bucket (ec_allocation e)) (ac_end_bucket (ec_allocation e))
                 then Ok (unassigned experiment_id True)
                 else
                   obind (select_variant e b) (\<lambda>variant.
                     if ec_type e = ''META''
                     then assign_meta self e user_id experiment_id variant attributes
                     else Ok \<lparr>r_experiment_id = experiment_id, r_variant_id = vc_variant_id variant,
                              r_payload_json = vc_payload_json variant,
                              r_assignment_probability = vc_traffic_fraction variant,
                              r_is_active = True, r_block_index = 0,
                              r_is_control = vc_is_control variant\<rparr>))))))"

section \<open>Batch assignment\<close>

text \<open>The two loops carry the responses in order and the set of layers that a holdout has claimed.\<close>

fun batch_holdouts ::
  "(experiment_config \<Rightarrow> (status, assignment_response) outcome) \<Rightarrow> experiment_config list \<Rightarrow>
   assignment_response list \<Rightarrow> string set \<Rightarrow> (status, assignment_response list \<times> string set) outcome" where
  "batch_holdouts asg [] out layers = Ok (out, layers)"
| "batch_holdouts asg (e # es) out layers =
     (case asg e of
        Ok resp \<Rightarrow>
          batch_holdouts asg es (out @ [resp])
            (if r_variant_id resp \<noteq> [] then insert (ec_layer_id e) layers else layers)
      | Err _ \<Rightarrow> batch_holdouts asg es out (insert (ec_layer_id e) layers)
      | Panic \<Rightarrow> Panic)"

fun batch_regular ::
  "(experiment_config \<Rightarrow> (status, assignment_response) outcome) \<Rightarrow> string set \<Rightarrow> experiment_config list \<Rightarrow>
   assignment_response list \<Rightarrow> (status, assignment_response list) outcome" where
  "batch_regular asg layers [] out = Ok out"
| "batch_regular asg layers (e # es) out =
     (if ec_layer_id e \<in> layers then batch_regular asg layers es out
      else case asg e of
             Ok resp \<Rightarrow> batch_regular asg layers es (out @ [resp])
           | Err _ \<Rightarrow> batch_regular asg layers es out
           | Panic \<Rightarrow> Panic)"

definition assign_batch ::
  "'r assignment_service \<Rightarrow> string \<Rightarrow> string \<Rightarrow> (string, string) hash_map \<Rightarrow> (status, assignment_response list) outcome" where
  "assign_batch self user_id session_id attributes =
     (let config = svc_config self;
          (holdouts, regular) = partition ec_is_cumulative_holdout (cfg_experiments config);
          asg = (\<lambda>e. assign self (ec_experiment_id e) user_id session_id attributes)
      in obind (batch_holdouts asg holdouts [] {}) (\<lambda>(out, holdout_layers).
           batch_regular asg holdout_layers regular out))"

section \<open>Interleaved lists\<close>

definition extract_pairwise ::
  "interleaving_config \<Rightarrow> (string, string list) hash_map \<Rightarrow>
   (status, string \<times> string \<times> string list \<times> string list) outcome" where
  "extract_pairwise il_config algorithm_lists =
     (if card (dom algorithm_lists) \<noteq> 2 then
        Err (Status InvalidArgument (''expected exactly 2 algorithm lists, got '' @ show_nat (card (dom algorithm_lists))))
      else if length (il_algorithm_ids il_config) \<noteq> 2 then
        Err (Status FailedPrecondition
          (''interleaving_config.algorithm_ids must have exactly 2 entries, got '' @
           show_nat (length (il_algorithm_ids il_config))))
      else
        let algo_a_id = il_algorithm_ids il_config ! 0; algo_b_id = il_algorithm_ids il_config ! 1
        in obind (ok_or (Status InvalidArgument (''missing algorithm list for '' @ [CHR 0x27] @ algo_a_id @ [CHR 0x27]))
                  (algorithm_lists algo_a_id)) (\<lambda>list_a.
           obind (ok_or (Status InvalidArgument (''missing algorithm list for '' @ [CHR 0x27] @ algo_b_id @ [CHR 0x27]))
                  (algorithm_lists algo_b_id)) (\<lambda>list_b.
             Ok (algo_a_id, algo_b_id, list_a, list_b))))"

fun ordered_lists ::
  "(string, string list) hash_map \<Rightarrow> string list \<Rightarrow> (status, (string list \<times> string) list) outcome" where
  "ordered_lists algorithm_lists [] = Ok []"
| "ordered_lists algorithm_lists (algo_id # ids) =
     obind (ok_or (Status InvalidArgument (''missing algorithm list for '' @ [CHR 0x27] @ algo_id @ [CHR 0x27]))
            (algorithm_lists algo_id)) (\<lambda>ranked.
     obind (ordered_lists algorithm_lists ids) (\<lambda>rest. Ok ((ranked, algo_id) # rest)))"

definition interleave ::
  "'r assignment_service \<Rightarrow> string \<Rightarrow> string \<Rightarrow> (string, string list) hash_map \<Rightarrow>
   (status, interleaved_response) outcome" where
  "interleave self experiment_id user_id algorithm_lists =
     obind (ok_or (Status NotFound (''experiment not found: '' @ experiment_id))
            (cfg_experiments_by_id (svc_config self) experiment_id)) (\<lambda>e.
     if ec_state e \<noteq> ''RUNNING'' then
       Err (Status FailedPrecondition
         (''experiment '' @ experiment_id @ '' is not RUNNING (state: '' @ ec_state e @ '')''))
     else
       obind (ok_or (Status FailedPrecondition (''experiment '' @ experiment_id @ '' has no interleaving_config''))
              (ec_interleaving_config e)) (\<lambda>il_config.
       let rng = seed_from_u64 (svc_rng self) (seed_of (user_id @ [CHR 0x00] @ experiment_id));
           meth = il_method il_config
       in obind
            (if meth = ''TEAM_DRAFT'' \<or> meth = [] then
               obind (extract_pairwise il_config algorithm_lists) (\<lambda>(algo_a_id, algo_b_id, list_a, list_b).
                 let k = min (il_max_list_size il_config) (length list_a + length list_b)
                 in Ok (team_draft (rng_gen_bool (svc_rng self)) list_a list_b algo_a_id algo_b_id k rng))
             else if meth = ''OPTIMIZED'' then
               obind (extract_pairwise il_config algorithm_lists) (\<lambda>(algo_a_id, algo_b_id, list_a, list_b).
                 let k = min (il_max_list_size il_config) (length list_a + length list_b)
                 in Ok (optimized_interleave (svc_exp self) (svc_log2 self) (rng_gen_f64 (svc_rng self))
                          list_a list_b algo_a_id algo_b_id k rng))
             else if meth = ''MULTILEAVE'' then
               if length (il_algorithm_ids il_config) < 3 then
                 Err (Status FailedPrecondition
                   (''MULTILEAVE requires >= 3 algorithm_ids, got '' @ show_nat (length (il_algorithm_ids il_config))))
               else
                 obind (ordered_lists algorithm_lists (il_algorithm_ids il_config)) (\<lambda>rankings.
                   let total_items = sum_list (map (length \<circ> fst) rankings);
                       k = min (il_max_list_size il_config) total_items
                   in Ok (multileave (rng_gen_range (svc_rng self)) rankings k rng))
             else Err (Status InvalidArgument (''unsupported interleaving method: '' @ meth)))
            (\<lambda>result. Ok \<lparr>ilr_merged_list = ir_merged_list result, ilr_provenance = ir_provenance result\<rparr>)))"

section \<open>Slates\<close>

definition swap :: "'a list \<Rightarrow> nat \<Rightarrow> nat \<Rightarrow> 'a list" where
  "swap xs i j = xs[i := xs ! j, j := xs ! i]"

text \<open>\<^verbatim>\<open>for i in (1..n).rev()\<close>: from \<open>i = n - 1\<close> down to 1, swap position \<open>i\<close> with a draw from \<open>0..=i\<close>.\<close>

fun shuffle_from :: "(nat \<Rightarrow> 'r \<Rightarrow> nat \<times> 'r) \<Rightarrow> nat \<Rightarrow> 'a list \<Rightarrow> 'r \<Rightarrow> 'a list" where
  "shuffle_from gen_range_inclusive 0 xs rng = xs"
| "shuffle_from gen_range_inclusive (Suc i) xs rng =
     (let (j, rng') = gen_range_inclusive (Suc i) rng
      in shuffle_from gen_range_inclusive i (swap xs (Suc i) j) rng')"

text \<open>\<^verbatim>\<open>num_slots as usize\<close> sign-extends a negative \<^verbatim>\<open>i32\<close>; \<^verbatim>\<open>n_slots as i32\<close> truncates.\<close>

definition usize_of_i32 :: "int \<Rightarrow> nat" where
  "usize_of_i32 n = nat (n mod 2 ^ 64)"

definition i32_of_usize :: "nat \<Rightarrow> int" where
  "i32_of_usize n = sint (word_of_nat n :: i32)"

definition to_slot_probability :: "slate_slot_assignment \<Rightarrow> ('e, slot_probability) outcome" where
  "to_slot_probability a =
     (if is_finite (sa_probability a)
      then Ok \<lparr>sp_slot_index = sa_slot_index a, sp_item_id = sa_item_id a, sp_probability = sa_probability a\<rparr>
      else Panic)"

definition slate_fallback ::
  "'r assignment_service \<Rightarrow> string \<Rightarrow> string \<Rightarrow> string list \<Rightarrow> nat \<Rightarrow> slate_response" where
  "slate_fallback self experiment_id user_id candidate_item_ids n_slots =
     (let rng = seed_from_u64 (svc_rng self) (seed_of (user_id @ [CHR 0x00] @ experiment_id));
          candidates = shuffle_from (rng_gen_range_inclusive (svc_rng self)) (length candidate_item_ids - 1)
                         candidate_item_ids rng;
          slate = take n_slots candidates;
          uniform_prob = f64_div (Fin 1) (f64_of_nat (length candidate_item_ids))
      in \<lparr>sl_experiment_id = experiment_id, sl_slate_item_ids = slate,
          sl_slot_probabilities =
            map (\<lambda>(i, item_id). \<lparr>sp_slot_index = i32_of_usize i, sp_item_id = item_id, sp_probability = uniform_prob\<rparr>)
              (enumerate 0 slate),
          sl_is_uniform_random = True\<rparr>)"

definition assign_slate ::
  "'r assignment_service \<Rightarrow> string \<Rightarrow> string \<Rightarrow> string list \<Rightarrow> (string, string) hash_map \<Rightarrow>
   (status, slate_response) outcome" where
  "assign_slate self experiment_id user_id candidate_item_ids attributes =
     obind (ok_or (Status NotFound (''experiment not found: '' @ experiment_id))
            (cfg_experiments_by_id (svc_config self) experiment_id)) (\<lambda>e.
     if ec_state e \<noteq> ''RUNNING'' then
       Ok \<lparr>sl_experiment_id = experiment_id, sl_slate_item_ids = [], sl_slot_probabilities = [],
           sl_is_uniform_random = False\<rparr>
     else
       obind (ok_or (Status FailedPrecondition (''experiment '' @ experiment_id @ '' missing slate_config.num_slots''))
              (map_option (\<lambda>sc. usize_of_i32 (sl_num_slots sc)) (Option.bind (ec_bandit_config e) bc_slate_config))) (\<lambda>n_slots.
       if n_slots = 0 then
         Err (Status FailedPrecondition (''experiment '' @ experiment_id @ '' has num_slots=0''))
       else if length candidate_item_ids < n_slots then
         Err (Status InvalidArgument
           (''candidate_item_ids count ('' @ show_nat (length candidate_item_ids) @ '') must be >= num_slots ('' @
            show_nat n_slots @ '')''))
       else
         case svc_bandit_client self of
           None \<Rightarrow> Ok (slate_fallback self experiment_id user_id candidate_item_ids n_slots)
         | Some client \<Rightarrow>
             (let context_features = (case ec_bandit_config e of
                    Some bc \<Rightarrow> extract_context_features bc attributes | None \<Rightarrow> Map.empty)
              in case select_slate client experiment_id user_id candidate_item_ids (i32_of_usize n_slots) context_features of
                   Ok result \<Rightarrow>
                     obind (map_outcome to_slot_probability (sr_slot_assignments result)) (\<lambda>slot_probabilities.
                       Ok \<lparr>sl_experiment_id = experiment_id, sl_slate_item_ids = sr_slate_item_ids result,
                           sl_slot_probabilities = slot_probabilities,
                           sl_is_uniform_random = sr_is_uniform_random result\<rparr>)
                 | Err _ \<Rightarrow> Ok (slate_fallback self experiment_id user_id candidate_item_ids n_slots)
                 | Panic \<Rightarrow> Panic)))"

section \<open>Variant selection\<close>

lemma f64_lt_of_u32: "f64_lt (f64_of_u32 a) c \<Longrightarrow> unat b \<le> unat a \<Longrightarrow> f64_lt (f64_of_u32 b) c"
  by (cases c) (auto simp: f64_of_u32_exact simp del: of_nat_unat elim!: order_le_less_trans [rotated])

text \<open>The upper boundaries of the variants inside the allocation, as the loop accumulates them.\<close>

fun boundaries :: "f64 \<Rightarrow> f64 \<Rightarrow> variant_config list \<Rightarrow> f64 list" where
  "boundaries sz cum [] = []"
| "boundaries sz cum (v # vs) =
     (let cum' = f64_add cum (f64_mul (vc_traffic_fraction v) sz) in cum' # boundaries sz cum' vs)"

lemma length_boundaries [simp]: "length (boundaries sz cum vs) = length vs"
  by (induction vs arbitrary: cum) (auto simp: Let_def)

definition passed :: "f64 \<Rightarrow> f64 list \<Rightarrow> nat" where
  "passed rel bs = length (takeWhile (\<lambda>c. \<not> f64_lt rel c) bs)"

lemma passed_simps [simp]: "passed rel [] = 0" "passed rel (c # bs) = (if f64_lt rel c then 0 else Suc (passed rel bs))"
  by (simp_all add: passed_def)

lemma select_variant_loop_index:
  "select_variant_loop sz rel cum vs =
     (let i = passed rel (boundaries sz cum vs) in if i < length vs then Some (vs ! i) else None)"
  by (induction vs arbitrary: cum) (auto simp: Let_def)

definition variant_index :: "experiment_config \<Rightarrow> u32 \<Rightarrow> nat" where
  "variant_index e b =
     min (length (ec_variants e) - 1)
       (passed (f64_of_u32 (b - ac_start_bucket (ec_allocation e)))
          (boundaries (f64_of_u32 (ac_end_bucket (ec_allocation e) - ac_start_bucket (ec_allocation e) + 1)) (Fin 0)
             (ec_variants e)))"

lemma passed_le: "passed rel bs \<le> length bs"
  by (simp add: passed_def length_takeWhile_le)

lemma select_variant_index:
  assumes "ec_variants e \<noteq> []"
  shows "select_variant e b = Ok (ec_variants e ! variant_index e b)" "variant_index e b < length (ec_variants e)"
proof -
  let ?bs = "boundaries (f64_of_u32 (ac_end_bucket (ec_allocation e) - ac_start_bucket (ec_allocation e) + 1)) (Fin 0) (ec_variants e)"
  let ?i = "passed (f64_of_u32 (b - ac_start_bucket (ec_allocation e))) ?bs"
  show "variant_index e b < length (ec_variants e)"
    using assms by (simp add: variant_index_def min_less_iff_disj)
  show "select_variant e b = Ok (ec_variants e ! variant_index e b)"
  proof (cases "?i < length (ec_variants e)")
    case True
    then have "variant_index e b = ?i" by (simp add: variant_index_def)
    with True show ?thesis by (simp add: select_variant_def select_variant_loop_index Let_def)
  next
    case False
    then have "variant_index e b = length (ec_variants e) - 1" unfolding variant_index_def by (intro min_absorb1) simp
    with False assms show ?thesis
      by (simp add: select_variant_def select_variant_loop_index Let_def last_conv_nth)
  qed
qed

lemma passed_mono:
  "(\<And>c. f64_lt rel' c \<Longrightarrow> f64_lt rel c) \<Longrightarrow> passed rel bs \<le> passed rel' bs"
  by (induction bs) auto

lemma sub_unat_mono:
  fixes s b b' :: u32
  assumes "s \<le> b" "b \<le> b'"
  shows "unat (b - s) \<le> unat (b' - s)"
  using assms by unat_arith

lemma variant_index_mono:
  assumes "ac_start_bucket (ec_allocation e) \<le> b" "b \<le> b'"
  shows "variant_index e b \<le> variant_index e b'"
proof -
  have "unat (b - ac_start_bucket (ec_allocation e)) \<le> unat (b' - ac_start_bucket (ec_allocation e))"
    using assms by (rule sub_unat_mono)
  then show ?thesis
    unfolding variant_index_def by (intro min.mono order_refl passed_mono) (erule f64_lt_of_u32)
qed

text \<open>The boundary after the first \<open>i\<close> variants in exact arithmetic.\<close>

definition fraction :: "variant_config \<Rightarrow> rat" where
  "fraction v = (case vc_traffic_fraction v of Fin q \<Rightarrow> q | _ \<Rightarrow> 0)"

definition exact_boundary :: "rat \<Rightarrow> variant_config list \<Rightarrow> nat \<Rightarrow> rat" where
  "exact_boundary sz vs i = sum_list (map (\<lambda>v. fraction v * sz) (take i vs))"

lemma exact_boundary_Suc: "i < length vs \<Longrightarrow> exact_boundary sz vs (Suc i) = exact_boundary sz vs i + fraction (vs ! i) * sz"
  by (simp add: exact_boundary_def take_Suc_conv_app_nth)

definition exact_arithmetic :: "rat \<Rightarrow> variant_config list \<Rightarrow> bool" where
  "exact_arithmetic sz vs \<longleftrightarrow>
     (\<forall>v \<in> set vs. vc_traffic_fraction v = Fin (fraction v) \<and> 0 \<le> fraction v \<and> f64_round (fraction v * sz) = Fin (fraction v * sz)) \<and>
     (\<forall>i \<le> length vs. f64_round (exact_boundary sz vs i) = Fin (exact_boundary sz vs i))"

lemma boundaries_exact_aux:
  assumes "\<forall>v \<in> set vs. vc_traffic_fraction v = Fin (fraction v) \<and> f64_round (fraction v * sz) = Fin (fraction v * sz)"
    and "\<forall>i \<le> length vs. f64_round (q + exact_boundary sz vs i) = Fin (q + exact_boundary sz vs i)"
  shows "boundaries (Fin sz) (Fin q) vs = map (\<lambda>i. Fin (q + exact_boundary sz vs (Suc i))) [0..<length vs]"
  using assms
proof (induction vs arbitrary: q)
  case (Cons v vs)
  have b: "exact_boundary sz (v # vs) (Suc i) = fraction v * sz + exact_boundary sz vs i" for i
    by (simp add: exact_boundary_def)
  have b0: "exact_boundary sz vs 0 = 0" by (simp add: exact_boundary_def)
  have "f64_round (q + fraction v * sz) = Fin (q + fraction v * sz)"
    using Cons.prems(2)[rule_format, of 1] by (simp add: b b0)
  moreover have "boundaries (Fin sz) (Fin (q + fraction v * sz)) vs =
      map (\<lambda>i. Fin (q + fraction v * sz + exact_boundary sz vs (Suc i))) [0..<length vs]"
  proof (rule Cons.IH)
    show "\<forall>i \<le> length vs. f64_round (q + fraction v * sz + exact_boundary sz vs i) = Fin (q + fraction v * sz + exact_boundary sz vs i)"
      using Cons.prems(2)[rule_format, of "Suc _"] by (auto simp: b add.assoc)
  qed (use Cons.prems(1) in simp)
  ultimately show ?case
    using Cons.prems(1) by (simp add: Let_def b b0 upt_conv_Cons map_Suc_upt [symmetric] add.assoc del: upt_Suc)
qed simp

lemma exact_boundary_mono:
  assumes "\<forall>v \<in> set vs. 0 \<le> fraction v" "0 \<le> sz" "i \<le> j" "j \<le> length vs"
  shows "exact_boundary sz vs i \<le> exact_boundary sz vs j"
  using assms(3,4)
proof (induction j rule: dec_induct)
  case (step n)
  moreover have "0 \<le> fraction (vs ! n) * sz" using step.prems assms(1,2) by simp
  ultimately show ?case by (simp add: exact_boundary_Suc)
qed simp

lemma takeWhile_length_eqI:
  "i < length xs \<Longrightarrow> (\<And>j. j < i \<Longrightarrow> P (xs ! j)) \<Longrightarrow> \<not> P (xs ! i) \<Longrightarrow> length (takeWhile P xs) = i"
  by (subst takeWhile_eq_take_P_nth [of i]) auto

lemma select_variant_exact_aux:
  assumes "exact_arithmetic (of_nat n) (ec_variants e)"
    and n: "n = unat (ac_end_bucket (ec_allocation e) - ac_start_bucket (ec_allocation e) + 1)"
    and i: "i < length (ec_variants e)"
    and rel: "exact_boundary (of_nat n) (ec_variants e) i \<le> of_nat (unat (b - ac_start_bucket (ec_allocation e)))"
      "of_nat (unat (b - ac_start_bucket (ec_allocation e))) < exact_boundary (of_nat n) (ec_variants e) (Suc i)"
  shows "select_variant e b = Ok (ec_variants e ! i)"
proof -
  let ?vs = "ec_variants e" and ?r = "unat (b - ac_start_bucket (ec_allocation e))"
  have bs: "boundaries (Fin (of_nat n)) (Fin 0) ?vs = map (\<lambda>i. Fin (exact_boundary (of_nat n) ?vs (Suc i))) [0..<length ?vs]"
    using boundaries_exact_aux [of ?vs "of_nat n" 0] assms(1) by (simp add: exact_arithmetic_def)
  have "passed (Fin (of_nat ?r)) (boundaries (Fin (of_nat n)) (Fin 0) ?vs) = i"
    unfolding passed_def bs
  proof (rule takeWhile_length_eqI)
    fix j assume "j < i"
    then have "exact_boundary (of_nat n) ?vs (Suc j) \<le> exact_boundary (of_nat n) ?vs i"
      using assms(1) i by (intro exact_boundary_mono) (auto simp: exact_arithmetic_def)
    with rel(1) \<open>j < i\<close> i show "\<not> f64_lt (Fin (of_nat ?r)) (map (\<lambda>i. Fin (exact_boundary (of_nat n) ?vs (Suc i))) [0..<length ?vs] ! j)"
      by (simp del: of_nat_unat)
  qed (use i rel(2) in \<open>simp_all del: of_nat_unat\<close>)
  then have "variant_index e b = i"
    using i by (simp add: variant_index_def f64_of_u32_exact n del: of_nat_unat)
  moreover have "?vs \<noteq> []" using i by auto
  ultimately show ?thesis using select_variant_index(1) [of e b] by simp
qed

lemma select_variant_past_aux:
  assumes "exact_arithmetic (of_nat n) (ec_variants e)" "ec_variants e \<noteq> []"
    and n: "n = unat (ac_end_bucket (ec_allocation e) - ac_start_bucket (ec_allocation e) + 1)"
    and rel: "exact_boundary (of_nat n) (ec_variants e) (length (ec_variants e)) \<le> of_nat (unat (b - ac_start_bucket (ec_allocation e)))"
  shows "select_variant e b = Ok (last (ec_variants e))"
proof -
  let ?vs = "ec_variants e" and ?r = "unat (b - ac_start_bucket (ec_allocation e))"
  have bs: "boundaries (Fin (of_nat n)) (Fin 0) ?vs = map (\<lambda>i. Fin (exact_boundary (of_nat n) ?vs (Suc i))) [0..<length ?vs]"
    using boundaries_exact_aux [of ?vs "of_nat n" 0] assms(1) by (simp add: exact_arithmetic_def)
  have "\<not> f64_lt (Fin (of_nat ?r)) c" if "c \<in> set (boundaries (Fin (of_nat n)) (Fin 0) ?vs)" for c
  proof -
    from that obtain j where j: "j < length ?vs" "c = Fin (exact_boundary (of_nat n) ?vs (Suc j))" by (auto simp: bs)
    have "exact_boundary (of_nat n) ?vs (Suc j) \<le> exact_boundary (of_nat n) ?vs (length ?vs)"
      using assms(1) j(1) by (intro exact_boundary_mono) (auto simp: exact_arithmetic_def)
    with rel j(2) show ?thesis by (simp del: of_nat_unat)
  qed
  then have "passed (Fin (of_nat ?r)) (boundaries (Fin (of_nat n)) (Fin 0) ?vs) = length ?vs"
    by (simp add: passed_def takeWhile_eq_all_conv [THEN iffD2])
  then have "variant_index e b = length ?vs - 1"
    by (simp add: variant_index_def f64_of_u32_exact n del: of_nat_unat)
  then show ?thesis using select_variant_index(1) [OF assms(2), of b] by (simp add: last_conv_nth assms(2))
qed

lemma interval_exists:
  fixes f :: "nat \<Rightarrow> rat"
  assumes "f 0 \<le> r" "r < f n"
  shows "\<exists>j < n. f j \<le> r \<and> r < f (Suc j)"
  using assms
proof (induction n)
  case (Suc n)
  show ?case by (cases "r < f n") (use Suc in \<open>auto intro: less_SucI\<close>)
qed simp

section \<open>Fallback arms\<close>

definition rng_ok :: "'r std_rng \<Rightarrow> bool" where
  "rng_ok g \<longleftrightarrow> gen_range_ok (rng_gen_range g) \<and> (\<forall>i r. fst (rng_gen_range_inclusive g i r) \<le> i)"

lemma assign_bandit_no_panic [simp]: "assign_bandit self e u x attrs \<noteq> Panic"
  by (auto simp: assign_bandit_def Let_def outcome_simps split: option.splits outcome.splits prod.splits)

lemma assign_meta_no_panic [simp]: "assign_meta self e u x v attrs \<noteq> Panic"
  by (auto simp: assign_meta_def Let_def outcome_simps split: option.splits outcome.splits prod.splits)

lemma validate_config_no_panic [simp]: "validate_config c \<noteq> Panic"
  by (simp add: validate_config_def)

lemma sb_select_variant_no_panic: "vs \<noteq> [] \<Longrightarrow> sb_select_variant k d c x vs \<noteq> Panic"
  by (simp add: sb_select_variant_def)

lemma assign_switchback_no_panic: "ec_variants e \<noteq> [] \<Longrightarrow> assign_switchback self e x attrs \<noteq> Panic"
  by (auto simp: assign_switchback_def Let_def outcome_simps sb_select_variant_no_panic split: if_splits outcome.splits)

lemma hash_input_no_panic [simp]: "hash_input_of e u s \<noteq> Panic"
  by (simp add: hash_input_of_def Let_def)

definition servable :: "config \<Rightarrow> bool" where
  "servable cfg \<longleftrightarrow>
     (\<forall>x e. cfg_experiments_by_id cfg x = Some e \<longrightarrow> ec_variants e \<noteq> []) \<and>
     (\<forall>l layer. cfg_layers_by_id cfg l = Some layer \<longrightarrow> 0 < lc_total_buckets layer)"

lemma assign_no_panic:
  assumes "servable (svc_config self)"
  shows "assign self x u s attrs \<noteq> Panic"
proof -
  have vs: "ec_variants e \<noteq> []" if "cfg_experiments_by_id (svc_config self) x = Some e" for e
    using assms that by (auto simp: servable_def)
  have layer: "0 < lc_total_buckets l" if "cfg_layers_by_id (svc_config self) y = Some l" for y l
    using assms that by (auto simp: servable_def)
  show ?thesis
    unfolding assign_def Let_def
    by (auto simp: outcome_simps vs layer bucket_def select_variant_index(1) assign_switchback_no_panic split: if_splits)
qed

section \<open>Every way to a response\<close>

fun is_ok :: "('e, 'a) outcome \<Rightarrow> 'a option" where
  "is_ok (Ok x) = Some x"
| "is_ok _ = None"

text \<open>The arm that M4b chose, when it answered in time.\<close>

definition m4b_arm :: "'r assignment_service \<Rightarrow> string \<Rightarrow> string \<Rightarrow> (string, f64) hash_map \<Rightarrow> arm_selection_result option" where
  "m4b_arm self key user_id features =
     Option.bind (svc_bandit_client self) (\<lambda>client. is_ok (select_arm client key user_id features))"

lemma m4b_arm_cases:
  obtains (none) "svc_bandit_client self = None" "m4b_arm self k u f = None"
  | (failed) c err where "svc_bandit_client self = Some c" "select_arm c k u f = Err err" "m4b_arm self k u f = None"
  | (ok) c a where "svc_bandit_client self = Some c" "select_arm c k u f = Ok a" "m4b_arm self k u f = Some a"
  by (cases "svc_bandit_client self"; cases "select_arm (the (svc_bandit_client self)) k u f") (auto simp: m4b_arm_def)

lemma assign_bandit_eq:
  assumes "ec_bandit_config e = Some bc"
  shows "assign_bandit self e u x attrs =
    (case m4b_arm self x u (extract_context_features bc attrs) of
       Some a \<Rightarrow> Ok \<lparr>r_experiment_id = x, r_variant_id = as_arm_id a, r_payload_json = lookup_arm_payload (bc_arms bc) (as_arm_id a),
                    r_assignment_probability = as_assignment_probability a, r_is_active = True, r_block_index = 0, r_is_control = False\<rparr>
     | None \<Rightarrow>
         (case select_arm_uniform (rng_gen_range (svc_rng self)) bc (seed_from_u64 (svc_rng self) (seed_of (u @ [CHR 0x00] @ x))) of
            None \<Rightarrow> Err (Status FailedPrecondition (''experiment '' @ x @ '' bandit_config has no arms''))
          | Some (sel, _) \<Rightarrow>
              Ok \<lparr>r_experiment_id = x, r_variant_id = sel_arm_id sel, r_payload_json = sel_payload_json sel,
                  r_assignment_probability = sel_assignment_probability sel, r_is_active = True, r_block_index = 0, r_is_control = False\<rparr>))"
  by (cases rule: m4b_arm_cases [of self x u "extract_context_features bc attrs"])
    (simp_all add: assign_bandit_def Let_def assms split: option.split prod.split)

lemma assign_meta_eq:
  assumes "ec_bandit_config e = Some bc"
  shows "assign_meta self e u x v attrs =
    (case m4b_arm self (x @ '':'' @ vc_variant_id v) u (extract_context_features bc attrs) of
       Some a \<Rightarrow> Ok \<lparr>r_experiment_id = x, r_variant_id = as_arm_id a, r_payload_json = lookup_arm_payload (bc_arms bc) (as_arm_id a),
                    r_assignment_probability = f64_mul (vc_traffic_fraction v) (as_assignment_probability a),
                    r_is_active = True, r_block_index = 0, r_is_control = vc_is_control v\<rparr>
     | None \<Rightarrow>
         (case select_arm_uniform (rng_gen_range (svc_rng self)) bc
                 (seed_from_u64 (svc_rng self) (seed_of (u @ [CHR 0x00] @ x @ [CHR 0x00] @ vc_variant_id v))) of
            None \<Rightarrow> Err (Status FailedPrecondition (''META experiment '' @ x @ '' bandit_config has no arms''))
          | Some (sel, _) \<Rightarrow>
              Ok \<lparr>r_experiment_id = x, r_variant_id = sel_arm_id sel, r_payload_json = sel_payload_json sel,
                  r_assignment_probability = f64_mul (vc_traffic_fraction v) (sel_assignment_probability sel),
                  r_is_active = True, r_block_index = 0, r_is_control = vc_is_control v\<rparr>))"
  by (cases rule: m4b_arm_cases [of self "x @ '':'' @ vc_variant_id v" u "extract_context_features bc attrs"])
    (simp_all add: assign_meta_def Let_def assms split: option.split prod.split)

lemma assign_bandit_response: "assign_bandit self e u x attrs = Ok r \<Longrightarrow> r_experiment_id r = x \<and> r_is_active r"
  by (cases "ec_bandit_config e") (auto simp: assign_bandit_eq, auto simp: assign_bandit_def split: option.splits prod.splits)

lemma assign_meta_response: "assign_meta self e u x v attrs = Ok r \<Longrightarrow> r_experiment_id r = x \<and> r_is_active r"
  by (cases "ec_bandit_config e") (auto simp: assign_meta_eq, auto simp: assign_meta_def split: option.splits prod.splits)

lemma assign_switchback_response: "assign_switchback self e x attrs = Ok r \<Longrightarrow> r_experiment_id r = x \<and> r_is_active r"
  by (auto simp: assign_switchback_def Let_def outcome_simps unassigned_def split: if_splits outcome.splits)

lemma hash_input_of_Ok: "hash_input_of e u s = Ok h \<Longrightarrow> h = u \<or> h = s"
  by (auto simp: hash_input_of_def Let_def split: if_splits)

lemma assign_cases:
  assumes "assign self x u s attrs = Ok r"
  obtains (unassigned) "r_variant_id r = []"
  | (bandit) e layer where "cfg_experiments_by_id (svc_config self) x = Some e" "ec_state e = ''RUNNING''" "targeted e attrs"
      "cfg_layers_by_id (svc_config self) (ec_layer_id e) = Some layer" "ec_type e \<in> {''MAB'', ''CONTEXTUAL_BANDIT''}"
      "assign_bandit self e u x attrs = Ok r"
  | (switchback) e layer where "cfg_experiments_by_id (svc_config self) x = Some e" "ec_state e = ''RUNNING''" "targeted e attrs"
      "cfg_layers_by_id (svc_config self) (ec_layer_id e) = Some layer" "ec_type e = ''SWITCHBACK''"
      "assign_switchback self e x attrs = Ok r"
  | (hashed) e layer h b v where "cfg_experiments_by_id (svc_config self) x = Some e" "ec_state e = ''RUNNING''" "targeted e attrs"
      "cfg_layers_by_id (svc_config self) (ec_layer_id e) = Some layer" "ec_type e \<noteq> ''SLATE_BANDIT''"
      "hash_input_of e u s = Ok h" "(bucket h (ec_hash_salt e) (lc_total_buckets layer) :: (status, u32) outcome) = Ok b"
      "ac_start_bucket (ec_allocation e) \<le> b" "b \<le> ac_end_bucket (ec_allocation e)"
      "(select_variant e b :: (status, variant_config) outcome) = Ok v"
      "ec_type e = ''META'' \<longrightarrow> assign_meta self e u x v attrs = Ok r"
      "ec_type e \<noteq> ''META'' \<longrightarrow> r = \<lparr>r_experiment_id = x, r_variant_id = vc_variant_id v, r_payload_json = vc_payload_json v,
         r_assignment_probability = vc_traffic_fraction v, r_is_active = True, r_block_index = 0, r_is_control = vc_is_control v\<rparr>"
proof -
  from assms obtain e where e: "cfg_experiments_by_id (svc_config self) x = Some e"
    by (auto simp: assign_def Let_def outcome_simps)
  note run = assms [unfolded assign_def Let_def e ok_or.simps obind.simps]
  show thesis
  proof (cases "ec_state e = ''RUNNING'' \<and> targeted e attrs \<and> ec_type e \<noteq> ''SLATE_BANDIT''")
    case False
    then show thesis using run by (intro unassigned) (auto simp: unassigned_def outcome_simps split: if_splits)
  next
    case True
    then obtain layer where l: "cfg_layers_by_id (svc_config self) (ec_layer_id e) = Some layer"
      using run by (auto simp: outcome_simps)
    note g = e conjunct1 [OF True] conjunct1 [OF conjunct2 [OF True]] l
    note run = run [unfolded l ok_or.simps obind.simps]
    show thesis
    proof (cases "ec_type e \<in> {''MAB'', ''CONTEXTUAL_BANDIT'', ''SWITCHBACK''}")
      case True
      then show thesis using run g bandit [OF g] switchback [OF g] by auto
    next
      case False
      with True run obtain h b where hb: "hash_input_of e u s = Ok h"
          "(bucket h (ec_hash_salt e) (lc_total_buckets layer) :: (status, u32) outcome) = Ok b"
        by (auto simp: outcome_simps)
      note run = run [unfolded hb obind.simps]
      show thesis
      proof (cases "is_in_allocation b (ac_start_bucket (ec_allocation e)) (ac_end_bucket (ec_allocation e))")
        case False
        then show thesis using True \<open>ec_type e \<notin> _\<close> run by (intro unassigned) (auto simp: unassigned_def)
      next
        case a: True
        with True False run obtain v where v: "(select_variant e b :: (status, variant_config) outcome) = Ok v"
          by (auto simp: outcome_simps)
        have "(if ec_type e = ''META'' then assign_meta self e u x v attrs
            else Ok \<lparr>r_experiment_id = x, r_variant_id = vc_variant_id v, r_payload_json = vc_payload_json v,
              r_assignment_probability = vc_traffic_fraction v, r_is_active = True, r_block_index = 0, r_is_control = vc_is_control v\<rparr>) = Ok r"
          using True False a run [unfolded v obind.simps] by simp
        then show thesis
          using True a by (intro hashed [OF g _ hb _ _ v]) (simp_all add: is_in_allocation_def split: if_splits)
      qed
    qed
  qed
qed

section \<open>Batch assignment\<close>

definition ok_responses ::
  "(experiment_config \<Rightarrow> (status, assignment_response) outcome) \<Rightarrow> experiment_config list \<Rightarrow> assignment_response list" where
  "ok_responses asg es = List.map_filter (\<lambda>e. is_ok (asg e)) es"

text \<open>A holdout claims its layer when it assigns a variant or cannot be evaluated.\<close>

definition claims_layer :: "(experiment_config \<Rightarrow> (status, assignment_response) outcome) \<Rightarrow> experiment_config \<Rightarrow> bool" where
  "claims_layer asg e \<longleftrightarrow> (case asg e of Ok r \<Rightarrow> r_variant_id r \<noteq> [] | Err _ \<Rightarrow> True | Panic \<Rightarrow> False)"

lemma ok_responses_simps [simp]:
  "ok_responses asg [] = []"
  "ok_responses asg (e # es) = (case asg e of Ok r \<Rightarrow> r # ok_responses asg es | _ \<Rightarrow> ok_responses asg es)"
  by (auto simp: ok_responses_def List.map_filter_simps split: outcome.splits)

lemma batch_holdouts_eq:
  "(\<And>e. e \<in> set es \<Longrightarrow> asg e \<noteq> Panic) \<Longrightarrow>
   batch_holdouts asg es out layers =
     Ok (out @ ok_responses asg es, layers \<union> ec_layer_id ` {e \<in> set es. claims_layer asg e})"
proof (induction es arbitrary: out layers)
  case (Cons e es)
  have "asg e \<noteq> Panic" by (simp add: Cons.prems)
  moreover have "{e' \<in> set (e # es). claims_layer asg e'} =
      (if claims_layer asg e then insert e {e' \<in> set es. claims_layer asg e'} else {e' \<in> set es. claims_layer asg e'})"
    by auto
  ultimately show ?case
    using Cons by (cases "asg e") (simp_all add: claims_layer_def)
qed simp

lemma batch_regular_eq:
  "(\<And>e. e \<in> set es \<Longrightarrow> asg e \<noteq> Panic) \<Longrightarrow>
   batch_regular asg layers es out = Ok (out @ ok_responses asg (filter (\<lambda>e. ec_layer_id e \<notin> layers) es))"
proof (induction es arbitrary: out)
  case (Cons e es)
  have "asg e \<noteq> Panic" by (simp add: Cons.prems)
  then show ?case using Cons by (cases "asg e") simp_all
qed simp

section \<open>Interleaved lists and slates\<close>

lemma extract_pairwise_Ok:
  "extract_pairwise il lists0 = Ok (ida, idb, a, b) \<Longrightarrow>
     il_algorithm_ids il = [ida, idb] \<and> lists0 ida = Some a \<and> lists0 idb = Some b"
  by (auto simp: extract_pairwise_def Let_def outcome_simps numeral_2_eq_2 length_Suc_conv split: if_splits)

lemma ordered_lists_Ok:
  "ordered_lists m ids = Ok rankings \<Longrightarrow> map snd rankings = ids \<and> (\<forall>(l, algo) \<in> set rankings. m algo = Some l)"
  by (induction ids arbitrary: rankings) (auto simp: outcome_simps)

text \<open>What a caller of \<open>interleave\<close> relies on: a short enough list of distinct items, each credited to a configured algorithm that ranked it.\<close>

definition valid_interleaving ::
  "interleaving_config \<Rightarrow> (string, string list) hash_map \<Rightarrow> interleaved_response \<Rightarrow> bool" where
  "valid_interleaving il algorithm_lists r \<longleftrightarrow>
     distinct (ilr_merged_list r) \<and> length (ilr_merged_list r) \<le> il_max_list_size il \<and>
     (\<forall>x \<in> set (ilr_merged_list r). \<exists>algo l. ilr_provenance r x = Some algo \<and> algo \<in> set (il_algorithm_ids il) \<and>
        algorithm_lists algo = Some l \<and> x \<in> set l)"

context interleaver
begin

lemma run_valid_interleaving:
  assumes "accepts srcs" "k \<le> il_max_list_size il"
    and "\<forall>(l, algo) \<in> set srcs. algo \<in> set (il_algorithm_ids il) \<and> m algo = Some l"
  shows "valid_interleaving il m
    \<lparr>ilr_merged_list = ir_merged_list (run srcs k rng), ilr_provenance = ir_provenance (run srcs k rng)\<rparr>"
  unfolding valid_interleaving_def
  using run_distinct [OF assms(1), of k rng] run_bounded [OF assms(1), of k rng] run_attributed [OF assms(1), of _ k rng] assms(2,3)
  by fastforce

end

definition il_response :: "interleaved_result \<Rightarrow> interleaved_response" where
  "il_response t = \<lparr>ilr_merged_list = ir_merged_list t, ilr_provenance = ir_provenance t\<rparr>"

lemma pairwise_sources:
  assumes "extract_pairwise il m = Ok (ida, idb, a, b)"
  shows "\<forall>(l, algo) \<in> set [(a, ida), (b, idb)]. algo \<in> set (il_algorithm_ids il) \<and> m algo = Some l"
    and "is_pair [(a, ida), (b, idb)]"
  using extract_pairwise_Ok [OF assms] by (auto simp: is_pair_def)

lemma ordered_sources:
  assumes "ordered_lists m (il_algorithm_ids il) = Ok rankings"
  shows "\<forall>(l, algo) \<in> set rankings. algo \<in> set (il_algorithm_ids il) \<and> m algo = Some l"
  using ordered_lists_Ok [OF assms] by (metis (mono_tags, lifting) case_prod_beta image_eqI list.set_map)

lemma interleave_cases:
  assumes "interleave self x u m = Ok r"
  obtains (team) e il ida idb a b k rng where "cfg_experiments_by_id (svc_config self) x = Some e" "ec_state e = ''RUNNING''"
      "ec_interleaving_config e = Some il" "extract_pairwise il m = Ok (ida, idb, a, b)" "k \<le> il_max_list_size il"
      "r = il_response (team_draft (rng_gen_bool (svc_rng self)) a b ida idb k rng)"
  | (opt) e il ida idb a b k rng where "cfg_experiments_by_id (svc_config self) x = Some e" "ec_state e = ''RUNNING''"
      "ec_interleaving_config e = Some il" "extract_pairwise il m = Ok (ida, idb, a, b)" "k \<le> il_max_list_size il"
      "r = il_response (optimized_interleave (svc_exp self) (svc_log2 self) (rng_gen_f64 (svc_rng self)) a b ida idb k rng)"
  | (multi) e il rankings k rng where "cfg_experiments_by_id (svc_config self) x = Some e" "ec_state e = ''RUNNING''"
      "ec_interleaving_config e = Some il" "ordered_lists m (il_algorithm_ids il) = Ok rankings" "k \<le> il_max_list_size il"
      "r = il_response (multileave (rng_gen_range (svc_rng self)) rankings k rng)"
proof -
  from assms obtain e il where e: "cfg_experiments_by_id (svc_config self) x = Some e" "ec_state e = ''RUNNING''"
      "ec_interleaving_config e = Some il"
    by (auto simp: interleave_def outcome_simps split: if_splits)
  note run = assms [unfolded interleave_def e ok_or.simps obind.simps Let_def, folded il_response_def]
  consider (t) "il_method il = ''TEAM_DRAFT'' \<or> il_method il = []" | (o) "il_method il = ''OPTIMIZED''" | (m) "il_method il = ''MULTILEAVE''"
    using run e(2) by (auto split: if_splits)
  then show thesis
  proof cases
    case t
    then obtain ida idb a b where ep: "extract_pairwise il m = Ok (ida, idb, a, b)"
      and r: "r = il_response (team_draft (rng_gen_bool (svc_rng self)) a b ida idb
        (min (il_max_list_size il) (length a + length b)) (seed_from_u64 (svc_rng self) (seed_of (u @ [CHR 0x00] @ x))))"
      using run e(2) by (auto simp: outcome_simps)
    show thesis by (rule team [OF e ep _ r]) simp
  next
    case o
    then obtain ida idb a b where ep: "extract_pairwise il m = Ok (ida, idb, a, b)"
      and r: "r = il_response (optimized_interleave (svc_exp self) (svc_log2 self) (rng_gen_f64 (svc_rng self)) a b ida idb
        (min (il_max_list_size il) (length a + length b)) (seed_from_u64 (svc_rng self) (seed_of (u @ [CHR 0x00] @ x))))"
      using run e(2) by (auto simp: outcome_simps)
    show thesis by (rule opt [OF e ep _ r]) simp
  next
    case m
    then obtain rankings where ol: "ordered_lists m (il_algorithm_ids il) = Ok rankings"
      and r: "r = il_response (multileave (rng_gen_range (svc_rng self)) rankings
        (min (il_max_list_size il) (sum_list (map (length \<circ> fst) rankings)))
        (seed_from_u64 (svc_rng self) (seed_of (u @ [CHR 0x00] @ x))))"
      using run e(2) by (auto simp: outcome_simps split: if_splits)
    show thesis by (rule multi [OF e ol _ r]) simp
  qed
qed

lemma interleave_valid:
  assumes "rng_ok (svc_rng self)" "interleave self x u m = Ok r"
  shows "\<exists>e il. cfg_experiments_by_id (svc_config self) x = Some e \<and> ec_state e = ''RUNNING'' \<and>
    ec_interleaving_config e = Some il \<and> valid_interleaving il m r"
  using assms(2)
proof (cases rule: interleave_cases)
  case (team e il ida idb a b k rng)
  have "valid_interleaving il m r"
    using team.run_valid_interleaving [OF pairwise_sources(2) [OF team(4)] team(5) pairwise_sources(1) [OF team(4)]] team(6)
    by (simp add: run_pairwise_def il_response_def)
  with team(1-3) show ?thesis by blast
next
  case (opt e il ida idb a b k rng)
  have "valid_interleaving il m r"
    using optimized.run_valid_interleaving [OF pairwise_sources(2) [OF opt(4)] opt(5) pairwise_sources(1) [OF opt(4)]] opt(6)
    by (simp add: run_pairwise_def il_response_def)
  with opt(1-3) show ?thesis by blast
next
  case (multi e il rankings k rng)
  have "gen_range_ok (rng_gen_range (svc_rng self))" using assms(1) by (simp add: rng_ok_def)
  then have "valid_interleaving il m r"
    using multi.run_valid_interleaving [OF _ multi(5) ordered_sources [OF multi(4)]] multi(6)
    by (simp add: il_response_def)
  with multi(1-3) show ?thesis by blast
qed

lemma length_swap [simp]: "length (swap xs i j) = length xs"
  by (simp add: swap_def)

lemma mset_swap_eq: "i < length xs \<Longrightarrow> j < length xs \<Longrightarrow> mset (swap xs i j) = mset xs"
  by (simp add: swap_def mset_swap)

lemma mset_shuffle_from:
  "(\<And>i r. fst (gr i r) \<le> i) \<Longrightarrow> n < length xs \<or> n = 0 \<Longrightarrow> mset (shuffle_from gr n xs rng) = mset xs"
proof (induction n arbitrary: xs rng)
  case (Suc n)
  obtain j r where "gr (Suc n) rng = (j, r)" by fastforce
  moreover from this have "j \<le> Suc n" using Suc.prems(1) [of "Suc n" rng] by simp
  ultimately show ?case using Suc by (simp add: mset_swap_eq)
qed simp

lemma slate_fallback_ok:
  assumes "rng_ok (svc_rng self)" "n \<le> length ids" "0 < n"
  shows "length (sl_slate_item_ids (slate_fallback self x u ids n)) = n"
    and "mset (sl_slate_item_ids (slate_fallback self x u ids n)) \<subseteq># mset ids"
    and "map sp_item_id (sl_slot_probabilities (slate_fallback self x u ids n)) = sl_slate_item_ids (slate_fallback self x u ids n)"
proof -
  let ?sh = "shuffle_from (rng_gen_range_inclusive (svc_rng self)) (length ids - 1) ids (seed_from_u64 (svc_rng self) (seed_of (u @ [CHR 0x00] @ x)))"
  have sh: "mset ?sh = mset ids"
    using assms by (intro mset_shuffle_from) (auto simp: rng_ok_def)
  then have len: "length ?sh = length ids" by (rule mset_eq_length)
  show "length (sl_slate_item_ids (slate_fallback self x u ids n)) = n"
    using len assms(2) by (simp add: slate_fallback_def Let_def)
  have "mset (take n ?sh) \<subseteq># mset (take n ?sh @ drop n ?sh)" by (simp only: mset_append mset_subset_eq_add_left)
  then show "mset (sl_slate_item_ids (slate_fallback self x u ids n)) \<subseteq># mset ids"
    using sh by (simp add: slate_fallback_def Let_def)
  show "map sp_item_id (sl_slot_probabilities (slate_fallback self x u ids n)) = sl_slate_item_ids (slate_fallback self x u ids n)"
    by (simp add: slate_fallback_def Let_def comp_def case_prod_beta)
qed

section \<open>A sample configuration\<close>

text \<open>Two running experiments share a layer of 10000 buckets with disjoint allocations; a third one is a holdout of another layer.\<close>

definition sample_variants :: "variant_config list" where
  "sample_variants =
     [\<lparr>vc_variant_id = ''control'', vc_traffic_fraction = Fin (1 / 2), vc_is_control = True, vc_payload_json = ''{}''\<rparr>,
      \<lparr>vc_variant_id = ''treatment'', vc_traffic_fraction = Fin (1 / 2), vc_is_control = False, vc_payload_json = ''{1}''\<rparr>]"

definition sample_experiment :: "string \<Rightarrow> string \<Rightarrow> string \<Rightarrow> u32 \<Rightarrow> u32 \<Rightarrow> bool \<Rightarrow> experiment_config" where
  "sample_experiment x salt layer lo hi holdout =
     \<lparr>ec_experiment_id = x, ec_name = x, ec_state = ''RUNNING'', ec_type = ''AB'', ec_hash_salt = salt,
      ec_layer_id = layer, ec_variants = sample_variants,
      ec_allocation = \<lparr>ac_start_bucket = lo, ac_end_bucket = hi\<rparr>, ec_targeting_rule = None,
      ec_session_config = None,
      ec_interleaving_config = Some \<lparr>il_method = ''TEAM_DRAFT'', il_algorithm_ids = [''A'', ''B''], il_max_list_size = 2\<rparr>,
      ec_bandit_config = Some \<lparr>bc_algorithm = ''UCB'', bc_arms = [\<lparr>arm_id = ''a1'', arm_name = ''a1'', arm_payload_json = ''p1''\<rparr>],
        bc_reward_metric_id = ''m'', bc_context_feature_keys = [], bc_min_exploration_fraction = default_min_exploration,
        bc_warmup_observations = default_warmup_observations, bc_content_id = None, bc_cold_start_window_days = None,
        bc_slate_config = Some \<lparr>sl_num_slots = 2, sl_candidate_pool_size = 3\<rparr>\<rparr>,
      ec_is_cumulative_holdout = holdout, ec_switchback_config = None, ec_meta_experiment_config = None\<rparr>"

definition sample_config :: config where
  "sample_config = from_experiments_and_layers
     [sample_experiment ''e1'' ''s1'' ''L'' 5000 9999 False, sample_experiment ''e2'' ''s2'' ''L'' 0 4999 False,
      sample_experiment ''h'' ''s3'' ''H'' 0 9999 True, sample_experiment ''e3'' ''s4'' ''H'' 0 9999 False]
     [\<lparr>lc_layer_id = ''L'', lc_total_buckets = 10000\<rparr>, \<lparr>lc_layer_id = ''H'', lc_total_buckets = 10000\<rparr>]"

definition sample_service :: "nat assignment_service" where
  "sample_service =
     \<lparr>svc_config = sample_config, svc_bandit_client = None, svc_now_secs = 0,
      svc_rng = \<lparr>seed_from_u64 = unat, rng_gen_bool = (\<lambda>r. (even r, r div 2)),
                 rng_gen_range = (\<lambda>n r. (r mod n, r div 2)), rng_gen_range_inclusive = (\<lambda>n r. (r mod (n + 1), r div 2)),
                 rng_gen_f64 = (\<lambda>r. (Fin 0, r))\<rparr>,
      svc_exp = (\<lambda>x. x), svc_log2 = (\<lambda>x. x)\<rparr>"

text \<open>The same service with a single experiment.\<close>

definition service_of :: "experiment_config \<Rightarrow> nat assignment_service" where
  "service_of e = sample_service\<lparr>svc_config := from_experiments_and_layers [e] [\<lparr>lc_layer_id = ''L'', lc_total_buckets = 10000\<rparr>]\<rparr>"

definition session_experiment :: experiment_config where
  "session_experiment = (sample_experiment ''e1'' ''s1'' ''L'' 5000 9999 False)\<lparr>ec_type := ''SESSION_LEVEL'',
     ec_session_config := Some \<lparr>ss_session_id_attribute = ''sid'', ss_allow_cross_session_variation = False\<rparr>\<rparr>"

definition meta_experiment :: experiment_config where
  "meta_experiment = (sample_experiment ''e1'' ''s1'' ''L'' 5000 9999 False)\<lparr>ec_type := ''META''\<rparr>"

lemma service_of_simps [simp]:
  "svc_config (service_of e) = from_experiments_and_layers [e] [\<lparr>lc_layer_id = ''L'', lc_total_buckets = 10000\<rparr>]"
  "svc_bandit_client (service_of e) = None" "svc_rng (service_of e) = svc_rng sample_service"
  "cfg_experiments_by_id (from_experiments_and_layers [e] ls) = [ec_experiment_id e \<mapsto> e]"
  "cfg_layers_by_id (from_experiments_and_layers es [l]) = [lc_layer_id l \<mapsto> l]"
  by (simp_all add: service_of_def sample_service_def from_experiments_and_layers_def collect_map_def)

lemma sample_config_experiments:
  "cfg_experiments_by_id sample_config =
     [''e1'' \<mapsto> sample_experiment ''e1'' ''s1'' ''L'' 5000 9999 False, ''e2'' \<mapsto> sample_experiment ''e2'' ''s2'' ''L'' 0 4999 False,
      ''h'' \<mapsto> sample_experiment ''h'' ''s3'' ''H'' 0 9999 True, ''e3'' \<mapsto> sample_experiment ''e3'' ''s4'' ''H'' 0 9999 False]"
  "cfg_layers_by_id sample_config =
     [''L'' \<mapsto> \<lparr>lc_layer_id = ''L'', lc_total_buckets = 10000\<rparr>, ''H'' \<mapsto> \<lparr>lc_layer_id = ''H'', lc_total_buckets = 10000\<rparr>]"
  by (auto simp: sample_config_def from_experiments_and_layers_def collect_map_def sample_experiment_def fun_eq_iff)

lemma sample_fields [simp]:
  "ec_variants (sample_experiment x salt layer lo hi h) = sample_variants"
  "ec_allocation (sample_experiment x salt layer lo hi h) = \<lparr>ac_start_bucket = lo, ac_end_bucket = hi\<rparr>"
  "ec_layer_id (sample_experiment x salt layer lo hi h) = layer"
  "ec_is_cumulative_holdout (sample_experiment x salt layer lo hi h) = h"
  "length sample_variants = 2" "sample_variants \<noteq> []"
  by (simp_all add: sample_experiment_def sample_variants_def)

lemma sample_servable: "servable sample_config"
  by (auto simp: servable_def sample_config_experiments sample_experiment_def sample_variants_def split: if_splits)

lemma sample_rng_ok: "rng_ok (svc_rng sample_service)"
  by (auto simp: rng_ok_def gen_range_ok_def sample_service_def intro: less_imp_le_nat simp flip: less_Suc_eq_le)

lemma sample_buckets:
  "bucket ''u6'' ''s1'' 10000 = Ok 8697" "bucket ''u6'' ''s2'' 10000 = Ok 3071"
proof -
  have "murmurhash3_x86_32 (as_bytes (bucket_key ''u6'' ''s1'')) 0 mod 10000 = 8697" by code_simp
  then show "bucket ''u6'' ''s1'' 10000 = Ok 8697" by (simp add: bucket_def)
  have "murmurhash3_x86_32 (as_bytes (bucket_key ''u6'' ''s2'')) 0 mod 10000 = 3071" by code_simp
  then show "bucket ''u6'' ''s2'' 10000 = Ok 3071" by (simp add: bucket_def)
qed

lemma f64_round_numeral: "f64_round 2500 = Fin 2500" "f64_round 5000 = Fin 5000"
  and f64_round_zero: "f64_round 0 = Fin 0"
  using f64_round_of_int [of 2500] f64_round_of_int [of 5000] f64_round_of_int [of 0] by simp_all

lemma sample_assign:
  "assign sample_service ''e1'' ''u6'' [] Map.empty =
     Ok \<lparr>r_experiment_id = ''e1'', r_variant_id = ''treatment'', r_payload_json = ''{1}'',
         r_assignment_probability = Fin (1 / 2), r_is_active = True, r_block_index = 0, r_is_control = False\<rparr>"
  "assign sample_service ''e2'' ''u6'' [] Map.empty =
     Ok \<lparr>r_experiment_id = ''e2'', r_variant_id = ''treatment'', r_payload_json = ''{1}'',
         r_assignment_probability = Fin (1 / 2), r_is_active = True, r_block_index = 0, r_is_control = False\<rparr>"
  by (simp_all add: assign_def sample_service_def sample_config_experiments sample_experiment_def targeted_def hash_input_of_def
      sample_buckets is_in_allocation_def select_variant_def sample_variants_def Let_def f64_of_u32_exact f64_round_numeral)

section \<open>Properties\<close>


text \<open>
  C4: With at least one variant per experiment and at least one bucket per layer, assignment always answers: it returns a response or a status and never panics, whatever the bandit service does.
\<close>

theorem assign_answers:
  assumes "servable (svc_config self)"
  shows "(\<exists>r. assign self x u s attrs = Ok r) \<or> (\<exists>st. assign self x u s attrs = Err st)"
  using assign_no_panic [OF assms, of x u s attrs] by (cases "assign self x u s attrs") auto

theorem assign_answers_witness:
  "(\<exists>r. assign sample_service ''e1'' ''u6'' [] Map.empty = Ok r) \<or> (\<exists>st. assign sample_service ''e1'' ''u6'' [] Map.empty = Err st)"
  by (rule assign_answers) (simp add: sample_service_def sample_servable)

text \<open>
  C1: Whoever is given a variant passed every gate: the experiment exists and is RUNNING, its targeting rule accepts the attributes, its layer is known, and unless the type is a bandit or switchback type the hashed entity's bucket lies inside the allocation.
\<close>

theorem assigned_only_through_gates:
  assumes "assign self x u s attrs = Ok r" "r_variant_id r \<noteq> []"
  shows "r_experiment_id r = x \<and> r_is_active r \<and>
    (\<exists>e layer. cfg_experiments_by_id (svc_config self) x = Some e \<and> ec_state e = ''RUNNING'' \<and> targeted e attrs \<and>
       cfg_layers_by_id (svc_config self) (ec_layer_id e) = Some layer \<and> ec_type e \<noteq> ''SLATE_BANDIT'' \<and>
       (ec_type e \<notin> {''MAB'', ''CONTEXTUAL_BANDIT'', ''SWITCHBACK''} \<longrightarrow>
          (\<exists>entity b. entity \<in> {u, s} \<and> (bucket entity (ec_hash_salt e) (lc_total_buckets layer) :: (status, u32) outcome) = Ok b \<and>
             ac_start_bucket (ec_allocation e) \<le> b \<and> b \<le> ac_end_bucket (ec_allocation e))))"
  using assms(1)
proof (cases rule: assign_cases)
  case unassigned
  with assms(2) show ?thesis by simp
next
  case (bandit e layer)
  then show ?thesis using assign_bandit_response [OF bandit(6)] by auto
next
  case (switchback e layer)
  then show ?thesis using assign_switchback_response [OF switchback(6)] by auto
next
  case (hashed e layer h b v)
  have "r_experiment_id r = x \<and> r_is_active r"
    using hashed(11,12) assign_meta_response [of self e u x v attrs r] by (cases "ec_type e = ''META''") auto
  moreover have "h \<in> {u, s}" using hash_input_of_Ok [OF hashed(6)] by simp
  ultimately show ?thesis using hashed(1-5,7-9) by blast
qed

theorem assigned_only_through_gates_witness:
  "r_is_active \<lparr>r_experiment_id = ''e1'', r_variant_id = ''treatment'', r_payload_json = ''{1}'',
         r_assignment_probability = Fin (1 / 2), r_is_active = True, r_block_index = 0, r_is_control = False\<rparr> \<and>
   cfg_experiments_by_id sample_config ''e1'' \<noteq> None"
  using assigned_only_through_gates [OF sample_assign(1)] by (auto simp: sample_service_def)

text \<open>
  C2: For an experiment that is bucketed by user (any type but bandit, switchback, meta and session-level) the answer is sticky: under the same configuration it does not depend on the session, the clock, the bandit service or the random generator, nor on any attribute beyond whether the targeting rule accepts.
\<close>

theorem user_bucketed_assignment_sticky:
  assumes "svc_config self = svc_config self'" "cfg_experiments_by_id (svc_config self) x = Some e"
    and "ec_type e \<notin> {''MAB'', ''CONTEXTUAL_BANDIT'', ''SWITCHBACK'', ''META'', ''SESSION_LEVEL''}"
    and "targeted e attrs = targeted e attrs'"
  shows "assign self x u s attrs = assign self' x u s' attrs'"
  using assms by (simp add: assign_def Let_def hash_input_of_def cong: if_cong)

theorem user_bucketed_assignment_sticky_witness:
  "assign sample_service ''e1'' ''u6'' ''one'' Map.empty =
   assign (sample_service\<lparr>svc_now_secs := 7\<rparr>) ''e1'' ''u6'' ''two'' [''country'' \<mapsto> ''US'']"
  by (rule user_bucketed_assignment_sticky [where e = "sample_experiment ''e1'' ''s1'' ''L'' 5000 9999 False"])
    (simp_all add: sample_service_def sample_config_experiments sample_experiment_def targeted_def)

text \<open>
  A session-level experiment that forbids cross-session variation gives a user the same answer in every (non-empty) session.
\<close>

theorem locked_session_assignment_sticky:
  assumes "cfg_experiments_by_id (svc_config self) x = Some e" "ec_type e = ''SESSION_LEVEL''"
    and "ec_session_config e = Some sc" "\<not> ss_allow_cross_session_variation sc" "s \<noteq> []" "s' \<noteq> []"
  shows "assign self x u s attrs = assign self x u s' attrs"
  using assms by (simp add: assign_def Let_def hash_input_of_def cong: if_cong)

theorem locked_session_assignment_sticky_witness:
  "assign (service_of session_experiment) ''e1'' ''u6'' ''one'' Map.empty =
   assign (service_of session_experiment) ''e1'' ''u6'' ''two'' Map.empty"
  by (rule locked_session_assignment_sticky [where e = session_experiment
      and sc = "\<lparr>ss_session_id_attribute = ''sid'', ss_allow_cross_session_variation = False\<rparr>"])
    (simp_all add: session_experiment_def sample_experiment_def)

text \<open>
  The buckets of an allocation are split among the variants in consecutive intervals in configuration order, whatever the rounding of the traffic fractions: there is an index function, monotone on the allocation, that gives the variant of every bucket.
\<close>

theorem variants_get_consecutive_buckets:
  assumes "ec_variants e \<noteq> []"
  shows "\<exists>idx. (\<forall>b. select_variant e b = Ok (ec_variants e ! idx b) \<and> idx b < length (ec_variants e)) \<and>
    (\<forall>b b'. ac_start_bucket (ec_allocation e) \<le> b \<and> b \<le> b' \<longrightarrow> idx b \<le> idx b')"
  using select_variant_index [OF assms] variant_index_mono by (intro exI [of _ "variant_index e"]) blast

theorem variants_get_consecutive_buckets_witness:
  "\<exists>idx. \<forall>b. select_variant (sample_experiment ''e1'' ''s1'' ''L'' 5000 9999 False) b = Ok (sample_variants ! idx b) \<and> idx b < 2"
  using variants_get_consecutive_buckets [of "sample_experiment ''e1'' ''s1'' ''L'' 5000 9999 False"] by auto

text \<open>
  C3: Which buckets a variant receives, exactly. When the traffic fractions times the size of the allocation and their sums
  are exact in double precision and the variants differ, variant \<open>i\<close> is selected for a bucket if and only if
  the bucket, counted from the start of the allocation, is between the exact cumulative boundaries \<open>i\<close> and
  \<open>i + 1\<close>, or it is the last variant and the bucket is past the last boundary, as happens when the fractions sum to less than one.
\<close>

theorem variant_shares_exact:
  assumes "exact_arithmetic (of_nat n) (ec_variants e)"
    and "n = unat (ac_end_bucket (ec_allocation e) - ac_start_bucket (ec_allocation e) + 1)"
    and "i < length (ec_variants e)" "distinct (ec_variants e)"
    and "r = of_nat (unat (b - ac_start_bucket (ec_allocation e)))"
  shows "select_variant e b = Ok (ec_variants e ! i) \<longleftrightarrow>
    exact_boundary (of_nat n) (ec_variants e) i \<le> r \<and> r < exact_boundary (of_nat n) (ec_variants e) (Suc i) \<or>
    i = length (ec_variants e) - 1 \<and> exact_boundary (of_nat n) (ec_variants e) (length (ec_variants e)) \<le> r"
proof -
  let ?vs = "ec_variants e" and ?f = "exact_boundary (of_nat n) (ec_variants e)"
  have ne: "?vs \<noteq> []" using assms(3) by auto
  have mono: "?f j \<le> ?f k" if "j \<le> k" "k \<le> length ?vs" for j k
    using assms(1) that by (intro exact_boundary_mono) (auto simp: exact_arithmetic_def)
  show ?thesis
  proof (cases "?f (length ?vs) \<le> r")
    case True
    have "select_variant e b = Ok (last ?vs)" by (rule select_variant_past_aux [OF assms(1) ne assms(2)]) (use True assms(5) in blast)
    then have "select_variant e b = Ok (?vs ! i) \<longleftrightarrow> i = length ?vs - 1"
      using assms(3,4) ne by (auto simp: last_conv_nth nth_eq_iff_index_eq)
    moreover have "\<not> r < ?f (Suc i)" using mono [of "Suc i" "length ?vs"] assms(3) True by simp
    ultimately show ?thesis using True by simp
  next
    case False
    have "?f 0 \<le> r" by (simp add: exact_boundary_def assms(5) del: of_nat_unat)
    then obtain j where j: "j < length ?vs" "?f j \<le> r" "r < ?f (Suc j)" using interval_exists [of ?f r "length ?vs"] False by auto
    have "select_variant e b = Ok (?vs ! j)" by (rule select_variant_exact_aux [OF assms(1,2) j(1)]) (use j assms(5) in blast)+
    then have eq: "select_variant e b = Ok (?vs ! i) \<longleftrightarrow> i = j" using assms(3,4) j(1) by (auto simp: nth_eq_iff_index_eq)
    have "i = j" if "?f i \<le> r" "r < ?f (Suc i)"
    proof (rule ccontr)
      assume "i \<noteq> j"
      then consider "Suc i \<le> j" | "Suc j \<le> i" by linarith
      then show False using mono [of "Suc i" j] mono [of "Suc j" i] j that assms(3) by cases auto
    qed
    then show ?thesis using eq j(2,3) False by blast
  qed
qed

lemma sample_boundaries:
  "exact_boundary n sample_variants 0 = 0" "exact_boundary n sample_variants (Suc 0) = n / 2"
  "exact_boundary n sample_variants 2 = n"
  by (simp_all add: exact_boundary_def sample_variants_def fraction_def numeral_2_eq_2)

lemma sample_exact: "exact_arithmetic 5000 sample_variants"
proof -
  have "f64_round (exact_boundary 5000 sample_variants i) = Fin (exact_boundary 5000 sample_variants i)" if "i \<le> 2" for i
  proof -
    from that consider "i = 0" | "i = Suc 0" | "i = 2" by linarith
    then show ?thesis by cases (simp_all add: sample_boundaries f64_round_numeral f64_round_zero)
  qed
  moreover have "\<forall>v \<in> set sample_variants. vc_traffic_fraction v = Fin (fraction v) \<and> 0 \<le> fraction v \<and>
      f64_round (fraction v * 5000) = Fin (fraction v * 5000)"
    by (simp add: sample_variants_def fraction_def f64_round_numeral)
  ultimately show ?thesis by (simp add: exact_arithmetic_def)
qed

theorem variant_shares_exact_witness:
  "select_variant (sample_experiment ''e1'' ''s1'' ''L'' 5000 9999 False) 7500 = Ok (sample_variants ! Suc 0)"
proof -
  have n: "unat (9999 - 5000 + 1 :: u32) = 5000" and b: "unat (7500 - 5000 :: u32) = 2500" by simp_all
  have q: "(of_nat 5000 :: rat) = 5000" "(of_nat 2500 :: rat) = 2500" "Suc (Suc 0) = 2" by simp_all
  have "distinct sample_variants" "length sample_variants = 2" by (simp_all add: sample_variants_def)
  then show ?thesis
    using variant_shares_exact [of 5000 "sample_experiment ''e1'' ''s1'' ''L'' 5000 9999 False" "Suc 0" 2500 7500,
        unfolded sample_fields allocation_config.simps b n q sample_boundaries] sample_exact
    by simp
qed

text \<open>
  C5: On one snapshot of the index, batch assignment is the two-phase rule: first every holdout that can be evaluated, in order, then every regular experiment that can be evaluated and whose layer was not claimed, where a holdout claims its layer by assigning a variant or by failing. (The code loads the snapshot again for each
  experiment; the claim is about a batch during which M5 announces nothing.)
\<close>

theorem batch_respects_holdouts:
  assumes "servable (svc_config self)"
  shows "let es = cfg_experiments (svc_config self);
             asg = (\<lambda>e. assign self (ec_experiment_id e) u s attrs);
             holdouts = filter ec_is_cumulative_holdout es;
             regular = filter (\<lambda>e. \<not> ec_is_cumulative_holdout e) es;
             claimed = ec_layer_id ` {h \<in> set holdouts. claims_layer asg h}
         in assign_batch self u s attrs =
              Ok (ok_responses asg holdouts @ ok_responses asg (filter (\<lambda>e. ec_layer_id e \<notin> claimed) regular))"
proof -
  have np: "assign self (ec_experiment_id e) u s attrs \<noteq> Panic" for e by (rule assign_no_panic [OF assms])
  show ?thesis
    by (simp only: assign_batch_def Let_def partition_filter_conv prod.case batch_holdouts_eq [OF np] obind.simps
        batch_regular_eq [OF np] comp_def Un_empty_left append_Nil)
qed

theorem batch_respects_holdouts_witness:
  "\<exists>rs. assign_batch sample_service ''u6'' [] Map.empty = Ok rs"
  using batch_respects_holdouts [of sample_service "''u6''" "[]" Map.empty]
  by (simp add: Let_def sample_service_def sample_servable)

text \<open>
  Bandit assignment is available whatever M4b does: with at least one configured arm it always answers; without an answer from M4b the arm is one of the configured arms, with that arm's payload and probability one over the number of arms.
\<close>

theorem bandit_fallback_available:
  assumes "rng_ok (svc_rng self)" "ec_bandit_config e = Some bc" "bc_arms bc \<noteq> []"
  shows "\<exists>r. assign_bandit self e u x attrs = Ok r \<and>
    (m4b_arm self x u (extract_context_features bc attrs) = None \<longrightarrow>
       (\<exists>a \<in> set (bc_arms bc). r_variant_id r = arm_id a \<and> r_payload_json r = arm_payload_json a) \<and>
       r_assignment_probability r = f64_div (Fin 1) (f64_of_nat (length (bc_arms bc))))"
proof (cases "m4b_arm self x u (extract_context_features bc attrs)")
  case None
  let ?rng = "seed_from_u64 (svc_rng self) (seed_of (u @ [CHR 0x00] @ x))"
  have gr: "gen_range_ok (rng_gen_range (svc_rng self))" using assms(1) by (simp add: rng_ok_def)
  obtain sel rng' where sel: "select_arm_uniform (rng_gen_range (svc_rng self)) bc ?rng = Some (sel, rng')"
    using select_arm_uniform_None [of "rng_gen_range (svc_rng self)" bc ?rng] assms(3) by fastforce
  show ?thesis
    using select_arm_uniform_Some(1,2) [OF gr sel] None sel by (simp add: assign_bandit_eq [OF assms(2)])
qed (simp add: assign_bandit_eq [OF assms(2)])

theorem bandit_fallback_available_witness:
  "\<exists>r. assign_bandit sample_service (sample_experiment ''e1'' ''s1'' ''L'' 0 1 False) ''u'' ''e1'' Map.empty = Ok r"
  using bandit_fallback_available [OF sample_rng_ok, of "sample_experiment ''e1'' ''s1'' ''L'' 0 1 False" _ "''u''" "''e1''" Map.empty]
  by (auto simp: sample_experiment_def)

text \<open>
  A meta-experiment reports the two-level probability: the traffic fraction of the bucketed variant times the probability with which M4b, or the uniform fallback, chose the arm inside it; and it reports the control flag of that variant.
\<close>

theorem meta_two_level_probability:
  assumes "assign self x u s attrs = Ok r" "r_variant_id r \<noteq> []"
    and "cfg_experiments_by_id (svc_config self) x = Some e" "ec_type e = ''META''" "rng_ok (svc_rng self)"
  shows "\<exists>bc v p. ec_bandit_config e = Some bc \<and> v \<in> set (ec_variants e) \<and>
    r_assignment_probability r = f64_mul (vc_traffic_fraction v) p \<and> r_is_control r = vc_is_control v \<and>
    (case m4b_arm self (x @ '':'' @ vc_variant_id v) u (extract_context_features bc attrs) of
       Some a \<Rightarrow> p = as_assignment_probability a \<and> r_variant_id r = as_arm_id a
     | None \<Rightarrow> p = f64_div (Fin 1) (f64_of_nat (length (bc_arms bc))) \<and> r_variant_id r \<in> arm_id ` set (bc_arms bc))"
  using assms(1)
proof (cases rule: assign_cases)
  case (hashed e' layer h b v)
  then have e': "e' = e" using assms(3) by simp
  with hashed assms(4) have run: "assign_meta self e u x v attrs = Ok r" by simp
  then obtain bc where bc: "ec_bandit_config e = Some bc" by (auto simp: assign_meta_def Let_def outcome_simps)
  have ne: "ec_variants e \<noteq> []" using hashed(10) by (auto simp: e' select_variant_def)
  have "v = ec_variants e ! variant_index e b" using hashed(10) by (simp add: e' select_variant_index(1) [OF ne])
  with select_variant_index(2) [OF ne, of b] have v: "v \<in> set (ec_variants e)" by simp
  have gr: "gen_range_ok (rng_gen_range (svc_rng self))" using assms(5) by (simp add: rng_ok_def)
  show ?thesis
  proof (cases "m4b_arm self (x @ '':'' @ vc_variant_id v) u (extract_context_features bc attrs)")
    case None
    then obtain sel rng rng' where "select_arm_uniform (rng_gen_range (svc_rng self)) bc rng = Some (sel, rng')"
        "r_assignment_probability r = f64_mul (vc_traffic_fraction v) (sel_assignment_probability sel)"
        "r_is_control r = vc_is_control v" "r_variant_id r = sel_arm_id sel"
      using run by (auto simp: assign_meta_eq [OF bc] split: option.splits)
    with select_arm_uniform_Some(1,2) [OF gr this(1)] None bc v show ?thesis by auto
  next
    case (Some a)
    then show ?thesis using run bc v by (auto simp: assign_meta_eq [OF bc])
  qed
qed (use assms(2-4) in auto)

lemma meta_assign:
  "\<exists>r. assign (service_of meta_experiment) ''e1'' ''u6'' [] Map.empty = Ok r \<and> r_variant_id r = ''a1''"
  by (simp add: assign_def assign_meta_def meta_experiment_def sample_experiment_def targeted_def hash_input_of_def
      sample_buckets is_in_allocation_def select_variant_def sample_variants_def Let_def f64_of_u32_exact f64_round_numeral
      select_arm_uniform_def sample_service_def)

theorem meta_two_level_probability_witness:
  "\<exists>r. assign (service_of meta_experiment) ''e1'' ''u6'' [] Map.empty = Ok r \<and>
     (\<exists>v \<in> set sample_variants. \<exists>p. r_assignment_probability r = f64_mul (vc_traffic_fraction v) p)"
proof -
  obtain r where r: "assign (service_of meta_experiment) ''e1'' ''u6'' [] Map.empty = Ok r" "r_variant_id r \<noteq> []"
    using meta_assign by auto
  have "ec_variants meta_experiment = sample_variants" "ec_type meta_experiment = ''META''" "ec_experiment_id meta_experiment = ''e1''"
    by (simp_all add: meta_experiment_def sample_experiment_def)
  then show ?thesis
    using meta_two_level_probability [OF r, of meta_experiment] r(1) sample_rng_ok by auto
qed

text \<open>
  Every interleaved list the service returns, with any of the three methods, comes from a RUNNING experiment, holds at most the configured number of items without repetition, and credits each item to a configured algorithm whose request list contains it.
\<close>

theorem interleave_result_valid:
  assumes "rng_ok (svc_rng self)" "interleave self x u m = Ok r"
  shows "\<exists>e il. cfg_experiments_by_id (svc_config self) x = Some e \<and> ec_state e = ''RUNNING'' \<and>
    ec_interleaving_config e = Some il \<and> distinct (ilr_merged_list r) \<and> length (ilr_merged_list r) \<le> il_max_list_size il \<and>
    (\<forall>item \<in> set (ilr_merged_list r). \<exists>algo l. ilr_provenance r item = Some algo \<and> algo \<in> set (il_algorithm_ids il) \<and>
       m algo = Some l \<and> item \<in> set l)"
  using interleave_valid [OF assms] unfolding valid_interleaving_def .

theorem interleave_result_valid_witness:
  "\<exists>r. interleave sample_service ''e1'' ''u6'' [''A'' \<mapsto> [''x'', ''y''], ''B'' \<mapsto> [''y'', ''z'']] = Ok r \<and>
     distinct (ilr_merged_list r) \<and> length (ilr_merged_list r) \<le> 2"
proof -
  have e: "cfg_experiments_by_id (svc_config sample_service) ''e1'' = Some (sample_experiment ''e1'' ''s1'' ''L'' 5000 9999 False)"
    by (simp add: sample_service_def sample_config_experiments)
  have "\<exists>r. interleave sample_service ''e1'' ''u6'' [''A'' \<mapsto> [''x'', ''y''], ''B'' \<mapsto> [''y'', ''z'']] = Ok r"
    unfolding interleave_def e by (simp add: sample_experiment_def extract_pairwise_def Let_def)
  then obtain r where r: "interleave sample_service ''e1'' ''u6'' [''A'' \<mapsto> [''x'', ''y''], ''B'' \<mapsto> [''y'', ''z'']] = Ok r" ..
  show ?thesis
    using interleave_result_valid [OF sample_rng_ok r] r e by (auto simp: sample_experiment_def)
qed

text \<open>
  Without an answer from M4b, a slate request for \<open>n\<close> slots over at least \<open>n\<close> candidates returns \<open>n\<close> of the candidates, none used more often than it was offered, with one probability entry per slot in order.
\<close>

theorem slate_fallback_is_selection:
  assumes "rng_ok (svc_rng self)" "cfg_experiments_by_id (svc_config self) x = Some e" "ec_state e = ''RUNNING''"
    and "ec_bandit_config e = Some bc" "bc_slate_config bc = Some sc"
    and "0 < sl_num_slots sc" "sl_num_slots sc \<le> int (length ids)" "sl_num_slots sc < 2 ^ 31"
    and "\<forall>client. svc_bandit_client self = Some client \<longrightarrow> (\<forall>req. \<forall>reply. m4b_select_slate client req \<noteq> Reply reply)"
  shows "\<exists>r. assign_slate self x u ids attrs = Ok r \<and> int (length (sl_slate_item_ids r)) = sl_num_slots sc \<and>
    mset (sl_slate_item_ids r) \<subseteq># mset ids \<and> map sp_item_id (sl_slot_probabilities r) = sl_slate_item_ids r \<and>
    sl_is_uniform_random r"
proof -
  define n where "n = nat (sl_num_slots sc)"
  have us: "usize_of_i32 (sl_num_slots sc) = n" using assms(6,8) by (simp add: usize_of_i32_def n_def)
  have n: "0 < n" "n \<le> length ids" "int n = sl_num_slots sc" using assms(6,7) by (auto simp: n_def)
  have "\<exists>err. select_slate c x u ids k f = Err err" if "svc_bandit_client self = Some c" for c k f
  proof -
    let ?req = "\<lparr>ssr_experiment_id = x, ssr_user_id = u, ssr_candidate_item_ids = ids, ssr_n_slots = k, ssr_context_features = f\<rparr>"
    from assms(9) that have "\<forall>reply. m4b_select_slate c ?req \<noteq> Reply reply" by blast
    then show ?thesis by (cases "m4b_select_slate c ?req") (auto simp: select_slate_def)
  qed
  note fails = this
  have "assign_slate self x u ids attrs = Ok (slate_fallback self x u ids n)"
  proof (cases "svc_bandit_client self")
    case (Some c)
    from fails [OF this, of "i32_of_usize n" "extract_context_features bc attrs"] obtain err
      where "select_slate c x u ids (i32_of_usize n) (extract_context_features bc attrs) = Err err" ..
    with Some show ?thesis using assms(2-5) n us by (simp add: assign_slate_def Let_def)
  qed (use assms(2-5) n us in \<open>simp add: assign_slate_def Let_def\<close>)
  with slate_fallback_ok [OF assms(1) n(2,1), of x u] n(3) show ?thesis
    by (auto simp: slate_fallback_def Let_def)
qed

theorem slate_fallback_is_selection_witness:
  "\<exists>r. assign_slate sample_service ''e1'' ''u6'' [''x'', ''y'', ''z''] Map.empty = Ok r \<and> int (length (sl_slate_item_ids r)) = 2"
proof -
  have e: "cfg_experiments_by_id (svc_config sample_service) ''e1'' = Some (sample_experiment ''e1'' ''s1'' ''L'' 5000 9999 False)"
    by (simp add: sample_service_def sample_config_experiments)
  have "svc_bandit_client sample_service = None" by (simp add: sample_service_def)
  then show ?thesis
    using slate_fallback_is_selection [OF sample_rng_ok e, of _ "\<lparr>sl_num_slots = 2, sl_candidate_pool_size = 3\<rparr>"
        "[''x'', ''y'', ''z'']" "''u6''" Map.empty]
    by (auto simp: sample_experiment_def)
qed

text \<open>
  Disjoint bucket ranges inside a layer do not make its experiments mutually exclusive: the bucket is computed with a salt per experiment, and a user of the sample configuration receives a variant of both running experiments of one layer although their allocations are disjoint.
\<close>

theorem layer_exclusion_not_enforced:
  "\<exists>e1 e2 r1 r2. cfg_experiments_by_id sample_config ''e1'' = Some e1 \<and> cfg_experiments_by_id sample_config ''e2'' = Some e2 \<and>
     ec_layer_id e1 = ec_layer_id e2 \<and> ac_end_bucket (ec_allocation e2) < ac_start_bucket (ec_allocation e1) \<and>
     assign sample_service ''e1'' ''u6'' [] Map.empty = Ok r1 \<and> assign sample_service ''e2'' ''u6'' [] Map.empty = Ok r2 \<and>
     r_variant_id r1 \<noteq> [] \<and> r_variant_id r2 \<noteq> []"
  by (simp add: sample_config_experiments sample_assign)

end
