(* ===== verification/Json.thy ===== *)
theory Json
  imports Float64
begin

text \<open>
  JSON values as the store handles them (\<^verbatim>\<open>serde_json::Value\<close> and PostgreSQL \<^verbatim>\<open>JSONB\<close>): the accessors the
  code uses and the conversion of a double, which is \<^verbatim>\<open>null\<close> when it is not finite. Objects are
  association lists; the code builds them with distinct keys.
\<close>

datatype json =
    JNull
  | JBool bool
  | JInt int
  | JFloat rat
  | JString string
  | JArray "json list"
  | JObject "(string \<times> json) list"

fun json_get :: "string \<Rightarrow> json \<Rightarrow> json option" where
  "json_get k (JObject kvs) = map_of kvs k"
| "json_get k _ = None"

fun as_str_json :: "json \<Rightarrow> string option" where
  "as_str_json (JString s) = Some s"
| "as_str_json _ = None"

fun as_array_json :: "json \<Rightarrow> json list option" where
  "as_array_json (JArray vs) = Some vs"
| "as_array_json _ = None"

text \<open>\<^verbatim>\<open>as_i64\<close>: only integers that fit.\<close>

fun as_i64_json :: "json \<Rightarrow> int option" where
  "as_i64_json (JInt n) = (if - (2 ^ 63) \<le> n \<and> n < 2 ^ 63 then Some n else None)"
| "as_i64_json _ = None"

fun as_f64_json :: "json \<Rightarrow> f64 option" where
  "as_f64_json (JInt n) = Some (f64_round (of_int n))"
| "as_f64_json (JFloat q) = Some (Fin q)"
| "as_f64_json _ = None"

text \<open>\<^verbatim>\<open>json!(x)\<close> for a double.\<close>

fun json_of_f64 :: "f64 \<Rightarrow> json" where
  "json_of_f64 (Fin q) = JFloat q"
| "json_of_f64 _ = JNull"

text \<open>\<^verbatim>\<open>n as i32\<close> for an \<^verbatim>\<open>i64\<close>: the low 32 bits.\<close>

definition i64_as_i32 :: "int \<Rightarrow> int" where
  "i64_as_i32 n = (n + 2 ^ 31) mod 2 ^ 32 - 2 ^ 31"

definition is_i32 :: "int \<Rightarrow> bool" where
  "is_i32 n \<longleftrightarrow> - (2 ^ 31) \<le> n \<and> n < 2 ^ 31"

lemma i64_as_i32_id: "is_i32 n \<Longrightarrow> i64_as_i32 n = n"
  by (simp add: is_i32_def i64_as_i32_def)

lemma as_i64_i32: "is_i32 n \<Longrightarrow> as_i64_json (JInt n) = Some n"
  by (simp add: is_i32_def)

text \<open>A finite double survives the trip through JSON, any other becomes \<^verbatim>\<open>null\<close>.\<close>

lemma json_f64_roundtrip: "as_f64_json (json_of_f64 x) = (if x \<in> range Fin then Some x else None)"
  by (cases x) auto

end
