(* ===== verification/Management_Store.thy ===== *)
theory Management_Store
  imports Json
begin

text \<open>
  The PostgreSQL store behind the management service M5: the rows of \<^verbatim>\<open>store.rs\<close> and
  \<^verbatim>\<open>bucket_reuse.rs\<close>, and the store operations the lifecycle handlers call. The database is a record
  of tables. Each statement is one atomic step of the database; the field \<open>db_faults\<close> schedules which
  of the next statements fail with a database error (a failing statement changes nothing), so that the
  partial effects of a handler are part of the model. Identifiers are UUIDs in their text form; generated
  identifiers and salts come from a supply, numbered by \<open>db_next\<close>.
\<close>

section \<open>Tables\<close>

record experiment_row =
  er_experiment_id :: uuid
  er_name :: string
  er_description :: "string option"
  er_owner_email :: string
  er_experiment_type :: string
  er_state :: string
  er_layer_id :: uuid
  er_primary_metric_id :: string
  er_secondary_metric_ids :: "string list"
  er_guardrail_action :: string
  er_hash_salt :: string
  er_targeting_rule_id :: "uuid option"
  er_is_cumulative_holdout :: bool
  er_type_config :: json
  er_sequential_method :: "string option"
  er_planned_looks :: "int option"
  er_overall_alpha :: "f64 option"
  er_surrogate_model_id :: "uuid option"
  er_created_at :: int
  er_started_at :: "int option"
  er_concluded_at :: "int option"
  er_archived_at :: "int option"
  er_paused_at :: "int option"
  er_resumed_at :: "int option"
  er_pause_reason :: "string option"
  er_updated_at :: int

record variant_row =
  vr_variant_id :: uuid
  vr_experiment_id :: uuid
  vr_name :: string
  vr_traffic_fraction :: f64
  vr_is_control :: bool
  vr_payload_json :: string
  vr_ordinal :: int

record layer_row =
  lr_total_buckets :: int
  lr_bucket_reuse_cooldown_seconds :: int

record allocation =
  al_allocation_id :: nat
  al_layer_id :: uuid
  al_experiment_id :: uuid
  al_start_bucket :: int
  al_end_bucket :: int
  al_activated_at :: "int option"
  al_released_at :: "int option"
  al_reusable_after :: "int option"

record audit_entry =
  au_experiment_id :: uuid
  au_action :: string
  au_actor_email :: string
  au_previous_state :: "string option"
  au_new_state :: "string option"
  au_details :: string

record metric_row =
  mr_metric_id :: string
  mr_name :: string
  mr_description :: "string option"
  mr_type :: string
  mr_source_event_type :: "string option"
  mr_numerator_event_type :: "string option"
  mr_denominator_event_type :: "string option"
  mr_percentile :: "f64 option"
  mr_custom_sql :: "string option"
  mr_lower_is_better :: bool
  mr_is_qoe_metric :: bool
  mr_cuped_covariate_metric_id :: "string option"
  mr_minimum_detectable_effect :: "f64 option"
  mr_stakeholder :: string
  mr_aggregation_level :: string
  mr_type_config :: "json option"
  mr_metricql_expression :: "string option"
  mr_created_at :: int

record metric_migration_row =
  mg_migration_id :: nat
  mg_old_metric_id :: string
  mg_new_metric_id :: string
  mg_shadow_run_result_id :: uuid
  mg_operator :: string
  mg_applied_at :: int

record database =
  db_experiments :: "(uuid, experiment_row) hash_map"
  db_variants :: "variant_row list"
  db_layers :: "(uuid, layer_row) hash_map"
  db_allocations :: "allocation list"
  db_audit :: "audit_entry list"
  db_metrics :: "(string, metric_row) hash_map"
  db_migrations :: "metric_migration_row list"
  db_targeting_rules :: "uuid list"
  db_surrogate_models :: "uuid list"
  db_ids :: "nat \<Rightarrow> uuid"
  db_salts :: "nat \<Rightarrow> string"
  db_next :: nat
  db_now :: int
  db_faults :: "string option list"

section \<open>Statements\<close>

datatype store_error = StoreNotFound string | StoreAlreadyExists string | StoreDb string

type_synonym ('e, 'a) db_op = "(database, 'e, 'a) state_op"

text \<open>One statement: it fails if the schedule says so, otherwise it runs.\<close>

definition query :: "(database \<Rightarrow> 'a \<times> database) \<Rightarrow> (store_error, 'a) db_op" where
  "query f db =
     (let db' = db\<lparr>db_faults := tl (db_faults db)\<rparr>
      in case db_faults db of
           Some msg # _ \<Rightarrow> (Err (StoreDb msg), db')
         | _ \<Rightarrow> (let (x, db'') = f db' in (Ok x, db'')))"

text \<open>\<^verbatim>\<open>UPDATE experiments SET ... WHERE experiment_id = $1 AND ...\<close>; the result is \<^verbatim>\<open>rows_affected()\<close>.\<close>

definition update_experiments ::
  "uuid \<Rightarrow> (experiment_row \<Rightarrow> bool) \<Rightarrow> (int \<Rightarrow> experiment_row \<Rightarrow> experiment_row) \<Rightarrow> database \<Rightarrow> nat \<times> database" where
  "update_experiments x guard upd db =
     (case db_experiments db x of
        Some r \<Rightarrow> if guard r then (1, db\<lparr>db_experiments := (db_experiments db)(x \<mapsto> upd (db_now db) r)\<rparr>) else (0, db)
      | None \<Rightarrow> (0, db))"

section \<open>Reading\<close>

definition get_experiment :: "uuid \<Rightarrow> (store_error, experiment_row) db_op" where
  "get_experiment x =
     dbind (query (\<lambda>db. (db_experiments db x, db))) (\<lambda>row. dreturn (ok_or (StoreNotFound x) row))"

definition experiment_exists :: "uuid \<Rightarrow> (store_error, bool) db_op" where
  "experiment_exists x = query (\<lambda>db. (db_experiments db x \<noteq> None, db))"

definition get_variants :: "uuid \<Rightarrow> (store_error, variant_row list) db_op" where
  "get_variants x =
     query (\<lambda>db. (sort_key vr_ordinal (filter (\<lambda>v. vr_experiment_id v = x) (db_variants db)), db))"

text \<open>The table is finite; the rows come ordered by their identifier.\<close>

definition list_active_experiments :: "(store_error, experiment_row list) db_op" where
  "list_active_experiments =
     query (\<lambda>db. (filter (\<lambda>r. er_state r = ''RUNNING'' \<or> er_state r = ''PAUSED'')
                    (map (\<lambda>x. the (db_experiments db x)) (sorted_list_of_set (dom (db_experiments db)))), db))"

section \<open>Lifecycle transitions\<close>

definition transition_state_raw :: "uuid \<Rightarrow> string \<Rightarrow> string \<Rightarrow> (store_error, nat) db_op" where
  "transition_state_raw x from to =
     query (update_experiments x (\<lambda>r. er_state r = from) (\<lambda>now r. r\<lparr>er_state := to, er_updated_at := now\<rparr>))"

definition start_transition :: "uuid \<Rightarrow> (store_error, nat) db_op" where
  "start_transition x =
     query (update_experiments x (\<lambda>r. er_state r = ''DRAFT'')
       (\<lambda>now r. r\<lparr>er_state := ''STARTING'', er_started_at := Some now, er_updated_at := now\<rparr>))"

definition run_transition :: "uuid \<Rightarrow> (store_error, nat) db_op" where
  "run_transition x =
     query (update_experiments x (\<lambda>r. er_state r = ''STARTING'')
       (\<lambda>now r. r\<lparr>er_state := ''RUNNING'', er_updated_at := now\<rparr>))"

definition revert_to_draft :: "uuid \<Rightarrow> (store_error, nat) db_op" where
  "revert_to_draft x =
     query (update_experiments x (\<lambda>r. er_state r = ''STARTING'')
       (\<lambda>now r. r\<lparr>er_state := ''DRAFT'', er_started_at := None, er_updated_at := now\<rparr>))"

definition pause_transition :: "uuid \<Rightarrow> string \<Rightarrow> (store_error, nat) db_op" where
  "pause_transition x reason =
     query (update_experiments x (\<lambda>r. er_state r = ''RUNNING'')
       (\<lambda>now r. r\<lparr>er_state := ''PAUSED'', er_paused_at := Some now, er_pause_reason := Some reason, er_updated_at := now\<rparr>))"

definition resume_transition :: "uuid \<Rightarrow> (store_error, nat) db_op" where
  "resume_transition x =
     query (update_experiments x (\<lambda>r. er_state r = ''PAUSED'')
       (\<lambda>now r. r\<lparr>er_state := ''RUNNING'', er_resumed_at := Some now, er_pause_reason := None, er_updated_at := now\<rparr>))"

definition conclude_transition :: "uuid \<Rightarrow> (store_error, nat) db_op" where
  "conclude_transition x =
     query (update_experiments x (\<lambda>r. er_state r = ''RUNNING'' \<or> er_state r = ''PAUSED'')
       (\<lambda>now r. r\<lparr>er_state := ''CONCLUDING'', er_updated_at := now\<rparr>))"

definition mark_concluded :: "uuid \<Rightarrow> (store_error, nat) db_op" where
  "mark_concluded x =
     query (update_experiments x (\<lambda>r. er_state r = ''CONCLUDING'')
       (\<lambda>now r. r\<lparr>er_state := ''CONCLUDED'', er_concluded_at := Some now, er_updated_at := now\<rparr>))"

definition archive_transition :: "uuid \<Rightarrow> (store_error, nat) db_op" where
  "archive_transition x =
     query (update_experiments x (\<lambda>r. er_state r = ''CONCLUDED'')
       (\<lambda>now r. r\<lparr>er_state := ''ARCHIVED'', er_archived_at := Some now, er_updated_at := now\<rparr>))"

definition record_audit ::
  "uuid \<Rightarrow> string \<Rightarrow> string \<Rightarrow> string option \<Rightarrow> string option \<Rightarrow> string \<Rightarrow> (store_error, unit) db_op" where
  "record_audit x action actor prev new details =
     query (\<lambda>db. ((), db\<lparr>db_audit := db_audit db @
       [\<lparr>au_experiment_id = x, au_action = action, au_actor_email = actor, au_previous_state = prev,
         au_new_state = new, au_details = details\<rparr>]\<rparr>))"

lemmas transition_defs = transition_state_raw_def start_transition_def run_transition_def revert_to_draft_def
  pause_transition_def resume_transition_def conclude_transition_def mark_concluded_def archive_transition_def

section \<open>Facts\<close>

text \<open>A statement on a database whose schedule has no fault.\<close>

lemma query_no_fault [simp]: "db_faults db = [] \<Longrightarrow> query f db = (let (x, db') = f db in (Ok x, db'))"
  by (cases db) (simp add: query_def Let_def)

lemma query_cases:
  obtains (fault) msg where "query f db = (Err (StoreDb msg), db\<lparr>db_faults := tl (db_faults db)\<rparr>)"
  | (runs) "query f db = (Ok (fst (f (db\<lparr>db_faults := tl (db_faults db)\<rparr>))), snd (f (db\<lparr>db_faults := tl (db_faults db)\<rparr>)))"
  by (cases "db_faults db"; cases "hd (db_faults db)") (auto simp: query_def Let_def case_prod_beta)

lemma query_Ok: "query f db = (Ok x, db') \<Longrightarrow> f (db\<lparr>db_faults := tl (db_faults db)\<rparr>) = (x, db')"
  by (cases rule: query_cases [of f db]) auto

text \<open>Operations that only read: they consume the fault schedule and nothing else.\<close>

definition read_only :: "('e, 'a) db_op \<Rightarrow> bool" where
  "read_only m \<longleftrightarrow> (\<forall>db. snd (m db) = db\<lparr>db_faults := db_faults (snd (m db))\<rparr>)"

named_theorems read_only_intros \<open>operations that only read\<close>

lemma read_onlyI: "(\<And>db. \<exists>fs. snd (m db) = db\<lparr>db_faults := fs\<rparr>) \<Longrightarrow> read_only m"
  unfolding read_only_def
proof
  fix db
  assume "\<And>db. \<exists>fs. snd (m db) = db\<lparr>db_faults := fs\<rparr>"
  then obtain fs where "snd (m db) = db\<lparr>db_faults := fs\<rparr>" by blast
  then show "snd (m db) = db\<lparr>db_faults := db_faults (snd (m db))\<rparr>" by simp
qed

lemma read_only_cases:
  assumes "read_only m"
  obtains r fs where "m db = (r, db\<lparr>db_faults := fs\<rparr>)"
  using assms by (metis prod.collapse read_only_def)

lemma read_only_experiments: "read_only m \<Longrightarrow> db_experiments (snd (m db)) = db_experiments db"
  by (erule read_only_cases [of m db]) simp

lemma read_only_variants: "read_only m \<Longrightarrow> db_variants (snd (m db)) = db_variants db"
  by (erule read_only_cases [of m db]) simp

lemma read_only_query [read_only_intros]: "read_only (query (\<lambda>db. (f db, db)))"
proof (rule read_onlyI)
  fix db
  show "\<exists>fs. snd (query (\<lambda>db. (f db, db)) db) = db\<lparr>db_faults := fs\<rparr>"
    by (cases rule: query_cases [of "\<lambda>db. (f db, db)" db]) auto
qed

lemma read_only_dreturn [read_only_intros]: "read_only (dreturn x)"
  by (simp add: read_only_def dreturn_def)

lemma read_only_dmap_err [read_only_intros]: "read_only m \<Longrightarrow> read_only (dmap_err f m)"
  by (simp add: read_only_def)

lemma read_only_dbind [read_only_intros]:
  assumes "read_only m" "\<And>x. read_only (k x)"
  shows "read_only (dbind m k)"
proof (rule read_onlyI)
  fix db
  obtain r fs where r: "m db = (r, db\<lparr>db_faults := fs\<rparr>)" using read_only_cases [OF assms(1)] .
  show "\<exists>fs. snd (dbind m k db) = db\<lparr>db_faults := fs\<rparr>"
  proof (cases r)
    case (Ok x)
    obtain r' fs' where "k x (db\<lparr>db_faults := fs\<rparr>) = (r', db\<lparr>db_faults := fs\<rparr>\<lparr>db_faults := fs'\<rparr>)"
      using read_only_cases [OF assms(2)] .
    then show ?thesis using r Ok by (auto simp: dbind_def)
  qed (use r in \<open>auto simp: dbind_def\<close>)
qed

lemma read_only_store [read_only_intros]:
  "read_only (get_experiment x)" "read_only (experiment_exists x)" "read_only (get_variants x)" "read_only list_active_experiments"
  unfolding get_experiment_def experiment_exists_def get_variants_def list_active_experiments_def
  by (intro read_only_intros)+

lemma update_experiments_preserves:
  "update_experiments x g u db = (n, db') \<Longrightarrow>
     db_variants db' = db_variants db \<and> db_layers db' = db_layers db \<and> db_allocations db' = db_allocations db \<and>
     db_audit db' = db_audit db \<and> db_faults db' = db_faults db \<and> dom (db_experiments db') = dom (db_experiments db)"
  by (auto simp: update_experiments_def split: option.splits if_splits)

end
