(* ===== verification/Lifecycle.thy ===== *)
theory Lifecycle
  imports Management_Store
begin

text \<open>
  The lifecycle state machine of experiments (\<^verbatim>\<open>state_machine.rs\<close>): the states with their database
  spelling, the edges, and the guarded transition whose single \<^verbatim>\<open>UPDATE ... WHERE state = $from\<close> decides
  races. The step relation \<open>store_step\<close> is any one lifecycle statement of the store on any experiment, so
  its runs are all interleavings of concurrent handlers.
\<close>

section \<open>States\<close>

datatype experiment_state = Draft | Starting | Running | Paused | Concluding | Concluded | Archived

definition from_db_str :: "string \<Rightarrow> experiment_state option" where
  "from_db_str s =
     (if s = ''DRAFT'' then Some Draft
      else if s = ''STARTING'' then Some Starting
      else if s = ''RUNNING'' then Some Running
      else if s = ''PAUSED'' then Some Paused
      else if s = ''CONCLUDING'' then Some Concluding
      else if s = ''CONCLUDED'' then Some Concluded
      else if s = ''ARCHIVED'' then Some Archived
      else None)"

fun as_str :: "experiment_state \<Rightarrow> string" where
  "as_str Draft = ''DRAFT''"
| "as_str Starting = ''STARTING''"
| "as_str Running = ''RUNNING''"
| "as_str Paused = ''PAUSED''"
| "as_str Concluding = ''CONCLUDING''"
| "as_str Concluded = ''CONCLUDED''"
| "as_str Archived = ''ARCHIVED''"

fun valid_successors :: "experiment_state \<Rightarrow> experiment_state list" where
  "valid_successors Draft = [Starting]"
| "valid_successors Starting = [Running, Draft]"
| "valid_successors Running = [Paused, Concluding]"
| "valid_successors Paused = [Running, Concluding]"
| "valid_successors Concluding = [Concluded]"
| "valid_successors Concluded = [Archived]"
| "valid_successors Archived = []"

definition can_transition_to :: "experiment_state \<Rightarrow> experiment_state \<Rightarrow> bool" where
  "can_transition_to from target \<longleftrightarrow> target \<in> set (valid_successors from)"

section \<open>Guarded transition\<close>

datatype transition_error =
    Conflict uuid
  | Invalid experiment_state experiment_state
  | TransitionNotFound uuid
  | Store store_error

definition transition :: "uuid \<Rightarrow> experiment_state \<Rightarrow> experiment_state \<Rightarrow> (transition_error, unit) db_op" where
  "transition x from to =
     (if \<not> can_transition_to from to then dreturn (Err (Invalid from to))
      else
        dbind (dmap_err Store (query (update_experiments x (\<lambda>r. er_state r = as_str from)
                 (\<lambda>now r. r\<lparr>er_state := as_str to, er_updated_at := now\<rparr>)))) (\<lambda>rows_affected.
          if rows_affected = 0 then
            dbind (dmap_err Store (experiment_exists x)) (\<lambda>there.
              if \<not> there then dreturn (Err (TransitionNotFound x)) else dreturn (Err (Conflict x)))
          else dreturn (Ok ())))"

section \<open>Interleavings of the store's lifecycle statements\<close>

text \<open>The lifecycle statements that the handlers and \<open>transition\<close> issue.\<close>

inductive store_step :: "database \<Rightarrow> database \<Rightarrow> bool" where
  "store_step db (snd (start_transition x db))"
| "store_step db (snd (run_transition x db))"
| "store_step db (snd (revert_to_draft x db))"
| "store_step db (snd (pause_transition x reason db))"
| "store_step db (snd (resume_transition x db))"
| "store_step db (snd (conclude_transition x db))"
| "store_step db (snd (mark_concluded x db))"
| "store_step db (snd (archive_transition x db))"
| "store_step db (snd (transition x from to db))"

definition state_of :: "database \<Rightarrow> uuid \<Rightarrow> experiment_state option" where
  "state_of db x = Option.bind (db_experiments db x) (\<lambda>r. from_db_str (er_state r))"

definition well_stated :: "database \<Rightarrow> bool" where
  "well_stated db \<longleftrightarrow> (\<forall>x r. db_experiments db x = Some r \<longrightarrow> from_db_str (er_state r) \<noteq> None)"

section \<open>Facts\<close>

lemma from_db_str_as_str [simp]: "from_db_str (as_str s) = Some s"
  by (cases s) (simp_all add: from_db_str_def)

lemma as_str_from_db_str: "from_db_str t = Some s \<Longrightarrow> as_str s = t"
  by (auto simp: from_db_str_def split: if_splits)

lemma as_str_eq_iff: "as_str s = t \<longleftrightarrow> from_db_str t = Some s"
  using as_str_from_db_str from_db_str_as_str by blast

lemma can_transition_iff: "can_transition_to a b \<longleftrightarrow> b \<in> set (valid_successors a)"
  by (simp add: can_transition_to_def)

text \<open>How one lifecycle statement relates the states before and after.\<close>

definition moves_along :: "database \<Rightarrow> database \<Rightarrow> bool" where
  "moves_along db db' \<longleftrightarrow>
     dom (db_experiments db') = dom (db_experiments db) \<and>
     (\<forall>x r r'. db_experiments db x = Some r \<longrightarrow> db_experiments db' x = Some r' \<longrightarrow>
        er_state r' = er_state r \<or>
        (\<exists>s s'. er_state r = as_str s \<and> er_state r' = as_str s' \<and> can_transition_to s s'))"

lemma moves_along_refl: "db_experiments db' = db_experiments db \<Longrightarrow> moves_along db db'"
  by (simp add: moves_along_def)

lemma update_moves_along:
  assumes "\<And>r now. guard r \<Longrightarrow> \<exists>s s'. er_state r = as_str s \<and> er_state (upd now r) = as_str s' \<and> can_transition_to s s'"
  shows "moves_along db (snd (query (update_experiments x guard upd) db))"
proof (cases rule: query_cases [of "update_experiments x guard upd" db])
  case (fault msg)
  then show ?thesis by (simp add: moves_along_refl)
next
  case runs
  then show ?thesis
    using assms by (fastforce simp: moves_along_def update_experiments_def split: option.splits if_splits)
qed

lemma edge:
  "b \<in> set (valid_successors a) \<Longrightarrow> s = as_str a \<Longrightarrow> s' = as_str b \<Longrightarrow>
   \<exists>s0 s1. s = as_str s0 \<and> s' = as_str s1 \<and> can_transition_to s0 s1"
  by (auto simp: can_transition_iff)

lemma transition_moves_along: "moves_along db (snd (transition x from to db))"
proof (cases "can_transition_to from to")
  case False
  then show ?thesis by (simp add: transition_def dreturn_def moves_along_refl)
next
  case True
  let ?q = "query (update_experiments x (\<lambda>r. er_state r = as_str from) (\<lambda>now r. r\<lparr>er_state := as_str to, er_updated_at := now\<rparr>)) db"
  have "moves_along db (snd ?q)" using True by (intro update_moves_along) auto
  moreover have "db_experiments (snd (transition x from to db)) = db_experiments (snd ?q)"
    using True
    by (auto simp: transition_def dbind_def dmap_err_def dreturn_def experiment_exists_def query_def Let_def
        split: prod.splits outcome.splits list.splits option.splits)
  ultimately show ?thesis by (simp add: moves_along_def)
qed

lemma store_step_moves_along: "store_step db db' \<Longrightarrow> moves_along db db'"
proof (induction rule: store_step.induct)
  case (1 db x)
  show ?case unfolding start_transition_def by (rule update_moves_along, rule edge [of Starting Draft]) simp_all
next
  case (2 db x)
  show ?case unfolding run_transition_def by (rule update_moves_along, rule edge [of Running Starting]) simp_all
next
  case (3 db x)
  show ?case unfolding revert_to_draft_def by (rule update_moves_along, rule edge [of Draft Starting]) simp_all
next
  case (4 db x reason)
  show ?case unfolding pause_transition_def by (rule update_moves_along, rule edge [of Paused Running]) simp_all
next
  case (5 db x)
  show ?case unfolding resume_transition_def by (rule update_moves_along, rule edge [of Running Paused]) simp_all
next
  case (6 db x)
  show ?case unfolding conclude_transition_def
  proof (rule update_moves_along)
    fix r :: experiment_row and now :: int
    assume "er_state r = ''RUNNING'' \<or> er_state r = ''PAUSED''"
    then show "\<exists>s s'. er_state r = as_str s \<and> er_state (r\<lparr>er_state := ''CONCLUDING'', er_updated_at := now\<rparr>) = as_str s' \<and> can_transition_to s s'"
      using edge [of Concluding Running] edge [of Concluding Paused] by auto
  qed
next
  case (7 db x)
  show ?case unfolding mark_concluded_def by (rule update_moves_along, rule edge [of Concluded Concluding]) simp_all
next
  case (8 db x)
  show ?case unfolding archive_transition_def by (rule update_moves_along, rule edge [of Archived Concluded]) simp_all
next
  case (9 db x s s')
  show ?case by (rule transition_moves_along)
qed

lemma moves_along_state:
  assumes "moves_along db db'" "state_of db x = Some s"
  shows "state_of db' x = Some s \<or> (\<exists>s'. state_of db' x = Some s' \<and> can_transition_to s s')"
proof -
  from assms(2) obtain r where r: "db_experiments db x = Some r" "from_db_str (er_state r) = Some s"
    by (auto simp: state_of_def bind_eq_Some_conv)
  then obtain r' where r': "db_experiments db' x = Some r'"
    using assms(1) unfolding moves_along_def by (metis domD domI)
  from assms(1) r r' consider "er_state r' = er_state r"
    | s0 s1 where "er_state r = as_str s0" "er_state r' = as_str s1" "can_transition_to s0 s1"
    unfolding moves_along_def by blast
  then show ?thesis using r r' by cases (auto simp: state_of_def)
qed

text \<open>The states from which an experiment can no longer serve traffic.\<close>

definition retired :: "experiment_state set" where
  "retired = {Concluding, Concluded, Archived}"

lemma retired_closed: "s \<in> retired \<Longrightarrow> can_transition_to s s' \<Longrightarrow> s' \<in> retired"
  by (auto simp: retired_def can_transition_iff)

interpretation retire: inductive_invariant
  "\<lambda>db. \<exists>s \<in> retired. state_of db x = Some s" store_step "\<lambda>db. \<exists>s \<in> retired. state_of db x = Some s" for x
proof
  fix db db'
  assume "\<exists>s \<in> retired. state_of db x = Some s" "store_step db db'"
  then show "\<exists>s \<in> retired. state_of db' x = Some s"
    using moves_along_state [OF store_step_moves_along] retired_closed by blast
qed

section \<open>Properties\<close>

text \<open>
  The database spelling of the states round-trips: every state reads back as itself, and a string that reads as a state is exactly its spelling.
\<close>

theorem state_strings_roundtrip:
  "from_db_str (as_str s) = Some s \<and> (from_db_str t = Some s \<longleftrightarrow> t = as_str s)"
  using as_str_eq_iff [of s t] by auto

text \<open>
  C9: Under every interleaving of the lifecycle statements that name the states they leave and enter (the generic statement with arbitrary states, which nothing in the program calls, is not among them), with or without database faults, the state of an experiment either stays or moves along an edge of the state machine, and no experiment appears or disappears.
\<close>

theorem store_implements_state_machine:
  assumes "store_step db db'" "state_of db x = Some s"
  shows "dom (db_experiments db') = dom (db_experiments db) \<and>
    (state_of db' x = Some s \<or> (\<exists>s'. state_of db' x = Some s' \<and> can_transition_to s s'))"
  using moves_along_state [OF store_step_moves_along [OF assms(1)] assms(2)] store_step_moves_along [OF assms(1)]
  by (simp add: moves_along_def)

definition row_in :: "string \<Rightarrow> experiment_row" where
  "row_in st = \<lparr>er_experiment_id = ''x'', er_name = ''n'', er_description = None, er_owner_email = ''o'', er_experiment_type = ''AB'',
     er_state = st, er_layer_id = ''L'', er_primary_metric_id = ''m'', er_secondary_metric_ids = [], er_guardrail_action = ''AUTO_PAUSE'',
     er_hash_salt = ''s1'', er_targeting_rule_id = None, er_is_cumulative_holdout = False, er_type_config = JObject [],
     er_sequential_method = None, er_planned_looks = None, er_overall_alpha = None, er_surrogate_model_id = None,
     er_created_at = 0, er_started_at = None, er_concluded_at = None, er_archived_at = None, er_paused_at = None,
     er_resumed_at = None, er_pause_reason = None, er_updated_at = 0\<rparr>"

definition db_with :: "experiment_row \<Rightarrow> database" where
  "db_with r = \<lparr>db_experiments = [er_experiment_id r \<mapsto> r], db_variants = [], db_layers = Map.empty, db_allocations = [],
     db_audit = [], db_metrics = Map.empty, db_migrations = [],
     db_targeting_rules = [], db_surrogate_models = [], db_ids = show_nat, db_salts = show_nat, db_next = 0, db_now = 10, db_faults = []\<rparr>"

theorem store_implements_state_machine_witness:
  "let db = db_with (row_in ''DRAFT''); db' = snd (start_transition ''x'' db)
   in state_of db' ''x'' = Some Draft \<or> (\<exists>s'. state_of db' ''x'' = Some s' \<and> can_transition_to Draft s')"
  using store_implements_state_machine [OF store_step.intros(1) [of "db_with (row_in ''DRAFT'')" "''x''"], of "''x''" Draft]
  by (simp add: Let_def state_of_def db_with_def row_in_def from_db_str_def)

text \<open>
  An experiment that has begun to conclude never runs again: after any number of further lifecycle statements of any clients it is still concluding, concluded or archived.
\<close>

theorem concluded_never_runs_again:
  assumes "store_step\<^sup>*\<^sup>* db db'" "state_of db x \<in> {Some Concluding, Some Concluded, Some Archived}"
  shows "state_of db' x \<in> {Some Concluding, Some Concluded, Some Archived}"
proof -
  have "\<exists>s \<in> retired. state_of db x = Some s" using assms(2) by (auto simp: retired_def)
  from retire.steps_inv [OF assms(1) this] show ?thesis by (auto simp: retired_def)
qed

theorem concluded_never_runs_again_witness:
  "state_of (snd (resume_transition ''x'' (db_with (row_in ''CONCLUDED'')))) ''x'' \<in> {Some Concluding, Some Concluded, Some Archived}"
proof (rule concluded_never_runs_again)
  show "store_step\<^sup>*\<^sup>* (db_with (row_in ''CONCLUDED'')) (snd (resume_transition ''x'' (db_with (row_in ''CONCLUDED''))))"
    by (intro r_into_rtranclp store_step.intros)
qed (simp add: state_of_def db_with_def row_in_def from_db_str_def)

text \<open>
  Of two racing transitions out of the same state (without faults) exactly one wins: after the first succeeds, a second transition from that state reports a conflict and changes nothing.
\<close>

theorem racing_transitions_one_winner:
  assumes "db_faults db = []" "transition x from to db = (Ok (), db')" "can_transition_to from to'"
  shows "transition x from to' db' = (Err (Conflict x), db')"
proof -
  have edge: "can_transition_to from to"
    using assms(2) by (auto simp: transition_def dreturn_def split: if_splits)
  then have ne: "to \<noteq> from" by (cases "from") (auto simp: can_transition_iff)
  obtain r where r: "db_experiments db x = Some r" "er_state r = as_str from"
      and db': "db' = db\<lparr>db_experiments := (db_experiments db)(x \<mapsto> r\<lparr>er_state := as_str to, er_updated_at := db_now db\<rparr>)\<rparr>"
    using assms(1,2) edge
    by (auto simp: transition_def dbind_def dmap_err_def dreturn_def update_experiments_def experiment_exists_def
        split: option.splits if_splits)
  have "as_str to \<noteq> as_str from" using ne by (metis from_db_str_as_str option.inject)
  then show ?thesis
    using assms(1,3) by (simp add: db' transition_def dbind_def dmap_err_def dreturn_def update_experiments_def experiment_exists_def)
qed

theorem racing_transitions_one_winner_witness:
  "let db' = snd (transition ''x'' Running Paused (db_with (row_in ''RUNNING'')))
   in transition ''x'' Running Concluding db' = (Err (Conflict ''x''), db')"
  unfolding Let_def
proof (rule racing_transitions_one_winner [where db = "db_with (row_in ''RUNNING'')" and to = Paused])
  show "transition ''x'' Running Paused (db_with (row_in ''RUNNING'')) = (Ok (), snd (transition ''x'' Running Paused (db_with (row_in ''RUNNING''))))"
    by (simp add: transition_def can_transition_iff dbind_def dmap_err_def dreturn_def update_experiments_def db_with_def row_in_def)
qed (simp_all add: db_with_def can_transition_iff)

end
