(* ===== verification/Bucket_Reuse.thy ===== *)
theory Bucket_Reuse
  imports Management_Store
begin

text \<open>
  The bucket allocator of the layers (\<^verbatim>\<open>bucket_reuse.rs\<close>): half-open bucket ranges per experiment, overlap
  detection against active allocations and against released ones still in cooldown, release, listing.
  The check and the insert of \<open>allocate\<close> are separate statements, so both the run under a lock and the
  interleaving of two runs can be stated.
\<close>

section \<open>Operations\<close>

datatype allocator_error =
    Overlap uuid int int
  | LayerNotFound uuid
  | InvalidRange int int
  | AllocStore store_error

definition load_layer :: "uuid \<Rightarrow> (allocator_error, layer_row option) db_op" where
  "load_layer layer_id = dmap_err AllocStore (query (\<lambda>db. (db_layers db layer_id, db)))"

text \<open>The row condition of the two overlap queries; \<open>now\<close> is \<^verbatim>\<open>NOW()\<close>.\<close>

definition overlap_row :: "int \<Rightarrow> uuid \<Rightarrow> uuid \<Rightarrow> int \<Rightarrow> int \<Rightarrow> bool \<Rightarrow> allocation \<Rightarrow> bool" where
  "overlap_row now layer_id exclude_experiment_id start stop in_cooldown a \<longleftrightarrow>
     al_layer_id a = layer_id \<and> al_experiment_id a \<noteq> exclude_experiment_id \<and>
     (if in_cooldown
      then al_released_at a \<noteq> None \<and> (case al_reusable_after a of None \<Rightarrow> False | Some t \<Rightarrow> t > now)
      else al_released_at a = None) \<and>
     al_start_bucket a < stop \<and> start < al_end_bucket a"

text \<open>\<^verbatim>\<open>LIMIT 1\<close> without an order returns any of the rows; the first in table order stands for it.\<close>

definition check_overlap :: "uuid \<Rightarrow> uuid \<Rightarrow> int \<Rightarrow> int \<Rightarrow> bool \<Rightarrow> (allocator_error, unit) db_op" where
  "check_overlap layer_id exclude_experiment_id start stop in_cooldown =
     dbind (dmap_err AllocStore (query (\<lambda>db.
              (find (overlap_row (db_now db) layer_id exclude_experiment_id start stop in_cooldown) (db_allocations db), db))))
       (\<lambda>conflicting. case conflicting of
          Some conflict \<Rightarrow>
            dreturn (Err (Overlap (al_experiment_id conflict) (al_start_bucket conflict) (al_end_bucket conflict)))
        | None \<Rightarrow> dreturn (Ok ()))"

definition allocate_checks :: "uuid \<Rightarrow> uuid \<Rightarrow> int \<Rightarrow> int \<Rightarrow> (allocator_error, unit) db_op" where
  "allocate_checks layer_id experiment_id start_bucket end_bucket =
     dbind (load_layer layer_id) (\<lambda>layer.
     dbind (dreturn (ok_or (LayerNotFound layer_id) layer)) (\<lambda>layer.
       if start_bucket \<ge> end_bucket \<or> start_bucket < 0 \<or> end_bucket > lr_total_buckets layer
       then dreturn (Err (InvalidRange start_bucket end_bucket))
       else
         dbind (check_overlap layer_id experiment_id start_bucket end_bucket False) (\<lambda>_.
           check_overlap layer_id experiment_id start_bucket end_bucket True)))"

definition new_allocation :: "database \<Rightarrow> uuid \<Rightarrow> uuid \<Rightarrow> int \<Rightarrow> int \<Rightarrow> allocation" where
  "new_allocation db layer_id experiment_id start_bucket end_bucket =
     \<lparr>al_allocation_id = length (db_allocations db), al_layer_id = layer_id, al_experiment_id = experiment_id,
      al_start_bucket = start_bucket, al_end_bucket = end_bucket, al_activated_at = Some (db_now db),
      al_released_at = None, al_reusable_after = None\<rparr>"

definition allocate_insert :: "uuid \<Rightarrow> uuid \<Rightarrow> int \<Rightarrow> int \<Rightarrow> (allocator_error, allocation) db_op" where
  "allocate_insert layer_id experiment_id start_bucket end_bucket =
     dmap_err AllocStore (query (\<lambda>db.
       let row = new_allocation db layer_id experiment_id start_bucket end_bucket
       in (row, db\<lparr>db_allocations := db_allocations db @ [row]\<rparr>)))"

definition allocate :: "uuid \<Rightarrow> uuid \<Rightarrow> int \<Rightarrow> int \<Rightarrow> (allocator_error, allocation) db_op" where
  "allocate layer_id experiment_id start_bucket end_bucket =
     dbind (allocate_checks layer_id experiment_id start_bucket end_bucket) (\<lambda>_.
       allocate_insert layer_id experiment_id start_bucket end_bucket)"

definition release :: "uuid \<Rightarrow> uuid \<Rightarrow> (allocator_error, unit) db_op" where
  "release layer_id experiment_id =
     dbind (load_layer layer_id) (\<lambda>layer.
       let cooldown_secs = unwrap_or 86400 (map_option lr_bucket_reuse_cooldown_seconds layer)
       in dmap_err AllocStore (query (\<lambda>db.
            ((), db\<lparr>db_allocations := map (\<lambda>a.
               if al_layer_id a = layer_id \<and> al_experiment_id a = experiment_id \<and> al_released_at a = None
               then a\<lparr>al_released_at := Some (db_now db), al_reusable_after := Some (db_now db + cooldown_secs)\<rparr>
               else a) (db_allocations db)\<rparr>))))"

definition list_allocations :: "uuid \<Rightarrow> bool \<Rightarrow> (allocator_error, allocation list) db_op" where
  "list_allocations layer_id include_released =
     (if include_released
      then dmap_err AllocStore (query (\<lambda>db.
             (sort_key al_start_bucket (filter (\<lambda>a. al_layer_id a = layer_id) (db_allocations db)), db)))
      else dmap_err AllocStore (query (\<lambda>db.
             (sort_key al_start_bucket (filter (\<lambda>a. al_layer_id a = layer_id \<and> al_released_at a = None) (db_allocations db)), db))))"

section \<open>Facts\<close>

text \<open>The half-open ranges of two allocations have a bucket in common.\<close>

definition share_bucket :: "allocation \<Rightarrow> allocation \<Rightarrow> bool" where
  "share_bucket a b \<longleftrightarrow> (\<exists>k. al_start_bucket a \<le> k \<and> k < al_end_bucket a \<and> al_start_bucket b \<le> k \<and> k < al_end_bucket b)"

lemma share_bucket_iff:
  "al_start_bucket a < al_end_bucket a \<Longrightarrow> al_start_bucket b < al_end_bucket b \<Longrightarrow>
   share_bucket a b \<longleftrightarrow> al_start_bucket a < al_end_bucket b \<and> al_start_bucket b < al_end_bucket a"
  unfolding share_bucket_def
  by (auto intro!: exI [of _ "max (al_start_bucket a) (al_start_bucket b)"])

lemma find_None_iff_all: "find P xs = None \<longleftrightarrow> (\<forall>x \<in> set xs. \<not> P x)"
  by (auto simp: find_None_iff)

lemma check_overlap_Ok:
  assumes "check_overlap l x s e c db = (Ok (), db')"
  shows "db' = db\<lparr>db_faults := tl (db_faults db)\<rparr>" "\<forall>a \<in> set (db_allocations db). \<not> overlap_row (db_now db) l x s e c a"
  using assms
  by (auto simp: check_overlap_def dbind_def dmap_err_def dreturn_def query_def Let_def find_None_iff_all
      split: prod.splits outcome.splits list.splits option.splits)

lemma load_layer_Ok:
  "load_layer l db = (Ok layer, db') \<Longrightarrow> layer = db_layers db l \<and> db' = db\<lparr>db_faults := tl (db_faults db)\<rparr>"
  by (auto simp: load_layer_def dmap_err_def query_def Let_def split: prod.splits outcome.splits list.splits option.splits)

lemma allocate_checks_Ok:
  assumes "allocate_checks l x s e db = (Ok (), db')"
  shows "\<exists>layer. db_layers db l = Some layer \<and> 0 \<le> s \<and> s < e \<and> e \<le> lr_total_buckets layer"
    "\<forall>a \<in> set (db_allocations db). \<not> overlap_row (db_now db) l x s e False a"
    "\<forall>a \<in> set (db_allocations db). \<not> overlap_row (db_now db) l x s e True a"
    "\<exists>fs. db' = db\<lparr>db_faults := fs\<rparr>"
proof -
  from assms obtain layer db1 where l: "db_layers db l = Some layer" "db1 = db\<lparr>db_faults := tl (db_faults db)\<rparr>"
      and rng: "\<not> (s \<ge> e \<or> s < 0 \<or> e > lr_total_buckets layer)"
      and chk: "dbind (check_overlap l x s e False) (\<lambda>_. check_overlap l x s e True) db1 = (Ok (), db')"
    unfolding allocate_checks_def
    by (auto simp: dbind_Ok dreturn_def outcome_simps dest!: load_layer_Ok split: if_splits)
  from chk obtain db2 where c: "check_overlap l x s e False db1 = (Ok (), db2)" "check_overlap l x s e True db2 = (Ok (), db')"
    by (auto simp: dbind_Ok)
  note c1 = check_overlap_Ok [OF c(1)] and c2 = check_overlap_Ok [OF c(2)]
  show "\<exists>layer. db_layers db l = Some layer \<and> 0 \<le> s \<and> s < e \<and> e \<le> lr_total_buckets layer" using l rng by auto
  show "\<forall>a \<in> set (db_allocations db). \<not> overlap_row (db_now db) l x s e False a" using c1(2) l(2) by simp
  show "\<forall>a \<in> set (db_allocations db). \<not> overlap_row (db_now db) l x s e True a" using c2(2) c1(1) l(2) by simp
  show "\<exists>fs. db' = db\<lparr>db_faults := fs\<rparr>" using c2(1) c1(1) l(2) by auto
qed

lemma allocate_Ok:
  assumes "allocate l x s e db = (Ok a, db')"
  shows "a = new_allocation db l x s e" "db_allocations db' = db_allocations db @ [a]"
    "db_layers db' = db_layers db" "db_now db' = db_now db"
    "\<exists>db1. allocate_checks l x s e db = (Ok (), db1)"
proof -
  from assms obtain u db1 where c: "allocate_checks l x s e db = (Ok u, db1)" "allocate_insert l x s e db1 = (Ok a, db')"
    by (auto simp: allocate_def dbind_Ok)
  then obtain fs where db1: "db1 = db\<lparr>db_faults := fs\<rparr>" using allocate_checks_Ok(4) [of l x s e db db1] by auto
  from c(2) show "a = new_allocation db l x s e" "db_allocations db' = db_allocations db @ [a]"
    "db_layers db' = db_layers db" "db_now db' = db_now db"
    by (auto simp: db1 allocate_insert_def dmap_err_def query_def Let_def new_allocation_def
        split: prod.splits outcome.splits list.splits option.splits)
  show "\<exists>db1. allocate_checks l x s e db = (Ok (), db1)" using c(1) by simp
qed

lemma read_only_allocator [read_only_intros]:
  "read_only (load_layer l)" "read_only (check_overlap l x s e c)" "read_only (allocate_checks l x s e)"
  "read_only (list_allocations l inc)"
proof -
  show ll: "read_only (load_layer l)" unfolding load_layer_def by (intro read_only_intros)
  have co: "read_only (check_overlap l x s e c)" for c
    unfolding check_overlap_def by (intro read_only_intros) (auto intro: read_only_intros split: option.split)
  then show "read_only (check_overlap l x s e c)" .
  show "read_only (allocate_checks l x s e)"
    unfolding allocate_checks_def by (intro read_only_dbind ll read_only_dreturn) (auto intro!: read_only_intros co)
  show "read_only (list_allocations l inc)"
    unfolding list_allocations_def by (auto intro!: read_only_intros)
qed

section \<open>Serial runs\<close>

text \<open>The allocator as callers that hold the layer lock see it: whole operations and the passing of time.\<close>

inductive alloc_step :: "database \<Rightarrow> database \<Rightarrow> bool" where
  allocate: "alloc_step db (snd (allocate l x s e db))"
| release: "alloc_step db (snd (release l x db))"
| tick: "db_now db \<le> t \<Longrightarrow> alloc_step db (db\<lparr>db_now := t\<rparr>)"

definition exclusive :: "allocation list \<Rightarrow> bool" where
  "exclusive as \<longleftrightarrow>
     (\<forall>a \<in> set as. al_start_bucket a < al_end_bucket a) \<and>
     (\<forall>a \<in> set as. \<forall>b \<in> set as. al_layer_id a = al_layer_id b \<and> al_experiment_id a \<noteq> al_experiment_id b \<and>
        al_released_at a = None \<and> al_released_at b = None \<longrightarrow> \<not> share_bucket a b)"

lemma share_bucket_sym: "share_bucket a b \<longleftrightarrow> share_bucket b a"
  by (auto simp: share_bucket_def)

lemma exclusive_push:
  assumes "exclusive as" "al_start_bucket n < al_end_bucket n"
    and "\<And>a. a \<in> set as \<Longrightarrow> al_layer_id a = al_layer_id n \<Longrightarrow> al_experiment_id a \<noteq> al_experiment_id n \<Longrightarrow> al_released_at a = None \<Longrightarrow> \<not> share_bucket a n"
  shows "exclusive (as @ [n])"
  using assms share_bucket_sym by (auto simp: exclusive_def)

lemma allocate_failed:
  assumes "\<And>a. fst (allocate l x s e db) \<noteq> Ok a"
  shows "db_allocations (snd (allocate l x s e db)) = db_allocations db"
proof -
  obtain r fs where c: "allocate_checks l x s e db = (r, db\<lparr>db_faults := fs\<rparr>)"
    using read_only_cases [OF read_only_allocator(3)] .
  show ?thesis
  proof (cases r)
    case (Ok u)
    then have "allocate l x s e db = allocate_insert l x s e (db\<lparr>db_faults := fs\<rparr>)"
      using c by (simp add: allocate_def dbind_def)
    with assms show ?thesis
      by (auto simp: allocate_insert_def dmap_err_def query_def Let_def split: list.splits option.splits)
  qed (use c in \<open>simp_all add: allocate_def dbind_def\<close>)
qed

lemma allocate_exclusive:
  assumes "exclusive (db_allocations db)"
  shows "exclusive (db_allocations (snd (allocate l x s e db)))"
proof (cases "fst (allocate l x s e db)")
  case (Ok a)
  then have run: "allocate l x s e db = (Ok a, snd (allocate l x s e db))" by (simp add: prod_eq_iff)
  note al = allocate_Ok [OF this]
  from al(5) obtain db1 where c: "allocate_checks l x s e db = (Ok (), db1)" ..
  note ch = allocate_checks_Ok [OF c]
  have "exclusive (db_allocations db @ [a])"
  proof (rule exclusive_push [OF assms])
    show "al_start_bucket a < al_end_bucket a" using ch(1) by (auto simp: al(1) new_allocation_def)
    fix b
    assume b: "b \<in> set (db_allocations db)" "al_layer_id b = al_layer_id a" "al_experiment_id b \<noteq> al_experiment_id a" "al_released_at b = None"
    then show "\<not> share_bucket b a"
      using ch(2) by (auto simp: al(1) new_allocation_def overlap_row_def share_bucket_def)
  qed
  then show ?thesis using al(2) by simp
next
  case Panic
  then show ?thesis using assms by (simp add: allocate_failed)
next
  case (Err err)
  then show ?thesis using assms by (simp add: allocate_failed)
qed

lemma allocate_keeps: "set (db_allocations db) \<subseteq> set (db_allocations (snd (allocate l x s e db)))"
proof (cases "\<exists>a. fst (allocate l x s e db) = Ok a")
  case True
  then obtain a where "allocate l x s e db = (Ok a, snd (allocate l x s e db))" by (metis prod.collapse)
  from allocate_Ok(2) [OF this] show ?thesis by auto
qed (use allocate_failed in auto)

definition mark_released :: "uuid \<Rightarrow> uuid \<Rightarrow> int \<Rightarrow> int \<Rightarrow> allocation \<Rightarrow> allocation" where
  "mark_released l x now cooldown a =
     (if al_layer_id a = l \<and> al_experiment_id a = x \<and> al_released_at a = None
      then a\<lparr>al_released_at := Some now, al_reusable_after := Some (now + cooldown)\<rparr> else a)"

lemma release_effect:
  "\<exists>cooldown. db_allocations (snd (release l x db)) \<in>
     {db_allocations db, map (mark_released l x (db_now db) cooldown) (db_allocations db)}"
proof -
  obtain r fs where c: "load_layer l db = (r, db\<lparr>db_faults := fs\<rparr>)"
    using read_only_cases [OF read_only_allocator(1)] .
  show ?thesis
  proof (cases r)
    case (Ok layer)
    define cd where "cd = unwrap_or 86400 (map_option lr_bucket_reuse_cooldown_seconds layer)"
    define f where "f = (\<lambda>db :: database. ((), db\<lparr>db_allocations := map (mark_released l x (db_now db) cd) (db_allocations db)\<rparr>))"
    have "release l x db = dmap_err AllocStore (query f) (db\<lparr>db_faults := fs\<rparr>)"
      using c Ok by (simp add: release_def dbind_def Let_def f_def cd_def mark_released_def [abs_def])
    then have "db_allocations (snd (release l x db)) \<in> {db_allocations db, map (mark_released l x (db_now db) cd) (db_allocations db)}"
      by (cases rule: query_cases [of f "db\<lparr>db_faults := fs\<rparr>"]) (simp_all add: dmap_err_def f_def)
    then show ?thesis ..
  qed (use c in \<open>simp_all add: release_def dbind_def\<close>)
qed

lemma mark_released_fields [simp]:
  "al_start_bucket (mark_released l x n c a) = al_start_bucket a" "al_end_bucket (mark_released l x n c a) = al_end_bucket a"
  "al_layer_id (mark_released l x n c a) = al_layer_id a" "al_experiment_id (mark_released l x n c a) = al_experiment_id a"
  by (simp_all add: mark_released_def)

lemma mark_released_active: "al_released_at (mark_released l x n c a) = None \<Longrightarrow> al_released_at a = None"
  by (auto simp: mark_released_def split: if_splits)

lemma release_exclusive:
  assumes "exclusive (db_allocations db)"
  shows "exclusive (db_allocations (snd (release l x db)))"
proof -
  obtain c where "db_allocations (snd (release l x db)) \<in>
      {db_allocations db, map (mark_released l x (db_now db) c) (db_allocations db)}"
    using release_effect by blast
  moreover have "exclusive (map (mark_released l x (db_now db) c) (db_allocations db))"
    using assms by (auto simp: exclusive_def share_bucket_def dest!: mark_released_active)
  ultimately show ?thesis using assms by auto
qed

interpretation allocator: inductive_invariant "\<lambda>db. db_allocations db = []" alloc_step "\<lambda>db. exclusive (db_allocations db)"
proof
  fix db assume "db_allocations db = []"
  then show "exclusive (db_allocations db)" by (simp add: exclusive_def)
next
  fix db db' assume "exclusive (db_allocations db)" "alloc_step db db'"
  from this(2,1) show "exclusive (db_allocations db')"
    by (induction rule: alloc_step.induct) (auto simp: allocate_exclusive release_exclusive)
qed

section \<open>Properties\<close>

text \<open>
  C10: Run one after the other, allocations and releases never give two experiments of a layer the same
  buckets at once, but for a common end: in every database they reach, two active allocations of a layer for different
  experiments have no bucket in common when the ranges are read without their end, as the allocator reads them; read
  with the end, as the hash crate and the proto read them, a common bucket is the end of one and the start of the other.
\<close>

theorem active_allocations_disjoint:
  assumes "reach (\<lambda>db. db_allocations db = []) alloc_step db"
    and "a \<in> set (db_allocations db)" "b \<in> set (db_allocations db)" "al_layer_id a = al_layer_id b"
    and "al_experiment_id a \<noteq> al_experiment_id b" "al_released_at a = None" "al_released_at b = None"
  shows "\<not> (al_start_bucket a \<le> k \<and> k < al_end_bucket a \<and> al_start_bucket b \<le> k \<and> k < al_end_bucket b) \<and>
    (al_start_bucket a \<le> k \<and> k \<le> al_end_bucket a \<and> al_start_bucket b \<le> k \<and> k \<le> al_end_bucket b \<longrightarrow>
       k = al_end_bucket a \<and> k = al_start_bucket b \<or> k = al_end_bucket b \<and> k = al_start_bucket a)"
proof -
  have ex: "exclusive (db_allocations db)" by (rule allocator.reach_inv [OF assms(1)])
  then have ranges: "al_start_bucket a < al_end_bucket a" "al_start_bucket b < al_end_bucket b"
    using assms(2,3) unfolding exclusive_def by blast+
  have apart: "\<not> share_bucket a b" using ex assms(2-7) unfolding exclusive_def by blast
  then have "al_end_bucket b \<le> al_start_bucket a \<or> al_end_bucket a \<le> al_start_bucket b" using share_bucket_iff [OF ranges] by linarith
  then show ?thesis using apart unfolding share_bucket_def by (auto dest: order_antisym)
qed

definition empty_layer_db :: database where
  "empty_layer_db = \<lparr>db_experiments = Map.empty, db_variants = [],
     db_layers = [''L'' \<mapsto> \<lparr>lr_total_buckets = 10000, lr_bucket_reuse_cooldown_seconds = 86400\<rparr>],
     db_allocations = [], db_audit = [], db_metrics = Map.empty, db_migrations = [],
     db_targeting_rules = [], db_surrogate_models = [], db_ids = show_nat, db_salts = show_nat, db_next = 0, db_now = 10, db_faults = []\<rparr>"

lemmas allocator_eval = allocate_def allocate_checks_def allocate_insert_def check_overlap_def load_layer_def dbind_def dmap_err_def
  dreturn_def overlap_row_def new_allocation_def empty_layer_db_def Let_def

lemma sample_allocation:
  "allocate ''L'' ''x'' 0 5000 empty_layer_db =
     (Ok (new_allocation empty_layer_db ''L'' ''x'' 0 5000), empty_layer_db\<lparr>db_allocations := [new_allocation empty_layer_db ''L'' ''x'' 0 5000]\<rparr>)"
  by (simp add: allocator_eval)

lemma second_allocation:
  "db_allocations (snd (allocate ''L'' ''y'' 5000 10000 (empty_layer_db\<lparr>db_allocations := [new_allocation empty_layer_db ''L'' ''x'' 0 5000]\<rparr>))) =
     [new_allocation empty_layer_db ''L'' ''x'' 0 5000, (new_allocation empty_layer_db ''L'' ''y'' 5000 10000)\<lparr>al_allocation_id := 1\<rparr>]"
  by (simp add: allocator_eval)

theorem active_allocations_disjoint_witness:
  "let a = new_allocation empty_layer_db ''L'' ''x'' 0 5000; b = new_allocation empty_layer_db ''L'' ''y'' 5000 10000
   in \<not> (al_start_bucket a \<le> 4999 \<and> 4999 < al_end_bucket a \<and> al_start_bucket b \<le> 4999 \<and> 4999 < al_end_bucket b) \<and>
     al_start_bucket a \<le> 5000 \<and> 5000 \<le> al_end_bucket a \<and> al_start_bucket b \<le> 5000 \<and> 5000 \<le> al_end_bucket b \<and>
     (5000 = al_end_bucket a \<and> 5000 = al_start_bucket b \<or> 5000 = al_end_bucket b \<and> 5000 = al_start_bucket a)"
proof -
  let ?a = "new_allocation empty_layer_db ''L'' ''x'' 0 5000" and ?b = "new_allocation empty_layer_db ''L'' ''y'' 5000 10000"
  let ?db1 = "empty_layer_db\<lparr>db_allocations := [?a]\<rparr>"
  let ?db2 = "snd (allocate ''L'' ''y'' 5000 10000 ?db1)"
  have "reach (\<lambda>db. db_allocations db = []) alloc_step empty_layer_db"
    by (rule reach_init) (simp add: empty_layer_db_def)
  moreover have "alloc_step empty_layer_db ?db1"
    using alloc_step.allocate [of empty_layer_db "''L''" "''x''" 0 5000] by (simp add: sample_allocation)
  ultimately have "reach (\<lambda>db. db_allocations db = []) alloc_step ?db2"
    using reach_step alloc_step.allocate by metis
  then show ?thesis
    using active_allocations_disjoint [of ?db2 ?a "?b\<lparr>al_allocation_id := 1\<rparr>" 4999] active_allocations_disjoint [of ?db2 ?a "?b\<lparr>al_allocation_id := 1\<rparr>" 5000]
    by (simp only: second_allocation Let_def) (simp add: new_allocation_def)
qed

text \<open>
  A successful allocation lies inside the layer and touches no bucket that another experiment released less than the cooldown ago.
\<close>

theorem cooldown_respected:
  assumes "allocate l x s e db = (Ok a, db')"
  shows "\<exists>layer. db_layers db l = Some layer \<and> 0 \<le> s \<and> s < e \<and> e \<le> lr_total_buckets layer \<and>
    (\<forall>b \<in> set (db_allocations db). al_layer_id b = l \<and> al_experiment_id b \<noteq> x \<and> al_released_at b \<noteq> None \<and>
       (\<exists>t. al_reusable_after b = Some t \<and> db_now db < t) \<longrightarrow> \<not> share_bucket b a)"
proof -
  from allocate_Ok(5) [OF assms] obtain db1 where c: "allocate_checks l x s e db = (Ok (), db1)" ..
  note ch = allocate_checks_Ok [OF c]
  have "\<not> share_bucket b a" if "b \<in> set (db_allocations db)" "al_layer_id b = l" "al_experiment_id b \<noteq> x" "al_released_at b \<noteq> None"
      "\<exists>t. al_reusable_after b = Some t \<and> db_now db < t" for b
    using ch(3) that by (auto simp: allocate_Ok(1) [OF assms] new_allocation_def overlap_row_def share_bucket_def)
  with ch(1) show ?thesis by blast
qed

theorem cooldown_respected_witness:
  "\<exists>a db'. allocate ''L'' ''x'' 0 5000 empty_layer_db = (Ok a, db') \<and>
     (\<exists>layer. db_layers empty_layer_db ''L'' = Some layer \<and> 5000 \<le> lr_total_buckets layer)"
  using cooldown_respected [OF sample_allocation] sample_allocation by blast

text \<open>
  The check and the insert are separate statements, and without a lock their interleaving breaks exclusivity: two experiments that check the same range before either inserts both succeed and own the same buckets.
\<close>

theorem unlocked_allocation_race:
  "\<exists>db1 db2 a b db3 db4.
     allocate_checks ''L'' ''x'' 0 5000 empty_layer_db = (Ok (), db1) \<and> allocate_checks ''L'' ''y'' 0 5000 db1 = (Ok (), db2) \<and>
     allocate_insert ''L'' ''x'' 0 5000 db2 = (Ok a, db3) \<and> allocate_insert ''L'' ''y'' 0 5000 db3 = (Ok b, db4) \<and>
     {a, b} \<subseteq> set (db_allocations db4) \<and> al_released_at a = None \<and> al_released_at b = None \<and> share_bucket a b"
  by (simp add: allocator_eval share_bucket_def) (rule exI [of _ 0], simp)

end
