(* ===== verification/Start_Validators.thy ===== *)
theory Start_Validators
  imports Assignment_Config
begin

text \<open>
  The gate an experiment passes between STARTING and RUNNING (\<^verbatim>\<open>validators/mod.rs\<close> and
  \<^verbatim>\<open>validators/experiment_types.rs\<close>): META, SWITCHBACK and QUASI configurations and the equivalence
  test. Errors are values, one constructor per message of the source with the values it interpolates;
  every one is a \<^verbatim>\<open>failed_precondition\<close> status. The iteration order of a hash map is the parameter
  \<open>entries\<close>.
\<close>

section \<open>The experiment message of M5\<close>

record proto_meta_objective =
  pmo_variant_id :: string
  pmo_reward_weights :: "(string, f64) hash_map"

record proto_meta_config =
  pmc_base_algorithm :: int
  pmc_variant_objectives :: "proto_meta_objective list"
  pmc_outcome_metric_ids :: "string list"

record proto_duration =
  du_seconds :: int
  du_nanos :: int

record proto_switchback_config =
  psc_planned_cycles :: int
  psc_block_duration :: "proto_duration option"
  psc_cluster_attribute :: string
  psc_washout_period :: "proto_duration option"

record proto_quasi_config =
  pqc_treated_unit_id :: string
  pqc_donor_unit_ids :: "string list"
  pqc_pre_treatment_start :: "proto_duration option"
  pqc_treatment_start :: "proto_duration option"
  pqc_outcome_metric_id :: string
  pqc_method :: int

record proto_equivalence_config =
  peq_delta :: f64
  peq_delta_relative :: "f64 option"
  peq_alpha :: f64

record proto_guardrail_config =
  pgc_metric_id :: string
  pgc_threshold :: f64
  pgc_consecutive_breaches_required :: int

record proto_sequential_config =
  pqs_method :: int
  pqs_planned_looks :: int
  pqs_overall_alpha :: f64

record proto_interleaving_config =
  pic_method :: int
  pic_algorithm_ids :: "string list"
  pic_max_list_size :: int

record proto_session_config =
  pss_session_id_attribute :: string
  pss_allow_cross_session_variation :: bool
  pss_min_sessions_per_user :: int

record proto_bandit_config =
  pbc_algorithm :: int
  pbc_reward_metric_id :: string
  pbc_min_exploration_fraction :: f64

record proto_adaptive_config =
  pac_interim_fraction :: f64
  pac_promising_zone_lower :: f64
  pac_favorable_zone_lower :: f64
  pac_max_extension_factor :: f64

text \<open>The fields that only M5 reads extend the part of the message that M1 reads; fields nobody reads are left out.\<close>

record m5_experiment = proto_experiment +
  px_description :: string
  px_owner_email :: string
  px_primary_metric_id :: string
  px_secondary_metric_ids :: "string list"
  px_guardrail_configs :: "proto_guardrail_config list"
  px_guardrail_action :: int
  px_sequential_test_config :: "proto_sequential_config option"
  px_targeting_rule_id :: string
  px_created_at :: "int option"
  px_started_at :: "int option"
  px_concluded_at :: "int option"
  px_interleaving_config :: "proto_interleaving_config option"
  px_session_config :: "proto_session_config option"
  px_surrogate_model_id :: string
  px_bandit_config :: "proto_bandit_config option"
  px_meta_experiment_config :: "proto_meta_config option"
  px_switchback_config :: "proto_switchback_config option"
  px_quasi_experiment_config :: "proto_quasi_config option"
  px_adaptive_sample_size_config :: "proto_adaptive_config option"
  px_equivalence_test :: "proto_equivalence_config option"
  px_audience_rule_id :: string

datatype metric_type =
    MtUnspecified | MtMean | MtProportion | MtRatio | MtCount | MtPercentile | MtCustom
  | MtFilteredMean | MtComposite | MtWindowedCount | MtMetricql

section \<open>Errors\<close>

datatype start_error =
    MetaConfigMissing
  | MetaAlgorithmInvalid
  | MetaNoOutcomeMetric
  | MetaObjectiveCount nat nat
  | MetaNoWeights string
  | MetaWeightNonFinite string string
  | MetaWeightSum string f64
  | SwitchbackConfigMissing
  | SwitchbackCycles int
  | SwitchbackBlock int
  | QuasiConfigMissing
  | QuasiNoTreatedUnit
  | QuasiDonors nat
  | QuasiNoOutcomeMetric
  | QuasiOrder
  | QuasiNoPreTreatment
  | QuasiNoTreatment
  | EquivalenceDelta f64
  | EquivalenceAlpha f64
  | EquivalenceRelative f64
  | EquivalenceRelativeType metric_type

section \<open>Library functions\<close>

text \<open>\<^verbatim>\<open>s.trim().is_empty()\<close>: every character of the UTF-8 string has the property White\_Space.\<close>

fun all_whitespace :: "string \<Rightarrow> bool" where
  "all_whitespace [] = True"
| "all_whitespace (c # cs) =
     (if c \<in> {CHR 0x09, CHR 0x0A, CHR 0x0B, CHR 0x0C, CHR 0x0D, CHR 0x20} then all_whitespace cs
      else case cs of
        [] \<Rightarrow> False
      | d # ds \<Rightarrow>
          if c = CHR 0xC2 \<and> d \<in> {CHR 0x85, CHR 0xA0} then all_whitespace ds
          else case ds of
            [] \<Rightarrow> False
          | e # es \<Rightarrow>
              if (c = CHR 0xE1 \<and> d = CHR 0x9A \<and> e = CHR 0x80) \<or>
                 (c = CHR 0xE2 \<and> d = CHR 0x80 \<and>
                  (CHR 0x80 \<le> e \<and> e \<le> CHR 0x8A \<or> e \<in> {CHR 0xA8, CHR 0xA9, CHR 0xAF})) \<or>
                 (c = CHR 0xE2 \<and> d = CHR 0x81 \<and> e = CHR 0x9F) \<or>
                 (c = CHR 0xE3 \<and> d = CHR 0x80 \<and> e = CHR 0x80)
              then all_whitespace es else False)"

text \<open>Every entry of a map once, in some order.\<close>

definition hash_map_entries :: "(('k, 'v) hash_map \<Rightarrow> ('k \<times> 'v) list) \<Rightarrow> bool" where
  "hash_map_entries ents \<longleftrightarrow>
     (\<forall>m. finite (dom m) \<longrightarrow> (\<exists>ks. distinct ks \<and> set ks = dom m \<and> ents m = map (\<lambda>k. (k, the (m k))) ks))"

section \<open>META\<close>

type_synonym weight_entries = "(string, f64) hash_map \<Rightarrow> (string \<times> f64) list"

text \<open>\<^verbatim>\<open>BanditAlgorithm::try_from(n).unwrap_or(Unspecified) == Unspecified\<close>: the known numbers are 0 to 6.\<close>

definition algorithm_unspecified :: "int \<Rightarrow> bool" where
  "algorithm_unspecified n \<longleftrightarrow> n \<notin> {1..6}"

definition validate_objective :: "weight_entries \<Rightarrow> proto_meta_objective \<Rightarrow> (start_error, unit) outcome" where
  "validate_objective entries obj =
     (let ws = entries (pmo_reward_weights obj)
      in if ws = [] then Err (MetaNoWeights (pmo_variant_id obj))
         else case find (\<lambda>(key, w). \<not> is_finite w) ws of
                Some (key, w) \<Rightarrow> Err (MetaWeightNonFinite (pmo_variant_id obj) key)
              | None \<Rightarrow>
                  (let s = foldl f64_add (Fin 0) (map snd ws)
                   in if f64_lt (f64_round (1 / 1000000)) (f64_abs (f64_sub s (Fin 1)))
                      then Err (MetaWeightSum (pmo_variant_id obj) s) else Ok ()))"

fun validate_objectives :: "weight_entries \<Rightarrow> proto_meta_objective list \<Rightarrow> (start_error, unit) outcome" where
  "validate_objectives entries [] = Ok ()"
| "validate_objectives entries (obj # objs) = obind (validate_objective entries obj) (\<lambda>_. validate_objectives entries objs)"

definition validate_meta_config :: "weight_entries \<Rightarrow> proto_meta_config \<Rightarrow> string list \<Rightarrow> (start_error, unit) outcome" where
  "validate_meta_config entries cfg variant_ids =
     (if algorithm_unspecified (pmc_base_algorithm cfg) then Err MetaAlgorithmInvalid
      else if pmc_outcome_metric_ids cfg = [] then Err MetaNoOutcomeMetric
      else if length (pmc_variant_objectives cfg) \<noteq> length variant_ids
      then Err (MetaObjectiveCount (length (pmc_variant_objectives cfg)) (length variant_ids))
      else validate_objectives entries (pmc_variant_objectives cfg))"

definition validate_meta :: "weight_entries \<Rightarrow> m5_experiment \<Rightarrow> (start_error, unit) outcome" where
  "validate_meta entries e =
     obind (ok_or MetaConfigMissing (px_meta_experiment_config e)) (\<lambda>cfg.
       validate_meta_config entries cfg (map pv_variant_id (pe_variants e)))"

section \<open>SWITCHBACK\<close>

definition validate_switchback_config :: "proto_switchback_config \<Rightarrow> (start_error, unit) outcome" where
  "validate_switchback_config cfg =
     (if psc_planned_cycles cfg < 4 then Err (SwitchbackCycles (psc_planned_cycles cfg))
      else
        let block_secs = unwrap_or 0 (map_option du_seconds (psc_block_duration cfg))
        in if block_secs < 3600 then Err (SwitchbackBlock block_secs) else Ok ())"

definition validate_switchback :: "m5_experiment \<Rightarrow> (start_error, unit) outcome" where
  "validate_switchback e =
     obind (ok_or SwitchbackConfigMissing (px_switchback_config e)) validate_switchback_config"

section \<open>QUASI\<close>

text \<open>\<^verbatim>\<open>seconds * 1_000_000_000 + nanos as i64\<close> wraps at 64 bits.\<close>

definition timestamp_ns :: "proto_duration \<Rightarrow> i64" where
  "timestamp_ns t = word_of_int (du_seconds t) * 1000000000 + word_of_int (du_nanos t)"

definition validate_quasi_config :: "proto_quasi_config \<Rightarrow> (start_error, unit) outcome" where
  "validate_quasi_config cfg =
     (if all_whitespace (pqc_treated_unit_id cfg) then Err QuasiNoTreatedUnit
      else if length (pqc_donor_unit_ids cfg) < 2 then Err (QuasiDonors (length (pqc_donor_unit_ids cfg)))
      else if all_whitespace (pqc_outcome_metric_id cfg) then Err QuasiNoOutcomeMetric
      else case (pqc_pre_treatment_start cfg, pqc_treatment_start cfg) of
             (Some pre, Some treat) \<Rightarrow>
               if sint (timestamp_ns pre) \<ge> sint (timestamp_ns treat) then Err QuasiOrder else Ok ()
           | (None, _) \<Rightarrow> Err QuasiNoPreTreatment
           | (_, None) \<Rightarrow> Err QuasiNoTreatment)"

definition validate_quasi :: "m5_experiment \<Rightarrow> (start_error, unit) outcome" where
  "validate_quasi e = obind (ok_or QuasiConfigMissing (px_quasi_experiment_config e)) validate_quasi_config"

section \<open>Equivalence test and entry point\<close>

definition validate_equivalence_test_config ::
  "proto_equivalence_config \<Rightarrow> metric_type option \<Rightarrow> (start_error, unit) outcome" where
  "validate_equivalence_test_config cfg primary_metric_type =
     (if \<not> (is_finite (peq_delta cfg) \<and> f64_lt (Fin 0) (peq_delta cfg)) then Err (EquivalenceDelta (peq_delta cfg))
      else if \<not> f64_eq (peq_alpha cfg) (Fin 0) \<and> \<not> (f64_lt (Fin 0) (peq_alpha cfg) \<and> f64_lt (peq_alpha cfg) (Fin (1 / 2)))
      then Err (EquivalenceAlpha (peq_alpha cfg))
      else case peq_delta_relative cfg of
             None \<Rightarrow> Ok ()
           | Some rel \<Rightarrow>
               if \<not> (is_finite rel \<and> f64_lt (Fin 0) rel) then Err (EquivalenceRelative rel)
               else case primary_metric_type of
                      None \<Rightarrow> Ok ()
                    | Some mt \<Rightarrow> if mt \<noteq> MtMean \<and> mt \<noteq> MtRatio then Err (EquivalenceRelativeType mt) else Ok ())"

definition validate_starting :: "weight_entries \<Rightarrow> m5_experiment \<Rightarrow> (start_error, unit) outcome" where
  "validate_starting entries e =
     obind (if pe_type e = 9 then validate_meta entries e
            else if pe_type e = 10 then validate_switchback e
            else if pe_type e = 11 then validate_quasi e
            else Ok ()) (\<lambda>_.
       case px_equivalence_test e of
         Some eq \<Rightarrow> validate_equivalence_test_config eq None
       | None \<Rightarrow> Ok ())"

section \<open>Facts\<close>

lemma validate_objectives_Ok: "validate_objectives ents objs = Ok () \<longleftrightarrow> (\<forall>obj \<in> set objs. validate_objective ents obj = Ok ())"
  by (induction objs) (auto simp: outcome_simps)

lemma validate_objective_Ok:
  "validate_objective ents obj = Ok () \<Longrightarrow>
     ents (pmo_reward_weights obj) \<noteq> [] \<and> (\<forall>(k, w) \<in> set (ents (pmo_reward_weights obj)). is_finite w) \<and>
     \<not> f64_lt (f64_round (1 / 1000000)) (f64_abs (f64_sub (foldl f64_add (Fin 0) (map snd (ents (pmo_reward_weights obj)))) (Fin 1)))"
  by (auto simp: validate_objective_def Let_def find_None_iff split: if_splits option.splits)

lemma sint_i64: "- (2 ^ 63) \<le> i \<Longrightarrow> i < 2 ^ 63 \<Longrightarrow> sint (word_of_int i :: i64) = i"
  by (simp add: sint_sbintrunc' signed_take_bit_int_eq_self)

section \<open>Properties\<close>

text \<open>
  A META configuration that passes the gate names a known bandit algorithm, at least one outcome metric and one objective per variant, and the reward weights of every objective are present, finite and sum, in the order they are added up, to a number that is not more than one millionth away from 1.
\<close>

theorem meta_gate_sound:
  assumes "validate_meta entries e = Ok ()" "hash_map_entries entries"
  shows "\<exists>cfg. px_meta_experiment_config e = Some cfg \<and> 1 \<le> pmc_base_algorithm cfg \<and> pmc_base_algorithm cfg \<le> 6 \<and>
    pmc_outcome_metric_ids cfg \<noteq> [] \<and> length (pmc_variant_objectives cfg) = length (pe_variants e) \<and>
    (\<forall>obj \<in> set (pmc_variant_objectives cfg). \<forall>k w. finite (dom (pmo_reward_weights obj)) \<longrightarrow>
       pmo_reward_weights obj k = Some w \<longrightarrow> is_finite w) \<and>
    (\<forall>obj \<in> set (pmc_variant_objectives cfg). entries (pmo_reward_weights obj) \<noteq> [] \<and>
       \<not> f64_lt (f64_round (1 / 1000000))
           (f64_abs (f64_sub (foldl f64_add (Fin 0) (map snd (entries (pmo_reward_weights obj)))) (Fin 1))))"
proof -
  from assms(1) obtain cfg where cfg: "px_meta_experiment_config e = Some cfg"
      "validate_meta_config entries cfg (map pv_variant_id (pe_variants e)) = Ok ()"
    by (auto simp: validate_meta_def outcome_simps)
  then have objs: "validate_objective entries obj = Ok ()" if "obj \<in> set (pmc_variant_objectives cfg)" for obj
    using that by (auto simp: validate_meta_config_def validate_objectives_Ok split: if_splits)
  have "is_finite w" if "obj \<in> set (pmc_variant_objectives cfg)" "finite (dom (pmo_reward_weights obj))"
      "pmo_reward_weights obj k = Some w" for obj k w
  proof -
    from assms(2) that(2) obtain ks where ks: "set ks = dom (pmo_reward_weights obj)"
        "entries (pmo_reward_weights obj) = map (\<lambda>k. (k, the (pmo_reward_weights obj k))) ks"
      unfolding hash_map_entries_def by blast
    with that(3) have "(k, w) \<in> set (entries (pmo_reward_weights obj))" by (force simp: image_iff)
    with validate_objective_Ok [OF objs [OF that(1)]] show ?thesis by blast
  qed
  with cfg objs show ?thesis
    using validate_objective_Ok
    by (intro exI [of _ cfg]) (auto simp: validate_meta_config_def algorithm_unspecified_def split: if_splits)
qed

definition sorted_entries :: "(string, 'v) hash_map \<Rightarrow> (string \<times> 'v) list" where
  "sorted_entries m = map (\<lambda>k. (k, the (m k))) (sorted_list_of_set (dom m))"

lemma sorted_entries_ok: "hash_map_entries sorted_entries"
  unfolding hash_map_entries_def sorted_entries_def
  by (intro allI impI, rule_tac x = "sorted_list_of_set (dom m)" in exI) simp

definition sample_m5_experiment :: "int \<Rightarrow> m5_experiment" where
  "sample_m5_experiment ty =
     \<lparr>pe_experiment_id = ''x'', pe_name = ''n'', pe_state = 2, pe_type = ty, pe_hash_salt = ''s1'', pe_layer_id = ''L'',
      pe_variants = [\<lparr>pv_variant_id = ''v'', pv_name = ''n'', pv_traffic_fraction = Fin 1, pv_is_control = True, pv_payload_json = ''{}''\<rparr>],
      pe_is_cumulative_holdout = False, px_description = [], px_owner_email = ''o'', px_primary_metric_id = ''m'',
      px_secondary_metric_ids = [], px_guardrail_configs = [], px_guardrail_action = 1, px_sequential_test_config = None, px_targeting_rule_id = [], px_created_at = Some 0,
      px_started_at = None, px_concluded_at = None, px_interleaving_config = None, px_session_config = None, px_surrogate_model_id = [],
      px_bandit_config = None,
      px_meta_experiment_config = Some \<lparr>pmc_base_algorithm = 1,
        pmc_variant_objectives = [\<lparr>pmo_variant_id = ''v'', pmo_reward_weights = [''m'' \<mapsto> Fin 1]\<rparr>], pmc_outcome_metric_ids = [''m'']\<rparr>,
      px_switchback_config = None, px_quasi_experiment_config = None,
      px_adaptive_sample_size_config = None, px_equivalence_test = None, px_audience_rule_id = []\<rparr>"

lemma sample_meta_valid: "validate_meta sorted_entries (sample_m5_experiment 9) = Ok ()"
proof -
  have one: "f64_round 1 = Fin 1" and zero: "f64_round 0 = Fin 0"
    using f64_round_of_int [of 1] f64_round_of_int [of 0] by simp_all
  have tol: "\<not> f64_lt (f64_round (1 / 1000000)) (Fin 0)"
    using f64_round_nonneg [of "1 / 1000000"] by auto
  have "sorted_entries [''m'' \<mapsto> Fin 1] = [(''m'', Fin 1)]" by (simp add: sorted_entries_def)
  then have "validate_objective sorted_entries \<lparr>pmo_variant_id = ''v'', pmo_reward_weights = [''m'' \<mapsto> Fin 1]\<rparr> = Ok ()"
    using one zero tol by (simp add: validate_objective_def Let_def f64_sub_def)
  then show ?thesis
    by (simp add: validate_meta_def sample_m5_experiment_def validate_meta_config_def algorithm_unspecified_def)
qed

theorem meta_gate_sound_witness:
  "\<exists>cfg. px_meta_experiment_config (sample_m5_experiment 9) = Some cfg \<and> pmc_outcome_metric_ids cfg \<noteq> []"
  using meta_gate_sound [OF sample_meta_valid sorted_entries_ok] by blast

text \<open>
  The temporal check of the QUASI gate is exact for timestamps between the years 1678 and 2262: with nanoseconds in range, the configuration is rejected as out of order exactly when the pre-treatment start is not before the treatment start.
\<close>

theorem quasi_order_exact:
  assumes "\<bar>du_seconds pre\<bar> \<le> 9223372035" "\<bar>du_seconds treat\<bar> \<le> 9223372035"
    and "0 \<le> du_nanos pre" "du_nanos pre < 1000000000" "0 \<le> du_nanos treat" "du_nanos treat < 1000000000"
    and "pqc_pre_treatment_start cfg = Some pre" "pqc_treatment_start cfg = Some treat"
    and "\<not> all_whitespace (pqc_treated_unit_id cfg)" "2 \<le> length (pqc_donor_unit_ids cfg)" "\<not> all_whitespace (pqc_outcome_metric_id cfg)"
  shows "validate_quasi_config cfg = Err QuasiOrder \<longleftrightarrow>
    \<not> (du_seconds pre < du_seconds treat \<or> du_seconds pre = du_seconds treat \<and> du_nanos pre < du_nanos treat)"
proof -
  have ns: "sint (timestamp_ns t) = du_seconds t * 1000000000 + du_nanos t"
    if "\<bar>du_seconds t\<bar> \<le> 9223372035" "0 \<le> du_nanos t" "du_nanos t < 1000000000" for t
  proof -
    have "timestamp_ns t = word_of_int (du_seconds t * 1000000000 + du_nanos t)"
      by (simp add: timestamp_ns_def)
    moreover have "- (2 ^ 63) \<le> du_seconds t * 1000000000 + du_nanos t" "du_seconds t * 1000000000 + du_nanos t < 2 ^ 63"
      using that by auto
    ultimately show ?thesis using sint_i64 by metis
  qed
  have "validate_quasi_config cfg = Err QuasiOrder \<longleftrightarrow> sint (timestamp_ns pre) \<ge> sint (timestamp_ns treat)"
    using assms(7-11) by (simp add: validate_quasi_config_def)
  also have "\<dots> \<longleftrightarrow> du_seconds pre * 1000000000 + du_nanos pre \<ge> du_seconds treat * 1000000000 + du_nanos treat"
    using ns [of pre] ns [of treat] assms(1-6) by simp
  also have "\<dots> \<longleftrightarrow> \<not> (du_seconds pre < du_seconds treat \<or> du_seconds pre = du_seconds treat \<and> du_nanos pre < du_nanos treat)"
    using assms(3-6) by auto
  finally show ?thesis .
qed

theorem quasi_order_exact_witness:
  "validate_quasi_config \<lparr>pqc_treated_unit_id = ''us'', pqc_donor_unit_ids = [''a'', ''b''],
      pqc_pre_treatment_start = Some \<lparr>du_seconds = 7, du_nanos = 0\<rparr>, pqc_treatment_start = Some \<lparr>du_seconds = 7, du_nanos = 0\<rparr>,
      pqc_outcome_metric_id = ''m'', pqc_method = 1\<rparr> = Err QuasiOrder"
  using quasi_order_exact [of "\<lparr>du_seconds = 7, du_nanos = 0\<rparr>" "\<lparr>du_seconds = 7, du_nanos = 0\<rparr>"
      "\<lparr>pqc_treated_unit_id = ''us'', pqc_donor_unit_ids = [''a'', ''b''],
      pqc_pre_treatment_start = Some \<lparr>du_seconds = 7, du_nanos = 0\<rparr>, pqc_treatment_start = Some \<lparr>du_seconds = 7, du_nanos = 0\<rparr>,
      pqc_outcome_metric_id = ''m'', pqc_method = 1\<rparr>"]
  by simp

end
