(* ===== verification/Management_Service.thy ===== *)
theory Management_Service
  imports Lifecycle Bucket_Reuse Start_Validators
begin

text \<open>
  The lifecycle handlers of the management service M5 (\<^verbatim>\<open>grpc.rs\<close>): start, pause, resume, conclude and
  archive, each a sequence of store statements with audit entries and a published configuration event,
  and the stream of configuration events that M1 subscribes to. Third-party functions (parsing of UUIDs,
  rendering of JSON and of the validation messages, iteration order of hash maps) are the parameters
  collected in \<open>m5_env\<close>.
\<close>

section \<open>State\<close>

record config_update_event =
  ev_experiment :: "m5_experiment option"
  ev_is_deletion :: bool
  ev_version :: int

text \<open>
  \<open>m5_events\<close> is what was sent on the broadcast channel, oldest first; \<open>m5_spawned\<close> holds the release
  tasks that \<^verbatim>\<open>tokio::spawn\<close> has started and that have not run yet.
\<close>

record m5 =
  m5_db :: database
  m5_version :: int
  m5_events :: "config_update_event list"
  m5_spawned :: "(uuid \<times> uuid) list"

record m5_env =
  env_parse_uuid :: "string \<Rightarrow> uuid option"
  env_entries :: weight_entries
  env_start_message :: "start_error \<Rightarrow> string"
  env_json_reason :: "string \<Rightarrow> string"

type_synonym 'a handler = "m5 \<Rightarrow> (status, 'a) outcome \<times> m5"

definition hbind :: "'a handler \<Rightarrow> ('a \<Rightarrow> 'b handler) \<Rightarrow> 'b handler" where
  "hbind m k s = (case m s of (Ok x, s') \<Rightarrow> k x s' | (Err e, s') \<Rightarrow> (Err e, s') | (Panic, s') \<Rightarrow> (Panic, s'))"

definition hreturn :: "(status, 'a) outcome \<Rightarrow> 'a handler" where
  "hreturn x s = (x, s)"

fun store_err_to_status :: "store_error \<Rightarrow> status" where
  "store_err_to_status (StoreNotFound msg) = Status NotFound msg"
| "store_err_to_status (StoreAlreadyExists msg) = Status AlreadyExists msg"
| "store_err_to_status (StoreDb e) = Status Internal (''database error: '' @ e)"

definition store :: "(store_error, 'a) db_op \<Rightarrow> 'a handler" where
  "store op s = (case dmap_err store_err_to_status op (m5_db s) of (r, db) \<Rightarrow> (r, s\<lparr>m5_db := db\<rparr>))"

definition store_ignored :: "(store_error, 'a) db_op \<Rightarrow> unit handler" where
  "store_ignored op s = (Ok (), s\<lparr>m5_db := snd (op (m5_db s))\<rparr>)"

definition publish_event :: "m5_experiment \<Rightarrow> bool \<Rightarrow> unit handler" where
  "publish_event e is_deletion s =
     (Ok (), s\<lparr>m5_version := m5_version s + 1,
               m5_events := m5_events s @ [\<lparr>ev_experiment = Some e, ev_is_deletion = is_deletion, ev_version = m5_version s\<rparr>]\<rparr>)"

section \<open>Rows to messages\<close>

definition proto_state :: "string \<Rightarrow> int" where
  "proto_state st =
     (if st = ''DRAFT'' then 1 else if st = ''STARTING'' then 2 else if st = ''RUNNING'' then 3
      else if st = ''PAUSED'' then 7 else if st = ''CONCLUDING'' then 4 else if st = ''CONCLUDED'' then 5
      else if st = ''ARCHIVED'' then 6 else 0)"

definition proto_type :: "string \<Rightarrow> int" where
  "proto_type ty =
     (if ty = ''AB'' then 1 else if ty = ''MULTIVARIATE'' then 2 else if ty = ''INTERLEAVING'' then 3
      else if ty = ''SESSION_LEVEL'' then 4 else if ty = ''PLAYBACK_QOE'' then 5 else if ty = ''MAB'' then 6
      else if ty = ''CONTEXTUAL_BANDIT'' then 7 else if ty = ''CUMULATIVE_HOLDOUT'' then 8 else if ty = ''META'' then 9
      else if ty = ''SWITCHBACK'' then 10 else if ty = ''QUASI'' then 11 else 0)"

definition proto_guardrail_action :: "string \<Rightarrow> int" where
  "proto_guardrail_action a = (if a = ''AUTO_PAUSE'' then 1 else if a = ''ALERT_ONLY'' then 2 else 0)"

definition variant_row_to_proto :: "variant_row \<Rightarrow> proto_variant" where
  "variant_row_to_proto v =
     \<lparr>pv_variant_id = vr_variant_id v, pv_name = vr_name v, pv_traffic_fraction = vr_traffic_fraction v,
      pv_is_control = vr_is_control v, pv_payload_json = vr_payload_json v\<rparr>"

text \<open>\<^verbatim>\<open>..Default::default()\<close> leaves every type-specific configuration unset.\<close>

definition experiment_row_to_proto :: "experiment_row \<Rightarrow> variant_row list \<Rightarrow> m5_experiment" where
  "experiment_row_to_proto row variants =
     \<lparr>pe_experiment_id = er_experiment_id row, pe_name = er_name row, pe_state = proto_state (er_state row),
      pe_type = proto_type (er_experiment_type row), pe_hash_salt = er_hash_salt row, pe_layer_id = er_layer_id row,
      pe_variants = map variant_row_to_proto variants, pe_is_cumulative_holdout = er_is_cumulative_holdout row,
      px_description = unwrap_or [] (er_description row), px_owner_email = er_owner_email row,
      px_primary_metric_id = er_primary_metric_id row, px_secondary_metric_ids = er_secondary_metric_ids row, px_guardrail_configs = [],
      px_guardrail_action = proto_guardrail_action (er_guardrail_action row), px_sequential_test_config = None,
      px_targeting_rule_id = unwrap_or [] (er_targeting_rule_id row),
      px_created_at = Some (er_created_at row), px_started_at = er_started_at row, px_concluded_at = er_concluded_at row,
      px_interleaving_config = None, px_session_config = None, px_surrogate_model_id = [], px_bandit_config = None,
      px_meta_experiment_config = None, px_switchback_config = None, px_quasi_experiment_config = None,
      px_adaptive_sample_size_config = None, px_equivalence_test = None, px_audience_rule_id = []\<rparr>"

section \<open>Lifecycle handlers\<close>

definition parse_id :: "m5_env \<Rightarrow> string \<Rightarrow> uuid handler" where
  "parse_id env req = hreturn (ok_or (Status InvalidArgument ''invalid experiment_id UUID'') (env_parse_uuid env req))"

definition wrong_state :: "uuid \<Rightarrow> string \<Rightarrow> 'a handler" where
  "wrong_state id0 must =
     hbind (store (get_experiment id0)) (\<lambda>row.
       hreturn (Err (Status FailedPrecondition (''experiment '' @ id0 @ '' is in state '' @ er_state row @ must))))"

text \<open>Steps 3 and 4 of \<open>start_experiment\<close>: validate, then either revert to DRAFT or go on to RUNNING.\<close>

definition finish_start :: "m5_env \<Rightarrow> uuid \<Rightarrow> experiment_row \<Rightarrow> variant_row list \<Rightarrow> m5_experiment handler" where
  "finish_start env id0 row variants =
     (case validate_starting (env_entries env) (experiment_row_to_proto row variants) of
        Err e \<Rightarrow>
          hbind (store_ignored (revert_to_draft id0)) (\<lambda>_.
          hbind (store_ignored (record_audit id0 ''start_failed_validation'' ''system'' (Some ''STARTING'') (Some ''DRAFT'')
                   (env_json_reason env (env_start_message env e)))) (\<lambda>_.
            hreturn (Err (Status FailedPrecondition (env_start_message env e)))))
      | Panic \<Rightarrow> hreturn Panic
      | Ok _ \<Rightarrow>
          hbind (store (run_transition id0)) (\<lambda>rows.
            if rows = 0
            then hreturn (Err (Status Aborted (''concurrent transition conflict during STARTING'' @
                   [CHR 0xE2, CHR 0x86, CHR 0x92] @ ''RUNNING'')))
            else
              hbind (store (get_experiment id0)) (\<lambda>row.
              hbind (store_ignored (record_audit id0 ''start'' (er_owner_email row) (Some ''DRAFT'') (Some ''RUNNING'') ''{}'')) (\<lambda>_.
                let proto = experiment_row_to_proto row variants
                in hbind (publish_event proto False) (\<lambda>_. hreturn (Ok proto))))))"

definition start_experiment :: "m5_env \<Rightarrow> string \<Rightarrow> m5_experiment handler" where
  "start_experiment env req =
     hbind (parse_id env req) (\<lambda>id0.
     hbind (store (start_transition id0)) (\<lambda>rows.
       if rows = 0 then wrong_state id0 '' (must be DRAFT to start)''
       else
         hbind (store (get_experiment id0)) (\<lambda>row.
         hbind (store (get_variants id0)) (\<lambda>variants.
           finish_start env id0 row variants))))"

definition conclude_experiment :: "m5_env \<Rightarrow> string \<Rightarrow> m5_experiment handler" where
  "conclude_experiment env req =
     hbind (parse_id env req) (\<lambda>id0.
     hbind (store (conclude_transition id0)) (\<lambda>rows.
       if rows = 0 then wrong_state id0 '' (must be RUNNING or PAUSED to conclude)''
       else
         hbind (store_ignored (mark_concluded id0)) (\<lambda>_.
         hbind (store (get_experiment id0)) (\<lambda>row.
         hbind (store (get_variants id0)) (\<lambda>variants.
         hbind (store_ignored (record_audit id0 ''conclude'' (er_owner_email row) (Some ''RUNNING'') (Some ''CONCLUDED'') ''{}'')) (\<lambda>_.
           let proto = experiment_row_to_proto row variants
           in hbind (publish_event proto True) (\<lambda>_. hreturn (Ok proto))))))))"

definition archive_experiment :: "m5_env \<Rightarrow> string \<Rightarrow> m5_experiment handler" where
  "archive_experiment env req =
     hbind (parse_id env req) (\<lambda>id0.
     hbind (store (archive_transition id0)) (\<lambda>rows.
       if rows = 0 then wrong_state id0 '' (must be CONCLUDED to archive)''
       else
         hbind (store (get_experiment id0)) (\<lambda>row.
         hbind (store (get_variants id0)) (\<lambda>variants.
         hbind (store_ignored (record_audit id0 ''archive'' (er_owner_email row) (Some ''CONCLUDED'') (Some ''ARCHIVED'') ''{}'')) (\<lambda>_.
           let proto = experiment_row_to_proto row variants
           in hbind (publish_event proto True) (\<lambda>_.
                \<lambda>s. (Ok proto, s\<lparr>m5_spawned := m5_spawned s @ [(er_layer_id row, id0)]\<rparr>)))))))"

definition pause_experiment :: "m5_env \<Rightarrow> string \<Rightarrow> bool \<Rightarrow> string \<Rightarrow> m5_experiment handler" where
  "pause_experiment env req is_guardrail_auto_pause req_reason =
     hbind (parse_id env req) (\<lambda>id0.
       let reason = (if is_guardrail_auto_pause then ''guardrail_auto_pause: '' @ req_reason else ''manual_pause: '' @ req_reason)
       in hbind (store (pause_transition id0 reason)) (\<lambda>rows.
       if rows = 0 then wrong_state id0 '' (must be RUNNING to pause)''
       else
         hbind (store (get_experiment id0)) (\<lambda>row.
         hbind (store (get_variants id0)) (\<lambda>variants.
           let action = (if is_guardrail_auto_pause then ''guardrail_auto_pause'' else ''pause'')
           in hbind (store_ignored (record_audit id0 action (er_owner_email row) (Some ''RUNNING'') (Some ''PAUSED'')
                       (env_json_reason env reason))) (\<lambda>_.
                let proto = experiment_row_to_proto row variants
                in hbind (publish_event proto False) (\<lambda>_. hreturn (Ok proto)))))))"

definition resume_experiment :: "m5_env \<Rightarrow> string \<Rightarrow> m5_experiment handler" where
  "resume_experiment env req =
     hbind (parse_id env req) (\<lambda>id0.
     hbind (store (resume_transition id0)) (\<lambda>rows.
       if rows = 0 then wrong_state id0 '' (must be PAUSED to resume)''
       else
         hbind (store (get_experiment id0)) (\<lambda>row.
         hbind (store (get_variants id0)) (\<lambda>variants.
         hbind (store_ignored (record_audit id0 ''resume'' (er_owner_email row) (Some ''PAUSED'') (Some ''RUNNING'') ''{}'')) (\<lambda>_.
           let proto = experiment_row_to_proto row variants
           in hbind (publish_event proto False) (\<lambda>_. hreturn (Ok proto)))))))"

text \<open>The spawned task of \<open>archive_experiment\<close>; its error is only logged.\<close>

definition run_spawned :: "m5 \<Rightarrow> m5" where
  "run_spawned s =
     (case m5_spawned s of
        [] \<Rightarrow> s
      | (layer_id, id0) # rest \<Rightarrow> s\<lparr>m5_db := snd (release layer_id id0 (m5_db s)), m5_spawned := rest\<rparr>)"

section \<open>The configuration stream\<close>

text \<open>
  The backfill: all active experiments when the client's version is behind; a failing variants query
  skips its experiment, a failing list query sends nothing.
\<close>

fun backfill_events :: "int \<Rightarrow> experiment_row list \<Rightarrow> database \<Rightarrow> config_update_event list \<times> database" where
  "backfill_events version [] db = ([], db)"
| "backfill_events version (row # rows) db =
     (case get_variants (er_experiment_id row) db of
        (Ok variants, db') \<Rightarrow>
          (let (evs, db'') = backfill_events version rows db'
           in (\<lparr>ev_experiment = Some (experiment_row_to_proto row variants), ev_is_deletion = False, ev_version = version\<rparr> # evs, db''))
      | (_, db') \<Rightarrow> backfill_events version rows db')"

definition stream_backfill :: "int \<Rightarrow> m5 \<Rightarrow> config_update_event list \<times> m5" where
  "stream_backfill last_known_version s =
     (let current_version = m5_version s
      in if last_known_version < current_version
         then case list_active_experiments (m5_db s) of
                (Ok rows, db) \<Rightarrow> (let (evs, db') = backfill_events current_version rows db in (evs, s\<lparr>m5_db := db'\<rparr>))
              | (_, db) \<Rightarrow> ([], s\<lparr>m5_db := db\<rparr>)
         else ([], s))"

datatype broadcast_recv = Received config_update_event | Lagged nat | Closed

text \<open>The live loop: events are forwarded, lost ones are only counted in the log, a closed channel ends the stream.\<close>

fun stream_live :: "broadcast_recv list \<Rightarrow> config_update_event list" where
  "stream_live [] = []"
| "stream_live (Received ev # rs) = ev # stream_live rs"
| "stream_live (Lagged n # rs) = stream_live rs"
| "stream_live (Closed # rs) = []"

section \<open>Reasoning about handlers\<close>

lemma snd_store [simp]: "snd (store op s) = s\<lparr>m5_db := snd (op (m5_db s))\<rparr>"
  by (simp add: store_def case_prod_beta)

lemma snd_store_ignored [simp]: "snd (store_ignored op s) = s\<lparr>m5_db := snd (op (m5_db s))\<rparr>"
  by (simp add: store_ignored_def)

definition keeps :: "(m5 \<Rightarrow> bool) \<Rightarrow> 'a handler \<Rightarrow> bool" where
  "keeps K h \<longleftrightarrow> (\<forall>s. K s \<longrightarrow> K (snd (h s)))"

lemma keeps_hbind: "keeps K m \<Longrightarrow> (\<And>x. keeps K (k x)) \<Longrightarrow> keeps K (hbind m k)"
  unfolding keeps_def
proof (intro allI impI)
  fix s
  assume m: "\<forall>s. K s \<longrightarrow> K (snd (m s))" and k: "\<And>x. \<forall>s. K s \<longrightarrow> K (snd (k x s))" and "K s"
  then have "K (snd (m s))" by blast
  then show "K (snd (hbind m k s))"
    using k by (cases "m s"; cases "fst (m s)") (auto simp: hbind_def)
qed

lemma keeps_hreturn: "keeps K (hreturn x)"
  by (simp add: keeps_def hreturn_def)

lemma keeps_parse: "(\<And>x. env_parse_uuid env req = Some x \<Longrightarrow> keeps K (k x)) \<Longrightarrow> keeps K (hbind (parse_id env req) k)"
  by (cases "env_parse_uuid env req") (auto simp: keeps_def hbind_def parse_id_def hreturn_def)

text \<open>
  The database changes a handler for an experiment in \<open>A\<close> makes: lifecycle statements for it, and
  statements that leave the experiments and their variants alone.
\<close>

inductive db_step :: "uuid set \<Rightarrow> database \<Rightarrow> database \<Rightarrow> bool" for A where
  "x \<in> A \<Longrightarrow> db_step A db (snd (start_transition x db))"
| "x \<in> A \<Longrightarrow> db_step A db (snd (run_transition x db))"
| "x \<in> A \<Longrightarrow> db_step A db (snd (revert_to_draft x db))"
| "x \<in> A \<Longrightarrow> db_step A db (snd (pause_transition x reason db))"
| "x \<in> A \<Longrightarrow> db_step A db (snd (resume_transition x db))"
| "x \<in> A \<Longrightarrow> db_step A db (snd (conclude_transition x db))"
| "x \<in> A \<Longrightarrow> db_step A db (snd (mark_concluded x db))"
| "x \<in> A \<Longrightarrow> db_step A db (snd (archive_transition x db))"
| "db_experiments db' = db_experiments db \<Longrightarrow> db_variants db' = db_variants db \<Longrightarrow> db_step A db db'"

lemma db_step_cases: "db_step A db db' \<Longrightarrow> store_step db db' \<or> db_experiments db' = db_experiments db"
  by (induction rule: db_step.induct) (auto intro: store_step.intros)

lemma update_frame: "y \<noteq> x \<Longrightarrow> db_experiments (snd (query (update_experiments x g u) db)) y = db_experiments db y"
  by (cases rule: query_cases [of "update_experiments x g u" db]) (auto simp: update_experiments_def split: option.split)

lemma update_variants: "db_variants (snd (query (update_experiments x g u) db)) = db_variants db"
  by (cases rule: query_cases [of "update_experiments x g u" db]) (auto simp: update_experiments_def split: option.split)

lemma db_step_variants: "db_step A db db' \<Longrightarrow> db_variants db' = db_variants db"
  by (induction rule: db_step.induct) (simp_all add: transition_defs update_variants)

lemma db_step_frame: "db_step A db db' \<Longrightarrow> y \<notin> A \<Longrightarrow> db_experiments db' y = db_experiments db y"
  by (induction rule: db_step.induct) (auto simp: transition_defs intro!: update_frame)

lemma db_step_read_only: "read_only op \<Longrightarrow> db_step A db (snd (op db))"
  by (rule db_step.intros(9)) (rule read_only_experiments read_only_variants, assumption)+

lemma db_step_audit: "db_step A db (snd (record_audit x a b c d e db))"
  by (rule db_step.intros(9)) (simp_all add: record_audit_def query_def Let_def split: list.split option.split)

lemma db_step_reads: "db_step A db (snd (get_experiment x db))" "db_step A db (snd (get_variants x db))"
  by (rule db_step_read_only, rule read_only_store)+

lemmas db_step_statements = db_step.intros(1-8) db_step_audit db_step_reads

locale kept =
  fixes K :: "m5 \<Rightarrow> bool" and A :: "uuid set"
  assumes kept_db: "K s \<Longrightarrow> db_step A (m5_db s) db \<Longrightarrow> K (s\<lparr>m5_db := db\<rparr>)"
    and kept_publish: "K s \<Longrightarrow> K (snd (publish_event e d s))"
    and kept_spawned: "K s \<Longrightarrow> K (s\<lparr>m5_spawned := p\<rparr>)"
begin

lemma keeps_store: "(\<And>db. db_step A db (snd (op db))) \<Longrightarrow> keeps K (store op)"
  by (simp add: keeps_def kept_db)

lemma keeps_store_ignored: "(\<And>db. db_step A db (snd (op db))) \<Longrightarrow> keeps K (store_ignored op)"
  by (simp add: keeps_def kept_db)

lemma keeps_publish: "keeps K (publish_event e d)"
  by (simp add: keeps_def kept_publish)

lemma keeps_spawn: "keeps K (\<lambda>s. (r, s\<lparr>m5_spawned := m5_spawned s @ [p]\<rparr>))"
  by (simp add: keeps_def kept_spawned)

lemmas keeps_rules = keeps_hbind keeps_hreturn keeps_store keeps_store_ignored keeps_publish keeps_spawn db_step_statements

lemma keeps_wrong_state: "keeps K (wrong_state x m)"
  unfolding wrong_state_def by (intro keeps_rules)

lemma keeps_handlers:
  assumes "\<And>x. env_parse_uuid env req = Some x \<Longrightarrow> x \<in> A"
  shows "keeps K (start_experiment env req)" "keeps K (conclude_experiment env req)" "keeps K (archive_experiment env req)"
    "keeps K (pause_experiment env req g reason)" "keeps K (resume_experiment env req)"
proof -
  show "keeps K (start_experiment env req)"
    unfolding start_experiment_def finish_start_def Let_def
    by (intro keeps_parse keeps_rules) (auto intro!: keeps_rules keeps_wrong_state assms split: outcome.split)
  show "keeps K (conclude_experiment env req)"
    unfolding conclude_experiment_def Let_def
    by (intro keeps_parse keeps_rules) (auto intro!: keeps_rules keeps_wrong_state assms)
  show "keeps K (archive_experiment env req)"
    unfolding archive_experiment_def Let_def
    by (intro keeps_parse keeps_rules) (auto intro!: keeps_rules keeps_wrong_state assms)
  show "keeps K (pause_experiment env req g reason)"
    unfolding pause_experiment_def Let_def
    by (intro keeps_parse keeps_rules) (auto intro!: keeps_rules keeps_wrong_state assms)
  show "keeps K (resume_experiment env req)"
    unfolding resume_experiment_def Let_def
    by (intro keeps_parse keeps_rules) (auto intro!: keeps_rules keeps_wrong_state assms)
qed

end

text \<open>The service as its clients see it: whole requests, the spawned releases, and database faults that come at any time.\<close>

inductive m5_step :: "m5_env \<Rightarrow> m5 \<Rightarrow> m5 \<Rightarrow> bool" for env where
  start: "m5_step env s (snd (start_experiment env req s))"
| conclude: "m5_step env s (snd (conclude_experiment env req s))"
| archive: "m5_step env s (snd (archive_experiment env req s))"
| pause: "m5_step env s (snd (pause_experiment env req g reason s))"
| resume: "m5_step env s (snd (resume_experiment env req s))"
| spawned: "m5_step env s (run_spawned s)"
| fault: "m5_step env s (s\<lparr>m5_db := (m5_db s)\<lparr>db_faults := fs\<rparr>\<rparr>)"

lemma release_experiments:
  "db_experiments (snd (release l x db)) = db_experiments db \<and> db_variants (snd (release l x db)) = db_variants db"
proof -
  obtain r fs where "load_layer l db = (r, db\<lparr>db_faults := fs\<rparr>)" using read_only_cases [OF read_only_allocator(1)] .
  then show ?thesis
    by (cases r) (auto simp: release_def dbind_def Let_def query_def split: list.split option.split)
qed

lemma db_step_release: "db_step A db (snd (release l x db))"
  by (rule db_step.intros(9)) (simp_all add: release_experiments)

context kept
begin

lemma kept_run_spawned: "K s \<Longrightarrow> K (run_spawned s)"
proof (cases "m5_spawned s")
  case (Cons p rest)
  obtain l x where "p = (l, x)" by (cases p)
  with Cons have "run_spawned s = (s\<lparr>m5_db := snd (release l x (m5_db s))\<rparr>)\<lparr>m5_spawned := rest\<rparr>"
    by (simp add: run_spawned_def)
  moreover assume "K s"
  ultimately show ?thesis using kept_spawned kept_db db_step_release by metis
qed (simp add: run_spawned_def)

lemma kept_fault: "K s \<Longrightarrow> K (s\<lparr>m5_db := (m5_db s)\<lparr>db_faults := fs\<rparr>\<rparr>)"
  by (intro kept_db db_step.intros(9)) auto

lemma kept_step:
  assumes "m5_step env s s'" "K s" "A = UNIV"
  shows "K s'"
  using assms(1,2) keeps_handlers kept_run_spawned kept_fault
  by (induction rule: m5_step.induct) (auto simp: keeps_def assms(3))

end

text \<open>A retired experiment stays retired, whatever requests and faults follow.\<close>

interpretation retired_kept: kept "\<lambda>s. \<exists>st \<in> retired. state_of (m5_db s) x = Some st" UNIV for x
proof
  fix s db
  assume k: "\<exists>st \<in> retired. state_of (m5_db s) x = Some st" and "db_step UNIV (m5_db s) db"
  from db_step_cases [OF this(2)] show "\<exists>st \<in> retired. state_of (m5_db (s\<lparr>m5_db := db\<rparr>)) x = Some st"
  proof
    assume "store_step (m5_db s) db"
    then show ?thesis using k retire.inv_step by simp
  next
    assume "db_experiments db = db_experiments (m5_db s)"
    then show ?thesis using k by (simp add: state_of_def)
  qed
qed (auto simp: publish_event_def)

text \<open>Versions of published events increase and stay below the counter.\<close>

definition versions_ok :: "m5 \<Rightarrow> bool" where
  "versions_ok s \<longleftrightarrow> sorted_wrt (<) (map ev_version (m5_events s)) \<and> (\<forall>ev \<in> set (m5_events s). ev_version ev < m5_version s)"

interpretation versions_kept: kept versions_ok UNIV
  by unfold_locales (auto simp: versions_ok_def publish_event_def sorted_wrt_append)

text \<open>The row of an experiment is untouched by requests for other experiments.\<close>

interpretation row_kept: kept "\<lambda>s. db_experiments (m5_db s) x = Some r" "- {x}" for x r
  by unfold_locales (auto simp: publish_event_def db_step_frame)

section \<open>Requests in the wrong state\<close>

lemma fst_hbind_Ok: "fst (hbind m k s) = Ok y \<Longrightarrow> \<exists>x. fst (m s) = Ok x \<and> fst (k x (snd (m s))) = Ok y"
  by (auto simp: hbind_def split: prod.splits outcome.splits)

lemma wrong_state_effect:
  "fst (wrong_state x m s) \<noteq> Ok y" "db_experiments (m5_db (snd (wrong_state x m s))) = db_experiments (m5_db s)"
proof -
  show "fst (wrong_state x m s) \<noteq> Ok y"
    unfolding wrong_state_def by (auto dest!: fst_hbind_Ok simp: hreturn_def)
  obtain r fs where r: "get_experiment x (m5_db s) = (r, (m5_db s)\<lparr>db_faults := fs\<rparr>)"
    using read_only_cases [OF read_only_store(1)] .
  then have "store (get_experiment x) s = (case r of Ok v \<Rightarrow> Ok v | Err e \<Rightarrow> Err (store_err_to_status e) | Panic \<Rightarrow> Panic, s\<lparr>m5_db := (m5_db s)\<lparr>db_faults := fs\<rparr>\<rparr>)"
    by (cases r) (simp_all add: store_def dmap_err_def)
  then show "db_experiments (m5_db (snd (wrong_state x m s))) = db_experiments (m5_db s)"
    by (cases r) (simp_all add: wrong_state_def hbind_def hreturn_def)
qed

lemma guarded_blocked:
  assumes "\<And>r. db_experiments (m5_db s) x = Some r \<Longrightarrow> \<not> g r"
  shows "db_experiments (m5_db (snd (hbind (store (query (update_experiments x g u))) (\<lambda>rows. if rows = 0 then wrong_state x m else k rows) s))) = db_experiments (m5_db s)"
    and "fst (hbind (store (query (update_experiments x g u))) (\<lambda>rows. if rows = 0 then wrong_state x m else k rows) s) \<noteq> Ok y"
proof -
  have upd: "update_experiments x g u (m5_db s\<lparr>db_faults := fs\<rparr>) = (0, m5_db s\<lparr>db_faults := fs\<rparr>)" for fs
    using assms by (auto simp: update_experiments_def split: option.split)
  show "db_experiments (m5_db (snd (hbind (store (query (update_experiments x g u))) (\<lambda>rows. if rows = 0 then wrong_state x m else k rows) s))) = db_experiments (m5_db s)"
    "fst (hbind (store (query (update_experiments x g u))) (\<lambda>rows. if rows = 0 then wrong_state x m else k rows) s) \<noteq> Ok y"
    by (cases rule: query_cases [of "update_experiments x g u" "m5_db s"];
        simp add: hbind_def store_def dmap_err_def upd wrong_state_effect)+
qed

text \<open>The states in which a request is accepted.\<close>

lemma blocked_requests:
  assumes parse: "env_parse_uuid env req = Some x" and row: "db_experiments (m5_db s) x = Some r"
  shows "er_state r \<noteq> ''DRAFT'' \<Longrightarrow> db_experiments (m5_db (snd (start_experiment env req s))) = db_experiments (m5_db s)"
    and "er_state r \<noteq> ''CONCLUDED'' \<Longrightarrow> db_experiments (m5_db (snd (archive_experiment env req s))) = db_experiments (m5_db s)"
    and "er_state r \<noteq> ''RUNNING'' \<Longrightarrow> db_experiments (m5_db (snd (pause_experiment env req gd reason s))) = db_experiments (m5_db s)"
    and "er_state r \<noteq> ''PAUSED'' \<Longrightarrow> db_experiments (m5_db (snd (resume_experiment env req s))) = db_experiments (m5_db s)"
    and "er_state r \<noteq> ''RUNNING'' \<Longrightarrow> er_state r \<noteq> ''PAUSED'' \<Longrightarrow>
      db_experiments (m5_db (snd (conclude_experiment env req s))) = db_experiments (m5_db s)"
proof -
  have p: "hbind (parse_id env req) k s = k x s" for k :: "uuid \<Rightarrow> m5_experiment handler"
    by (simp add: hbind_def parse_id_def hreturn_def parse)
  note blocked = guarded_blocked(1) [of s x]
  show "er_state r \<noteq> ''DRAFT'' \<Longrightarrow> db_experiments (m5_db (snd (start_experiment env req s))) = db_experiments (m5_db s)"
    unfolding start_experiment_def p start_transition_def by (rule blocked) (simp add: row)
  show "er_state r \<noteq> ''CONCLUDED'' \<Longrightarrow> db_experiments (m5_db (snd (archive_experiment env req s))) = db_experiments (m5_db s)"
    unfolding archive_experiment_def p archive_transition_def by (rule blocked) (simp add: row)
  show "er_state r \<noteq> ''RUNNING'' \<Longrightarrow> db_experiments (m5_db (snd (pause_experiment env req gd reason s))) = db_experiments (m5_db s)"
    unfolding pause_experiment_def p pause_transition_def Let_def by (rule blocked) (simp add: row)
  show "er_state r \<noteq> ''PAUSED'' \<Longrightarrow> db_experiments (m5_db (snd (resume_experiment env req s))) = db_experiments (m5_db s)"
    unfolding resume_experiment_def p resume_transition_def by (rule blocked) (simp add: row)
  show "er_state r \<noteq> ''RUNNING'' \<Longrightarrow> er_state r \<noteq> ''PAUSED'' \<Longrightarrow>
      db_experiments (m5_db (snd (conclude_experiment env req s))) = db_experiments (m5_db s)"
    unfolding conclude_experiment_def p conclude_transition_def by (rule blocked) (simp add: row)
qed

text \<open>The two states that no request leaves.\<close>

lemma stranded_step:
  assumes "m5_step env s s'" "db_experiments (m5_db s) x = Some r" "er_state r = ''CONCLUDING'' \<or> er_state r = ''STARTING''"
  shows "db_experiments (m5_db s') x = Some r"
proof -
  have other: "db_experiments (m5_db (snd (h s))) x = Some r" if "keeps (\<lambda>s. db_experiments (m5_db s) x = Some r) h" for h :: "m5_experiment handler"
    using that assms(2) by (simp add: keeps_def)
  have st: "er_state r \<noteq> ''DRAFT''" "er_state r \<noteq> ''CONCLUDED''" "er_state r \<noteq> ''RUNNING''" "er_state r \<noteq> ''PAUSED''"
    using assms(3) by auto
  define fixed :: "m5_experiment handler \<Rightarrow> bool" where "fixed h \<longleftrightarrow> db_experiments (m5_db (snd (h s))) x = Some r" for h
  have same: "fixed (start_experiment env req) \<and> fixed (conclude_experiment env req) \<and> fixed (archive_experiment env req) \<and>
      fixed (pause_experiment env req g reason) \<and> fixed (resume_experiment env req)"
    if "env_parse_uuid env req = Some x" for req g reason
    using blocked_requests [OF that assms(2)] st assms(2) by (simp add: fixed_def)
  have diff: "fixed (start_experiment env req) \<and> fixed (conclude_experiment env req) \<and> fixed (archive_experiment env req) \<and>
      fixed (pause_experiment env req g reason) \<and> fixed (resume_experiment env req)"
    if "env_parse_uuid env req \<noteq> Some x" for req g reason
    using that unfolding fixed_def by (intro conjI other row_kept.keeps_handlers) auto
  from assms(1) show ?thesis
    using same diff row_kept.kept_run_spawned [OF assms(2)] row_kept.kept_fault [OF assms(2)] unfolding fixed_def
    by cases blast+
qed

section \<open>Requests without faults\<close>

lemma store_no_fault: "db_faults (m5_db s) = [] \<Longrightarrow> store (query f) s = (Ok (fst (f (m5_db s))), s\<lparr>m5_db := snd (f (m5_db s))\<rparr>)"
  by (simp add: store_def dmap_err_def case_prod_beta)

lemma store_ignored_no_fault: "db_faults (m5_db s) = [] \<Longrightarrow> store_ignored (query f) s = (Ok (), s\<lparr>m5_db := snd (f (m5_db s))\<rparr>)"
  by (simp add: store_ignored_def case_prod_beta)

lemma store_get_experiment:
  "db_faults (m5_db s) = [] \<Longrightarrow> db_experiments (m5_db s) x = Some r \<Longrightarrow> store (get_experiment x) s = (Ok r, s)"
  by (simp add: store_def get_experiment_def dbind_def dreturn_def dmap_err_def)

lemma hbind_Ok: "m s = (Ok x, s') \<Longrightarrow> hbind m k s = k x s'"
  by (simp add: hbind_def)

lemma parse_id_Ok: "env_parse_uuid env req = Some x \<Longrightarrow> parse_id env req s = (Ok x, s)"
  by (simp add: parse_id_def hreturn_def)

lemma conclude_run:
  assumes "db_faults (m5_db s) = []" "env_parse_uuid env req = Some x" "db_experiments (m5_db s) x = Some r"
    and "er_state r = ''RUNNING'' \<or> er_state r = ''PAUSED''"
  shows "\<exists>proto s'. conclude_experiment env req s = (Ok proto, s') \<and> pe_experiment_id proto = er_experiment_id r \<and> pe_state proto = 5 \<and>
    m5_events s' = m5_events s @ [\<lparr>ev_experiment = Some proto, ev_is_deletion = True, ev_version = m5_version s\<rparr>] \<and>
    state_of (m5_db s') x = Some Concluded \<and> m5_version s' = m5_version s + 1 \<and>
    db_audit (m5_db s') = db_audit (m5_db s) @ [\<lparr>au_experiment_id = x, au_action = ''conclude'', au_actor_email = er_owner_email r,
       au_previous_state = Some ''RUNNING'', au_new_state = Some ''CONCLUDED'', au_details = ''{}''\<rparr>]"
proof -
  let ?now = "db_now (m5_db s)"
  define r1 where "r1 = r\<lparr>er_state := ''CONCLUDING'', er_updated_at := ?now\<rparr>"
  define r2 where "r2 = r1\<lparr>er_state := ''CONCLUDED'', er_concluded_at := Some ?now, er_updated_at := ?now\<rparr>"
  define s1 where "s1 = s\<lparr>m5_db := (m5_db s)\<lparr>db_experiments := (db_experiments (m5_db s))(x \<mapsto> r1)\<rparr>\<rparr>"
  define s2 where "s2 = s1\<lparr>m5_db := (m5_db s1)\<lparr>db_experiments := (db_experiments (m5_db s1))(x \<mapsto> r2)\<rparr>\<rparr>"
  have 1: "store (conclude_transition x) s = (Ok 1, s1)"
    using assms by (simp add: conclude_transition_def store_no_fault update_experiments_def s1_def r1_def)
  have 2: "store_ignored (mark_concluded x) s1 = (Ok (), s2)"
    using assms by (simp add: mark_concluded_def store_ignored_no_fault update_experiments_def s1_def s2_def r1_def r2_def)
  have f2: "db_faults (m5_db s2) = []" "db_experiments (m5_db s2) x = Some r2" using assms by (simp_all add: s2_def s1_def)
  obtain vs where 3: "store (get_variants x) s2 = (Ok vs, s2)" using f2 by (simp add: get_variants_def store_no_fault)
  define a where "a = \<lparr>au_experiment_id = x, au_action = ''conclude'', au_actor_email = er_owner_email r2,
       au_previous_state = Some ''RUNNING'', au_new_state = Some ''CONCLUDED'', au_details = ''{}''\<rparr>"
  have 4: "store_ignored (record_audit x ''conclude'' (er_owner_email r2) (Some ''RUNNING'') (Some ''CONCLUDED'') ''{}'') s2 =
      (Ok (), s2\<lparr>m5_db := (m5_db s2)\<lparr>db_audit := db_audit (m5_db s2) @ [a]\<rparr>\<rparr>)"
    using f2 by (simp add: record_audit_def store_ignored_no_fault a_def)
  have "conclude_experiment env req s =
      (let proto = experiment_row_to_proto r2 vs
       in hbind (publish_event proto True) (\<lambda>_. hreturn (Ok proto)) (s2\<lparr>m5_db := (m5_db s2)\<lparr>db_audit := db_audit (m5_db s2) @ [a]\<rparr>\<rparr>))"
    unfolding conclude_experiment_def
    by (simp add: hbind_Ok parse_id_Ok [OF assms(2)] 1 2 3 4 store_get_experiment [OF f2] Let_def)
  then show ?thesis
    by (simp add: Let_def hbind_def publish_event_def hreturn_def experiment_row_to_proto_def proto_state_def s2_def s1_def r2_def r1_def a_def
        state_of_def from_db_str_def)
qed

lemma start_run:
  assumes "db_faults (m5_db s) = []" "env_parse_uuid env req = Some x" "db_experiments (m5_db s) x = Some r"
    and "er_state r = ''DRAFT''" "er_experiment_type r \<notin> {''META'', ''SWITCHBACK'', ''QUASI''}"
  shows "\<exists>proto s'. start_experiment env req s = (Ok proto, s') \<and> pe_experiment_id proto = er_experiment_id r \<and> pe_state proto = 3 \<and>
    m5_events s' = m5_events s @ [\<lparr>ev_experiment = Some proto, ev_is_deletion = False, ev_version = m5_version s\<rparr>] \<and>
    state_of (m5_db s') x = Some Running \<and>
    proto = experiment_row_to_proto (r\<lparr>er_state := ''RUNNING'', er_started_at := Some (db_now (m5_db s)), er_updated_at := db_now (m5_db s)\<rparr>)
      (sort_key vr_ordinal (filter (\<lambda>v. vr_experiment_id v = x) (db_variants (m5_db s)))) \<and>
    (\<exists>d. m5_db s' = (m5_db s)\<lparr>db_experiments := (db_experiments (m5_db s))(x \<mapsto>
       r\<lparr>er_state := ''RUNNING'', er_started_at := Some (db_now (m5_db s)), er_updated_at := db_now (m5_db s)\<rparr>), db_audit := d\<rparr>)"
proof -
  let ?now = "db_now (m5_db s)"
  define r1 where "r1 = r\<lparr>er_state := ''STARTING'', er_started_at := Some ?now, er_updated_at := ?now\<rparr>"
  define r2 where "r2 = r1\<lparr>er_state := ''RUNNING'', er_updated_at := ?now\<rparr>"
  define s1 where "s1 = s\<lparr>m5_db := (m5_db s)\<lparr>db_experiments := (db_experiments (m5_db s))(x \<mapsto> r1)\<rparr>\<rparr>"
  define s2 where "s2 = s1\<lparr>m5_db := (m5_db s1)\<lparr>db_experiments := (db_experiments (m5_db s1))(x \<mapsto> r2)\<rparr>\<rparr>"
  have 1: "store (start_transition x) s = (Ok 1, s1)"
    using assms by (simp add: start_transition_def store_no_fault update_experiments_def s1_def r1_def)
  have f1: "db_faults (m5_db s1) = []" "db_experiments (m5_db s1) x = Some r1" using assms by (simp_all add: s1_def)
  define vs where "vs = sort_key vr_ordinal (filter (\<lambda>v. vr_experiment_id v = x) (db_variants (m5_db s)))"
  have 2: "store (get_variants x) s1 = (Ok vs, s1)" using f1 by (simp add: get_variants_def store_no_fault vs_def s1_def)
  have "proto_type (er_experiment_type r1) \<notin> {9, 10, 11}" using assms(5) by (simp add: proto_type_def r1_def)
  then have 3: "validate_starting ents (experiment_row_to_proto r1 vs) = Ok ()" for ents
    by (simp add: validate_starting_def experiment_row_to_proto_def)
  have 4: "store (run_transition x) s1 = (Ok 1, s2)"
    using f1 by (simp add: run_transition_def store_no_fault update_experiments_def s1_def s2_def r1_def r2_def)
  have f2: "db_faults (m5_db s2) = []" "db_experiments (m5_db s2) x = Some r2" using f1 by (simp_all add: s2_def)
  obtain d where 5: "store_ignored (record_audit x ''start'' (er_owner_email r2) (Some ''DRAFT'') (Some ''RUNNING'') ''{}'') s2 =
      (Ok (), s2\<lparr>m5_db := (m5_db s2)\<lparr>db_audit := d\<rparr>\<rparr>)"
    using f2 by (auto simp: record_audit_def store_ignored_no_fault)
  have "start_experiment env req s =
      hbind (publish_event (experiment_row_to_proto r2 vs) False) (\<lambda>_. hreturn (Ok (experiment_row_to_proto r2 vs)))
        (s2\<lparr>m5_db := (m5_db s2)\<lparr>db_audit := d\<rparr>\<rparr>)"
    unfolding start_experiment_def finish_start_def
    by (simp add: hbind_Ok parse_id_Ok [OF assms(2)] 1 store_get_experiment [OF f1] 2 3 4 store_get_experiment [OF f2] 5 Let_def)
  then show ?thesis
    by (simp add: hbind_def publish_event_def hreturn_def experiment_row_to_proto_def proto_state_def s2_def s1_def r2_def r1_def
        state_of_def from_db_str_def vs_def, intro exI [of _ d], cases r, simp)
qed

text \<open>The type of an experiment is fixed.\<close>

interpretation type_kept: kept "\<lambda>s. \<exists>r. db_experiments (m5_db s) x = Some r \<and> er_experiment_type r = ty" UNIV for x ty
proof
  fix s db
  assume k: "\<exists>r. db_experiments (m5_db s) x = Some r \<and> er_experiment_type r = ty" and step: "db_step UNIV (m5_db s) db"
  have upd: "\<exists>r. db_experiments (snd (query (update_experiments y g u) d)) x = Some r \<and> er_experiment_type r = ty"
    if "\<And>now r. er_experiment_type (u now r) = er_experiment_type r" "\<exists>r. db_experiments d x = Some r \<and> er_experiment_type r = ty" for y g u d
    using that by (cases rule: query_cases [of "update_experiments y g u" d]) (auto simp: update_experiments_def split: option.split)
  from step k show "\<exists>r. db_experiments (m5_db (s\<lparr>m5_db := db\<rparr>)) x = Some r \<and> er_experiment_type r = ty"
    by (induction rule: db_step.induct) (simp_all add: transition_defs upd)
qed (auto simp: publish_event_def)

lemma store_get_Ok:
  "fst (store (get_experiment x) s) = Ok r \<Longrightarrow> db_experiments (m5_db s) x = Some r"
  by (auto simp: store_def get_experiment_def dbind_def dreturn_def dmap_err_def query_def Let_def outcome_simps
      split: prod.splits outcome.splits list.splits option.splits)

text \<open>Handlers that cannot succeed from a state that satisfies \<open>K\<close>.\<close>

definition never_ok :: "(m5 \<Rightarrow> bool) \<Rightarrow> 'a handler \<Rightarrow> bool" where
  "never_ok K h \<longleftrightarrow> (\<forall>s y. K s \<longrightarrow> fst (h s) \<noteq> Ok y)"

lemma never_ok_hbind: "keeps K m \<Longrightarrow> (\<And>x. never_ok K (k x)) \<Longrightarrow> never_ok K (hbind m k)"
  unfolding never_ok_def keeps_def by (metis fst_hbind_Ok)

lemma never_ok_get:
  assumes "keeps K (store (get_experiment x))"
    and "\<And>s row. K s \<Longrightarrow> db_experiments (m5_db s) x = Some row \<Longrightarrow> never_ok K (k row)"
  shows "never_ok K (hbind (store (get_experiment x)) k)"
  unfolding never_ok_def
proof (intro allI impI notI)
  fix s y
  assume "K s" and "fst (hbind (store (get_experiment x)) k s) = Ok y"
  then obtain row where "fst (store (get_experiment x) s) = Ok row" "fst (k row (snd (store (get_experiment x) s))) = Ok y"
    by (blast dest: fst_hbind_Ok)
  with assms \<open>K s\<close> store_get_Ok [of x s row] show False unfolding never_ok_def keeps_def by blast
qed

lemma never_ok_Err: "never_ok K (hreturn (Err e))"
  by (simp add: never_ok_def hreturn_def)

lemma never_ok_wrong_state: "never_ok K (wrong_state x m)"
  by (simp add: never_ok_def wrong_state_effect)

lemma phase5_start_fails:
  assumes "env_parse_uuid env req = Some x" "db_experiments (m5_db s) x = Some r"
    and "er_experiment_type r \<in> {''META'', ''SWITCHBACK'', ''QUASI''}"
  shows "fst (start_experiment env req s) \<noteq> Ok y"
proof -
  let ?K = "\<lambda>s. \<exists>r'. db_experiments (m5_db s) x = Some r' \<and> er_experiment_type r' = er_experiment_type r"
  note keep = type_kept.keeps_store [of _ x "er_experiment_type r"] type_kept.keeps_store_ignored [of _ x "er_experiment_type r"]
  have val: "\<exists>e. validate_starting ents (experiment_row_to_proto row vs) = Err e"
    if "er_experiment_type row = er_experiment_type r" for row vs ents
    using that assms(3)
    by (auto simp: validate_starting_def experiment_row_to_proto_def proto_type_def validate_meta_def validate_switchback_def validate_quasi_def)
  have finish: "never_ok ?K (finish_start env x row vs)" if "er_experiment_type row = er_experiment_type r" for row vs
    using val [OF that, of "env_entries env" vs]
    by (auto simp: finish_start_def intro!: never_ok_hbind keep db_step_statements never_ok_Err)
  have loaded: "never_ok ?K (hbind (store (get_experiment x)) (\<lambda>row. hbind (store (get_variants x)) (finish_start env x row)))"
  proof (rule never_ok_get)
    show "keeps ?K (store (get_experiment x))" by (intro keep db_step_statements)
    show "never_ok ?K (hbind (store (get_variants x)) (finish_start env x row))" if "?K s" "db_experiments (m5_db s) x = Some row" for s row
      using that by (intro never_ok_hbind keep db_step_statements finish) auto
  qed
  have "never_ok ?K (hbind (store (start_transition x)) (\<lambda>rows.
       if rows = 0 then wrong_state x '' (must be DRAFT to start)''
       else hbind (store (get_experiment x)) (\<lambda>row. hbind (store (get_variants x)) (finish_start env x row))))"
    by (intro never_ok_hbind keep db_step_statements UNIV_I) (simp add: loaded never_ok_wrong_state)
  then show ?thesis
    unfolding start_experiment_def hbind_Ok [OF parse_id_Ok [OF assms(1)]] never_ok_def using assms(2) by blast
qed

section \<open>The backfill\<close>

lemma backfill_events_no_fault:
  "db_faults db = [] \<Longrightarrow> backfill_events v rows db =
     (map (\<lambda>r. \<lparr>ev_experiment = Some (experiment_row_to_proto r (sort_key vr_ordinal (filter (\<lambda>v. vr_experiment_id v = er_experiment_id r) (db_variants db)))),
               ev_is_deletion = False, ev_version = v\<rparr>) rows, db)"
  by (induction rows) (simp_all add: get_variants_def Let_def)

text \<open>Whatever fails, the backfill only mentions active rows and never deletes.\<close>

lemma backfill_events_sound:
  assumes "ev \<in> set (fst (backfill_events v rows db))"
  shows "\<exists>r vs. r \<in> set rows \<and> ev = \<lparr>ev_experiment = Some (experiment_row_to_proto r vs), ev_is_deletion = False, ev_version = v\<rparr>"
  using assms
proof (induction rows arbitrary: db)
  case (Cons row rows)
  obtain res db' where g: "get_variants (er_experiment_id row) db = (res, db')" by fastforce
  show ?case
  proof (cases res)
    case (Ok vs)
    with g Cons.prems consider
        "ev = \<lparr>ev_experiment = Some (experiment_row_to_proto row vs), ev_is_deletion = False, ev_version = v\<rparr>"
      | "ev \<in> set (fst (backfill_events v rows db'))"
      by (auto simp: Let_def case_prod_beta)
    then show ?thesis using Cons.IH [of db'] by cases auto
  qed (use g Cons.prems Cons.IH [of db'] in auto)
qed simp

definition keyed_db :: "database \<Rightarrow> bool" where
  "keyed_db db \<longleftrightarrow> keyed er_experiment_id (db_experiments db)"

lemma list_active_Ok:
  assumes "list_active_experiments db = (Ok rows, db')" "keyed_db db" "r \<in> set rows"
  shows "db_experiments db (er_experiment_id r) = Some r \<and> (er_state r = ''RUNNING'' \<or> er_state r = ''PAUSED'')"
proof -
  have "finite (dom (db_experiments db))" using assms(2) by (simp add: keyed_db_def keyed_def)
  moreover have
      "rows = filter (\<lambda>r. er_state r = ''RUNNING'' \<or> er_state r = ''PAUSED'')
                    (map (\<lambda>x. the (db_experiments db x)) (sorted_list_of_set (dom (db_experiments db))))"
    using assms(1) by (auto simp: list_active_experiments_def query_def Let_def split: list.splits option.splits)
  ultimately show ?thesis
    using assms(2,3) by (auto simp: keyed_db_def keyed_def)
qed

lemma stream_backfill_sound:
  assumes "keyed_db (m5_db s)" "ev \<in> set (fst (stream_backfill known s))"
  shows "\<exists>r vs. db_experiments (m5_db s) (er_experiment_id r) = Some r \<and> (er_state r = ''RUNNING'' \<or> er_state r = ''PAUSED'') \<and>
    ev = \<lparr>ev_experiment = Some (experiment_row_to_proto r vs), ev_is_deletion = False, ev_version = m5_version s\<rparr>"
proof -
  obtain res db where l: "list_active_experiments (m5_db s) = (res, db)" by fastforce
  with assms(2) obtain rows where rows: "res = Ok rows" "ev \<in> set (fst (backfill_events (m5_version s) rows db))"
    by (cases res) (auto simp: stream_backfill_def Let_def case_prod_beta split: if_splits)
  with l backfill_events_sound [OF rows(2)] list_active_Ok [OF _ assms(1)] show ?thesis by blast
qed

section \<open>A sample service\<close>

definition sample_env :: m5_env where
  "sample_env = \<lparr>env_parse_uuid = Some, env_entries = sorted_entries, env_start_message = (\<lambda>_. ''invalid''), env_json_reason = (\<lambda>s. s)\<rparr>"

definition sample_m5 :: "experiment_row \<Rightarrow> string option list \<Rightarrow> m5" where
  "sample_m5 r fs = \<lparr>m5_db = (db_with r)\<lparr>db_faults := fs\<rparr>, m5_version = 1, m5_events = [], m5_spawned = []\<rparr>"

lemma sample_m5_simps [simp]:
  "m5_db (sample_m5 r fs) = (db_with r)\<lparr>db_faults := fs\<rparr>" "env_parse_uuid sample_env x = Some x"
  "db_experiments (db_with (row_in st)) = [''x'' \<mapsto> row_in st]" "er_state (row_in st) = st" "er_experiment_type (row_in st) = ''AB''"
  by (simp_all add: sample_m5_def sample_env_def db_with_def row_in_def)

section \<open>Properties\<close>

text \<open>
  Once an experiment has begun to conclude, no sequence of requests, spawned tasks and database faults brings it back: it stays concluding, concluded or archived.
\<close>

theorem service_never_revives:
  assumes "(m5_step env)\<^sup>*\<^sup>* s s'" "state_of (m5_db s) x \<in> {Some Concluding, Some Concluded, Some Archived}"
  shows "state_of (m5_db s') x \<in> {Some Concluding, Some Concluded, Some Archived}"
  using assms(1)
proof (induction rule: rtranclp_induct)
  case base
  show ?case by (rule assms(2))
next
  case (step y z)
  have "\<exists>st \<in> retired. state_of (m5_db z) x = Some st"
    using step.IH by (intro retired_kept.kept_step [OF step.hyps(2)]) (auto simp: retired_def)
  then show ?case by (auto simp: retired_def)
qed

theorem service_never_revives_witness:
  "state_of (m5_db (snd (resume_experiment sample_env ''x'' (sample_m5 (row_in ''CONCLUDED'') [])))) ''x'' \<in> {Some Concluding, Some Concluded, Some Archived}"
proof (rule service_never_revives [where env = sample_env])
  show "(m5_step sample_env)\<^sup>*\<^sup>* (sample_m5 (row_in ''CONCLUDED'') []) (snd (resume_experiment sample_env ''x'' (sample_m5 (row_in ''CONCLUDED'') [])))"
    by (rule r_into_rtranclp, rule m5_step.resume)
qed (simp add: state_of_def from_db_str_def)

text \<open>
  The versions of the published events are strictly increasing, and the next version is larger than all of them, in every reachable state of the service.
\<close>

theorem event_versions_increase:
  assumes "reach (\<lambda>s. m5_events s = []) (m5_step env) s"
  shows "sorted_wrt (<) (map ev_version (m5_events s)) \<and> (\<forall>ev. ev \<in> set (m5_events s) \<longrightarrow> ev_version ev < m5_version s)"
proof -
  have "versions_ok s"
    using assms
  proof (induction rule: reach.induct)
    case (reach_init s)
    then show ?case by (simp add: versions_ok_def)
  next
    case (reach_step s t)
    then show ?case using versions_kept.kept_step by blast
  qed
  then show ?thesis by (simp add: versions_ok_def)
qed

theorem event_versions_increase_witness:
  "sorted_wrt (<) (map ev_version (m5_events (snd (start_experiment sample_env ''x'' (sample_m5 (row_in ''DRAFT'') [])))))"
proof -
  have "reach (\<lambda>s. m5_events s = []) (m5_step sample_env) (sample_m5 (row_in ''DRAFT'') [])"
    by (rule reach_init) (simp add: sample_m5_def)
  then have "reach (\<lambda>s. m5_events s = []) (m5_step sample_env) (snd (start_experiment sample_env ''x'' (sample_m5 (row_in ''DRAFT'') [])))"
    by (rule reach_step) (rule m5_step.start)
  from event_versions_increase [OF this] show ?thesis ..
qed

text \<open>
  Without faults, starting a DRAFT experiment of a type other than META, SWITCHBACK and QUASI succeeds: the experiment is RUNNING in the database and in the response, and exactly one upsert event is published, with the current version.
\<close>

theorem start_succeeds:
  assumes "db_faults (m5_db s) = []" "env_parse_uuid env req = Some x" "db_experiments (m5_db s) x = Some r"
    and "er_state r = ''DRAFT''" "er_experiment_type r \<notin> {''META'', ''SWITCHBACK'', ''QUASI''}"
  shows "\<exists>proto s'. start_experiment env req s = (Ok proto, s') \<and> pe_experiment_id proto = er_experiment_id r \<and> pe_state proto = 3 \<and>
    m5_events s' = m5_events s @ [\<lparr>ev_experiment = Some proto, ev_is_deletion = False, ev_version = m5_version s\<rparr>] \<and>
    state_of (m5_db s') x = Some Running"
  using start_run [OF assms] by blast

theorem start_succeeds_witness:
  "\<exists>proto s'. start_experiment sample_env ''x'' (sample_m5 (row_in ''DRAFT'') []) = (Ok proto, s') \<and> pe_state proto = 3"
  using start_succeeds [of "sample_m5 (row_in ''DRAFT'') []" sample_env "''x''" "''x''" "row_in ''DRAFT''"] by auto

text \<open>
  An experiment of type META, SWITCHBACK or QUASI can never be started: the message that is validated is rebuilt from the database row without its type-specific configuration, so the gate that demands the configuration always rejects it.
\<close>

theorem phase5_types_cannot_start:
  assumes "env_parse_uuid env req = Some x" "db_experiments (m5_db s) x = Some r"
    and "er_experiment_type r \<in> {''META'', ''SWITCHBACK'', ''QUASI''}"
  shows "start_experiment env req s \<noteq> (Ok proto, s')"
  using phase5_start_fails [OF assms] by (metis fst_conv)

theorem phase5_types_cannot_start_witness:
  "start_experiment sample_env ''x'' (sample_m5 ((row_in ''DRAFT'')\<lparr>er_experiment_type := ''META''\<rparr>) []) \<noteq>
     (Ok (sample_m5_experiment 9), sample_m5 (row_in ''RUNNING'') [])"
  by (rule phase5_types_cannot_start [where x = "''x''" and r = "(row_in ''DRAFT'')\<lparr>er_experiment_type := ''META''\<rparr>"])
    (simp_all add: db_with_def row_in_def)

text \<open>
  Without faults, concluding a RUNNING or PAUSED experiment ends in CONCLUDED and publishes exactly one deletion; the audit trail then names RUNNING as the previous state, also for an experiment that was PAUSED.
\<close>

theorem conclude_publishes_deletion:
  assumes "db_faults (m5_db s) = []" "env_parse_uuid env req = Some x" "db_experiments (m5_db s) x = Some r"
    and "er_state r = ''RUNNING'' \<or> er_state r = ''PAUSED''"
  shows "\<exists>proto s'. conclude_experiment env req s = (Ok proto, s') \<and> pe_experiment_id proto = er_experiment_id r \<and> pe_state proto = 5 \<and>
    m5_events s' = m5_events s @ [\<lparr>ev_experiment = Some proto, ev_is_deletion = True, ev_version = m5_version s\<rparr>] \<and>
    state_of (m5_db s') x = Some Concluded \<and> m5_version s' = m5_version s + 1 \<and>
    db_audit (m5_db s') = db_audit (m5_db s) @ [\<lparr>au_experiment_id = x, au_action = ''conclude'', au_actor_email = er_owner_email r,
       au_previous_state = Some ''RUNNING'', au_new_state = Some ''CONCLUDED'', au_details = ''{}''\<rparr>]"
  using assms by (rule conclude_run)

theorem conclude_publishes_deletion_witness:
  "\<exists>proto s'. conclude_experiment sample_env ''x'' (sample_m5 (row_in ''PAUSED'') []) = (Ok proto, s') \<and>
     au_previous_state (last (db_audit (m5_db s'))) = Some ''RUNNING''"
  using conclude_publishes_deletion [of "sample_m5 (row_in ''PAUSED'') []" sample_env "''x''" "''x''" "row_in ''PAUSED''"] by auto

text \<open>
  C40: STARTING and CONCLUDING are traps of the request interface: an experiment that a failed statement has left there is never moved again by any sequence of requests, spawned tasks and faults.
\<close>

theorem interrupted_requests_strand:
  assumes "(m5_step env)\<^sup>*\<^sup>* s s'" "db_experiments (m5_db s) x = Some r" "er_state r = ''CONCLUDING'' \<or> er_state r = ''STARTING''"
  shows "db_experiments (m5_db s') x = Some r"
  using assms(1)
proof (induction rule: rtranclp_induct)
  case base
  show ?case by (rule assms(2))
next
  case (step y z)
  show ?case by (rule stranded_step [OF step.hyps(2) step.IH assms(3)])
qed

lemma interrupted_conclude:
  "\<exists>proto s' r. conclude_experiment sample_env ''x'' (sample_m5 (row_in ''RUNNING'') [None, Some ''timeout'']) = (Ok proto, s') \<and>
     db_experiments (m5_db s') ''x'' = Some r \<and> er_state r = ''CONCLUDING''"
  by (simp add: conclude_experiment_def hbind_def parse_id_def hreturn_def store_def store_ignored_def dmap_err_def query_def Let_def
      conclude_transition_def mark_concluded_def update_experiments_def get_experiment_def get_variants_def record_audit_def
      dbind_def dreturn_def publish_event_def db_with_def row_in_def)

theorem interrupted_requests_strand_witness:
  "\<exists>proto s' r. conclude_experiment sample_env ''x'' (sample_m5 (row_in ''RUNNING'') [None, Some ''timeout'']) = (Ok proto, s') \<and>
     er_state r = ''CONCLUDING'' \<and> db_experiments (m5_db (snd (archive_experiment sample_env ''x'' s'))) ''x'' = Some r"
proof -
  obtain proto s' r where c: "conclude_experiment sample_env ''x'' (sample_m5 (row_in ''RUNNING'') [None, Some ''timeout'']) = (Ok proto, s')"
      "db_experiments (m5_db s') ''x'' = Some r" "er_state r = ''CONCLUDING''"
    using interrupted_conclude by blast
  have "(m5_step sample_env)\<^sup>*\<^sup>* s' (snd (archive_experiment sample_env ''x'' s'))"
    by (rule r_into_rtranclp, rule m5_step.archive)
  from interrupted_requests_strand [OF this c(2)] c show ?thesis by blast
qed

end
