(* ===== verification/Postgres.thy ===== *)
theory Postgres
  imports Float64
begin

text \<open>
  What the stores of the services share of PostgreSQL: the check that a double is a fraction, and listing a
  table in pages with a cursor. The interface \<open>keyset_listing\<close> is between one page and the client that
  follows the cursors, with the table changing between two pages; \<open>key_page\<close> is the page both stores read.
\<close>

text \<open>A double is inside a \<^verbatim>\<open>CHECK (x >= 0.0 AND x <= 1.0)\<close>; PostgreSQL orders NaN above every number.\<close>

fun in_unit_check :: "f64 \<Rightarrow> bool" where
  "in_unit_check (Fin q) \<longleftrightarrow> 0 \<le> q \<and> q \<le> 1"
| "in_unit_check _ = False"

section \<open>Listing in pages\<close>

lemma take_less_rest:
  "sorted_wrt (<) (map k rs) \<Longrightarrow> 0 < n \<Longrightarrow> n < length rs \<Longrightarrow> x \<in> set rs \<Longrightarrow> k x \<le> (k (rs ! (n - 1)) :: 'a :: linorder) \<Longrightarrow> x \<in> set (take n rs)"
proof -
  assume s: "sorted_wrt (<) (map k rs)" and n: "0 < n" "n < length rs" and x: "x \<in> set rs" "k x \<le> k (rs ! (n - 1))"
  from x(1) obtain i where i: "i < length rs" "rs ! i = x" by (auto simp: in_set_conv_nth)
  have "i < n"
  proof (rule ccontr)
    assume "\<not> i < n"
    then have "k (rs ! (n - 1)) < k (rs ! i)" using sorted_wrt_nth_less [OF s, of "n - 1" i] n i(1) by simp
    with x(2) i(2) show False by simp
  qed
  then show ?thesis using i by (auto simp: in_set_conv_nth)
qed

section \<open>Listing in pages\<close>

text \<open>
  Keyset pagination: a page holds, in the order of the keys, the first items beyond the cursor, and its
  cursor is the last key it holds. The table may change between two pages.
\<close>

locale keyset_listing =
  fixes page :: "'k::linorder option \<Rightarrow> 's \<Rightarrow> 'r list \<times> 'k option" and key :: "'r \<Rightarrow> 'k" and keys :: "'s \<Rightarrow> 'k set" and ok :: "'s \<Rightarrow> bool"
  assumes page_sorted: "ok s \<Longrightarrow> page c s = (rs, n) \<Longrightarrow> sorted_wrt (<) (map key rs)"
    and page_beyond: "ok s \<Longrightarrow> page c s = (rs, n) \<Longrightarrow> r \<in> set rs \<Longrightarrow> key r \<in> keys s \<and> (\<forall>m. c = Some m \<longrightarrow> m < key r)"
    and page_last: "ok s \<Longrightarrow> page c s = (rs, None) \<Longrightarrow> k \<in> keys s \<Longrightarrow> (\<forall>m. c = Some m \<longrightarrow> m < k) \<Longrightarrow> k \<in> key ` set rs"
    and page_more: "ok s \<Longrightarrow> page c s = (rs, Some m) \<Longrightarrow> rs \<noteq> [] \<and> m = key (last rs)"
    and page_dense: "ok s \<Longrightarrow> page c s = (rs, Some m) \<Longrightarrow> k \<in> keys s \<Longrightarrow> (\<forall>m. c = Some m \<longrightarrow> m < k) \<Longrightarrow> k \<le> m \<Longrightarrow> k \<in> key ` set rs"
begin

text \<open>One page per state; the flag says whether the last page was reached.\<close>

fun pages :: "'k option \<Rightarrow> 's list \<Rightarrow> 'r list \<times> bool" where
  "pages c [] = ([], False)"
| "pages c (s # ss) =
     (case page c s of
        (rs, None) \<Rightarrow> (rs, True)
      | (rs, Some m) \<Rightarrow> (let (rs', d) = pages (Some m) ss in (rs @ rs', d)))"

lemma pages_beyond: "list_all ok ss \<Longrightarrow> r \<in> set (fst (pages (Some m) ss)) \<Longrightarrow> m < key r"
proof (induction ss arbitrary: m)
  case (Cons s ss)
  obtain rs n where p: "page (Some m) s = (rs, n)" by fastforce
  show ?case
  proof (cases n)
    case (Some m')
    have "m < m'" using page_more page_beyond [of s "Some m" rs n "last rs"] p Some Cons.prems(1) by auto
    moreover have "m' < key r" if "r \<in> set (fst (pages (Some m') ss))" using Cons.IH [of m'] that Cons.prems(1) by auto
    ultimately show ?thesis using Cons.prems p Some page_beyond [of s "Some m" rs n r] by (auto split: prod.splits)
  qed (use Cons.prems p page_beyond [of s "Some m" rs n r] in auto)
qed simp

lemma last_key_greatest: "sorted_wrt (<) (map key rs) \<Longrightarrow> r \<in> set rs \<Longrightarrow> key r \<le> key (last rs)"
  by (induction rs) (auto simp: less_imp_le split: if_splits)

lemma pages_sorted: "list_all ok ss \<Longrightarrow> sorted_wrt (<) (map key (fst (pages c ss)))"
proof (induction ss arbitrary: c)
  case (Cons s ss)
  obtain rs n where p: "page c s = (rs, n)" by fastforce
  have s: "sorted_wrt (<) (map key rs)" using page_sorted [of s c rs n] p Cons.prems by simp
  show ?case
  proof (cases n)
    case (Some m)
    have m: "m = key (last rs)" using page_more [of s c rs m] p Some Cons.prems by simp
    have "key a < key b" if "a \<in> set rs" "b \<in> set (fst (pages (Some m) ss))" for a b
      using last_key_greatest [OF s that(1)] pages_beyond [of ss b m] that(2) Cons.prems m by auto
    then show ?thesis using p Some s Cons.IH [of "Some m"] Cons.prems by (auto simp: sorted_wrt_append split: prod.splits)
  qed (use p s in simp)
qed simp

lemma pages_complete:
  "list_all ok ss \<Longrightarrow> snd (pages c ss) \<Longrightarrow> (\<forall>m. c = Some m \<longrightarrow> m < k) \<Longrightarrow> (\<forall>s \<in> set ss. k \<in> keys s) \<Longrightarrow>
    k \<in> key ` set (fst (pages c ss))"
proof (induction ss arbitrary: c)
  case (Cons s ss)
  obtain rs n where p: "page c s = (rs, n)" by fastforce
  show ?case
  proof (cases n)
    case None
    then show ?thesis using page_last [of s c rs k] p Cons.prems by auto
  next
    case (Some m)
    show ?thesis
    proof (cases "k \<le> m")
      case True
      then show ?thesis using page_dense [of s c rs m k] p Some Cons.prems by (auto split: prod.splits)
    next
      case False
      then have "k \<in> key ` set (fst (pages (Some m) ss))"
        using Cons.IH [of "Some m"] p Some Cons.prems by (auto split: prod.splits)
      then show ?thesis using p Some by (auto split: prod.splits)
    qed
  qed
qed simp

text \<open>A table that does not change is listed completely, in at most one page per key and one more.\<close>

lemma pages_end:
  assumes "ok s" "finite (keys s)"
  shows "card {k \<in> keys s. \<forall>m. c = Some m \<longrightarrow> m < k} < n \<Longrightarrow> snd (pages c (replicate n s))"
proof (induction n arbitrary: c)
  case (Suc n)
  obtain rs d where p: "page c s = (rs, d)" by fastforce
  show ?case
  proof (cases d)
    case (Some m)
    have m: "rs \<noteq> []" "m = key (last rs)" using page_more [of s c rs m] p Some assms(1) by simp_all
    have "m \<in> keys s \<and> (\<forall>m'. c = Some m' \<longrightarrow> m' < m)" using page_beyond [of s c rs d "last rs"] m p assms(1) by auto
    then have "{k \<in> keys s. \<forall>m'. Some m = Some m' \<longrightarrow> m' < k} \<subset> {k \<in> keys s. \<forall>m. c = Some m \<longrightarrow> m < k}" by force
    then have "card {k \<in> keys s. \<forall>m'. Some m = Some m' \<longrightarrow> m' < k} < card {k \<in> keys s. \<forall>m. c = Some m \<longrightarrow> m < k}"
      by (intro psubset_card_mono) (use assms(2) in simp_all)
    then have "snd (pages (Some m) (replicate n s))" using Suc by (intro Suc.IH) auto
    then show ?thesis using p Some by (simp add: case_prod_beta)
  qed (use p in simp)
qed simp

end

text \<open>\<^verbatim>\<open>WHERE key > cursor ORDER BY key LIMIT n + 1\<close>: one row more than the page tells that there is another page.\<close>

definition beyond :: "('r \<Rightarrow> 'k::linorder) \<Rightarrow> 'k option \<Rightarrow> 'r list \<Rightarrow> 'r list" where
  "beyond key c rows = filter (\<lambda>r. case c of None \<Rightarrow> True | Some k \<Rightarrow> k < key r) rows"

definition key_page :: "('r \<Rightarrow> 'k::linorder) \<Rightarrow> nat \<Rightarrow> 'k option \<Rightarrow> 'r list \<Rightarrow> 'r list \<times> 'k option" where
  "key_page key n c rows =
     (let rest = take (n + 1) (beyond key c rows) in
      if n < length rest then (take n rest, Some (key (rest ! (n - 1)))) else (rest, None))"

definition strictly_sorted :: "('r \<Rightarrow> 'k::linorder) \<Rightarrow> 'r list \<Rightarrow> bool" where
  "strictly_sorted key rows \<longleftrightarrow> sorted_wrt (<) (map key rows)"

lemma beyond_sorted: "strictly_sorted key rows \<Longrightarrow> sorted_wrt (<) (map key (beyond key c rows))"
  by (simp add: strictly_sorted_def beyond_def sorted_wrt_map sorted_wrt_filter)

interpretation key_pages: keyset_listing "\<lambda>c rows. key_page key (Suc n) c rows" key "\<lambda>rows. key ` set rows" "strictly_sorted key"
  for key :: "'r \<Rightarrow> 'k::linorder" and n
proof unfold_locales
  fix rows c rs d r
  assume ok: "strictly_sorted key rows" and p: "key_page key (Suc n) c rows = (rs, d)"
  have "rs = take (Suc n) (take (Suc n + 1) (beyond key c rows)) \<or> rs = take (Suc n + 1) (beyond key c rows)"
    using p by (auto simp: key_page_def Let_def split: if_splits)
  then obtain m where m: "rs = take m (beyond key c rows)" by (metis take_take)
  show "sorted_wrt (<) (map key rs)"
    using sorted_wrt_take [OF beyond_sorted [OF ok], of m c] unfolding m by (simp only: take_map)
  show "key r \<in> key ` set rows \<and> (\<forall>m. c = Some m \<longrightarrow> m < key r)" if "r \<in> set rs"
  proof -
    have "r \<in> set (beyond key c rows)" using that m by (metis in_set_takeD)
    then show ?thesis by (auto simp: beyond_def)
  qed
next
  fix rows c rs k
  assume p: "key_page key (Suc n) c rows = (rs, None)" and k: "k \<in> key ` set rows" "\<forall>m. c = Some m \<longrightarrow> m < k"
  then show "k \<in> key ` set rs"
    by (auto simp: key_page_def beyond_def Let_def image_iff split: if_splits option.splits)
next
  fix rows c rs m
  assume p: "key_page key (Suc n) c rows = (rs, Some m)"
  let ?all = "beyond key c rows"
  have rs: "rs = take (Suc n) ?all" "Suc n < length ?all" "m = key (?all ! n)"
    using p by (auto simp: key_page_def Let_def min_def split: if_splits)
  then have "rs ! (length rs - 1) = ?all ! n" "rs \<noteq> []" by auto
  then show "rs \<noteq> [] \<and> m = key (last rs)" using rs(3) by (simp add: last_conv_nth)
  fix k
  assume ok: "strictly_sorted key rows" and k: "k \<in> key ` set rows" "\<forall>m. c = Some m \<longrightarrow> m < k" "k \<le> m"
  then obtain r where r: "r \<in> set ?all" "key r = k" by (cases c) (auto simp: beyond_def)
  have "r \<in> set (take (Suc n) ?all)"
    using take_less_rest [OF beyond_sorted [OF ok] _ rs(2) r(1)] r(2) k(3) rs(3) by simp
  then show "k \<in> key ` set rs" using r(2) rs(1) by blast
qed

end
