(* ===== verification/Experiment_Store.thy ===== *)
theory Experiment_Store
  imports Management_Store Postgres Rust_Text
begin

text \<open>
  Creating and listing experiments in the store of M5 (\<^verbatim>\<open>store.rs\<close>, with the constraints of the migrations
  001 and 009): the insertion of an experiment with its variants is one transaction, the listing is by pages.
  The texts of constraint violations are a parameter, since the code looks for words in them.
\<close>

section \<open>Statements with constraints\<close>

datatype experiment_constraint =
    ExpTypeCheck | ExpGuardrailCheck | ExpSequentialCheck | ExpPkey | ExpLayerFkey | ExpRuleFkey | ExpSurrogateFkey
  | ExpVariantFractionCheck | ExpVariantPkey | ExpVariantControlIndex | ExpVariantFkey

type_synonym experiment_texts = "experiment_constraint \<Rightarrow> string"

definition statement :: "(database \<Rightarrow> (string, 'a) outcome \<times> database) \<Rightarrow> (string, 'a) db_op" where
  "statement f db =
     (let db' = db\<lparr>db_faults := tl (db_faults db)\<rparr>
      in case db_faults db of Some msg # _ \<Rightarrow> (Err msg, db') | _ \<Rightarrow> f db')"

text \<open>A transaction: when one of its steps fails, the tables are as before.\<close>

definition transaction :: "(store_error, 'a) db_op \<Rightarrow> (store_error, 'a) db_op" where
  "transaction body db =
     (case body db of
        (Ok x, db') \<Rightarrow> (Ok x, db')
      | (r, db') \<Rightarrow> (r, db'\<lparr>db_experiments := db_experiments db, db_variants := db_variants db\<rparr>))"

definition begin_commit :: "(store_error, unit) db_op" where
  "begin_commit = dmap_err StoreDb (statement (\<lambda>db. (Ok (), db)))"

section \<open>Creating an experiment\<close>

record create_experiment_params =
  ce_name :: string
  ce_description :: "string option"
  ce_owner_email :: string
  ce_experiment_type :: string
  ce_layer_id :: uuid
  ce_primary_metric_id :: string
  ce_secondary_metric_ids :: "string list"
  ce_guardrail_action :: string
  ce_targeting_rule_id :: "uuid option"
  ce_is_cumulative_holdout :: bool
  ce_type_config :: json
  ce_sequential_method :: "string option"
  ce_planned_looks :: "int option"
  ce_overall_alpha :: "f64 option"
  ce_surrogate_model_id :: "uuid option"
  ce_variants :: "(string \<times> f64 \<times> bool \<times> string) list"

text \<open>The row as the defaults of the columns complete it: state, salt, identifier and times.\<close>

definition new_experiment_row :: "create_experiment_params \<Rightarrow> database \<Rightarrow> experiment_row" where
  "new_experiment_row p db =
     \<lparr>er_experiment_id = db_ids db (db_next db), er_name = ce_name p, er_description = ce_description p,
      er_owner_email = ce_owner_email p, er_experiment_type = ce_experiment_type p, er_state = ''DRAFT'',
      er_layer_id = ce_layer_id p, er_primary_metric_id = ce_primary_metric_id p,
      er_secondary_metric_ids = ce_secondary_metric_ids p, er_guardrail_action = ce_guardrail_action p,
      er_hash_salt = db_salts db (db_next db), er_targeting_rule_id = ce_targeting_rule_id p,
      er_is_cumulative_holdout = ce_is_cumulative_holdout p, er_type_config = ce_type_config p,
      er_sequential_method = ce_sequential_method p, er_planned_looks = ce_planned_looks p,
      er_overall_alpha = ce_overall_alpha p, er_surrogate_model_id = ce_surrogate_model_id p,
      er_created_at = db_now db, er_started_at = None, er_concluded_at = None, er_archived_at = None,
      er_paused_at = None, er_resumed_at = None, er_pause_reason = None, er_updated_at = db_now db\<rparr>"

definition experiment_types :: "string list" where
  "experiment_types = [''AB'', ''MULTIVARIATE'', ''INTERLEAVING'', ''SESSION_LEVEL'', ''PLAYBACK_QOE'', ''MAB'',
     ''CONTEXTUAL_BANDIT'', ''CUMULATIVE_HOLDOUT'', ''META'', ''SWITCHBACK'', ''QUASI'']"

text \<open>A CHECK constraint on a NULL holds, a foreign key that is NULL refers to nothing.\<close>

definition null_or :: "('a \<Rightarrow> bool) \<Rightarrow> 'a option \<Rightarrow> bool" where
  "null_or P x = (case x of None \<Rightarrow> True | Some y \<Rightarrow> P y)"

definition experiment_violation :: "database \<Rightarrow> experiment_row \<Rightarrow> experiment_constraint option" where
  "experiment_violation db r =
     (if er_experiment_type r \<notin> set experiment_types then Some ExpTypeCheck
      else if er_guardrail_action r \<notin> {''AUTO_PAUSE'', ''ALERT_ONLY''} then Some ExpGuardrailCheck
      else if \<not> null_or (\<lambda>m. m \<in> {''MSPRT'', ''GST_OBF'', ''GST_POCOCK'', ''AVLM''}) (er_sequential_method r) then Some ExpSequentialCheck
      else if db_experiments db (er_experiment_id r) \<noteq> None then Some ExpPkey
      else if db_layers db (er_layer_id r) = None then Some ExpLayerFkey
      else if \<not> null_or (\<lambda>u. u \<in> set (db_targeting_rules db)) (er_targeting_rule_id r) then Some ExpRuleFkey
      else if \<not> null_or (\<lambda>u. u \<in> set (db_surrogate_models db)) (er_surrogate_model_id r) then Some ExpSurrogateFkey
      else None)"

definition insert_experiment :: "experiment_texts \<Rightarrow> create_experiment_params \<Rightarrow> database \<Rightarrow> (string, experiment_row) outcome \<times> database" where
  "insert_experiment texts p db =
     (let r = new_experiment_row p db; db' = db\<lparr>db_next := db_next db + 1\<rparr>
      in case experiment_violation db r of
           Some c \<Rightarrow> (Err (texts c), db')
         | None \<Rightarrow> (Ok r, db'\<lparr>db_experiments := (db_experiments db)(er_experiment_id r \<mapsto> r)\<rparr>))"

definition new_variant_row :: "uuid \<Rightarrow> nat \<Rightarrow> string \<times> f64 \<times> bool \<times> string \<Rightarrow> database \<Rightarrow> variant_row" where
  "new_variant_row x ordinal v db =
     (case v of (name, fraction, is_control, payload) \<Rightarrow>
       \<lparr>vr_variant_id = db_ids db (db_next db), vr_experiment_id = x, vr_name = name, vr_traffic_fraction = fraction,
        vr_is_control = is_control, vr_payload_json = payload, vr_ordinal = i64_as_i32 (int ordinal)\<rparr>)"

text \<open>The partial unique index allows one control variant per experiment.\<close>

definition variant_violation :: "database \<Rightarrow> variant_row \<Rightarrow> experiment_constraint option" where
  "variant_violation db r =
     (if \<not> in_unit_check (vr_traffic_fraction r) then Some ExpVariantFractionCheck
      else if vr_variant_id r \<in> vr_variant_id ` set (db_variants db) then Some ExpVariantPkey
      else if vr_is_control r \<and> (\<exists>v \<in> set (db_variants db). vr_experiment_id v = vr_experiment_id r \<and> vr_is_control v) then Some ExpVariantControlIndex
      else if db_experiments db (vr_experiment_id r) = None then Some ExpVariantFkey
      else None)"

definition insert_variant ::
  "experiment_texts \<Rightarrow> uuid \<Rightarrow> nat \<Rightarrow> string \<times> f64 \<times> bool \<times> string \<Rightarrow> database \<Rightarrow> (string, unit) outcome \<times> database" where
  "insert_variant texts x ordinal v db =
     (let r = new_variant_row x ordinal v db; db' = db\<lparr>db_next := db_next db + 1\<rparr>
      in case variant_violation db r of
           Some c \<Rightarrow> (Err (texts c), db')
         | None \<Rightarrow> (Ok (), db'\<lparr>db_variants := db_variants db @ [r]\<rparr>))"

fun insert_all_variants ::
  "experiment_texts \<Rightarrow> uuid \<Rightarrow> nat \<Rightarrow> (string \<times> f64 \<times> bool \<times> string) list \<Rightarrow> (store_error, unit) db_op" where
  "insert_all_variants texts x ordinal [] = dreturn (Ok ())"
| "insert_all_variants texts x ordinal (v # vs) =
     dbind (dmap_err StoreDb (statement (insert_variant texts x ordinal v))) (\<lambda>_. insert_all_variants texts x (ordinal + 1) vs)"

definition duplicate_error :: "string \<Rightarrow> string \<Rightarrow> store_error" where
  "duplicate_error name msg =
     (if str_contains msg ''unique'' \<or> str_contains msg ''duplicate'' then StoreAlreadyExists name else StoreDb msg)"

definition insert_experiment_tx :: "experiment_texts \<Rightarrow> create_experiment_params \<Rightarrow> (store_error, uuid) db_op" where
  "insert_experiment_tx texts p =
     dbind begin_commit (\<lambda>_.
     dbind (dmap_err (duplicate_error (ce_name p)) (statement (insert_experiment texts p))) (\<lambda>row.
     dbind (insert_all_variants texts (er_experiment_id row) 0 (ce_variants p)) (\<lambda>_.
     dbind begin_commit (\<lambda>_. dreturn (Ok (er_experiment_id row))))))"

definition store_create_experiment :: "experiment_texts \<Rightarrow> create_experiment_params \<Rightarrow> (store_error, experiment_row) db_op" where
  "store_create_experiment texts p = dbind (transaction (insert_experiment_tx texts p)) get_experiment"

section \<open>Listing experiments\<close>

definition experiments_by_id :: "database \<Rightarrow> experiment_row list" where
  "experiments_by_id db = map (\<lambda>x. the (db_experiments db x)) (sorted_list_of_set (dom (db_experiments db)))"

definition experiment_matches :: "string option \<Rightarrow> string option \<Rightarrow> string option \<Rightarrow> experiment_row \<Rightarrow> bool" where
  "experiment_matches state_filter type_filter owner_filter r \<longleftrightarrow>
     null_or (\<lambda>s. er_state r = s) state_filter \<and> null_or (\<lambda>t. er_experiment_type r = t) type_filter \<and>
     null_or (\<lambda>e. er_owner_email r = e) owner_filter"

definition store_list_experiments ::
  "string option \<Rightarrow> string option \<Rightarrow> string option \<Rightarrow> int \<Rightarrow> uuid option \<Rightarrow> (store_error, experiment_row list \<times> uuid option) db_op" where
  "store_list_experiments state_filter type_filter owner_filter page_size page_token =
     (let n = (if page_size \<le> 0 \<or> 100 < page_size then 50 else page_size); fetch_size = n + 1 in
      dbind (query (\<lambda>db.
        (take (nat fetch_size) (filter (\<lambda>r. experiment_matches state_filter type_filter owner_filter r \<and> null_or (\<lambda>c. c < er_experiment_id r) page_token)
           (experiments_by_id db)), db))) (\<lambda>rows.
        dreturn (Ok (if n < int (length rows) then (take (nat n) rows, Some (er_experiment_id (rows ! nat (n - 1)))) else (rows, None)))))"

section \<open>Reading and writing\<close>

lemma statement_OkD: "statement f db = (Ok x, db') \<Longrightarrow> f (db\<lparr>db_faults := tl (db_faults db)\<rparr>) = (Ok x, db')"
  by (auto simp: statement_def Let_def split: list.splits option.splits)

lemma statement_cases:
  obtains msg where "statement f db = (Err msg, db\<lparr>db_faults := tl (db_faults db)\<rparr>)"
  | "statement f db = f (db\<lparr>db_faults := tl (db_faults db)\<rparr>)"
  by (cases "db_faults db"; cases "hd (db_faults db)") (auto simp: statement_def Let_def)

lemma statement_ok [simp]: "db_faults db = [] \<Longrightarrow> statement f db = f db"
  by (cases db) (simp add: statement_def Let_def)

lemma dmap_err_OkD: "dmap_err f m db = (Ok x, db') \<Longrightarrow> m db = (Ok x, db')"
  by (auto simp: dmap_err_def split: prod.splits outcome.splits)

lemma begin_commit_OkD: "begin_commit db = (Ok u, db') \<Longrightarrow> db' = db\<lparr>db_faults := tl (db_faults db)\<rparr>"
  by (auto simp: begin_commit_def dest!: dmap_err_OkD statement_OkD)

lemma statement_read: "db_faults db = [] \<Longrightarrow> begin_commit db = (Ok (), db)"
  by (simp add: begin_commit_def dmap_err_def)

text \<open>The rows of the variants of a request, in its order, with the next identifiers of the supply.\<close>

fun planned_rows :: "uuid \<Rightarrow> nat \<Rightarrow> (string \<times> f64 \<times> bool \<times> string) list \<Rightarrow> database \<Rightarrow> variant_row list" where
  "planned_rows x k [] db = []"
| "planned_rows x k (v # vs) db = new_variant_row x k v db # planned_rows x (k + 1) vs (db\<lparr>db_next := db_next db + 1\<rparr>)"

definition variant_content :: "variant_row \<Rightarrow> string \<times> f64 \<times> bool \<times> string" where
  "variant_content r = (vr_name r, vr_traffic_fraction r, vr_is_control r, vr_payload_json r)"

lemma new_variant_row_simps [simp]:
  "variant_content (new_variant_row x k v db) = v" "vr_experiment_id (new_variant_row x k v db) = x"
  "vr_ordinal (new_variant_row x k v db) = i64_as_i32 (int k)" "vr_variant_id (new_variant_row x k v db) = db_ids db (db_next db)"
  by (simp_all add: new_variant_row_def variant_content_def split: prod.split)

lemma planned_rows_cong: "db_ids db' = db_ids db \<Longrightarrow> db_next db' = db_next db \<Longrightarrow> planned_rows x k vs db' = planned_rows x k vs db"
proof (induction vs arbitrary: k db db')
  case (Cons v vs)
  have "planned_rows x (k + 1) vs (db'\<lparr>db_next := db_next db' + 1\<rparr>) = planned_rows x (k + 1) vs (db\<lparr>db_next := db_next db + 1\<rparr>)"
    by (rule Cons.IH) (simp_all add: Cons.prems)
  then show ?case by (simp add: new_variant_row_def Cons.prems)
qed simp

lemma planned_rows_content: "map variant_content (planned_rows x k vs db) = vs" "r \<in> set (planned_rows x k vs db) \<Longrightarrow> vr_experiment_id r = x"
  by (induction vs arbitrary: k db) auto

lemma planned_rows_length [simp]: "length (planned_rows x k vs db) = length vs"
  by (metis length_map planned_rows_content(1))

lemma planned_rows_ordinals: "map vr_ordinal (planned_rows x k vs db) = map (\<lambda>i. i64_as_i32 (int i)) [k..<k + length vs]"
  by (induction vs arbitrary: k db) (simp_all add: upt_conv_Cons del: upt_Suc)

lemma planned_rows_sorted:
  assumes "k + length vs < 2 ^ 31"
  shows "sort_key vr_ordinal (planned_rows x k vs db) = planned_rows x k vs db"
proof (rule sort_key_id_if_sorted)
  have "map (\<lambda>i. i64_as_i32 (int i)) [k..<k + length vs] = map int [k..<k + length vs]"
    using assms by (intro map_cong refl) (simp add: i64_as_i32_id is_i32_def)
  then have "map vr_ordinal (planned_rows x k vs db) = map int [k..<k + length vs]" by (simp add: planned_rows_ordinals)
  then show "sorted (map vr_ordinal (planned_rows x k vs db))"
    by (simp add: sorted_map)
qed

lemma insert_all_variants_Ok:
  "insert_all_variants texts x k vs db = (Ok u, db') \<Longrightarrow>
     db' = db\<lparr>db_variants := db_variants db @ planned_rows x k vs db, db_next := db_next db + length vs,
              db_faults := drop (length vs) (db_faults db)\<rparr> \<and> (\<forall>r \<in> set (planned_rows x k vs db). in_unit_check (vr_traffic_fraction r))"
proof (induction vs arbitrary: k db)
  case (Cons v vs)
  then obtain w db1 where 1: "dmap_err StoreDb (statement (insert_variant texts x k v)) db = (Ok w, db1)"
    "insert_all_variants texts x (Suc k) vs db1 = (Ok u, db')"
    by (auto simp: dbind_Ok)
  let ?r = "new_variant_row x k v db"
  have r: "new_variant_row x k v (db\<lparr>db_faults := fs\<rparr>) = ?r" for fs by (simp add: new_variant_row_def)
  have db1: "db1 = db\<lparr>db_faults := tl (db_faults db), db_next := db_next db + 1, db_variants := db_variants db @ [?r]\<rparr>"
    "in_unit_check (vr_traffic_fraction ?r)"
    using statement_OkD [OF dmap_err_OkD [OF 1(1)]]
    by (auto simp: insert_variant_def variant_violation_def Let_def r split: if_splits)
  have rows: "planned_rows x (Suc k) vs db1 = planned_rows x (Suc k) vs (db\<lparr>db_next := db_next db + 1\<rparr>)"
    by (rule planned_rows_cong) (simp_all add: db1(1))
  show ?case using Cons.IH [OF 1(2), unfolded rows] db1 by (simp add: drop_Suc)
qed (simp add: dreturn_def)

text \<open>When an insertion succeeds, and what it then has done.\<close>

definition fresh_supply :: "database \<Rightarrow> bool" where
  "fresh_supply db \<longleftrightarrow> inj (db_ids db) \<and>
     (\<forall>n \<ge> db_next db. db_experiments db (db_ids db n) = None \<and> db_ids db n \<notin> vr_variant_id ` set (db_variants db))"

definition references_ok :: "database \<Rightarrow> bool" where
  "references_ok db \<longleftrightarrow> (\<forall>v \<in> set (db_variants db). db_experiments db (vr_experiment_id v) \<noteq> None)"

lemma insert_all_variants_succeeds:
  assumes "db_faults db = []" "inj (db_ids db)" "\<forall>n \<ge> db_next db. db_ids db n \<notin> vr_variant_id ` set (db_variants db)"
    and "db_experiments db x \<noteq> None" "\<forall>(n, f, c, p) \<in> set vs. in_unit_check f"
    and "length (filter vr_is_control (filter (\<lambda>v. vr_experiment_id v = x) (db_variants db))) + length (filter (\<lambda>(n, f, c, p). c) vs) \<le> 1"
  shows "\<exists>db'. insert_all_variants texts x k vs db = (Ok (), db')"
  using assms
proof (induction vs arbitrary: k db)
  case (Cons v vs)
  obtain n f c p where v: "v = (n, f, c, p)" by (cases v) auto
  let ?r = "new_variant_row x k v db"
  let ?db1 = "db\<lparr>db_next := db_next db + 1, db_variants := db_variants db @ [?r]\<rparr>"
  have f: "in_unit_check f" using Cons.prems(5) v by auto
  have ctl: "c \<Longrightarrow> \<forall>v \<in> set (db_variants db). vr_experiment_id v = x \<longrightarrow> \<not> vr_is_control v"
    using Cons.prems(6) v by (auto simp: filter_empty_conv)
  have r: "vr_traffic_fraction ?r = f" "vr_is_control ?r = c" by (simp_all add: new_variant_row_def v)
  have "variant_violation db ?r = None"
    using Cons.prems(3,4) f ctl by (auto simp: variant_violation_def r)
  then have "statement (insert_variant texts x k v) db = (Ok (), ?db1)"
    using Cons.prems(1) by (simp add: insert_variant_def Let_def)
  then have step: "dmap_err StoreDb (statement (insert_variant texts x k v)) db = (Ok (), ?db1)" by simp
  have "\<forall>m \<ge> db_next db + 1. db_ids db m \<notin> vr_variant_id ` set (db_variants db @ [?r])"
    using Cons.prems(2,3) by (auto dest: injD)
  then have "\<exists>db'. insert_all_variants texts x (Suc k) vs ?db1 = (Ok (), db')"
    using Cons.prems v r by (intro Cons.IH) (auto simp: image_iff)
  then show ?case using step by simp
qed (simp add: dreturn_def)

section \<open>Outcomes of the transaction\<close>

definition same_rows :: "database \<Rightarrow> database \<Rightarrow> bool" where
  "same_rows db db' \<longleftrightarrow> db_experiments db' = db_experiments db \<and> db_variants db' = db_variants db"

lemma transaction_cases:
  obtains (commits) x db' where "transaction body db = (Ok x, db')" "body db = (Ok x, db')"
  | (rolls_back) r db' where "transaction body db = (r, db')" "\<forall>x. r \<noteq> Ok x" "same_rows db db'"
  by (cases "body db"; cases "fst (body db)") (auto simp: transaction_def same_rows_def)

text \<open>What is new in the tables when the transaction has committed.\<close>

definition inserted :: "create_experiment_params \<Rightarrow> uuid \<Rightarrow> database \<Rightarrow> database \<Rightarrow> bool" where
  "inserted p x db db' \<longleftrightarrow>
     x = db_ids db (db_next db) \<and> db_experiments db x = None \<and> db_layers db (ce_layer_id p) \<noteq> None \<and>
     db_experiments db' = (db_experiments db)(x \<mapsto> new_experiment_row p db) \<and>
     db_variants db' = db_variants db @ planned_rows x 0 (ce_variants p) (db\<lparr>db_next := db_next db + 1\<rparr>) \<and>
     (\<forall>(n, f, c, t) \<in> set (ce_variants p). in_unit_check f)"

lemma planned_fractions:
  "(\<forall>r \<in> set (planned_rows x k vs db). P (vr_traffic_fraction r)) \<longleftrightarrow> (\<forall>(n, f, c, t) \<in> set vs. P f)"
proof -
  have "(\<forall>r \<in> set (planned_rows x k vs db). P (vr_traffic_fraction r)) \<longleftrightarrow>
      (\<forall>v \<in> set (map variant_content (planned_rows x k vs db)). case v of (n, f, c, t) \<Rightarrow> P f)"
    by (auto simp: variant_content_def)
  then show ?thesis by (simp add: planned_rows_content(1) case_prod_beta)
qed

lemma insert_tx_Ok:
  assumes "insert_experiment_tx texts p db = (Ok x, db')"
  shows "inserted p x db db'"
proof -
  from assms obtain u d1 r d2 w d3 w' where 1: "begin_commit db = (Ok u, d1)"
    "dmap_err (duplicate_error (ce_name p)) (statement (insert_experiment texts p)) d1 = (Ok r, d2)"
    "insert_all_variants texts (er_experiment_id r) 0 (ce_variants p) d2 = (Ok w, d3)" "begin_commit d3 = (Ok w', db')" "x = er_experiment_id r"
    by (auto simp: insert_experiment_tx_def dbind_Ok dreturn_def)
  have new: "new_experiment_row p (db\<lparr>db_faults := fs\<rparr>) = new_experiment_row p db" for fs by (simp add: new_experiment_row_def)
  have id: "er_experiment_id (new_experiment_row p db) = db_ids db (db_next db)" "er_layer_id (new_experiment_row p db) = ce_layer_id p"
    by (simp_all add: new_experiment_row_def)
  from statement_OkD [OF dmap_err_OkD [OF 1(2)]] begin_commit_OkD [OF 1(1)]
  obtain fs where d2: "r = new_experiment_row p db" "experiment_violation (db\<lparr>db_faults := fs\<rparr>) r = None"
    "d2 = db\<lparr>db_faults := fs, db_next := db_next db + 1, db_experiments := (db_experiments db)(er_experiment_id r \<mapsto> r)\<rparr>"
    by (auto simp: insert_experiment_def Let_def new split: option.splits)
  have plan: "planned_rows y 0 (ce_variants p) d2 = planned_rows y 0 (ce_variants p) (db\<lparr>db_next := db_next db + 1\<rparr>)" for y
    by (rule planned_rows_cong) (simp_all add: d2(3))
  show ?thesis
    using insert_all_variants_Ok [OF 1(3), unfolded plan] begin_commit_OkD [OF 1(4)] d2 id 1(5)
    unfolding inserted_def by (auto simp: planned_fractions experiment_violation_def split: if_splits)
qed

lemma get_experiment_result:
  "get_experiment x db = (r, db') \<Longrightarrow> (case r of Ok row \<Rightarrow> db_experiments db x = Some row | _ \<Rightarrow> True) \<and> same_rows db db'"
  by (cases "db_faults db"; cases "hd (db_faults db)"; cases "db_experiments db x")
    (auto simp: get_experiment_def query_def Let_def dbind_def dreturn_def same_rows_def)

text \<open>
  Creating an experiment is atomic: either the tables are as before and the answer is an error, or the
  experiment is stored in state DRAFT under a fresh identifier with all its variants in the order of the
  request and nothing else changes; the answer is then the stored row, or an error if only the final read
  failed.
\<close>

lemma store_create_outcome:
  assumes "store_create_experiment texts p db = (res, db')"
  shows "(same_rows db db' \<and> (\<forall>r. res \<noteq> Ok r)) \<or>
    (\<exists>x. inserted p x db db' \<and> (\<forall>r. res = Ok r \<longrightarrow> r = new_experiment_row p db))"
proof (cases rule: transaction_cases [of "insert_experiment_tx texts p" db])
  case (commits x d1)
  then have i: "inserted p x db d1" using insert_tx_Ok by blast
  have "get_experiment x d1 = (res, db')" using assms commits(1) by (simp add: store_create_experiment_def)
  from get_experiment_result [OF this] i have "inserted p x db db'" "\<forall>r. res = Ok r \<longrightarrow> r = new_experiment_row p db"
    by (auto simp: inserted_def same_rows_def)
  then show ?thesis by blast
next
  case (rolls_back r d1)
  then have "\<forall>x. res \<noteq> Ok x" "db' = d1" using assms
    by (auto simp: store_create_experiment_def dbind_def split: outcome.splits)
  then show ?thesis using rolls_back by blast
qed

lemma new_row_id [simp]:
  "er_experiment_id (new_experiment_row p db) = db_ids db (db_next db)" "er_state (new_experiment_row p db) = ''DRAFT''"
  by (simp_all add: new_experiment_row_def)

lemma inserted_references: "references_ok db \<Longrightarrow> inserted p x db db' \<Longrightarrow> references_ok db'"
  by (auto simp: references_ok_def inserted_def dest!: planned_rows_content(2))

lemma inserted_keyed: "keyed er_experiment_id (db_experiments db) \<Longrightarrow> inserted p x db db' \<Longrightarrow> keyed er_experiment_id (db_experiments db')"
  by (auto simp: inserted_def intro!: keyed_upd)

text \<open>The variants of the new experiment are the ones of the request, the others keep theirs.\<close>

lemma inserted_variants:
  assumes "references_ok db" "inserted p x db db'" "length (ce_variants p) < 2 ^ 31"
  shows "sort_key vr_ordinal (filter (\<lambda>v. vr_experiment_id v = x) (db_variants db')) = planned_rows x 0 (ce_variants p) (db\<lparr>db_next := db_next db + 1\<rparr>)"
    and "y \<noteq> x \<Longrightarrow> filter (\<lambda>v. vr_experiment_id v = y) (db_variants db') = filter (\<lambda>v. vr_experiment_id v = y) (db_variants db)"
proof -
  let ?new = "planned_rows x 0 (ce_variants p) (db\<lparr>db_next := db_next db + 1\<rparr>)"
  have old: "filter (\<lambda>v. vr_experiment_id v = x) (db_variants db) = []"
    using assms(1,2) by (auto simp: filter_empty_conv references_ok_def inserted_def)
  have new: "filter (\<lambda>v. vr_experiment_id v = y) ?new = (if y = x then ?new else [])" for y
    by (auto simp: filter_empty_conv filter_id_conv dest: planned_rows_content(2))
  have db': "db_variants db' = db_variants db @ ?new" using assms(2) by (simp add: inserted_def)
  show "sort_key vr_ordinal (filter (\<lambda>v. vr_experiment_id v = x) (db_variants db')) = ?new"
    unfolding db' filter_append old new using planned_rows_sorted [of 0 "ce_variants p"] assms(3) by simp
  show "filter (\<lambda>v. vr_experiment_id v = y) (db_variants db') = filter (\<lambda>v. vr_experiment_id v = y) (db_variants db)" if "y \<noteq> x"
    unfolding db' filter_append new using that by simp
qed

text \<open>Without faults, on a supply of fresh identifiers, a request whose references exist is stored.\<close>

lemma store_create_succeeds:
  assumes "db_faults db = []" "fresh_supply db" "references_ok db" "experiment_violation db (new_experiment_row p db) = None"
    and "\<forall>(n, f, c, t) \<in> set (ce_variants p). in_unit_check f" "length (filter (\<lambda>(n, f, c, t). c) (ce_variants p)) \<le> 1"
  shows "\<exists>db'. store_create_experiment texts p db = (Ok (new_experiment_row p db), db') \<and> db_faults db' = []"
proof -
  let ?r = "new_experiment_row p db" and ?x = "db_ids db (db_next db)"
  let ?db1 = "db\<lparr>db_next := db_next db + 1, db_experiments := (db_experiments db)(?x \<mapsto> ?r)\<rparr>"
  have start: "begin_commit d = (Ok (), d)" if "db_faults d = []" for d using that by (rule statement_read)
  have ins: "dmap_err (duplicate_error (ce_name p)) (statement (insert_experiment texts p)) db = (Ok ?r, ?db1)"
    using assms(1,4) by (simp add: insert_experiment_def Let_def)
  have none: "filter (\<lambda>v. vr_experiment_id v = ?x) (db_variants db) = []"
    using assms(2,3) by (auto simp: filter_empty_conv fresh_supply_def references_ok_def)
  obtain d2 where d2: "insert_all_variants texts ?x 0 (ce_variants p) ?db1 = (Ok (), d2)"
    using insert_all_variants_succeeds [of ?db1 ?x "ce_variants p" texts 0] assms none by (auto simp: fresh_supply_def)
  have f2: "db_faults d2 = []" "db_experiments d2 ?x = Some ?r" using insert_all_variants_Ok [OF d2] assms(1) by simp_all
  have "insert_experiment_tx texts p db = (Ok ?x, d2)"
    using start [OF assms(1)] ins d2 start [OF f2(1)] by (simp add: insert_experiment_tx_def dreturn_def)
  then have "transaction (insert_experiment_tx texts p) db = (Ok ?x, d2)" by (simp add: transaction_def)
  then have "store_create_experiment texts p db = (Ok ?r, d2)"
    using f2 by (simp add: store_create_experiment_def get_experiment_def dbind_def dreturn_def)
  then show ?thesis using f2(1) by blast
qed

section \<open>Pages of experiments\<close>

definition matching_rows :: "string option \<Rightarrow> string option \<Rightarrow> string option \<Rightarrow> database \<Rightarrow> experiment_row list" where
  "matching_rows sf tf ow db = filter (experiment_matches sf tf ow) (experiments_by_id db)"

lemma experiments_by_id_rows:
  assumes "keyed er_experiment_id (db_experiments db)"
  shows "set (experiments_by_id db) = ran (db_experiments db)" "strictly_sorted er_experiment_id (experiments_by_id db)"
proof -
  have fin: "finite (dom (db_experiments db))" using assms by (simp add: keyed_def)
  have ids: "map er_experiment_id (experiments_by_id db) = sorted_list_of_set (dom (db_experiments db))"
    using assms fin unfolding experiments_by_id_def by (auto simp: keyed_def intro!: map_idI)
  show "set (experiments_by_id db) = ran (db_experiments db)"
    using fin by (force simp: experiments_by_id_def ran_def dom_def)
  show "strictly_sorted er_experiment_id (experiments_by_id db)"
    unfolding strictly_sorted_def ids strict_sorted_iff by simp
qed

lemma matching_sorted: "keyed er_experiment_id (db_experiments db) \<Longrightarrow> strictly_sorted er_experiment_id (matching_rows sf tf ow db)"
  using experiments_by_id_rows(2) [of db] by (simp add: matching_rows_def strictly_sorted_def sorted_wrt_map sorted_wrt_filter)

interpretation experiment_pages: keyset_listing "\<lambda>c db. key_page er_experiment_id (Suc n) c (matching_rows sf tf ow db)" er_experiment_id
  "\<lambda>db. er_experiment_id ` set (matching_rows sf tf ow db)" "\<lambda>db. keyed er_experiment_id (db_experiments db)"
  for sf tf ow n
  by unfold_locales (blast dest: matching_sorted key_pages.page_sorted key_pages.page_beyond key_pages.page_last key_pages.page_more key_pages.page_dense)+

text \<open>A listing request reads one page of the interface.\<close>

lemma list_experiments_page:
  assumes "db_faults db = []"
  shows "store_list_experiments sf tf ow psize c db =
    (Ok (key_page er_experiment_id (nat (if psize \<le> 0 \<or> 100 < psize then 50 else psize)) c (matching_rows sf tf ow db)), db)"
proof -
  define n where "n = (if psize \<le> 0 \<or> 100 < psize then 50 else psize)"
  have n: "0 < n" by (simp add: n_def)
  have sizes: "nat (n + 1) = nat n + 1" "nat (n - 1) = nat n - 1" "n < int k \<longleftrightarrow> nat n < k" for k using n by linarith+
  have rows: "filter (\<lambda>r. experiment_matches sf tf ow r \<and> null_or (\<lambda>k. k < er_experiment_id r) c) (experiments_by_id d) =
      beyond er_experiment_id c (matching_rows sf tf ow d)" for d
    by (auto simp: beyond_def matching_rows_def null_or_def conj_commute intro!: filter_cong split: option.split)
  show ?thesis
    using assms unfolding store_list_experiments_def Let_def n_def [symmetric] rows sizes
    by (auto simp: dbind_def dreturn_def key_page_def Let_def)
qed

end
