(* ===== verification/Experiment_Requests.thy ===== *)
theory Experiment_Requests
  imports Management_Service Experiment_Store
begin

text \<open>
  The requests of M5 that create, read, update and list experiments and layers, and the consumer of
  guardrail alerts (\<^verbatim>\<open>grpc.rs\<close> and \<^verbatim>\<open>kafka.rs\<close>). Parsing of JSON, the text a JSON value reads back as and the
  printing of doubles with a fixed number of digits are parameters.
\<close>

section \<open>Environment\<close>

record request_env =
  re_m5 :: m5_env
  re_texts :: experiment_texts
  re_parse_json :: "string \<Rightarrow> json option"
  re_json :: "json \<Rightarrow> string"
  re_fixed :: "nat \<Rightarrow> f64 \<Rightarrow> string"
  re_allocator_text :: "allocator_error \<Rightarrow> string"

definition invalid_argument :: "string \<Rightarrow> (status, 'a) outcome" where
  "invalid_argument msg = Err (Status InvalidArgument msg)"

definition require :: "bool \<Rightarrow> string \<Rightarrow> (status, unit) outcome" where
  "require ok msg = (if ok then Ok () else invalid_argument msg)"

section \<open>Validation\<close>

definition experiment_type_str :: "int \<Rightarrow> string option" where
  "experiment_type_str = map_of [(1, ''AB''), (2, ''MULTIVARIATE''), (3, ''INTERLEAVING''), (4, ''SESSION_LEVEL''),
     (5, ''PLAYBACK_QOE''), (6, ''MAB''), (7, ''CONTEXTUAL_BANDIT''), (8, ''CUMULATIVE_HOLDOUT''), (9, ''META''),
     (10, ''SWITCHBACK''), (11, ''QUASI'')]"

definition reject_audience_rule :: "m5_experiment \<Rightarrow> (status, unit) outcome" where
  "reject_audience_rule e =
     require (px_audience_rule_id e = []) ''audience_rule_id is not supported yet; use targeting_rule_id (#822)''"

fun reject_non_finite :: "proto_variant list \<Rightarrow> (status, unit) outcome" where
  "reject_non_finite [] = Ok ()"
| "reject_non_finite (v # vs) =
     (if is_finite (pv_traffic_fraction v) then reject_non_finite vs
      else invalid_argument (''variant '' @ [CHR 0x27] @ pv_name v @ [CHR 0x27] @ '' has non-finite traffic_fraction''))"

definition sum_fractions :: "f64 list \<Rightarrow> f64" where
  "sum_fractions fs = foldl f64_add (Fin 0) fs"

definition sums_to_one :: "f64 list \<Rightarrow> bool" where
  "sums_to_one fs \<longleftrightarrow> \<not> f64_lt (f64_round (1 / 1000000)) (f64_abs (f64_sub (sum_fractions fs) (Fin 1)))"

definition validate_create :: "request_env \<Rightarrow> m5_experiment \<Rightarrow> (status, unit) outcome" where
  "validate_create env e =
     obind (reject_audience_rule e) (\<lambda>_.
     obind (require (\<not> all_whitespace (pe_name e)) ''name is required'') (\<lambda>_.
     obind (require (\<not> all_whitespace (px_owner_email e)) ''owner_email is required'') (\<lambda>_.
     obind (require (\<not> all_whitespace (px_primary_metric_id e)) ''primary_metric_id is required'') (\<lambda>_.
     obind (require (pe_layer_id e \<noteq> []) ''layer_id is required'') (\<lambda>_.
     obind (require (experiment_type_str (pe_type e) \<noteq> None) ''experiment type must be specified'') (\<lambda>_.
     obind (require (pe_variants e \<noteq> []) ''at least one variant is required'') (\<lambda>_.
     obind (reject_non_finite (pe_variants e)) (\<lambda>_.
     let fractions = map pv_traffic_fraction (pe_variants e) in
     obind (require (sums_to_one fractions)
       (''variant traffic_fractions must sum to 1.0 (got '' @ re_fixed env 6 (sum_fractions fractions) @ '')'')) (\<lambda>_.
     let controls = length (filter pv_is_control (pe_variants e)) in
       require (controls = 1) (''exactly one variant must be the control (got '' @ show_nat controls @ '')''))))))))))"

section \<open>Creating\<close>

text \<open>\<^verbatim>\<open>build_type_config\<close>: one entry for every configuration that is set.\<close>

definition entry_of :: "string \<Rightarrow> ('c \<Rightarrow> json) \<Rightarrow> 'c option \<Rightarrow> (string \<times> json) list" where
  "entry_of key f c = (case c of None \<Rightarrow> [] | Some x \<Rightarrow> [(key, f x)])"

definition build_type_config :: "m5_experiment \<Rightarrow> json" where
  "build_type_config e = JObject (
     entry_of ''interleaving_config'' (\<lambda>c. JObject [(''method'', JInt (pic_method c)),
       (''algorithm_ids'', JArray (map JString (pic_algorithm_ids c))), (''max_list_size'', JInt (pic_max_list_size c))]) (px_interleaving_config e) @
     entry_of ''session_config'' (\<lambda>c. JObject [(''session_id_attribute'', JString (pss_session_id_attribute c)),
       (''allow_cross_session_variation'', JBool (pss_allow_cross_session_variation c)),
       (''min_sessions_per_user'', JInt (pss_min_sessions_per_user c))]) (px_session_config e) @
     entry_of ''bandit_config'' (\<lambda>c. JObject [(''algorithm'', JInt (pbc_algorithm c)), (''reward_metric_id'', JString (pbc_reward_metric_id c)),
       (''min_exploration_fraction'', json_of_f64 (pbc_min_exploration_fraction c))]) (px_bandit_config e) @
     entry_of ''meta_experiment_config'' (\<lambda>c. JObject [(''base_algorithm'', JInt (pmc_base_algorithm c)),
       (''outcome_metric_ids'', JArray (map JString (pmc_outcome_metric_ids c))),
       (''variant_count'', JInt (int (length (pmc_variant_objectives c))))]) (px_meta_experiment_config e) @
     entry_of ''switchback_config'' (\<lambda>c. JObject [(''planned_cycles'', JInt (psc_planned_cycles c)),
       (''block_duration_seconds'', case psc_block_duration c of None \<Rightarrow> JNull | Some d \<Rightarrow> JInt (du_seconds d)),
       (''cluster_attribute'', JString (psc_cluster_attribute c))]) (px_switchback_config e) @
     entry_of ''quasi_experiment_config'' (\<lambda>c. JObject [(''treated_unit_id'', JString (pqc_treated_unit_id c)),
       (''donor_count'', JInt (int (length (pqc_donor_unit_ids c)))), (''outcome_metric_id'', JString (pqc_outcome_metric_id c)),
       (''method'', JInt (pqc_method c))]) (px_quasi_experiment_config e) @
     entry_of ''adaptive_sample_size_config'' (\<lambda>c. JObject [(''interim_fraction'', json_of_f64 (pac_interim_fraction c)),
       (''promising_zone_lower'', json_of_f64 (pac_promising_zone_lower c)),
       (''favorable_zone_lower'', json_of_f64 (pac_favorable_zone_lower c)),
       (''max_extension_factor'', json_of_f64 (pac_max_extension_factor c))]) (px_adaptive_sample_size_config e))"

definition sequential_method_str :: "int \<Rightarrow> string option" where
  "sequential_method_str = map_of [(1, ''MSPRT''), (2, ''GST_OBF''), (3, ''GST_POCOCK''), (4, ''AVLM'')]"

definition variant_params :: "request_env \<Rightarrow> proto_variant \<Rightarrow> string \<times> f64 \<times> bool \<times> string" where
  "variant_params env v =
     (pv_name v, pv_traffic_fraction v, pv_is_control v, re_json env (unwrap_or (JObject []) (re_parse_json env (pv_payload_json v))))"

definition create_params :: "request_env \<Rightarrow> m5_experiment \<Rightarrow> string \<Rightarrow> uuid \<Rightarrow> uuid option \<Rightarrow> uuid option \<Rightarrow> create_experiment_params" where
  "create_params env e ty layer rule surrogate =
     \<lparr>ce_name = pe_name e, ce_description = (if px_description e = [] then None else Some (px_description e)),
      ce_owner_email = px_owner_email e, ce_experiment_type = ty, ce_layer_id = layer,
      ce_primary_metric_id = px_primary_metric_id e, ce_secondary_metric_ids = px_secondary_metric_ids e,
      ce_guardrail_action = (if px_guardrail_action e = 2 then ''ALERT_ONLY'' else ''AUTO_PAUSE''),
      ce_targeting_rule_id = rule, ce_is_cumulative_holdout = pe_is_cumulative_holdout e,
      ce_type_config = build_type_config e,
      ce_sequential_method = Option.bind (px_sequential_test_config e) (\<lambda>c. sequential_method_str (pqs_method c)),
      ce_planned_looks = Option.bind (px_sequential_test_config e) (\<lambda>c. if pqs_planned_looks c = 0 then None else Some (pqs_planned_looks c)),
      ce_overall_alpha = Option.bind (px_sequential_test_config e) (\<lambda>c. if f64_eq (pqs_overall_alpha c) (Fin 0) then None else Some (pqs_overall_alpha c)),
      ce_surrogate_model_id = surrogate, ce_variants = map (variant_params env) (pe_variants e)\<rparr>"

definition optional_uuid :: "request_env \<Rightarrow> string \<Rightarrow> string \<Rightarrow> (status, uuid option) outcome" where
  "optional_uuid env msg s =
     (if s = [] then Ok None
      else obind (ok_or (Status InvalidArgument msg) (env_parse_uuid (re_m5 env) s)) (\<lambda>u. Ok (Some u)))"

definition create_experiment :: "request_env \<Rightarrow> m5_experiment option \<Rightarrow> m5_experiment handler" where
  "create_experiment env req =
     hbind (hreturn (ok_or (Status InvalidArgument ''experiment is required'') req)) (\<lambda>e.
     hbind (hreturn (validate_create env e)) (\<lambda>_.
     hbind (hreturn (ok_or (Status InvalidArgument ''invalid layer_id UUID'') (env_parse_uuid (re_m5 env) (pe_layer_id e)))) (\<lambda>layer.
     hbind (hreturn (optional_uuid env ''invalid targeting_rule_id UUID'' (px_targeting_rule_id e))) (\<lambda>rule.
     hbind (hreturn (optional_uuid env ''invalid surrogate_model_id UUID'' (px_surrogate_model_id e))) (\<lambda>surrogate.
     hbind (hreturn (ok_or (Status InvalidArgument ''experiment type unspecified'') (experiment_type_str (pe_type e)))) (\<lambda>ty.
     hbind (store (store_create_experiment (re_texts env) (create_params env e ty layer rule surrogate))) (\<lambda>row.
     hbind (store (get_variants (er_experiment_id row))) (\<lambda>variants.
     hbind (store_ignored (record_audit (er_experiment_id row) ''create'' (px_owner_email e) None (Some ''DRAFT'')
              (re_json env (JObject [(''name'', JString (er_name row)), (''type'', JString (er_experiment_type row))])))) (\<lambda>_.
       hreturn (Ok (experiment_row_to_proto row variants)))))))))))"

section \<open>Reading, updating, listing\<close>

definition get_experiment_request :: "request_env \<Rightarrow> string \<Rightarrow> m5_experiment handler" where
  "get_experiment_request env req =
     hbind (parse_id (re_m5 env) req) (\<lambda>x.
     hbind (store (get_experiment x)) (\<lambda>row.
     hbind (store (get_variants x)) (\<lambda>variants.
       hreturn (Ok (experiment_row_to_proto row variants)))))"

definition update_experiment :: "request_env \<Rightarrow> m5_experiment option \<Rightarrow> m5_experiment handler" where
  "update_experiment env req =
     hbind (hreturn (ok_or (Status InvalidArgument ''experiment is required'') req)) (\<lambda>e.
     hbind (hreturn (require (pe_experiment_id e \<noteq> []) ''experiment_id is required'')) (\<lambda>_.
     hbind (hreturn (reject_audience_rule e)) (\<lambda>_.
     hbind (parse_id (re_m5 env) (pe_experiment_id e)) (\<lambda>x.
     hbind (store (get_experiment x)) (\<lambda>row.
       if er_state row \<noteq> ''DRAFT''
       then hreturn (Err (Status FailedPrecondition ''only DRAFT experiments can be updated''))
       else
         hbind (store (get_variants x)) (\<lambda>variants.
           hreturn (Ok (experiment_row_to_proto row variants))))))))"

definition state_filter_str :: "int \<Rightarrow> string option" where
  "state_filter_str = map_of [(1, ''DRAFT''), (2, ''STARTING''), (3, ''RUNNING''), (7, ''PAUSED''), (4, ''CONCLUDING''),
     (5, ''CONCLUDED''), (6, ''ARCHIVED'')]"

record list_experiments_request =
  le_page_size :: int
  le_page_token :: string
  le_state_filter :: int
  le_type_filter :: int
  le_owner_email_filter :: string

fun experiments_with_variants :: "experiment_row list \<Rightarrow> m5_experiment list handler" where
  "experiments_with_variants [] = hreturn (Ok [])"
| "experiments_with_variants (row # rows) =
     hbind (store (get_variants (er_experiment_id row))) (\<lambda>variants.
     hbind (experiments_with_variants rows) (\<lambda>es.
       hreturn (Ok (experiment_row_to_proto row variants # es))))"

definition list_experiments :: "request_env \<Rightarrow> list_experiments_request \<Rightarrow> (m5_experiment list \<times> string) handler" where
  "list_experiments env req =
     hbind (hreturn (optional_uuid env ''invalid page_token'' (le_page_token req))) (\<lambda>cursor.
     hbind (store (store_list_experiments (state_filter_str (le_state_filter req)) (experiment_type_str (le_type_filter req))
              (if le_owner_email_filter req = [] then None else Some (le_owner_email_filter req)) (le_page_size req) cursor)) (\<lambda>(rows, next_cursor).
     hbind (experiments_with_variants rows) (\<lambda>es.
       hreturn (Ok (es, unwrap_or [] next_cursor)))))"

section \<open>Layers, and requests without an implementation\<close>

definition get_layer_allocations :: "request_env \<Rightarrow> string \<Rightarrow> bool \<Rightarrow> allocation list handler" where
  "get_layer_allocations env layer include_released =
     hbind (hreturn (ok_or (Status InvalidArgument ''invalid layer_id UUID'') (env_parse_uuid (re_m5 env) layer))) (\<lambda>l.
       (\<lambda>s. case list_allocations l include_released (m5_db s) of
          (Ok as, db) \<Rightarrow> (Ok as, s\<lparr>m5_db := db\<rparr>)
        | (Err err, db) \<Rightarrow> (Err (Status Internal (''allocation query error: '' @ re_allocator_text env err)), s\<lparr>m5_db := db\<rparr>)
        | (Panic, db) \<Rightarrow> (Panic, s\<lparr>m5_db := db\<rparr>)))"

datatype stub_request =
    CreateLayer | GetLayer | CreateTargetingRule | CreateAudienceRule | GetAudienceRule | ListAudienceRules
  | CreateSurrogateModel | ListSurrogateModels | GetSurrogateCalibration | TriggerSurrogateRecalibration

fun stub_message :: "stub_request \<Rightarrow> string" where
  "stub_message CreateLayer = ''CreateLayer not yet implemented''"
| "stub_message GetLayer = ''GetLayer not yet implemented''"
| "stub_message CreateTargetingRule = ''CreateTargetingRule not yet implemented''"
| "stub_message CreateAudienceRule = ''CreateAudienceRule not yet implemented (#822)''"
| "stub_message GetAudienceRule = ''GetAudienceRule not yet implemented (#822)''"
| "stub_message ListAudienceRules = ''ListAudienceRules not yet implemented (#822)''"
| "stub_message CreateSurrogateModel = ''CreateSurrogateModel not yet implemented''"
| "stub_message ListSurrogateModels = ''ListSurrogateModels not yet implemented''"
| "stub_message GetSurrogateCalibration = ''GetSurrogateCalibration not yet implemented''"
| "stub_message TriggerSurrogateRecalibration = ''TriggerSurrogateRecalibration not yet implemented''"

text \<open>Code 12 is \<^verbatim>\<open>UNIMPLEMENTED\<close>.\<close>

definition stub :: "stub_request \<Rightarrow> unit handler" where
  "stub r = hreturn (Err (Status (OtherCode 12) (stub_message r)))"

section \<open>Guardrail alerts\<close>

record guardrail_alert =
  ga_experiment_id :: string
  ga_metric_id :: string
  ga_threshold :: f64
  ga_observed_value :: f64
  ga_breach_direction :: "string option"
  ga_consecutive_breaches :: "int option"

record lifecycle_event =
  lv_experiment_id :: uuid
  lv_state :: string
  lv_reason :: string

text \<open>
  What the consumer works on: the store it shares with the service, the messages it has put on the lifecycle
  topic, and the number of messages since the last commit of its offsets.
\<close>

record guardrail_consumer =
  gc_m5 :: m5
  gc_lifecycle :: "lifecycle_event list"
  gc_since_commit :: nat

datatype alert_message = NoPayload | Undecodable | Alert guardrail_alert

definition alert_reason :: "request_env \<Rightarrow> guardrail_alert \<Rightarrow> string" where
  "alert_reason env a =
     ''guardrail_auto_pause: metric='' @ ga_metric_id a @ '' threshold='' @ re_fixed env 4 (ga_threshold a) @
     '' observed='' @ re_fixed env 4 (ga_observed_value a) @ '' breaches='' @ show_int (unwrap_or 1 (ga_consecutive_breaches a))"

definition alert_details :: "guardrail_alert \<Rightarrow> json" where
  "alert_details a = JObject [(''metric_id'', JString (ga_metric_id a)), (''threshold'', json_of_f64 (ga_threshold a)),
     (''observed_value'', json_of_f64 (ga_observed_value a)),
     (''breach_direction'', case ga_breach_direction a of None \<Rightarrow> JNull | Some d \<Rightarrow> JString d),
     (''consecutive_breaches'', case ga_consecutive_breaches a of None \<Rightarrow> JNull | Some n \<Rightarrow> JInt n)]"

text \<open>\<open>sent\<close> tells whether there is a producer and the broker takes the message; a failure is only logged.\<close>

definition publish_lifecycle_event :: "bool \<Rightarrow> uuid \<Rightarrow> string \<Rightarrow> string \<Rightarrow> guardrail_consumer \<Rightarrow> guardrail_consumer" where
  "publish_lifecycle_event sent x st reason c =
     (if sent then c\<lparr>gc_lifecycle := gc_lifecycle c @ [\<lparr>lv_experiment_id = x, lv_state = st, lv_reason = reason\<rparr>]\<rparr> else c)"

definition consume_alert :: "request_env \<Rightarrow> bool \<Rightarrow> alert_message \<Rightarrow> guardrail_consumer \<Rightarrow> guardrail_consumer" where
  "consume_alert env sent msg c =
     (let counted = (\<lambda>c. c\<lparr>gc_since_commit := gc_since_commit c + 1\<rparr>) in
      case msg of
        NoPayload \<Rightarrow> counted c
      | Undecodable \<Rightarrow> counted c
      | Alert a \<Rightarrow>
          (case env_parse_uuid (re_m5 env) (ga_experiment_id a) of
             None \<Rightarrow> counted c
           | Some x \<Rightarrow>
               (let reason = alert_reason env a;
                    (result, db) = pause_transition x reason (m5_db (gc_m5 c));
                    c1 = c\<lparr>gc_m5 := (gc_m5 c)\<lparr>m5_db := db\<rparr>\<rparr>
                in counted (if result = Ok 1
                     then publish_lifecycle_event sent x ''PAUSED'' reason
                       (c1\<lparr>gc_m5 := snd (store_ignored (record_audit x ''guardrail_auto_pause'' ''system'' (Some ''RUNNING'') (Some ''PAUSED'')
                          (re_json env (alert_details a))) (gc_m5 c1))\<rparr>)
                     else c1))))"

section \<open>What validation guarantees\<close>

definition valid_experiment :: "m5_experiment \<Rightarrow> bool" where
  "valid_experiment e \<longleftrightarrow>
     px_audience_rule_id e = [] \<and> \<not> all_whitespace (pe_name e) \<and> \<not> all_whitespace (px_owner_email e) \<and>
     \<not> all_whitespace (px_primary_metric_id e) \<and> pe_layer_id e \<noteq> [] \<and> experiment_type_str (pe_type e) \<noteq> None \<and> pe_variants e \<noteq> [] \<and>
     (\<forall>v \<in> set (pe_variants e). is_finite (pv_traffic_fraction v)) \<and> sums_to_one (map pv_traffic_fraction (pe_variants e)) \<and>
     length (filter pv_is_control (pe_variants e)) = 1"

lemma require_Ok [simp]: "require b msg = Ok () \<longleftrightarrow> b"
  by (simp add: require_def invalid_argument_def)

lemma reject_non_finite_Ok: "reject_non_finite vs = Ok () \<longleftrightarrow> (\<forall>v \<in> set vs. is_finite (pv_traffic_fraction v))"
  by (induction vs) (auto simp: invalid_argument_def)

lemma validate_create_Ok: "validate_create env e = Ok () \<longleftrightarrow> valid_experiment e"
  by (auto simp: validate_create_def valid_experiment_def reject_audience_rule_def obind_Ok_iff reject_non_finite_Ok Let_def)

section \<open>Outcome of a creation\<close>

lemma hbind_hreturn_cases:
  assumes "hbind (hreturn r) k s = (res, s')"
  obtains x where "r = Ok x" "k x s = (res, s')"
  | "\<forall>x. res \<noteq> Ok x" "s' = s"
  using assms by (cases r) (auto simp: hbind_def hreturn_def)

lemma store_answer:
  assumes "store op s = (r, s1)"
  obtains r' db where "op (m5_db s) = (r', db)" "s1 = s\<lparr>m5_db := db\<rparr>" "\<forall>x. r = Ok x \<longleftrightarrow> r' = Ok x"
  using assms by (cases "op (m5_db s)"; cases "fst (op (m5_db s))") (auto simp: store_def dmap_err_def)

lemma get_variants_result:
  "get_variants x db = (r, db') \<Longrightarrow>
     (\<forall>vs. r = Ok vs \<longrightarrow> vs = sort_key vr_ordinal (filter (\<lambda>v. vr_experiment_id v = x) (db_variants db))) \<and> same_rows db db'"
  by (cases rule: query_cases [of "\<lambda>db. (sort_key vr_ordinal (filter (\<lambda>v. vr_experiment_id v = x) (db_variants db)), db)" db])
    (auto simp: get_variants_def same_rows_def)

lemma audit_rows: "same_rows db (snd (record_audit x a b c d e db))"
  by (auto simp: same_rows_def record_audit_def query_def Let_def split: list.split option.split)

lemma same_rows_trans: "same_rows a b \<Longrightarrow> same_rows b c \<Longrightarrow> same_rows a c"
  by (simp add: same_rows_def)

lemma inserted_same_rows: "inserted p x db d \<Longrightarrow> same_rows d d' \<Longrightarrow> inserted p x db d'"
  by (auto simp: inserted_def same_rows_def)

text \<open>The parameters a valid request is stored with.\<close>

definition params_of :: "request_env \<Rightarrow> m5_experiment \<Rightarrow> create_experiment_params \<Rightarrow> bool" where
  "params_of env e p \<longleftrightarrow> (\<exists>ty layer rule surrogate. experiment_type_str (pe_type e) = Some ty \<and> env_parse_uuid (re_m5 env) (pe_layer_id e) = Some layer \<and>
     p = create_params env e ty layer rule surrogate)"

lemma create_outcome:
  assumes "create_experiment env req s = (res, s')"
  shows "m5_events s' = m5_events s \<and>
    ((same_rows (m5_db s) (m5_db s') \<and> (\<forall>m. res \<noteq> Ok m)) \<or>
     (\<exists>e p x. req = Some e \<and> valid_experiment e \<and> params_of env e p \<and> inserted p x (m5_db s) (m5_db s') \<and>
        (\<forall>m. res = Ok m \<longrightarrow> m = experiment_row_to_proto (new_experiment_row p (m5_db s))
           (sort_key vr_ordinal (filter (\<lambda>v. vr_experiment_id v = x) (db_variants (m5_db s')))))))"
  using assms unfolding create_experiment_def
proof (elim hbind_hreturn_cases)
  fix e u layer rule surrogate ty
  assume ok: "ok_or (Status InvalidArgument ''experiment is required'') req = Ok e" "validate_create env e = Ok u"
    "ok_or (Status InvalidArgument ''invalid layer_id UUID'') (env_parse_uuid (re_m5 env) (pe_layer_id e)) = Ok layer"
    "ok_or (Status InvalidArgument ''experiment type unspecified'') (experiment_type_str (pe_type e)) = Ok ty"
  let ?p = "create_params env e ty layer rule surrogate"
  assume run: "hbind (store (store_create_experiment (re_texts env) ?p)) (\<lambda>row.
     hbind (store (get_variants (er_experiment_id row))) (\<lambda>variants.
     hbind (store_ignored (record_audit (er_experiment_id row) ''create'' (px_owner_email e) None (Some ''DRAFT'')
              (re_json env (JObject [(''name'', JString (er_name row)), (''type'', JString (er_experiment_type row))])))) (\<lambda>_.
       hreturn (Ok (experiment_row_to_proto row variants))))) s = (res, s')"
  have e: "req = Some e" "valid_experiment e" "params_of env e ?p"
    using ok by (auto simp: ok_or_Ok_iff validate_create_Ok params_of_def)
  obtain r1 s1 where 1: "store (store_create_experiment (re_texts env) ?p) s = (r1, s1)" by fastforce
  from store_answer [OF 1] obtain r1' db1 where db1: "store_create_experiment (re_texts env) ?p (m5_db s) = (r1', db1)" "s1 = s\<lparr>m5_db := db1\<rparr>"
    "\<forall>x. r1 = Ok x \<longleftrightarrow> r1' = Ok x" by blast
  note out = store_create_outcome [OF db1(1)]
  show ?thesis
  proof (cases "\<exists>row. r1 = Ok row")
    case False
    then have "(\<forall>m. res \<noteq> Ok m) \<and> s' = s1" using run 1 by (cases r1) (auto simp: hbind_def)
    then show ?thesis using out e db1 by auto
  next
    case True
    then obtain row where row: "r1 = Ok row" by blast
    then obtain x where x: "inserted ?p x (m5_db s) db1" "row = new_experiment_row ?p (m5_db s)"
      using out db1(3) by auto
    have id: "er_experiment_id row = x" using x by (simp add: inserted_def)
    obtain r2 s2 where 2: "store (get_variants x) s1 = (r2, s2)" by fastforce
    from store_answer [OF 2] obtain r2' db2 where db2: "get_variants x db1 = (r2', db2)" "s2 = s1\<lparr>m5_db := db2\<rparr>" "\<forall>v. r2 = Ok v \<longleftrightarrow> r2' = Ok v"
      using db1(2) by auto
    have vs: "same_rows db1 db2" "\<forall>vs. r2 = Ok vs \<longrightarrow> vs = sort_key vr_ordinal (filter (\<lambda>v. vr_experiment_id v = x) (db_variants db1))"
      using get_variants_result [OF db2(1)] db2(3) by auto
    have same: "same_rows db1 (m5_db s')" "m5_events s' = m5_events s"
      "\<forall>m. res = Ok m \<longrightarrow> (\<exists>vs. r2 = Ok vs \<and> m = experiment_row_to_proto row vs)"
      using run row 1 2 vs(1) db1(2) db2(2) id same_rows_trans [OF vs(1) audit_rows]
      by (cases r2; auto simp: hbind_def store_ignored_def hreturn_def)+
    have "inserted ?p x (m5_db s) (m5_db s')" using inserted_same_rows [OF x(1) same(1)] .
    moreover have "\<forall>m. res = Ok m \<longrightarrow> m = experiment_row_to_proto row (sort_key vr_ordinal (filter (\<lambda>v. vr_experiment_id v = x) (db_variants (m5_db s'))))"
      using same vs(2) by (auto simp: same_rows_def)
    ultimately show ?thesis using e same(2) x(2) by blast
  qed
qed (simp_all add: same_rows_def)

section \<open>Experiments stay well-formed\<close>

definition good_variants :: "variant_row list \<Rightarrow> bool" where
  "good_variants vs \<longleftrightarrow>
     (\<forall>v \<in> set vs. in_unit_check (vr_traffic_fraction v)) \<and> sums_to_one (map vr_traffic_fraction (sort_key vr_ordinal vs)) \<and>
     length (filter vr_is_control vs) = 1"

definition variants_of :: "uuid \<Rightarrow> database \<Rightarrow> variant_row list" where
  "variants_of x db = filter (\<lambda>v. vr_experiment_id v = x) (db_variants db)"

definition experiments_ok :: "database \<Rightarrow> bool" where
  "experiments_ok db \<longleftrightarrow> keyed er_experiment_id (db_experiments db) \<and> references_ok db \<and>
     (\<forall>x \<in> dom (db_experiments db). good_variants (variants_of x db))"

lemma update_keyed:
  assumes "\<And>now r. er_experiment_id (u now r) = er_experiment_id r" "keyed er_experiment_id (db_experiments db)"
  shows "keyed er_experiment_id (db_experiments (snd (query (update_experiments x g u) db)))"
  using assms
  by (cases rule: query_cases [of "update_experiments x g u" db]) (auto simp: update_experiments_def keyed_def split: option.split)

lemma update_dom: "dom (db_experiments (snd (query (update_experiments x g u) db))) = dom (db_experiments db)"
  by (cases rule: query_cases [of "update_experiments x g u" db]) (auto simp: update_experiments_def split: option.split)

lemma db_step_dom: "db_step A db db' \<Longrightarrow> dom (db_experiments db') = dom (db_experiments db)"
  by (induction rule: db_step.induct) (simp_all add: transition_defs update_dom)

lemma db_step_keyed: "db_step A db db' \<Longrightarrow> keyed er_experiment_id (db_experiments db) \<Longrightarrow> keyed er_experiment_id (db_experiments db')"
  by (induction rule: db_step.induct) (simp_all add: transition_defs update_keyed)

lemma experiments_ok_step: "db_step A db db' \<Longrightarrow> experiments_ok db \<Longrightarrow> experiments_ok db'"
  using db_step_dom [of A db db'] db_step_variants [of A db db'] db_step_keyed [of A db db']
  by (auto simp: experiments_ok_def references_ok_def variants_of_def dom_def set_eq_iff)

interpretation ok_kept: kept "\<lambda>s. experiments_ok (m5_db s)" UNIV
  by unfold_locales (auto simp: publish_event_def intro: experiments_ok_step)

lemma content_map: "map vr_traffic_fraction rs = map (\<lambda>c. fst (snd c)) (map variant_content rs)"
  "map vr_is_control rs = map (\<lambda>c. fst (snd (snd c))) (map variant_content rs)"
  by (simp_all add: variant_content_def)

lemma length_filter_map: "length (filter P xs) = length (filter (\<lambda>b. b) (map P xs))"
  by (simp add: filter_map comp_def)

text \<open>The variants of a new experiment are the ones that were validated.\<close>

lemma planned_request:
  assumes "params_of env e p"
  shows "map vr_traffic_fraction (planned_rows x k (ce_variants p) db) = map pv_traffic_fraction (pe_variants e)"
    and "length (filter vr_is_control (planned_rows x k (ce_variants p) db)) = length (filter pv_is_control (pe_variants e))"
proof -
  have c: "map variant_content (planned_rows x k (ce_variants p) db) = map (variant_params env) (pe_variants e)"
    using assms by (auto simp: planned_rows_content(1) params_of_def create_params_def)
  show "map vr_traffic_fraction (planned_rows x k (ce_variants p) db) = map pv_traffic_fraction (pe_variants e)"
    unfolding content_map c by (simp add: variant_params_def)
  have "map vr_is_control (planned_rows x k (ce_variants p) db) = map pv_is_control (pe_variants e)"
    unfolding content_map c by (simp add: variant_params_def)
  then show "length (filter vr_is_control (planned_rows x k (ce_variants p) db)) = length (filter pv_is_control (pe_variants e))"
    by (metis length_filter_map)
qed

lemma inserted_ok:
  assumes "experiments_ok db" "inserted p x db db'" "params_of env e p" "valid_experiment e" "length (pe_variants e) < 2 ^ 31"
  shows "experiments_ok db'"
proof -
  let ?new = "planned_rows x 0 (ce_variants p) (db\<lparr>db_next := db_next db + 1\<rparr>)"
  have len: "length (ce_variants p) < 2 ^ 31" using assms(3,5) by (auto simp: params_of_def create_params_def)
  have ok: "references_ok db" "keyed er_experiment_id (db_experiments db)" using assms(1) by (simp_all add: experiments_ok_def)
  note vars = inserted_variants [OF ok(1) assms(2) len]
  have "set (variants_of x db') = set ?new" using vars(1) by (metis set_sort variants_of_def)
  then have "in_unit_check (vr_traffic_fraction v)" if "v \<in> set (variants_of x db')" for v
    using assms(2) that planned_fractions [of x 0 "ce_variants p" "db\<lparr>db_next := db_next db + 1\<rparr>" in_unit_check] by (simp add: inserted_def)
  moreover have "length (filter vr_is_control (variants_of x db')) = length (filter vr_is_control ?new)"
    using vars(1) by (metis filter_sort length_sort variants_of_def)
  ultimately have new: "good_variants (variants_of x db')"
    using vars(1) planned_request [OF assms(3)] assms(4) by (simp add: good_variants_def variants_of_def valid_experiment_def)
  have old: "good_variants (variants_of y db')" if "y \<noteq> x" "y \<in> dom (db_experiments db')" for y
    using that assms(1,2) vars(2) [OF that(1)] by (auto simp: experiments_ok_def variants_of_def inserted_def)
  have "good_variants (variants_of y db')" if "y \<in> dom (db_experiments db')" for y
    using new old [of y] that by (cases "y = x") auto
  then show ?thesis
    using inserted_references [OF ok(1) assms(2)] inserted_keyed [OF ok(2) assms(2)] by (auto simp: experiments_ok_def)
qed

lemma create_keeps_ok:
  assumes "experiments_ok (m5_db s)" "\<forall>e. req = Some e \<longrightarrow> length (pe_variants e) < 2 ^ 31"
  shows "experiments_ok (m5_db (snd (create_experiment env req s)))"
proof -
  obtain res s' where run: "create_experiment env req s = (res, s')" by fastforce
  from create_outcome [OF run] consider "same_rows (m5_db s) (m5_db s')"
    | e p x where "req = Some e" "valid_experiment e" "params_of env e p" "inserted p x (m5_db s) (m5_db s')" by blast
  then have "experiments_ok (m5_db s')"
  proof cases
    case 1
    then show ?thesis using assms(1) by (simp add: experiments_ok_def same_rows_def references_ok_def variants_of_def)
  next
    case 2
    then show ?thesis using inserted_ok [OF assms(1)] assms(2) by blast
  qed
  then show ?thesis by (simp add: run)
qed

text \<open>The consumer of alerts works with the statements of the store.\<close>

lemma consume_alert_m5:
  obtains db where "gc_m5 (consume_alert env sent msg c) = (gc_m5 c)\<lparr>m5_db := db\<rparr>" "(db_step UNIV)\<^sup>*\<^sup>* (m5_db (gc_m5 c)) db"
proof (cases "\<exists>a x. msg = Alert a \<and> env_parse_uuid (re_m5 env) (ga_experiment_id a) = Some x")
  case True
  then obtain a x where a: "msg = Alert a" "env_parse_uuid (re_m5 env) (ga_experiment_id a) = Some x" by blast
  obtain r db1 where r: "pause_transition x (alert_reason env a) (m5_db (gc_m5 c)) = (r, db1)" by fastforce
  have 1: "db_step UNIV (m5_db (gc_m5 c)) db1" using db_step.intros(4) [of x UNIV] r by (metis UNIV_I snd_conv)
  let ?db2 = "snd (record_audit x ''guardrail_auto_pause'' ''system'' (Some ''RUNNING'') (Some ''PAUSED'') (re_json env (alert_details a)) db1)"
  have 2: "db_step UNIV db1 ?db2" by (rule db_step_audit)
  have "gc_m5 (consume_alert env sent msg c) = (gc_m5 c)\<lparr>m5_db := if r = Ok 1 then ?db2 else db1\<rparr>"
    using a r by (simp add: consume_alert_def Let_def publish_lifecycle_event_def)
  moreover have "(db_step UNIV)\<^sup>*\<^sup>* (m5_db (gc_m5 c)) (if r = Ok 1 then ?db2 else db1)"
    using 1 2 by (auto intro: rtranclp.rtrancl_into_rtrancl)
  ultimately show thesis by (rule that)
next
  case False
  then have "gc_m5 (consume_alert env sent msg c) = gc_m5 c"
    by (auto simp: consume_alert_def Let_def split: alert_message.split option.split)
  then show thesis by (intro that [of "m5_db (gc_m5 c)"]) auto
qed

section \<open>The requests as steps\<close>

text \<open>
  Whole requests of every kind, guardrail alerts, the spawned releases, and faults at any time. A request has
  fewer than \<open>2 ^ 31\<close> variants: the server accepts messages of at most four megabytes.
\<close>

inductive request_step :: "request_env \<Rightarrow> m5 \<Rightarrow> m5 \<Rightarrow> bool" for env where
  lifecycle: "m5_step (re_m5 env) s s' \<Longrightarrow> request_step env s s'"
| create: "\<forall>e. req = Some e \<longrightarrow> length (pe_variants e) < 2 ^ 31 \<Longrightarrow> request_step env s (snd (create_experiment env req s))"
| get: "request_step env s (snd (get_experiment_request env i s))"
| update: "request_step env s (snd (update_experiment env req s))"
| lists: "request_step env s (snd (list_experiments env q s))"
| layers: "request_step env s (snd (get_layer_allocations env l inc s))"
| stubbed: "request_step env s (snd (stub r s))"
| alert: "gc_m5 c = s \<Longrightarrow> request_step env s (gc_m5 (consume_alert env sent msg c))"

lemma read_only_list: "read_only (store_list_experiments sf tf ow n c)"
  unfolding store_list_experiments_def Let_def by (intro read_only_intros)

context kept
begin

lemma keeps_lists: "keeps K (experiments_with_variants rows)"
  by (induction rows) (auto intro!: keeps_rules)

lemma keeps_reads:
  "keeps K (get_experiment_request env i)" "keeps K (update_experiment env req)" "keeps K (list_experiments env q)"
  "keeps K (get_layer_allocations env l inc)" "keeps K (stub r)"
proof -
  have id: "keeps K (parse_id env' i)" for env' i
    unfolding parse_id_def by (rule keeps_hreturn)
  show "keeps K (get_experiment_request env i)"
    unfolding get_experiment_request_def by (intro keeps_rules id)
  show "keeps K (update_experiment env req)"
    unfolding update_experiment_def by (intro keeps_rules id) (auto intro!: keeps_rules)
  show "keeps K (list_experiments env q)"
    unfolding list_experiments_def
    by (intro keeps_rules db_step_read_only read_only_list) (auto intro!: keeps_rules keeps_lists split: prod.split)
  show "keeps K (stub r)" unfolding stub_def by (rule keeps_hreturn)
  have al: "K s \<Longrightarrow> K (s\<lparr>m5_db := snd (list_allocations l' inc (m5_db s))\<rparr>)" for l' s
    by (intro kept_db db_step_read_only read_only_allocator)
  have "snd (case list_allocations l' inc (m5_db s) of (Ok as, db) \<Rightarrow> (Ok as, s\<lparr>m5_db := db\<rparr>)
        | (Err err, db) \<Rightarrow> (Err (Status Internal (''allocation query error: '' @ re_allocator_text env err)), s\<lparr>m5_db := db\<rparr>)
        | (Panic, db) \<Rightarrow> (Panic, s\<lparr>m5_db := db\<rparr>)) = s\<lparr>m5_db := snd (list_allocations l' inc (m5_db s))\<rparr>" for l' and s :: m5
    by (simp split: prod.split outcome.split)
  then show "keeps K (get_layer_allocations env l inc)"
    unfolding get_layer_allocations_def using al by (intro keeps_hbind keeps_hreturn) (simp add: keeps_def)
qed

lemma kept_alert:
  assumes "K (gc_m5 c)" "A = UNIV"
  shows "K (gc_m5 (consume_alert env sent msg c))"
proof -
  obtain db where db: "gc_m5 (consume_alert env sent msg c) = (gc_m5 c)\<lparr>m5_db := db\<rparr>" "(db_step UNIV)\<^sup>*\<^sup>* (m5_db (gc_m5 c)) db"
    using consume_alert_m5 .
  from db(2) have "K ((gc_m5 c)\<lparr>m5_db := db\<rparr>)"
  proof (induction rule: rtranclp_induct)
    case (step d d')
    then show ?case using kept_db [of "(gc_m5 c)\<lparr>m5_db := d\<rparr>" d'] assms(2) by simp
  qed (use assms(1) in simp)
  then show ?thesis by (simp add: db(1))
qed

text \<open>Whatever is kept by the statements and by creations is kept by all requests.\<close>

lemma kept_request:
  assumes "request_step env s s'" "K s" "A = UNIV"
    and "\<And>req s. K s \<Longrightarrow> \<forall>e. req = Some e \<longrightarrow> length (pe_variants e) < 2 ^ 31 \<Longrightarrow> K (snd (create_experiment env req s))"
  shows "K s'"
  using assms(1,2)
proof cases
  case lifecycle
  then show ?thesis using kept_step assms(2,3) by blast
next
  case (create req)
  then show ?thesis using assms(2,4) by blast
next
  case (alert c sent msg)
  then show ?thesis using kept_alert assms(2,3) by blast
qed (use assms(2) keeps_reads in \<open>auto simp: keeps_def\<close>)

end

definition empty_tables :: "m5 \<Rightarrow> bool" where
  "empty_tables s \<longleftrightarrow> db_experiments (m5_db s) = Map.empty \<and> db_variants (m5_db s) = []"

lemma reachable_ok: "reach empty_tables (request_step env) s \<Longrightarrow> experiments_ok (m5_db s)"
proof (induction rule: reach.induct)
  case (reach_init s)
  then show ?case by (simp add: experiments_ok_def keyed_def references_ok_def empty_tables_def)
next
  case (reach_step s t)
  then show ?case using ok_kept.kept_request create_keeps_ok by blast
qed

text \<open>
  C8: Experiments stay well-formed: in every state that M5 reaches from empty tables, by any sequence of requests,
  alerts and database faults, every experiment has exactly one control variant, its fractions are between 0
  and 1 and sum to 1 within the tolerance, and every variant belongs to a stored experiment.
\<close>

theorem experiments_stay_well_formed:
  assumes "reach empty_tables (request_step env) s" "db_experiments (m5_db s) x = Some r"
  shows "length (filter vr_is_control (variants_of x (m5_db s))) = 1 \<and>
    (\<forall>v \<in> set (variants_of x (m5_db s)). in_unit_check (vr_traffic_fraction v)) \<and>
    sums_to_one (map vr_traffic_fraction (sort_key vr_ordinal (variants_of x (m5_db s)))) \<and>
    (\<forall>v \<in> set (db_variants (m5_db s)). db_experiments (m5_db s) (vr_experiment_id v) \<noteq> None)"
  using reachable_ok [OF assms(1)] assms(2) by (auto simp: experiments_ok_def good_variants_def references_ok_def)

lemma create_keeps_retired:
  assumes "\<exists>st \<in> retired. state_of (m5_db s) x = Some st"
  shows "\<exists>st \<in> retired. state_of (m5_db (snd (create_experiment env req s))) x = Some st"
proof -
  obtain res s' where run: "create_experiment env req s = (res, s')" by fastforce
  from create_outcome [OF run] have "db_experiments (m5_db s') x = db_experiments (m5_db s) x \<or> db_experiments (m5_db s) x = None"
    by (auto simp: same_rows_def inserted_def)
  then show ?thesis using assms by (auto simp: run state_of_def)
qed

text \<open>
  C6: Once an experiment has begun to conclude, no sequence of the requests on experiments and layers, alerts, spawned
  tasks and database faults brings it back: it stays concluding, concluded or archived. (The requests on metrics
  and on the portfolio, which write no experiment, are in theories of their own.)
\<close>

theorem no_request_revives:
  assumes "(request_step env)\<^sup>*\<^sup>* s s'" "state_of (m5_db s) x \<in> {Some Concluding, Some Concluded, Some Archived}"
  shows "state_of (m5_db s') x \<in> {Some Concluding, Some Concluded, Some Archived}"
proof -
  have "\<exists>st \<in> retired. state_of (m5_db s) x = Some st" using assms(2) by (auto simp: retired_def)
  with assms(1) have "\<exists>st \<in> retired. state_of (m5_db s') x = Some st"
  proof (induction rule: rtranclp_induct)
    case (step y z)
    then show ?case using retired_kept.kept_request [OF step.hyps(2), of x] create_keeps_retired by blast
  qed
  then show ?thesis by (auto simp: retired_def)
qed

section \<open>Creations that succeed\<close>

definition known_reference :: "request_env \<Rightarrow> uuid list \<Rightarrow> string \<Rightarrow> bool" where
  "known_reference env known s \<longleftrightarrow> s = [] \<or> (\<exists>u \<in> set known. env_parse_uuid (re_m5 env) s = Some u)"

lemma known_reference_Ok: "known_reference env known s \<Longrightarrow> \<exists>u. optional_uuid env msg s = Ok u \<and> null_or (\<lambda>u. u \<in> set known) u"
  by (auto simp: known_reference_def optional_uuid_def null_or_def)

lemma type_str_types: "experiment_type_str n = Some ty \<Longrightarrow> ty \<in> set experiment_types"
  by (auto simp: experiment_type_str_def experiment_types_def split: if_splits)

lemma sequential_str_known: "null_or (\<lambda>m. m \<in> {''MSPRT'', ''GST_OBF'', ''GST_POCOCK'', ''AVLM''}) (Option.bind c (\<lambda>c. sequential_method_str (pqs_method c)))"
  by (auto simp: null_or_def sequential_method_str_def split: option.split bind_splits if_splits)

lemma create_succeeds:
  assumes "db_faults (m5_db s) = []" "fresh_supply (m5_db s)" "references_ok (m5_db s)" "valid_experiment e"
    and "env_parse_uuid (re_m5 env) (pe_layer_id e) = Some layer" "db_layers (m5_db s) layer \<noteq> None"
    and "known_reference env (db_targeting_rules (m5_db s)) (px_targeting_rule_id e)"
    and "known_reference env (db_surrogate_models (m5_db s)) (px_surrogate_model_id e)"
    and "\<forall>v \<in> set (pe_variants e). in_unit_check (pv_traffic_fraction v)"
  shows "\<exists>m s'. create_experiment env (Some e) s = (Ok m, s') \<and> db_faults (m5_db s') = []"
proof -
  obtain ty where ty: "experiment_type_str (pe_type e) = Some ty" using assms(4) by (auto simp: valid_experiment_def)
  obtain rule where rule: "optional_uuid env ''invalid targeting_rule_id UUID'' (px_targeting_rule_id e) = Ok rule"
    "null_or (\<lambda>u. u \<in> set (db_targeting_rules (m5_db s))) rule" using known_reference_Ok [OF assms(7)] by blast
  obtain sur where sur: "optional_uuid env ''invalid surrogate_model_id UUID'' (px_surrogate_model_id e) = Ok sur"
    "null_or (\<lambda>u. u \<in> set (db_surrogate_models (m5_db s))) sur" using known_reference_Ok [OF assms(8)] by blast
  have val: "validate_create env e = Ok ()" using assms(4) by (simp add: validate_create_Ok)
  define p where "p = create_params env e ty layer rule sur"
  let ?row = "new_experiment_row p (m5_db s)"
  have row: "er_experiment_type ?row = ty" "er_guardrail_action ?row \<in> {''AUTO_PAUSE'', ''ALERT_ONLY''}" "er_layer_id ?row = layer"
    "er_targeting_rule_id ?row = rule" "er_surrogate_model_id ?row = sur"
    "er_sequential_method ?row = Option.bind (px_sequential_test_config e) (\<lambda>c. sequential_method_str (pqs_method c))"
    by (simp_all add: new_experiment_row_def p_def create_params_def)
  have "db_experiments (m5_db s) (er_experiment_id ?row) = None" using assms(2) by (simp add: fresh_supply_def)
  then have viol: "experiment_violation (m5_db s) ?row = None"
    using type_str_types [OF ty] sequential_str_known rule(2) sur(2) assms(6) row by (simp add: experiment_violation_def)
  have vs: "ce_variants p = map (variant_params env) (pe_variants e)" by (simp add: p_def create_params_def)
  have "length (filter (\<lambda>(n, f, c, t). c) (ce_variants p)) = length (filter pv_is_control (pe_variants e))"
    by (simp add: vs filter_map comp_def variant_params_def)
  then have one: "length (filter (\<lambda>(n, f, c, t). c) (ce_variants p)) \<le> 1" using assms(4) by (simp add: valid_experiment_def)
  have unit: "\<forall>(n, f, c, t) \<in> set (ce_variants p). in_unit_check f" using assms(9) by (auto simp: vs variant_params_def)
  obtain db1 where 1: "store_create_experiment (re_texts env) p (m5_db s) = (Ok ?row, db1)" "db_faults db1 = []"
    using store_create_succeeds [OF assms(1-3) viol unit one] by blast
  have st: "store (store_create_experiment (re_texts env) p) s = (Ok ?row, s\<lparr>m5_db := db1\<rparr>)" using 1 by (simp add: store_def)
  obtain vrs where 2: "store (get_variants (er_experiment_id ?row)) (s\<lparr>m5_db := db1\<rparr>) = (Ok vrs, s\<lparr>m5_db := db1\<rparr>)"
    using 1(2) by (simp add: get_variants_def store_no_fault del: new_row_id)
  show ?thesis
    unfolding create_experiment_def
    using st 2 1(2) by (simp add: hbind_def hreturn_def val assms(5) rule(1) sur(1) ty p_def [symmetric] record_audit_def store_ignored_def
        del: new_row_id)
qed

section \<open>A sample service without experiments\<close>

definition plain_env :: request_env where
  "plain_env = \<lparr>re_m5 = Management_Service.sample_env, re_texts = (\<lambda>_. ''constraint''), re_parse_json = (\<lambda>_. None),
     re_json = (\<lambda>_. ''{}''), re_fixed = (\<lambda>_ _. ''0''), re_allocator_text = (\<lambda>_. ''allocator'')\<rparr>"

definition empty_service :: m5 where
  "empty_service = \<lparr>m5_db = empty_layer_db, m5_version = 1, m5_events = [], m5_spawned = []\<rparr>"

definition half_variant :: "string \<Rightarrow> bool \<Rightarrow> proto_variant" where
  "half_variant n c = \<lparr>pv_variant_id = [], pv_name = n, pv_traffic_fraction = Fin (1 / 2), pv_is_control = c, pv_payload_json = []\<rparr>"

definition sample_request :: m5_experiment where
  "sample_request = (sample_m5_experiment 1)\<lparr>pe_experiment_id := [], pe_variants := [half_variant ''a'' True, half_variant ''b'' False],
     px_meta_experiment_config := None\<rparr>"

lemma halves_sum: "sums_to_one [Fin (1 / 2), Fin (1 / 2)]"
proof -
  have "f64_round 1 = Fin 1" "f64_round 0 = Fin 0" "f64_round (1 / 2) = Fin (1 / 2)"
    using f64_round_of_int [of 1] f64_round_of_int [of 0] f64_round_representable [OF half_representable] by simp_all
  moreover have "\<not> f64_lt (f64_round (1 / 1000000)) (Fin 0)"
    using f64_round_nonneg [of "1 / 1000000"] by auto
  ultimately show ?thesis by (simp add: sums_to_one_def sum_fractions_def f64_sub_def)
qed

lemma sample_request_valid: "valid_experiment sample_request"
  using halves_sum
  by (simp add: valid_experiment_def sample_request_def sample_m5_experiment_def half_variant_def experiment_type_str_def)

lemma sample_created:
  obtains m s1 x where "create_experiment plain_env (Some sample_request) empty_service = (Ok m, s1)" "db_experiments (m5_db s1) x \<noteq> None"
proof -
  have "db_faults (m5_db empty_service) = []" "fresh_supply (m5_db empty_service)" "references_ok (m5_db empty_service)"
    "env_parse_uuid (re_m5 plain_env) (pe_layer_id sample_request) = Some ''L''" "db_layers (m5_db empty_service) ''L'' \<noteq> None"
    "known_reference plain_env (db_targeting_rules (m5_db empty_service)) (px_targeting_rule_id sample_request)"
    "known_reference plain_env (db_surrogate_models (m5_db empty_service)) (px_surrogate_model_id sample_request)"
    "\<forall>v \<in> set (pe_variants sample_request). in_unit_check (pv_traffic_fraction v)"
    by (simp_all add: empty_service_def empty_layer_db_def fresh_supply_def references_ok_def inj_show_nat plain_env_def sample_env_def
        sample_request_def sample_m5_experiment_def known_reference_def half_variant_def)
  from create_succeeds [OF this(1-3) sample_request_valid this(4-8)] obtain m s1 where
    c: "create_experiment plain_env (Some sample_request) empty_service = (Ok m, s1)" by blast
  from create_outcome [OF c] obtain p x where "inserted p x (m5_db empty_service) (m5_db s1)" by blast
  then have "db_experiments (m5_db s1) x \<noteq> None" by (auto simp: inserted_def)
  with c show thesis by (rule that)
qed

theorem experiments_stay_well_formed_witness:
  "\<exists>m s1 x. create_experiment plain_env (Some sample_request) empty_service = (Ok m, s1) \<and>
    length (filter vr_is_control (variants_of x (m5_db s1))) = 1"
proof -
  obtain m s1 x where c: "create_experiment plain_env (Some sample_request) empty_service = (Ok m, s1)" "db_experiments (m5_db s1) x \<noteq> None"
    by (rule sample_created)
  have "reach empty_tables (request_step plain_env) empty_service"
    by (rule reach_init) (simp add: empty_tables_def empty_service_def empty_layer_db_def)
  moreover have "request_step plain_env empty_service (snd (create_experiment plain_env (Some sample_request) empty_service))"
    by (rule request_step.create) (simp add: sample_request_def)
  ultimately have "reach empty_tables (request_step plain_env) s1" using c(1) by (metis reach_step snd_conv)
  from experiments_stay_well_formed [OF this] c show ?thesis by blast
qed

theorem no_request_revives_witness:
  "state_of (m5_db (snd (update_experiment plain_env None (sample_m5 (row_in ''CONCLUDED'') [])))) ''x'' \<in> {Some Concluding, Some Concluded, Some Archived}"
proof (rule no_request_revives [where env = plain_env])
  show "(request_step plain_env)\<^sup>*\<^sup>* (sample_m5 (row_in ''CONCLUDED'') []) (snd (update_experiment plain_env None (sample_m5 (row_in ''CONCLUDED'') [])))"
    by (rule r_into_rtranclp, rule request_step.update)
qed (simp add: state_of_def from_db_str_def)

end
