(* ===== verification/Control_Plane.thy ===== *)
theory Control_Plane
  imports Assignment_Service Experiment_Requests
begin

text \<open>
  The two ends of the configuration stream. M5 publishes events when an experiment is created, started and
  paused; M1 applies the updates it receives to its cache and serves the cached configuration. The
  updates M1 decodes are those of the assignment service (\<^verbatim>\<open>stream_client.rs\<close>), the events of this M5 those of the
  management service (\<^verbatim>\<open>grpc.rs\<close>): no code under \<^verbatim>\<open>src\<close> turns one into the other, so the theorems are about one
  end each.
\<close>

section \<open>What M1 serves of an update\<close>







section \<open>What M5 announces of a new experiment\<close>

text \<open>What a reader of an experiment sees of its variants: their names, shares and roles.\<close>

abbreviation roles :: "proto_variant list \<Rightarrow> (string \<times> f64 \<times> bool) list" where
  "roles vs \<equiv> map (\<lambda>v. (pv_name v, pv_traffic_fraction v, pv_is_control v)) vs"


lemma same_roles_finite:
  assumes "roles vs = roles (pe_variants e)" "valid_experiment e"
  shows "(\<forall>v \<in> set vs. is_finite (pv_traffic_fraction v)) \<and> vs \<noteq> []"
proof -
  have third: "map pv_traffic_fraction vs = map (\<lambda>t. fst (snd t)) (roles vs)" for vs by simp
  have fr: "map pv_traffic_fraction vs = map pv_traffic_fraction (pe_variants e)" by (simp only: third assms(1))
  have "\<forall>f \<in> set (map pv_traffic_fraction (pe_variants e)). is_finite f" using assms(2) by (simp add: valid_experiment_def)
  then have "\<forall>f \<in> set (map pv_traffic_fraction vs). is_finite f" by (simp only: fr)
  moreover have "vs \<noteq> []" using fr assms(2) by (auto simp: valid_experiment_def)
  ultimately show ?thesis by simp
qed


section \<open>The salt of a new experiment\<close>

lemma create_params_salt:
  "validate_create env (e\<lparr>pe_hash_salt := salt\<rparr>) = validate_create env e"
  "create_params env (e\<lparr>pe_hash_salt := salt\<rparr>) = create_params env e"
  by (simp_all add: validate_create_def reject_audience_rule_def create_params_def build_type_config_def fun_eq_iff)

lemma hbind_value: "hbind (hreturn (Ok x)) k = k x"
  by (simp add: hbind_def hreturn_def fun_eq_iff)

text \<open>
  C33: M5 draws the salt of a new experiment itself. In every state, and whatever statements fail, a request for
  an experiment with another salt is the same request: same answer, same tables, same events. When it succeeds,
  the stored row and the answer have the salt that the default of the column generated, and so has every event
  made of the row. A promoted flag, whose request names the salt of the flag, gets new groups.
\<close>

theorem requested_salt_ignored:
  "create_experiment env (Some (e\<lparr>pe_hash_salt := salt\<rparr>)) s = create_experiment env (Some e) s \<and>
    (\<forall>m s1. create_experiment env (Some e) s = (Ok m, s1) \<longrightarrow>
       pe_hash_salt m = db_salts (m5_db s) (db_next (m5_db s)) \<and>
       (\<exists>r. db_experiments (m5_db s1) (pe_experiment_id m) = Some r \<and> er_hash_salt r = pe_hash_salt m \<and>
         (\<forall>vs. pe_hash_salt (experiment_row_to_proto r vs) = pe_hash_salt m)))"
proof (intro conjI allI impI)
  show "create_experiment env (Some (e\<lparr>pe_hash_salt := salt\<rparr>)) s = create_experiment env (Some e) s"
    by (simp add: create_experiment_def hbind_value create_params_salt)
next
  fix m s1
  assume "create_experiment env (Some e) s = (Ok m, s1)"
  from create_outcome [OF this] obtain p x where p: "inserted p x (m5_db s) (m5_db s1)"
    "m = experiment_row_to_proto (new_experiment_row p (m5_db s)) (sort_key vr_ordinal (filter (\<lambda>v. vr_experiment_id v = x) (db_variants (m5_db s1))))"
    by auto
  have r: "db_experiments (m5_db s1) x = Some (new_experiment_row p (m5_db s))" "er_experiment_id (new_experiment_row p (m5_db s)) = x"
    using p(1) new_row_id by (simp_all add: inserted_def)
  show "pe_hash_salt m = db_salts (m5_db s) (db_next (m5_db s))"
    by (simp add: p(2) experiment_row_to_proto_def new_experiment_row_def)
  show "\<exists>r. db_experiments (m5_db s1) (pe_experiment_id m) = Some r \<and> er_hash_salt r = pe_hash_salt m \<and>
      (\<forall>vs. pe_hash_salt (experiment_row_to_proto r vs) = pe_hash_salt m)"
    using r by (intro exI [of _ "new_experiment_row p (m5_db s)"]) (simp add: p(2) experiment_row_to_proto_def)
qed

section \<open>Pausing on a guardrail\<close>

lemma paused_name: "enum_str experiment_state_names ''EXPERIMENT_STATE_'' 7 = ''PAUSED''"
  by (simp add: enum_str_def experiment_state_names_def strip_prefix_def)

lemma unit_finite: "in_unit_check f \<Longrightarrow> is_finite f"
  by (cases f) simp_all

lemma pause_run:
  assumes "db_faults (m5_db s) = []" "env_parse_uuid env req = Some x" "db_experiments (m5_db s) x = Some r" "er_state r = ''RUNNING''"
  shows "\<exists>proto s'. pause_experiment env req g reason s = (Ok proto, s') \<and> pe_experiment_id proto = er_experiment_id r \<and> pe_state proto = 7 \<and>
    pe_variants proto = map variant_row_to_proto (sort_key vr_ordinal (variants_of x (m5_db s))) \<and>
    m5_events s' = m5_events s @ [\<lparr>ev_experiment = Some proto, ev_is_deletion = False, ev_version = m5_version s\<rparr>] \<and>
    state_of (m5_db s') x = Some Paused"
proof -
  let ?now = "db_now (m5_db s)" and ?reason = "if g then ''guardrail_auto_pause: '' @ reason else ''manual_pause: '' @ reason"
  define r1 where "r1 = r\<lparr>er_state := ''PAUSED'', er_paused_at := Some ?now, er_pause_reason := Some ?reason, er_updated_at := ?now\<rparr>"
  define s1 where "s1 = s\<lparr>m5_db := (m5_db s)\<lparr>db_experiments := (db_experiments (m5_db s))(x \<mapsto> r1)\<rparr>\<rparr>"
  have 1: "store (pause_transition x ?reason) s = (Ok 1, s1)"
    using assms by (simp add: pause_transition_def store_no_fault update_experiments_def s1_def r1_def)
  have f1: "db_faults (m5_db s1) = []" "db_experiments (m5_db s1) x = Some r1" using assms by (simp_all add: s1_def)
  define vs where "vs = sort_key vr_ordinal (variants_of x (m5_db s))"
  have 2: "store (get_variants x) s1 = (Ok vs, s1)" using f1 by (simp add: get_variants_def store_no_fault vs_def variants_of_def s1_def)
  obtain d where 3: "store_ignored (record_audit x (if g then ''guardrail_auto_pause'' else ''pause'') (er_owner_email r1) (Some ''RUNNING'') (Some ''PAUSED'')
      (env_json_reason env ?reason)) s1 = (Ok (), s1\<lparr>m5_db := (m5_db s1)\<lparr>db_audit := d\<rparr>\<rparr>)"
    using f1 by (auto simp: record_audit_def store_ignored_no_fault)
  have "pause_experiment env req g reason s =
      hbind (publish_event (experiment_row_to_proto r1 vs) False) (\<lambda>_. hreturn (Ok (experiment_row_to_proto r1 vs)))
        (s1\<lparr>m5_db := (m5_db s1)\<lparr>db_audit := d\<rparr>\<rparr>)"
    unfolding pause_experiment_def Let_def
    using 1 2 3 by (cases g) (simp_all add: hbind_Ok parse_id_Ok [OF assms(2)] store_get_experiment [OF f1] cong: if_cong)
  then show ?thesis
    by (simp add: hbind_def publish_event_def hreturn_def experiment_row_to_proto_def proto_state_def s1_def r1_def state_of_def from_db_str_def vs_def)
qed

lemma alert_run:
  assumes "db_faults (m5_db (gc_m5 c)) = []" "env_parse_uuid (re_m5 env) (ga_experiment_id a) = Some x"
    and "db_experiments (m5_db (gc_m5 c)) x = Some r" "er_state r = ''RUNNING''"
  shows "state_of (m5_db (gc_m5 (consume_alert env sent (Alert a) c))) x = Some Paused"
    and "m5_events (gc_m5 (consume_alert env sent (Alert a) c)) = m5_events (gc_m5 c)"
  using assms
  by (auto simp: consume_alert_def Let_def pause_transition_def update_experiments_def publish_lifecycle_event_def record_audit_def store_ignored_def
      state_of_def from_db_str_def)

lemma alert_silent:
  "m5_events (gc_m5 (consume_alert env sent msg c)) = m5_events (gc_m5 c) \<and> m5_version (gc_m5 (consume_alert env sent msg c)) = m5_version (gc_m5 c)"
  by (auto simp: consume_alert_def publish_lifecycle_event_def Let_def split: alert_message.split option.split prod.split)

text \<open>
  C32: A guardrail pause is not on the configuration stream. Whatever the message is and whatever fails, the
  consumer of the alerts publishes no event there. When no statement fails, an alert for a running experiment pauses it
  in the database, whatever its guardrail action is, and adds one message to the lifecycle topic of Kafka, if
  the broker takes it. A pause request for the same experiment publishes the event of the paused experiment.
\<close>

theorem guardrail_pause_unannounced:
  assumes "db_faults (m5_db (gc_m5 c)) = []" "env_parse_uuid (re_m5 env) (ga_experiment_id a) = Some x"
    and "db_experiments (m5_db (gc_m5 c)) x = Some r" "er_state r = ''RUNNING''"
  shows "m5_events (gc_m5 (consume_alert env' sent msg c')) = m5_events (gc_m5 c') \<and>
    m5_version (gc_m5 (consume_alert env' sent msg c')) = m5_version (gc_m5 c') \<and>
    state_of (m5_db (gc_m5 (consume_alert env sent (Alert a) c))) x = Some Paused \<and>
    gc_lifecycle (consume_alert env sent (Alert a) c) = gc_lifecycle c @
      (if sent then [\<lparr>lv_experiment_id = x, lv_state = ''PAUSED'', lv_reason = alert_reason env a\<rparr>] else []) \<and>
    (\<exists>proto s'. pause_experiment (re_m5 env) (ga_experiment_id a) g reason (gc_m5 c) = (Ok proto, s') \<and>
       state_of (m5_db s') x = Some Paused \<and> pe_experiment_id proto = er_experiment_id r \<and> pe_state proto = 7 \<and>
       m5_events s' = m5_events (gc_m5 c) @ [\<lparr>ev_experiment = Some proto, ev_is_deletion = False, ev_version = m5_version (gc_m5 c)\<rparr>])"
proof -
  have "gc_lifecycle (consume_alert env sent (Alert a) c) = gc_lifecycle c @
      (if sent then [\<lparr>lv_experiment_id = x, lv_state = ''PAUSED'', lv_reason = alert_reason env a\<rparr>] else [])"
    using assms by (auto simp: consume_alert_def Let_def pause_transition_def update_experiments_def publish_lifecycle_event_def)
  then show ?thesis using alert_silent [of env' sent msg c'] alert_run(1) [OF assms] pause_run [OF assms] by blast
qed

section \<open>Witnesses of the requests and updates\<close>

definition sample_update :: "string \<Rightarrow> config_update" where
  "sample_update x = \<lparr>cu_experiment = Some \<lparr>pe_experiment_id = x, pe_name = ''n'', pe_state = 3, pe_type = 1, pe_hash_salt = ''s'', pe_layer_id = ''L'',
     pe_variants = [half_variant ''a'' True, half_variant ''b'' False], pe_is_cumulative_holdout = False\<rparr>, cu_is_deletion = False, cu_version = 1\<rparr>"






theorem requested_salt_ignored_witness:
  "\<exists>m s1. create_experiment plain_env (Some (sample_request\<lparr>pe_hash_salt := ''flag''\<rparr>)) empty_service = (Ok m, s1) \<and>
    pe_hash_salt m = db_salts (m5_db empty_service) (db_next (m5_db empty_service))"
proof -
  obtain m s1 x where c: "create_experiment plain_env (Some sample_request) empty_service = (Ok m, s1)" "db_experiments (m5_db s1) x \<noteq> None"
    by (rule sample_created)
  then show ?thesis
    using requested_salt_ignored [where env = plain_env and e = sample_request and salt = "''flag''" and s = empty_service] by (intro exI [of _ m] exI [of _ s1]) simp
qed

definition guarded_row :: experiment_row where
  "guarded_row = (row_in ''RUNNING'')\<lparr>er_guardrail_action := ''ALERT_ONLY''\<rparr>"

definition guarded_service :: m5 where
  "guarded_service = \<lparr>m5_db = (db_with guarded_row)\<lparr>db_variants :=
     [\<lparr>vr_variant_id = ''v'', vr_experiment_id = ''x'', vr_name = ''n'', vr_traffic_fraction = Fin 1, vr_is_control = True, vr_payload_json = ''{}'', vr_ordinal = 0\<rparr>]\<rparr>,
     m5_version = 1, m5_events = [], m5_spawned = []\<rparr>"

definition sample_alert :: guardrail_alert where
  "sample_alert = \<lparr>ga_experiment_id = ''x'', ga_metric_id = ''m'', ga_threshold = Fin 1, ga_observed_value = Fin 2, ga_breach_direction = None,
     ga_consecutive_breaches = None\<rparr>"

theorem guardrail_pause_unannounced_witness:
  "state_of (m5_db (gc_m5 (consume_alert plain_env True (Alert sample_alert) \<lparr>gc_m5 = guarded_service, gc_lifecycle = [], gc_since_commit = 0\<rparr>))) ''x'' = Some Paused \<and>
    m5_events (gc_m5 (consume_alert plain_env True (Alert sample_alert) \<lparr>gc_m5 = guarded_service, gc_lifecycle = [], gc_since_commit = 0\<rparr>)) = [] \<and>
    er_guardrail_action guarded_row = ''ALERT_ONLY''"
proof -
  let ?c = "\<lparr>gc_m5 = guarded_service, gc_lifecycle = [], gc_since_commit = 0\<rparr>"
  have h: "db_faults (m5_db (gc_m5 ?c)) = []" "env_parse_uuid (re_m5 plain_env) (ga_experiment_id sample_alert) = Some ''x''"
    "db_experiments (m5_db (gc_m5 ?c)) ''x'' = Some guarded_row" "er_state guarded_row = ''RUNNING''"
    by (simp_all add: guarded_service_def db_with_def plain_env_def Management_Service.sample_env_def sample_alert_def guarded_row_def row_in_def)
  from guardrail_pause_unannounced [OF h, where msg = NoPayload and sent = True]
  show ?thesis using alert_silent [of plain_env True "Alert sample_alert" ?c] by (auto simp: guarded_service_def guarded_row_def)
qed

section \<open>Leaving the cache of M1\<close>

text \<open>The key under which M1 looks for the experiment of an update; that of an update without one is empty.\<close>

definition update_key :: "config_update \<Rightarrow> string" where
  "update_key u = (case cu_experiment u of None \<Rightarrow> [] | Some p \<Rightarrow> pe_experiment_id p)"

lemma apply_deletion:
  assumes "cu_is_deletion u"
  shows "\<exists>c'. apply_update xs ls u c = (Ok c' :: ('e, config_cache) outcome) \<and>
    cc_experiments c' = (cc_experiments c)(update_key u := None) \<and> cc_layers c' = cc_layers c"
  using assms by (simp add: apply_update_def Let_def update_key_def publish_def bump_version_def)

lemma apply_update_other:
  assumes "apply_update xs ls u c = (Ok c' :: ('e, config_cache) outcome)" "update_key u \<noteq> x"
  shows "cc_experiments c' x = cc_experiments c x \<and> (\<forall>l L. cc_layers c l = Some L \<longrightarrow> cc_layers c' l = Some L)"
proof (cases "cu_is_deletion u")
  case True
  then show ?thesis using apply_deletion [OF True, of xs ls c, where 'e = 'e] assms by auto
next
  case False
  from assms(1) show ?thesis
  proof (cases rule: apply_update_cases)
    case (upsert p e)
    then show ?thesis using assms(2) by (auto simp: register_layer_def update_key_def)
  qed (use False in simp_all)
qed

lemma apply_updates_other:
  assumes "apply_updates xs ls us c = (Ok c' :: ('e, config_cache) outcome)" "x \<notin> update_key ` set us"
  shows "cc_experiments c' x = cc_experiments c x \<and> (\<forall>l L. cc_layers c l = Some L \<longrightarrow> cc_layers c' l = Some L)"
  using assms
proof (induction us arbitrary: c)
  case (Cons u us)
  then obtain d where d: "apply_update xs ls u c = (Ok d :: ('e, config_cache) outcome)" "apply_updates xs ls us d = (Ok c' :: ('e, config_cache) outcome)"
    by (auto simp: outcome_simps)
  have "cc_experiments d x = cc_experiments c x \<and> (\<forall>l L. cc_layers c l = Some L \<longrightarrow> cc_layers d l = Some L)"
    using Cons.prems(2) by (intro apply_update_other [OF d(1)]) auto
  moreover have "cc_experiments c' x = cc_experiments d x \<and> (\<forall>l L. cc_layers d l = Some L \<longrightarrow> cc_layers c' l = Some L)"
    using Cons.prems(2) by (intro Cons.IH [OF d(2)]) auto
  ultimately show ?case by auto
qed simp

lemma apply_updates_inv:
  assumes "hash_map_values xs" "hash_map_values ls"
  shows "cache_inv c \<Longrightarrow> apply_updates xs ls us c = (Ok c' :: ('e, config_cache) outcome) \<Longrightarrow> cache_inv c'"
proof (induction us arbitrary: c)
  case (Cons u us)
  then show ?case using apply_update_inv [OF assms] by (auto simp: outcome_simps)
qed simp

lemma assign_parts_config:
  "assign_meta (svc\<lparr>svc_config := k\<rparr>) = assign_meta svc" "assign_bandit (svc\<lparr>svc_config := k\<rparr>) = assign_bandit svc"
  "assign_switchback (svc\<lparr>svc_config := k\<rparr>) = assign_switchback svc"
  by (simp_all add: fun_eq_iff assign_meta_def assign_bandit_def assign_switchback_def)

lemma unnamed_same_answer:
  assumes "hash_map_values xs" "hash_map_values ls" "cache_inv c" "apply_updates xs ls us c = (Ok c' :: (unit, config_cache) outcome)"
    and "cfg_experiments_by_id (snapshot c) x = Some e" "cfg_layers_by_id (snapshot c) (ec_layer_id e) = Some l" "x \<notin> update_key ` set us"
  shows "assign (svc\<lparr>svc_config := snapshot c'\<rparr>) x user session attrs = assign (svc\<lparr>svc_config := snapshot c\<rparr>) x user session attrs"
proof -
  have "cache_inv c'" by (rule apply_updates_inv [OF assms(1-4)])
  then have "cfg_experiments_by_id (snapshot c') x = Some e" "cfg_layers_by_id (snapshot c') (ec_layer_id e) = Some l"
    using apply_updates_other [OF assms(4,7)] assms(3,5,6) by (auto simp: cache_inv_def)
  then show ?thesis using assms(5,6) by (simp add: assign_def assign_parts_config Let_def cong: if_cong)
qed

lemma deleted_not_found:
  assumes "hash_map_values xs" "hash_map_values ls" "cache_inv c" "apply_updates xs ls (u # us) c = (Ok c' :: (unit, config_cache) outcome)"
    and "cu_is_deletion u" "update_key u = x" "x \<notin> update_key ` set us"
  shows "assign (svc\<lparr>svc_config := snapshot c'\<rparr>) x user session attrs = Err (Status NotFound (''experiment not found: '' @ x))"
proof -
  obtain d where d: "apply_update xs ls u c = (Ok d :: (unit, config_cache) outcome)" "cc_experiments d x = None"
    using apply_deletion [OF assms(5), of xs ls c, where 'e = unit] assms(6) by auto
  have rest: "apply_updates xs ls us d = (Ok c' :: (unit, config_cache) outcome)" using assms(4) d(1) by simp
  have "cc_experiments c' x = None" using apply_updates_other [OF rest assms(7)] d(2) by simp
  then have "cfg_experiments_by_id (snapshot c') x = None"
    using apply_updates_inv [OF assms(1-4)] by (simp add: cache_inv_def)
  then show ?thesis by (simp add: assign_def Let_def)
qed

text \<open>
  C28: An experiment leaves the cache of M1 only by name. After a deletion that carries the experiment, and
  any updates that do not name it again, every assignment request for it is answered with not found. Updates that
  do not name it, in any number and deletions among them, leave every answer for an experiment of the cache with
  a known layer as it is. A deletion that carries no experiment, which the Go service of M5 sends for a concluded
  experiment, names none: M1 looks for the empty identifier and goes on serving the experiment.
\<close>

theorem experiment_leaves_by_name:
  assumes "hash_map_values xs" "hash_map_values ls" "cache_inv c" "x \<noteq> []" "x \<notin> update_key ` set us"
  shows "(cu_is_deletion u \<and> update_key u = x \<and> apply_updates xs ls (u # us) c = (Ok c' :: (unit, config_cache) outcome) \<longrightarrow>
      assign (svc\<lparr>svc_config := snapshot c'\<rparr>) x user session attrs = Err (Status NotFound (''experiment not found: '' @ x))) \<and>
    (cfg_experiments_by_id (snapshot c) x = Some e \<and> cfg_layers_by_id (snapshot c) (ec_layer_id e) = Some l \<longrightarrow>
      (apply_updates xs ls us c = (Ok c' :: (unit, config_cache) outcome) \<longrightarrow>
        assign (svc\<lparr>svc_config := snapshot c'\<rparr>) x user session attrs = assign (svc\<lparr>svc_config := snapshot c\<rparr>) x user session attrs) \<and>
      (cu_experiment u = None \<and> apply_updates xs ls (u # us) c = (Ok c' :: (unit, config_cache) outcome) \<longrightarrow>
        assign (svc\<lparr>svc_config := snapshot c'\<rparr>) x user session attrs = assign (svc\<lparr>svc_config := snapshot c\<rparr>) x user session attrs))"
proof -
  have none: "x \<notin> update_key ` set (u # us)" if "cu_experiment u = None" using that assms(4,5) by (simp add: update_key_def)
  show ?thesis
    by (intro conjI impI; elim conjE)
      (simp_all only: deleted_not_found [OF assms(1-3) _ _ _ assms(5)] unnamed_same_answer [OF assms(1-3) _ _ _ assms(5)]
         unnamed_same_answer [OF assms(1-3) _ _ _ none])
qed

section \<open>The backfill after a reconnect\<close>

lemma backfill_rows:
  "ev \<in> set (fst (backfill_events v rows db)) \<Longrightarrow>
    \<not> ev_is_deletion ev \<and> (\<exists>row \<in> set rows. \<exists>p. ev_experiment ev = Some p \<and> pe_experiment_id p = er_experiment_id row)"
proof (induction rows arbitrary: db)
  case (Cons row rows)
  obtain res db' where g: "get_variants (er_experiment_id row) db = (res, db')" by fastforce
  show ?case
  proof (cases res)
    case (Ok vs)
    then show ?thesis using Cons.prems Cons.IH [of db'] g by (auto simp: case_prod_beta Let_def experiment_row_to_proto_def)
  qed (use Cons.prems Cons.IH [of db'] g in auto)
qed simp

text \<open>The backfill of M5 for a client that reconnects has no deletion: it only has experiments that are active.\<close>

lemma backfill_active:
  assumes "stream_backfill v s = (evs, s')" "keyed er_experiment_id (db_experiments (m5_db s))" "ev \<in> set evs"
  shows "\<not> ev_is_deletion ev \<and> (\<exists>p row. ev_experiment ev = Some p \<and> db_experiments (m5_db s) (pe_experiment_id p) = Some row \<and>
    (er_state row = ''RUNNING'' \<or> er_state row = ''PAUSED''))"
proof -
  obtain rows db where rows: "list_active_experiments (m5_db s) = (Ok rows, db)" "ev \<in> set (fst (backfill_events (m5_version s) rows db))"
    using assms(1,3) by (auto simp: stream_backfill_def Let_def split: if_splits prod.splits outcome.splits)
  from backfill_rows [OF rows(2)] obtain row p where row: "row \<in> set rows" "\<not> ev_is_deletion ev" "ev_experiment ev = Some p"
    "pe_experiment_id p = er_experiment_id row" by blast
  have "finite (dom (db_experiments (m5_db s)))" using assms(2) by (simp add: keyed_def)
  then have "\<exists>k. db_experiments (m5_db s) k = Some row" "er_state row = ''RUNNING'' \<or> er_state row = ''PAUSED''"
    using query_Ok [OF rows(1) [unfolded list_active_experiments_def]] row(1) by (auto simp: dom_def) blast+
  then show ?thesis using row assms(2) by (auto simp: keyed_def)
qed

section \<open>Witnesses\<close>

definition one_experiment :: config where
  "one_experiment = from_experiments_and_layers [sample_experiment ''x'' ''s'' ''L'' 0 9999 False] [\<lparr>lc_layer_id = ''L'', lc_total_buckets = 10000\<rparr>]"

lemma one_experiment_lookups:
  "cfg_experiments_by_id one_experiment ''x'' = Some (sample_experiment ''x'' ''s'' ''L'' 0 9999 False)"
  "cfg_layers_by_id one_experiment ''L'' = Some \<lparr>lc_layer_id = ''L'', lc_total_buckets = 10000\<rparr>"
  by (simp_all add: one_experiment_def from_experiments_and_layers_def collect_map_def sample_experiment_def)

lemma one_experiment_inv: "cache_inv (cache_new one_experiment)" "snapshot (cache_new one_experiment) = one_experiment"
  by (rule seeded_inv [of "[sample_experiment ''x'' ''s'' ''L'' 0 9999 False]" "[\<lparr>lc_layer_id = ''L'', lc_total_buckets = 10000\<rparr>]"])
    (simp_all add: seeded_def one_experiment_def cache_new_def snapshot_def)

definition nameless_deletion :: config_update where
  "nameless_deletion = \<lparr>cu_experiment = None, cu_is_deletion = True, cu_version = 2\<rparr>"

definition named_deletion :: config_update where
  "named_deletion = \<lparr>cu_experiment = cu_experiment (sample_update ''x''), cu_is_deletion = True, cu_version = 2\<rparr>"

theorem experiment_leaves_by_name_witness:
  "\<exists>c1 c2. apply_updates sorted_values sorted_values [nameless_deletion] (cache_new one_experiment) = (Ok c1 :: (unit, config_cache) outcome) \<and>
    assign (sample_service\<lparr>svc_config := snapshot c1\<rparr>) ''x'' ''u'' [] Map.empty =
      assign (sample_service\<lparr>svc_config := one_experiment\<rparr>) ''x'' ''u'' [] Map.empty \<and>
    apply_updates sorted_values sorted_values [named_deletion] (cache_new one_experiment) = (Ok c2 :: (unit, config_cache) outcome) \<and>
    assign (sample_service\<lparr>svc_config := snapshot c2\<rparr>) ''x'' ''u'' [] Map.empty = Err (Status NotFound (''experiment not found: '' @ ''x''))"
proof -
  let ?c = "cache_new one_experiment" and ?e = "sample_experiment ''x'' ''s'' ''L'' 0 9999 False"
  have is_del: "cu_is_deletion nameless_deletion" "cu_experiment nameless_deletion = None" "cu_is_deletion named_deletion" "update_key named_deletion = ''x''"
    by (simp_all add: nameless_deletion_def named_deletion_def sample_update_def update_key_def)
  obtain c1 where c1: "apply_updates sorted_values sorted_values [nameless_deletion] ?c = (Ok c1 :: (unit, config_cache) outcome)"
    using apply_deletion [OF is_del(1), of sorted_values sorted_values ?c, where 'e = unit] by auto
  obtain c2 where c2: "apply_updates sorted_values sorted_values [named_deletion] ?c = (Ok c2 :: (unit, config_cache) outcome)"
    using apply_deletion [OF is_del(3), of sorted_values sorted_values ?c, where 'e = unit] by auto
  have "ec_layer_id ?e = ''L''" by (simp add: sample_experiment_def)
  then have known: "cfg_experiments_by_id (snapshot ?c) ''x'' = Some ?e"
    "cfg_layers_by_id (snapshot ?c) (ec_layer_id ?e) = Some \<lparr>lc_layer_id = ''L'', lc_total_buckets = 10000\<rparr>"
    by (simp_all add: one_experiment_inv(2) one_experiment_lookups)
  have "''x'' \<noteq> []" "''x'' \<notin> update_key ` set []" by simp_all
  note leave = experiment_leaves_by_name [OF sorted_values_ok sorted_values_ok one_experiment_inv(1) this]
  have "assign (sample_service\<lparr>svc_config := snapshot c1\<rparr>) ''x'' ''u'' [] Map.empty =
      assign (sample_service\<lparr>svc_config := snapshot ?c\<rparr>) ''x'' ''u'' [] Map.empty"
    using leave known c1 is_del(2) by blast
  moreover have "assign (sample_service\<lparr>svc_config := snapshot c2\<rparr>) ''x'' ''u'' [] Map.empty = Err (Status NotFound (''experiment not found: '' @ ''x''))"
    using leave c2 is_del(3,4) by blast
  ultimately show ?thesis using c1 c2 by (simp add: one_experiment_inv(2))
qed

end
