(* ===== verification/Portfolio.thy ===== *)
theory Portfolio
  imports Experiment_Requests "HOL-Library.Product_Lexorder" "HOL-Library.Multiset"
begin

text \<open>
  The portfolio of running experiments (\<^verbatim>\<open>portfolio.rs\<close> and the request that uses it in \<^verbatim>\<open>grpc.rs\<close>): priorities,
  conflicts, recommended traffic and statistics, the classification of concluded experiments and the decision
  rules. The iteration order of the map from layers to experiments, the printing of doubles and the escapes
  of \<^verbatim>\<open>{:?}\<close> for bytes that are not ASCII are parameters.
\<close>

section \<open>Data\<close>

record experiment_info =
  ei_experiment_id :: string
  ei_experiment_name :: string
  ei_layer_id :: string
  ei_primary_metric_id :: string
  ei_guardrail_metric_ids :: "string list"
  ei_targeting_rule_id :: string
  ei_start_bucket :: int
  ei_end_bucket :: int
  ei_layer_total_buckets :: int

definition f64_clamp :: "f64 \<Rightarrow> f64 \<Rightarrow> f64 \<Rightarrow> f64" where
  "f64_clamp x lo hi = (if f64_lt x lo then lo else if f64_lt hi x then hi else x)"

text \<open>\<^verbatim>\<open>f64::min\<close>: a NaN argument is ignored.\<close>

definition f64_min :: "f64 \<Rightarrow> f64 \<Rightarrow> f64" where
  "f64_min x y = (if x = NaN then y else if y = NaN then x else if f64_lt y x then y else x)"

definition f64_of_i32 :: "int \<Rightarrow> f64" where
  "f64_of_i32 n = f64_round (of_int n)"

definition traffic_fraction :: "experiment_info \<Rightarrow> f64" where
  "traffic_fraction e =
     (if ei_layer_total_buckets e \<le> 0 then Fin 0
      else f64_clamp (f64_div (f64_of_i32 (i64_as_i32 (i64_as_i32 (ei_end_bucket e - ei_start_bucket e) + 1)))
                              (f64_of_i32 (ei_layer_total_buckets e))) (Fin 0) (Fin 1))"

datatype conflict_type = PrimaryMetricOverlap | GuardrailMetricOverlap | PopulationOverlap

record conflict =
  co_experiment_id_a :: string
  co_experiment_id_b :: string
  co_type :: conflict_type
  co_rationale :: string

record portfolio_allocation =
  pa_experiment_id :: string
  pa_experiment_name :: string
  pa_priority :: int
  pa_current_traffic_fraction :: f64
  pa_recommended_traffic_fraction :: f64
  pa_underpowered :: bool
  pa_rationale :: string
  pa_variance_budget_share :: f64

record portfolio_stats =
  ps_running_count :: nat
  ps_traffic_utilization :: f64
  ps_expected_false_discoveries :: f64
  ps_underpowered_count :: nat
  ps_conflict_count :: nat

record portfolio_result =
  pr_allocations :: "portfolio_allocation list"
  pr_conflicts :: "conflict list"
  pr_stats :: portfolio_stats

record portfolio_env =
  po_request :: request_env
  po_wide :: "string \<Rightarrow> string"
  po_layers :: "(string, experiment_info list) hash_map \<Rightarrow> experiment_info list list"

section \<open>Classification and decisions\<close>

definition assert_all_finite :: "f64 list \<Rightarrow> ('e, unit) outcome" where
  "assert_all_finite xs = (if list_all is_finite xs then Ok () else Panic)"

datatype experiment_learning = UnspecifiedLearning | Winner | NullResult | Loser | Inconclusive | Directional

record experiment_outcome =
  eo_effect_estimate :: f64
  eo_p_value :: f64
  eo_achieved_power :: f64
  eo_alpha :: f64

definition classify_learning :: "experiment_outcome \<Rightarrow> ('e, experiment_learning) outcome" where
  "classify_learning r =
     obind (assert_all_finite [eo_effect_estimate r, eo_p_value r, eo_achieved_power r, eo_alpha r]) (\<lambda>_.
       Ok (if f64_lt (eo_p_value r) (eo_alpha r)
           then if f64_lt (Fin 0) (eo_effect_estimate r) then Winner else Loser
           else if f64_le (f64_round (8 / 10)) (eo_achieved_power r) then NullResult
           else if f64_lt (eo_p_value r) (f64_mul (Fin 2) (eo_alpha r)) then Directional
           else Inconclusive))"

record annualized_impact =
  im_experiment_id :: string
  im_effect :: f64
  im_ci_lower :: f64
  im_ci_upper :: f64
  im_users :: int
  im_based_on_surrogate :: bool

text \<open>The input of the projection has the same fields; its \<open>im_users\<close> are the daily users.\<close>

definition compute_annualized_impact :: "annualized_impact \<Rightarrow> ('e, annualized_impact) outcome" where
  "compute_annualized_impact i =
     obind (assert_all_finite [im_effect i, im_ci_lower i, im_ci_upper i]) (\<lambda>_.
       Ok (i\<lparr>im_users := (im_users i * 365 + 2 ^ 63) mod 2 ^ 64 - 2 ^ 63\<rparr>))"

datatype decision = Continue | Ship | Stop | Extend | SafeToMigrate | NotEquivalent

record decision_input =
  di_p_value :: f64
  di_alpha :: f64
  di_effect_estimate :: f64
  di_elapsed_fraction :: f64
  di_achieved_power :: f64
  di_guardrail_breached :: bool

text \<open>The end of both rules: a run past its planned duration stops, an underpowered one past halfway is extended.\<close>

definition undecided :: "f64 \<Rightarrow> f64 \<Rightarrow> decision" where
  "undecided elapsed achieved =
     (if f64_le (Fin 1) elapsed then Stop
      else if f64_le (Fin (1 / 2)) elapsed \<and> f64_lt achieved (Fin (1 / 2)) then Extend
      else Continue)"

definition evaluate_decision :: "decision_input \<Rightarrow> ('e, decision) outcome" where
  "evaluate_decision i =
     obind (assert_all_finite [di_p_value i, di_alpha i, di_effect_estimate i, di_elapsed_fraction i, di_achieved_power i]) (\<lambda>_.
       Ok (if di_guardrail_breached i then Stop
           else if f64_lt (di_p_value i) (di_alpha i)
           then if f64_lt (Fin 0) (di_effect_estimate i) then Ship else Stop
           else undecided (di_elapsed_fraction i) (di_achieved_power i)))"

record equivalence_input =
  qi_equivalent :: bool
  qi_ci_lower :: f64
  qi_ci_upper :: f64
  qi_delta :: f64
  qi_achieved_power :: f64
  qi_elapsed_fraction :: f64
  qi_guardrail_breached :: bool

definition evaluate_equivalence_decision :: "equivalence_input \<Rightarrow> ('e, decision) outcome" where
  "evaluate_equivalence_decision i =
     obind (assert_all_finite [qi_ci_lower i, qi_ci_upper i, qi_delta i, qi_achieved_power i, qi_elapsed_fraction i]) (\<lambda>_.
       Ok (if qi_guardrail_breached i then Stop
           else if qi_equivalent i then SafeToMigrate
           else if f64_lt (qi_delta i) (qi_ci_lower i) \<or> f64_lt (qi_ci_upper i) (f64_neg (qi_delta i)) then NotEquivalent
           else undecided (qi_elapsed_fraction i) (qi_achieved_power i)))"

section \<open>Priorities\<close>

definition clamp_priority :: "int \<Rightarrow> int" where
  "clamp_priority p = max 1 (min 5 p)"

definition priority_of :: "(string, int) hash_map \<Rightarrow> experiment_info \<Rightarrow> int" where
  "priority_of overrides e = unwrap_or 3 (map_option clamp_priority (overrides (ei_experiment_id e)))"

definition priorities :: "(string, int) hash_map \<Rightarrow> experiment_info list \<Rightarrow> (string, int) hash_map" where
  "priorities overrides es = collect_map (map (\<lambda>e. (ei_experiment_id e, priority_of overrides e)) es)"

text \<open>\<^verbatim>\<open>priorities.values().sum()\<close>: the sum over the keys, in any order.\<close>

definition total_priority :: "(string, int) hash_map \<Rightarrow> experiment_info list \<Rightarrow> int" where
  "total_priority ps es = sum_list (map (\<lambda>x. unwrap_or 0 (ps x)) (remdups (map ei_experiment_id es)))"

definition recommend_alpha :: "string \<Rightarrow> experiment_info list \<Rightarrow> (string, int) hash_map \<Rightarrow> f64 \<Rightarrow> ('e, f64) outcome" where
  "recommend_alpha x es overrides family_alpha =
     obind (assert_all_finite [family_alpha]) (\<lambda>_.
       Ok (if es = [] then family_alpha
           else let ps = priorities overrides es; total = total_priority ps es; uniform = f64_div family_alpha (f64_of_nat (length es)) in
             if total = 0 then uniform
             else f64_max (f64_mul family_alpha (f64_div (f64_of_i32 (unwrap_or 3 (ps x))) (f64_of_i32 total))) uniform))"

section \<open>Conflicts\<close>

definition dash :: string where
  "dash = '' '' @ [CHR 0xE2, CHR 0x80, CHR 0x94] @ '' ''"

text \<open>The metrics of the second list that the first one has, in the order of the second.\<close>

definition shared_metrics :: "string list \<Rightarrow> string list \<Rightarrow> string list" where
  "shared_metrics a b = filter (\<lambda>m. m \<in> set a) b"

definition pair_conflicts :: "(string \<Rightarrow> string) \<Rightarrow> experiment_info \<Rightarrow> experiment_info \<Rightarrow> conflict list" where
  "pair_conflicts wide a b =
     (let found = (\<lambda>t why. \<lparr>co_experiment_id_a = ei_experiment_id a, co_experiment_id_b = ei_experiment_id b, co_type = t, co_rationale = why\<rparr>);
          same_layer = ei_layer_id a = ei_layer_id b in
      (if same_layer \<and> ei_primary_metric_id a \<noteq> [] \<and> ei_primary_metric_id a = ei_primary_metric_id b
       then [found PrimaryMetricOverlap (''Both experiments use primary metric '' @ debug_str wide (ei_primary_metric_id a) @
         '' in the same layer'' @ dash @ ''concurrent significance tests inflate false discovery rate'')] else []) @
      (if same_layer
       then map (\<lambda>m. found GuardrailMetricOverlap (''Both experiments monitor guardrail metric '' @ debug_str wide m @
         dash @ ''correlated stopping rules may cause spurious pauses'')) (shared_metrics (ei_guardrail_metric_ids a) (ei_guardrail_metric_ids b))
       else []) @
      (if same_layer \<and> ei_targeting_rule_id a = [] \<and> ei_targeting_rule_id b = []
       then [found PopulationOverlap (''Both experiments target the full user population in the same layer'' @ dash @
         ''users may see both treatments simultaneously, causing interference'')] else []))"

fun detect_conflicts :: "(string \<Rightarrow> string) \<Rightarrow> experiment_info list \<Rightarrow> conflict list" where
  "detect_conflicts wide [] = []"
| "detect_conflicts wide (a # es) = concat (map (pair_conflicts wide a) es) @ detect_conflicts wide es"

section \<open>Recommended traffic\<close>

definition group_by_layer :: "experiment_info list \<Rightarrow> (string, experiment_info list) hash_map" where
  "group_by_layer es = foldl (\<lambda>m e. m(ei_layer_id e \<mapsto> unwrap_or [] (m (ei_layer_id e)) @ [e])) Map.empty es"

definition recommend_layer ::
  "experiment_info list \<Rightarrow> (string, f64) hash_map \<Rightarrow> (string, f64) hash_map \<times> (string, bool) hash_map" where
  "recommend_layer es shares =
     (let weight = (\<lambda>e. unwrap_or (Fin 0) (shares (ei_experiment_id e)));
          total = foldl f64_add (Fin 0) (map weight es);
          share = (\<lambda>e. f64_min (if f64_lt (Fin 0) total then f64_div (weight e) total else Fin 0) (Fin (1 / 2)));
          weak = (\<lambda>e. f64_lt (Fin 0) (share e) \<and> f64_lt (traffic_fraction e) (f64_mul (share e) (Fin (3 / 4))))
      in (collect_map (map (\<lambda>e. (ei_experiment_id e, share e)) es), collect_map (map (\<lambda>e. (ei_experiment_id e, weak e)) es)))"

definition compute_traffic_utilization :: "experiment_info list list \<Rightarrow> f64" where
  "compute_traffic_utilization layers =
     (if layers = [] then Fin 0
      else let utils = map (\<lambda>es. let u = foldl f64_add (Fin 0) (map traffic_fraction es) in if f64_lt (Fin 1) u then Fin 1 else u) layers
           in f64_min (f64_div (foldl f64_add (Fin 0) utils) (f64_of_nat (length layers))) (Fin 1))"

definition build_rationale :: "(nat \<Rightarrow> f64 \<Rightarrow> string) \<Rightarrow> f64 \<Rightarrow> f64 \<Rightarrow> bool \<Rightarrow> int \<Rightarrow> string" where
  "build_rationale fixed current recommended underpowered priority =
     (let percent = (\<lambda>x. fixed 1 (f64_mul x (Fin 100))) in
      if underpowered \<and> f64_lt current recommended
      then ''Priority '' @ show_int priority @ '' experiment is under-trafficked ('' @ percent current @ ''% vs recommended '' @ percent recommended @
        ''%)'' @ dash @ ''increase allocation to reach significance faster''
      else if f64_lt recommended current
      then ''Priority '' @ show_int priority @ '' experiment has more traffic than its variance budget share warrants ('' @ percent current @
        ''% vs recommended '' @ percent recommended @ ''%)'' @ dash @ ''consider reducing to free capacity for higher-priority work''
      else ''Priority '' @ show_int priority @ '' experiment allocation ('' @ percent current @ ''%) is consistent with its variance budget share ('' @
        percent recommended @ ''%)'')"

definition budget_shares :: "(string, int) hash_map \<Rightarrow> experiment_info list \<Rightarrow> (string, f64) hash_map" where
  "budget_shares ps es =
     (let total = total_priority ps es in
      collect_map (map (\<lambda>e. (ei_experiment_id e,
        if total > 0 then f64_div (f64_of_i32 (unwrap_or 0 (ps (ei_experiment_id e)))) (f64_of_i32 total)
        else f64_div (Fin 1) (f64_of_nat (length es)))) es))"

definition optimize :: "portfolio_env \<Rightarrow> experiment_info list \<Rightarrow> (string, int) hash_map \<Rightarrow> portfolio_result" where
  "optimize env es overrides =
     (if es = []
      then \<lparr>pr_allocations = [], pr_conflicts = [], pr_stats = \<lparr>ps_running_count = 0, ps_traffic_utilization = Fin 0,
             ps_expected_false_discoveries = Fin 0, ps_underpowered_count = 0, ps_conflict_count = 0\<rparr>\<rparr>
      else
        let ps = priorities overrides es; conflicts = detect_conflicts (po_wide env) es; shares = budget_shares ps es;
            layers = po_layers env (group_by_layer es);
            recommendations = foldl (\<lambda>m l. m ++ fst (recommend_layer l shares)) Map.empty layers;
            flags = foldl (\<lambda>m l. m ++ snd (recommend_layer l shares)) Map.empty layers;
            allocation = (\<lambda>e.
              let x = ei_experiment_id e; current = traffic_fraction e; recommended = unwrap_or (Fin 0) (recommendations x);
                  weak = unwrap_or False (flags x); priority = unwrap_or 0 (ps x)
              in \<lparr>pa_experiment_id = x, pa_experiment_name = ei_experiment_name e, pa_priority = priority,
                  pa_current_traffic_fraction = current, pa_recommended_traffic_fraction = recommended, pa_underpowered = weak,
                  pa_rationale = build_rationale (re_fixed (po_request env)) current recommended weak priority,
                  pa_variance_budget_share = unwrap_or (Fin 0) (shares x)\<rparr>);
            allocations = sort_key (\<lambda>a. (- pa_priority a, pa_experiment_id a)) (map allocation es)
        in \<lparr>pr_allocations = allocations, pr_conflicts = conflicts,
            pr_stats = \<lparr>ps_running_count = length es, ps_traffic_utilization = compute_traffic_utilization layers,
              ps_expected_false_discoveries = f64_mul (f64_of_nat (length es)) (f64_round (5 / 100)),
              ps_underpowered_count = length (filter pa_underpowered allocations), ps_conflict_count = length conflicts\<rparr>\<rparr>)"

section \<open>The request\<close>

text \<open>\<^verbatim>\<open>x.round() as i32\<close>: half away from zero, saturating.\<close>

fun f64_round_i32 :: "f64 \<Rightarrow> int" where
  "f64_round_i32 (Fin q) = max (- (2 ^ 31)) (min (2 ^ 31 - 1) (if q < 0 then - \<lfloor>1 / 2 - q\<rfloor> else \<lfloor>q + 1 / 2\<rfloor>))"
| "f64_round_i32 (Inf neg) = (if neg then - (2 ^ 31) else 2 ^ 31 - 1)"
| "f64_round_i32 NaN = 0"

definition extract_guardrail_ids :: "json \<Rightarrow> string list" where
  "extract_guardrail_ids type_config =
     (case Option.bind (json_get ''guardrail_configs'' type_config) as_array_json of
        Some arr \<Rightarrow> List.map_filter (\<lambda>g. Option.bind (json_get ''metric_id'' g) as_str_json) arr
      | None \<Rightarrow> [])"

text \<open>Any failure of the query, and a missing layer, is an error without a value.\<close>

definition get_layer_total_buckets :: "uuid \<Rightarrow> (unit, int) db_op" where
  "get_layer_total_buckets l =
     dbind (dmap_err (\<lambda>_. ()) (query (\<lambda>db. (db_layers db l, db)))) (\<lambda>row. dreturn (ok_or () (map_option lr_total_buckets row)))"

definition bucket_range :: "portfolio_env \<Rightarrow> experiment_row \<Rightarrow> (int \<times> int \<times> int) handler" where
  "bucket_range env r =
     hbind (\<lambda>s. case dmap_err (\<lambda>e. Status Internal (''allocation lookup failed: '' @ re_allocator_text (po_request env) e))
                    (list_allocations (er_layer_id r) False) (m5_db s) of (as, db) \<Rightarrow> (as, s\<lparr>m5_db := db\<rparr>)) (\<lambda>as.
       case find (\<lambda>a. al_experiment_id a = er_experiment_id r) as of
         Some a \<Rightarrow>
           (\<lambda>s. case get_layer_total_buckets (er_layer_id r) (m5_db s) of
              (Ok n, db) \<Rightarrow> (Ok (al_start_bucket a, al_end_bucket a, n), s\<lparr>m5_db := db\<rparr>)
            | (_, db) \<Rightarrow> (Ok (al_start_bucket a, al_end_bucket a, 1000), s\<lparr>m5_db := db\<rparr>))
       | None \<Rightarrow>
           hbind (store (get_variants (er_experiment_id r))) (\<lambda>vs.
             let stop = f64_round_i32 (f64_mul (foldl f64_add (Fin 0) (map vr_traffic_fraction vs)) (Fin 1000))
             in hreturn (Ok (0, max stop 1 - 1, 1000))))"

fun experiment_infos :: "portfolio_env \<Rightarrow> experiment_row list \<Rightarrow> experiment_info list handler" where
  "experiment_infos env [] = hreturn (Ok [])"
| "experiment_infos env (r # rs) =
     hbind (bucket_range env r) (\<lambda>(start_bucket, end_bucket, total_buckets).
     hbind (experiment_infos env rs) (\<lambda>es.
       hreturn (Ok (\<lparr>ei_experiment_id = er_experiment_id r, ei_experiment_name = er_name r, ei_layer_id = er_layer_id r,
         ei_primary_metric_id = er_primary_metric_id r, ei_guardrail_metric_ids = extract_guardrail_ids (er_type_config r),
         ei_targeting_rule_id = unwrap_or [] (er_targeting_rule_id r), ei_start_bucket = start_bucket, ei_end_bucket = end_bucket,
         ei_layer_total_buckets = total_buckets\<rparr> # es))))"

definition get_portfolio_allocation :: "portfolio_env \<Rightarrow> string \<Rightarrow> (string, int) hash_map \<Rightarrow> portfolio_result handler" where
  "get_portfolio_allocation env layer_id overrides =
     hbind (store list_active_experiments) (\<lambda>rows.
     hbind (experiment_infos env (filter (\<lambda>r. er_state r = ''RUNNING'' \<and> (layer_id = [] \<or> er_layer_id r = layer_id)) rows)) (\<lambda>es.
       hreturn (Ok (optimize env es overrides))))"

section \<open>Shares of a layer\<close>

lemma group_by_layer_eq:
  "group_by_layer es l = (if \<exists>e \<in> set es. ei_layer_id e = l then Some (filter (\<lambda>e. ei_layer_id e = l) es) else None)"
proof (induction es rule: rev_induct)
  case (snoc e es)
  show ?case
  proof (cases "ei_layer_id e = l")
    case True
    have "filter (\<lambda>e. ei_layer_id e = l) es = [] \<longleftrightarrow> \<not> (\<exists>e \<in> set es. ei_layer_id e = l)" by (auto simp: filter_empty_conv)
    then have "unwrap_or [] (group_by_layer es l) = filter (\<lambda>e. ei_layer_id e = l) es" using snoc by simp
    then show ?thesis using True by (simp add: group_by_layer_def)
  next
    case False
    then have "group_by_layer (es @ [e]) l = group_by_layer es l" by (simp add: group_by_layer_def)
    then show ?thesis using snoc False by simp
  qed
qed (simp add: group_by_layer_def)

lemma collect_map_distinct:
  assumes "distinct (map f xs)" "x \<in> set xs"
  shows "collect_map (map (\<lambda>x. (f x, g x)) xs) (f x) = Some (g x)"
proof -
  have "map fst (rev (map (\<lambda>x. (f x, g x)) xs)) = rev (map f xs)" by (simp add: rev_map comp_def)
  then have "distinct (map fst (rev (map (\<lambda>x. (f x, g x)) xs)))" using assms(1) by (metis distinct_rev)
  then show ?thesis using assms(2) by (auto simp: collect_map_def intro!: map_of_is_SomeI)
qed

lemma foldl_maps_find:
  "foldl (\<lambda>m l. m ++ f l) Map.empty ls x = (case find (\<lambda>k. f k x \<noteq> None) (rev ls) of None \<Rightarrow> None | Some k \<Rightarrow> f k x)"
  by (induction ls rule: rev_induct) (auto simp: map_add_def split: option.split)

lemma foldl_maps:
  assumes "l \<in> set ls" "\<And>k. k \<in> set ls \<Longrightarrow> x \<in> dom (f k) \<Longrightarrow> k = l"
  shows "foldl (\<lambda>m l. m ++ f l) Map.empty ls x = f l x"
proof (cases "find (\<lambda>k. f k x \<noteq> None) (rev ls)")
  case None
  then have "f l x = None" using assms(1) by (auto simp: find_None_iff)
  then show ?thesis by (simp only: foldl_maps_find None option.case)
next
  case (Some k)
  from find_Some_mem [OF this] have "k = l" using assms(2) [of k] by auto
  then show ?thesis by (simp only: foldl_maps_find Some option.case)
qed

text \<open>The share of an experiment: its part of the weights of its layer, at most one half.\<close>

definition layer_share :: "(string, f64) hash_map \<Rightarrow> experiment_info list \<Rightarrow> experiment_info \<Rightarrow> f64" where
  "layer_share shares es e =
     (let weight = (\<lambda>e. unwrap_or (Fin 0) (shares (ei_experiment_id e)));
          total = foldl f64_add (Fin 0) (map weight (filter (\<lambda>d. ei_layer_id d = ei_layer_id e) es))
      in f64_min (if f64_lt (Fin 0) total then f64_div (weight e) total else Fin 0) (Fin (1 / 2)))"

definition is_underpowered :: "(string, f64) hash_map \<Rightarrow> experiment_info list \<Rightarrow> experiment_info \<Rightarrow> bool" where
  "is_underpowered shares es e \<longleftrightarrow> f64_lt (Fin 0) (layer_share shares es e) \<and>
     f64_lt (traffic_fraction e) (f64_mul (layer_share shares es e) (Fin (3 / 4)))"

lemma dom_collect: "dom (collect_map (map (\<lambda>e. (f e, g e)) xs)) = f ` set xs"
  by (auto simp: collect_map_dom image_iff)

lemma recommendations_of_layers:
  assumes "hash_map_values (po_layers env)" "distinct (map ei_experiment_id es)" "e \<in> set es"
  shows "foldl (\<lambda>m l. m ++ fst (recommend_layer l shares)) Map.empty (po_layers env (group_by_layer es)) (ei_experiment_id e) =
      Some (layer_share shares es e)"
    and "foldl (\<lambda>m l. m ++ snd (recommend_layer l shares)) Map.empty (po_layers env (group_by_layer es)) (ei_experiment_id e) =
      Some (is_underpowered shares es e)"
proof -
  let ?L = "filter (\<lambda>d. ei_layer_id d = ei_layer_id e) es"
  have "dom (group_by_layer es) = ei_layer_id ` set es" by (auto simp: group_by_layer_eq split: if_splits)
  then have "finite (dom (group_by_layer es))" by simp
  then obtain ks where ks: "set ks = dom (group_by_layer es)" "po_layers env (group_by_layer es) = map (\<lambda>k. the (group_by_layer es k)) ks"
    using assms(1) unfolding hash_map_values_def by blast
  have layers: "k \<in> set (po_layers env (group_by_layer es)) \<longleftrightarrow> (\<exists>l \<in> ei_layer_id ` set es. k = filter (\<lambda>d. ei_layer_id d = l) es)" for k
    unfolding ks(2) using ks(1) \<open>dom (group_by_layer es) = ei_layer_id ` set es\<close> by (auto simp: group_by_layer_eq image_iff)
  have mine: "?L \<in> set (po_layers env (group_by_layer es))" unfolding layers using assms(3) by blast
  have only: "k = ?L" if k: "k \<in> set (po_layers env (group_by_layer es))" "ei_experiment_id e \<in> ei_experiment_id ` set k" for k
  proof -
    obtain l d where l: "k = filter (\<lambda>d. ei_layer_id d = l) es" "d \<in> set es" "ei_layer_id d = l" "ei_experiment_id d = ei_experiment_id e"
      using k unfolding layers by auto
    then have "d = e" using assms(2,3) by (auto simp: distinct_map dest: inj_onD)
    then show ?thesis using l by simp
  qed
  have dist: "distinct (map ei_experiment_id ?L)" using assms(2) by (simp add: distinct_map_filter)
  have e: "e \<in> set ?L" using assms(3) by simp
  have "foldl (\<lambda>m l. m ++ fst (recommend_layer l shares)) Map.empty (po_layers env (group_by_layer es)) (ei_experiment_id e) =
      fst (recommend_layer ?L shares) (ei_experiment_id e)"
    by (rule foldl_maps [OF mine]) (rule only, simp_all add: recommend_layer_def Let_def dom_collect)
  then show "foldl (\<lambda>m l. m ++ fst (recommend_layer l shares)) Map.empty (po_layers env (group_by_layer es)) (ei_experiment_id e) =
      Some (layer_share shares es e)"
    by (simp add: recommend_layer_def Let_def collect_map_distinct [OF dist e] layer_share_def)
  have "foldl (\<lambda>m l. m ++ snd (recommend_layer l shares)) Map.empty (po_layers env (group_by_layer es)) (ei_experiment_id e) =
      snd (recommend_layer ?L shares) (ei_experiment_id e)"
    by (rule foldl_maps [OF mine]) (rule only, simp_all add: recommend_layer_def Let_def dom_collect)
  then show "foldl (\<lambda>m l. m ++ snd (recommend_layer l shares)) Map.empty (po_layers env (group_by_layer es)) (ei_experiment_id e) =
      Some (is_underpowered shares es e)"
    by (simp add: recommend_layer_def Let_def collect_map_distinct [OF dist e] layer_share_def is_underpowered_def)
qed

lemma f64_min_le: "x \<noteq> NaN \<Longrightarrow> f64_le (f64_min y x) x"
  by (cases y; cases x) (auto simp: f64_min_def f64_le_def split: if_splits)

text \<open>The two numbers the recommendation rests on, as the quotients they round.\<close>

lemma f64_of_i32_exact: "\<bar>n\<bar> < 2 ^ 31 \<Longrightarrow> f64_of_i32 n = Fin (of_int n)"
  by (simp add: f64_of_i32_def f64_round_of_int)

lemma f64_min_one: "f64_lt (Fin 0) x \<Longrightarrow> f64_clamp x (Fin 0) (Fin 1) = f64_min x (Fin 1)"
  by (cases x) (auto simp: f64_clamp_def f64_min_def)

lemma f64_round_low:
  assumes "1 / 2 ^ 31 \<le> q"
  shows "f64_le (Fin (1 / 2 ^ 31)) (f64_round q)"
proof -
  have "(1 :: rat) / 2 ^ 31 = of_int 1 * 2 powi - 31" by (simp add: power_int_minus)
  then have "representable (1 / 2 ^ 31)"
    unfolding representable_def by (intro conjI exI [of _ 1] exI [of _ "- 31"]) simp_all
  then have "f64_round (1 / 2 ^ 31) = Fin (1 / 2 ^ 31)" by (rule f64_round_representable)
  then show ?thesis using f64_round_mono_nonneg [of "1 / 2 ^ 31" q] assms by simp
qed

lemma f64_round_pos: "1 / 2 ^ 31 \<le> q \<Longrightarrow> f64_lt (Fin 0) (f64_round q)"
  using f64_round_low [of q] by (cases "f64_round q") (auto simp: f64_le_def)

lemma traffic_fraction_share:
  assumes "0 \<le> ei_start_bucket e" "ei_start_bucket e \<le> ei_end_bucket e" "ei_end_bucket e \<le> ei_layer_total_buckets e"
    "0 < ei_layer_total_buckets e" "ei_layer_total_buckets e < 2 ^ 31 - 1"
  shows "traffic_fraction e =
    f64_min (f64_round (of_int (ei_end_bucket e - ei_start_bucket e + 1) / of_int (ei_layer_total_buckets e))) (Fin 1)"
proof -
  let ?n = "ei_end_bucket e - ei_start_bucket e + 1" and ?t = "ei_layer_total_buckets e"
  have n: "i64_as_i32 (i64_as_i32 (ei_end_bucket e - ei_start_bucket e) + 1) = ?n" "\<bar>?n\<bar> < 2 ^ 31" "\<bar>?t\<bar> < 2 ^ 31"
    using assms by (simp_all add: i64_as_i32_id is_i32_def)
  have "(1 :: rat) / 2 ^ 31 \<le> 1 / of_int ?t"
    using assms(4,5) by (intro divide_left_mono) simp_all
  also have "\<dots> \<le> of_int ?n / of_int ?t" using assms by (intro divide_right_mono) simp_all
  finally have "f64_lt (Fin 0) (f64_round (of_int ?n / of_int ?t))" by (rule f64_round_pos)
  then show ?thesis
    using assms(4) by (simp add: traffic_fraction_def n(1) f64_of_i32_exact [OF n(2)] f64_of_i32_exact [OF n(3)] f64_min_one)
qed

lemma priority_range: "1 \<le> priority_of overrides e \<and> priority_of overrides e \<le> 5"
  by (cases "overrides (ei_experiment_id e)") (auto simp: priority_of_def clamp_priority_def)

lemma priorities_of: "distinct (map ei_experiment_id es) \<Longrightarrow> e \<in> set es \<Longrightarrow>
    priorities overrides es (ei_experiment_id e) = Some (priority_of overrides e)"
  unfolding priorities_def by (rule collect_map_distinct)

lemma total_priority_sum:
  assumes "distinct (map ei_experiment_id es)"
  shows "total_priority (priorities overrides es) es = sum_list (map (priority_of overrides) es)"
proof -
  have "map (\<lambda>x. unwrap_or 0 (priorities overrides es x)) (map ei_experiment_id es) = map (priority_of overrides) es"
    using priorities_of [OF assms] by simp
  then show ?thesis using assms by (simp only: total_priority_def distinct_remdups_id)
qed

lemma priority_sum_bounds: "int (length es) \<le> sum_list (map (priority_of overrides) es) \<and> sum_list (map (priority_of overrides) es) \<le> 5 * int (length es)"
proof (induction es)
  case (Cons e es)
  then show ?case using priority_range [of overrides e] by (simp add: algebra_simps)
qed simp

definition budget_share :: "(string, int) hash_map \<Rightarrow> experiment_info list \<Rightarrow> experiment_info \<Rightarrow> f64" where
  "budget_share overrides es e = f64_round (of_int (priority_of overrides e) / of_int (sum_list (map (priority_of overrides) es)))"

lemma budget_shares_of:
  assumes "distinct (map ei_experiment_id es)" "e \<in> set es" "5 * int (length es) < 2 ^ 31"
  shows "budget_shares (priorities overrides es) es (ei_experiment_id e) = Some (budget_share overrides es e)"
    and "\<exists>q. budget_share overrides es e = Fin q \<and> 1 / 2 ^ 31 \<le> q"
proof -
  let ?P = "sum_list (map (priority_of overrides) es)" and ?p = "priority_of overrides e"
  have len: "0 < int (length es)" using assms(2) by (cases es) simp_all
  have P: "0 < ?P" "\<bar>?P\<bar> < 2 ^ 31" "1 \<le> ?p" "\<bar>?p\<bar> < 2 ^ 31" "?p \<le> 5"
    using priority_sum_bounds [of es overrides] priority_range [of overrides e] assms(3) len by linarith+
  show "budget_shares (priorities overrides es) es (ei_experiment_id e) = Some (budget_share overrides es e)"
    using P collect_map_distinct [OF assms(1,2), of "\<lambda>e. if 0 < ?P then f64_div (f64_of_i32 (unwrap_or 0 (priorities overrides es (ei_experiment_id e)))) (f64_of_i32 ?P)
        else f64_div (Fin 1) (f64_of_nat (length es))"]
    by (simp add: budget_shares_def Let_def total_priority_sum [OF assms(1)] priorities_of [OF assms(1,2)] budget_share_def f64_of_i32_exact)
  have "(1 :: rat) / 2 ^ 31 \<le> 1 / of_int ?P" using P by (intro divide_left_mono) simp_all
  also have "\<dots> \<le> of_int ?p / of_int ?P" using P by (intro divide_right_mono) simp_all
  finally have low: "f64_le (Fin (1 / 2 ^ 31)) (f64_round (of_int ?p / of_int ?P))" by (rule f64_round_low)
  have "(of_int ?p :: rat) / of_int ?P \<le> 5" using P by (simp add: divide_le_eq)
  then have "(0 :: rat) \<le> of_int ?p / of_int ?P" "of_int ?p / of_int ?P < (2 :: rat) powi 3" using P by simp_all
  then obtain v where "f64_round (of_int ?p / of_int ?P) = Fin v" by (rule f64_round_error) simp_all
  with low show "\<exists>q. budget_share overrides es e = Fin q \<and> 1 / 2 ^ 31 \<le> q" by (auto simp: budget_share_def f64_le_def)
qed

lemma f64_add_pos: "f64_lt (Fin 0) x \<Longrightarrow> 1 / 2 ^ 31 \<le> q \<Longrightarrow> f64_lt (Fin 0) (f64_add x (Fin q))"
  using f64_round_pos by (cases x) auto

lemma f64_sum_pos:
  assumes "\<forall>x \<in> set xs. \<exists>q. x = Fin q \<and> 1 / 2 ^ 31 \<le> q" "xs \<noteq> []"
  shows "f64_lt (Fin 0) (foldl f64_add (Fin 0) xs)"
proof -
  have "f64_lt (Fin 0) (foldl f64_add x xs)" if "f64_lt (Fin 0) x" "\<forall>x \<in> set xs. \<exists>q. x = Fin q \<and> 1 / 2 ^ 31 \<le> q" for x xs
    using that
  proof (induction xs arbitrary: x)
    case (Cons y ys)
    then obtain q where "y = Fin q" "1 / 2 ^ 31 \<le> q" by auto
    then have "f64_lt (Fin 0) (f64_add x y)" using f64_add_pos [OF Cons.prems(1)] by simp
    then show ?case using Cons.IH [of "f64_add x y"] Cons.prems(2) by simp
  qed simp
  moreover obtain q ys where "xs = Fin q # ys" "1 / 2 ^ 31 \<le> q" using assms by (cases xs) auto
  ultimately show ?thesis using assms(1) f64_round_pos [of q] by simp
qed

text \<open>The share of an experiment, whose layer has a weight above 0: its part of the weights of its layer, at most one half.\<close>

lemma layer_share_quotient:
  assumes "distinct (map ei_experiment_id es)" "e \<in> set es" "5 * int (length es) < 2 ^ 31"
  shows "layer_share (budget_shares (priorities overrides es) es) es e =
    f64_min (f64_div (budget_share overrides es e)
      (foldl f64_add (Fin 0) (map (budget_share overrides es) (filter (\<lambda>d. ei_layer_id d = ei_layer_id e) es)))) (Fin (1 / 2))"
proof -
  let ?L = "filter (\<lambda>d. ei_layer_id d = ei_layer_id e) es"
  have w: "unwrap_or (Fin 0) (budget_shares (priorities overrides es) es (ei_experiment_id d)) = budget_share overrides es d" if "d \<in> set es" for d
    using budget_shares_of(1) [OF assms(1) that assms(3)] by simp
  then have m: "map (\<lambda>d. unwrap_or (Fin 0) (budget_shares (priorities overrides es) es (ei_experiment_id d))) ?L = map (budget_share overrides es) ?L"
    by simp
  have "f64_lt (Fin 0) (foldl f64_add (Fin 0) (map (budget_share overrides es) ?L))"
    using budget_shares_of(2) [OF assms(1) _ assms(3)] assms(2) by (intro f64_sum_pos) (auto simp: filter_empty_conv)
  then show ?thesis unfolding layer_share_def Let_def m w [OF assms(2)] by simp
qed

text \<open>The allocation the optimizer makes of one experiment.\<close>

definition allocation_of :: "portfolio_env \<Rightarrow> experiment_info list \<Rightarrow> (string, int) hash_map \<Rightarrow> experiment_info \<Rightarrow> portfolio_allocation" where
  "allocation_of env es overrides e = (let x = ei_experiment_id e; current = traffic_fraction e;
      shares = budget_shares (priorities overrides es) es; layers = po_layers env (group_by_layer es);
      recommended = unwrap_or (Fin 0) (foldl (\<lambda>m l. m ++ fst (recommend_layer l shares)) Map.empty layers x);
      weak = unwrap_or False (foldl (\<lambda>m l. m ++ snd (recommend_layer l shares)) Map.empty layers x);
      priority = unwrap_or 0 (priorities overrides es x)
    in \<lparr>pa_experiment_id = x, pa_experiment_name = ei_experiment_name e, pa_priority = priority,
        pa_current_traffic_fraction = current, pa_recommended_traffic_fraction = recommended, pa_underpowered = weak,
        pa_rationale = build_rationale (re_fixed (po_request env)) current recommended weak priority,
        pa_variance_budget_share = unwrap_or (Fin 0) (shares x)\<rparr>)"

lemma optimize_allocations:
  "pr_allocations (optimize env es overrides) = sort_key (\<lambda>a. (- pa_priority a, pa_experiment_id a)) (map (allocation_of env es overrides) es)"
  by (cases "es = []") (simp_all add: optimize_def Let_def allocation_of_def [abs_def])

text \<open>
  C25: The recommendations for the running experiments, given once each and few enough for the sum of their priorities
  to fit an \<^verbatim>\<open>i32\<close>: there is one allocation per experiment, ordered by falling priority and then by identifier. Its
  priority is the override, brought between 1 and 5, or 3; its share of the variance budget is its part of
  all priorities; its recommended traffic is its part of the budget shares of its own layer, at most one half;
  its current traffic is the part of the layer between its first bucket and its end bucket, both counted, at
  most 1; and it is called underpowered exactly when that is below three quarters of a recommendation above 0.
\<close>

theorem portfolio_recommendations:
  assumes "hash_map_values (po_layers env)" "distinct (map ei_experiment_id es)" "5 * int (length es) < 2 ^ 31"
  shows "mset (map pa_experiment_id (pr_allocations (optimize env es overrides))) = mset (map ei_experiment_id es) \<and>
    sorted (map (\<lambda>a. (- pa_priority a, pa_experiment_id a)) (pr_allocations (optimize env es overrides))) \<and>
    (\<forall>a \<in> set (pr_allocations (optimize env es overrides)). \<exists>e \<in> set es.
       let priority = \<lambda>d. case overrides (ei_experiment_id d) of None \<Rightarrow> 3 | Some p \<Rightarrow> max 1 (min 5 p);
           budget = \<lambda>d. f64_round (of_int (priority d) / of_int (sum_list (map priority es)));
           layer = filter (\<lambda>d. ei_layer_id d = ei_layer_id e) es;
           share = f64_min (f64_div (budget e) (foldl f64_add (Fin 0) (map budget layer))) (Fin (1 / 2)) in
       pa_experiment_id a = ei_experiment_id e \<and> pa_priority a = priority e \<and> pa_variance_budget_share a = budget e \<and>
       pa_recommended_traffic_fraction a = share \<and> f64_le share (Fin (1 / 2)) \<and>
       (0 \<le> ei_start_bucket e \<and> ei_start_bucket e \<le> ei_end_bucket e \<and> ei_end_bucket e \<le> ei_layer_total_buckets e \<and>
          0 < ei_layer_total_buckets e \<and> ei_layer_total_buckets e < 2 ^ 31 - 1 \<longrightarrow>
        pa_current_traffic_fraction a =
          f64_min (f64_round (of_int (ei_end_bucket e - ei_start_bucket e + 1) / of_int (ei_layer_total_buckets e))) (Fin 1)) \<and>
       (pa_underpowered a \<longleftrightarrow> f64_lt (Fin 0) share \<and> f64_lt (pa_current_traffic_fraction a) (f64_mul share (Fin (3 / 4)))))"
proof -
  let ?shares = "budget_shares (priorities overrides es) es"
  have priority: "priority_of overrides = (\<lambda>d. case overrides (ei_experiment_id d) of None \<Rightarrow> 3 | Some p \<Rightarrow> max 1 (min 5 p))"
    by (auto simp: priority_of_def clamp_priority_def split: option.split)
  have budget: "budget_share overrides es = (\<lambda>d. f64_round (of_int (priority_of overrides d) / of_int (sum_list (map (priority_of overrides) es))))"
    by (simp add: budget_share_def [abs_def])
  have half: "f64_le (f64_min x (Fin (1 / 2))) (Fin (1 / 2))" for x by (simp add: f64_min_le)
  define share where "share e = f64_min (f64_div (budget_share overrides es e)
      (foldl f64_add (Fin 0) (map (budget_share overrides es) (filter (\<lambda>d. ei_layer_id d = ei_layer_id e) es)))) (Fin (1 / 2))" for e
  define alloc where "alloc = allocation_of env es overrides"
  have al: "pr_allocations (optimize env es overrides) = sort_key (\<lambda>a. (- pa_priority a, pa_experiment_id a)) (map alloc es)"
    unfolding alloc_def by (rule optimize_allocations)
  have ids: "pa_experiment_id (alloc e) = ei_experiment_id e" "pa_current_traffic_fraction (alloc e) = traffic_fraction e" for e
    by (simp_all add: alloc_def allocation_of_def Let_def)
  have alloc: "pa_priority (alloc e) = priority_of overrides e" "pa_variance_budget_share (alloc e) = budget_share overrides es e"
    "pa_recommended_traffic_fraction (alloc e) = layer_share ?shares es e" "pa_underpowered (alloc e) = is_underpowered ?shares es e" if "e \<in> set es" for e
    using priorities_of [OF assms(2) that] budget_shares_of(1) [OF assms(2) that assms(3)] recommendations_of_layers [OF assms(1,2) that, of ?shares]
    by (simp_all add: alloc_def allocation_of_def Let_def)
  have "mset (map pa_experiment_id (pr_allocations (optimize env es overrides))) = mset (map ei_experiment_id es)"
    unfolding al by (simp only: mset_map mset_sort) (simp add: image_mset.compositionality comp_def ids)
  moreover have "sorted (map (\<lambda>a. (- pa_priority a, pa_experiment_id a)) (pr_allocations (optimize env es overrides)))"
    unfolding al by (rule sorted_sort_key)
  moreover have "\<exists>e \<in> set es. a = alloc e" if "a \<in> set (pr_allocations (optimize env es overrides))" for a
    using that unfolding al by auto
  moreover have "pa_experiment_id (alloc e) = ei_experiment_id e \<and> pa_priority (alloc e) = priority_of overrides e \<and>
      pa_variance_budget_share (alloc e) = budget_share overrides es e \<and> pa_recommended_traffic_fraction (alloc e) = share e \<and>
      f64_le (share e) (Fin (1 / 2)) \<and> pa_current_traffic_fraction (alloc e) = traffic_fraction e \<and>
      (pa_underpowered (alloc e) \<longleftrightarrow> f64_lt (Fin 0) (share e) \<and> f64_lt (traffic_fraction e) (f64_mul (share e) (Fin (3 / 4))))" if "e \<in> set es" for e
    using alloc [OF that] ids layer_share_quotient [OF assms(2) that assms(3), of overrides] half
    by (simp add: is_underpowered_def share_def)
  ultimately show ?thesis
    unfolding Let_def priority [symmetric] budget [symmetric] budget_share_def [symmetric] share_def [symmetric]
    by (metis (no_types, lifting) traffic_fraction_share)
qed

section \<open>Guardrails of stored experiments\<close>

definition no_guardrails :: "database \<Rightarrow> bool" where
  "no_guardrails db \<longleftrightarrow> (\<forall>x r. db_experiments db x = Some r \<longrightarrow> extract_guardrail_ids (er_type_config r) = [])"

lemma map_of_entry: "k \<noteq> key \<Longrightarrow> map_of (entry_of key f c @ kvs) k = map_of kvs k" "k \<noteq> key \<Longrightarrow> map_of (entry_of key f c) k = None"
  by (simp_all add: entry_of_def split: option.split)

lemma built_config_guardrails: "extract_guardrail_ids (build_type_config e) = []"
  by (simp add: build_type_config_def extract_guardrail_ids_def map_of_entry del: map_of_append)

lemma update_configs:
  assumes "\<And>now r. er_type_config (u now r) = er_type_config r" "no_guardrails db"
  shows "no_guardrails (snd (query (update_experiments x g u) db))"
  using assms
  by (cases rule: query_cases [of "update_experiments x g u" db]) (auto simp: update_experiments_def no_guardrails_def split: option.split)

lemma no_guardrails_step: "db_step A db db' \<Longrightarrow> no_guardrails db \<Longrightarrow> no_guardrails db'"
proof (induction rule: db_step.induct)
  case (9 db' db)
  then show ?case by (simp add: no_guardrails_def)
qed (simp_all add: transition_defs update_configs)

interpretation guardrails_kept: kept "\<lambda>s. no_guardrails (m5_db s)" UNIV
  by unfold_locales (auto simp: publish_event_def intro: no_guardrails_step)

lemma create_no_guardrails: "no_guardrails (m5_db s) \<Longrightarrow> no_guardrails (m5_db (snd (create_experiment env req s)))"
proof -
  assume ok: "no_guardrails (m5_db s)"
  obtain res s' where run: "create_experiment env req s = (res, s')" by fastforce
  have "extract_guardrail_ids (er_type_config (new_experiment_row p (m5_db s))) = []" if "params_of env e p" for e p
    using that by (auto simp: new_experiment_row_def params_of_def create_params_def built_config_guardrails)
  with create_outcome [OF run] have "no_guardrails (m5_db s')"
    using ok by (auto simp: no_guardrails_def same_rows_def inserted_def split: if_splits)
  then show ?thesis by (simp add: run)
qed

lemma reachable_no_guardrails: "reach empty_tables (request_step env) s \<Longrightarrow> no_guardrails (m5_db s)"
proof (induction rule: reach.induct)
  case (reach_init s)
  then show ?case by (simp add: no_guardrails_def empty_tables_def)
next
  case (reach_step s t)
  then show ?case using guardrails_kept.kept_request create_no_guardrails by blast
qed

lemma conflicts_without_guardrails:
  "\<forall>e \<in> set es. ei_guardrail_metric_ids e = [] \<Longrightarrow> c \<in> set (detect_conflicts w es) \<Longrightarrow> co_type c \<noteq> GuardrailMetricOverlap"
proof (induction es)
  case (Cons a es)
  have "co_type c \<noteq> GuardrailMetricOverlap" if "b \<in> set es" "c \<in> set (pair_conflicts w a b)" for b
    using that Cons.prems(1) by (auto simp: pair_conflicts_def Let_def shared_metrics_def split: if_splits)
  then show ?case using Cons by auto
qed simp

lemma optimize_conflicts: "pr_conflicts (optimize env es overrides) = detect_conflicts (po_wide env) es"
  by (cases es) (simp_all add: optimize_def Let_def)

lemma infos_guardrails:
  "experiment_infos env rs s = (Ok es, s') \<Longrightarrow> map ei_guardrail_metric_ids es = map (\<lambda>r. extract_guardrail_ids (er_type_config r)) rs"
proof (induction rs arbitrary: s es)
  case (Cons r rs)
  then obtain b s1 ds where "bucket_range env r s = (Ok b, s1)" "experiment_infos env rs s1 = (Ok ds, s')"
    "map ei_guardrail_metric_ids es = extract_guardrail_ids (er_type_config r) # map ei_guardrail_metric_ids ds"
    by (auto simp: hbind_def hreturn_def split: prod.splits outcome.splits)
  then show ?case using Cons.IH by simp
qed (simp add: hreturn_def)

text \<open>
  C30: A guardrail conflict is never reported: the portfolio looks for the guardrails of an experiment in its stored
  configuration, where no request puts them, so in every reachable state of M5 the conflicts are about primary
  metrics and populations only, whatever guardrails the requests named.
\<close>

theorem guardrail_conflicts_never_reported:
  assumes "reach empty_tables (request_step (po_request env)) s" "get_portfolio_allocation env layer overrides s = (Ok res, s')"
  shows "\<forall>c \<in> set (pr_conflicts res). co_type c \<noteq> GuardrailMetricOverlap"
proof -
  have ok: "no_guardrails (m5_db s)" "keyed_db (m5_db s)"
    using reachable_no_guardrails [OF assms(1)] reachable_ok [OF assms(1)] by (simp_all add: experiments_ok_def keyed_db_def)
  from assms(2) obtain rows s1 es where rows: "store list_active_experiments s = (Ok rows, s1)"
    "experiment_infos env (filter (\<lambda>r. er_state r = ''RUNNING'' \<and> (layer = [] \<or> er_layer_id r = layer)) rows) s1 = (Ok es, s')"
    "res = optimize env es overrides"
    by (auto simp: get_portfolio_allocation_def hbind_def hreturn_def split: prod.splits outcome.splits)
  from store_answer [OF rows(1)] obtain db where "list_active_experiments (m5_db s) = (Ok rows, db)" by (metis (no_types))
  then have "extract_guardrail_ids (er_type_config r) = []" if "r \<in> set rows" for r
    using list_active_Ok [OF _ ok(2) that] ok(1) unfolding no_guardrails_def by blast
  then have "\<forall>g \<in> set (map ei_guardrail_metric_ids es). g = []" unfolding infos_guardrails [OF rows(2)] by auto
  then show ?thesis using conflicts_without_guardrails by (auto simp: rows(3) optimize_conflicts)
qed

section \<open>Spending the significance level\<close>

lemma dyadic: "\<bar>m\<bar> < 2 ^ 53 \<Longrightarrow> k \<le> 1000 \<Longrightarrow> f64_round (of_int m / 2 ^ k) = Fin (of_int m / 2 ^ k)"
proof (rule f64_round_representable)
  assume "\<bar>m\<bar> < 2 ^ 53" "k \<le> 1000"
  have v: "(of_int m :: rat) / 2 ^ k = of_int m * 2 powi - int k" by (simp add: power_int_minus field_simps)
  have "\<bar>(of_int m :: rat) / 2 ^ k\<bar> \<le> \<bar>of_int m\<bar>" by (simp add: abs_divide divide_le_eq mult_le_cancel_left1)
  also have "\<dots> < 2 ^ 53" using \<open>\<bar>m\<bar> < 2 ^ 53\<close> by (metis of_int_abs of_int_less_numeral_power_cancel_iff)
  also have "\<dots> \<le> (2 :: rat) ^ 1024" by (intro power_increasing) simp_all
  finally show "representable (of_int m / 2 ^ k)"
    unfolding representable_def v using \<open>\<bar>m\<bar> < 2 ^ 53\<close> \<open>k \<le> 1000\<close> by (intro conjI exI [of _ m] exI [of _ "- int k"]) simp_all
qed

definition sample_info :: "string \<Rightarrow> experiment_info" where
  "sample_info x = \<lparr>ei_experiment_id = x, ei_experiment_name = x, ei_layer_id = ''L'', ei_primary_metric_id = ''m'', ei_guardrail_metric_ids = [],
     ei_targeting_rule_id = [], ei_start_bucket = 0, ei_end_bucket = 99, ei_layer_total_buckets = 1000\<rparr>"

text \<open>
  The recommended levels can exceed the family-wise level they are to share: with priorities 1 and 3 and a level
  of one sixteenth, the first experiment gets its floor of half the level and the second its weighted three
  quarters.
\<close>

lemma alpha_overspent:
  "\<exists>a b. recommend_alpha ''a'' [sample_info ''a'', sample_info ''b''] [''a'' \<mapsto> 1, ''b'' \<mapsto> 3] (Fin (1 / 16)) = (Ok (Fin a) :: (unit, f64) outcome) \<and>
    recommend_alpha ''b'' [sample_info ''a'', sample_info ''b''] [''a'' \<mapsto> 1, ''b'' \<mapsto> 3] (Fin (1 / 16)) = (Ok (Fin b) :: (unit, f64) outcome) \<and>
    a + b > 1 / 16"
proof -
  have d: "f64_round (1 / 4) = Fin (1 / 4)" "f64_round (3 / 4) = Fin (3 / 4)" "f64_round (1 / 64) = Fin (1 / 64)" "f64_round (3 / 64) = Fin (3 / 64)"
    "f64_round (1 / 32) = Fin (1 / 32)" "f64_round 1 = Fin 1" "f64_round 2 = Fin 2" "f64_round 3 = Fin 3" "f64_round 4 = Fin 4"
    using dyadic [of 1 2] dyadic [of 3 2] dyadic [of 1 6] dyadic [of 3 6] dyadic [of 1 5] dyadic [of 1 0] dyadic [of 2 0] dyadic [of 3 0] dyadic [of 4 0]
    by simp_all
  have ps: "priorities [''a'' \<mapsto> 1, ''b'' \<mapsto> 3] [sample_info ''a'', sample_info ''b''] = [''a'' \<mapsto> 1, ''b'' \<mapsto> 3]"
    by (simp add: priorities_def collect_map_def priority_of_def clamp_priority_def sample_info_def fun_eq_iff)
  have total: "total_priority [''a'' \<mapsto> 1, ''b'' \<mapsto> 3] [sample_info ''a'', sample_info ''b''] = 4"
    by (simp add: total_priority_def sample_info_def)
  show ?thesis
    by (rule exI [of _ "1 / 32"], rule exI [of _ "3 / 64"])
      (simp add: recommend_alpha_def assert_all_finite_def Let_def ps total f64_of_i32_def f64_of_nat_def f64_max_def d)
qed

section \<open>Witnesses\<close>

definition first_values :: "(string, 'v) hash_map \<Rightarrow> 'v list" where
  "first_values m = map (\<lambda>k. the (m k)) (sorted_list_of_set (dom m))"

lemma first_values_ok: "hash_map_values first_values"
  unfolding hash_map_values_def first_values_def
  by (intro allI impI, rule_tac x = "sorted_list_of_set (dom m)" in exI) simp

definition portfolio_sample_env :: portfolio_env where
  "portfolio_sample_env = \<lparr>po_request = plain_env, po_wide = (\<lambda>s. s), po_layers = first_values\<rparr>"

theorem portfolio_recommendations_witness:
  "list_all (\<lambda>a. pa_priority a = (if pa_experiment_id a = ''a'' then 3 else 5) \<and>
      pa_variance_budget_share a = Fin (if pa_experiment_id a = ''a'' then 3 / 8 else 5 / 8) \<and>
      pa_recommended_traffic_fraction a = Fin (if pa_experiment_id a = ''a'' then 3 / 8 else 1 / 2) \<and> pa_underpowered a)
    (pr_allocations (optimize portfolio_sample_env [sample_info ''a'', sample_info ''b''] [''b'' \<mapsto> 9]))"
proof -
  have hyps: "hash_map_values (po_layers portfolio_sample_env)" "distinct (map ei_experiment_id [sample_info ''a'', sample_info ''b''])"
    "5 * int (length [sample_info ''a'', sample_info ''b'']) < 2 ^ 31"
    by (simp_all add: portfolio_sample_env_def first_values_ok sample_info_def)
  have d: "f64_round (3 / 8) = Fin (3 / 8)" "f64_round (5 / 8) = Fin (5 / 8)" "f64_round 1 = Fin 1" "f64_round (9 / 32) = Fin (9 / 32)" "f64_round (1 / 8) = Fin (1 / 8)"
    using dyadic [of 3 3] dyadic [of 5 3] dyadic [of 1 0] dyadic [of 9 5] dyadic [of 1 3] by simp_all
  have "f64_le (f64_round (1 / 10)) (Fin (1 / 8))" using f64_round_mono_nonneg [of "1 / 10" "1 / 8"] d(5) by simp
  then have low: "f64_lt (f64_min (f64_round (1 / 10)) (Fin 1)) (Fin (9 / 32))" "f64_lt (f64_min (f64_round (1 / 10)) (Fin 1)) (Fin (3 / 8))"
    by (cases "f64_round (1 / 10)"; auto simp: f64_le_def f64_min_def)+
  have min: "f64_min (Fin x) (Fin y) = Fin (min x y)" for x y by (simp add: f64_min_def min_def)
  note result = portfolio_recommendations [OF hyps, of "[''b'' \<mapsto> 9]", THEN conjunct2, THEN conjunct2, unfolded Let_def]
  show ?thesis unfolding list_all_iff
  proof
    fix a
    assume "a \<in> set (pr_allocations (optimize portfolio_sample_env [sample_info ''a'', sample_info ''b''] [''b'' \<mapsto> 9]))"
    from bspec [OF result this] show "pa_priority a = (if pa_experiment_id a = ''a'' then 3 else 5) \<and>
      pa_variance_budget_share a = Fin (if pa_experiment_id a = ''a'' then 3 / 8 else 5 / 8) \<and>
      pa_recommended_traffic_fraction a = Fin (if pa_experiment_id a = ''a'' then 3 / 8 else 1 / 2) \<and> pa_underpowered a"
      by (auto simp: sample_info_def d min low)
  qed
qed

section \<open>Two running experiments\<close>

text \<open>Two experiments with the same primary metric and the same guardrail, created and started one after the other.\<close>

lemma show_small: "show_nat 0 = ''0''" "show_nat (Suc 0) = ''1''" "show_nat (Suc (Suc 0)) = ''2''" "show_nat (Suc (Suc (Suc 0))) = ''3''"
  "show_nat (Suc (Suc (Suc (Suc 0)))) = ''4''" "show_nat (Suc (Suc (Suc (Suc (Suc 0))))) = ''5''"
  by code_simp+
lemma sample_request_fields:
  "validate_create env sample_request = Ok ()" "pe_layer_id sample_request = ''L''" "px_targeting_rule_id sample_request = []"
  "px_surrogate_model_id sample_request = []" "pe_type sample_request = 1" "pe_variants sample_request = [half_variant ''a'' True, half_variant ''b'' False]"
  "pe_name sample_request = ''n''" "px_owner_email sample_request = ''o''"  "px_sequential_test_config sample_request = None" "px_guardrail_action sample_request = 1"
  "px_primary_metric_id sample_request = ''m''" "px_secondary_metric_ids sample_request = []" "px_description sample_request = []" "pe_is_cumulative_holdout sample_request = False"
  using sample_request_valid
  by (simp_all add: validate_create_Ok, simp_all add: sample_request_def sample_m5_experiment_def)

definition guarded_request :: m5_experiment where
  "guarded_request = sample_request\<lparr>px_guardrail_configs := [\<lparr>pgc_metric_id = ''g'', pgc_threshold = Fin 1, pgc_consecutive_breaches_required = 1\<rparr>]\<rparr>"
lemma guarded_request_fields:
  "validate_create env guarded_request = Ok ()" "pe_layer_id guarded_request = ''L''" "px_targeting_rule_id guarded_request = []"
  "px_surrogate_model_id guarded_request = []" "pe_type guarded_request = 1" "pe_variants guarded_request = [half_variant ''a'' True, half_variant ''b'' False]"
  "pe_name guarded_request = ''n''" "px_owner_email guarded_request = ''o''"  "px_sequential_test_config guarded_request = None" "px_guardrail_action guarded_request = 1"
  "px_primary_metric_id guarded_request = ''m''" "px_secondary_metric_ids guarded_request = []" "px_description guarded_request = []" "pe_is_cumulative_holdout guarded_request = False"
  "build_type_config guarded_request = build_type_config sample_request"
  using sample_request_valid
  by (simp_all add: validate_create_Ok valid_experiment_def guarded_request_def sample_request_fields build_type_config_def)

fun drafted :: "nat \<Rightarrow> m5 \<Rightarrow> m5" where
  "drafted 0 s = s"
| "drafted (Suc n) s = drafted n (snd (create_experiment plain_env (Some guarded_request) s))"

definition paired_row :: "uuid \<Rightarrow> string \<Rightarrow> experiment_row" where
  "paired_row x st = \<lparr>er_experiment_id = x, er_name = ''n'', er_description = None, er_owner_email = ''o'', er_experiment_type = ''AB'', er_state = st,
     er_layer_id = ''L'', er_primary_metric_id = ''m'', er_secondary_metric_ids = [], er_guardrail_action = ''AUTO_PAUSE'', er_hash_salt = x,
     er_targeting_rule_id = None, er_is_cumulative_holdout = False, er_type_config = build_type_config sample_request,
     er_sequential_method = None, er_planned_looks = None, er_overall_alpha = None, er_surrogate_model_id = None,
     er_created_at = 10, er_started_at = (if st = ''RUNNING'' then Some 10 else None), er_concluded_at = None, er_archived_at = None,
     er_paused_at = None, er_resumed_at = None, er_pause_reason = None, er_updated_at = 10\<rparr>"

lemma two_drafts:
  "db_experiments (m5_db (drafted 2 empty_service)) = [''0'' \<mapsto> paired_row ''0'' ''DRAFT'', ''3'' \<mapsto> paired_row ''3'' ''DRAFT''] \<and>
   db_faults (m5_db (drafted 2 empty_service)) = [] \<and> db_now (m5_db (drafted 2 empty_service)) = 10 \<and> db_allocations (m5_db (drafted 2 empty_service)) = [] \<and>
   db_layers (m5_db (drafted 2 empty_service)) = db_layers empty_layer_db"
  by (simp add: numeral_2_eq_2 create_experiment_def guarded_request_fields hbind_def hreturn_def optional_uuid_def
    store_def store_create_experiment_def insert_experiment_tx_def transaction_def dbind_def dreturn_def begin_commit_def statement_def dmap_err_def
    insert_experiment_def experiment_violation_def insert_variant_def variant_violation_def new_variant_row_def new_experiment_row_def
    create_params_def variant_params_def null_or_def get_experiment_def query_def get_variants_def record_audit_def store_ignored_def empty_service_def empty_layer_db_def
    plain_env_def Management_Service.sample_env_def half_variant_def experiment_type_str_def experiment_types_def
    show_small Let_def i64_as_i32_def paired_row_def)

definition running_pair :: m5 where
  "running_pair = snd (start_experiment Management_Service.sample_env ''3'' (snd (start_experiment Management_Service.sample_env ''0'' (drafted 2 empty_service))))"


lemma start_paired:
  assumes "db_faults (m5_db s) = []" "db_experiments (m5_db s) x = Some (paired_row x ''DRAFT'')" "db_now (m5_db s) = 10"
  shows "\<exists>d. m5_db (snd (start_experiment Management_Service.sample_env x s)) =
    (m5_db s)\<lparr>db_experiments := (db_experiments (m5_db s))(x \<mapsto> paired_row x ''RUNNING''), db_audit := d\<rparr>"
proof -
  have "env_parse_uuid Management_Service.sample_env x = Some x" "er_state (paired_row x ''DRAFT'') = ''DRAFT''"
    "er_experiment_type (paired_row x ''DRAFT'') \<notin> {''META'', ''SWITCHBACK'', ''QUASI''}"
    by (simp_all add: Management_Service.sample_env_def paired_row_def)
  from start_run [OF assms(1) this(1) assms(2) this(2,3)] assms(3) show ?thesis
    by (auto simp: paired_row_def)
qed

lemma running_pair_rows:
  "db_experiments (m5_db running_pair) = [''0'' \<mapsto> paired_row ''0'' ''RUNNING'', ''3'' \<mapsto> paired_row ''3'' ''RUNNING''] \<and>
   db_faults (m5_db running_pair) = [] \<and> db_allocations (m5_db running_pair) = []"
proof -
  let ?s = "drafted 2 empty_service"
  let ?s1 = "snd (start_experiment Management_Service.sample_env ''0'' ?s)"
  obtain d where d: "m5_db ?s1 = (m5_db ?s)\<lparr>db_experiments := (db_experiments (m5_db ?s))(''0'' \<mapsto> paired_row ''0'' ''RUNNING''), db_audit := d\<rparr>"
    using start_paired [of ?s "''0''"] two_drafts by auto
  obtain d' where "m5_db running_pair = (m5_db ?s1)\<lparr>db_experiments := (db_experiments (m5_db ?s1))(''3'' \<mapsto> paired_row ''3'' ''RUNNING''), db_audit := d'\<rparr>"
    using start_paired [of ?s1 "''3''"] d two_drafts unfolding running_pair_def by auto
  then show ?thesis using d two_drafts by (auto simp: fun_eq_iff)
qed


lemma unallocated_range:
  assumes "db_faults (m5_db s) = []" "db_allocations (m5_db s) = []"
  shows "\<exists>n. bucket_range env r s = (Ok (0, n, 1000), s)"
proof -
  have "list_allocations l False (m5_db s) = (Ok [], m5_db s)" for l
    using assms by (simp add: list_allocations_def query_def dmap_err_def Let_def)
  moreover obtain vs where "store (get_variants (er_experiment_id r)) s = (Ok vs, s)"
    using assms(1) by (simp add: get_variants_def store_no_fault)
  ultimately show ?thesis by (simp add: bucket_range_def hbind_def dmap_err_def hreturn_def Let_def)
qed

lemma two_running: "sorted_list_of_set {''0'', ''3''} = [''0'', ''3'' :: string]"
  by (simp add: less_char_def less_eq_char_def)

lemma paired_row_simps: "er_experiment_id (paired_row x st) = x" "er_state (paired_row x st) = st" "er_layer_id (paired_row x st) = ''L''"
  "er_primary_metric_id (paired_row x st) = ''m''" "er_targeting_rule_id (paired_row x st) = None" "extract_guardrail_ids (er_type_config (paired_row x st)) = []"
  by (simp_all add: paired_row_def built_config_guardrails)

lemma running_pair_conflicts:
  "\<exists>res. get_portfolio_allocation portfolio_sample_env [] Map.empty running_pair = (Ok res, running_pair) \<and>
    map co_type (pr_conflicts res) = [PrimaryMetricOverlap, PopulationOverlap]"
proof -
  let ?a = "paired_row ''0'' ''RUNNING''" and ?b = "paired_row ''3'' ''RUNNING''"
  have rows: "store list_active_experiments running_pair = (Ok [?a, ?b], running_pair)"
    using running_pair_rows two_running by (simp add: list_active_experiments_def store_no_fault insert_commute paired_row_simps)
  obtain m n where mn: "bucket_range portfolio_sample_env ?a running_pair = (Ok (0, m, 1000), running_pair)"
    "bucket_range portfolio_sample_env ?b running_pair = (Ok (0, n, 1000), running_pair)"
    using unallocated_range running_pair_rows by meson
  show ?thesis using mn
    by (simp add: get_portfolio_allocation_def hbind_def rows hreturn_def optimize_conflicts pair_conflicts_def shared_metrics_def paired_row_simps)
qed

theorem guardrail_conflicts_never_reported_witness:
  "\<exists>res. get_portfolio_allocation portfolio_sample_env [] Map.empty running_pair = (Ok res, running_pair) \<and>
    map co_type (pr_conflicts res) = [PrimaryMetricOverlap, PopulationOverlap] \<and>
    list_all (\<lambda>c. co_type c \<noteq> GuardrailMetricOverlap) (pr_conflicts res)"
proof -
  let ?s1 = "snd (create_experiment plain_env (Some guarded_request) empty_service)"
  have env: "po_request portfolio_sample_env = plain_env" "re_m5 plain_env = Management_Service.sample_env"
    by (simp_all add: portfolio_sample_env_def plain_env_def)
  have "reach empty_tables (request_step plain_env) empty_service"
    by (rule reach_init) (simp add: empty_tables_def empty_service_def empty_layer_db_def)
  moreover have "request_step plain_env s (snd (create_experiment plain_env (Some guarded_request) s))" for s
    by (rule request_step.create) (simp add: guarded_request_fields)
  moreover have "request_step plain_env s (snd (start_experiment Management_Service.sample_env x s))" for x s
    unfolding env(2) [symmetric] by (rule request_step.lifecycle [OF m5_step.start])
  ultimately have r: "reach empty_tables (request_step (po_request portfolio_sample_env)) running_pair"
    unfolding env(1) running_pair_def numeral_2_eq_2 drafted.simps by (meson reach_step)
  obtain res where run: "get_portfolio_allocation portfolio_sample_env [] Map.empty running_pair = (Ok res, running_pair)"
    "map co_type (pr_conflicts res) = [PrimaryMetricOverlap, PopulationOverlap]"
    using running_pair_conflicts by (elim exE conjE) (rule that)
  from guardrail_conflicts_never_reported [OF r run(1)] show ?thesis using run by (intro exI [of _ res]) (simp add: list_all_iff)
qed

end
