(* ===== verification/Metricql_Ast.thy ===== *)
theory Metricql_Ast
  imports Float64
begin

text \<open>
  The syntax trees, tokens and error values of MetricQL
  (\<^verbatim>\<open>validators/metricql/ast.rs\<close>, \<^verbatim>\<open>diagnostic.rs\<close> and the token types of \<^verbatim>\<open>lexer.rs\<close>), and the
  identifiers of the language.

  A message of the sources is a literal text with interpolated values; \<open>message\<close> has one constructor
  per literal, whose arguments are the interpolated values in order.
\<close>

section \<open>Spans and tokens\<close>

record span =
  sp_start :: nat
  sp_end :: nat

abbreviation Span :: "nat \<Rightarrow> nat \<Rightarrow> span" where
  "Span a b \<equiv> \<lparr>sp_start = a, sp_end = b\<rparr>"

datatype token_kind =
    Eof | Ident | Number | String | Keyword | At | LParen | RParen | LBracket | RBracket | Comma | Dot
  | Plus | Minus | Star | Slash | Eq | Neq | Lt | Lte | Gt | Gte

record token =
  tk_kind :: token_kind
  tk_value :: string
  tk_span :: span

section \<open>Messages\<close>

datatype message =
    UnexpectedBang
  | UnterminatedString
  | UnexpectedCharacter char
  | TrailingTokens token_kind
  | Expected string token_kind
  | ExpectedKeyword string token_kind string
  | ExpectedExpressionKeyword string
  | ExpectedExpression token_kind
  | ExpectedAggregation token_kind
  | ExpectedPercentile token_kind
  | InvalidPercentile string
  | PercentileRange f64
  | UnknownAggregation string
  | ExpectedOperator token_kind string
  | EmptyInList
  | ExpectedValue token_kind
  | InvalidNumber string
  | InvalidWindow string
  | WindowNotPositive f64
  | ExpectedUnit token_kind string
  | ExpectedFactorKeyword string
  | ExpectedFactor token_kind
  | BareMetricRef
  | BareLiteral
  | InvalidEventType string
  | InvalidField string
  | FieldNotAllowed string string string
  | FieldRequired string string
  | InvalidNamespace string
  | InvalidFieldName string
  | InvalidMetricRef string
  | UnknownMetricRef string

record lex_error =
  le_span :: span
  le_message :: message

record parse_error =
  pe_span :: span
  pe_message :: message

datatype severity = Error | Warning

record diagnostic =
  dg_severity :: severity
  dg_message :: message
  dg_span :: span

definition diagnostic_error :: "span \<Rightarrow> message \<Rightarrow> diagnostic" where
  "diagnostic_error sp msg = \<lparr>dg_severity = Error, dg_message = msg, dg_span = sp\<rparr>"

section \<open>Syntax trees\<close>

datatype agg_func = AggUnknown | Mean | Sum | Count | CountDistinct | Proportion | Percentile

datatype arith_op = ArithUnknown | Add | Sub | Mul | Div

datatype cmp_op = OpEq | OpNeq | OpLt | OpLte | OpGt | OpGte | OpIn

datatype mvalue = MValue value_kind span
  and value_kind = VString string | VNumber f64 | VList "mvalue list"

fun value_span :: "mvalue \<Rightarrow> span" where
  "value_span (MValue _ sp) = sp"

record field_ref =
  fr_namespace :: string
  fr_name :: string

record mpredicate =
  pd_field :: field_ref
  pd_operator :: cmp_op
  pd_value :: mvalue
  pd_span :: span

record mfilter =
  fl_predicates :: "mpredicate list"
  fl_span :: span

record msource =
  sr_event_type :: string
  sr_field :: string
  sr_span :: span

datatype window_unit = Hours | Days

record window =
  wd_n :: u32
  wd_unit :: window_unit
  wd_span :: span

record aggregation =
  ag_func :: agg_func
  ag_percentile :: f64
  ag_source :: msource
  ag_filter :: "mfilter option"
  ag_window :: "window option"
  ag_span :: span

record metric_ref =
  mr_id :: string
  mr_span :: span

record ratio =
  rt_numerator :: metric_ref
  rt_denominator :: metric_ref
  rt_span :: span

datatype node =
    Aggregation aggregation
  | Composite arith_op node node span
  | Negate node span
  | Ratio ratio
  | MetricRef metric_ref
  | Literal f64 span

section \<open>Identifiers\<close>

definition is_ident_start :: "char \<Rightarrow> bool" where
  "is_ident_start c \<longleftrightarrow> is_ascii_lower c \<or> c = CHR ''_''"

definition is_ident_char :: "char \<Rightarrow> bool" where
  "is_ident_char c \<longleftrightarrow> is_ascii_lower c \<or> is_ascii_digit c \<or> c = CHR ''_''"

text \<open>The language of the regular expression \<^verbatim>\<open>^[a-z_][a-z0-9_]*$\<close> of \<^verbatim>\<open>identifier_re\<close>.\<close>

definition identifier_re :: "string \<Rightarrow> bool" where
  "identifier_re s \<longleftrightarrow> s \<noteq> [] \<and> is_ident_start (hd s) \<and> list_all is_ident_char s"

definition reserved_keywords :: "string list" where
  "reserved_keywords =
     [''where'', ''and'', ''in'', ''within'', ''of'', ''exposure'', ''hours'', ''days'', ''ratio'',
      ''mean'', ''sum'', ''count'', ''count_distinct'', ''proportion'', ''percentile'']"

text \<open>The texts of the number tokens: digits, with an optional fraction.\<close>

definition number_text :: "string \<Rightarrow> bool" where
  "number_text s \<longleftrightarrow> (\<exists>ip fp. ip \<noteq> [] \<and> list_all is_ascii_digit ip \<and> list_all is_ascii_digit fp \<and>
     (s = ip \<and> fp = [] \<or> s = ip @ CHR ''.'' # fp \<and> fp \<noteq> []))"

lemma ident_start_char: "is_ident_start c \<Longrightarrow> is_ident_char c"
  by (auto simp: is_ident_start_def is_ident_char_def)

lemma ident_char_ascii: "is_ident_char c \<Longrightarrow> is_ascii c"
  by (auto simp: is_ident_char_def lower_is_ascii digit_is_ascii) (simp add: is_ascii_def)

lemma identifier_nonempty: "identifier_re s \<Longrightarrow> s \<noteq> []"
  by (simp add: identifier_re_def)

text \<open>Every number token parses, to a finite non-negative value or, beyond the range of \<^verbatim>\<open>f64\<close>, to infinity.\<close>

lemma number_text_parses:
  assumes "number_text s"
  shows "\<exists>x. parse_f64 s = Some x \<and> (x = Inf False \<or> (\<exists>v. x = Fin v \<and> 0 \<le> v))"
proof -
  from assms obtain ip fp where ip: "ip \<noteq> []" "list_all is_ascii_digit ip" "list_all is_ascii_digit fp"
    and s: "s = ip \<and> fp = [] \<or> s = ip @ CHR ''.'' # fp \<and> fp \<noteq> []"
    unfolding number_text_def by blast
  show ?thesis
    using s
  proof
    assume "s = ip \<and> fp = []"
    then show ?thesis
      using parse_f64_digits [of ip] ip f64_round_nonneg [of "of_nat (digits_val ip)"]
      by (auto simp: f64_of_nat_def)
  next
    assume "s = ip @ CHR ''.'' # fp \<and> fp \<noteq> []"
    then show ?thesis
      using parse_f64_frac [of ip fp] ip
        f64_round_nonneg [of "of_nat (digits_val (ip @ fp)) * 10 powi (- int (length fp))"]
      by auto
  qed
qed

end
