(* ===== verification/Metricql_Lexer.thy ===== *)
theory Metricql_Lexer
  imports Metricql_Ast
begin

text \<open>
  The MetricQL lexer (\<^verbatim>\<open>validators/metricql/lexer.rs\<close>) as a state machine over the bytes of the source:
  \<open>lex_step\<close> is one iteration of the loop of \<^verbatim>\<open>Lexer::tokenize\<close>, with the three scanners as functions on the
  state. A slice of the source panics unless both ends are character boundaries, as in Rust.

  For well-formed UTF-8 the lexer never panics; the tokens it returns are slices of the source in
  order, separated by white space only, and end with the end-of-file token.
\<close>

section \<open>Slices of a string\<close>

definition is_continuation :: "char \<Rightarrow> bool" where
  "is_continuation c \<longleftrightarrow> 128 \<le> (of_char c :: nat) \<and> (of_char c :: nat) < 192"

definition is_char_boundary :: "string \<Rightarrow> nat \<Rightarrow> bool" where
  "is_char_boundary s i \<longleftrightarrow> i = 0 \<or> i = length s \<or> i < length s \<and> \<not> is_continuation (s ! i)"

definition substr :: "string \<Rightarrow> nat \<Rightarrow> nat \<Rightarrow> string" where
  "substr s a b = take (b - a) (drop a s)"

definition str_index :: "string \<Rightarrow> nat \<Rightarrow> nat \<Rightarrow> ('e, string) outcome" where
  "str_index s a b =
     (if a \<le> b \<and> b \<le> length s \<and> is_char_boundary s a \<and> is_char_boundary s b then Ok (substr s a b) else Panic)"

section \<open>The lexer\<close>

record lexer =
  lx_source :: string
  lx_pos :: nat
  lx_tokens :: "token list"

definition lexer_new :: "string \<Rightarrow> lexer" where
  "lexer_new source = \<lparr>lx_source = source, lx_pos = 0, lx_tokens = []\<rparr>"

definition emit :: "token_kind \<Rightarrow> nat \<Rightarrow> nat \<Rightarrow> lexer \<Rightarrow> (lex_error, lexer) outcome" where
  "emit kind start stop lx =
     obind (str_index (lx_source lx) start stop) (\<lambda>value.
       Ok (lx\<lparr>lx_tokens := lx_tokens lx @ [\<lparr>tk_kind = kind, tk_value = value, tk_span = Span start stop\<rparr>]\<rparr>))"

definition lex_err_at :: "nat \<Rightarrow> message \<Rightarrow> lex_error" where
  "lex_err_at pos msg = \<lparr>le_span = Span pos (pos + 1), le_message = msg\<rparr>"

text \<open>The scanning loops: advance while the byte at the position satisfies \<open>P\<close>.\<close>

function scan_while :: "(char \<Rightarrow> bool) \<Rightarrow> string \<Rightarrow> nat \<Rightarrow> nat" where
  "scan_while P s pos = (if pos < length s \<and> P (s ! pos) then scan_while P s (pos + 1) else pos)"
  by pat_completeness auto
termination
  by (relation "measure (\<lambda>(P, s, pos). length s - pos)") auto

declare scan_while.simps [simp del]

definition lex_number :: "nat \<Rightarrow> lexer \<Rightarrow> (lex_error, lexer) outcome" where
  "lex_number start lx =
     (let s = lx_source lx;
          p = scan_while is_ascii_digit s (lx_pos lx);
          q = (if p < length s \<and> s ! p = CHR ''.'' \<and> p + 1 < length s \<and> is_ascii_digit (s ! (p + 1))
               then scan_while is_ascii_digit s (p + 1) else p)
      in emit Number start q (lx\<lparr>lx_pos := q\<rparr>))"

definition lex_string :: "nat \<Rightarrow> lexer \<Rightarrow> (lex_error, lexer) outcome" where
  "lex_string start lx =
     (let s = lx_source lx;
          p = scan_while (\<lambda>c. c \<noteq> CHR 0x27) s (lx_pos lx + 1)
      in if p \<ge> length s then Err (lex_err_at start UnterminatedString)
         else emit String start (p + 1) (lx\<lparr>lx_pos := p + 1\<rparr>))"

definition lex_ident_or_keyword :: "nat \<Rightarrow> lexer \<Rightarrow> (lex_error, lexer) outcome" where
  "lex_ident_or_keyword start lx =
     (let s = lx_source lx;
          stop = scan_while is_ident_char s (lx_pos lx)
      in obind (str_index s start stop) (\<lambda>txt.
           let kind = (if txt \<in> set reserved_keywords then Keyword else Ident)
           in emit kind start stop (lx\<lparr>lx_pos := stop\<rparr>)))"

definition emit_advance :: "token_kind \<Rightarrow> nat \<Rightarrow> lexer \<Rightarrow> (lex_error, lexer) outcome" where
  "emit_advance kind n lx =
     obind (emit kind (lx_pos lx) (lx_pos lx + n) lx) (\<lambda>lx'. Ok (lx'\<lparr>lx_pos := lx_pos lx' + n\<rparr>))"

definition is_whitespace :: "char \<Rightarrow> bool" where
  "is_whitespace c \<longleftrightarrow> c \<in> {CHR '' '', CHR 0x09, CHR 0x0A, CHR 0x0D}"

text \<open>One iteration of the loop of \<^verbatim>\<open>tokenize\<close>, entered with the position inside the source.\<close>

definition lex_step :: "lexer \<Rightarrow> (lex_error, lexer) outcome" where
  "lex_step lx =
     (let s = lx_source lx; pos = lx_pos lx; c = s ! pos;
          next_is_eq = (pos + 1 < length s \<and> s ! (pos + 1) = CHR ''='')
      in if is_whitespace c then Ok (lx\<lparr>lx_pos := pos + 1\<rparr>)
         else if c = CHR ''@'' then emit_advance At 1 lx
         else if c = CHR ''('' then emit_advance LParen 1 lx
         else if c = CHR '')'' then emit_advance RParen 1 lx
         else if c = CHR ''['' then emit_advance LBracket 1 lx
         else if c = CHR '']'' then emit_advance RBracket 1 lx
         else if c = CHR '','' then emit_advance Comma 1 lx
         else if c = CHR ''.'' then emit_advance Dot 1 lx
         else if c = CHR ''+'' then emit_advance Plus 1 lx
         else if c = CHR ''-'' then emit_advance Minus 1 lx
         else if c = CHR ''*'' then emit_advance Star 1 lx
         else if c = CHR ''/'' then emit_advance Slash 1 lx
         else if c = CHR ''='' then emit_advance Eq 1 lx
         else if c = CHR ''!'' then
           (if next_is_eq then emit_advance Neq 2 lx else Err (lex_err_at pos UnexpectedBang))
         else if c = CHR ''<'' then
           (if next_is_eq then emit_advance Lte 2 lx else emit_advance Lt 1 lx)
         else if c = CHR ''>'' then
           (if next_is_eq then emit_advance Gte 2 lx else emit_advance Gt 1 lx)
         else if c = CHR 0x27 then lex_string pos lx
         else if is_ascii_digit c then lex_number pos lx
         else if is_ident_start c then lex_ident_or_keyword pos lx
         else Err (lex_err_at pos (UnexpectedCharacter c)))"

text \<open>Every iteration moves forward in the same source, so the loop ends.\<close>

lemma scan_while_ge: "pos \<le> scan_while P s pos"
proof (induction P s pos rule: scan_while.induct)
  case (1 P s pos)
  then show ?case by (subst scan_while.simps) auto
qed

lemma scan_while_gt: "pos < length s \<Longrightarrow> P (s ! pos) \<Longrightarrow> pos < scan_while P s pos"
  using scan_while_ge [of "pos + 1" P s] by (subst scan_while.simps) simp

lemma emit_Ok:
  "emit kind start stop lx = Ok lx' \<longleftrightarrow>
     start \<le> stop \<and> stop \<le> length (lx_source lx) \<and>
     is_char_boundary (lx_source lx) start \<and> is_char_boundary (lx_source lx) stop \<and>
     lx' = lx\<lparr>lx_tokens := lx_tokens lx @
       [\<lparr>tk_kind = kind, tk_value = substr (lx_source lx) start stop, tk_span = Span start stop\<rparr>]\<rparr>"
  by (auto simp: emit_def str_index_def)

lemma ident_start_digit: "is_ascii_digit c \<Longrightarrow> c \<noteq> CHR ''_''"
  by (auto simp: is_ascii_digit_of_char)

lemma lex_step_forward:
  assumes "lex_step lx = Ok lx'" "lx_pos lx < length (lx_source lx)"
  shows "lx_source lx' = lx_source lx \<and> lx_pos lx < lx_pos lx'"
proof -
  have num: "lx_pos lx < lx_pos lx'" "lx_source lx' = lx_source lx"
    if "lex_number (lx_pos lx) lx = Ok lx'" "is_ascii_digit (lx_source lx ! lx_pos lx)"
    using that scan_while_gt [of "lx_pos lx" "lx_source lx" is_ascii_digit]
      scan_while_ge [of "scan_while is_ascii_digit (lx_source lx) (lx_pos lx) + 1" is_ascii_digit "lx_source lx"] assms(2)
    by (auto simp: lex_number_def Let_def emit_Ok split: if_splits)
  have str: "lx_pos lx < lx_pos lx' \<and> lx_source lx' = lx_source lx" if "lex_string (lx_pos lx) lx = Ok lx'"
    using that scan_while_ge [of "lx_pos lx + 1" "\<lambda>c. c \<noteq> CHR 0x27" "lx_source lx"]
    by (auto simp: lex_string_def Let_def emit_Ok split: if_splits)
  have idk: "lx_pos lx < lx_pos lx' \<and> lx_source lx' = lx_source lx"
    if "lex_ident_or_keyword (lx_pos lx) lx = Ok lx'" "is_ident_start (lx_source lx ! lx_pos lx)"
    using that scan_while_gt [OF assms(2), of is_ident_char] ident_start_char
    by (auto simp: lex_ident_or_keyword_def Let_def emit_Ok obind_Ok_iff)
  have adv: "lx_pos lx < lx_pos lx' \<and> lx_source lx' = lx_source lx" if "emit_advance kind (Suc n) lx = Ok lx'" for kind n
    using that by (auto simp: emit_advance_def emit_Ok obind_Ok_iff)
  show ?thesis
    using assms(1) num str idk adv [of _ 0] adv [of _ 1]
    unfolding lex_step_def Let_def
    by (simp split: if_splits add: numeral_2_eq_2) auto
qed

function lex_loop :: "lexer \<Rightarrow> (lex_error, lexer) outcome" where
  "lex_loop lx = (if lx_pos lx < length (lx_source lx) then obind (lex_step lx) lex_loop else Ok lx)"
  by pat_completeness auto
termination
  by (relation "measure (\<lambda>lx. length (lx_source lx) - lx_pos lx)") (auto dest: lex_step_forward)

declare lex_loop.simps [simp del]

definition tokenize :: "string \<Rightarrow> (lex_error, token list) outcome" where
  "tokenize source =
     obind (lex_loop (lexer_new source)) (\<lambda>lx.
       let eof_pos = length (lx_source lx)
       in Ok (lx_tokens lx @ [\<lparr>tk_kind = Eof, tk_value = [], tk_span = Span eof_pos eof_pos\<rparr>]))"


section \<open>Well-formed UTF-8\<close>

definition utf8_len :: "char \<Rightarrow> nat" where
  "utf8_len c = (let n = (of_char c :: nat) in
     if n < 0x80 then 1 else if 0xC2 \<le> n \<and> n \<le> 0xDF then 2 else if 0xE0 \<le> n \<and> n \<le> 0xEF then 3
     else if 0xF0 \<le> n \<and> n \<le> 0xF4 then 4 else 0)"

definition utf8_second :: "char \<Rightarrow> char \<Rightarrow> bool" where
  "utf8_second c d = (let n = (of_char c :: nat); k = (of_char d :: nat) in
     (n = 0xE0 \<longrightarrow> 0xA0 \<le> k) \<and> (n = 0xED \<longrightarrow> k \<le> 0x9F) \<and> (n = 0xF0 \<longrightarrow> 0x90 \<le> k) \<and> (n = 0xF4 \<longrightarrow> k \<le> 0x8F))"

function valid_utf8 :: "string \<Rightarrow> bool" where
  "valid_utf8 [] = True"
| "valid_utf8 (c # s) =
     (0 < utf8_len c \<and> utf8_len c \<le> length (c # s) \<and> list_all is_continuation (take (utf8_len c - 1) s) \<and>
      (1 < utf8_len c \<longrightarrow> utf8_second c (hd s)) \<and> valid_utf8 (drop (utf8_len c - 1) s))"
  by pat_completeness auto
termination
  by (relation "measure length") auto

lemma continuation_not_ascii: "is_continuation c \<Longrightarrow> \<not> is_ascii c"
  by (simp add: is_continuation_def is_ascii_def)

text \<open>In well-formed UTF-8 no continuation byte follows an ASCII byte, so both sides of an ASCII byte are character boundaries.\<close>

lemma continuation_follows_nonascii:
  "valid_utf8 s \<Longrightarrow> i < length s \<Longrightarrow> is_continuation (s ! i) \<Longrightarrow> 0 < i \<and> \<not> is_ascii (s ! (i - 1))"
proof (induction s arbitrary: i rule: valid_utf8.induct)
  case 1
  then show ?case by simp
next
  case (2 c s)
  let ?k = "utf8_len c"
  have k: "0 < ?k" "?k \<le> length (c # s)" "list_all is_continuation (take (?k - 1) s)" "valid_utf8 (drop (?k - 1) s)"
    using "2.prems"(1) by auto
  have lead: "\<not> is_continuation c" "1 < ?k \<longrightarrow> \<not> is_ascii c"
    using k(1) by (auto simp: utf8_len_def is_continuation_def is_ascii_def Let_def split: if_splits)
  show ?case
  proof (cases "i < ?k")
    case True
    have "0 < i" using "2.prems"(3) lead(1) by (cases i) auto
    moreover have "\<not> is_ascii ((c # s) ! (i - 1))"
    proof (cases "i = 1")
      case True
      then show ?thesis using lead(2) \<open>i < ?k\<close> by simp
    next
      case False
      then have "s ! (i - 2) \<in> set (take (?k - 1) s)"
        using \<open>i < ?k\<close> \<open>0 < i\<close> k(2) "2.prems"(2) by (auto simp: in_set_conv_nth intro!: exI [of _ "i - 2"])
      then have "is_continuation (s ! (i - 2))" using k(3) by (simp add: list_all_iff)
      moreover have "(c # s) ! (i - 1) = s ! (i - 2)" using False \<open>0 < i\<close> by (simp add: nth_Cons' numeral_2_eq_2)
      ultimately show ?thesis using continuation_not_ascii by simp
    qed
    ultimately show ?thesis ..
  next
    case False
    have tail: "drop (?k - 1) s ! j = (c # s) ! (j + ?k)" for j
      using k(1,2) by (cases ?k) (simp_all add: add.commute)
    have IH: "0 < i - ?k \<and> \<not> is_ascii (drop (?k - 1) s ! (i - ?k - 1))"
    proof (rule "2.IH")
      show "i - ?k < length (drop (?k - 1) s)" using False k(1,2) "2.prems"(2) by auto
      show "is_continuation (drop (?k - 1) s ! (i - ?k))" using False "2.prems"(3) by (simp only: tail) simp
    qed (use k "2.prems"(1) in auto)
    moreover have "i - ?k - 1 + ?k = i - 1" using IH by auto
    ultimately show ?thesis by (simp only: tail) auto
  qed
qed

lemma ascii_boundaries:
  assumes "valid_utf8 s" "i < length s" "is_ascii (s ! i)"
  shows "is_char_boundary s i" "is_char_boundary s (i + 1)"
proof -
  show "is_char_boundary s i"
    using assms continuation_not_ascii by (auto simp: is_char_boundary_def)
  show "is_char_boundary s (i + 1)"
    using assms continuation_follows_nonascii [of s "i + 1"] by (auto simp: is_char_boundary_def)
qed

section \<open>Scanning\<close>

lemma scan_while_le: "pos \<le> length s \<Longrightarrow> scan_while P s pos \<le> length s"
proof (induction P s pos rule: scan_while.induct)
  case (1 P s pos)
  then show ?case by (subst scan_while.simps) auto
qed

lemma scan_while_all: "pos \<le> i \<Longrightarrow> i < scan_while P s pos \<Longrightarrow> P (s ! i)"
proof (induction P s pos rule: scan_while.induct)
  case (1 P s pos)
  then show ?case
    by (cases "i = pos") (auto simp: scan_while.simps [of P s pos] split: if_splits)
qed

lemma scan_while_stop: "scan_while P s pos < length s \<Longrightarrow> \<not> P (s ! scan_while P s pos)"
proof (induction P s pos rule: scan_while.induct)
  case (1 P s pos)
  then show ?case
    by (cases "pos < length s \<and> P (s ! pos)") (auto simp: scan_while.simps [of P s pos])
qed

lemma scan_while_exact:
  assumes "pos \<le> q" "q \<le> length s" "\<And>i. pos \<le> i \<Longrightarrow> i < q \<Longrightarrow> P (s ! i)" "q < length s \<Longrightarrow> \<not> P (s ! q)"
  shows "scan_while P s pos = q"
proof (cases "scan_while P s pos" q rule: linorder_cases)
  case less
  with assms(2) have "\<not> P (s ! scan_while P s pos)" by (intro scan_while_stop) simp
  with assms(3) [OF scan_while_ge less] show ?thesis by simp
next
  case greater
  with assms(1) have "P (s ! q)" by (intro scan_while_all)
  moreover have "q < length s" using greater scan_while_le [of pos s P] assms(1,2) by simp
  ultimately show ?thesis using assms(4) by simp
qed

lemmas scan_facts = scan_while_ge scan_while_gt scan_while_le scan_while_all scan_while_stop

lemma length_substr: "a \<le> b \<Longrightarrow> b \<le> length s \<Longrightarrow> length (substr s a b) = b - a"
  by (simp add: substr_def)

lemma nth_substr: "i < b - a \<Longrightarrow> b \<le> length s \<Longrightarrow> substr s a b ! i = s ! (a + i)"
  by (simp add: substr_def)

lemma substr_all:
  assumes "a \<le> b" "b \<le> length s" "\<And>i. a \<le> i \<Longrightarrow> i < b \<Longrightarrow> P (s ! i)"
  shows "list_all P (substr s a b)"
  using assms by (auto simp: list_all_length length_substr nth_substr)

lemma substr_split:
  assumes "a \<le> b" "b \<le> c"
  shows "substr s a c = substr s a b @ substr s b c"
proof -
  have "substr s a c = take ((b - a) + (c - b)) (drop a s)" using assms by (simp add: substr_def)
  also have "\<dots> = substr s a b @ substr s b c"
    using assms by (simp only: take_add) (simp add: substr_def)
  finally show ?thesis .
qed

lemma substr_one: "a < length s \<Longrightarrow> substr s a (a + 1) = [s ! a]"
  by (simp add: substr_def take_Suc_conv_app_nth Cons_nth_drop_Suc [symmetric])

section \<open>Tokens\<close>

text \<open>The texts that a token of a given kind can have.\<close>

fun token_text :: "token_kind \<Rightarrow> string \<Rightarrow> bool" where
  "token_text Eof v = (v = [])"
| "token_text Ident v = (identifier_re v \<and> v \<notin> set reserved_keywords)"
| "token_text Number v = number_text v"
| "token_text String v = (\<exists>body. v = CHR 0x27 # body @ [CHR 0x27] \<and> CHR 0x27 \<notin> set body)"
| "token_text Keyword v = (v \<in> set reserved_keywords)"
| "token_text At v = (v = ''@'')"
| "token_text LParen v = (v = ''('')"
| "token_text RParen v = (v = '')'')"
| "token_text LBracket v = (v = ''['')"
| "token_text RBracket v = (v = '']'')"
| "token_text Comma v = (v = '','')"
| "token_text Dot v = (v = ''.'')"
| "token_text Plus v = (v = ''+'')"
| "token_text Minus v = (v = ''-'')"
| "token_text Star v = (v = ''*'')"
| "token_text Slash v = (v = ''/'')"
| "token_text Eq v = (v = ''='')"
| "token_text Neq v = (v = ''!='')"
| "token_text Lt v = (v = ''<'')"
| "token_text Lte v = (v = ''<='')"
| "token_text Gt v = (v = ''>'')"
| "token_text Gte v = (v = ''>='')"

definition token_ok :: "token \<Rightarrow> bool" where
  "token_ok t \<longleftrightarrow> token_text (tk_kind t) (tk_value t)"

text \<open>One token was cut off the source at the position of the lexer.\<close>

definition lexed :: "lexer \<Rightarrow> token \<Rightarrow> lexer \<Rightarrow> bool" where
  "lexed lx t lx' \<longleftrightarrow>
     lx' = lx\<lparr>lx_pos := sp_end (tk_span t), lx_tokens := lx_tokens lx @ [t]\<rparr> \<and>
     sp_start (tk_span t) = lx_pos lx \<and> lx_pos lx < sp_end (tk_span t) \<and> sp_end (tk_span t) \<le> length (lx_source lx) \<and>
     tk_value t = substr (lx_source lx) (lx_pos lx) (sp_end (tk_span t)) \<and> token_ok t \<and> tk_kind t \<noteq> Eof"

lemma emit_lexed:
  assumes "emit kind (lx_pos lx) q (lx\<lparr>lx_pos := q\<rparr>) = Ok lx'" "lx_pos lx < q"
    and "token_text kind (substr (lx_source lx) (lx_pos lx) q)" "kind \<noteq> Eof"
  shows "\<exists>t. lexed lx t lx'"
  using assms
  by (intro exI [of _ "\<lparr>tk_kind = kind, tk_value = substr (lx_source lx) (lx_pos lx) q, tk_span = Span (lx_pos lx) q\<rparr>"])
    (simp add: emit_Ok lexed_def token_ok_def)

lemma emit_advance_lexed:
  assumes "emit_advance kind n lx = Ok lx'" "0 < n"
    and "token_text kind (substr (lx_source lx) (lx_pos lx) (lx_pos lx + n))" "kind \<noteq> Eof"
  shows "\<exists>t. lexed lx t lx'"
  using assms
  by (intro exI [of _ "\<lparr>tk_kind = kind, tk_value = substr (lx_source lx) (lx_pos lx) (lx_pos lx + n), tk_span = Span (lx_pos lx) (lx_pos lx + n)\<rparr>"])
    (auto simp add: emit_advance_def obind_Ok_iff emit_Ok lexed_def token_ok_def)

lemma lex_number_lexed:
  assumes run: "lex_number (lx_pos lx) lx = Ok lx'"
    and digit: "lx_pos lx < length (lx_source lx)" "is_ascii_digit (lx_source lx ! lx_pos lx)"
  shows "\<exists>t. lexed lx t lx'"
proof -
  let ?s = "lx_source lx" and ?a = "lx_pos lx"
  define p where "p = scan_while is_ascii_digit ?s ?a"
  define frac where "frac \<longleftrightarrow> p < length ?s \<and> ?s ! p = CHR ''.'' \<and> p + 1 < length ?s \<and> is_ascii_digit (?s ! (p + 1))"
  define q where "q = (if frac then scan_while is_ascii_digit ?s (p + 1) else p)"
  have p: "?a < p" "p \<le> length ?s" "list_all is_ascii_digit (substr ?s ?a p)"
    using digit scan_while_gt [of ?a ?s is_ascii_digit] scan_while_le [of ?a ?s is_ascii_digit] scan_while_all [of ?a _ is_ascii_digit ?s]
    by (auto simp: p_def intro!: substr_all)
  have "number_text (substr ?s ?a q)"
  proof (cases frac)
    case True
    then have q: "p + 1 < q" "q \<le> length ?s" "list_all is_ascii_digit (substr ?s (p + 1) q)"
      using scan_while_gt [of "p + 1" ?s is_ascii_digit] scan_while_le [of "p + 1" ?s is_ascii_digit]
        scan_while_all [of "p + 1" _ is_ascii_digit ?s]
      by (auto simp: frac_def q_def intro!: substr_all)
    have "substr ?s ?a q = substr ?s ?a p @ CHR ''.'' # substr ?s (p + 1) q"
      using True p q substr_split [of ?a p q ?s] substr_split [of p "p + 1" q ?s] substr_one [of p ?s]
      by (simp add: frac_def)
    moreover have "substr ?s ?a p \<noteq> []" "substr ?s (p + 1) q \<noteq> []"
      using p q length_substr [of ?a p ?s] length_substr [of "p + 1" q ?s] by auto
    ultimately show ?thesis using p q unfolding number_text_def by blast
  next
    case False
    moreover have "substr ?s ?a p \<noteq> []" using p length_substr [of ?a p ?s] by auto
    ultimately show ?thesis using p unfolding number_text_def q_def by fastforce
  qed
  moreover have "?a < q"
    using p scan_while_ge [of "p + 1" is_ascii_digit ?s] by (auto simp: q_def)
  ultimately show ?thesis
    using run by (intro emit_lexed [of Number lx q]) (auto simp: lex_number_def Let_def p_def q_def frac_def split: if_splits)
qed

lemma lex_string_lexed:
  assumes run: "lex_string (lx_pos lx) lx = Ok lx'"
    and quote: "lx_pos lx < length (lx_source lx)" "lx_source lx ! lx_pos lx = CHR 0x27"
  shows "\<exists>t. lexed lx t lx'"
proof -
  let ?s = "lx_source lx" and ?a = "lx_pos lx"
  define p where "p = scan_while (\<lambda>c. c \<noteq> CHR 0x27) ?s (?a + 1)"
  have p: "?a + 1 \<le> p" "p < length ?s" "emit String ?a (p + 1) (lx\<lparr>lx_pos := p + 1\<rparr>) = Ok lx'"
    using run scan_while_ge [of "?a + 1" "\<lambda>c. c \<noteq> CHR 0x27" ?s]
    by (auto simp: lex_string_def Let_def p_def split: if_splits)
  have "?s ! p = CHR 0x27" using p(2) scan_while_stop [of "\<lambda>c. c \<noteq> CHR 0x27" ?s "?a + 1"] by (simp add: p_def)
  then have "substr ?s ?a (p + 1) = CHR 0x27 # substr ?s (?a + 1) p @ [CHR 0x27]"
    using p quote substr_split [of ?a "?a + 1" "p + 1" ?s] substr_split [of "?a + 1" p "p + 1" ?s]
      substr_one [of ?a ?s] substr_one [of p ?s] by simp
  moreover have "CHR 0x27 \<notin> set (substr ?s (?a + 1) p)"
    using p substr_all [of "?a + 1" p ?s "\<lambda>c. c \<noteq> CHR 0x27"] scan_while_all [of "?a + 1" _ "\<lambda>c. c \<noteq> CHR 0x27" ?s]
    by (auto simp: p_def list_all_iff)
  ultimately show ?thesis using p by (intro emit_lexed [of String lx "p + 1"]) auto
qed

lemma lex_ident_lexed:
  assumes run: "lex_ident_or_keyword (lx_pos lx) lx = Ok lx'"
    and start: "lx_pos lx < length (lx_source lx)" "is_ident_start (lx_source lx ! lx_pos lx)"
  shows "\<exists>t. lexed lx t lx'"
proof -
  let ?s = "lx_source lx" and ?a = "lx_pos lx"
  define q where "q = scan_while is_ident_char ?s ?a"
  have q: "?a < q" "q \<le> length ?s" "list_all is_ident_char (substr ?s ?a q)"
    using start scan_while_gt [of ?a ?s is_ident_char] scan_while_le [of ?a ?s is_ident_char] scan_while_all [of ?a _ is_ident_char ?s] ident_start_char
    by (auto simp: q_def intro!: substr_all)
  have "substr ?s ?a q = [?s ! ?a] @ substr ?s (?a + 1) q"
    using q(1) start(1) substr_split [of ?a "?a + 1" q ?s] substr_one [of ?a ?s] by simp
  then have "identifier_re (substr ?s ?a q)"
    using q(3) start(2) by (simp add: identifier_re_def)
  then show ?thesis
    using run q emit_lexed [of _ lx q lx']
    by (auto simp: lex_ident_or_keyword_def Let_def obind_Ok_iff str_index_def q_def split: if_splits)
qed

lemma substr_two: "a + 1 < length s \<Longrightarrow> substr s a (a + 2) = [s ! a, s ! (a + 1)]"
  using substr_split [of a "a + 1" "a + 2" s] substr_one [of a s] substr_one [of "a + 1" s] by simp

text \<open>An iteration skips one byte of white space or cuts off one token.\<close>

lemma lex_step_spec:
  assumes "lex_step lx = Ok lx'" "lx_pos lx < length (lx_source lx)"
  shows "is_whitespace (lx_source lx ! lx_pos lx) \<and> lx' = lx\<lparr>lx_pos := lx_pos lx + 1\<rparr> \<or> (\<exists>t. lexed lx t lx')"
proof -
  let ?s = "lx_source lx" and ?a = "lx_pos lx"
  have one: "\<exists>t. lexed lx t lx'" if "emit_advance kind (Suc 0) lx = Ok lx'" "token_text kind [?s ! ?a]" "kind \<noteq> Eof" for kind
    using that emit_advance_lexed [of kind 1 lx lx'] substr_one [OF assms(2)] by simp
  have two: "\<exists>t. lexed lx t lx'"
    if "emit_advance kind 2 lx = Ok lx'" "Suc ?a < length ?s" "token_text kind [?s ! ?a, ?s ! Suc ?a]" "kind \<noteq> Eof" for kind
    using that emit_advance_lexed [of kind 2 lx lx'] substr_two [of ?a ?s] by simp
  show ?thesis
    using assms(1) lex_number_lexed [OF _ assms(2)] lex_string_lexed [OF _ assms(2)] lex_ident_lexed [OF _ assms(2)]
    unfolding lex_step_def Let_def
    by (simp split: if_splits) (auto dest!: one two)
qed

section \<open>The lexer does not panic on well-formed UTF-8\<close>

lemma str_index_total:
  assumes "valid_utf8 s" "a < b" "b \<le> length s" "is_ascii (s ! a)" "is_ascii (s ! (b - 1))"
  shows "str_index s a b = Ok (substr s a b)"
  using assms ascii_boundaries(1) [of s a] ascii_boundaries(2) [of s "b - 1"] by (simp add: str_index_def)

lemma emit_total:
  assumes "valid_utf8 (lx_source lx)" "a < b" "b \<le> length (lx_source lx)" "is_ascii (lx_source lx ! a)" "is_ascii (lx_source lx ! (b - 1))"
  shows "emit kind a b lx \<noteq> Panic"
  by (simp add: emit_def str_index_total [OF assms])

lemma lex_number_total:
  assumes "valid_utf8 (lx_source lx)" "lx_pos lx < length (lx_source lx)" "is_ascii_digit (lx_source lx ! lx_pos lx)"
  shows "lex_number (lx_pos lx) lx \<noteq> Panic"
proof -
  let ?s = "lx_source lx" and ?a = "lx_pos lx"
  have last_digit: "b < scan_while is_ascii_digit ?s b \<and> scan_while is_ascii_digit ?s b \<le> length ?s \<and>
      is_ascii (?s ! (scan_while is_ascii_digit ?s b - 1))" if "b < length ?s" "is_ascii_digit (?s ! b)" for b
    using that scan_while_gt [of b ?s is_ascii_digit] scan_while_le [of b ?s is_ascii_digit]
      scan_while_all [of b "scan_while is_ascii_digit ?s b - 1" is_ascii_digit ?s] digit_is_ascii by auto
  let ?p = "scan_while is_ascii_digit ?s ?a"
  have p: "?a < ?p" "?p \<le> length ?s" "is_ascii (?s ! (?p - 1))" using last_digit assms(2,3) by auto
  have q: "?p + 1 < scan_while is_ascii_digit ?s (?p + 1)" "scan_while is_ascii_digit ?s (?p + 1) \<le> length ?s"
    "is_ascii (?s ! (scan_while is_ascii_digit ?s (?p + 1) - 1))"
    if "?p + 1 < length ?s" "is_ascii_digit (?s ! (?p + 1))"
    using last_digit [OF that] by auto
  show ?thesis
    unfolding lex_number_def Let_def
    by (rule emit_total) (use assms p q digit_is_ascii in \<open>auto split: if_splits\<close>)
qed

lemma lex_string_total:
  assumes "valid_utf8 (lx_source lx)" "lx_pos lx < length (lx_source lx)" "lx_source lx ! lx_pos lx = CHR 0x27"
  shows "lex_string (lx_pos lx) lx \<noteq> Panic"
proof -
  let ?s = "lx_source lx" and ?a = "lx_pos lx"
  let ?p = "scan_while (\<lambda>c. c \<noteq> CHR 0x27) ?s (?a + 1)"
  have quote: "is_ascii (CHR 0x27)" by (simp add: is_ascii_def)
  have p: "?a < ?p + 1" using scan_while_ge [of "?a + 1" "\<lambda>c. c \<noteq> CHR 0x27" ?s] by simp
  have "emit String ?a (?p + 1) (lx\<lparr>lx_pos := ?p + 1\<rparr>) \<noteq> Panic" if "?p < length ?s"
    using that scan_while_stop [OF that] assms p quote by (intro emit_total) auto
  then show ?thesis by (auto simp: lex_string_def Let_def)
qed

lemma lex_ident_total:
  assumes "valid_utf8 (lx_source lx)" "lx_pos lx < length (lx_source lx)" "is_ident_start (lx_source lx ! lx_pos lx)"
  shows "lex_ident_or_keyword (lx_pos lx) lx \<noteq> Panic"
proof -
  let ?s = "lx_source lx" and ?a = "lx_pos lx"
  let ?q = "scan_while is_ident_char ?s ?a"
  have q: "?a < ?q" "?q \<le> length ?s" using assms(2,3) scan_while_gt [of ?a ?s is_ident_char] scan_while_le [of ?a ?s is_ident_char] ident_start_char by auto
  then have asc: "is_ascii (?s ! ?a)" "is_ascii (?s ! (?q - 1))"
    using assms(3) ident_start_char scan_while_all [of ?a "?q - 1" is_ident_char ?s] by (auto intro!: ident_char_ascii)
  note ix = str_index_total [OF assms(1) q asc]
  have "emit kind ?a ?q (lx\<lparr>lx_pos := ?q\<rparr>) \<noteq> Panic" for kind
    using assms(1) q asc by (intro emit_total) auto
  then show ?thesis by (simp add: lex_ident_or_keyword_def Let_def ix)
qed

lemma lex_step_total:
  assumes "valid_utf8 (lx_source lx)" "lx_pos lx < length (lx_source lx)"
  shows "lex_step lx \<noteq> Panic"
proof -
  let ?s = "lx_source lx" and ?a = "lx_pos lx"
  have one: "emit_advance kind (Suc 0) lx \<noteq> Panic" if "is_ascii (?s ! ?a)" for kind
    using that assms emit_total [of lx ?a "?a + 1" kind] by (simp add: emit_advance_def obind_Panic_iff)
  have two: "emit_advance kind 2 lx \<noteq> Panic" if "is_ascii (?s ! ?a)" "Suc ?a < length ?s" "is_ascii (?s ! Suc ?a)" for kind
    using that assms emit_total [of lx ?a "?a + 2" kind] by (simp add: emit_advance_def obind_Panic_iff)
  have asc: "is_ascii (CHR ''='')" "is_ascii CHR ''@''" "is_ascii CHR ''(''" "is_ascii CHR '')''" "is_ascii CHR ''[''" "is_ascii CHR '']''"
    "is_ascii CHR '',''" "is_ascii CHR ''.''" "is_ascii CHR ''+''" "is_ascii CHR ''-''" "is_ascii CHR ''*''" "is_ascii CHR ''/''"
    "is_ascii CHR ''!''" "is_ascii CHR ''<''" "is_ascii CHR ''>''"
    by (simp_all add: is_ascii_def)
  show ?thesis
    using lex_number_total [OF assms] lex_string_total [OF assms] lex_ident_total [OF assms] one two asc
    unfolding lex_step_def Let_def
    by simp
qed

lemma lex_loop_total:
  "valid_utf8 (lx_source lx) \<Longrightarrow> lex_loop lx \<noteq> Panic"
proof (induction lx rule: lex_loop.induct)
  case (1 lx)
  show ?case
  proof (cases "lx_pos lx < length (lx_source lx)")
    case True
    have "lex_loop lx' \<noteq> Panic" if "lex_step lx = Ok lx'" for lx'
      using "1.IH" [OF True that] lex_step_forward [OF that True] "1.prems" by simp
    then show ?thesis
      using lex_step_total [OF "1.prems" True] by (subst lex_loop.simps) (simp add: True obind_Panic_iff)
  next
    case False
    then show ?thesis by (subst lex_loop.simps) simp
  qed
qed

lemma lex_step_error:
  "lex_step lx = Err e \<Longrightarrow> le_span e = Span (lx_pos lx) (lx_pos lx + 1)"
  unfolding lex_step_def Let_def
  by (simp split: if_splits add: lex_err_at_def emit_advance_def lex_number_def lex_string_def lex_ident_or_keyword_def
      emit_def obind_Err_iff str_index_def Let_def) auto

lemma lex_loop_error:
  "lex_loop lx = Err e \<Longrightarrow> \<exists>p < length (lx_source lx). le_span e = Span p (p + 1)"
proof (induction lx rule: lex_loop.induct)
  case (1 lx)
  have pos: "lx_pos lx < length (lx_source lx)"
    using "1.prems" by (subst (asm) lex_loop.simps) (auto split: if_splits)
  with "1.prems" have "lex_step lx = Err e \<or> (\<exists>lx'. lex_step lx = Ok lx' \<and> lex_loop lx' = Err e)"
    by (subst (asm) lex_loop.simps) (simp add: obind_Err_iff)
  then show ?case
  proof
    assume "lex_step lx = Err e"
    then show ?thesis using lex_step_error pos by blast
  next
    assume "\<exists>lx'. lex_step lx = Ok lx' \<and> lex_loop lx' = Err e"
    then obtain lx' where step: "lex_step lx = Ok lx'" and rest: "lex_loop lx' = Err e" by blast
    show ?thesis using "1.IH" [OF pos step rest] lex_step_forward [OF step pos] by simp
  qed
qed

section \<open>Layout\<close>

text \<open>
  From position \<open>p\<close> to position \<open>q\<close> the source is exactly the given tokens, in order and each with the
  text at its span, separated by white space only.
\<close>

fun laid_out :: "string \<Rightarrow> nat \<Rightarrow> token list \<Rightarrow> nat \<Rightarrow> bool" where
  "laid_out s p [] q = (p \<le> q \<and> q \<le> length s \<and> list_all is_whitespace (substr s p q))"
| "laid_out s p (t # ts) q =
     (let a = sp_start (tk_span t); b = sp_end (tk_span t)
      in p \<le> a \<and> a < b \<and> b \<le> length s \<and> list_all is_whitespace (substr s p a) \<and> tk_value t = substr s a b \<and>
         laid_out s b ts q)"

lemma laid_out_white:
  "laid_out s p ts q \<Longrightarrow> q < length s \<Longrightarrow> is_whitespace (s ! q) \<Longrightarrow> laid_out s p ts (q + 1)"
proof (induction s p ts q rule: laid_out.induct)
  case (1 s p q)
  then show ?case using substr_split [of p q "q + 1" s] substr_one [of q s] by simp
qed (simp add: Let_def)

lemma laid_out_token:
  "laid_out s p ts q \<Longrightarrow> sp_start (tk_span t) = q \<Longrightarrow> q < sp_end (tk_span t) \<Longrightarrow> sp_end (tk_span t) \<le> length s \<Longrightarrow>
     tk_value t = substr s q (sp_end (tk_span t)) \<Longrightarrow> laid_out s p (ts @ [t]) (sp_end (tk_span t))"
  by (induction s p ts q rule: laid_out.induct) (simp_all add: Let_def substr_def)

lemma laid_out_end: "laid_out s p ts q \<Longrightarrow> q \<le> length s"
  by (induction s p ts q rule: laid_out.induct) (auto simp: Let_def)

lemma lex_loop_layout:
  assumes "lex_loop lx = Ok lx'" "laid_out (lx_source lx) 0 (lx_tokens lx) (lx_pos lx)"
    and "\<forall>t \<in> set (lx_tokens lx). token_ok t \<and> tk_kind t \<noteq> Eof"
  shows "lx_source lx' = lx_source lx \<and> laid_out (lx_source lx) 0 (lx_tokens lx') (length (lx_source lx)) \<and>
    (\<forall>t \<in> set (lx_tokens lx'). token_ok t \<and> tk_kind t \<noteq> Eof)"
  using assms
proof (induction lx rule: lex_loop.induct)
  case (1 lx)
  show ?case
  proof (cases "lx_pos lx < length (lx_source lx)")
    case True
    with "1.prems"(1) obtain lx1 where step: "lex_step lx = Ok lx1" and rest: "lex_loop lx1 = Ok lx'"
      by (subst (asm) lex_loop.simps) (auto simp: obind_Ok_iff)
    have src: "lx_source lx1 = lx_source lx" using lex_step_forward [OF step True] by simp
    have "laid_out (lx_source lx1) 0 (lx_tokens lx1) (lx_pos lx1) \<and> (\<forall>t \<in> set (lx_tokens lx1). token_ok t \<and> tk_kind t \<noteq> Eof)"
      using lex_step_spec [OF step True]
    proof
      assume "is_whitespace (lx_source lx ! lx_pos lx) \<and> lx1 = lx\<lparr>lx_pos := lx_pos lx + 1\<rparr>"
      then show ?thesis using "1.prems"(2,3) True laid_out_white by simp
    next
      assume "\<exists>t. lexed lx t lx1"
      then show ?thesis using "1.prems"(2,3) laid_out_token by (auto simp: lexed_def)
    qed
    then show ?thesis using "1.IH" [OF True step rest] src by simp
  next
    case False
    with laid_out_end [OF "1.prems"(2)] have "lx_pos lx = length (lx_source lx)" by simp
    then show ?thesis using "1.prems" by (subst (asm) lex_loop.simps) simp
  qed
qed

section \<open>Lexing the texts of tokens again\<close>

lemma lex_step_digit: "is_ascii_digit (lx_source lx ! lx_pos lx) \<Longrightarrow> lex_step lx = lex_number (lx_pos lx) lx"
  by (auto simp: lex_step_def Let_def is_whitespace_def is_ascii_digit_of_char)

lemma ident_start_plain:
  assumes "is_ident_start c"
  shows "\<not> is_ascii_digit c" "\<not> is_whitespace c"
    "c \<notin> {CHR ''@'', CHR ''('', CHR '')'', CHR ''['', CHR '']'', CHR '','', CHR ''.'', CHR ''+'', CHR ''-'', CHR ''*'', CHR ''/'',
       CHR ''='', CHR ''!'', CHR ''<'', CHR ''>'', CHR 0x27}"
proof -
  have n: "(of_char c :: nat) = 95 \<or> 97 \<le> (of_char c :: nat)"
    using assms by (auto simp: is_ident_start_def is_ascii_lower_of_char)
  then show "\<not> is_ascii_digit c" by (auto simp: is_ascii_digit_of_char)
  show "\<not> is_whitespace c" using n by (auto simp: is_whitespace_def)
  show "c \<notin> {CHR ''@'', CHR ''('', CHR '')'', CHR ''['', CHR '']'', CHR '','', CHR ''.'', CHR ''+'', CHR ''-'', CHR ''*'', CHR ''/'',
       CHR ''='', CHR ''!'', CHR ''<'', CHR ''>'', CHR 0x27}"
    using n by auto
qed

lemma lex_step_ident: "is_ident_start (lx_source lx ! lx_pos lx) \<Longrightarrow> lex_step lx = lex_ident_or_keyword (lx_pos lx) lx"
  using ident_start_plain [of "lx_source lx ! lx_pos lx"] by (simp add: lex_step_def Let_def)

lemma lex_step_quote: "lx_source lx ! lx_pos lx = CHR 0x27 \<Longrightarrow> lex_step lx = lex_string (lx_pos lx) lx"
  by (simp add: lex_step_def Let_def is_whitespace_def)

lemma reserved_identifiers: "list_all identifier_re reserved_keywords"
  by code_simp

lemma reserved_is_identifier: "v \<in> set reserved_keywords \<Longrightarrow> identifier_re v"
  using reserved_identifiers by (simp add: list_all_iff)

definition spaced_token :: "token_kind \<Rightarrow> string \<Rightarrow> nat \<Rightarrow> token" where
  "spaced_token k v p = \<lparr>tk_kind = k, tk_value = v, tk_span = Span p (p + length v)\<rparr>"

lemma substr_middle: "substr (pre @ v @ rest) (length pre) (length pre + length v) = v"
  by (simp add: substr_def)

lemma str_index_spaced:
  assumes "s = pre @ v @ CHR '' '' # rest" "v \<noteq> []" "\<not> is_continuation (hd v)"
  shows "str_index s (length pre) (length pre + length v) = Ok v"
proof -
  have "s ! length pre = hd v" "s ! (length pre + length v) = CHR '' ''"
    using assms(1,2) by (simp_all add: nth_append hd_conv_nth)
  then have "is_char_boundary s (length pre)" "is_char_boundary s (length pre + length v)"
    using assms by (auto simp: is_char_boundary_def is_continuation_def)
  then show ?thesis using assms(1) by (simp add: str_index_def substr_middle)
qed

lemma emit_spaced:
  assumes "lx_source lx = pre @ v @ CHR '' '' # rest" "v \<noteq> []" "\<not> is_continuation (hd v)"
  shows "emit k (length pre) (length pre + length v) lx = Ok (lx\<lparr>lx_tokens := lx_tokens lx @ [spaced_token k v (length pre)]\<rparr>)"
  by (simp add: emit_def str_index_spaced [OF assms] spaced_token_def)

lemma scan_spaced:
  assumes "s = pre @ v @ c # rest" "list_all P v" "\<not> P c"
  shows "scan_while P s (length pre) = length pre + length v"
  by (rule scan_while_exact) (use assms in \<open>auto simp: nth_append list_all_length\<close>)

lemma ascii_not_continuation: "is_ascii c \<Longrightarrow> \<not> is_continuation c"
  by (simp add: is_ascii_def is_continuation_def)

text \<open>A token text that is followed by a space is cut off as one token.\<close>

lemma relex_number:
  assumes src: "lx_source lx = pre @ v @ CHR '' '' # rest" "lx_pos lx = length pre" and v: "number_text v"
  shows "lex_step lx = Ok (lx\<lparr>lx_pos := length pre + length v, lx_tokens := lx_tokens lx @ [spaced_token Number v (length pre)]\<rparr>)"
proof -
  let ?s = "lx_source lx"
  from v obtain ip fp where ip: "ip \<noteq> []" "list_all is_ascii_digit ip" "list_all is_ascii_digit fp"
    and cases: "v = ip \<and> fp = [] \<or> v = ip @ CHR ''.'' # fp \<and> fp \<noteq> []"
    unfolding number_text_def by blast
  have hd: "is_ascii_digit (hd v)" "v \<noteq> []" using ip cases by (auto simp: list_all_iff hd_append)
  then have "is_ascii_digit (?s ! lx_pos lx)" using src by (simp add: nth_append hd_conv_nth)
  then have step: "lex_step lx = lex_number (length pre) lx" using lex_step_digit src(2) by simp
  have nosp: "\<not> is_ascii_digit CHR '' ''" by (simp add: is_ascii_digit_of_char)
  let ?p = "scan_while is_ascii_digit ?s (length pre)"
  have "lex_number (length pre) lx = emit Number (length pre) (length pre + length v) (lx\<lparr>lx_pos := length pre + length v\<rparr>)"
    using cases
  proof
    assume v: "v = ip \<and> fp = []"
    then have "?p = length pre + length v" using scan_spaced [of ?s pre v "CHR '' ''" rest] src(1) ip(2) nosp by simp
    moreover have "?s ! (length pre + length v) = CHR '' ''" using src(1) by (simp add: nth_append)
    ultimately show ?thesis using src(2) by (simp add: lex_number_def Let_def)
  next
    assume v: "v = ip @ CHR ''.'' # fp \<and> fp \<noteq> []"
    have s: "?s = pre @ ip @ CHR ''.'' # fp @ CHR '' '' # rest" "?s = (pre @ ip @ ''.'') @ fp @ CHR '' '' # rest"
      using v src(1) by simp_all
    have p: "?p = length pre + length ip" using scan_spaced [OF s(1) ip(2)] by simp
    have q: "scan_while is_ascii_digit ?s (?p + 1) = length pre + length v"
      using scan_spaced [OF s(2) ip(3) nosp] p v by (simp add: add.assoc)
    have "?s ! ?p = CHR ''.''" using p s(1) by (simp add: nth_append)
    moreover have "?s ! (?p + 1) = hd fp" using p s(1) v by (simp add: nth_append hd_conv_nth)
    moreover have "is_ascii_digit (hd fp)" using v ip(3) by (auto simp: list_all_iff)
    moreover have "?p + 1 < length ?s" using p s(1) by simp
    ultimately show ?thesis using q src(2) by (simp add: lex_number_def Let_def)
  qed
  then show ?thesis
    using step emit_spaced [of "lx\<lparr>lx_pos := length pre + length v\<rparr>" pre v rest Number] src(1) hd digit_is_ascii ascii_not_continuation
    by simp
qed

lemma relex_string:
  assumes src: "lx_source lx = pre @ v @ CHR '' '' # rest" "lx_pos lx = length pre"
    and v: "v = CHR 0x27 # body @ [CHR 0x27]" "CHR 0x27 \<notin> set body"
  shows "lex_step lx = Ok (lx\<lparr>lx_pos := length pre + length v, lx_tokens := lx_tokens lx @ [spaced_token String v (length pre)]\<rparr>)"
proof -
  let ?s = "lx_source lx"
  have step: "lex_step lx = lex_string (length pre) lx" using lex_step_quote [of lx] src v by (simp add: nth_append)
  have "?s = (pre @ [CHR 0x27]) @ body @ CHR 0x27 # CHR '' '' # rest" using src(1) v(1) by simp
  from scan_spaced [OF this, of "\<lambda>c. c \<noteq> CHR 0x27"] v(2)
  have p: "scan_while (\<lambda>c. c \<noteq> CHR 0x27) ?s (length pre + 1) = length pre + length v - 1"
    using v(1) by (auto simp: list_all_iff)
  have "lex_string (length pre) lx = emit String (length pre) (length pre + length v) (lx\<lparr>lx_pos := length pre + length v\<rparr>)"
    using p src v(1) by (simp add: lex_string_def Let_def)
  then show ?thesis
    using step emit_spaced [of "lx\<lparr>lx_pos := length pre + length v\<rparr>" pre v rest String] src(1) v(1)
    by (simp add: is_continuation_def)
qed

lemma relex_ident:
  assumes src: "lx_source lx = pre @ v @ CHR '' '' # rest" "lx_pos lx = length pre" and v: "identifier_re v"
  shows "lex_step lx = Ok (lx\<lparr>lx_pos := length pre + length v,
    lx_tokens := lx_tokens lx @ [spaced_token (if v \<in> set reserved_keywords then Keyword else Ident) v (length pre)]\<rparr>)"
proof -
  let ?s = "lx_source lx"
  have hd: "is_ident_start (hd v)" "v \<noteq> []" "list_all is_ident_char v" using v by (auto simp: identifier_re_def)
  then have "is_ident_start (?s ! lx_pos lx)" using src by (simp add: nth_append hd_conv_nth)
  then have step: "lex_step lx = lex_ident_or_keyword (length pre) lx" using lex_step_ident src(2) by simp
  have "\<not> is_ident_char CHR '' ''" by (simp add: is_ident_char_def is_ascii_digit_of_char is_ascii_lower_of_char)
  from scan_spaced [OF src(1) hd(3) this]
  have p: "scan_while is_ident_char ?s (length pre) = length pre + length v" .
  note em = emit_spaced [of "lx\<lparr>lx_pos := length pre + length v\<rparr>" pre v rest]
  have cont: "\<not> is_continuation (hd v)" using hd ident_start_char ident_char_ascii ascii_not_continuation by blast
  show ?thesis
    using step p em src(2) hd(2) cont src(1)
    by (simp add: lex_ident_or_keyword_def Let_def str_index_spaced [OF src(1) hd(2) cont, unfolded src(1)])
qed

lemma relex_token:
  assumes src: "lx_source lx = pre @ v @ CHR '' '' # rest" "lx_pos lx = length pre" and v: "token_text k v" "k \<noteq> Eof"
  shows "lex_step lx = Ok (lx\<lparr>lx_pos := length pre + length v, lx_tokens := lx_tokens lx @ [spaced_token k v (length pre)]\<rparr>)"
proof -
  have fixed: "emit_advance k (length v) lx = Ok (lx\<lparr>lx_pos := length pre + length v, lx_tokens := lx_tokens lx @ [spaced_token k v (length pre)]\<rparr>)"
    if "v \<noteq> []" "\<not> is_continuation (hd v)"
    using emit_spaced [OF src(1) that, of k] src(2) by (simp add: emit_advance_def)
  have at: "lx_source lx ! (length pre + i) = (v @ CHR '' '' # rest) ! i" for i
    using src(1) by (simp add: nth_append)
  have len: "Suc (length pre) < length (lx_source lx) \<longleftrightarrow> 1 < length v + 1 + length rest" using src(1) by simp
  show ?thesis
  proof (cases k)
    case Number
    then show ?thesis using relex_number [OF src] v by simp
  next
    case String
    then show ?thesis using relex_string [OF src] v by auto
  next
    case Ident
    then show ?thesis using relex_ident [OF src] v by simp
  next
    case Keyword
    then show ?thesis using relex_ident [OF src reserved_is_identifier] v by simp
  qed (use v fixed at [of 0] at [of 1] len src in
      \<open>simp_all add: lex_step_def Let_def is_whitespace_def is_continuation_def numeral_2_eq_2\<close>)
qed

text \<open>The texts of a token list, each followed by a space.\<close>

definition respace :: "token list \<Rightarrow> string" where
  "respace ts = concat (map (\<lambda>t. tk_value t @ '' '') ts)"

lemma lex_loop_respace:
  assumes "lx_source lx = pre @ respace ts" "lx_pos lx = length pre" "\<forall>t \<in> set ts. token_ok t \<and> tk_kind t \<noteq> Eof"
  shows "\<exists>lx'. lex_loop lx = Ok lx' \<and>
    map (\<lambda>t. (tk_kind t, tk_value t)) (lx_tokens lx') = map (\<lambda>t. (tk_kind t, tk_value t)) (lx_tokens lx @ ts)"
  using assms
proof (induction ts arbitrary: lx pre)
  case Nil
  then show ?case by (subst lex_loop.simps) (simp add: respace_def)
next
  case (Cons t ts)
  let ?v = "tk_value t"
  let ?lx1 = "lx\<lparr>lx_pos := length pre + length ?v, lx_tokens := lx_tokens lx @ [spaced_token (tk_kind t) ?v (length pre)]\<rparr>"
  let ?lx2 = "?lx1\<lparr>lx_pos := length pre + length ?v + 1\<rparr>"
  have src: "lx_source lx = pre @ ?v @ CHR '' '' # respace ts" using Cons.prems(1) by (simp add: respace_def)
  have step: "lex_step lx = Ok ?lx1" using relex_token [OF src Cons.prems(2)] Cons.prems(3) by (simp add: token_ok_def)
  have white: "lex_step ?lx1 = Ok ?lx2" using src by (simp add: lex_step_def Let_def nth_append is_whitespace_def)
  have "\<exists>lx'. lex_loop ?lx2 = Ok lx' \<and>
      map (\<lambda>t. (tk_kind t, tk_value t)) (lx_tokens lx') = map (\<lambda>t. (tk_kind t, tk_value t)) (lx_tokens ?lx2 @ ts)"
    by (rule Cons.IH [of _ "pre @ ?v @ '' ''"]) (use src Cons.prems(3) in auto)
  moreover have "lex_loop lx = lex_loop ?lx1" using src Cons.prems(2) step by (subst lex_loop.simps) simp
  moreover have "lex_loop ?lx1 = lex_loop ?lx2" using src white by (subst lex_loop.simps) simp
  ultimately show ?case by (auto simp: spaced_token_def)
qed

section \<open>Properties\<close>

definition eof_token :: "nat \<Rightarrow> token" where
  "eof_token p = \<lparr>tk_kind = Eof, tk_value = [], tk_span = Span p p\<rparr>"

lemma tokenize_Ok:
  assumes "tokenize s = Ok ts"
  obtains body where "ts = body @ [eof_token (length s)]" "laid_out s 0 body (length s)" "\<forall>t \<in> set body. token_ok t \<and> tk_kind t \<noteq> Eof"
proof -
  from assms obtain lx where lx: "lex_loop (lexer_new s) = Ok lx" "ts = lx_tokens lx @ [eof_token (length (lx_source lx))]"
    by (auto simp: tokenize_def obind_Ok_iff Let_def eof_token_def)
  with lex_loop_layout [of "lexer_new s" lx] that show thesis by (simp add: lexer_new_def substr_def)
qed

text \<open>
  On success the token list is a faithful cut of the source: the tokens before the final end-of-file token lie in the source in order, each with exactly the text at its span, a text that its kind allows, and only white space lies between them.
\<close>

theorem tokens_are_source_slices:
  assumes "tokenize source = Ok ts"
  shows "\<exists>body. ts = body @ [eof_token (length source)] \<and> laid_out source 0 body (length source) \<and>
    (\<forall>t \<in> set body. token_text (tk_kind t) (tk_value t) \<and> tk_kind t \<noteq> Eof)"
proof -
  from assms obtain body where "ts = body @ [eof_token (length source)]" "laid_out source 0 body (length source)"
    "\<forall>t \<in> set body. token_ok t \<and> tk_kind t \<noteq> Eof"
    by (rule tokenize_Ok)
  then show ?thesis unfolding token_ok_def by blast
qed

lemma tokenize_panic_free: "valid_utf8 source \<Longrightarrow> tokenize source \<noteq> Panic"
  using lex_loop_total [of "lexer_new source"] by (auto simp: tokenize_def obind_Panic_iff Let_def lexer_new_def)

text \<open>
  For every source that is well-formed UTF-8 the lexer terminates without panicking; if it fails, the error points at one byte inside the source.
\<close>

theorem tokenize_total:
  assumes "valid_utf8 source"
  shows "(\<exists>ts. tokenize source = Ok ts) \<or> (\<exists>e p. tokenize source = Err e \<and> le_span e = Span p (p + 1) \<and> p < length source)"
proof (cases "lex_loop (lexer_new source)")
  case (Ok lx)
  then show ?thesis by (simp add: tokenize_def Let_def)
next
  case (Err e)
  then show ?thesis using lex_loop_error [OF Err] by (auto simp: tokenize_def lexer_new_def)
next
  case Panic
  then show ?thesis using lex_loop_total [of "lexer_new source"] assms by (simp add: lexer_new_def)
qed

text \<open>
  Writing the texts of the tokens with one space after each and lexing again gives the same kinds and texts: the tokens do not depend on how the source is spaced.
\<close>

theorem relexing_roundtrip:
  assumes "tokenize source = Ok ts"
  shows "\<exists>ts'. tokenize (respace (butlast ts)) = Ok ts' \<and>
    map (\<lambda>t. (tk_kind t, tk_value t)) ts' = map (\<lambda>t. (tk_kind t, tk_value t)) ts"
proof -
  from assms obtain body where ts: "ts = body @ [eof_token (length source)]" and ok: "\<forall>t \<in> set body. token_ok t \<and> tk_kind t \<noteq> Eof"
    by (rule tokenize_Ok)
  have "\<exists>lx'. lex_loop (lexer_new (respace body)) = Ok lx' \<and>
      map (\<lambda>t. (tk_kind t, tk_value t)) (lx_tokens lx') = map (\<lambda>t. (tk_kind t, tk_value t)) (lx_tokens (lexer_new (respace body)) @ body)"
    by (rule lex_loop_respace [of _ "[]"]) (use ok in \<open>auto simp: lexer_new_def\<close>)
  then show ?thesis
    by (auto simp: tokenize_def Let_def ts eof_token_def lexer_new_def)
qed

definition sample_token_list :: "token list" where
  "sample_token_list =
     [\<lparr>tk_kind = Minus, tk_value = ''-'', tk_span = Span 0 1\<rparr>, \<lparr>tk_kind = At, tk_value = ''@'', tk_span = Span 1 2\<rparr>,
      \<lparr>tk_kind = Ident, tk_value = ''a'', tk_span = Span 2 3\<rparr>, eof_token 3]"

lemma sample_tokens: "tokenize ''-@a'' = Ok sample_token_list"
  by code_simp

theorem tokens_are_source_slices_witness:
  "\<exists>body. sample_token_list = body @ [eof_token (length ''-@a'')] \<and> laid_out ''-@a'' 0 body (length ''-@a'')"
  using tokens_are_source_slices [OF sample_tokens] by blast

theorem tokenize_total_witness:
  "(\<exists>ts. tokenize ''-!'' = Ok ts) \<or> (\<exists>e p. tokenize ''-!'' = Err e \<and> le_span e = Span p (p + 1) \<and> p < length ''-!'')"
  by (rule tokenize_total) code_simp

theorem relexing_roundtrip_witness:
  "\<exists>ts'. tokenize ''- @ a '' = Ok ts' \<and> map tk_value ts' = [''-'', ''@'', ''a'', []]"
proof -
  have "respace (butlast sample_token_list) = ''- @ a ''" by code_simp
  with relexing_roundtrip [OF sample_tokens] obtain ts' where "tokenize ''- @ a '' = Ok ts'"
    "map (\<lambda>t. (tk_kind t, tk_value t)) ts' = map (\<lambda>t. (tk_kind t, tk_value t)) sample_token_list" by auto
  moreover from arg_cong [OF this(2), of "map snd"] have "map tk_value ts' = map tk_value sample_token_list"
    by (simp add: comp_def)
  moreover have "map tk_value sample_token_list = [''-'', ''@'', ''a'', []]" by code_simp
  ultimately show ?thesis by metis
qed

end
