(* ===== verification/Metricql_Parser.thy ===== *)
theory Metricql_Parser
  imports Metricql_Lexer
begin

text \<open>
  The recursive-descent parser of MetricQL (\<^verbatim>\<open>validators/metricql/parser.rs\<close>): one function per
  production, on the token vector and position of \<^verbatim>\<open>Parser\<close>. A production returns its tree and the new
  position, or the first error; reading past the token vector is a panic.

  The expression productions call each other, and each loop of the source is a function of its own;
  that a production which succeeds has consumed a token makes the recursion end. A stack overflow on
  deeply nested input is not modelled.
\<close>

section \<open>The token stream\<close>

record parser =
  ps_tokens :: "token list"
  ps_pos :: nat

type_synonym 'a parse_result = "(parse_error, 'a \<times> parser) outcome"

definition parser_new :: "token list \<Rightarrow> parser" where
  "parser_new tokens = \<lparr>ps_tokens = tokens, ps_pos = 0\<rparr>"

definition peek :: "parser \<Rightarrow> (parse_error, token) outcome" where
  "peek ps =
     (if ps_pos ps < length (ps_tokens ps) then Ok (ps_tokens ps ! ps_pos ps)
      else if ps_tokens ps = [] then Panic else Ok (last (ps_tokens ps)))"

definition peek_at :: "nat \<Rightarrow> parser \<Rightarrow> (parse_error, token) outcome" where
  "peek_at offset ps =
     (let idx = ps_pos ps + offset
      in if idx < length (ps_tokens ps) then Ok (ps_tokens ps ! idx)
         else if ps_tokens ps = [] then Panic else Ok (last (ps_tokens ps)))"

definition advance :: "parser \<Rightarrow> token parse_result" where
  "advance ps =
     (if ps_pos ps < length (ps_tokens ps) then Ok (ps_tokens ps ! ps_pos ps, ps\<lparr>ps_pos := ps_pos ps + 1\<rparr>) else Panic)"

definition parse_err_at :: "span \<Rightarrow> message \<Rightarrow> parse_error" where
  "parse_err_at sp msg = \<lparr>pe_span = sp, pe_message = msg\<rparr>"

definition quoted :: "string \<Rightarrow> string" where
  "quoted s = CHR 0x27 # s @ [CHR 0x27]"

definition expect :: "token_kind \<Rightarrow> string \<Rightarrow> parser \<Rightarrow> token parse_result" where
  "expect kind description ps =
     obind (peek ps) (\<lambda>t.
       if tk_kind t \<noteq> kind then Err (parse_err_at (tk_span t) (Expected description (tk_kind t))) else advance ps)"

definition expect_keyword :: "string \<Rightarrow> parser \<Rightarrow> token parse_result" where
  "expect_keyword kw ps =
     obind (peek ps) (\<lambda>t.
       if tk_kind t \<noteq> Keyword \<or> tk_value t \<noteq> kw
       then Err (parse_err_at (tk_span t) (ExpectedKeyword kw (tk_kind t) (tk_value t))) else advance ps)"

definition peek_keyword :: "string \<Rightarrow> parser \<Rightarrow> (parse_error, bool) outcome" where
  "peek_keyword kw ps = obind (peek ps) (\<lambda>t. Ok (tk_kind t = Keyword \<and> tk_value t = kw))"

definition span_from_to :: "span \<Rightarrow> span \<Rightarrow> span" where
  "span_from_to a b = Span (sp_start a) (sp_end b)"

fun node_span :: "node \<Rightarrow> span" where
  "node_span (Aggregation a) = ag_span a"
| "node_span (Composite _ _ _ sp) = sp"
| "node_span (Negate _ sp) = sp"
| "node_span (Ratio r) = rt_span r"
| "node_span (MetricRef m) = mr_span m"
| "node_span (Literal _ sp) = sp"

fun restamp_span :: "node \<Rightarrow> span \<Rightarrow> node" where
  "restamp_span (Composite op l r _) sp = Composite op l r sp"
| "restamp_span (Negate n _) sp = Negate n sp"
| "restamp_span (Literal v _) sp = Literal v sp"
| "restamp_span (MetricRef m) sp = MetricRef (m\<lparr>mr_span := sp\<rparr>)"
| "restamp_span (Ratio r) sp = Ratio (r\<lparr>rt_span := sp\<rparr>)"
| "restamp_span (Aggregation a) sp = Aggregation a"

definition parse_number :: "token \<Rightarrow> message \<Rightarrow> (parse_error, f64) outcome" where
  "parse_number t msg = ok_or (parse_err_at (tk_span t) msg) (parse_f64 (tk_value t))"

section \<open>Sources, fields, operators and windows\<close>

definition parse_source :: "parser \<Rightarrow> msource parse_result" where
  "parse_source ps =
     obind (expect Ident ''event identifier'' ps) (\<lambda>(ev, ps).
     obind (peek ps) (\<lambda>t.
       if tk_kind t = Dot
       then obind (advance ps) (\<lambda>(_, ps).
            obind (expect Ident (''field identifier after '' @ quoted ''.'') ps) (\<lambda>(f, ps).
              Ok (\<lparr>sr_event_type = tk_value ev, sr_field = tk_value f, sr_span = span_from_to (tk_span ev) (tk_span f)\<rparr>, ps)))
       else Ok (\<lparr>sr_event_type = tk_value ev, sr_field = [], sr_span = span_from_to (tk_span ev) (tk_span ev)\<rparr>, ps)))"

definition parse_field_ref :: "parser \<Rightarrow> (field_ref \<times> span \<times> span) parse_result" where
  "parse_field_ref ps =
     obind (expect Ident ''field identifier'' ps) (\<lambda>(t1, ps).
     obind (peek ps) (\<lambda>t.
       if tk_kind t = Dot
       then obind (advance ps) (\<lambda>(_, ps).
            obind (expect Ident (''field identifier after '' @ quoted ''.'') ps) (\<lambda>(t2, ps).
              Ok ((\<lparr>fr_namespace = tk_value t1, fr_name = tk_value t2\<rparr>, tk_span t1, tk_span t2), ps)))
       else Ok ((\<lparr>fr_namespace = [], fr_name = tk_value t1\<rparr>, tk_span t1, tk_span t1), ps)))"

definition operator_of :: "token \<Rightarrow> cmp_op option" where
  "operator_of t =
     (case tk_kind t of
        Eq \<Rightarrow> Some OpEq | Neq \<Rightarrow> Some OpNeq | Lt \<Rightarrow> Some OpLt | Lte \<Rightarrow> Some OpLte | Gt \<Rightarrow> Some OpGt | Gte \<Rightarrow> Some OpGte
      | Keyword \<Rightarrow> (if tk_value t = ''in'' then Some OpIn else None)
      | _ \<Rightarrow> None)"

definition parse_operator :: "parser \<Rightarrow> cmp_op parse_result" where
  "parse_operator ps =
     obind (peek ps) (\<lambda>t.
       case operator_of t of
         Some op \<Rightarrow> obind (advance ps) (\<lambda>(_, ps). Ok (op, ps))
       | None \<Rightarrow> Err (parse_err_at (tk_span t) (ExpectedOperator (tk_kind t) (tk_value t))))"

definition strip_quotes :: "string \<Rightarrow> string" where
  "strip_quotes v = (if 2 \<le> length v \<and> hd v = CHR 0x27 \<and> last v = CHR 0x27 then butlast (tl v) else v)"

definition parse_window :: "parser \<Rightarrow> window parse_result" where
  "parse_window ps =
     obind (expect_keyword ''within'' ps) (\<lambda>(start_tok, ps).
     obind (expect Number (''NUMBER after '' @ quoted ''within'') ps) (\<lambda>(n_tok, ps).
     obind (parse_number n_tok (InvalidWindow (tk_value n_tok))) (\<lambda>n_float.
       if \<not> f64_eq n_float (f64_trunc n_float) \<or> f64_le n_float (Fin 0)
       then Err (parse_err_at (tk_span n_tok) (WindowNotPositive n_float))
       else
         let n = f64_to_u32 n_float
         in obind (peek ps) (\<lambda>unit_tok.
              if tk_kind unit_tok \<noteq> Keyword \<or> tk_value unit_tok \<noteq> ''hours'' \<and> tk_value unit_tok \<noteq> ''days''
              then Err (parse_err_at (tk_span unit_tok) (ExpectedUnit (tk_kind unit_tok) (tk_value unit_tok)))
              else obind (advance ps) (\<lambda>(_, ps).
                   let u = (if tk_value unit_tok = ''hours'' then Hours else Days)
                   in obind (expect_keyword ''of'' ps) (\<lambda>(_, ps).
                      obind (expect_keyword ''exposure'' ps) (\<lambda>(end_tok, ps).
                        Ok (\<lparr>wd_n = n, wd_unit = u, wd_span = span_from_to (tk_span start_tok) (tk_span end_tok)\<rparr>, ps))))))))"

section \<open>References and ratios\<close>

definition parse_metric_ref :: "parser \<Rightarrow> metric_ref parse_result" where
  "parse_metric_ref ps =
     obind (expect At (quoted ''@'') ps) (\<lambda>(at_tok, ps).
     obind (expect Ident (''metric identifier after '' @ quoted ''@'') ps) (\<lambda>(id_tok, ps).
       Ok (\<lparr>mr_id = tk_value id_tok, mr_span = span_from_to (tk_span at_tok) (tk_span id_tok)\<rparr>, ps)))"

definition parse_ratio :: "parser \<Rightarrow> ratio parse_result" where
  "parse_ratio ps =
     obind (expect_keyword ''ratio'' ps) (\<lambda>(start_tok, ps).
     obind (expect LParen (quoted ''('' @ '' after '' @ quoted ''ratio'') ps) (\<lambda>(_, ps).
     obind (parse_metric_ref ps) (\<lambda>(num, ps).
     obind (expect Comma (quoted '','' @ '' between ratio arguments'') ps) (\<lambda>(_, ps).
     obind (parse_metric_ref ps) (\<lambda>(den, ps).
     obind (expect RParen (quoted '')'' @ '' to close ratio'') ps) (\<lambda>(end_tok, ps).
       Ok (\<lparr>rt_numerator = num, rt_denominator = den, rt_span = span_from_to (tk_span start_tok) (tk_span end_tok)\<rparr>, ps)))))))"


section \<open>Progress\<close>

text \<open>A production that succeeds stays in the same token vector and moves the position forward inside it.\<close>

definition progress :: "parser \<Rightarrow> parser \<Rightarrow> bool" where
  "progress ps ps' \<longleftrightarrow> ps_tokens ps' = ps_tokens ps \<and> ps_pos ps < ps_pos ps' \<and> ps_pos ps' \<le> length (ps_tokens ps)"

lemma progress_trans: "progress a b \<Longrightarrow> progress b c \<Longrightarrow> progress a c"
  by (simp add: progress_def)

lemma advance_progress: "advance ps = Ok (t, ps') \<Longrightarrow> progress ps ps'"
  by (auto simp: advance_def progress_def split: if_splits)

section \<open>Values\<close>

function parse_value :: "parser \<Rightarrow> mvalue parse_result"
  and value_items :: "mvalue list \<Rightarrow> parser \<Rightarrow> mvalue list parse_result"
where
  "parse_value ps =
     obind (peek ps) (\<lambda>t.
       if tk_kind t = String
       then obind (advance ps) (\<lambda>(_, ps1). Ok (MValue (VString (strip_quotes (tk_value t))) (tk_span t), ps1))
       else if tk_kind t = Number
       then obind (advance ps) (\<lambda>(_, ps1).
            obind (parse_number t (InvalidNumber (tk_value t))) (\<lambda>n. Ok (MValue (VNumber n) (tk_span t), ps1)))
       else if tk_kind t = LBracket
       then obind (advance ps) (\<lambda>(start_tok, ps1).
            obind (peek ps1) (\<lambda>first_t.
              if tk_kind first_t = RBracket then Err (parse_err_at (tk_span first_t) EmptyInList)
              else obind (value_items [] ps1) (\<lambda>(items, ps2).
                   obind (expect RBracket (quoted '']'' @ '' to close in-list'') ps2) (\<lambda>(end_tok, ps3).
                     Ok (MValue (VList items) (span_from_to (tk_span start_tok) (tk_span end_tok)), ps3)))))
       else Err (parse_err_at (tk_span t) (ExpectedValue (tk_kind t))))"
| "value_items items ps =
     obind (parse_value ps) (\<lambda>(v, ps1).
     obind (peek ps1) (\<lambda>t.
       if tk_kind t = Comma then obind (advance ps1) (\<lambda>(_, ps2). value_items (items @ [v]) ps2)
       else Ok (items @ [v], ps1)))"
  by pat_completeness auto

lemma expect_progress: "expect k d ps = Ok (t, ps') \<Longrightarrow> progress ps ps'"
  by (auto simp: expect_def obind_Ok_iff advance_progress split: if_splits)

lemma value_progress_dom:
  shows "parse_value_value_items_dom (Inl ps) \<Longrightarrow> \<forall>v ps'. parse_value ps = Ok (v, ps') \<longrightarrow> progress ps ps'"
    and "parse_value_value_items_dom (Inr (items, ps)) \<Longrightarrow> \<forall>vs ps'. value_items items ps = Ok (vs, ps') \<longrightarrow> progress ps ps'"
proof (induction ps and items ps rule: parse_value_value_items.pinduct)
  case (1 ps)
  show ?case
  proof (intro allI impI)
    fix v ps' assume "parse_value ps = Ok (v, ps')"
    note run = this [unfolded parse_value.psimps [OF "1.hyps"]]
    from run obtain t where t: "peek ps = Ok t" by (auto simp: obind_Ok_iff)
    show "progress ps ps'"
    proof (cases "tk_kind t = LBracket")
      case True
      with run t obtain st ps1 f items ps2 e where
        "advance ps = Ok (st, ps1)" "peek ps1 = Ok f" "tk_kind f \<noteq> RBracket" "value_items [] ps1 = Ok (items, ps2)"
        "expect RBracket (quoted '']'' @ '' to close in-list'') ps2 = Ok (e, ps')"
        by (auto simp: obind_Ok_iff split: if_splits)
      note steps = this
      have "progress ps1 ps2" using "1.IH" [OF t _ _ True steps(1) refl steps(2,3)] True steps(4) by simp
      then show ?thesis using advance_progress [OF steps(1)] expect_progress [OF steps(5)] by (blast intro: progress_trans)
    next
      case False
      with run t show ?thesis by (auto simp: obind_Ok_iff split: if_splits dest: advance_progress)
    qed
  qed
next
  case (2 items ps)
  show ?case
    using "2.IH"
    by (auto simp: value_items.psimps [OF "2.hyps"] obind_Ok_iff split: if_splits)
      (metis advance_progress progress_trans)
qed

lemma value_dom: "All parse_value_value_items_dom"
proof (rule "parse_value_value_items.termination"
    [where R = "measure (\<lambda>x. case x of Inl ps \<Rightarrow> 2 * (length (ps_tokens ps) - ps_pos ps)
       | Inr (_, ps) \<Rightarrow> 2 * (length (ps_tokens ps) - ps_pos ps) + 1)"], goal_cases)
  case 2
  then show ?case by (auto simp: progress_def dest!: advance_progress)
next
  case 4
  then show ?case by (auto simp: progress_def dest!: advance_progress value_progress_dom(1) [rule_format])
qed simp_all

termination parse_value
  by (rule value_dom)

declare parse_value.simps [simp del] value_items.simps [simp del]

lemma parse_value_progress: "parse_value ps = Ok (v, ps') \<Longrightarrow> progress ps ps'"
  using value_progress_dom(1) [of ps] value_dom by blast

lemma value_items_progress: "value_items items ps = Ok (vs, ps') \<Longrightarrow> progress ps ps'"
  using value_progress_dom(2) [of items ps] value_dom by blast

section \<open>Filters and aggregations\<close>

definition parse_predicate :: "parser \<Rightarrow> mpredicate parse_result" where
  "parse_predicate ps =
     obind (parse_field_ref ps) (\<lambda>((field, fr_start, _), ps).
     obind (parse_operator ps) (\<lambda>(op, ps).
     obind (parse_value ps) (\<lambda>(v, ps).
       Ok (\<lparr>pd_field = field, pd_operator = op, pd_value = v, pd_span = span_from_to fr_start (value_span v)\<rparr>, ps))))"

lemma expect_keyword_progress: "expect_keyword kw ps = Ok (t, ps') \<Longrightarrow> progress ps ps'"
  by (auto simp: expect_keyword_def obind_Ok_iff advance_progress split: if_splits)

lemma parse_field_ref_progress: "parse_field_ref ps = Ok (r, ps') \<Longrightarrow> progress ps ps'"
  by (auto simp: parse_field_ref_def obind_Ok_iff split: if_splits dest!: advance_progress expect_progress) (meson progress_trans)

lemma parse_operator_progress: "parse_operator ps = Ok (r, ps') \<Longrightarrow> progress ps ps'"
  by (auto simp: parse_operator_def obind_Ok_iff split: option.splits dest!: advance_progress)

lemma parse_predicate_progress: "parse_predicate ps = Ok (r, ps') \<Longrightarrow> progress ps ps'"
  by (auto simp: parse_predicate_def obind_Ok_iff dest!: parse_field_ref_progress parse_operator_progress parse_value_progress)
    (meson progress_trans)

text \<open>The loop of \<^verbatim>\<open>parse_filter\<close>: further predicates, each introduced by the keyword \<^verbatim>\<open>and\<close>.\<close>

function filter_loop :: "mpredicate list \<Rightarrow> span \<Rightarrow> parser \<Rightarrow> (mpredicate list \<times> span) parse_result" where
  "filter_loop predicates end_span ps =
     obind (peek_keyword ''and'' ps) (\<lambda>more.
       if more
       then obind (advance ps) (\<lambda>(_, ps1).
            obind (parse_predicate ps1) (\<lambda>(p, ps2). filter_loop (predicates @ [p]) (pd_span p) ps2))
       else Ok ((predicates, end_span), ps))"
  by pat_completeness auto
termination
  by (relation "measure (\<lambda>(_, _, ps). length (ps_tokens ps) - ps_pos ps)")
    (auto simp: progress_def dest!: advance_progress parse_predicate_progress)

declare filter_loop.simps [simp del]

definition parse_filter :: "parser \<Rightarrow> mfilter parse_result" where
  "parse_filter ps =
     obind (expect_keyword ''where'' ps) (\<lambda>(start_tok, ps).
     obind (parse_predicate ps) (\<lambda>(p, ps).
     obind (filter_loop [p] (pd_span p) ps) (\<lambda>((predicates, end_span), ps).
       Ok (\<lparr>fl_predicates = predicates, fl_span = span_from_to (tk_span start_tok) end_span\<rparr>, ps))))"

definition parse_percentile :: "parser \<Rightarrow> f64 parse_result" where
  "parse_percentile ps =
     obind (expect LParen (quoted ''('' @ '' after '' @ quoted ''percentile'') ps) (\<lambda>(_, ps).
     obind (peek ps) (\<lambda>num_tok.
       if tk_kind num_tok \<noteq> Number then Err (parse_err_at (tk_span num_tok) (ExpectedPercentile (tk_kind num_tok)))
       else obind (parse_number num_tok (InvalidPercentile (tk_value num_tok))) (\<lambda>pct.
            if f64_le pct (Fin 0) \<or> f64_le (Fin 100) pct
            then Err (parse_err_at (tk_span num_tok) (PercentileRange pct))
            else obind (advance ps) (\<lambda>(_, ps).
                 obind (expect RParen (quoted '')'' @ '' after percentile value'') ps) (\<lambda>(_, ps). Ok (pct, ps))))))"

definition simple_agg_func :: "string \<Rightarrow> agg_func option" where
  "simple_agg_func v =
     (if v = ''mean'' then Some Mean else if v = ''sum'' then Some Sum else if v = ''count'' then Some Count
      else if v = ''count_distinct'' then Some CountDistinct else if v = ''proportion'' then Some Proportion else None)"

definition parse_agg_func :: "parser \<Rightarrow> (agg_func \<times> f64) parse_result" where
  "parse_agg_func ps =
     obind (peek ps) (\<lambda>start_tok.
       case simple_agg_func (tk_value start_tok) of
         Some func \<Rightarrow> obind (advance ps) (\<lambda>(_, ps). Ok ((func, Fin 0), ps))
       | None \<Rightarrow>
           if tk_value start_tok = ''percentile''
           then obind (advance ps) (\<lambda>(_, ps). obind (parse_percentile ps) (\<lambda>(pct, ps). Ok ((Percentile, pct), ps)))
           else Err (parse_err_at (tk_span start_tok) (UnknownAggregation (tk_value start_tok))))"

definition parse_optional :: "string \<Rightarrow> (parser \<Rightarrow> 'a parse_result) \<Rightarrow> parser \<Rightarrow> 'a option parse_result" where
  "parse_optional kw p ps =
     obind (peek_keyword kw ps) (\<lambda>present.
       if present then obind (p ps) (\<lambda>(x, ps). Ok (Some x, ps)) else Ok (None, ps))"

definition parse_aggregation :: "parser \<Rightarrow> aggregation parse_result" where
  "parse_aggregation ps =
     obind (peek ps) (\<lambda>start_tok.
       if tk_kind start_tok \<noteq> Keyword then Err (parse_err_at (tk_span start_tok) (ExpectedAggregation (tk_kind start_tok)))
       else
         obind (parse_agg_func ps) (\<lambda>((func, percentile), ps).
         obind (expect LParen (quoted ''('' @ '' after aggregation function'') ps) (\<lambda>(_, ps).
         obind (parse_source ps) (\<lambda>(source, ps).
         obind (expect RParen (quoted '')'' @ '' after aggregation source'') ps) (\<lambda>(close_tok, ps).
         obind (parse_optional ''where'' parse_filter ps) (\<lambda>(filter_opt, ps).
         obind (parse_optional ''within'' parse_window ps) (\<lambda>(window_opt, ps).
           let end_span =
             (case window_opt of Some w \<Rightarrow> wd_span w
              | None \<Rightarrow> (case filter_opt of Some f \<Rightarrow> fl_span f | None \<Rightarrow> tk_span close_tok))
           in Ok (\<lparr>ag_func = func, ag_percentile = percentile, ag_source = source, ag_filter = filter_opt,
                   ag_window = window_opt, ag_span = span_from_to (tk_span start_tok) end_span\<rparr>, ps))))))))"

section \<open>Expressions\<close>

lemma parse_metric_ref_progress: "parse_metric_ref ps = Ok (r, ps') \<Longrightarrow> progress ps ps'"
  by (auto simp: parse_metric_ref_def obind_Ok_iff dest!: expect_progress) (meson progress_trans)

lemma parse_ratio_progress: "parse_ratio ps = Ok (r, ps') \<Longrightarrow> progress ps ps'"
  by (auto simp: parse_ratio_def obind_Ok_iff dest!: expect_progress expect_keyword_progress parse_metric_ref_progress)
    (meson progress_trans)

function parse_composite :: "parser \<Rightarrow> node parse_result"
  and composite_loop :: "node \<Rightarrow> parser \<Rightarrow> node parse_result"
  and parse_term :: "parser \<Rightarrow> node parse_result"
  and term_loop :: "node \<Rightarrow> parser \<Rightarrow> node parse_result"
  and parse_unary :: "parser \<Rightarrow> node parse_result"
  and parse_factor :: "parser \<Rightarrow> node parse_result"
where
  "parse_composite ps = obind (parse_term ps) (\<lambda>(left, ps1). composite_loop left ps1)"
| "composite_loop left ps =
     obind (peek ps) (\<lambda>t.
       if tk_kind t \<noteq> Plus \<and> tk_kind t \<noteq> Minus then Ok (left, ps)
       else obind (advance ps) (\<lambda>(_, ps1).
            obind (parse_term ps1) (\<lambda>(right, ps2).
              composite_loop
                (Composite (if tk_kind t = Plus then Add else Sub) left right (span_from_to (node_span left) (node_span right))) ps2)))"
| "parse_term ps = obind (parse_unary ps) (\<lambda>(left, ps1). term_loop left ps1)"
| "term_loop left ps =
     obind (peek ps) (\<lambda>t.
       if tk_kind t \<noteq> Star \<and> tk_kind t \<noteq> Slash then Ok (left, ps)
       else obind (advance ps) (\<lambda>(_, ps1).
            obind (parse_unary ps1) (\<lambda>(right, ps2).
              term_loop
                (Composite (if tk_kind t = Star then Mul else Div) left right (span_from_to (node_span left) (node_span right))) ps2)))"
| "parse_unary ps =
     obind (peek ps) (\<lambda>t.
       if tk_kind t = Minus
       then obind (advance ps) (\<lambda>(minus_tok, ps1).
            obind (parse_factor ps1) (\<lambda>(operand, ps2).
              Ok (Negate operand (span_from_to (tk_span minus_tok) (node_span operand)), ps2)))
       else parse_factor ps)"
| "parse_factor ps =
     obind (peek ps) (\<lambda>t.
       if tk_kind t = At then obind (parse_metric_ref ps) (\<lambda>(mr, ps1). Ok (MetricRef mr, ps1))
       else if tk_kind t = Number
       then obind (advance ps) (\<lambda>(_, ps1).
            obind (parse_number t (InvalidNumber (tk_value t))) (\<lambda>v. Ok (Literal v (tk_span t), ps1)))
       else if tk_kind t = LParen
       then obind (advance ps) (\<lambda>(start_tok, ps1).
            obind (parse_composite ps1) (\<lambda>(inner, ps2).
            obind (expect RParen (quoted '')'' @ '' to close parenthesized expression'') ps2) (\<lambda>(end_tok, ps3).
              Ok (restamp_span inner (span_from_to (tk_span start_tok) (tk_span end_tok)), ps3))))
       else if tk_kind t = Keyword \<and> tk_value t = ''ratio''
       then obind (parse_ratio ps) (\<lambda>(r, ps1). Ok (Ratio r, ps1))
       else if tk_kind t = Keyword then Err (parse_err_at (tk_span t) (ExpectedFactorKeyword (tk_value t)))
       else Err (parse_err_at (tk_span t) (ExpectedFactor (tk_kind t))))"
  by pat_completeness auto

text \<open>A loop may return at once; then it has not moved.\<close>

definition no_retreat :: "parser \<Rightarrow> parser \<Rightarrow> bool" where
  "no_retreat ps ps' \<longleftrightarrow> ps' = ps \<or> progress ps ps'"

lemma progress_no_retreat: "progress a b \<Longrightarrow> no_retreat b c \<Longrightarrow> progress a c"
  by (auto simp: no_retreat_def intro: progress_trans)

lemma expression_progress_dom:
  shows "parse_composite_composite_loop_parse_term_term_loop_parse_unary_parse_factor_dom (Inl (Inl ps)) \<Longrightarrow> \<forall>n ps'. parse_composite ps = Ok (n, ps') \<longrightarrow> progress ps ps'"
    and "parse_composite_composite_loop_parse_term_term_loop_parse_unary_parse_factor_dom (Inl (Inr (Inl (left, ps)))) \<Longrightarrow> \<forall>n ps'. composite_loop left ps = Ok (n, ps') \<longrightarrow> no_retreat ps ps'"
    and "parse_composite_composite_loop_parse_term_term_loop_parse_unary_parse_factor_dom (Inl (Inr (Inr ps))) \<Longrightarrow> \<forall>n ps'. parse_term ps = Ok (n, ps') \<longrightarrow> progress ps ps'"
    and "parse_composite_composite_loop_parse_term_term_loop_parse_unary_parse_factor_dom (Inr (Inl (left, ps))) \<Longrightarrow> \<forall>n ps'. term_loop left ps = Ok (n, ps') \<longrightarrow> no_retreat ps ps'"
    and "parse_composite_composite_loop_parse_term_term_loop_parse_unary_parse_factor_dom (Inr (Inr (Inl ps))) \<Longrightarrow> \<forall>n ps'. parse_unary ps = Ok (n, ps') \<longrightarrow> progress ps ps'"
    and "parse_composite_composite_loop_parse_term_term_loop_parse_unary_parse_factor_dom (Inr (Inr (Inr ps))) \<Longrightarrow> \<forall>n ps'. parse_factor ps = Ok (n, ps') \<longrightarrow> progress ps ps'"
proof (induction ps and left ps and ps and left ps and ps and ps rule: parse_composite_composite_loop_parse_term_term_loop_parse_unary_parse_factor.pinduct)
  case (1 ps)
  show ?case
    using "1.IH" by (auto simp: parse_composite.psimps [OF "1.hyps"] obind_Ok_iff intro: progress_no_retreat)
next
  case (2 left ps)
  show ?case
  proof (intro allI impI)
    fix n ps' assume "composite_loop left ps = Ok (n, ps')"
    note run = this [unfolded composite_loop.psimps [OF "2.hyps"]]
    from run obtain t where t: "peek ps = Ok t" by (auto simp: obind_Ok_iff)
    show "no_retreat ps ps'"
    proof (cases "tk_kind t \<noteq> Plus \<and> tk_kind t \<noteq> Minus")
      case True
      with run t show ?thesis by (auto simp: no_retreat_def)
    next
      case False
      with run t obtain x ps1 r ps2 where steps: "advance ps = Ok (x, ps1)" "parse_term ps1 = Ok (r, ps2)"
        "composite_loop (Composite (if tk_kind t = Plus then Add else Sub) left r (span_from_to (node_span left) (node_span r))) ps2 = Ok (n, ps')"
        by (auto simp: obind_Ok_iff split: if_splits)
      have "progress ps1 ps2" "no_retreat ps2 ps'"
        using "2.IH"(1) [OF t False steps(1) refl] "2.IH"(2) [OF t False steps(1) refl steps(2) refl] steps(2,3) by auto
      then show ?thesis
        using advance_progress [OF steps(1)] progress_trans progress_no_retreat unfolding no_retreat_def by metis
    qed
  qed
next
  case (3 ps)
  show ?case
    using "3.IH" by (auto simp: parse_term.psimps [OF "3.hyps"] obind_Ok_iff intro: progress_no_retreat)
next
  case (4 left ps)
  show ?case
  proof (intro allI impI)
    fix n ps' assume "term_loop left ps = Ok (n, ps')"
    note run = this [unfolded term_loop.psimps [OF "4.hyps"]]
    from run obtain t where t: "peek ps = Ok t" by (auto simp: obind_Ok_iff)
    show "no_retreat ps ps'"
    proof (cases "tk_kind t \<noteq> Star \<and> tk_kind t \<noteq> Slash")
      case True
      with run t show ?thesis by (auto simp: no_retreat_def)
    next
      case False
      with run t obtain x ps1 r ps2 where steps: "advance ps = Ok (x, ps1)" "parse_unary ps1 = Ok (r, ps2)"
        "term_loop (Composite (if tk_kind t = Star then Mul else Div) left r (span_from_to (node_span left) (node_span r))) ps2 = Ok (n, ps')"
        by (auto simp: obind_Ok_iff split: if_splits)
      have "progress ps1 ps2" "no_retreat ps2 ps'"
        using "4.IH"(1) [OF t False steps(1) refl] "4.IH"(2) [OF t False steps(1) refl steps(2) refl] steps(2,3) by auto
      then show ?thesis
        using advance_progress [OF steps(1)] progress_trans progress_no_retreat unfolding no_retreat_def by metis
    qed
  qed
next
  case (5 ps)
  show ?case
  proof (intro allI impI)
    fix n ps' assume "parse_unary ps = Ok (n, ps')"
    note run = this [unfolded parse_unary.psimps [OF "5.hyps"]]
    from run obtain t where t: "peek ps = Ok t" by (auto simp: obind_Ok_iff)
    show "progress ps ps'"
    proof (cases "tk_kind t = Minus")
      case True
      with run t obtain x ps1 r where steps: "advance ps = Ok (x, ps1)" "parse_factor ps1 = Ok (r, ps')"
        by (auto simp: obind_Ok_iff)
      then show ?thesis
        using "5.IH"(1) [OF t True steps(1) refl] advance_progress progress_trans by blast
    next
      case False
      with run t show ?thesis using "5.IH"(2) [OF t False] by simp
    qed
  qed
next
  case (6 ps)
  show ?case
  proof (intro allI impI)
    fix n ps' assume "parse_factor ps = Ok (n, ps')"
    note run = this [unfolded parse_factor.psimps [OF "6.hyps"]]
    from run obtain t where t: "peek ps = Ok t" by (auto simp: obind_Ok_iff)
    show "progress ps ps'"
    proof (cases "tk_kind t = LParen")
      case True
      with run t obtain x ps1 r ps2 e where steps: "advance ps = Ok (x, ps1)" "parse_composite ps1 = Ok (r, ps2)"
        "expect RParen (quoted '')'' @ '' to close parenthesized expression'') ps2 = Ok (e, ps')"
        by (auto simp: obind_Ok_iff)
      have "progress ps1 ps2" using "6.IH" [OF t _ _ True steps(1) refl] True steps(2) by simp
      then show ?thesis
        using advance_progress [OF steps(1)] expect_progress [OF steps(3)] by (blast intro: progress_trans)
    next
      case False
      with run t show ?thesis
        by (auto simp: obind_Ok_iff split: if_splits dest: advance_progress parse_metric_ref_progress parse_ratio_progress)
    qed
  qed
qed

definition expression_measure ::
  "(parser + (node \<times> parser + parser)) + (node \<times> parser + (parser + parser)) \<Rightarrow> nat" where
  "expression_measure x =
     (let rest = (\<lambda>ps. 5 * (length (ps_tokens ps) - ps_pos ps))
      in case x of
           Inl (Inl ps) \<Rightarrow> rest ps + 4 | Inl (Inr (Inl (_, ps))) \<Rightarrow> rest ps | Inl (Inr (Inr ps)) \<Rightarrow> rest ps + 3
         | Inr (Inl (_, ps)) \<Rightarrow> rest ps | Inr (Inr (Inl ps)) \<Rightarrow> rest ps + 2 | Inr (Inr (Inr ps)) \<Rightarrow> rest ps + 1)"

lemma expression_dom: "All parse_composite_composite_loop_parse_term_term_loop_parse_unary_parse_factor_dom"
  by (rule "parse_composite_composite_loop_parse_term_term_loop_parse_unary_parse_factor.termination" [where R = "measure expression_measure"])
    (auto simp: expression_measure_def progress_def Let_def
       dest!: advance_progress expression_progress_dom(1) [rule_format] expression_progress_dom(3) [rule_format]
         expression_progress_dom(5) [rule_format])

termination parse_composite
  by (rule expression_dom)

declare parse_composite.simps [simp del] composite_loop.simps [simp del] parse_term.simps [simp del]
  term_loop.simps [simp del] parse_unary.simps [simp del] parse_factor.simps [simp del]

section \<open>Entry points\<close>

definition parse_expression :: "parser \<Rightarrow> node parse_result" where
  "parse_expression ps =
     obind (peek ps) (\<lambda>t.
       if tk_kind t = Keyword
       then
         if tk_value t \<in> {''mean'', ''sum'', ''count'', ''count_distinct'', ''proportion'', ''percentile''}
         then obind (parse_aggregation ps) (\<lambda>(a, ps). Ok (Aggregation a, ps))
         else if tk_value t = ''ratio'' then parse_composite ps
         else Err (parse_err_at (tk_span t) (ExpectedExpressionKeyword (tk_value t)))
       else if tk_kind t \<in> {At, LParen, Number, Minus} then parse_composite ps
       else Err (parse_err_at (tk_span t) (ExpectedExpression (tk_kind t))))"

definition parse_tokens :: "token list \<Rightarrow> (parse_error, node) outcome" where
  "parse_tokens tokens =
     obind (parse_expression (parser_new tokens)) (\<lambda>(n, ps).
     obind (peek ps) (\<lambda>t.
       if tk_kind t \<noteq> Eof then Err (parse_err_at (tk_span t) (TrailingTokens (tk_kind t))) else Ok n))"

fun from_lex_error :: "(lex_error, 'a) outcome \<Rightarrow> (parse_error, 'a) outcome" where
  "from_lex_error (Ok x) = Ok x"
| "from_lex_error (Err e) = Err \<lparr>pe_span = le_span e, pe_message = le_message e\<rparr>"
| "from_lex_error Panic = Panic"

definition parse :: "string \<Rightarrow> (parse_error, node) outcome" where
  "parse source =
     obind (from_lex_error (tokenize source)) (\<lambda>tokens.
     obind (parse_expression (parser_new tokens)) (\<lambda>(n, ps).
     obind (peek ps) (\<lambda>t.
       if tk_kind t \<noteq> Eof then Err (parse_err_at (tk_span t) (TrailingTokens (tk_kind t))) else Ok n)))"

end
