(* ===== verification/Metricql_Grammar.thy ===== *)
theory Metricql_Grammar
  imports Metricql_Parser
begin

text \<open>
  The grammar of MetricQL as relations between token lists and syntax trees, rule for rule the summary
  at the head of \<^verbatim>\<open>parser.rs\<close>, and the proof that the parser accepts exactly this grammar: the locale
  \<open>production\<close> states for one parsing function that it is sound and complete for one relation, never
  panics on a token vector that ends with the end-of-file token, and concludes that the relation is
  unambiguous. It is interpreted for every production.
\<close>

section \<open>Grammar\<close>

inductive g_source :: "token list \<Rightarrow> msource \<Rightarrow> bool" where
  "tk_kind e = Ident \<Longrightarrow>
     g_source [e] \<lparr>sr_event_type = tk_value e, sr_field = [], sr_span = span_from_to (tk_span e) (tk_span e)\<rparr>"
| "tk_kind e = Ident \<Longrightarrow> tk_kind d = Dot \<Longrightarrow> tk_kind f = Ident \<Longrightarrow>
     g_source [e, d, f] \<lparr>sr_event_type = tk_value e, sr_field = tk_value f, sr_span = span_from_to (tk_span e) (tk_span f)\<rparr>"

inductive g_field_ref :: "token list \<Rightarrow> field_ref \<times> span \<times> span \<Rightarrow> bool" where
  "tk_kind t = Ident \<Longrightarrow> g_field_ref [t] (\<lparr>fr_namespace = [], fr_name = tk_value t\<rparr>, tk_span t, tk_span t)"
| "tk_kind t = Ident \<Longrightarrow> tk_kind d = Dot \<Longrightarrow> tk_kind u = Ident \<Longrightarrow>
     g_field_ref [t, d, u] (\<lparr>fr_namespace = tk_value t, fr_name = tk_value u\<rparr>, tk_span t, tk_span u)"

inductive g_operator :: "token list \<Rightarrow> cmp_op \<Rightarrow> bool" where
  "operator_of t = Some op \<Longrightarrow> g_operator [t] op"

inductive g_value :: "token list \<Rightarrow> mvalue \<Rightarrow> bool"
  and g_items :: "token list \<Rightarrow> mvalue list \<Rightarrow> bool"
where
  "tk_kind t = String \<Longrightarrow> g_value [t] (MValue (VString (strip_quotes (tk_value t))) (tk_span t))"
| "tk_kind t = Number \<Longrightarrow> parse_f64 (tk_value t) = Some x \<Longrightarrow> g_value [t] (MValue (VNumber x) (tk_span t))"
| "tk_kind a = LBracket \<Longrightarrow> g_items ts vs \<Longrightarrow> tk_kind b = RBracket \<Longrightarrow>
     g_value (a # ts @ [b]) (MValue (VList vs) (span_from_to (tk_span a) (tk_span b)))"
| "g_value ts v \<Longrightarrow> g_items ts [v]"
| "g_value ts v \<Longrightarrow> tk_kind c = Comma \<Longrightarrow> g_items us vs \<Longrightarrow> g_items (ts @ c # us) (v # vs)"

definition is_keyword :: "string \<Rightarrow> token \<Rightarrow> bool" where
  "is_keyword kw t \<longleftrightarrow> tk_kind t = Keyword \<and> tk_value t = kw"

inductive g_predicate :: "token list \<Rightarrow> mpredicate \<Rightarrow> bool" where
  "g_field_ref ts (f, a, b) \<Longrightarrow> g_operator us op \<Longrightarrow> g_value vs v \<Longrightarrow>
     g_predicate (ts @ us @ vs) \<lparr>pd_field = f, pd_operator = op, pd_value = v, pd_span = span_from_to a (value_span v)\<rparr>"

text \<open>Further predicates, each after the keyword \<^verbatim>\<open>and\<close>.\<close>

inductive g_conjuncts :: "token list \<Rightarrow> mpredicate list \<Rightarrow> bool" where
  "g_conjuncts [] []"
| "is_keyword ''and'' k \<Longrightarrow> g_predicate ts p \<Longrightarrow> g_conjuncts us qs \<Longrightarrow> g_conjuncts (k # ts @ us) (p # qs)"

inductive g_filter :: "token list \<Rightarrow> mfilter \<Rightarrow> bool" where
  "is_keyword ''where'' k \<Longrightarrow> g_predicate ts p \<Longrightarrow> g_conjuncts us qs \<Longrightarrow>
     g_filter (k # ts @ us) \<lparr>fl_predicates = p # qs, fl_span = span_from_to (tk_span k) (pd_span (last (p # qs)))\<rparr>"

inductive g_window :: "token list \<Rightarrow> window \<Rightarrow> bool" where
  "is_keyword ''within'' k \<Longrightarrow> tk_kind n = Number \<Longrightarrow> parse_f64 (tk_value n) = Some x \<Longrightarrow>
     f64_eq x (f64_trunc x) \<Longrightarrow> \<not> f64_le x (Fin 0) \<Longrightarrow>
     is_keyword ''hours'' u \<and> unit = Hours \<or> is_keyword ''days'' u \<and> unit = Days \<Longrightarrow>
     is_keyword ''of'' v \<Longrightarrow> is_keyword ''exposure'' w \<Longrightarrow>
     g_window [k, n, u, v, w] \<lparr>wd_n = f64_to_u32 x, wd_unit = unit, wd_span = span_from_to (tk_span k) (tk_span w)\<rparr>"

inductive g_agg_func :: "token list \<Rightarrow> agg_func \<times> f64 \<Rightarrow> bool" where
  "tk_kind k = Keyword \<Longrightarrow> simple_agg_func (tk_value k) = Some func \<Longrightarrow> g_agg_func [k] (func, Fin 0)"
| "is_keyword ''percentile'' k \<Longrightarrow> tk_kind a = LParen \<Longrightarrow> tk_kind n = Number \<Longrightarrow> parse_f64 (tk_value n) = Some x \<Longrightarrow>
     \<not> f64_le x (Fin 0) \<Longrightarrow> \<not> f64_le (Fin 100) x \<Longrightarrow> tk_kind b = RParen \<Longrightarrow>
     g_agg_func [k, a, n, b] (Percentile, x)"

text \<open>An optional clause.\<close>

inductive g_optional :: "(token list \<Rightarrow> 'a \<Rightarrow> bool) \<Rightarrow> token list \<Rightarrow> 'a option \<Rightarrow> bool" for G where
  "g_optional G [] None"
| "G ts x \<Longrightarrow> g_optional G ts (Some x)"

inductive g_aggregation :: "token list \<Rightarrow> aggregation \<Rightarrow> bool" where
  "g_agg_func (k # ts) (func, pct) \<Longrightarrow> tk_kind a = LParen \<Longrightarrow> g_source us s \<Longrightarrow> tk_kind b = RParen \<Longrightarrow>
     g_optional g_filter vs fo \<Longrightarrow> g_optional g_window ws wo \<Longrightarrow>
     end_span = (case wo of Some w \<Rightarrow> wd_span w | None \<Rightarrow> (case fo of Some f \<Rightarrow> fl_span f | None \<Rightarrow> tk_span b)) \<Longrightarrow>
     g_aggregation (k # ts @ a # us @ b # vs @ ws)
       \<lparr>ag_func = func, ag_percentile = pct, ag_source = s, ag_filter = fo, ag_window = wo, ag_span = span_from_to (tk_span k) end_span\<rparr>"

inductive g_metric_ref :: "token list \<Rightarrow> metric_ref \<Rightarrow> bool" where
  "tk_kind a = At \<Longrightarrow> tk_kind i = Ident \<Longrightarrow>
     g_metric_ref [a, i] \<lparr>mr_id = tk_value i, mr_span = span_from_to (tk_span a) (tk_span i)\<rparr>"

inductive g_ratio :: "token list \<Rightarrow> ratio \<Rightarrow> bool" where
  "is_keyword ''ratio'' k \<Longrightarrow> tk_kind a = LParen \<Longrightarrow> g_metric_ref ts m \<Longrightarrow> tk_kind c = Comma \<Longrightarrow> g_metric_ref us n \<Longrightarrow>
     tk_kind b = RParen \<Longrightarrow>
     g_ratio (k # a # ts @ c # us @ [b]) \<lparr>rt_numerator = m, rt_denominator = n, rt_span = span_from_to (tk_span k) (tk_span b)\<rparr>"

inductive g_composite :: "token list \<Rightarrow> node \<Rightarrow> bool"
  and g_term :: "token list \<Rightarrow> node \<Rightarrow> bool"
  and g_unary :: "token list \<Rightarrow> node \<Rightarrow> bool"
  and g_factor :: "token list \<Rightarrow> node \<Rightarrow> bool"
where
  composite_term: "g_term ts n \<Longrightarrow> g_composite ts n"
| composite_add: "g_composite ts l \<Longrightarrow> tk_kind t = Plus \<Longrightarrow> g_term us r \<Longrightarrow>
     g_composite (ts @ t # us) (Composite Add l r (span_from_to (node_span l) (node_span r)))"
| composite_sub: "g_composite ts l \<Longrightarrow> tk_kind t = Minus \<Longrightarrow> g_term us r \<Longrightarrow>
     g_composite (ts @ t # us) (Composite Sub l r (span_from_to (node_span l) (node_span r)))"
| term_unary: "g_unary ts n \<Longrightarrow> g_term ts n"
| term_mul: "g_term ts l \<Longrightarrow> tk_kind t = Star \<Longrightarrow> g_unary us r \<Longrightarrow>
     g_term (ts @ t # us) (Composite Mul l r (span_from_to (node_span l) (node_span r)))"
| term_div: "g_term ts l \<Longrightarrow> tk_kind t = Slash \<Longrightarrow> g_unary us r \<Longrightarrow>
     g_term (ts @ t # us) (Composite Div l r (span_from_to (node_span l) (node_span r)))"
| unary_factor: "g_factor ts n \<Longrightarrow> g_unary ts n"
| unary_minus: "tk_kind t = Minus \<Longrightarrow> g_factor ts n \<Longrightarrow> g_unary (t # ts) (Negate n (span_from_to (tk_span t) (node_span n)))"
| factor_ref: "g_metric_ref ts m \<Longrightarrow> g_factor ts (MetricRef m)"
| factor_number: "tk_kind t = Number \<Longrightarrow> parse_f64 (tk_value t) = Some x \<Longrightarrow> g_factor [t] (Literal x (tk_span t))"
| factor_paren: "tk_kind a = LParen \<Longrightarrow> g_composite ts n \<Longrightarrow> tk_kind b = RParen \<Longrightarrow>
     g_factor (a # ts @ [b]) (restamp_span n (span_from_to (tk_span a) (tk_span b)))"
| factor_ratio: "g_ratio ts r \<Longrightarrow> g_factor ts (Ratio r)"

inductive g_expression :: "token list \<Rightarrow> node \<Rightarrow> bool" where
  "g_aggregation ts a \<Longrightarrow> g_expression ts (Aggregation a)"
| "g_composite ts n \<Longrightarrow> g_expression ts n"

section \<open>Parsing a relation\<close>

definition ahead :: "parser \<Rightarrow> token list" where
  "ahead ps = drop (ps_pos ps) (ps_tokens ps)"

definition skip :: "nat \<Rightarrow> parser \<Rightarrow> parser" where
  "skip k ps = ps\<lparr>ps_pos := ps_pos ps + k\<rparr>"

text \<open>The token vectors of the lexer end with the end-of-file token.\<close>

definition fed :: "parser \<Rightarrow> bool" where
  "fed ps \<longleftrightarrow> ps_tokens ps \<noteq> [] \<and> tk_kind (last (ps_tokens ps)) = Eof"

definition derived :: "(token list \<Rightarrow> 'a \<Rightarrow> bool) \<Rightarrow> parser \<Rightarrow> 'a \<Rightarrow> parser \<Rightarrow> bool" where
  "derived G ps x ps' \<longleftrightarrow> (\<exists>ts rest. ahead ps = ts @ rest \<and> ps' = skip (length ts) ps \<and> G ts x)"

named_theorems stream_simps \<open>the token stream ahead of a position\<close>

lemma ahead_skip [simp]: "ahead (skip k ps) = drop k (ahead ps)"
  by (simp add: ahead_def skip_def add.commute)

lemma skip_skip [simp]: "skip j (skip k ps) = skip (k + j) ps"
  by (simp add: skip_def add.assoc)

lemma skip_0 [simp]: "skip 0 ps = ps"
  by (simp add: skip_def)

lemma skip_inject [simp]: "skip j ps = skip k ps \<longleftrightarrow> j = k"
  by (cases ps) (simp add: skip_def)

lemma tokens_skip [simp]: "ps_tokens (skip k ps) = ps_tokens ps"
  by (simp add: skip_def)

lemma fed_skip [simp]: "fed (skip k ps) = fed ps"
  by (simp add: fed_def skip_def)

lemma ahead_Nil: "ahead ps = [] \<longleftrightarrow> length (ps_tokens ps) \<le> ps_pos ps"
  by (simp add: ahead_def)

lemma peek_ahead [stream_simps]: "ahead ps \<noteq> [] \<Longrightarrow> peek ps = Ok (hd (ahead ps))"
  by (auto simp: peek_def ahead_def hd_drop_conv_nth)

lemma advance_ahead [stream_simps]: "ahead ps \<noteq> [] \<Longrightarrow> advance ps = Ok (hd (ahead ps), skip (Suc 0) ps)"
  by (auto simp: advance_def ahead_def skip_def hd_drop_conv_nth)

lemma advance_Ok: "advance ps = Ok (t, ps') \<longleftrightarrow> (\<exists>r. ahead ps = t # r) \<and> ps' = skip (Suc 0) ps"
proof (cases "ahead ps")
  case Nil
  then have "\<not> ps_pos ps < length (ps_tokens ps)" by (simp add: ahead_def)
  then show ?thesis using Nil by (simp add: advance_def)
qed (auto simp: advance_ahead)

lemma peek_fed: "fed ps \<Longrightarrow> \<exists>t. peek ps = Ok t \<and> (tk_kind t = Eof \<or> (\<exists>r. ahead ps = t # r))"
  by (auto simp: peek_def fed_def ahead_def Cons_nth_drop_Suc [symmetric])

lemma expect_Ok: "expect k d ps = Ok (t, ps') \<longleftrightarrow> (\<exists>r. ahead ps = t # r) \<and> tk_kind t = k \<and> ps' = skip (Suc 0) ps"
  by (auto simp: expect_def obind_Ok_iff advance_Ok peek_ahead split: if_splits)

lemma expect_keyword_Ok:
  "expect_keyword kw ps = Ok (t, ps') \<longleftrightarrow> (\<exists>r. ahead ps = t # r) \<and> is_keyword kw t \<and> ps' = skip (Suc 0) ps"
  by (auto simp: expect_keyword_def is_keyword_def obind_Ok_iff advance_Ok peek_ahead split: if_splits)

lemma expect_ahead [stream_simps]:
  "ahead ps \<noteq> [] \<Longrightarrow> tk_kind (hd (ahead ps)) = k \<Longrightarrow> expect k d ps = Ok (hd (ahead ps), skip (Suc 0) ps)"
  by (cases "ahead ps") (simp_all add: expect_Ok)

lemma expect_keyword_ahead [stream_simps]:
  "ahead ps \<noteq> [] \<Longrightarrow> is_keyword kw (hd (ahead ps)) \<Longrightarrow> expect_keyword kw ps = Ok (hd (ahead ps), skip (Suc 0) ps)"
  by (cases "ahead ps") (simp_all add: expect_keyword_Ok)

lemma peek_keyword_ahead [stream_simps]: "ahead ps \<noteq> [] \<Longrightarrow> peek_keyword kw ps = Ok (is_keyword kw (hd (ahead ps)))"
  by (simp add: peek_keyword_def peek_ahead is_keyword_def)

section \<open>Panics\<close>

named_theorems no_panics \<open>productions that do not panic on a token vector that ends with the end-of-file token\<close>

lemma peek_no_panic [no_panics]: "fed ps \<Longrightarrow> peek ps \<noteq> Panic"
  using peek_fed [of ps] by auto

lemma advance_Panic [no_panics]: "advance ps = Panic \<longleftrightarrow> ahead ps = []"
  by (auto simp: advance_def ahead_Nil)

lemma peek_at_end [no_panics]: "fed ps \<Longrightarrow> ahead ps = [] \<Longrightarrow> peek ps = Ok (last (ps_tokens ps))"
  by (simp add: peek_def fed_def ahead_Nil)

lemma last_is_eof [no_panics]: "fed ps \<Longrightarrow> tk_kind (last (ps_tokens ps)) = Eof"
  by (simp add: fed_def)

lemma expect_no_panic [no_panics]: "fed ps \<Longrightarrow> k \<noteq> Eof \<Longrightarrow> expect k d ps \<noteq> Panic"
  by (auto simp: expect_def obind_Panic_iff no_panics split: if_splits)

lemma expect_keyword_no_panic [no_panics]: "fed ps \<Longrightarrow> expect_keyword kw ps \<noteq> Panic"
  by (auto simp: expect_keyword_def obind_Panic_iff no_panics split: if_splits)

lemma peek_keyword_no_panic [no_panics]: "fed ps \<Longrightarrow> peek_keyword kw ps \<noteq> Panic"
  by (auto simp: peek_keyword_def obind_Panic_iff no_panics)

lemma parse_number_no_panic [no_panics]: "parse_number t msg \<noteq> Panic"
  by (simp add: parse_number_def)

lemma derivedI: "k \<le> length (ahead ps) \<Longrightarrow> G (take k (ahead ps)) x \<Longrightarrow> derived G ps x (skip k ps)"
  unfolding derived_def by (metis append_take_drop_id length_take min.absorb2)

lemma derived_empty: "G [] x \<Longrightarrow> derived G ps x ps"
  using derivedI [of 0 ps G x] by simp

lemma derived_mono: "derived G ps x ps' \<Longrightarrow> (\<And>ts. G ts x \<Longrightarrow> H ts y) \<Longrightarrow> derived H ps y ps'"
  by (auto simp: derived_def)

lemma derivedE:
  assumes "derived G ps x ps'"
  obtains ts rest where "ahead ps = ts @ rest" "ps' = skip (length ts) ps" "G ts x"
  using assms by (auto simp: derived_def)

section \<open>Productions\<close>

locale production =
  fixes p :: "parser \<Rightarrow> 'a parse_result" and G :: "token list \<Rightarrow> 'a \<Rightarrow> bool" and follow :: "token \<Rightarrow> bool"
  assumes sound: "p ps = Ok (x, ps') \<Longrightarrow> derived G ps x ps'"
    and complete: "G ts x \<Longrightarrow> ahead ps = ts @ t # rest \<Longrightarrow> follow t \<Longrightarrow> p ps = Ok (x, skip (length ts) ps)"
    and no_panic: "fed ps \<Longrightarrow> p ps \<noteq> Panic"
    and eof_follows: "tk_kind t = Eof \<Longrightarrow> follow t"
begin

lemma unambiguous:
  assumes "G ts x" "G ts y"
  shows "x = y"
proof -
  let ?eof = "\<lparr>tk_kind = Eof, tk_value = [], tk_span = Span 0 0\<rparr>"
  let ?ps = "\<lparr>ps_tokens = ts @ [?eof], ps_pos = 0\<rparr>"
  have "ahead ?ps = ts @ ?eof # []" by (simp add: ahead_def)
  from complete [OF assms(1) this] complete [OF assms(2) this] eof_follows [of ?eof] show ?thesis by simp
qed

lemma keeps_fed: "p ps = Ok (x, ps') \<Longrightarrow> fed ps' = fed ps"
  by (erule derivedE [OF sound]) simp

text \<open>On a whole input the parser succeeds exactly on the sentences of the relation.\<close>

lemma accepts_iff:
  assumes "ahead ps = ts @ [e]" "tk_kind e = Eof" and no_eof: "\<And>us y. G us y \<Longrightarrow> \<forall>t \<in> set us. tk_kind t \<noteq> Eof"
  shows "(\<exists>ps'. p ps = Ok (x, ps') \<and> ahead ps' = [e]) \<longleftrightarrow> G ts x"
proof
  assume "\<exists>ps'. p ps = Ok (x, ps') \<and> ahead ps' = [e]"
  then obtain ps' where run: "p ps = Ok (x, ps')" and rest: "ahead ps' = [e]" by blast
  from sound [OF run] obtain us r where us: "ahead ps = us @ r" "ps' = skip (length us) ps" "G us x" by (rule derivedE)
  then have "ahead ps' = r" by simp
  with rest us(1) assms(1) have "us = ts" by simp
  with us(3) show "G ts x" by simp
next
  assume "G ts x"
  with complete [of ts x ps e "[]"] assms eof_follows show "\<exists>ps'. p ps = Ok (x, ps') \<and> ahead ps' = [e]" by auto
qed

end

section \<open>The simple productions\<close>

definition any_token :: "token \<Rightarrow> bool" where
  "any_token t \<longleftrightarrow> True"

interpretation metric_ref_p: production parse_metric_ref g_metric_ref any_token
proof
  show "derived g_metric_ref ps x ps'" if "parse_metric_ref ps = Ok (x, ps')" for ps x ps'
    using that by (auto simp: parse_metric_ref_def obind_Ok_iff expect_Ok intro!: derivedI g_metric_ref.intros)
  show "parse_metric_ref ps = Ok (x, skip (length ts) ps)" if "g_metric_ref ts x" "ahead ps = ts @ t # rest" for ts x ps t rest
    using that by (auto elim!: g_metric_ref.cases simp: parse_metric_ref_def stream_simps)
  show "parse_metric_ref ps \<noteq> Panic" if "fed ps" for ps
    using that by (auto simp: parse_metric_ref_def expect_Ok obind_Panic_iff no_panics)
qed (simp add: any_token_def)

interpretation source_p: production parse_source g_source "\<lambda>t. tk_kind t \<noteq> Dot"
proof
  show "derived g_source ps x ps'" if "parse_source ps = Ok (x, ps')" for ps x ps'
    using that by (auto simp: parse_source_def obind_Ok_iff expect_Ok advance_Ok stream_simps split: if_splits
        intro!: derivedI g_source.intros)
  show "parse_source ps = Ok (x, skip (length ts) ps)" if "g_source ts x" "ahead ps = ts @ t # rest" "tk_kind t \<noteq> Dot" for ts x ps t rest
    using that by (auto elim!: g_source.cases simp: parse_source_def stream_simps)
  show "parse_source ps \<noteq> Panic" if "fed ps" for ps
    using that by (auto simp: parse_source_def expect_Ok advance_Ok obind_Panic_iff no_panics split: if_splits)
qed simp

interpretation field_ref_p: production parse_field_ref g_field_ref "\<lambda>t. tk_kind t \<noteq> Dot"
proof
  show "derived g_field_ref ps x ps'" if "parse_field_ref ps = Ok (x, ps')" for ps x ps'
    using that by (auto simp: parse_field_ref_def obind_Ok_iff expect_Ok advance_Ok stream_simps split: if_splits
        intro!: derivedI g_field_ref.intros)
  show "parse_field_ref ps = Ok (x, skip (length ts) ps)" if "g_field_ref ts x" "ahead ps = ts @ t # rest" "tk_kind t \<noteq> Dot" for ts x ps t rest
    using that by (auto elim!: g_field_ref.cases simp: parse_field_ref_def stream_simps)
  show "parse_field_ref ps \<noteq> Panic" if "fed ps" for ps
    using that by (auto simp: parse_field_ref_def expect_Ok advance_Ok obind_Panic_iff no_panics split: if_splits)
qed simp

lemma operator_not_eof: "operator_of t = Some op \<Longrightarrow> tk_kind t \<noteq> Eof"
  by (auto simp: operator_of_def)

interpretation operator_p: production parse_operator g_operator any_token
proof
  show "derived g_operator ps x ps'" if "parse_operator ps = Ok (x, ps')" for ps x ps'
    using that by (auto simp: parse_operator_def obind_Ok_iff advance_Ok stream_simps split: option.splits
        intro!: derivedI g_operator.intros)
  show "parse_operator ps = Ok (x, skip (length ts) ps)" if "g_operator ts x" "ahead ps = ts @ t # rest" for ts x ps t rest
    using that by (auto elim!: g_operator.cases simp: parse_operator_def stream_simps)
  show "parse_operator ps \<noteq> Panic" if "fed ps" for ps
    using that by (auto simp: parse_operator_def obind_Panic_iff no_panics dest!: operator_not_eof split: option.splits)
qed (simp add: any_token_def)

interpretation window_p: production parse_window g_window any_token
proof
  show "derived g_window ps x ps'" if "parse_window ps = Ok (x, ps')" for ps x ps'
    using that by (auto simp: parse_window_def obind_Ok_iff expect_Ok expect_keyword_Ok advance_Ok stream_simps parse_number_def
        ok_or_Ok_iff Let_def is_keyword_def split: if_splits intro!: derivedI g_window.intros)
  show "parse_window ps = Ok (x, skip (length ts) ps)" if "g_window ts x" "ahead ps = ts @ t # rest" for ts x ps t rest
    using that by (auto elim!: g_window.cases simp: parse_window_def stream_simps parse_number_def Let_def is_keyword_def)
  show "parse_window ps \<noteq> Panic" if "fed ps" for ps
    using that by (auto simp: parse_window_def expect_Ok expect_keyword_Ok advance_Ok obind_Panic_iff no_panics Let_def
        split: if_splits)
qed (simp add: any_token_def)

interpretation ratio_p: production parse_ratio g_ratio any_token
proof
  show "derived g_ratio ps x ps'" if "parse_ratio ps = Ok (x, ps')" for ps x ps'
  proof -
    from that obtain k ps1 a ps2 m ps3 c ps4 n ps5 b where steps: "expect_keyword ''ratio'' ps = Ok (k, ps1)"
      "expect LParen (quoted ''('' @ '' after '' @ quoted ''ratio'') ps1 = Ok (a, ps2)" "parse_metric_ref ps2 = Ok (m, ps3)"
      "expect Comma (quoted '','' @ '' between ratio arguments'') ps3 = Ok (c, ps4)" "parse_metric_ref ps4 = Ok (n, ps5)"
      "expect RParen (quoted '')'' @ '' to close ratio'') ps5 = Ok (b, ps')"
      "x = \<lparr>rt_numerator = m, rt_denominator = n, rt_span = span_from_to (tk_span k) (tk_span b)\<rparr>"
      by (auto simp: parse_ratio_def obind_Ok_iff)
    from metric_ref_p.sound [OF steps(3)] metric_ref_p.sound [OF steps(5)] show ?thesis
      using steps g_ratio.intros [of k a _ m c _ n b]
      by (elim derivedE) (auto simp: expect_Ok expect_keyword_Ok intro!: derivedI)
  qed
  show "parse_ratio ps = Ok (x, skip (length ts) ps)" if "g_ratio ts x" "ahead ps = ts @ t # rest" for ts x ps t rest
    using that by (auto elim!: g_ratio.cases simp: parse_ratio_def stream_simps metric_ref_p.complete any_token_def)
  show "parse_ratio ps \<noteq> Panic" if "fed ps" for ps
    using that
    by (auto simp: parse_ratio_def expect_Ok expect_keyword_Ok obind_Panic_iff no_panics metric_ref_p.no_panic dest!: metric_ref_p.keeps_fed)
qed (simp add: any_token_def)

section \<open>Values\<close>

lemma value_sound:
  shows "parse_value ps = Ok (v, ps') \<Longrightarrow> derived g_value ps v ps'"
    and "value_items items ps = Ok (vs, ps') \<Longrightarrow> \<exists>us. vs = items @ us \<and> derived g_items ps us ps'"
proof (induction ps and items ps arbitrary: v ps' and vs ps' rule: parse_value_value_items.induct)
  case (1 ps)
  note run = "1.prems" [unfolded parse_value.simps [of ps]]
  from run obtain t where t: "peek ps = Ok t" by (auto simp: obind_Ok_iff)
  show ?case
  proof (cases "tk_kind t = LBracket")
    case True
    with run t obtain a ps1 f items ps2 b where steps:
      "advance ps = Ok (a, ps1)" "peek ps1 = Ok f" "tk_kind f \<noteq> RBracket" "value_items [] ps1 = Ok (items, ps2)"
      "expect RBracket (quoted '']'' @ '' to close in-list'') ps2 = Ok (b, ps')"
      "v = MValue (VList items) (span_from_to (tk_span a) (tk_span b))"
      by (auto simp: obind_Ok_iff split: if_splits)
    have a: "tk_kind a = LBracket" using steps(1) t True by (auto simp: advance_Ok stream_simps)
    have "derived g_items ps1 items ps2" using "1.IH" [OF t _ _ True steps(1) refl steps(2,3,4)] True by simp
    then show ?thesis
      using steps a g_value_g_items.intros(3) [of a _ items b]
      by (elim derivedE) (auto simp: expect_Ok advance_Ok intro!: derivedI)
  next
    case False
    with run t show ?thesis
      by (auto simp: obind_Ok_iff advance_Ok stream_simps parse_number_def ok_or_Ok_iff split: if_splits
          intro!: derivedI g_value_g_items.intros)
  qed
next
  case (2 items ps)
  note run = "2.prems" [unfolded value_items.simps [of items ps]]
  from run obtain w ps1 t where w: "parse_value ps = Ok (w, ps1)" and t: "peek ps1 = Ok t" by (auto simp: obind_Ok_iff)
  from "2.IH"(1) [OF w] have dw: "derived g_value ps w ps1" .
  show ?case
  proof (cases "tk_kind t = Comma")
    case True
    with run w t obtain c ps2 where steps: "advance ps1 = Ok (c, ps2)" "value_items (items @ [w]) ps2 = Ok (vs, ps')"
      by (auto simp: obind_Ok_iff)
    from "2.IH"(2) [OF w refl t True steps(1) refl steps(2)] obtain us where us: "vs = (items @ [w]) @ us" "derived g_items ps2 us ps'" by blast
    have c: "tk_kind c = Comma" using steps(1) t True by (auto simp: advance_Ok stream_simps)
    have "derived g_items ps (w # us) ps'"
      using dw us(2) steps(1) c g_value_g_items.intros(5) [of _ w c _ us]
      by (elim derivedE) (auto simp: advance_Ok intro!: derivedI)
    then show ?thesis using us(1) by auto
  next
    case False
    with run w t have "vs = items @ [w]" "ps' = ps1" by auto
    then show ?thesis using dw g_value_g_items.intros(4) by (auto simp: derived_def)
  qed
qed

lemma value_complete:
  shows "g_value ts v \<Longrightarrow> (\<forall>ps rest. ahead ps = ts @ rest \<longrightarrow> parse_value ps = Ok (v, skip (length ts) ps)) \<and> tk_kind (hd ts) \<noteq> RBracket \<and> ts \<noteq> []"
    and "g_items ts vs \<Longrightarrow> (\<forall>ps items t rest. ahead ps = ts @ t # rest \<longrightarrow> tk_kind t \<noteq> Comma \<longrightarrow>
      value_items items ps = Ok (items @ vs, skip (length ts) ps)) \<and> tk_kind (hd ts) \<noteq> RBracket \<and> ts \<noteq> []"
proof (induction rule: g_value_g_items.inducts)
  case (3 a ts vs b)
  show ?case
  proof (intro conjI allI impI)
    fix ps rest assume ah: "ahead ps = (a # ts @ [b]) @ rest"
    have "value_items [] (skip (Suc 0) ps) = Ok (vs, skip (Suc (length ts)) ps)"
      using "3.IH" [THEN conjunct1, rule_format, of "skip (Suc 0) ps" b rest "[]"] ah "3.hyps" by simp
    then show "parse_value ps = Ok (MValue (VList vs) (span_from_to (tk_span a) (tk_span b)), skip (length (a # ts @ [b])) ps)"
      using ah "3.hyps" "3.IH" by (subst parse_value.simps) (auto simp: stream_simps hd_append)
  qed (use "3.hyps" in auto)
next
  case (5 ts v c us vs)
  show ?case
  proof (intro conjI allI impI)
    fix ps items t rest assume ah: "ahead ps = (ts @ c # us) @ t # rest" and nc: "tk_kind t \<noteq> Comma"
    have "parse_value ps = Ok (v, skip (length ts) ps)" using "5.IH"(1) ah by simp
    moreover have "value_items (items @ [v]) (skip (Suc (length ts)) ps) = Ok ((items @ [v]) @ vs, skip (Suc (length ts + length us)) ps)"
      using "5.IH"(2) [THEN conjunct1, rule_format, of "skip (Suc (length ts)) ps" t rest "items @ [v]"] ah nc by simp
    ultimately show "value_items items ps = Ok (items @ v # vs, skip (length (ts @ c # us)) ps)"
      using ah "5.hyps" by (subst value_items.simps) (simp add: stream_simps)
  qed (use "5.IH" in \<open>auto simp: hd_append\<close>)
qed (auto simp: parse_value.simps value_items.simps stream_simps parse_number_def)

lemma value_no_panic:
  shows "fed ps \<Longrightarrow> parse_value ps \<noteq> Panic"
    and "fed ps \<Longrightarrow> value_items items ps \<noteq> Panic"
proof (induction ps and items ps rule: parse_value_value_items.induct)
  case (1 ps)
  show ?case
  proof
    assume "parse_value ps = Panic"
    note run = this [unfolded parse_value.simps [of ps]]
    from peek_fed [OF "1.prems"] obtain t where t: "peek ps = Ok t" by blast
    show False
    proof (cases "tk_kind t = LBracket")
      case True
      then obtain r where ah: "ahead ps = t # r" using peek_fed [OF "1.prems"] t by auto
      then have adv: "advance ps = Ok (t, skip (Suc 0) ps)" by (simp add: advance_Ok)
      obtain f where f: "peek (skip (Suc 0) ps) = Ok f" using peek_fed [of "skip (Suc 0) ps"] "1.prems" by auto
      have "value_items [] (skip (Suc 0) ps) \<noteq> Panic" if "tk_kind f \<noteq> RBracket"
        using "1.IH" [OF t _ _ True adv refl f that] True "1.prems" by simp
      then show False
        using run t True adv f "1.prems"
        by (auto simp: obind_Panic_iff no_panics split: if_splits dest!: value_sound(2) elim!: derivedE)
    next
      case False
      with run t "1.prems" show False by (auto simp: obind_Panic_iff no_panics split: if_splits)
    qed
  qed
next
  case (2 items ps)
  show ?case
  proof
    assume "value_items items ps = Panic"
    note run = this [unfolded value_items.simps [of items ps]]
    from "2.IH"(1) "2.prems" run obtain w ps1 where w: "parse_value ps = Ok (w, ps1)"
      by (auto simp: obind_Panic_iff)
    have fed1: "fed ps1" using value_sound(1) [OF w] "2.prems" by (auto elim!: derivedE)
    then obtain t where t: "peek ps1 = Ok t" using peek_fed by blast
    with run w have comma: "tk_kind t = Comma" by (auto split: if_splits)
    then obtain r where "ahead ps1 = t # r" using peek_fed [OF fed1] t by auto
    then have adv: "advance ps1 = Ok (t, skip (Suc 0) ps1)" by (simp add: advance_Ok)
    show False using "2.IH"(2) [OF w refl t comma adv refl] fed1 run w t comma adv by simp
  qed
qed

interpretation value_p: production parse_value g_value any_token
proof
  show "derived g_value ps x ps'" if "parse_value ps = Ok (x, ps')" for ps x ps'
    using that by (rule value_sound)
  show "parse_value ps = Ok (x, skip (length ts) ps)" if "g_value ts x" "ahead ps = ts @ t # rest" for ts x ps t rest
    using value_complete(1) that by blast
  show "parse_value ps \<noteq> Panic" if "fed ps" for ps
    using that by (rule value_no_panic)
qed (simp add: any_token_def)

section \<open>Filters\<close>

lemma operator_not_dot: "g_operator us op \<Longrightarrow> \<exists>t. us = [t] \<and> tk_kind t \<noteq> Dot"
  by (auto elim!: g_operator.cases simp: operator_of_def)

interpretation predicate_p: production parse_predicate g_predicate any_token
proof
  show "derived g_predicate ps x ps'" if "parse_predicate ps = Ok (x, ps')" for ps x ps'
  proof -
    from that obtain f a b ps1 op ps2 v where steps: "parse_field_ref ps = Ok ((f, a, b), ps1)" "parse_operator ps1 = Ok (op, ps2)"
      "parse_value ps2 = Ok (v, ps')" "x = \<lparr>pd_field = f, pd_operator = op, pd_value = v, pd_span = span_from_to a (value_span v)\<rparr>"
      by (auto simp: parse_predicate_def obind_Ok_iff)
    from field_ref_p.sound [OF steps(1)] operator_p.sound [OF steps(2)] value_p.sound [OF steps(3)] show ?thesis
      using steps(4) g_predicate.intros [of _ f a b _ op _ v]
      by (elim derivedE) (auto intro!: derivedI)
  qed
  show "parse_predicate ps = Ok (x, skip (length ts) ps)" if "g_predicate ts x" "ahead ps = ts @ t # rest" for ts x ps t rest
    using that
  proof cases
    case (1 us f a b vs op ws v)
    obtain d where o: "vs = [d]" "tk_kind d \<noteq> Dot" using operator_not_dot [OF 1(4)] by blast
    have "parse_field_ref ps = Ok ((f, a, b), skip (length us) ps)"
      using field_ref_p.complete [OF 1(3), of ps d "ws @ t # rest"] that(2) 1(1) o by simp
    moreover have "parse_operator (skip (length us) ps) = Ok (op, skip (Suc (length us)) ps)"
      using operator_p.complete [OF 1(4), of "skip (length us) ps" "hd (ws @ t # rest)" "tl (ws @ t # rest)"] that(2) 1(1) o
      by (simp add: any_token_def)
    moreover have "parse_value (skip (Suc (length us)) ps) = Ok (v, skip (Suc (length us + length ws)) ps)"
      using value_p.complete [OF 1(5), of "skip (Suc (length us)) ps" t rest] that(2) 1(1) o by (simp add: any_token_def)
    ultimately show ?thesis using 1(1,2) o by (simp add: parse_predicate_def)
  qed
  show "parse_predicate ps \<noteq> Panic" if "fed ps" for ps
    using that
    by (auto simp: parse_predicate_def obind_Panic_iff field_ref_p.no_panic operator_p.no_panic value_p.no_panic
        dest!: field_ref_p.keeps_fed operator_p.keeps_fed value_p.keeps_fed)
qed (simp add: any_token_def)

lemma peek_keyword_Ok:
  "peek_keyword kw ps = Ok True \<Longrightarrow> advance ps = Ok (t, ps') \<Longrightarrow> is_keyword kw t"
  by (auto simp: peek_keyword_def obind_Ok_iff advance_Ok stream_simps is_keyword_def)

lemma peek_keyword_fed: "fed ps \<Longrightarrow> peek_keyword kw ps = Ok True \<Longrightarrow> \<exists>t r. ahead ps = t # r \<and> is_keyword kw t"
  using peek_fed [of ps] by (auto simp: peek_keyword_def is_keyword_def)

lemma filter_loop_sound:
  "filter_loop preds e ps = Ok ((qs, e'), ps') \<Longrightarrow>
     \<exists>us. qs = preds @ us \<and> e' = (if us = [] then e else pd_span (last us)) \<and> derived g_conjuncts ps us ps'"
proof (induction preds e ps rule: filter_loop.induct)
  case (1 preds e ps)
  note run = "1.prems" [unfolded filter_loop.simps [of preds e ps]]
  from run obtain more where more: "peek_keyword ''and'' ps = Ok more" by (auto simp: obind_Ok_iff)
  show ?case
  proof (cases more)
    case True
    with run more obtain k ps1 p ps2 where steps: "advance ps = Ok (k, ps1)" "parse_predicate ps1 = Ok (p, ps2)"
      "filter_loop (preds @ [p]) (pd_span p) ps2 = Ok ((qs, e'), ps')"
      by (auto simp: obind_Ok_iff)
    from "1.IH" [OF more True steps(1) refl steps(2) refl steps(3)] obtain us where
      us: "qs = (preds @ [p]) @ us" "e' = (if us = [] then pd_span p else pd_span (last us))" "derived g_conjuncts ps2 us ps'" by blast
    have "is_keyword ''and'' k" using peek_keyword_Ok more True steps(1) by simp
    then have "derived g_conjuncts ps (p # us) ps'"
      using predicate_p.sound [OF steps(2)] us(3) steps(1) g_conjuncts.intros(2) [of k _ p _ us]
      by (elim derivedE) (auto simp: advance_Ok intro!: derivedI)
    then show ?thesis using us by (intro exI [of _ "p # us"]) auto
  next
    case False
    with run more show ?thesis by (auto intro: derived_empty g_conjuncts.intros)
  qed
qed

lemma filter_loop_complete:
  "g_conjuncts us qs \<Longrightarrow> ahead ps = us @ t # rest \<Longrightarrow> \<not> is_keyword ''and'' t \<Longrightarrow>
     filter_loop preds e ps = Ok ((preds @ qs, if qs = [] then e else pd_span (last qs)), skip (length us) ps)"
proof (induction us qs arbitrary: ps preds e rule: g_conjuncts.induct)
  case 1
  then show ?case by (subst filter_loop.simps) (simp add: stream_simps)
next
  case (2 k ts p us qs)
  have "parse_predicate (skip (Suc 0) ps) = Ok (p, skip (Suc (length ts)) ps)"
    using predicate_p.complete [OF "2.hyps"(2), of "skip (Suc 0) ps" "hd (us @ t # rest)" "tl (us @ t # rest)"] "2.prems"(1)
    by (simp add: any_token_def)
  moreover have "filter_loop (preds @ [p]) (pd_span p) (skip (Suc (length ts)) ps) =
      Ok ((preds @ p # qs, if qs = [] then pd_span p else pd_span (last qs)), skip (Suc (length ts + length us)) ps)"
    using "2.IH" [of "skip (Suc (length ts)) ps" "preds @ [p]" "pd_span p"] "2.prems" by simp
  ultimately show ?case
    using "2.prems" "2.hyps"(1) by (subst filter_loop.simps) (simp add: stream_simps)
qed

lemma filter_loop_no_panic: "fed ps \<Longrightarrow> filter_loop preds e ps \<noteq> Panic"
proof (induction preds e ps rule: filter_loop.induct)
  case (1 preds e ps)
  show ?case
  proof
    assume "filter_loop preds e ps = Panic"
    note run = this [unfolded filter_loop.simps [of preds e ps]]
    from run "1.prems" have more: "peek_keyword ''and'' ps = Ok True" by (auto simp: obind_Panic_iff no_panics split: if_splits)
    obtain k r where "ahead ps = k # r" using peek_keyword_fed [OF "1.prems" more] by blast
    then have adv: "advance ps = Ok (k, skip (Suc 0) ps)" by (simp add: advance_Ok)
    with run more "1.prems" obtain p ps2 where p: "parse_predicate (skip (Suc 0) ps) = Ok (p, ps2)"
      and rest: "filter_loop (preds @ [p]) (pd_span p) ps2 = Panic"
      by (auto simp: obind_Panic_iff predicate_p.no_panic)
    show False
      using "1.IH" [OF more TrueI adv refl p refl] predicate_p.keeps_fed [OF p] "1.prems" rest by simp
  qed
qed

interpretation filter_p: production parse_filter g_filter "\<lambda>t. \<not> is_keyword ''and'' t"
proof
  show "derived g_filter ps x ps'" if "parse_filter ps = Ok (x, ps')" for ps x ps'
  proof -
    from that obtain k ps1 p ps2 qs e where steps: "expect_keyword ''where'' ps = Ok (k, ps1)" "parse_predicate ps1 = Ok (p, ps2)"
      "filter_loop [p] (pd_span p) ps2 = Ok ((qs, e), ps')" "x = \<lparr>fl_predicates = qs, fl_span = span_from_to (tk_span k) e\<rparr>"
      by (auto simp: parse_filter_def obind_Ok_iff)
    from filter_loop_sound [OF steps(3)] obtain us where us: "qs = p # us" "e = pd_span (last (p # us))" "derived g_conjuncts ps2 us ps'"
      by auto
    from predicate_p.sound [OF steps(2)] us(3) show ?thesis
      using steps(1,4) us(1,2) g_filter.intros [of k _ p _ us]
      by (elim derivedE) (auto simp: expect_keyword_Ok intro!: derivedI)
  qed
  show "parse_filter ps = Ok (x, skip (length ts) ps)" if "g_filter ts x" "ahead ps = ts @ t # rest" "\<not> is_keyword ''and'' t" for ts x ps t rest
    using that(1)
  proof cases
    case (1 k us p vs qs)
    have "parse_predicate (skip (Suc 0) ps) = Ok (p, skip (Suc (length us)) ps)"
      using predicate_p.complete [OF 1(4), of "skip (Suc 0) ps" "hd (vs @ t # rest)" "tl (vs @ t # rest)"] that(2) 1(1)
      by (simp add: any_token_def)
    moreover have "filter_loop [p] (pd_span p) (skip (Suc (length us)) ps) =
        Ok ((p # qs, pd_span (last (p # qs))), skip (Suc (length us + length vs)) ps)"
      using filter_loop_complete [OF 1(5), of "skip (Suc (length us)) ps" t rest "[p]" "pd_span p"] that(2,3) 1(1) by simp
    ultimately show ?thesis using that(2) 1(1-3) by (simp add: parse_filter_def stream_simps)
  qed
  show "parse_filter ps \<noteq> Panic" if "fed ps" for ps
    using that
    by (auto simp: parse_filter_def obind_Panic_iff no_panics predicate_p.no_panic filter_loop_no_panic expect_keyword_Ok
        dest!: predicate_p.keeps_fed)
qed (simp add: is_keyword_def)

section \<open>Optional clauses\<close>

locale clause = production p G follow for p :: "parser \<Rightarrow> 'a parse_result" and G follow +
  fixes kw :: string
  assumes starts: "G ts x \<Longrightarrow> ts \<noteq> [] \<and> is_keyword kw (hd ts)"

sublocale clause \<subseteq> opt: production "parse_optional kw p" "g_optional G" "\<lambda>t. follow t \<and> \<not> is_keyword kw t"
proof
  show "derived (g_optional G) ps x ps'" if "parse_optional kw p ps = Ok (x, ps')" for ps x ps'
    using that
    by (auto simp: parse_optional_def obind_Ok_iff split: if_splits dest!: sound
        intro: derived_empty derived_mono g_optional.intros)
  show "parse_optional kw p ps = Ok (x, skip (length ts) ps)"
    if "g_optional G ts x" "ahead ps = ts @ t # rest" "follow t \<and> \<not> is_keyword kw t" for ts x ps t rest
    using that(1)
  proof cases
    case 1
    then show ?thesis using that by (simp add: parse_optional_def stream_simps)
  next
    case (2 y)
    then show ?thesis using that complete [of ts y ps t rest] starts [of ts y] by (simp add: parse_optional_def stream_simps)
  qed
  show "parse_optional kw p ps \<noteq> Panic" if "fed ps" for ps
    using that by (auto simp: parse_optional_def obind_Panic_iff no_panics no_panic)
qed (simp add: eof_follows is_keyword_def)

interpretation where_c: clause parse_filter g_filter "\<lambda>t. \<not> is_keyword ''and'' t" "''where''"
  by unfold_locales (auto elim!: g_filter.cases)

interpretation within_c: clause parse_window g_window any_token "''within''"
  by unfold_locales (auto elim!: g_window.cases)

section \<open>Aggregations\<close>

lemma agg_func_sound:
  assumes "parse_agg_func ps = Ok (x, ps')" "peek ps = Ok k" "tk_kind k = Keyword"
  shows "derived (\<lambda>ts x. g_agg_func ts x \<and> hd ts = k) ps x ps'"
proof (cases "simple_agg_func (tk_value k)")
  case (Some func)
  then show ?thesis
    using assms by (auto simp: parse_agg_func_def obind_Ok_iff advance_Ok stream_simps intro!: derivedI g_agg_func.intros)
next
  case None
  then show ?thesis
    using assms
    by (auto simp: parse_agg_func_def parse_percentile_def obind_Ok_iff advance_Ok expect_Ok stream_simps parse_number_def ok_or_Ok_iff
        is_keyword_def split: if_splits intro!: derivedI g_agg_func.intros)
qed

lemma percentile_not_simple [simp]: "simple_agg_func ''percentile'' = None"
  by (simp add: simple_agg_func_def)

lemma agg_func_complete:
  "g_agg_func ts x \<Longrightarrow> ahead ps = ts @ rest \<Longrightarrow> parse_agg_func ps = Ok (x, skip (length ts) ps)"
  by (auto elim!: g_agg_func.cases simp: parse_agg_func_def parse_percentile_def stream_simps parse_number_def is_keyword_def)

lemma agg_func_no_panic: "fed ps \<Longrightarrow> peek ps = Ok k \<Longrightarrow> tk_kind k \<noteq> Eof \<Longrightarrow> parse_agg_func ps \<noteq> Panic"
  using peek_fed [of ps]
  by (auto simp: parse_agg_func_def parse_percentile_def obind_Panic_iff no_panics advance_Ok expect_Ok split: option.splits if_splits)

lemma g_agg_func_keyword: "g_agg_func ts x \<Longrightarrow> ts \<noteq> [] \<and> tk_kind (hd ts) = Keyword"
  by (auto elim!: g_agg_func.cases simp: is_keyword_def)

definition after_aggregation :: "token \<Rightarrow> bool" where
  "after_aggregation t \<longleftrightarrow> \<not> is_keyword ''and'' t \<and> \<not> is_keyword ''where'' t \<and> \<not> is_keyword ''within'' t"

lemma optional_hd:
  "g_optional g_window ws wo \<Longrightarrow> \<exists>u us. ws @ t # rest = u # us \<and> (u = t \<or> is_keyword ''within'' u)"
  by (auto elim!: g_optional.cases g_window.cases)

interpretation aggregation_p: production parse_aggregation g_aggregation after_aggregation
proof
  show "derived g_aggregation ps x ps'" if "parse_aggregation ps = Ok (x, ps')" for ps x ps'
  proof -
    from that obtain k func pct ps1 a ps2 s ps3 b ps4 fo ps5 wo where k: "peek ps = Ok k" "tk_kind k = Keyword"
      and steps: "parse_agg_func ps = Ok ((func, pct), ps1)"
      "expect LParen (quoted ''('' @ '' after aggregation function'') ps1 = Ok (a, ps2)" "parse_source ps2 = Ok (s, ps3)"
      "expect RParen (quoted '')'' @ '' after aggregation source'') ps3 = Ok (b, ps4)"
      "parse_optional ''where'' parse_filter ps4 = Ok (fo, ps5)" "parse_optional ''within'' parse_window ps5 = Ok (wo, ps')"
      and x: "x = \<lparr>ag_func = func, ag_percentile = pct, ag_source = s, ag_filter = fo, ag_window = wo,
        ag_span = span_from_to (tk_span k)
          (case wo of Some w \<Rightarrow> wd_span w | None \<Rightarrow> (case fo of Some f \<Rightarrow> fl_span f | None \<Rightarrow> tk_span b))\<rparr>"
      by (auto simp: parse_aggregation_def obind_Ok_iff Let_def split: if_splits)
    obtain ts r where ts: "ahead ps = (k # ts) @ r" "ps1 = skip (length (k # ts)) ps" "g_agg_func (k # ts) (func, pct)"
      using agg_func_sound [OF steps(1) k]
      by (elim derivedE) (metis g_agg_func_keyword list.exhaust_sel)
    from source_p.sound [OF steps(3)] where_c.opt.sound [OF steps(5)] within_c.opt.sound [OF steps(6)] show ?thesis
      using steps(2,4) ts x g_aggregation.intros [OF ts(3), of a _ s b _ fo _ wo]
      by (elim derivedE) (auto simp: expect_Ok intro!: derivedI)
  qed
  show "parse_aggregation ps = Ok (x, skip (length ts) ps)"
    if "g_aggregation ts x" "ahead ps = ts @ t # rest" "after_aggregation t" for ts x ps t rest
    using that(1)
  proof cases
    case (1 k us func pct a vs s b ws fo zs wo e)
    let ?n = "length us" and ?m = "length vs"
    obtain u us' where u: "zs @ t # rest = u # us'" "u = t \<or> is_keyword ''within'' u" using optional_hd [OF 1(8)] by blast
    have "parse_agg_func ps = Ok ((func, pct), skip (Suc ?n) ps)"
      using agg_func_complete [OF 1(3), of ps] that(2) 1(1) by simp
    moreover have "parse_source (skip (Suc (Suc ?n)) ps) = Ok (s, skip (Suc (Suc (?n + ?m))) ps)"
      using source_p.complete [OF 1(5), of "skip (Suc (Suc ?n)) ps" b "ws @ zs @ t # rest"] that(2) 1(1,6) by simp
    moreover have "parse_optional ''where'' parse_filter (skip (Suc (Suc (Suc (?n + ?m)))) ps) = Ok (fo, skip (Suc (Suc (Suc (?n + ?m + length ws)))) ps)"
      using where_c.opt.complete [OF 1(7), of "skip (Suc (Suc (Suc (?n + ?m)))) ps" u us'] that(2,3) 1(1) u
      by (auto simp: after_aggregation_def is_keyword_def)
    moreover have "parse_optional ''within'' parse_window (skip (Suc (Suc (Suc (?n + ?m + length ws)))) ps) =
        Ok (wo, skip (Suc (Suc (Suc (?n + ?m + length ws + length zs)))) ps)"
      using within_c.opt.complete [OF 1(8), of "skip (Suc (Suc (Suc (?n + ?m + length ws)))) ps" t rest] that(2,3) 1(1)
      by (simp add: after_aggregation_def any_token_def)
    ultimately show ?thesis
      using that(2) 1(1,2,4,6,9) g_agg_func_keyword [OF 1(3)]
      by (simp add: parse_aggregation_def stream_simps Let_def add.assoc)
  qed
  show "parse_aggregation ps \<noteq> Panic" if fd: "fed ps" for ps
  proof
    assume panic: "parse_aggregation ps = Panic"
    obtain k where k: "peek ps = Ok k" using peek_fed [OF fd] by blast
    with panic have kw: "tk_kind k = Keyword" by (auto simp: parse_aggregation_def split: if_splits)
    have af: "fed ps1 = fed ps" if "parse_agg_func ps = Ok (x, ps1)" for x ps1
      using agg_func_sound [OF that k kw] by (auto elim!: derivedE)
    show False
      using panic k kw fd agg_func_no_panic [OF fd k]
      by (auto simp: parse_aggregation_def obind_Panic_iff no_panics source_p.no_panic where_c.opt.no_panic within_c.opt.no_panic
          expect_Ok Let_def dest!: af source_p.keeps_fed where_c.opt.keeps_fed within_c.opt.keeps_fed)
  qed
qed (simp add: after_aggregation_def is_keyword_def)

section \<open>Arithmetic expressions\<close>

lemma composite_op:
  assumes "g_composite ts0 l" "g_term us r" "tk_kind t = Plus \<or> tk_kind t = Minus"
  shows "g_composite (ts0 @ t # us) (Composite (if tk_kind t = Plus then Add else Sub) l r (span_from_to (node_span l) (node_span r)))"
  using assms by (auto intro: composite_add composite_sub)

lemma term_op:
  assumes "g_term ts0 l" "g_unary us r" "tk_kind t = Star \<or> tk_kind t = Slash"
  shows "g_term (ts0 @ t # us) (Composite (if tk_kind t = Star then Mul else Div) l r (span_from_to (node_span l) (node_span r)))"
  using assms by (auto intro: term_mul term_div)

lemma expression_sound:
  shows "parse_composite ps = Ok (n, ps') \<Longrightarrow> derived g_composite ps n ps'"
    and "composite_loop left ps = Ok (n, ps') \<Longrightarrow> g_composite ts0 left \<Longrightarrow> derived (\<lambda>ts. g_composite (ts0 @ ts)) ps n ps'"
    and "parse_term ps = Ok (n, ps') \<Longrightarrow> derived g_term ps n ps'"
    and "term_loop left ps = Ok (n, ps') \<Longrightarrow> g_term ts0 left \<Longrightarrow> derived (\<lambda>ts. g_term (ts0 @ ts)) ps n ps'"
    and "parse_unary ps = Ok (n, ps') \<Longrightarrow> derived g_unary ps n ps'"
    and "parse_factor ps = Ok (n, ps') \<Longrightarrow> derived g_factor ps n ps'"
proof (induction ps and left ps and ps and left ps and ps and ps
    arbitrary: n ps' and n ps' ts0 and n ps' and n ps' ts0 and n ps' and n ps'
    rule: parse_composite_composite_loop_parse_term_term_loop_parse_unary_parse_factor.induct)
  case (1 ps)
  from "1.prems" obtain l ps1 where steps: "parse_term ps = Ok (l, ps1)" "composite_loop l ps1 = Ok (n, ps')"
    by (auto simp: parse_composite.simps [of ps] obind_Ok_iff)
  from "1.IH"(1) [OF steps(1)] obtain ts r where ts: "ahead ps = ts @ r" "ps1 = skip (length ts) ps" "g_term ts l" by (rule derivedE)
  from "1.IH"(2) [OF steps(1) refl steps(2) composite_term [OF ts(3)]] ts(1,2) show ?case
    by (elim derivedE) (auto intro!: derivedI)
next
  case (2 left ps)
  note run = "2.prems"(1) [unfolded composite_loop.simps [of left ps]]
  from run obtain t where t: "peek ps = Ok t" by (auto simp: obind_Ok_iff)
  show ?case
  proof (cases "tk_kind t \<noteq> Plus \<and> tk_kind t \<noteq> Minus")
    case True
    with run t "2.prems"(2) show ?thesis by (auto intro: derived_empty)
  next
    case False
    with run t obtain x ps1 r ps2 where steps: "advance ps = Ok (x, ps1)" "parse_term ps1 = Ok (r, ps2)"
      "composite_loop (Composite (if tk_kind t = Plus then Add else Sub) left r (span_from_to (node_span left) (node_span r))) ps2 = Ok (n, ps')"
      by (auto simp: obind_Ok_iff split: if_splits)
    have x: "x = t" using steps(1) t by (auto simp: advance_Ok stream_simps)
    from "2.IH"(1) [OF t False steps(1) refl steps(2)] obtain us w where
      us: "ahead ps1 = us @ w" "ps2 = skip (length us) ps1" "g_term us r" by (rule derivedE)
    have "g_composite (ts0 @ t # us) (Composite (if tk_kind t = Plus then Add else Sub) left r (span_from_to (node_span left) (node_span r)))"
      using composite_op "2.prems"(2) us(3) False by blast
    from "2.IH"(2) [OF t False steps(1) refl steps(2) refl steps(3) this] us(1,2) steps(1) x show ?thesis
      by (elim derivedE) (auto simp: advance_Ok intro!: derivedI)
  qed
next
  case (3 ps)
  from "3.prems" obtain l ps1 where steps: "parse_unary ps = Ok (l, ps1)" "term_loop l ps1 = Ok (n, ps')"
    by (auto simp: parse_term.simps [of ps] obind_Ok_iff)
  from "3.IH"(1) [OF steps(1)] obtain ts r where ts: "ahead ps = ts @ r" "ps1 = skip (length ts) ps" "g_unary ts l" by (rule derivedE)
  from "3.IH"(2) [OF steps(1) refl steps(2) term_unary [OF ts(3)]] ts(1,2) show ?case
    by (elim derivedE) (auto intro!: derivedI)
next
  case (4 left ps)
  note run = "4.prems"(1) [unfolded term_loop.simps [of left ps]]
  from run obtain t where t: "peek ps = Ok t" by (auto simp: obind_Ok_iff)
  show ?case
  proof (cases "tk_kind t \<noteq> Star \<and> tk_kind t \<noteq> Slash")
    case True
    with run t "4.prems"(2) show ?thesis by (auto intro: derived_empty)
  next
    case False
    with run t obtain x ps1 r ps2 where steps: "advance ps = Ok (x, ps1)" "parse_unary ps1 = Ok (r, ps2)"
      "term_loop (Composite (if tk_kind t = Star then Mul else Div) left r (span_from_to (node_span left) (node_span r))) ps2 = Ok (n, ps')"
      by (auto simp: obind_Ok_iff split: if_splits)
    have x: "x = t" using steps(1) t by (auto simp: advance_Ok stream_simps)
    from "4.IH"(1) [OF t False steps(1) refl steps(2)] obtain us w where
      us: "ahead ps1 = us @ w" "ps2 = skip (length us) ps1" "g_unary us r" by (rule derivedE)
    have "g_term (ts0 @ t # us) (Composite (if tk_kind t = Star then Mul else Div) left r (span_from_to (node_span left) (node_span r)))"
      using term_op "4.prems"(2) us(3) False by blast
    from "4.IH"(2) [OF t False steps(1) refl steps(2) refl steps(3) this] us(1,2) steps(1) x show ?thesis
      by (elim derivedE) (auto simp: advance_Ok intro!: derivedI)
  qed
next
  case (5 ps)
  note run = "5.prems" [unfolded parse_unary.simps [of ps]]
  from run obtain t where t: "peek ps = Ok t" by (auto simp: obind_Ok_iff)
  show ?case
  proof (cases "tk_kind t = Minus")
    case True
    with run t obtain x ps1 r where steps: "advance ps = Ok (x, ps1)" "parse_factor ps1 = Ok (r, ps')"
      "n = Negate r (span_from_to (tk_span x) (node_span r))"
      by (auto simp: obind_Ok_iff)
    have "tk_kind x = Minus" using steps(1) t True by (auto simp: advance_Ok stream_simps)
    with "5.IH"(1) [OF t True steps(1) refl steps(2)] steps(1,3) show ?thesis
      by (elim derivedE) (auto simp: advance_Ok intro!: derivedI unary_minus)
  next
    case False
    with run t "5.IH"(2) [OF t False] show ?thesis by (auto intro: derived_mono unary_factor)
  qed
next
  case (6 ps)
  note run = "6.prems" [unfolded parse_factor.simps [of ps]]
  from run obtain t where t: "peek ps = Ok t" by (auto simp: obind_Ok_iff)
  show ?case
  proof (cases "tk_kind t = LParen")
    case True
    with run t obtain x ps1 r ps2 b where steps: "advance ps = Ok (x, ps1)" "parse_composite ps1 = Ok (r, ps2)"
      "expect RParen (quoted '')'' @ '' to close parenthesized expression'') ps2 = Ok (b, ps')"
      "n = restamp_span r (span_from_to (tk_span x) (tk_span b))"
      by (auto simp: obind_Ok_iff)
    have x: "tk_kind x = LParen" using steps(1) t True by (auto simp: advance_Ok stream_simps)
    from "6.IH" [OF t _ _ True steps(1) refl steps(2)] True have "derived g_composite ps1 r ps2" by simp
    then show ?thesis
      using steps(1,3,4) x factor_paren [of x _ r b] by (elim derivedE) (auto simp: advance_Ok expect_Ok intro!: derivedI)
  next
    case False
    with run t show ?thesis
      by (auto simp: obind_Ok_iff advance_Ok stream_simps parse_number_def ok_or_Ok_iff split: if_splits
          dest!: metric_ref_p.sound ratio_p.sound intro: derived_mono factor_ref factor_ratio intro!: derivedI factor_number)
  qed
qed

lemma factor_start: "g_factor ts n \<Longrightarrow> ts \<noteq> [] \<and> tk_kind (hd ts) \<in> {At, Number, LParen, Keyword}"
  by (auto elim!: g_factor.cases g_metric_ref.cases g_ratio.cases simp: is_keyword_def)

lemma expression_complete:
  shows "g_composite ts n \<Longrightarrow> \<forall>ps t rest. ahead ps = ts @ t # rest \<longrightarrow> tk_kind t \<noteq> Star \<longrightarrow> tk_kind t \<noteq> Slash \<longrightarrow>
      parse_composite ps = composite_loop n (skip (length ts) ps)"
    and "g_term ts n \<Longrightarrow> \<forall>ps t rest. ahead ps = ts @ t # rest \<longrightarrow> parse_term ps = term_loop n (skip (length ts) ps)"
    and "g_unary ts n \<Longrightarrow> \<forall>ps t rest. ahead ps = ts @ t # rest \<longrightarrow> parse_unary ps = Ok (n, skip (length ts) ps)"
    and "g_factor ts n \<Longrightarrow> \<forall>ps t rest. ahead ps = ts @ t # rest \<longrightarrow> parse_factor ps = Ok (n, skip (length ts) ps)"
proof (induction rule: g_composite_g_term_g_unary_g_factor.inducts)
  case (composite_term ts n)
  then show ?case by (auto simp: parse_composite.simps term_loop.simps stream_simps)
next
  case (composite_add ts l t us r)
  then show ?case
    by (auto simp: composite_loop.simps [of l] term_loop.simps [of r] stream_simps)
next
  case (composite_sub ts l t us r)
  then show ?case
    by (auto simp: composite_loop.simps [of l] term_loop.simps [of r] stream_simps)
next
  case (term_unary ts n)
  then show ?case by (auto simp: parse_term.simps)
next
  case (term_mul ts l t us r)
  then show ?case by (auto simp: term_loop.simps [of l] stream_simps)
next
  case (term_div ts l t us r)
  then show ?case by (auto simp: term_loop.simps [of l] stream_simps)
next
  case (unary_factor ts n)
  then show ?case using factor_start [of ts n] by (auto simp: parse_unary.simps stream_simps hd_append)
next
  case (unary_minus t ts n)
  then show ?case by (auto simp: parse_unary.simps stream_simps)
next
  case (factor_ref ts m)
  then show ?case
    by (auto simp: parse_factor.simps stream_simps metric_ref_p.complete any_token_def elim!: g_metric_ref.cases)
next
  case (factor_number t x)
  then show ?case by (auto simp: parse_factor.simps stream_simps parse_number_def)
next
  case (factor_paren a ts n b)
  then show ?case by (auto simp: parse_factor.simps composite_loop.simps [of n] stream_simps)
next
  case (factor_ratio ts r)
  then show ?case
    by (auto simp: parse_factor.simps stream_simps ratio_p.complete any_token_def is_keyword_def elim!: g_ratio.cases)
qed

lemma fed_results:
  shows "parse_composite ps = Ok (n, ps') \<Longrightarrow> fed ps' = fed ps"
    and "parse_term ps = Ok (n, ps') \<Longrightarrow> fed ps' = fed ps"
    and "parse_unary ps = Ok (n, ps') \<Longrightarrow> fed ps' = fed ps"
  by (auto dest!: expression_sound(1,3,5) elim!: derivedE)

lemma expression_no_panic:
  shows "fed ps \<Longrightarrow> parse_composite ps \<noteq> Panic"
    and "fed ps \<Longrightarrow> composite_loop left ps \<noteq> Panic"
    and "fed ps \<Longrightarrow> parse_term ps \<noteq> Panic"
    and "fed ps \<Longrightarrow> term_loop left ps \<noteq> Panic"
    and "fed ps \<Longrightarrow> parse_unary ps \<noteq> Panic"
    and "fed ps \<Longrightarrow> parse_factor ps \<noteq> Panic"
proof (induction ps and left ps and ps and left ps and ps and ps
    rule: parse_composite_composite_loop_parse_term_term_loop_parse_unary_parse_factor.induct)
  case (1 ps)
  have "composite_loop l ps1 \<noteq> Panic" if "parse_term ps = Ok (l, ps1)" for l ps1
    using "1.IH"(2) [OF that refl] fed_results(2) [OF that] "1.prems" by simp
  with "1.IH"(1) "1.prems" show ?case by (auto simp: parse_composite.simps [of ps] obind_Panic_iff)
next
  case (2 left ps)
  from peek_fed [OF "2.prems"] obtain t where t: "peek ps = Ok t" "tk_kind t = Eof \<or> (\<exists>r. ahead ps = t # r)" by blast
  show ?case
  proof (cases "tk_kind t \<noteq> Plus \<and> tk_kind t \<noteq> Minus")
    case True
    with t show ?thesis by (simp add: composite_loop.simps [of left ps])
  next
    case False
    with t have adv: "advance ps = Ok (t, skip (Suc 0) ps)" by (auto simp: advance_Ok)
    have "parse_term (skip (Suc 0) ps) \<noteq> Panic" using "2.IH"(1) [OF t(1) False adv refl] "2.prems" by simp
    moreover have "composite_loop (Composite (if tk_kind t = Plus then Add else Sub) left r (span_from_to (node_span left) (node_span r))) ps2 \<noteq> Panic"
      if "parse_term (skip (Suc 0) ps) = Ok (r, ps2)" for r ps2
      using "2.IH"(2) [OF t(1) False adv refl that refl] fed_results(2) [OF that] "2.prems" by simp
    ultimately show ?thesis using t(1) False adv by (auto simp: composite_loop.simps [of left ps] obind_Panic_iff split: if_splits)
  qed
next
  case (3 ps)
  have "term_loop l ps1 \<noteq> Panic" if "parse_unary ps = Ok (l, ps1)" for l ps1
    using "3.IH"(2) [OF that refl] fed_results(3) [OF that] "3.prems" by simp
  with "3.IH"(1) "3.prems" show ?case by (auto simp: parse_term.simps [of ps] obind_Panic_iff)
next
  case (4 left ps)
  from peek_fed [OF "4.prems"] obtain t where t: "peek ps = Ok t" "tk_kind t = Eof \<or> (\<exists>r. ahead ps = t # r)" by blast
  show ?case
  proof (cases "tk_kind t \<noteq> Star \<and> tk_kind t \<noteq> Slash")
    case True
    with t show ?thesis by (simp add: term_loop.simps [of left ps])
  next
    case False
    with t have adv: "advance ps = Ok (t, skip (Suc 0) ps)" by (auto simp: advance_Ok)
    have "parse_unary (skip (Suc 0) ps) \<noteq> Panic" using "4.IH"(1) [OF t(1) False adv refl] "4.prems" by simp
    moreover have "term_loop (Composite (if tk_kind t = Star then Mul else Div) left r (span_from_to (node_span left) (node_span r))) ps2 \<noteq> Panic"
      if "parse_unary (skip (Suc 0) ps) = Ok (r, ps2)" for r ps2
      using "4.IH"(2) [OF t(1) False adv refl that refl] fed_results(3) [OF that] "4.prems" by simp
    ultimately show ?thesis using t(1) False adv by (auto simp: term_loop.simps [of left ps] obind_Panic_iff split: if_splits)
  qed
next
  case (5 ps)
  from peek_fed [OF "5.prems"] obtain t where t: "peek ps = Ok t" "tk_kind t = Eof \<or> (\<exists>r. ahead ps = t # r)" by blast
  show ?case
  proof (cases "tk_kind t = Minus")
    case True
    with t have adv: "advance ps = Ok (t, skip (Suc 0) ps)" by (auto simp: advance_Ok)
    show ?thesis using "5.IH"(1) [OF t(1) True adv refl] "5.prems" t(1) True adv by (auto simp: parse_unary.simps [of ps] obind_Panic_iff)
  next
    case False
    show ?thesis using "5.IH"(2) [OF t(1) False "5.prems"] t(1) False by (simp add: parse_unary.simps [of ps])
  qed
next
  case (6 ps)
  from peek_fed [OF "6.prems"] obtain t where t: "peek ps = Ok t" "tk_kind t = Eof \<or> (\<exists>r. ahead ps = t # r)" by blast
  show ?case
  proof (cases "tk_kind t = LParen")
    case True
    with t have adv: "advance ps = Ok (t, skip (Suc 0) ps)" by (auto simp: advance_Ok)
    have "parse_composite (skip (Suc 0) ps) \<noteq> Panic" using "6.IH" [OF t(1) _ _ True adv refl] True "6.prems" by simp
    then show ?thesis
      using t(1) True adv "6.prems" by (auto simp: parse_factor.simps [of ps] obind_Panic_iff no_panics dest!: fed_results)
  next
    case False
    then show ?thesis
      using t "6.prems" by (auto simp: parse_factor.simps [of ps] obind_Panic_iff no_panics metric_ref_p.no_panic ratio_p.no_panic split: if_splits)
  qed
qed

definition after_composite :: "token \<Rightarrow> bool" where
  "after_composite t \<longleftrightarrow> tk_kind t \<notin> {Plus, Minus, Star, Slash}"

interpretation composite_p: production parse_composite g_composite after_composite
proof
  show "derived g_composite ps x ps'" if "parse_composite ps = Ok (x, ps')" for ps x ps'
    using that by (rule expression_sound)
  show "parse_composite ps = Ok (x, skip (length ts) ps)" if "g_composite ts x" "ahead ps = ts @ t # rest" "after_composite t" for ts x ps t rest
    using that expression_complete(1) [OF that(1)] by (auto simp: after_composite_def composite_loop.simps [of x] stream_simps)
  show "parse_composite ps \<noteq> Panic" if "fed ps" for ps
    using that by (rule expression_no_panic)
qed (simp add: after_composite_def)

lemma aggregation_start:
  "g_aggregation ts a \<Longrightarrow> ts \<noteq> [] \<and> tk_kind (hd ts) = Keyword \<and>
     tk_value (hd ts) \<in> {''mean'', ''sum'', ''count'', ''count_distinct'', ''proportion'', ''percentile''}"
  by (auto elim!: g_aggregation.cases g_agg_func.cases simp: is_keyword_def simple_agg_func_def split: if_splits)

lemma composite_start:
  shows "g_composite ts n \<Longrightarrow> ts \<noteq> [] \<and> (tk_kind (hd ts) \<in> {At, LParen, Number, Minus} \<or> is_keyword ''ratio'' (hd ts))"
    and "g_term ts n \<Longrightarrow> ts \<noteq> [] \<and> (tk_kind (hd ts) \<in> {At, LParen, Number, Minus} \<or> is_keyword ''ratio'' (hd ts))"
    and "g_unary ts n \<Longrightarrow> ts \<noteq> [] \<and> (tk_kind (hd ts) \<in> {At, LParen, Number, Minus} \<or> is_keyword ''ratio'' (hd ts))"
    and "g_factor ts n \<Longrightarrow> ts \<noteq> [] \<and> (tk_kind (hd ts) \<in> {At, LParen, Number, Minus} \<or> is_keyword ''ratio'' (hd ts))"
  by (induction rule: g_composite_g_term_g_unary_g_factor.inducts)
    (auto simp: hd_append elim!: g_metric_ref.cases g_ratio.cases)

interpretation expression_p: production parse_expression g_expression "\<lambda>t. after_aggregation t \<and> after_composite t"
proof
  show "derived g_expression ps x ps'" if "parse_expression ps = Ok (x, ps')" for ps x ps'
    using that
    by (auto simp: parse_expression_def obind_Ok_iff split: if_splits dest!: aggregation_p.sound composite_p.sound
        intro: derived_mono g_expression.intros)
  show "parse_expression ps = Ok (x, skip (length ts) ps)"
    if "g_expression ts x" "ahead ps = ts @ t # rest" "after_aggregation t \<and> after_composite t" for ts x ps t rest
    using that(1)
  proof cases
    case (1 a)
    then show ?thesis
      using that aggregation_p.complete [of ts a ps t rest] aggregation_start [of ts a]
      by (auto simp: parse_expression_def stream_simps)
  next
    case 2
    then show ?thesis
      using that composite_p.complete [of ts x ps t rest] composite_start(1) [of ts x]
      by (auto simp: parse_expression_def stream_simps is_keyword_def)
  qed
  show "parse_expression ps \<noteq> Panic" if "fed ps" for ps
    using that by (auto simp: parse_expression_def obind_Panic_iff no_panics aggregation_p.no_panic composite_p.no_panic split: if_splits)
qed (simp add: after_aggregation_def after_composite_def is_keyword_def)

section \<open>Sentences contain no end-of-file token\<close>

lemma value_no_eof:
  shows "g_value ts v \<Longrightarrow> \<forall>t \<in> set ts. tk_kind t \<noteq> Eof"
    and "g_items ts vs \<Longrightarrow> \<forall>t \<in> set ts. tk_kind t \<noteq> Eof"
  by (induction rule: g_value_g_items.inducts) auto

lemma predicate_no_eof: "g_predicate ts p \<Longrightarrow> \<forall>t \<in> set ts. tk_kind t \<noteq> Eof"
  by (auto elim!: g_predicate.cases g_field_ref.cases g_operator.cases dest!: value_no_eof operator_not_eof)

lemma conjuncts_no_eof: "g_conjuncts ts ps \<Longrightarrow> \<forall>t \<in> set ts. tk_kind t \<noteq> Eof"
  by (induction rule: g_conjuncts.induct) (auto simp: is_keyword_def dest: predicate_no_eof)

lemma filter_no_eof: "g_filter ts f \<Longrightarrow> \<forall>t \<in> set ts. tk_kind t \<noteq> Eof"
  by (auto elim!: g_filter.cases simp: is_keyword_def dest!: predicate_no_eof conjuncts_no_eof)

lemma aggregation_no_eof:
  assumes "g_aggregation ts a"
  shows "\<forall>t \<in> set ts. tk_kind t \<noteq> Eof"
  using assms
proof cases
  case (1 k us func pct a vs s b ws fo zs wo e)
  have "\<forall>t \<in> set (k # us). tk_kind t \<noteq> Eof" using 1(3) by cases (auto simp: is_keyword_def)
  moreover have "\<forall>t \<in> set vs. tk_kind t \<noteq> Eof" using 1(5) by cases auto
  moreover have "\<forall>t \<in> set ws. tk_kind t \<noteq> Eof" using 1(7) by cases (auto dest: filter_no_eof)
  moreover have "\<forall>t \<in> set zs. tk_kind t \<noteq> Eof" using 1(8) by cases (auto elim!: g_window.cases simp: is_keyword_def)
  ultimately show ?thesis using 1(1,4,6) by auto
qed

lemma composite_no_eof:
  shows "g_composite ts n \<Longrightarrow> \<forall>t \<in> set ts. tk_kind t \<noteq> Eof"
    and "g_term ts n \<Longrightarrow> \<forall>t \<in> set ts. tk_kind t \<noteq> Eof"
    and "g_unary ts n \<Longrightarrow> \<forall>t \<in> set ts. tk_kind t \<noteq> Eof"
    and "g_factor ts n \<Longrightarrow> \<forall>t \<in> set ts. tk_kind t \<noteq> Eof"
  by (induction rule: g_composite_g_term_g_unary_g_factor.inducts)
    (auto elim!: g_metric_ref.cases g_ratio.cases simp: is_keyword_def)

lemma expression_no_eof: "g_expression ts n \<Longrightarrow> \<forall>t \<in> set ts. tk_kind t \<noteq> Eof"
  by (auto elim!: g_expression.cases dest: aggregation_no_eof composite_no_eof)

section \<open>Properties\<close>

lemma ahead_new [simp]: "ahead (parser_new ts) = ts"
  by (simp add: ahead_def parser_new_def)

lemma parse_tokens_iff:
  assumes "tk_kind e = Eof" "\<forall>t \<in> set body. tk_kind t \<noteq> Eof"
  shows "parse_tokens (body @ [e]) = Ok n \<longleftrightarrow> g_expression body n"
proof
  assume "parse_tokens (body @ [e]) = Ok n"
  then obtain ps' t where run: "parse_expression (parser_new (body @ [e])) = Ok (n, ps')" and t: "peek ps' = Ok t" "tk_kind t = Eof"
    by (auto simp: parse_tokens_def obind_Ok_iff split: if_splits)
  from expression_p.sound [OF run] obtain us rest where
    us: "body @ [e] = us @ rest" "ps' = skip (length us) (parser_new (body @ [e]))" "g_expression us n"
    by (auto elim!: derivedE)
  have "rest \<noteq> []" using us(1,3) expression_no_eof assms(1) by fastforce
  moreover have "ahead ps' = rest" using us(1,2) by simp
  ultimately have "tk_kind (hd rest) = Eof" using t by (simp add: stream_simps)
  then have "rest = [e]" using us(1) assms(2) \<open>rest \<noteq> []\<close> by (cases rest rule: rev_cases) (auto simp: hd_append split: if_splits)
  then show "g_expression body n" using us by simp
next
  assume g: "g_expression body n"
  have "parse_expression (parser_new (body @ [e])) = Ok (n, skip (length body) (parser_new (body @ [e])))"
    using expression_p.complete [OF g, of "parser_new (body @ [e])" e "[]"] expression_p.eof_follows [OF assms(1)] by simp
  then show "parse_tokens (body @ [e]) = Ok n" using assms(1) by (simp add: parse_tokens_def stream_simps)
qed

lemma parse_eq: "parse source = obind (from_lex_error (tokenize source)) parse_tokens"
  by (simp add: parse_def parse_tokens_def [abs_def])

text \<open>
  C17: The parser accepts exactly the documented grammar: if the source lexes, parsing succeeds with a tree if and only if the grammar derives that tree from the tokens before the end-of-file token.
\<close>

theorem parser_accepts_exactly_grammar:
  assumes "tokenize source = Ok ts"
  shows "parse source = Ok n \<longleftrightarrow> g_expression (butlast ts) n"
proof -
  from assms obtain body where ts: "ts = body @ [eof_token (length source)]" and ok: "\<forall>t \<in> set body. token_ok t \<and> tk_kind t \<noteq> Eof"
    by (rule tokenize_Ok)
  then show ?thesis
    using parse_tokens_iff [of "eof_token (length source)" body n] assms by (simp add: parse_eq eof_token_def)
qed

text \<open>The grammar is unambiguous: a token list has at most one tree.\<close>

lemma grammar_unambiguous:
  assumes "g_expression ts m" "g_expression ts n"
  shows "m = n"
  using assms by (rule expression_p.unambiguous)

lemma parse_tokens_answers:
  assumes "tk_kind e = Eof"
  shows "parse_tokens (ts @ [e]) \<noteq> Panic"
proof -
  have fed: "fed (parser_new (ts @ [e]))" using assms by (simp add: fed_def parser_new_def)
  show ?thesis
    using expression_p.no_panic [OF fed] fed
    by (auto simp: parse_tokens_def obind_Panic_iff no_panics split: if_splits dest!: expression_p.keeps_fed)
qed

lemma parse_answers:
  assumes "valid_utf8 source"
  shows "(\<exists>n. parse source = Ok n) \<or> (\<exists>e. parse source = Err e)"
proof (cases "tokenize source")
  case (Ok ts)
  from Ok obtain body where "ts = body @ [eof_token (length source)]" by (rule tokenize_Ok)
  then have "parse_tokens ts \<noteq> Panic" using parse_tokens_answers [of "eof_token (length source)" body] by (simp add: eof_token_def)
  then show ?thesis using Ok by (cases "parse_tokens ts") (simp_all add: parse_eq)
next
  case (Err e)
  then show ?thesis by (simp add: parse_eq)
next
  case Panic
  then show ?thesis using tokenize_panic_free [OF assms] by simp
qed

text \<open>
  C18: Parsing any well-formed UTF-8 source ends with a tree or an error value: neither the lexer nor, on the
  tokens the lexer makes of it, the parser panics. By itself the parser answers every token vector that ends with
  the end-of-file token, whatever comes before it, and panics on the empty one. The depth of the call stack is
  not modelled: the descent is bounded here by the length of the source only.
\<close>

theorem parse_total:
  assumes "valid_utf8 source"
  shows "((\<exists>n. parse source = Ok n) \<or> (\<exists>e. parse source = Err e)) \<and>
    (tk_kind t = Eof \<longrightarrow> (\<exists>n. parse_tokens (ts @ [t]) = Ok n) \<or> (\<exists>e. parse_tokens (ts @ [t]) = Err e)) \<and>
    parse_tokens [] = Panic"
proof (intro conjI impI)
  show "(\<exists>n. parse source = Ok n) \<or> (\<exists>e. parse source = Err e)" using assms by (rule parse_answers)
  show "(\<exists>n. parse_tokens (ts @ [t]) = Ok n) \<or> (\<exists>e. parse_tokens (ts @ [t]) = Err e)" if "tk_kind t = Eof"
    using parse_tokens_answers [OF that, of ts] by (cases "parse_tokens (ts @ [t])") simp_all
  show "parse_tokens [] = Panic" by code_simp
qed

section \<open>Witnesses\<close>

definition sample_tree :: node where
  "sample_tree = Negate (MetricRef \<lparr>mr_id = ''a'', mr_span = Span 1 3\<rparr>) (Span 0 3)"

lemma sample_parse: "parse ''-@a'' = Ok sample_tree"
  by code_simp

theorem parser_accepts_exactly_grammar_witness:
  "parse ''-@a'' = Ok sample_tree \<longleftrightarrow> g_expression (butlast sample_token_list) sample_tree"
  by (rule parser_accepts_exactly_grammar) (rule sample_tokens)

theorem parse_total_witness: "(\<exists>n. parse ''(1'' = Ok n) \<or> (\<exists>e. parse ''(1'' = Err e)"
  by (rule parse_total [of _ "eof_token 0" "[]", THEN conjunct1]) code_simp

end
