(* ===== verification/Metricql_Trees.thy ===== *)
theory Metricql_Trees
  imports Metricql_Grammar
begin

text \<open>
  What the syntax trees of the MetricQL parser look like: by induction over the grammar, every tree
  is well-formed (ranges of percentiles and windows, identifiers, non-empty lists) and its spans are
  exact and nested.
\<close>

section \<open>Well-formed trees\<close>

definition nonneg_number :: "f64 \<Rightarrow> bool" where
  "nonneg_number x \<longleftrightarrow> x = Inf False \<or> (\<exists>q. x = Fin q \<and> 0 \<le> q)"

fun wf_value :: "mvalue \<Rightarrow> bool" where
  "wf_value (MValue (VString s) sp) = (CHR 0x27 \<notin> set s)"
| "wf_value (MValue (VNumber x) sp) = nonneg_number x"
| "wf_value (MValue (VList vs) sp) = (vs \<noteq> [] \<and> (\<forall>v \<in> set vs. wf_value v))"

definition plain_ident :: "string \<Rightarrow> bool" where
  "plain_ident s \<longleftrightarrow> identifier_re s \<and> s \<notin> set reserved_keywords"

definition wf_predicate :: "mpredicate \<Rightarrow> bool" where
  "wf_predicate p \<longleftrightarrow> (fr_namespace (pd_field p) = [] \<or> plain_ident (fr_namespace (pd_field p))) \<and>
     plain_ident (fr_name (pd_field p)) \<and> wf_value (pd_value p)"

definition wf_aggregation :: "aggregation \<Rightarrow> bool" where
  "wf_aggregation a \<longleftrightarrow>
     ag_func a \<noteq> AggUnknown \<and>
     (if ag_func a = Percentile then \<exists>q. ag_percentile a = Fin q \<and> 0 < q \<and> q < 100 else ag_percentile a = Fin 0) \<and>
     plain_ident (sr_event_type (ag_source a)) \<and> (sr_field (ag_source a) = [] \<or> plain_ident (sr_field (ag_source a))) \<and>
     (\<forall>f. ag_filter a = Some f \<longrightarrow> fl_predicates f \<noteq> [] \<and> (\<forall>p \<in> set (fl_predicates f). wf_predicate p)) \<and>
     (\<forall>w. ag_window a = Some w \<longrightarrow> 0 < wd_n w)"

text \<open>Below the root there are no aggregations.\<close>

fun wf_arith :: "node \<Rightarrow> bool" where
  "wf_arith (Aggregation a) = False"
| "wf_arith (Composite op l r sp) = (op \<noteq> ArithUnknown \<and> wf_arith l \<and> wf_arith r)"
| "wf_arith (Negate n sp) = wf_arith n"
| "wf_arith (Ratio r) = (plain_ident (mr_id (rt_numerator r)) \<and> plain_ident (mr_id (rt_denominator r)))"
| "wf_arith (MetricRef m) = plain_ident (mr_id m)"
| "wf_arith (Literal x sp) = nonneg_number x"

definition wf_node :: "node \<Rightarrow> bool" where
  "wf_node n \<longleftrightarrow> (case n of Aggregation a \<Rightarrow> wf_aggregation a | _ \<Rightarrow> wf_arith n)"

text \<open>Every clause of the grammar keeps the trees well-formed when the tokens come from the lexer.\<close>

abbreviation lexer_tokens :: "token list \<Rightarrow> bool" where
  "lexer_tokens ts \<equiv> \<forall>t \<in> set ts. token_ok t"

lemma token_ident: "token_ok t \<Longrightarrow> tk_kind t = Ident \<Longrightarrow> plain_ident (tk_value t)"
  by (simp add: token_ok_def plain_ident_def)

lemma token_number: "token_ok t \<Longrightarrow> tk_kind t = Number \<Longrightarrow> parse_f64 (tk_value t) = Some x \<Longrightarrow> nonneg_number x"
  using number_text_parses [of "tk_value t"] by (auto simp: token_ok_def nonneg_number_def)

lemma token_string: "token_ok t \<Longrightarrow> tk_kind t = String \<Longrightarrow> CHR 0x27 \<notin> set (strip_quotes (tk_value t))"
  by (auto simp: token_ok_def strip_quotes_def)

lemma value_wf:
  shows "g_value ts v \<Longrightarrow> lexer_tokens ts \<Longrightarrow> wf_value v"
    and "g_items ts vs \<Longrightarrow> lexer_tokens ts \<Longrightarrow> vs \<noteq> [] \<and> (\<forall>v \<in> set vs. wf_value v)"
  by (induction rule: g_value_g_items.inducts) (auto intro: token_number dest: token_string)

lemma predicate_wf: "g_predicate ts p \<Longrightarrow> lexer_tokens ts \<Longrightarrow> wf_predicate p"
  by (auto elim!: g_predicate.cases g_field_ref.cases g_operator.cases simp: wf_predicate_def intro: token_ident value_wf(1))

lemma conjuncts_wf: "g_conjuncts ts ps \<Longrightarrow> lexer_tokens ts \<Longrightarrow> \<forall>p \<in> set ps. wf_predicate p"
  by (induction rule: g_conjuncts.induct) (auto intro: predicate_wf)

lemma filter_wf: "g_filter ts f \<Longrightarrow> lexer_tokens ts \<Longrightarrow> fl_predicates f \<noteq> [] \<and> (\<forall>p \<in> set (fl_predicates f). wf_predicate p)"
  by (auto elim!: g_filter.cases simp: ball_Un intro: predicate_wf dest!: conjuncts_wf)

text \<open>A positive integral \<^verbatim>\<open>f64\<close> is not truncated to zero; from \<open>2\<^sup>3\<^sup>2\<close> on the cast saturates.\<close>

lemma positive_to_u32:
  assumes "f64_eq x (f64_trunc x)" "\<not> f64_le x (Fin 0)" "nonneg_number x"
  shows "0 < f64_to_u32 x"
proof (cases x)
  case (Fin q)
  with assms have q: "0 < q" "q = of_int \<lfloor>q\<rfloor>" by (auto simp: f64_le_def nonneg_number_def split: if_splits)
  then have "1 \<le> \<lfloor>q\<rfloor>" by linarith
  moreover have "\<lfloor>q\<rfloor> < 2 ^ 32" if "q < 2 ^ 32" using that by (simp add: floor_less_iff)
  ultimately have "(of_int \<lfloor>q\<rfloor> :: u32) \<noteq> 0" if "q < 2 ^ 32"
    using that by (simp add: word_of_int_eq_0_iff dvd_imp_le_int zdvd_not_zless)
  then show ?thesis using Fin q by (auto simp: word_neq_0_conv [symmetric])
qed (use assms in \<open>auto simp: nonneg_number_def word_gt_0\<close>)

lemma window_wf: "g_window ts w \<Longrightarrow> lexer_tokens ts \<Longrightarrow> 0 < wd_n w"
  by (auto elim!: g_window.cases intro!: positive_to_u32 token_number)

lemma percentile_range:
  assumes "nonneg_number x" "\<not> f64_le x (Fin 0)" "\<not> f64_le (Fin 100) x"
  shows "\<exists>q. x = Fin q \<and> 0 < q \<and> q < 100"
  using assms by (auto simp: nonneg_number_def f64_le_def)

lemma agg_func_wf:
  "g_agg_func ts (func, pct) \<Longrightarrow> lexer_tokens ts \<Longrightarrow> func \<noteq> AggUnknown \<and>
     (if func = Percentile then \<exists>q. pct = Fin q \<and> 0 < q \<and> q < 100 else pct = Fin 0)"
  by (auto elim!: g_agg_func.cases simp: simple_agg_func_def split: if_splits intro!: percentile_range intro: token_number)

lemma aggregation_wf:
  assumes "g_aggregation ts a" "lexer_tokens ts"
  shows "wf_aggregation a"
  using assms(1)
proof cases
  case (1 k us func pct aa vs s b ws fo zs wo e)
  have src: "plain_ident (sr_event_type s)" "sr_field s = [] \<or> plain_ident (sr_field s)"
    using 1(5) assms(2) 1(1) by (auto elim!: g_source.cases intro: token_ident)
  have fil: "fl_predicates f \<noteq> [] \<and> (\<forall>p \<in> set (fl_predicates f). wf_predicate p)" if "fo = Some f" for f
    using 1(7) that assms(2) 1(1) filter_wf [of ws f] by (auto elim!: g_optional.cases)
  have win: "0 < wd_n w" if "wo = Some w" for w
    using 1(8) that assms(2) 1(1) window_wf [of zs w] by (auto elim!: g_optional.cases)
  show ?thesis
    using agg_func_wf [OF 1(3)] assms(2) 1(1,2) src fil win by (auto simp: wf_aggregation_def)
qed

lemma restamp_wf: "wf_arith (restamp_span n sp) = wf_arith n"
  by (cases n) auto

lemma composite_wf:
  shows "g_composite ts n \<Longrightarrow> lexer_tokens ts \<Longrightarrow> wf_arith n"
    and "g_term ts n \<Longrightarrow> lexer_tokens ts \<Longrightarrow> wf_arith n"
    and "g_unary ts n \<Longrightarrow> lexer_tokens ts \<Longrightarrow> wf_arith n"
    and "g_factor ts n \<Longrightarrow> lexer_tokens ts \<Longrightarrow> wf_arith n"
  by (induction rule: g_composite_g_term_g_unary_g_factor.inducts)
    (auto simp: restamp_wf elim!: g_metric_ref.cases g_ratio.cases intro: token_ident token_number)

lemma expression_wf: "g_expression ts n \<Longrightarrow> lexer_tokens ts \<Longrightarrow> wf_node n"
  by (erule g_expression.cases) (auto simp: wf_node_def aggregation_wf split: node.splits dest: composite_wf(1))

section \<open>Spans\<close>

text \<open>The span of a tree reaches from its first to its last token.\<close>

definition covers :: "token list \<Rightarrow> span \<Rightarrow> bool" where
  "covers ts sp \<longleftrightarrow> ts \<noteq> [] \<and> sp = Span (sp_start (tk_span (hd ts))) (sp_end (tk_span (last ts)))"

definition inside :: "span \<Rightarrow> span \<Rightarrow> bool" where
  "inside a b \<longleftrightarrow> sp_start b \<le> sp_start a \<and> sp_end a \<le> sp_end b"

text \<open>Tokens in source order, none empty.\<close>

fun in_order :: "token list \<Rightarrow> bool" where
  "in_order [] = True"
| "in_order (t # ts) = (sp_start (tk_span t) < sp_end (tk_span t) \<and> in_order ts \<and> (\<forall>u \<in> set ts. sp_end (tk_span t) \<le> sp_start (tk_span u)))"

text \<open>Operands lie inside the expression, from left to right.\<close>

fun nested :: "node \<Rightarrow> bool" where
  "nested (Composite _ l r sp) =
     (inside (node_span l) sp \<and> inside (node_span r) sp \<and> sp_end (node_span l) \<le> sp_start (node_span r) \<and> nested l \<and> nested r)"
| "nested (Negate n sp) = (inside (node_span n) sp \<and> nested n)"
| "nested (Ratio r) =
     (inside (mr_span (rt_numerator r)) (rt_span r) \<and> inside (mr_span (rt_denominator r)) (rt_span r) \<and>
      sp_end (mr_span (rt_numerator r)) \<le> sp_start (mr_span (rt_denominator r)))"
| "nested _ = True"

lemma in_order_append:
  "in_order (ts @ us) \<longleftrightarrow> in_order ts \<and> in_order us \<and> (\<forall>t \<in> set ts. \<forall>u \<in> set us. sp_end (tk_span t) \<le> sp_start (tk_span u))"
  by (induction ts) auto

lemma in_order_span: "in_order ts \<Longrightarrow> ts \<noteq> [] \<Longrightarrow> sp_start (tk_span (hd ts)) < sp_end (tk_span (last ts))"
proof (induction ts)
  case (Cons t ts)
  then show ?case by (cases "ts = []") (auto dest: bspec [OF _ last_in_set] bspec [OF _ hd_in_set])
qed simp

lemma restamp_nested: "nested n \<Longrightarrow> inside (node_span n) sp \<Longrightarrow> wf_arith n \<Longrightarrow> nested (restamp_span n sp) \<and> node_span (restamp_span n sp) = sp"
  by (cases n) (auto simp: inside_def)

lemma covers_append: "covers ts a \<Longrightarrow> covers us b \<Longrightarrow> covers (ts @ mid @ us) (span_from_to a b)"
  by (auto simp: covers_def span_from_to_def)

lemma metric_ref_covers: "g_metric_ref ts m \<Longrightarrow> covers ts (mr_span m)"
  by (auto elim!: g_metric_ref.cases simp: covers_def span_from_to_def)

lemma value_covers: "g_value ts v \<Longrightarrow> covers ts (value_span v)"
  by (auto elim!: g_value.cases simp: covers_def span_from_to_def)

lemma predicate_covers:
  assumes "g_predicate ts p"
  shows "covers ts (pd_span p)"
  using assms
proof cases
  case (1 us f a b vs op ws v)
  have "us \<noteq> []" "sp_start a = sp_start (tk_span (hd us))" using 1(3) by (auto elim!: g_field_ref.cases)
  then show ?thesis using value_covers [OF 1(5)] 1(1,2) by (auto simp: covers_def span_from_to_def)
qed

lemma conjuncts_end: "g_conjuncts us qs \<Longrightarrow> (us = [] \<longleftrightarrow> qs = []) \<and> (qs \<noteq> [] \<longrightarrow> sp_end (pd_span (last qs)) = sp_end (tk_span (last us)))"
  by (induction rule: g_conjuncts.induct) (auto dest!: predicate_covers simp: covers_def)

lemma filter_covers: "g_filter ts f \<Longrightarrow> covers ts (fl_span f)"
  by (auto elim!: g_filter.cases dest!: predicate_covers conjuncts_end simp: covers_def span_from_to_def)

lemma window_covers: "g_window ts w \<Longrightarrow> covers ts (wd_span w)"
  by (auto elim!: g_window.cases simp: covers_def span_from_to_def)

lemma aggregation_covers:
  assumes "g_aggregation ts a"
  shows "covers ts (ag_span a)"
  using assms
proof cases
  case (1 k us func pct aa vs s b ws fo zs wo e)
  have "zs = [] \<and> wo = None \<or> (\<exists>w. wo = Some w \<and> covers zs (wd_span w))"
    using 1(8) by (auto elim!: g_optional.cases intro: window_covers)
  moreover have "ws = [] \<and> fo = None \<or> (\<exists>f. fo = Some f \<and> covers ws (fl_span f))"
    using 1(7) by (auto elim!: g_optional.cases intro: filter_covers)
  ultimately show ?thesis using 1(1,2,9) by (auto simp: covers_def span_from_to_def)
qed

lemma covers_inside:
  assumes "in_order (pre @ ts @ post)" "covers ts a" "covers (pre @ ts @ post) b"
  shows "inside a b"
proof -
  have "sp_start (tk_span (hd (pre @ ts @ post))) \<le> sp_start (tk_span (hd ts))"
    using assms(1,2) by (cases pre) (auto simp: covers_def in_order_append intro: order.trans [OF less_imp_le])
  moreover have "sp_end (tk_span (last ts)) \<le> sp_end (tk_span (last (pre @ ts @ post)))"
  proof (cases "post = []")
    case False
    then have "sp_end (tk_span (last ts)) \<le> sp_start (tk_span (hd post))"
      using assms(1,2) by (simp add: covers_def in_order_append)
    also have "\<dots> < sp_end (tk_span (last post))" using assms(1) False by (auto simp: in_order_append intro!: in_order_span)
    finally show ?thesis using False by simp
  qed (use assms(2) in \<open>simp add: covers_def\<close>)
  ultimately show ?thesis using assms(2,3) by (simp add: covers_def inside_def)
qed

lemma binary_nested:
  assumes "in_order (ts @ t # us)" "covers ts (node_span l)" "covers us (node_span r)" "nested l" "nested r"
  shows "covers (ts @ t # us) (span_from_to (node_span l) (node_span r)) \<and>
    nested (Composite op l r (span_from_to (node_span l) (node_span r)))"
proof -
  have cov: "covers (ts @ t # us) (span_from_to (node_span l) (node_span r))"
    using covers_append [OF assms(2,3), of "[t]"] by simp
  have "inside (node_span l) (span_from_to (node_span l) (node_span r))"
    using covers_inside [of "[]" ts "t # us"] assms(1,2) cov by simp
  moreover have "inside (node_span r) (span_from_to (node_span l) (node_span r))"
    using covers_inside [of "ts @ [t]" us "[]"] assms(1,3) cov by simp
  moreover have "sp_end (node_span l) \<le> sp_start (node_span r)"
    using assms(1-3) by (auto simp: covers_def in_order_append)
  ultimately show ?thesis using cov assms(4,5) by simp
qed

lemma ratio_nested:
  assumes "g_ratio ts r" "in_order ts"
  shows "covers ts (rt_span r) \<and> nested (Ratio r)"
  using assms(1)
proof cases
  case (1 k a us m c vs n b)
  have cov: "covers ts (rt_span r)" using 1 by (simp add: covers_def span_from_to_def)
  have m: "covers us (mr_span m)" and n: "covers vs (mr_span n)" using metric_ref_covers 1(5,7) by auto
  have "inside (mr_span m) (rt_span r)"
    using covers_inside [of "[k, a]" us "c # vs @ [b]"] m cov assms(2) 1(1) by simp
  moreover have "inside (mr_span n) (rt_span r)"
    using covers_inside [of "k # a # us @ [c]" vs "[b]"] n cov assms(2) 1(1) by simp
  moreover have "sp_end (mr_span m) \<le> sp_start (mr_span n)"
    using m n assms(2) 1(1) by (auto simp: covers_def in_order_append)
  ultimately show ?thesis using cov 1(2) by simp
qed

lemma composite_nested:
  shows "g_composite ts n \<Longrightarrow> lexer_tokens ts \<Longrightarrow> in_order ts \<Longrightarrow> covers ts (node_span n) \<and> nested n"
    and "g_term ts n \<Longrightarrow> lexer_tokens ts \<Longrightarrow> in_order ts \<Longrightarrow> covers ts (node_span n) \<and> nested n"
    and "g_unary ts n \<Longrightarrow> lexer_tokens ts \<Longrightarrow> in_order ts \<Longrightarrow> covers ts (node_span n) \<and> nested n"
    and "g_factor ts n \<Longrightarrow> lexer_tokens ts \<Longrightarrow> in_order ts \<Longrightarrow> covers ts (node_span n) \<and> nested n"
proof (induction rule: g_composite_g_term_g_unary_g_factor.inducts)
  case (composite_add ts l t us r)
  then show ?case using binary_nested [of ts t us l r] by (simp add: in_order_append)
next
  case (composite_sub ts l t us r)
  then show ?case using binary_nested [of ts t us l r] by (simp add: in_order_append)
next
  case (term_mul ts l t us r)
  then show ?case using binary_nested [of ts t us l r] by (simp add: in_order_append)
next
  case (term_div ts l t us r)
  then show ?case using binary_nested [of ts t us l r] by (simp add: in_order_append)
next
  case (unary_minus t ts n)
  then have cov: "covers ts (node_span n)" "covers (t # ts) (span_from_to (tk_span t) (node_span n))"
    by (auto simp: covers_def span_from_to_def)
  then show ?case using covers_inside [of "[t]" ts "[]"] unary_minus by simp
next
  case (factor_paren a ts n b)
  then have n: "covers ts (node_span n)" "nested n" by (auto simp: in_order_append)
  have cov: "covers (a # ts @ [b]) (span_from_to (tk_span a) (tk_span b))" by (simp add: covers_def span_from_to_def)
  have "inside (node_span n) (span_from_to (tk_span a) (tk_span b))"
    using covers_inside [of "[a]" ts "[b]"] n(1) cov factor_paren.prems by simp
  then show ?case using restamp_nested [OF n(2)] composite_wf(1) [OF factor_paren.hyps(2)] factor_paren.prems cov by simp
next
  case (factor_ref ts m)
  then show ?case by (simp add: metric_ref_covers)
next
  case (factor_number t x)
  then show ?case by (simp add: covers_def)
next
  case (factor_ratio ts r)
  then show ?case using ratio_nested by simp
qed auto

lemma laid_out_in_order:
  "laid_out s p ts q \<Longrightarrow> in_order ts \<and> (\<forall>t \<in> set ts. p \<le> sp_start (tk_span t) \<and> sp_end (tk_span t) \<le> length s)"
proof (induction s p ts q rule: laid_out.induct)
  case (2 s p t ts q)
  have IH: "in_order ts" "\<forall>u \<in> set ts. sp_end (tk_span t) \<le> sp_start (tk_span u) \<and> sp_end (tk_span u) \<le> length s"
    using "2.IH" [OF refl refl] "2.prems" by (auto simp: Let_def)
  then show ?case using "2.prems" by (fastforce simp: Let_def)
qed simp

lemma parsed_wf:
  assumes "parse source = Ok n"
  shows "wf_node n"
proof -
  obtain ts where ts: "tokenize source = Ok ts" using assms by (cases "tokenize source") (auto simp: parse_eq)
  then obtain body where body: "ts = body @ [eof_token (length source)]" "\<forall>t \<in> set body. token_ok t \<and> tk_kind t \<noteq> Eof"
    by (rule tokenize_Ok)
  then have "g_expression body n"
    using assms ts parse_tokens_iff [of "eof_token (length source)" body n] by (simp add: parse_eq eof_token_def)
  then show ?thesis using body(2) expression_wf by blast
qed

text \<open>
  C19: Every tree the parser returns is well-formed: percentiles lie strictly between 0 and 100 and only percentile aggregations carry one, windows are positive, filters and in-lists are not empty, all names are identifiers and not keywords, numbers are not negative, no unknown function or operator occurs, and aggregations occur only at the root.
\<close>

theorem parsed_trees_well_formed:
  assumes "parse source = Ok n"
  shows "wf_node n"
  using assms by (rule parsed_wf)

text \<open>
  The spans of a parsed tree are exact: the root spans from the first to the last token of the source, and inside it every operand lies within its expression, the left one before the right one, also after parentheses re-stamp a span.
\<close>

theorem tree_spans_exact:
  assumes "tokenize source = Ok ts" "parse source = Ok n"
  shows "covers (butlast ts) (node_span n) \<and> nested n \<and> sp_end (node_span n) \<le> length source"
proof -
  from assms(1) obtain body where body: "ts = body @ [eof_token (length source)]" "laid_out source 0 body (length source)"
      "\<forall>t \<in> set body. token_ok t \<and> tk_kind t \<noteq> Eof"
    by (rule tokenize_Ok)
  then have g: "g_expression body n"
    using assms parse_tokens_iff [of "eof_token (length source)" body n] by (simp add: parse_eq eof_token_def)
  note ord = laid_out_in_order [OF body(2)]
  have "covers body (node_span n) \<and> nested n"
    using g
  proof cases
    case (1 a)
    then show ?thesis by (simp add: aggregation_covers)
  next
    case 2
    then show ?thesis using composite_nested(1) ord body(3) by blast
  qed
  moreover from this have "sp_end (node_span n) \<le> length source"
    using ord by (auto simp: covers_def)
  ultimately show ?thesis using body(1) by simp
qed

theorem parsed_trees_well_formed_witness: "wf_node sample_tree"
  by (rule parsed_trees_well_formed) (rule sample_parse)

theorem tree_spans_exact_witness:
  "covers (butlast sample_token_list) (node_span sample_tree) \<and> nested sample_tree \<and> sp_end (node_span sample_tree) \<le> length ''-@a''"
  by (rule tree_spans_exact) (rule sample_tokens sample_parse)+

end
