(* ===== verification/Metricql_Analyze.thy ===== *)
theory Metricql_Analyze
  imports Metricql_Trees
begin

text \<open>
  Semantic analysis of MetricQL (\<^verbatim>\<open>validators/metricql/analyze.rs\<close>) and the entry points of the
  module (\<^verbatim>\<open>validators/metricql/mod.rs\<close>): the diagnostics of a tree, the metric references of a tree,
  and the validation of a source text. The lemmas show that the identifier and percentile diagnostics
  never fire on parsed trees, that the analyser reports every unknown reference once per occurrence,
  and which texts the validator accepts.
\<close>

section \<open>The analyser\<close>

record analyze_context =
  known_metric_ids :: "string set option"

fun agg_func_name :: "agg_func \<Rightarrow> string" where
  "agg_func_name Mean = ''mean''"
| "agg_func_name Sum = ''sum''"
| "agg_func_name Count = ''count''"
| "agg_func_name CountDistinct = ''count_distinct''"
| "agg_func_name Proportion = ''proportion''"
| "agg_func_name Percentile = ''percentile''"
| "agg_func_name AggUnknown = ''unknown''"

text \<open>The vector of diagnostics is an argument; pushing appends to it.\<close>

definition push_if :: "bool \<Rightarrow> span \<Rightarrow> message \<Rightarrow> diagnostic list \<Rightarrow> diagnostic list" where
  "push_if c sp msg diags = (if c then diags @ [diagnostic_error sp msg] else diags)"

fun analyze_predicates :: "mpredicate list \<Rightarrow> diagnostic list \<Rightarrow> diagnostic list" where
  "analyze_predicates [] diags = diags"
| "analyze_predicates (p # ps) diags =
     (let ns = fr_namespace (pd_field p); nm = fr_name (pd_field p);
          d1 = push_if (ns \<noteq> [] \<and> \<not> identifier_re ns) (pd_span p) (InvalidNamespace ns) diags;
          d2 = push_if (\<not> identifier_re nm) (pd_span p) (InvalidFieldName nm) d1
      in analyze_predicates ps d2)"

definition analyze_filter :: "mfilter \<Rightarrow> diagnostic list \<Rightarrow> diagnostic list" where
  "analyze_filter f diags = analyze_predicates (fl_predicates f) diags"

definition analyze_aggregation :: "aggregation \<Rightarrow> diagnostic list \<Rightarrow> diagnostic list" where
  "analyze_aggregation a diags =
     (let src = ag_source a; fn = ag_func a; name = agg_func_name fn;
          d1 = push_if (\<not> identifier_re (sr_event_type src)) (sr_span src) (InvalidEventType (sr_event_type src)) diags;
          d2 = push_if (sr_field src \<noteq> [] \<and> \<not> identifier_re (sr_field src)) (sr_span src) (InvalidField (sr_field src)) d1;
          d3 = push_if (fn = Percentile \<and> (f64_le (ag_percentile a) (Fin 0) \<or> f64_le (Fin 100) (ag_percentile a)))
                 (ag_span a) (PercentileRange (ag_percentile a)) d2;
          d4 = push_if ((fn = Count \<or> fn = Proportion) \<and> sr_field src \<noteq> []) (sr_span src)
                 (FieldNotAllowed name (sr_field src) (sr_event_type src)) d3;
          d5 = push_if (fn \<in> {Mean, Sum, CountDistinct, Percentile} \<and> sr_field src = []) (sr_span src)
                 (FieldRequired name (sr_event_type src)) d4
      in case ag_filter a of None \<Rightarrow> d5 | Some f \<Rightarrow> analyze_filter f d5)"

definition analyze_metric_ref :: "metric_ref \<Rightarrow> analyze_context \<Rightarrow> diagnostic list \<Rightarrow> diagnostic list" where
  "analyze_metric_ref m ctx diags =
     (if \<not> identifier_re (mr_id m) then diags @ [diagnostic_error (mr_span m) (InvalidMetricRef (mr_id m))]
      else case known_metric_ids ctx of
             None \<Rightarrow> diags
           | Some known \<Rightarrow> push_if (mr_id m \<notin> known) (mr_span m) (UnknownMetricRef (mr_id m)) diags)"

definition analyze_ratio :: "ratio \<Rightarrow> analyze_context \<Rightarrow> diagnostic list \<Rightarrow> diagnostic list" where
  "analyze_ratio r ctx diags = analyze_metric_ref (rt_denominator r) ctx (analyze_metric_ref (rt_numerator r) ctx diags)"

primrec analyze_node :: "node \<Rightarrow> analyze_context \<Rightarrow> diagnostic list \<Rightarrow> diagnostic list" where
  "analyze_node (Aggregation a) ctx diags = analyze_aggregation a diags"
| "analyze_node (Composite op l r sp) ctx diags = analyze_node r ctx (analyze_node l ctx diags)"
| "analyze_node (Negate n sp) ctx diags = analyze_node n ctx diags"
| "analyze_node (MetricRef m) ctx diags = analyze_metric_ref m ctx diags"
| "analyze_node (Literal x sp) ctx diags = diags"
| "analyze_node (Ratio r) ctx diags = analyze_ratio r ctx diags"

definition analyze :: "node \<Rightarrow> analyze_context \<Rightarrow> diagnostic list" where
  "analyze tree ctx =
     (case tree of
        MetricRef m \<Rightarrow> [diagnostic_error (mr_span m) BareMetricRef]
      | Literal x sp \<Rightarrow> [diagnostic_error sp BareLiteral]
      | _ \<Rightarrow> analyze_node tree ctx [])"

primrec collect_refs :: "node \<Rightarrow> string set \<Rightarrow> string set" where
  "collect_refs (Aggregation a) seen = seen"
| "collect_refs (Composite op l r sp) seen = collect_refs r (collect_refs l seen)"
| "collect_refs (Negate n sp) seen = collect_refs n seen"
| "collect_refs (MetricRef m) seen = insert (mr_id m) seen"
| "collect_refs (Literal x sp) seen = seen"
| "collect_refs (Ratio r) seen = insert (mr_id (rt_denominator r)) (insert (mr_id (rt_numerator r)) seen)"

definition extract_metric_refs :: "node \<Rightarrow> string list" where
  "extract_metric_refs tree = sorted_list_of_set (collect_refs tree {})"

section \<open>Entry points\<close>

fun lex_diagnostics :: "(lex_error, 'a) outcome \<Rightarrow> (diagnostic list, 'a) outcome" where
  "lex_diagnostics (Ok x) = Ok x"
| "lex_diagnostics (Err e) = Err [diagnostic_error (le_span e) (le_message e)]"
| "lex_diagnostics Panic = Panic"

fun parse_diagnostics :: "(parse_error, 'a) outcome \<Rightarrow> (diagnostic list, 'a) outcome" where
  "parse_diagnostics (Ok x) = Ok x"
| "parse_diagnostics (Err e) = Err [diagnostic_error (pe_span e) (pe_message e)]"
| "parse_diagnostics Panic = Panic"

definition validate_metricql :: "string \<Rightarrow> analyze_context \<Rightarrow> (diagnostic list, string list) outcome" where
  "validate_metricql source ctx =
     obind (lex_diagnostics (tokenize source)) (\<lambda>tokens.
     obind (parse_diagnostics (parse_tokens tokens)) (\<lambda>ast.
       let diags = analyze ast ctx
       in if diags \<noteq> [] then Err diags else Ok (extract_metric_refs ast)))"

fun parse_only_result :: "(parse_error, node) outcome \<Rightarrow> (diagnostic, node) outcome" where
  "parse_only_result (Ok n) = Ok n"
| "parse_only_result (Err e) = Err (diagnostic_error (pe_span e) (pe_message e))"
| "parse_only_result Panic = Panic"

definition parse_only :: "string \<Rightarrow> (diagnostic, node) outcome" where
  "parse_only source = parse_only_result (parse source)"

section \<open>Specification\<close>

text \<open>The references of a tree, in source order.\<close>

primrec occurrences :: "node \<Rightarrow> metric_ref list" where
  "occurrences (Aggregation a) = []"
| "occurrences (Composite op l r sp) = occurrences l @ occurrences r"
| "occurrences (Negate n sp) = occurrences n"
| "occurrences (MetricRef m) = [m]"
| "occurrences (Literal x sp) = []"
| "occurrences (Ratio r) = [rt_numerator r, rt_denominator r]"

definition metric_ids :: "node \<Rightarrow> string set" where
  "metric_ids n = mr_id ` set (occurrences n)"

text \<open>
  A tree defines a metric if it is not a lone reference or number, and if it is an aggregation, its
  source names a field exactly when the function aggregates values.
\<close>

definition defines_metric :: "node \<Rightarrow> bool" where
  "defines_metric n \<longleftrightarrow>
     (case n of
        MetricRef m \<Rightarrow> False
      | Literal x sp \<Rightarrow> False
      | Aggregation a \<Rightarrow> (sr_field (ag_source a) = []) = (ag_func a \<in> {Count, Proportion})
      | _ \<Rightarrow> True)"

definition all_known :: "analyze_context \<Rightarrow> node \<Rightarrow> bool" where
  "all_known ctx n \<longleftrightarrow> (case known_metric_ids ctx of None \<Rightarrow> True | Some known \<Rightarrow> metric_ids n \<subseteq> known)"

definition unknown_ref :: "analyze_context \<Rightarrow> metric_ref \<Rightarrow> bool" where
  "unknown_ref ctx m \<longleftrightarrow> (case known_metric_ids ctx of None \<Rightarrow> False | Some known \<Rightarrow> mr_id m \<notin> known)"

section \<open>The analyser on well-formed trees\<close>

lemma plain_identifier [simp]: "plain_ident s \<Longrightarrow> identifier_re s"
  by (simp add: plain_ident_def)

lemma plain_identifier_nonempty [simp]: "\<not> plain_ident []"
  using identifier_nonempty by (auto simp: plain_ident_def)

lemma wf_predicates_silent:
  "\<forall>p \<in> set ps. wf_predicate p \<Longrightarrow> analyze_predicates ps diags = diags"
  by (induction ps arbitrary: diags) (auto simp: wf_predicate_def push_if_def)

lemma wf_percentile: "wf_aggregation a \<Longrightarrow> ag_func a = Percentile \<Longrightarrow>
    \<not> f64_le (ag_percentile a) (Fin 0) \<and> \<not> f64_le (Fin 100) (ag_percentile a)"
  by (auto simp: wf_aggregation_def f64_le_def)

lemma wf_filter_silent: "wf_aggregation a \<Longrightarrow> ag_filter a = Some f \<Longrightarrow> analyze_filter f diags = diags"
  by (simp add: wf_aggregation_def analyze_filter_def wf_predicates_silent)

lemma wf_aggregation_analysis:
  assumes "wf_aggregation a"
  shows "analyze_aggregation a [] = [] \<longleftrightarrow> (sr_field (ag_source a) = []) = (ag_func a \<in> {Count, Proportion})"
proof -
  have "identifier_re (sr_event_type (ag_source a))" "sr_field (ag_source a) \<noteq> [] \<longrightarrow> identifier_re (sr_field (ag_source a))"
    "ag_func a \<noteq> AggUnknown"
    using assms by (auto simp: wf_aggregation_def)
  then show ?thesis
    using wf_percentile [OF assms] wf_filter_silent [OF assms]
    by (cases "ag_func a") (auto simp: analyze_aggregation_def push_if_def Let_def split: option.splits)
qed

lemma wf_ref_analysis: "plain_ident (mr_id m) \<Longrightarrow>
    analyze_metric_ref m ctx diags =
      diags @ (if unknown_ref ctx m then [diagnostic_error (mr_span m) (UnknownMetricRef (mr_id m))] else [])"
  by (simp add: analyze_metric_ref_def unknown_ref_def push_if_def split: option.split)

lemma wf_arith_analysis:
  "wf_arith n \<Longrightarrow> analyze_node n ctx diags = diags @
     map (\<lambda>m. diagnostic_error (mr_span m) (UnknownMetricRef (mr_id m))) (filter (unknown_ref ctx) (occurrences n))"
  by (induction n arbitrary: diags) (simp_all add: wf_ref_analysis analyze_ratio_def)

lemma collect_refs_eq: "collect_refs n seen = seen \<union> metric_ids n"
  by (induction n arbitrary: seen) (auto simp: metric_ids_def)

lemma finite_metric_ids [simp]: "finite (metric_ids n)"
  by (simp add: metric_ids_def)

lemma extract_metric_refs_exact:
  "sorted (extract_metric_refs n)" "distinct (extract_metric_refs n)" "set (extract_metric_refs n) = metric_ids n"
  by (simp_all add: extract_metric_refs_def collect_refs_eq)

lemma extract_metric_refs_unique:
  "sorted xs \<Longrightarrow> distinct xs \<Longrightarrow> set xs = metric_ids n \<Longrightarrow> xs = extract_metric_refs n"
  by (metis extract_metric_refs_exact sorted_distinct_set_unique)

lemma all_known_iff: "all_known ctx n \<longleftrightarrow> filter (unknown_ref ctx) (occurrences n) = []"
  by (auto simp: all_known_def unknown_ref_def metric_ids_def filter_empty_conv split: option.splits)

lemma analyze_wf_nil:
  assumes "wf_node n"
  shows "analyze n ctx = [] \<longleftrightarrow> defines_metric n \<and> all_known ctx n"
  using assms
  by (cases n)
    (auto simp: analyze_def defines_metric_def wf_node_def wf_aggregation_analysis all_known_iff wf_arith_analysis
      simp del: analyze_node.simps(2,3,6))

lemma validate_metricql_eq:
  "validate_metricql source ctx =
     obind (parse_diagnostics (parse source)) (\<lambda>n. if analyze n ctx \<noteq> [] then Err (analyze n ctx) else Ok (extract_metric_refs n))"
  by (cases "tokenize source") (simp_all add: validate_metricql_def parse_eq Let_def)

lemma parse_diagnostics_Ok_iff: "parse_diagnostics r = Ok n \<longleftrightarrow> r = Ok n"
  by (cases r) auto

lemma parse_wf: "parse source = Ok n \<Longrightarrow> wf_node n"
  using parsed_wf by blast

section \<open>Properties\<close>

text \<open>
  C16: The validator accepts a text exactly when it parses, the tree defines a metric and every reference is known (if the known set is given); the answer is then the sorted list of the referenced metrics, each once. The identifier and percentile diagnostics of the analyser never decide.
\<close>

theorem validate_metricql_accepts_exactly:
  "validate_metricql source ctx = Ok refs \<longleftrightarrow>
     (\<exists>n. parse source = Ok n \<and> defines_metric n \<and> all_known ctx n \<and>
          sorted refs \<and> distinct refs \<and> set refs = metric_ids n)"
  unfolding validate_metricql_eq obind_Ok_iff parse_diagnostics_Ok_iff
  using analyze_wf_nil [OF parse_wf] extract_metric_refs_exact extract_metric_refs_unique
  by (auto split: if_splits) blast+

text \<open>
  Semantic errors accumulate: for a text that parses to an arithmetic expression (a product, a sum, a negation or a ratio of references), the diagnostics are one unknown-reference error per occurrence of an unknown metric, at its span and in source order.
\<close>

theorem every_unknown_reference_reported:
  assumes "parse source = Ok n"
    and "defines_metric n" "\<not> all_known ctx n"
  shows "validate_metricql source ctx =
    Err (map (\<lambda>m. diagnostic_error (mr_span m) (UnknownMetricRef (mr_id m))) (filter (unknown_ref ctx) (occurrences n)))"
proof -
  have "wf_arith n" using parse_wf [OF assms(1)] assms(3) by (cases n) (auto simp: wf_node_def all_known_iff)
  then have "analyze n ctx = map (\<lambda>m. diagnostic_error (mr_span m) (UnknownMetricRef (mr_id m))) (filter (unknown_ref ctx) (occurrences n))"
    using assms(2) wf_arith_analysis [of n ctx "[]"] by (cases n) (auto simp: analyze_def defines_metric_def)
  moreover have "filter (unknown_ref ctx) (occurrences n) \<noteq> []" using assms(3) by (simp add: all_known_iff)
  ultimately show ?thesis by (simp add: validate_metricql_eq assms(1))
qed

text \<open>The validator answers on every well-formed text, and a rejection names at least one error.\<close>

lemma validate_metricql_answers:
  assumes "valid_utf8 source"
  shows "(\<exists>refs. validate_metricql source ctx = Ok refs) \<or> (\<exists>ds. ds \<noteq> [] \<and> validate_metricql source ctx = Err ds)"
proof (cases "parse source")
  case (Ok n)
  then show ?thesis by (cases "analyze n ctx = []") (simp_all add: validate_metricql_eq)
qed (use parse_answers [OF assms] in \<open>simp_all add: validate_metricql_eq\<close>)

section \<open>Witnesses\<close>

definition sample_context :: analyze_context where
  "sample_context = \<lparr>known_metric_ids = Some {''b''}\<rparr>"

theorem every_unknown_reference_reported_witness:
  "validate_metricql ''-@a'' sample_context = Err [diagnostic_error (Span 1 3) (UnknownMetricRef ''a'')]"
  using every_unknown_reference_reported [OF sample_parse, of sample_context]
  by (simp add: defines_metric_def all_known_def unknown_ref_def metric_ids_def sample_context_def sample_tree_def)

end
