(* ===== verification/Metric_Cycle.thy ===== *)
theory Metric_Cycle
  imports Metricql_Analyze Management_Store Start_Validators "HOL-Library.Multiset"
begin

text \<open>
  Cycle detection over the metric catalogue (\<^verbatim>\<open>validators/cycle.rs\<close>) and the interface it needs of a
  catalogue (\<^verbatim>\<open>MetricLookup\<close> in \<^verbatim>\<open>validators/metric_definition.rs\<close>). The walk is the iterative
  three-colour depth-first search of the code with its explicit stack; it ends for every catalogue,
  also an infinite or cyclic one, because of the depth cap. The lemmas show that an accepted metric
  has only finite reference chains, that every rejection names a real defect, and what the depth cap
  does not cover.
\<close>

section \<open>The catalogue as the validators see it\<close>

text \<open>A trait object: one function per method. During one walk the catalogue does not change.\<close>

record metric_lookup =
  exists_all :: "string list \<Rightarrow> (store_error, bool) outcome"
  composite_operands :: "string \<Rightarrow> (store_error, string list) outcome"
  metricql_refs :: "string \<Rightarrow> (store_error, string list) outcome"
  type_of_metric :: "string \<Rightarrow> (store_error, metric_type) outcome"

fun show_store_error :: "store_error \<Rightarrow> string" where
  "show_store_error (StoreNotFound s) = ''experiment not found: '' @ s"
| "show_store_error (StoreAlreadyExists s) = ''experiment already exists: '' @ s"
| "show_store_error (StoreDb s) = ''database error: '' @ s"

section \<open>The walk\<close>

datatype color = Gray | Black

record frame =
  fm_node :: string
  fm_remaining :: "string list"
  fm_depth :: nat
  fm_path :: "string list"

definition join_path :: "string list \<Rightarrow> string" where
  "join_path path = concat (case path of [] \<Rightarrow> [] | x # xs \<Rightarrow> x # map (\<lambda>y. '' -> '' @ y) xs)"

definition self_reference_error :: "string \<Rightarrow> status" where
  "self_reference_error x = Status InvalidArgument (''composite cycle detected: '' @ x @ '' -> '' @ x @ '' (self-reference)'')"

definition depth_error :: "nat \<Rightarrow> nat \<Rightarrow> status" where
  "depth_error d cap = Status InvalidArgument (''composite metric depth '' @ show_nat d @ '' exceeds maximum of '' @ show_nat cap)"

definition cycle_error :: "string list \<Rightarrow> string \<Rightarrow> status" where
  "cycle_error path child = Status InvalidArgument (''composite cycle detected: '' @ join_path path @ '' -> '' @ child)"

definition walk_failed :: "store_error \<Rightarrow> status" where
  "walk_failed e = Status Internal (''composite cycle walk failed: '' @ show_store_error e)"

definition operand_error :: "string \<Rightarrow> string \<Rightarrow> store_error \<Rightarrow> status" where
  "operand_error child what e =
     (case e of
        StoreNotFound _ \<Rightarrow> Status InvalidArgument (''metric operand '' @ quoted child @ what @ '' during cycle walk'')
      | _ \<Rightarrow> walk_failed e)"

fun map_err :: "('e \<Rightarrow> 'f) \<Rightarrow> ('e, 'a) outcome \<Rightarrow> ('f, 'a) outcome" where
  "map_err f (Ok x) = Ok x"
| "map_err f (Err e) = Err (f e)"
| "map_err f Panic = Panic"

text \<open>The neighbours of a metric: the dispatch on its type.\<close>

definition neighbors :: "metric_lookup \<Rightarrow> string \<Rightarrow> (status, string list) outcome" where
  "neighbors L child =
     obind (map_err (operand_error child '' not found'') (type_of_metric L child)) (\<lambda>ty.
       map_err (operand_error child '' lookup failed'')
         (if ty = MtComposite then composite_operands L child
          else if ty = MtMetricql then metricql_refs L child
          else Ok []))"

function walk :: "metric_lookup \<Rightarrow> nat \<Rightarrow> (string, color) hash_map \<Rightarrow> frame list \<Rightarrow> (status, unit) outcome" where
  "walk L cap color [] = Ok ()"
| "walk L cap color (f # stack) =
     (case fm_remaining f of
        [] \<Rightarrow> walk L cap (color(fm_node f \<mapsto> Black)) stack
      | child # rest \<Rightarrow>
          (let f' = f\<lparr>fm_remaining := rest\<rparr>; child_depth = fm_depth f + 1
           in if cap < child_depth then Err (depth_error child_depth cap)
              else case color child of
                     Some Gray \<Rightarrow> Err (cycle_error (fm_path f) child)
                   | Some Black \<Rightarrow> walk L cap color (f' # stack)
                   | None \<Rightarrow> obind (neighbors L child) (\<lambda>grandchildren.
                       walk L cap (color(child \<mapsto> Gray))
                         (\<lparr>fm_node = child, fm_remaining = grandchildren, fm_depth = child_depth,
                           fm_path = fm_path f @ [child]\<rparr> # f' # stack))))"
  by pat_completeness auto

text \<open>
  The search ends because the depth is capped: the bag with one element per child still to visit, and
  one per frame, each weighted by the depth left below it, decreases in the multiset order.
\<close>

definition work_left :: "nat \<Rightarrow> frame list \<Rightarrow> nat multiset" where
  "work_left cap stack = (\<Sum>f\<leftarrow>stack. replicate_mset (Suc (length (fm_remaining f))) (cap + 1 - fm_depth f))"

lemma work_left_Cons: "work_left cap (f # stack) = replicate_mset (Suc (length (fm_remaining f))) (cap + 1 - fm_depth f) + work_left cap stack"
  by (simp add: work_left_def)

lemma mult_less_than_push:
  "\<forall>y \<in># B. y < x \<Longrightarrow> (B + M, add_mset x M) \<in> mult less_than"
  using one_step_implies_mult [of "{#x#}" B less_than M] by (auto simp: add.commute)

termination walk
proof (relation "inv_image (mult less_than) (\<lambda>(L, cap, color, stack). work_left cap stack)", goal_cases)
  case 1
  show ?case by (intro wf_inv_image wf_mult) simp
next
  case (2 L cap color f stack)
  then show ?case using mult_less_than_push [of "{#}" "cap + 1 - fm_depth f" "work_left cap stack"]
    by (simp add: work_left_Cons)
next
  case (3 L cap color f stack child rest f' cd gs)
  let ?g = "\<lparr>fm_node = child, fm_remaining = gs, fm_depth = cd, fm_path = fm_path f @ [child]\<rparr>"
  have "work_left cap (f # stack) = add_mset (cap + 1 - fm_depth f) (work_left cap (f' # stack))"
    using 3 by (simp add: work_left_Cons)
  moreover have "work_left cap (?g # f' # stack) = replicate_mset (Suc (length gs)) (cap + 1 - cd) + work_left cap (f' # stack)"
    by (simp add: work_left_Cons [of cap ?g])
  ultimately show ?case
    using mult_less_than_push [of "replicate_mset (Suc (length gs)) (cap + 1 - cd)" "cap + 1 - fm_depth f" "work_left cap (f' # stack)"] 3
    by (auto split: if_splits)
next
  case (4 L cap color f stack child rest f' cd col)
  then show ?case using mult_less_than_push [of "{#}" "cap + 1 - fm_depth f" "work_left cap (f' # stack)"]
    by (simp add: work_left_Cons)
qed

declare walk.simps(2) [simp del]

definition check_no_cycles :: "string \<Rightarrow> string list \<Rightarrow> metric_lookup \<Rightarrow> nat \<Rightarrow> (status, unit) outcome" where
  "check_no_cycles start_metric_id direct_operands L depth_cap =
     (if start_metric_id \<in> set direct_operands then Err (self_reference_error start_metric_id)
      else if depth_cap = 0 \<and> direct_operands \<noteq> [] then Err (depth_error 1 depth_cap)
      else walk L depth_cap [start_metric_id \<mapsto> Gray]
             [\<lparr>fm_node = start_metric_id, fm_remaining = direct_operands, fm_depth = 0, fm_path = [start_metric_id]\<rparr>])"

section \<open>Reference chains\<close>

text \<open>
  The reference graph the walk sees: the metric under validation has the operands of the request,
  every other metric those of the catalogue. A metric is grounded if every chain of references from
  it ends.
\<close>

type_synonym ref_graph = "string \<Rightarrow> (status, string list) outcome"

definition refs_of :: "metric_lookup \<Rightarrow> string \<Rightarrow> string list \<Rightarrow> ref_graph" where
  "refs_of L start ops u = (if u = start then Ok ops else neighbors L u)"

definition ref_edge :: "ref_graph \<Rightarrow> string \<Rightarrow> string \<Rightarrow> bool" where
  "ref_edge S u v \<longleftrightarrow> (\<exists>ms. S u = Ok ms \<and> v \<in> set ms)"

inductive grounded :: "ref_graph \<Rightarrow> string \<Rightarrow> bool" for S where
  groundedI: "S n = Ok ms \<Longrightarrow> \<forall>m \<in> set ms. grounded S m \<Longrightarrow> grounded S n"

definition ref_path :: "ref_graph \<Rightarrow> string \<Rightarrow> string list \<Rightarrow> bool" where
  "ref_path S start p \<longleftrightarrow> p \<noteq> [] \<and> hd p = start \<and> successively (ref_edge S) p"

lemma ref_path_start: "ref_path S start [start]"
  by (simp add: ref_path_def)

lemma ref_path_snoc: "ref_path S start p \<Longrightarrow> ref_edge S (List.last p) v \<Longrightarrow> ref_path S start (p @ [v])"
  by (auto simp: ref_path_def successively_append_iff)

lemma grounded_edge: "grounded S u \<Longrightarrow> ref_edge S u v \<Longrightarrow> grounded S v"
  by (erule grounded.cases) (auto simp: ref_edge_def)

lemma grounded_reachable: "(ref_edge S)\<^sup>*\<^sup>* u v \<Longrightarrow> grounded S u \<Longrightarrow> grounded S v"
  by (induction rule: rtranclp_induct) (auto intro: grounded_edge)

lemma grounded_resolves: "grounded S u \<Longrightarrow> \<exists>ms. S u = Ok ms"
  by (erule grounded.cases) auto

lemma grounded_acyclic: "grounded S u \<Longrightarrow> \<not> (ref_edge S)\<^sup>+\<^sup>+ u u"
proof (induction rule: grounded.induct)
  case (groundedI n ms)
  show ?case
  proof
    assume "(ref_edge S)\<^sup>+\<^sup>+ n n"
    then obtain m where m: "ref_edge S n m" "(ref_edge S)\<^sup>*\<^sup>* m n" by (meson tranclpD)
    then have "m \<in> set ms" using groundedI.hyps(1) by (auto simp: ref_edge_def)
    moreover have "(ref_edge S)\<^sup>+\<^sup>+ m m" using m by (rule rtranclp_into_tranclp1 [rotated])
    ultimately show False using groundedI.IH by blast
  qed
qed

lemma path_reaches: "ref_path S start p \<Longrightarrow> x \<in> set p \<Longrightarrow> (ref_edge S)\<^sup>*\<^sup>* x (List.last p)"
proof (induction p rule: rev_induct)
  case (snoc y p)
  show ?case
  proof (cases "p = []")
    case False
    then have "ref_path S start p" "ref_edge S (List.last p) y"
      using snoc.prems by (auto simp: ref_path_def successively_append_iff)
    then show ?thesis using snoc by (auto intro: rtranclp.rtrancl_into_rtrancl)
  qed (use snoc.prems in simp)
qed simp

lemma path_from_start: "ref_path S start p \<Longrightarrow> (ref_edge S)\<^sup>*\<^sup>* start (List.last p)"
  using path_reaches [of S start p start] by (auto simp: ref_path_def)

section \<open>An accepted metric is grounded\<close>

text \<open>
  The children of a frame that are no longer in its list are grounded, or they are the one child
  being explored above it.
\<close>

fun explored :: "ref_graph \<Rightarrow> string set \<Rightarrow> frame list \<Rightarrow> bool" where
  "explored S up [] \<longleftrightarrow> True"
| "explored S up (f # fs) \<longleftrightarrow>
     (\<exists>ms. S (fm_node f) = Ok ms \<and> set ms \<subseteq> set (fm_remaining f) \<union> Collect (grounded S) \<union> up) \<and>
     explored S {fm_node f} fs"

lemma explored_grounded: "explored S {x} fs \<Longrightarrow> grounded S x \<Longrightarrow> explored S {} fs"
  by (cases fs) auto

definition black_grounded :: "ref_graph \<Rightarrow> (string, color) hash_map \<Rightarrow> bool" where
  "black_grounded S color \<longleftrightarrow> (\<forall>x. color x = Some Black \<longrightarrow> grounded S x)"

lemma walk_grounds:
  assumes "walk L cap color stack = Ok ()" "S = refs_of L start ops" "color start \<noteq> None"
    and "black_grounded S color" "explored S {} stack"
  shows "\<forall>f \<in> set stack. grounded S (fm_node f)"
  using assms
proof (induction L cap color stack rule: walk.induct)
  case (2 L cap color f stack)
  note run = "2.prems"(1) [unfolded walk.simps(2) [of L cap color f stack]]
  show ?case
  proof (cases "fm_remaining f")
    case Nil
    then have g: "grounded S (fm_node f)" using "2.prems"(5) by (auto intro: groundedI)
    have "walk L cap (color(fm_node f \<mapsto> Black)) stack = Ok ()" using run Nil by simp
    moreover have "(color(fm_node f \<mapsto> Black)) start \<noteq> None" using "2.prems"(3) by simp
    moreover have "black_grounded S (color(fm_node f \<mapsto> Black))" using "2.prems"(4) g by (simp add: black_grounded_def)
    moreover have "explored S {} stack" using "2.prems"(5) explored_grounded [OF _ g] by simp
    ultimately have "\<forall>f \<in> set stack. grounded S (fm_node f)" using "2.IH"(1) [OF Nil] "2.prems"(2) by blast
    then show ?thesis using g by simp
  next
    case (Cons child rest)
    let ?f = "f\<lparr>fm_remaining := rest\<rparr>"
    have cap: "\<not> cap < fm_depth f + 1" using run Cons by (auto simp: Let_def)
    show ?thesis
    proof (cases "color child")
      case None
      then obtain gs where gs: "neighbors L child = Ok gs"
        and w: "walk L cap (color(child \<mapsto> Gray)) (\<lparr>fm_node = child, fm_remaining = gs, fm_depth = fm_depth f + 1,
                  fm_path = fm_path f @ [child]\<rparr> # ?f # stack) = Ok ()"
        using run Cons cap by (auto simp: Let_def obind_Ok_iff)
      have "child \<noteq> start" using None "2.prems"(3) by auto
      then have "refs_of L start ops child = Ok gs" using gs by (simp add: refs_of_def)
      then show ?thesis
        using "2.IH"(2) [OF Cons refl refl cap None gs w "2.prems"(2)] "2.prems" Cons
        by (auto simp: black_grounded_def)
    next
      case (Some c)
      then have c: "c = Black" using run Cons cap by (cases c) (auto simp: Let_def)
      have "grounded S child" using "2.prems"(4) Some c by (simp add: black_grounded_def)
      then show ?thesis
        using "2.IH"(3) [OF Cons refl refl cap Some c] run Cons cap Some c "2.prems" by (auto simp: Let_def)
    qed
  qed
qed simp

lemma check_no_cycles_grounded:
  assumes "check_no_cycles start ops L cap = Ok ()"
  shows "grounded (refs_of L start ops) start"
proof -
  let ?f = "\<lparr>fm_node = start, fm_remaining = ops, fm_depth = 0, fm_path = [start]\<rparr>"
  have "walk L cap [start \<mapsto> Gray] [?f] = Ok ()" using assms by (auto simp: check_no_cycles_def split: if_splits)
  then have "\<forall>f \<in> set [?f]. grounded (refs_of L start ops) (fm_node f)"
    by (rule walk_grounds [OF _ refl]) (auto simp: black_grounded_def refs_of_def split: if_splits)
  then show ?thesis by simp
qed

section \<open>Every rejection names a defect\<close>

text \<open>
  The path of a frame is a path of references from the metric under validation to the node of the
  frame, as long as the depth says; the path of the top frame has no repetition, its nodes are coloured, and the grey
  nodes are on it.
\<close>

fun on_path :: "ref_graph \<Rightarrow> string \<Rightarrow> frame list \<Rightarrow> bool" where
  "on_path S start [] \<longleftrightarrow> True"
| "on_path S start (f # fs) \<longleftrightarrow>
     ref_path S start (fm_path f) \<and> List.last (fm_path f) = fm_node f \<and> length (fm_path f) = fm_depth f + 1 \<and>
     (\<forall>m \<in> set (fm_remaining f). ref_edge S (fm_node f) m) \<and>
     (fs \<noteq> [] \<longrightarrow> fm_path f = fm_path (hd fs) @ [fm_node f]) \<and> on_path S start fs"

definition gray_on_path :: "(string, color) hash_map \<Rightarrow> frame list \<Rightarrow> bool" where
  "gray_on_path color stack \<longleftrightarrow>
     (stack \<noteq> [] \<longrightarrow> distinct (fm_path (hd stack)) \<and> (\<forall>x \<in> set (fm_path (hd stack)). color x \<noteq> None) \<and>
        (\<forall>x. color x = Some Gray \<longrightarrow> x \<in> set (fm_path (hd stack))))"

inductive defect :: "metric_lookup \<Rightarrow> ref_graph \<Rightarrow> string \<Rightarrow> nat \<Rightarrow> (status, unit) outcome \<Rightarrow> bool"
  for L S start cap where
  self_reference: "ref_edge S start start \<Longrightarrow> defect L S start cap (Err (self_reference_error start))"
| cycle: "ref_path S start p \<Longrightarrow> ref_edge S (List.last p) x \<Longrightarrow> x \<in> set p \<Longrightarrow> defect L S start cap (Err (cycle_error p x))"
| too_deep: "ref_path S start p \<Longrightarrow> length p = cap + 2 \<Longrightarrow> distinct (butlast p) \<Longrightarrow> defect L S start cap (Err (depth_error (cap + 1) cap))"
| unresolved: "ref_path S start p \<Longrightarrow> List.last p \<noteq> start \<Longrightarrow> neighbors L (List.last p) = Err e \<Longrightarrow> defect L S start cap (Err e)"
| aborted: "ref_path S start p \<Longrightarrow> List.last p \<noteq> start \<Longrightarrow> neighbors L (List.last p) = Panic \<Longrightarrow> defect L S start cap Panic"

lemma gray_on_path_pop: "gray_on_path color (f # fs) \<Longrightarrow> on_path S start (f # fs) \<Longrightarrow> gray_on_path (color(fm_node f \<mapsto> Black)) fs"
  by (cases fs) (auto simp: gray_on_path_def)

lemma on_path_child:
  assumes "on_path S start (f # fs)" "fm_remaining f = child # rest"
  shows "ref_path S start (fm_path f @ [child])" "on_path S start (f\<lparr>fm_remaining := rest\<rparr> # fs)"
  using assms by (auto intro: ref_path_snoc)

lemma walk_defect:
  assumes "walk L cap color stack \<noteq> Ok ()" "S = refs_of L start ops" "color start \<noteq> None"
    and "on_path S start stack" "gray_on_path color stack" "\<forall>f \<in> set stack. fm_depth f \<le> cap"
  shows "defect L S start cap (walk L cap color stack)"
  using assms
proof (induction L cap color stack rule: walk.induct)
  case (2 L cap color f stack)
  note run = walk.simps(2) [of L cap color f stack]
  have d: "fm_depth f \<le> cap" using "2.prems"(6) by simp
  show ?case
  proof (cases "fm_remaining f")
    case Nil
    have w: "walk L cap color (f # stack) = walk L cap (color(fm_node f \<mapsto> Black)) stack" using run Nil by simp
    have "gray_on_path (color(fm_node f \<mapsto> Black)) stack" using gray_on_path_pop "2.prems"(4,5) by blast
    moreover have "(color(fm_node f \<mapsto> Black)) start \<noteq> None" "on_path S start stack" "\<forall>f \<in> set stack. fm_depth f \<le> cap"
      using "2.prems" by simp_all
    ultimately show ?thesis using "2.IH"(1) [OF Nil "2.prems"(1) [unfolded w] "2.prems"(2)] w by presburger
  next
    case (Cons child rest)
    let ?f = "f\<lparr>fm_remaining := rest\<rparr>"
    note path = on_path_child [OF "2.prems"(4) Cons]
    show ?thesis
    proof (cases "cap < fm_depth f + 1")
      case True
      then have "length (fm_path f @ [child]) = cap + 2" "fm_depth f = cap" using "2.prems"(4) d by auto
      moreover have "walk L cap color (f # stack) = Err (depth_error (fm_depth f + 1) cap)" using run Cons True by (simp add: Let_def)
      moreover have "distinct (butlast (fm_path f @ [child]))" using "2.prems"(5) by (simp add: gray_on_path_def)
      ultimately show ?thesis using too_deep [OF path(1)] by simp
    next
      case cap: False
      show ?thesis
      proof (cases "color child")
        case None
        then have start: "child \<noteq> start" using "2.prems"(3) by auto
        show ?thesis
        proof (cases "neighbors L child")
          case (Ok gs)
          let ?g = "\<lparr>fm_node = child, fm_remaining = gs, fm_depth = fm_depth f + 1, fm_path = fm_path f @ [child]\<rparr>"
          have w: "walk L cap color (f # stack) = walk L cap (color(child \<mapsto> Gray)) (?g # ?f # stack)"
            using run Cons cap None Ok by (simp add: Let_def)
          have "\<forall>m \<in> set gs. ref_edge S child m" using Ok start "2.prems"(2) by (simp add: ref_edge_def refs_of_def)
          then have "on_path S start (?g # ?f # stack)" using path "2.prems"(4) by simp
          moreover have "gray_on_path (color(child \<mapsto> Gray)) (?g # ?f # stack)"
            using "2.prems"(5) None by (auto simp: gray_on_path_def)
          moreover have "(color(child \<mapsto> Gray)) start \<noteq> None" "\<forall>f \<in> set (?g # ?f # stack). fm_depth f \<le> cap"
            using "2.prems"(3,6) cap by simp_all
          ultimately show ?thesis using "2.IH"(2) [OF Cons refl refl cap None Ok "2.prems"(1) [unfolded w] "2.prems"(2)] w by presburger
        next
          case (Err e)
          then show ?thesis using run Cons cap None unresolved [OF path(1)] start by (simp add: Let_def)
        next
          case Panic
          then show ?thesis using run Cons cap None aborted [OF path(1)] start by (simp add: Let_def)
        qed
      next
        case (Some c)
        show ?thesis
        proof (cases c)
          case Gray
          then have "child \<in> set (fm_path f)" using Some "2.prems"(5) by (auto simp: gray_on_path_def)
          moreover have "ref_edge S (List.last (fm_path f)) child" using "2.prems"(4) Cons by simp
          moreover have "ref_path S start (fm_path f)" using "2.prems"(4) by simp
          ultimately show ?thesis using run Cons cap Some Gray cycle [of S start "fm_path f" child] by (simp add: Let_def)
        next
          case Black
          have w: "walk L cap color (f # stack) = walk L cap color (?f # stack)" using run Cons cap Some Black by (simp add: Let_def)
          have "gray_on_path color (?f # stack)" using "2.prems"(5) by (simp add: gray_on_path_def)
          then show ?thesis using "2.IH"(3) [OF Cons refl refl cap Some Black _ "2.prems"(2)] "2.prems" path(2) w by simp
        qed
      qed
    qed
  qed
qed simp

lemma check_no_cycles_defect:
  assumes "check_no_cycles start ops L cap \<noteq> Ok ()"
  shows "defect L (refs_of L start ops) start cap (check_no_cycles start ops L cap)"
proof -
  let ?S = "refs_of L start ops" and ?f = "\<lparr>fm_node = start, fm_remaining = ops, fm_depth = 0, fm_path = [start]\<rparr>"
  have edges: "\<forall>m \<in> set ops. ref_edge ?S start m" by (simp add: ref_edge_def refs_of_def)
  show ?thesis
  proof (cases "start \<in> set ops \<or> cap = 0 \<and> ops \<noteq> []")
    case True
    have "ref_path ?S start ([start] @ [hd ops])" if "ops \<noteq> []"
      using ref_path_snoc [OF ref_path_start] edges that by simp
    then show ?thesis
      using True edges self_reference [of ?S start L cap] too_deep [of ?S start "[start, hd ops]" cap L]
      by (auto simp: check_no_cycles_def)
  next
    case False
    then have w: "check_no_cycles start ops L cap = walk L cap [start \<mapsto> Gray] [?f]" by (auto simp: check_no_cycles_def)
    have "on_path ?S start [?f]" "gray_on_path [start \<mapsto> Gray] [?f]"
      using edges by (auto simp: ref_path_start gray_on_path_def split: if_splits)
    then show ?thesis using walk_defect [OF assms [unfolded w] refl] w by simp
  qed
qed

lemma path_butlast: "ref_path S start p \<Longrightarrow> 1 < length p \<Longrightarrow> ref_path S start (butlast p) \<and> ref_edge S (List.last (butlast p)) (List.last p)"
  by (cases p rule: rev_cases) (auto simp: ref_path_def successively_append_iff)

lemma edge_into_path_cycle:
  assumes "ref_path S start p" "ref_edge S (List.last p) x" "x \<in> set p"
  shows "\<exists>u. (ref_edge S)\<^sup>*\<^sup>* start u \<and> (ref_edge S)\<^sup>+\<^sup>+ u u"
  using path_from_start [OF assms(1)] path_reaches [OF assms(1,3)] assms(2)
  by (intro exI [of _ "List.last p"]) (auto intro: rtranclp_into_tranclp2)

lemma path_members: "ref_path S start p \<Longrightarrow> x \<in> set p \<Longrightarrow> (ref_edge S)\<^sup>*\<^sup>* start x"
proof (induction p rule: rev_induct)
  case (snoc y p)
  show ?case
  proof (cases "p = []")
    case False
    then have "ref_path S start p" using snoc.prems by (auto simp: ref_path_def successively_append_iff)
    then show ?thesis using snoc path_from_start [OF snoc.prems(1)] by auto
  qed (use snoc.prems in \<open>simp add: ref_path_def\<close>)
qed simp

section \<open>Properties\<close>

text \<open>
  The cycle check is sound: if it accepts a metric with its operands, then every metric reachable over references resolves in the catalogue, and none of them is on a cycle of references, so also the catalogue extended by the new metric has no cycle through it.
\<close>

theorem cycle_check_sound:
  assumes "check_no_cycles start ops L cap = Ok ()"
    and "(ref_edge (refs_of L start ops))\<^sup>*\<^sup>* start u"
  shows "(\<exists>ms. refs_of L start ops u = Ok ms) \<and> \<not> (ref_edge (refs_of L start ops))\<^sup>+\<^sup>+ u u"
  using grounded_reachable [OF assms(2) check_no_cycles_grounded [OF assms(1)]]
  by (simp add: grounded_resolves grounded_acyclic)

text \<open>
  Every rejection is genuine: the message names a self-reference, a path that ends in a metric already on it, a path longer than the depth cap, or a reachable metric whose lookup failed with that status.
\<close>

theorem cycle_check_rejections_genuine:
  assumes "check_no_cycles start ops L cap = r" "r \<noteq> Ok ()"
  shows "defect L (refs_of L start ops) start cap r"
  using check_no_cycles_defect assms by blast

text \<open>
  C12: The check decides exactly whether a metric would be on or above a cycle of references. When every metric
  reachable from the new one resolves and no chain of different metrics is longer than the depth cap allows, the check accepts if and
  only if no reachable metric reaches itself; and when it rejects, it names a self-reference, a chain together with
  a reference back into it, or, where the reference back leaves a chain that fills the cap, the depth.
\<close>

theorem cycle_check_exact:
  assumes "S = refs_of L start ops" "\<forall>u. (ref_edge S)\<^sup>*\<^sup>* start u \<longrightarrow> (\<exists>ms. S u = Ok ms)"
    and "\<forall>p. ref_path S start p \<and> distinct p \<longrightarrow> length p \<le> cap + 1"
  shows "(check_no_cycles start ops L cap = Ok () \<longleftrightarrow> \<not> (\<exists>u. (ref_edge S)\<^sup>*\<^sup>* start u \<and> (ref_edge S)\<^sup>+\<^sup>+ u u)) \<and>
    (check_no_cycles start ops L cap = Ok () \<or>
     check_no_cycles start ops L cap = Err (self_reference_error start) \<and> ref_edge S start start \<or>
     (\<exists>p x. check_no_cycles start ops L cap = Err (cycle_error p x) \<and> ref_path S start p \<and> ref_edge S (List.last p) x \<and> x \<in> set p) \<or>
     (\<exists>p. check_no_cycles start ops L cap = Err (depth_error (cap + 1) cap) \<and> ref_path S start p \<and> length p = cap + 2 \<and> \<not> distinct p))"
proof (cases "check_no_cycles start ops L cap = Ok ()")
  case True
  have "\<not> (ref_edge S)\<^sup>+\<^sup>+ u u" if "(ref_edge S)\<^sup>*\<^sup>* start u" for u
    using grounded_acyclic grounded_reachable [OF that] check_no_cycles_grounded [OF True] assms(1) by blast
  then show ?thesis using True by blast
next
  case False
  have resolves: "\<exists>ms. neighbors L (List.last p) = Ok ms" if "ref_path S start p" "List.last p \<noteq> start" for p
    using assms(2) path_from_start [OF that(1)] that(2) by (auto simp: assms(1) refs_of_def)
  from check_no_cycles_defect [OF False, folded assms(1)] show ?thesis
  proof cases
    case self_reference
    then show ?thesis using False by (metis rtranclp.rtrancl_refl tranclp.r_into_trancl)
  next
    case (cycle p x)
    then show ?thesis using False edge_into_path_cycle [OF cycle(2,3,4)] by metis
  next
    case (too_deep p)
    then have "\<not> distinct p" using assms(3) by fastforce
    moreover have "p = butlast p @ [List.last p]" using too_deep(3) by (cases p rule: rev_cases) simp_all
    ultimately have "List.last p \<in> set (butlast p)" using too_deep(4) distinct_append [of "butlast p" "[List.last p]"] by auto
    moreover have "1 < length p" using too_deep(3) by simp
    ultimately have "\<exists>u. (ref_edge S)\<^sup>*\<^sup>* start u \<and> (ref_edge S)\<^sup>+\<^sup>+ u u"
      using path_butlast [OF too_deep(2)] edge_into_path_cycle by blast
    then show ?thesis using False too_deep(1-3) \<open>\<not> distinct p\<close> by blast
  next
    case (unresolved p e)
    with resolves [OF unresolved(2,3)] show ?thesis by simp
  next
    case (aborted p)
    with resolves [OF aborted(2,3)] show ?thesis by simp
  qed
qed

section \<open>Witnesses\<close>

text \<open>A catalogue of composite metrics given by a table.\<close>

definition table_lookup :: "(string \<times> string list) list \<Rightarrow> metric_lookup" where
  "table_lookup t =
     \<lparr>exists_all = (\<lambda>ids. Ok (\<forall>i \<in> set ids. map_of t i \<noteq> None)),
      composite_operands = (\<lambda>i. ok_or (StoreNotFound i) (map_of t i)),
      metricql_refs = (\<lambda>i. ok_or (StoreNotFound i) (map_option (\<lambda>_. []) (map_of t i))),
      type_of_metric = (\<lambda>i. ok_or (StoreNotFound i) (map_option (\<lambda>_. MtComposite) (map_of t i)))\<rparr>"

text \<open>
  The depth cap is not a bound on the nesting of metrics: a metric that was finished at a small depth is skipped when it is met again further down, so with cap 3 a metric is accepted that has a chain of four references below it.
\<close>

theorem depth_cap_bypassed:
  "check_no_cycles ''r'' [''x'', ''y''] (table_lookup [(''x'', [''z'']), (''y'', [''w'']), (''w'', [''x'']), (''z'', [])]) 3 = Ok () \<and>
   ref_path (refs_of (table_lookup [(''x'', [''z'']), (''y'', [''w'']), (''w'', [''x'']), (''z'', [])]) ''r'' [''x'', ''y''])
     ''r'' [''r'', ''y'', ''w'', ''x'', ''z'']"
proof
  show "check_no_cycles ''r'' [''x'', ''y''] (table_lookup [(''x'', [''z'']), (''y'', [''w'']), (''w'', [''x'']), (''z'', [])]) 3 = Ok ()"
    by code_simp
qed (simp add: ref_path_def ref_edge_def refs_of_def neighbors_def table_lookup_def)

theorem cycle_check_sound_witness:
  "(\<exists>ms. refs_of (table_lookup [(''x'', [])]) ''r'' [''x''] ''x'' = Ok ms) \<and>
   \<not> (ref_edge (refs_of (table_lookup [(''x'', [])]) ''r'' [''x'']))\<^sup>+\<^sup>+ ''x'' ''x''"
proof (rule cycle_check_sound [where cap = 5])
  show "check_no_cycles ''r'' [''x''] (table_lookup [(''x'', [])]) 5 = Ok ()" by code_simp
  show "(ref_edge (refs_of (table_lookup [(''x'', [])]) ''r'' [''x'']))\<^sup>*\<^sup>* ''r'' ''x''"
    by (rule r_into_rtranclp) (simp add: ref_edge_def refs_of_def)
qed

theorem cycle_check_rejections_genuine_witness:
  "defect (table_lookup [(''x'', [''r''])]) (refs_of (table_lookup [(''x'', [''r''])]) ''r'' [''x'']) ''r'' 5
     (Err (cycle_error [''r'', ''x''] ''r''))"
proof (rule cycle_check_rejections_genuine)
  show "check_no_cycles ''r'' [''x''] (table_lookup [(''x'', [''r''])]) 5 = Err (cycle_error [''r'', ''x''] ''r'')" by code_simp
qed simp

lemma leaf_paths:
  assumes "ref_path (refs_of (table_lookup [(''x'', [])]) ''r'' [''x'']) ''r'' p"
  shows "length p \<le> 2"
proof (cases p)
  case (Cons a q)
  then show ?thesis using assms
    by (cases q; cases "tl q")
      (auto simp: ref_path_def ref_edge_def refs_of_def neighbors_def table_lookup_def split: if_splits)
qed simp

text \<open>A metric whose operand refers back to it is rejected, with the chain in the message.\<close>

theorem cycle_check_exact_witness:
  "check_no_cycles ''r'' [''x''] (table_lookup [(''x'', [''r''])]) 2 = Err (cycle_error [''r'', ''x''] ''r'') \<and>
   (\<exists>u. (ref_edge (refs_of (table_lookup [(''x'', [''r''])]) ''r'' [''x'']))\<^sup>*\<^sup>* ''r'' u \<and>
     (ref_edge (refs_of (table_lookup [(''x'', [''r''])]) ''r'' [''x'']))\<^sup>+\<^sup>+ u u)"
proof -
  let ?L = "table_lookup [(''x'', [''r''])]" and ?S = "refs_of (table_lookup [(''x'', [''r''])]) ''r'' [''x'']"
  have edge: "ref_edge ?S u v \<longleftrightarrow> u = ''r'' \<and> v = ''x'' \<or> u = ''x'' \<and> v = ''r''" for u v
    by (auto simp: ref_edge_def refs_of_def neighbors_def table_lookup_def split: if_splits)
  have nodes: "u = ''r'' \<or> u = ''x''" if "(ref_edge ?S)\<^sup>*\<^sup>* ''r'' u" for u
    using that by (induction rule: rtranclp_induct) (auto simp: edge)
  have "\<exists>ms. ?S ''r'' = Ok ms" "\<exists>ms. ?S ''x'' = Ok ms" by (simp_all add: refs_of_def neighbors_def table_lookup_def)
  then have 1: "\<forall>u. (ref_edge ?S)\<^sup>*\<^sup>* ''r'' u \<longrightarrow> (\<exists>ms. ?S u = Ok ms)" using nodes by blast
  have 2: "\<forall>p. ref_path ?S ''r'' p \<and> distinct p \<longrightarrow> length p \<le> 2 + 1"
  proof (intro allI impI, elim conjE)
    fix p assume p: "ref_path ?S ''r'' p" "distinct p"
    have "set p \<subseteq> {''r'', ''x''}" using nodes path_members [OF p(1)] by blast
    then have "card (set p) \<le> card {''r'' :: string, ''x''}" by (intro card_mono) auto
    then show "length p \<le> 2 + 1" using distinct_card [OF p(2)] by simp
  qed
  have "check_no_cycles ''r'' [''x''] ?L 2 = Err (cycle_error [''r'', ''x''] ''r'')" by code_simp
  then show ?thesis using cycle_check_exact [OF refl 1 2] by simp
qed

end
