(* ===== verification/Filter_Sql.thy ===== *)
theory Filter_Sql
  imports Metricql_Lexer Rust_Text
begin

text \<open>
  The allow-list parser for \<^verbatim>\<open>filter_sql\<close> (\<^verbatim>\<open>validators/filter_sql.rs\<close>): the pre-checks, the
  tokenizer and the validator. Slices of a \<^verbatim>\<open>str\<close> that do not fall on a character boundary panic, so
  the panics of the error path are part of the model. The lemmas show what an accepted filter is made
  of, that the validator answers on every ASCII text, and where it does not do what it promises.
\<close>

section \<open>Bytes\<close>

definition is_ascii_alpha :: "char \<Rightarrow> bool" where
  "is_ascii_alpha c \<longleftrightarrow> is_ascii_lower c \<or> CHR ''A'' \<le> c \<and> c \<le> CHR ''Z''"

definition is_word_char :: "char \<Rightarrow> bool" where
  "is_word_char c \<longleftrightarrow> is_ascii_alpha c \<or> is_ascii_digit c \<or> c = CHR ''_''"

definition ascii_upper :: "char \<Rightarrow> char" where
  "ascii_upper c = (if is_ascii_lower c then char_of (of_char c - 32 :: nat) else c)"

definition to_ascii_uppercase :: "string \<Rightarrow> string" where
  "to_ascii_uppercase s = map ascii_upper s"

definition eq_ignore_ascii_case :: "string \<Rightarrow> string \<Rightarrow> bool" where
  "eq_ignore_ascii_case a b \<longleftrightarrow> to_ascii_uppercase a = to_ascii_uppercase b"

text \<open>\<^verbatim>\<open>s.chars().all(char::is_whitespace)\<close>: the Unicode white space, in its UTF-8 encoding.\<close>

fun blank :: "string \<Rightarrow> bool" where
  "blank [] = True"
| "blank (a # s) =
     (if is_ascii a then latin1_whitespace a \<and> blank s
      else case s of
             [] \<Rightarrow> False
           | b # s2 \<Rightarrow>
               if whitespace2 (of_char a) (of_char b) then blank s2
               else case s2 of
                      [] \<Rightarrow> False
                    | c # s3 \<Rightarrow> whitespace3 (of_char a) (of_char b) (of_char c) \<and> blank s3)"

fun is_identifier :: "string \<Rightarrow> bool" where
  "is_identifier [] = False"
| "is_identifier (c # s) = ((is_ascii_lower c \<or> c = CHR ''_'') \<and>
     list_all (\<lambda>c. is_ascii_lower c \<or> is_ascii_digit c \<or> c = CHR ''_'') s)"

section \<open>Checks before tokenizing\<close>

definition max_filter_sql_len :: nat where
  "max_filter_sql_len = 4096"

definition invalid :: "string \<Rightarrow> status" where
  "invalid msg = Status InvalidArgument msg"

definition keywords_followable_by_paren :: "string list" where
  "keywords_followable_by_paren = [''IN'', ''NOT'', ''AND'', ''OR'']"

definition is_keyword_followable_by_paren :: "string \<Rightarrow> bool" where
  "is_keyword_followable_by_paren word \<longleftrightarrow> list_ex (eq_ignore_ascii_case word) keywords_followable_by_paren"

text \<open>The mask of the bytes inside string literals; the quotes themselves are inside.\<close>

fun mask_from :: "bool \<Rightarrow> string \<Rightarrow> bool list" where
  "mask_from in_string [] = []"
| "mask_from in_string (b # bs) =
     (if b = CHR 0x27 then True # mask_from (\<not> in_string) bs else in_string # mask_from in_string bs)"

definition string_literal_mask :: "string \<Rightarrow> bool list" where
  "string_literal_mask sql = mask_from False sql"

text \<open>The loop over the bytes; \<open>word_start\<close> is the start of the word being read.\<close>

fun call_scan :: "string \<Rightarrow> string \<Rightarrow> bool list \<Rightarrow> nat \<Rightarrow> nat option \<Rightarrow> bool" where
  "call_scan sql (b # bs) (m # ms) i word_start =
     (if m then call_scan sql bs ms (i + 1) None
      else if is_word_char b
      then call_scan sql bs ms (i + 1) (if word_start = None then Some i else word_start)
      else if b = CHR ''('' \<and> (case word_start of None \<Rightarrow> False | Some start \<Rightarrow> \<not> is_keyword_followable_by_paren (substr sql start i))
      then True
      else call_scan sql bs ms (i + 1) None)"
| "call_scan sql _ _ i word_start = False"

definition contains_function_call :: "string \<Rightarrow> bool" where
  "contains_function_call sql = call_scan sql sql (string_literal_mask sql) 0 None"

definition keyword_at :: "string \<Rightarrow> bool list \<Rightarrow> string \<Rightarrow> nat \<Rightarrow> bool" where
  "keyword_at s lit k i \<longleftrightarrow>
     \<not> lit ! i \<and> \<not> (0 < i \<and> is_word_char (s ! (i - 1))) \<and>
     list_all (\<lambda>j. \<not> lit ! (i + j) \<and> ascii_upper (s ! (i + j)) = ascii_upper (k ! j)) [0..<length k] \<and>
     \<not> (i + length k < length s \<and> is_word_char (s ! (i + length k)))"

definition contains_keyword_ci :: "string \<Rightarrow> string \<Rightarrow> bool" where
  "contains_keyword_ci s k =
     (if length s < length k then False
      else list_ex (keyword_at s (string_literal_mask s) k) [0..<length s - length k + 1])"

definition contains_select_keyword :: "string \<Rightarrow> bool" where
  "contains_select_keyword sql = contains_keyword_ci sql ''SELECT''"

section \<open>The tokenizer\<close>

datatype filter_token = FIdentifier string | FNumeric | FStringLiteral | FOperator | FLParen | FRParen | FComma

definition match_symbolic_operator :: "string \<Rightarrow> nat option" where
  "match_symbolic_operator b =
     (if 2 \<le> length b \<and> (b ! 0 = CHR ''!'' \<or> b ! 0 = CHR ''<'' \<or> b ! 0 = CHR ''>'') \<and> b ! 1 = CHR ''='' then Some 2
      else if b \<noteq> [] \<and> (b ! 0 = CHR ''='' \<or> b ! 0 = CHR ''<'' \<or> b ! 0 = CHR ''>'') then Some 1
      else None)"

definition match_numeric :: "string \<Rightarrow> nat option" where
  "match_numeric b =
     (let minus = (b ! 0 = CHR ''-''); digit_start = (if minus then 1 else 0)
      in if minus \<and> (length b \<le> 1 \<or> \<not> is_ascii_digit (b ! 1)) then None
         else let i = scan_while is_ascii_digit b digit_start
              in if i = digit_start then None
                 else if i < length b \<and> b ! i = CHR ''.''
                 then let j = scan_while is_ascii_digit b (i + 1) in if j = i + 1 then None else Some j
                 else Some i)"

definition word_len :: "string \<Rightarrow> nat" where
  "word_len s = scan_while is_word_char s 0"

definition skip_whitespace :: "string \<Rightarrow> nat \<Rightarrow> nat" where
  "skip_whitespace src pos = scan_while latin1_whitespace src pos"

text \<open>Slices \<^verbatim>\<open>&s[a..b]\<close> and \<^verbatim>\<open>&self.src[self.pos..]\<close>.\<close>

abbreviation sql_slice :: "string \<Rightarrow> nat \<Rightarrow> nat \<Rightarrow> (status, string) outcome" where
  "sql_slice \<equiv> str_index"

definition sql_rest :: "string \<Rightarrow> nat \<Rightarrow> (status, string) outcome" where
  "sql_rest src pos = sql_slice src pos (length src)"

text \<open>After the words \<^verbatim>\<open>IS NOT\<close>, and after the word \<^verbatim>\<open>IS\<close>.\<close>

definition null_after_not :: "string \<Rightarrow> nat \<Rightarrow> (status, filter_token \<times> nat) outcome" where
  "null_after_not src pos0 =
     (let pos = skip_whitespace src pos0
      in obind (sql_rest src pos) (\<lambda>after_not.
         let final_wlen = word_len after_not
         in if final_wlen = 0 then Err (invalid (''filter_sql '' @ [CHR 0x27] @ ''IS NOT'' @ [CHR 0x27] @ '' must be followed by NULL''))
            else obind (sql_slice after_not 0 final_wlen) (\<lambda>final_word.
              if eq_ignore_ascii_case final_word ''NULL'' then Ok (FOperator, pos + final_wlen)
              else Err (invalid (''filter_sql '' @ [CHR 0x27] @ ''IS NOT'' @ [CHR 0x27] @ '' must be followed by NULL, got: '' @ final_word)))))"

definition is_null_operator :: "string \<Rightarrow> nat \<Rightarrow> (status, filter_token \<times> nat) outcome" where
  "is_null_operator src pos0 =
     (let pos = skip_whitespace src pos0
      in obind (sql_rest src pos) (\<lambda>after_is.
         let next_wlen = word_len after_is
         in if next_wlen = 0 then Err (invalid (''filter_sql '' @ [CHR 0x27] @ ''IS'' @ [CHR 0x27] @ '' must be followed by NULL or NOT NULL''))
            else obind (sql_slice after_is 0 next_wlen) (\<lambda>next_word.
              if to_ascii_uppercase next_word = ''NULL'' then Ok (FOperator, pos + next_wlen)
              else if to_ascii_uppercase next_word = ''NOT'' then null_after_not src (pos + next_wlen)
              else Err (invalid (''filter_sql '' @ [CHR 0x27] @ ''IS'' @ [CHR 0x27] @ '' must be followed by NULL or NOT NULL, got: '' @ next_word)))))"

definition word_token :: "string \<Rightarrow> nat \<Rightarrow> string \<Rightarrow> (status, filter_token \<times> nat) outcome" where
  "word_token src pos rest =
     (let wlen = word_len rest
      in obind (sql_slice rest 0 wlen) (\<lambda>word.
         let upper = to_ascii_uppercase word
         in if upper \<in> set [''AND'', ''OR'', ''NOT'', ''IN''] then Ok (FOperator, pos + wlen)
            else if upper = ''IS'' then is_null_operator src (pos + wlen)
            else if is_identifier word then Ok (FIdentifier word, pos + wlen)
            else Err (invalid (''filter_sql contains disallowed token: '' @ word))))"

text \<open>The run of at most 32 bytes that the error message shows.\<close>

definition stray_token :: "string \<Rightarrow> (status, filter_token \<times> nat) outcome" where
  "stray_token rest =
     (let cut = min 32 (scan_while (\<lambda>c. \<not> latin1_whitespace c) rest 0)
      in obind (sql_slice rest 0 cut) (\<lambda>token. Err (invalid (''filter_sql contains disallowed token: '' @ token))))"

definition string_token :: "nat \<Rightarrow> string \<Rightarrow> (status, filter_token \<times> nat) outcome" where
  "string_token pos rest =
     (let i = scan_while (\<lambda>c. c \<noteq> CHR 0x27) rest 1
      in if length rest \<le> i then Err (invalid ''filter_sql contains unterminated string literal'')
         else Ok (FStringLiteral, pos + i + 1))"

definition token_at :: "string \<Rightarrow> nat \<Rightarrow> string \<Rightarrow> (status, filter_token \<times> nat) outcome" where
  "token_at src pos rest =
     (let first = rest ! 0
      in if first = CHR ''('' then Ok (FLParen, pos + 1)
         else if first = CHR '')'' then Ok (FRParen, pos + 1)
         else if first = CHR '','' then Ok (FComma, pos + 1)
         else case match_symbolic_operator rest of
                Some consumed \<Rightarrow> Ok (FOperator, pos + consumed)
              | None \<Rightarrow>
                  if first = CHR 0x27 then string_token pos rest
                  else case (if first = CHR ''-'' \<or> is_ascii_digit first then match_numeric rest else None) of
                         Some consumed \<Rightarrow> Ok (FNumeric, pos + consumed)
                       | None \<Rightarrow>
                           if is_ascii_alpha first \<or> first = CHR ''_'' then word_token src pos rest
                           else stray_token rest)"

definition next_token :: "string \<Rightarrow> nat \<Rightarrow> (status, (filter_token \<times> nat) option) outcome" where
  "next_token src pos0 =
     (let pos = skip_whitespace src pos0
      in obind (sql_rest src pos) (\<lambda>rest.
           if rest = [] then Ok None
           else obind (token_at src pos rest) (\<lambda>tp. Ok (Some tp))))"

section \<open>Tokens as pieces of the text\<close>

lemma scan_while_takeWhile: "pos \<le> length s \<Longrightarrow> scan_while P s pos = pos + length (takeWhile P (drop pos s))"
proof (induction P s pos rule: scan_while.induct)
  case (1 P s pos)
  show ?case
  proof (cases "pos < length s")
    case True
    then show ?thesis using 1 by (simp add: scan_while.simps [of P s pos] Cons_nth_drop_Suc [symmetric])
  qed (use 1 in \<open>simp add: scan_while.simps [of P s "length s"]\<close>)
qed

lemma word_len_eq: "word_len s = length (takeWhile is_word_char s)"
  by (simp add: word_len_def scan_while_takeWhile)

lemma substr_takeWhile: "substr s 0 (length (takeWhile P s)) = takeWhile P s"
  by (simp add: substr_def takeWhile_eq_take [symmetric])

lemma str_index_Ok_iff: "str_index s a b = Ok t \<longleftrightarrow> a \<le> b \<and> b \<le> length s \<and> is_char_boundary s a \<and> is_char_boundary s b \<and> t = substr s a b"
  by (auto simp: str_index_def)

lemma sql_rest_Ok: "sql_rest src pos = Ok rest \<Longrightarrow> rest = drop pos src \<and> pos \<le> length src"
  by (auto simp: sql_rest_def str_index_Ok_iff substr_def)

lemma word_Ok: "sql_slice s 0 (word_len s) = Ok w \<Longrightarrow> w = takeWhile is_word_char s"
  by (simp add: str_index_Ok_iff word_len_eq substr_takeWhile)

text \<open>The texts of the allow-list.\<close>

definition number_piece :: "string \<Rightarrow> bool" where
  "number_piece p \<longleftrightarrow>
     (\<exists>sign ds fs. p = sign @ ds @ fs \<and> sign \<in> {[], ''-''} \<and> ds \<noteq> [] \<and> list_all is_ascii_digit ds \<and>
        (fs = [] \<or> (\<exists>f. fs = CHR ''.'' # f \<and> f \<noteq> [] \<and> list_all is_ascii_digit f)))"

definition word_piece :: "string \<Rightarrow> bool" where
  "word_piece p \<longleftrightarrow> is_identifier p \<or> to_ascii_uppercase p \<in> {''AND'', ''OR'', ''NOT'', ''IN'', ''IS'', ''NULL''}"

definition string_piece :: "string \<Rightarrow> bool" where
  "string_piece p \<longleftrightarrow> (\<exists>s. p = CHR 0x27 # s @ [CHR 0x27] \<and> CHR 0x27 \<notin> set s)"

definition symbol_piece :: "string \<Rightarrow> bool" where
  "symbol_piece p \<longleftrightarrow> p \<in> {''='', ''!='', ''<'', ''<='', ''>'', ''>='', ''('', '')'', '',''}"

definition space_piece :: "string \<Rightarrow> bool" where
  "space_piece p \<longleftrightarrow> (\<exists>c. p = [c] \<and> latin1_whitespace c)"

definition allowed_piece :: "string \<Rightarrow> bool" where
  "allowed_piece p \<longleftrightarrow> number_piece p \<or> word_piece p \<or> string_piece p \<or> symbol_piece p \<or> space_piece p"

text \<open>
  Words and numbers are read as far as they go: after a word the text ends or has another byte than a
  word character, after a number another byte than a digit.
\<close>

fun separated :: "string list \<Rightarrow> string \<Rightarrow> bool" where
  "separated [] tail \<longleftrightarrow> True"
| "separated (p # ps) tail \<longleftrightarrow>
     (word_piece p \<longrightarrow> takeWhile is_word_char (concat ps @ tail) = []) \<and>
     (number_piece p \<longrightarrow> takeWhile is_ascii_digit (concat ps @ tail) = []) \<and> separated ps tail"

lemma separated_append [simp]: "separated (ps @ qs) tail \<longleftrightarrow> separated ps (concat qs @ tail) \<and> separated qs tail"
  by (induction ps) auto

definition pieces :: "string list \<Rightarrow> string \<Rightarrow> bool" where
  "pieces ps tail \<longleftrightarrow> list_all allowed_piece ps \<and> separated ps tail"

lemma pieces_append [simp]: "pieces (ps @ qs) tail \<longleftrightarrow> pieces ps (concat qs @ tail) \<and> pieces qs tail"
  by (auto simp: pieces_def)

lemma pieces_Nil [simp]: "pieces [] tail"
  by (simp add: pieces_def)

lemma word_chars: "is_identifier w \<Longrightarrow> list_all is_word_char w"
  by (cases w) (auto simp: is_word_char_def is_ascii_alpha_def list_all_iff)

lemma ascii_upper_letter: "CHR ''A'' \<le> ascii_upper c \<and> ascii_upper c \<le> CHR ''Z'' \<Longrightarrow> is_ascii_alpha c"
  by (auto simp: is_ascii_alpha_def ascii_upper_def)

lemma keyword_start: "to_ascii_uppercase (c # s) \<in> {''AND'', ''OR'', ''NOT'', ''IN'', ''IS'', ''NULL''} \<Longrightarrow> is_ascii_alpha c"
  by (rule ascii_upper_letter) (auto simp: to_ascii_uppercase_def less_eq_char_def)

lemma not_word_piece: "string_piece p \<Longrightarrow> \<not> word_piece p" "symbol_piece p \<Longrightarrow> \<not> word_piece p" "number_piece p \<Longrightarrow> \<not> word_piece p"
proof -
  have word: "is_ascii_alpha (hd p) \<or> hd p = CHR ''_''" if "word_piece p" for p
  proof (cases p)
    case (Cons c s)
    then show ?thesis using that keyword_start [of c s] by (auto simp: word_piece_def is_ascii_alpha_def)
  qed (use that in \<open>simp add: word_piece_def to_ascii_uppercase_def\<close>)
  show "string_piece p \<Longrightarrow> \<not> word_piece p" using word [of p] by (auto simp: string_piece_def is_ascii_alpha_def is_ascii_lower_def less_eq_char_def)
  show "symbol_piece p \<Longrightarrow> \<not> word_piece p" using word [of p] by (auto simp: symbol_piece_def is_ascii_alpha_def is_ascii_lower_def less_eq_char_def)
  show "number_piece p \<Longrightarrow> \<not> word_piece p" using word [of p]
    by (auto simp: number_piece_def is_ascii_alpha_def is_ascii_lower_def is_ascii_digit_def less_eq_char_def neq_Nil_conv)
qed

lemma number_hd: "number_piece p \<Longrightarrow> is_ascii_digit (hd p) \<or> hd p = CHR ''-''"
  by (auto simp: number_piece_def neq_Nil_conv)

lemma not_number_piece: "string_piece p \<Longrightarrow> \<not> number_piece p" "symbol_piece p \<Longrightarrow> \<not> number_piece p" "space_piece p \<Longrightarrow> \<not> number_piece p"
proof -
  note num = number_hd
  show "string_piece p \<Longrightarrow> \<not> number_piece p" using num [of p] by (auto simp: string_piece_def is_ascii_digit_def less_eq_char_def)
  show "symbol_piece p \<Longrightarrow> \<not> number_piece p" using num [of p] by (auto simp: symbol_piece_def is_ascii_digit_def less_eq_char_def)
  show "space_piece p \<Longrightarrow> \<not> number_piece p" using num [of p]
    by (auto simp: space_piece_def latin1_whitespace_def is_ascii_digit_of_char Let_def)
qed

lemma space_not_word: "latin1_whitespace c \<Longrightarrow> \<not> is_word_char c"
  by (auto simp: latin1_whitespace_def is_word_char_def is_ascii_alpha_def is_ascii_lower_def is_ascii_digit_def less_eq_char_def Let_def)

lemma space_pieces:
  assumes "list_all latin1_whitespace s"
  shows "pieces (map (\<lambda>c. [c]) s) tail" "concat (map (\<lambda>c. [c]) s) = s"
proof -
  have "\<not> word_piece [c]" if "latin1_whitespace c" for c
    using space_not_word [OF that] word_chars [of "[c]"] by (auto simp: word_piece_def to_ascii_uppercase_def)
  then show "pieces (map (\<lambda>c. [c]) s) tail"
    using assms not_number_piece(3) by (induction s) (auto simp: pieces_def allowed_piece_def space_piece_def)
qed simp

lemma skip_whitespace_drop:
  assumes "pos \<le> length src"
  obtains ws where "drop pos src = ws @ drop (skip_whitespace src pos) src" "list_all latin1_whitespace ws"
    "skip_whitespace src pos = pos + length ws"
proof
  let ?ws = "takeWhile latin1_whitespace (drop pos src)"
  show "skip_whitespace src pos = pos + length ?ws" using assms by (simp add: skip_whitespace_def scan_while_takeWhile)
  then show "drop pos src = ?ws @ drop (skip_whitespace src pos) src"
    by (metis drop_drop add.commute dropWhile_eq_drop takeWhile_dropWhile_id)
  show "list_all latin1_whitespace ?ws" by (auto simp: list_all_iff dest: set_takeWhileD)
qed

definition consumes :: "string \<Rightarrow> nat \<Rightarrow> string list \<Rightarrow> nat \<Rightarrow> bool" where
  "consumes src pos ps stop \<longleftrightarrow>
     drop pos src = concat ps @ drop stop src \<and> stop = pos + length (concat ps) \<and> pieces ps (drop stop src)"

lemma consumes_trans: "consumes src a ps b \<Longrightarrow> consumes src b qs c \<Longrightarrow> consumes src a (ps @ qs) c"
  by (auto simp: consumes_def)

lemma consumes_whitespace: "pos \<le> length src \<Longrightarrow> \<exists>ps. consumes src pos ps (skip_whitespace src pos)"
proof -
  assume "pos \<le> length src"
  then obtain ws where "drop pos src = ws @ drop (skip_whitespace src pos) src" "list_all latin1_whitespace ws"
    "skip_whitespace src pos = pos + length ws" by (rule skip_whitespace_drop)
  then have "consumes src pos (map (\<lambda>c. [c]) ws) (skip_whitespace src pos)" by (simp add: consumes_def space_pieces)
  then show ?thesis ..
qed

lemma consumes_one:
  assumes "drop pos src = p @ tail" "allowed_piece p" "separated [p] tail"
  shows "consumes src pos [p] (pos + length p)"
proof -
  have "drop (pos + length p) src = drop (length p) (drop pos src)" by (simp add: add.commute)
  then have "drop (pos + length p) src = tail" by (simp add: assms(1))
  then show ?thesis using assms by (simp add: consumes_def pieces_def)
qed

lemma takeWhile_dropWhile_Nil: "takeWhile P (dropWhile P xs) = []"
  by (induction xs) auto

lemma consumes_word:
  assumes "w = takeWhile is_word_char (drop pos src)" "word_piece w"
  shows "consumes src pos [w] (pos + word_len (drop pos src))"
  using consumes_one [of pos src w "dropWhile is_word_char (drop pos src)"] assms
  using not_word_piece(3) by (auto simp add: word_len_eq allowed_piece_def takeWhile_dropWhile_Nil)

lemma keyword_word_piece: "to_ascii_uppercase w \<in> {''AND'', ''OR'', ''NOT'', ''IN'', ''IS'', ''NULL''} \<Longrightarrow> word_piece w"
  by (simp add: word_piece_def)

lemma consumes_bound: "consumes src pos ps stop \<Longrightarrow> pos \<le> length src \<Longrightarrow> stop \<le> length src"
  by (auto simp: consumes_def dest!: arg_cong [of _ _ length])

lemma eq_ignore_null: "eq_ignore_ascii_case w ''NULL'' \<longleftrightarrow> to_ascii_uppercase w = ''NULL''"
  by (simp add: eq_ignore_ascii_case_def to_ascii_uppercase_def ascii_upper_def is_ascii_lower_of_char)

lemma consumes_next_word:
  assumes "pos \<le> length src" "sql_rest src (skip_whitespace src pos) = Ok r" "sql_slice r 0 (word_len r) = Ok w"
    and "word_piece w"
  shows "\<exists>ps. consumes src pos ps (skip_whitespace src pos + word_len r)"
proof -
  obtain ps where ps: "consumes src pos ps (skip_whitespace src pos)" using consumes_whitespace [OF assms(1)] ..
  have r: "r = drop (skip_whitespace src pos) src" using sql_rest_Ok [OF assms(2)] by simp
  have "consumes src (skip_whitespace src pos) [w] (skip_whitespace src pos + word_len r)"
    using consumes_word [OF _ assms(4), of "skip_whitespace src pos" src] word_Ok [OF assms(3)] by (simp add: r)
  then show ?thesis using consumes_trans [OF ps] by blast
qed

lemma null_after_not_pieces:
  assumes "null_after_not src pos = Ok (t, stop)" "pos \<le> length src"
  shows "\<exists>ps. consumes src pos ps stop"
proof -
  from assms(1) obtain r w where "sql_rest src (skip_whitespace src pos) = Ok r" "sql_slice r 0 (word_len r) = Ok w"
    "to_ascii_uppercase w = ''NULL''" "stop = skip_whitespace src pos + word_len r"
    by (auto simp: null_after_not_def Let_def obind_Ok_iff eq_ignore_null split: if_splits)
  then show ?thesis using consumes_next_word [OF assms(2)] by (auto simp: word_piece_def)
qed

lemma is_null_pieces:
  assumes "is_null_operator src pos = Ok (t, stop)" "pos \<le> length src"
  shows "\<exists>ps. consumes src pos ps stop"
proof -
  let ?p = "skip_whitespace src pos"
  from assms(1) obtain r w where r: "sql_rest src ?p = Ok r" "sql_slice r 0 (word_len r) = Ok w"
    and run: "to_ascii_uppercase w = ''NULL'' \<and> stop = ?p + word_len r \<or>
      to_ascii_uppercase w = ''NOT'' \<and> null_after_not src (?p + word_len r) = Ok (t, stop)"
    by (auto simp: is_null_operator_def Let_def obind_Ok_iff split: if_splits)
  have "word_piece w" using run by (auto simp: word_piece_def)
  then obtain ps where ps: "consumes src pos ps (?p + word_len r)" using consumes_next_word [OF assms(2) r] by blast
  show ?thesis
    using run
  proof
    assume "to_ascii_uppercase w = ''NOT'' \<and> null_after_not src (?p + word_len r) = Ok (t, stop)"
    then obtain qs where "consumes src (?p + word_len r) qs stop"
      using null_after_not_pieces consumes_bound [OF ps assms(2)] by blast
    then show ?thesis using consumes_trans [OF ps] by blast
  qed (use ps in auto)
qed

lemma symbolic_pieces:
  assumes "match_symbolic_operator rest = Some n"
  shows "rest = take n rest @ drop n rest" "symbol_piece (take n rest)" "length (take n rest) = n"
proof -
  show "length (take n rest) = n" using assms by (cases rest) (auto simp: match_symbolic_operator_def split: if_splits)
  show "symbol_piece (take n rest)"
  proof (cases rest)
    case (Cons a s)
    then show ?thesis using assms
      by (cases s) (auto simp: match_symbolic_operator_def symbol_piece_def split: if_splits)
  qed (use assms in \<open>simp add: match_symbolic_operator_def\<close>)
qed simp

lemma number_pieceI:
  assumes "sign \<in> {[], ''-''}" "ds \<noteq> []" "list_all is_ascii_digit ds"
  shows "number_piece (sign @ ds)" "f \<noteq> [] \<Longrightarrow> list_all is_ascii_digit f \<Longrightarrow> number_piece (sign @ ds @ CHR ''.'' # f)"
  unfolding number_piece_def using assms by blast+

lemma numeric_pieces:
  assumes "match_numeric rest = Some n" "rest \<noteq> []"
  shows "number_piece (take n rest)" "n \<le> length rest" "takeWhile is_ascii_digit (drop n rest) = []"
proof -
  define k where "k = (if rest ! 0 = CHR ''-'' then 1 else 0 :: nat)"
  define ds where "ds = takeWhile is_ascii_digit (drop k rest)"
  have k: "k \<le> length rest" "take k rest \<in> {[], ''-''}" using assms(2) by (cases rest; simp add: k_def)+
  have i: "scan_while is_ascii_digit rest k = k + length ds" using k by (simp add: scan_while_takeWhile ds_def)
  have ds: "list_all is_ascii_digit ds" by (auto simp: ds_def list_all_iff dest: set_takeWhileD)
  have rest: "rest = take k rest @ ds @ drop (k + length ds) rest"
    by (metis append_take_drop_id ds_def dropWhile_eq_drop drop_drop add.commute takeWhile_dropWhile_id)
  let ?i = "k + length ds"
  have len: "?i \<le> length rest" using arg_cong [OF rest, of length] k by simp
  have take_i: "take ?i rest = take k rest @ ds"
    using arg_cong [OF rest, of "take ?i"] k by simp
  have ne: "ds \<noteq> []" using assms(1) i by (auto simp: match_numeric_def Let_def k_def split: if_splits)
  have digits_end: "takeWhile is_ascii_digit (drop (i + length (takeWhile is_ascii_digit (drop i rest))) rest) = []" for i
    using takeWhile_dropWhile_Nil [of is_ascii_digit "drop i rest"] by (simp add: dropWhile_eq_drop add.commute)
  show "number_piece (take n rest)" "n \<le> length rest" "takeWhile is_ascii_digit (drop n rest) = []"
  proof (atomize (full), cases "?i < length rest \<and> rest ! ?i = CHR ''.''")
    case True
    define f where "f = takeWhile is_ascii_digit (drop (?i + 1) rest)"
    have j: "scan_while is_ascii_digit rest (?i + 1) = ?i + 1 + length f" using True by (simp add: scan_while_takeWhile f_def)
    have n: "n = ?i + 1 + length f" "f \<noteq> []"
      using assms(1) i j True by (auto simp: match_numeric_def Let_def k_def split: if_splits)
    have f: "list_all is_ascii_digit f" by (auto simp: f_def list_all_iff dest: set_takeWhileD)
    have d: "drop ?i rest = CHR ''.'' # drop (?i + 1) rest" using True by (metis Cons_nth_drop_Suc Suc_eq_plus1)
    have "take (1 + length f) (drop ?i rest) = CHR ''.'' # f" unfolding d by (simp add: f_def takeWhile_eq_take [symmetric])
    then have "take n rest = take k rest @ ds @ CHR ''.'' # f"
      using take_add [of ?i "1 + length f" rest] take_i by (simp add: n add.assoc)
    moreover have "length f \<le> length (drop (?i + 1) rest)" unfolding f_def by (rule length_takeWhile_le)
    ultimately show "number_piece (take n rest) \<and> n \<le> length rest \<and> takeWhile is_ascii_digit (drop n rest) = []"
      using number_pieceI(2) [OF k(2) ne ds n(2) f] n True digits_end [of "?i + 1"] by (auto simp: f_def)
  next
    case False
    then have "n = ?i" using assms(1) i by (auto simp: match_numeric_def Let_def k_def split: if_splits)
    then show "number_piece (take n rest) \<and> n \<le> length rest \<and> takeWhile is_ascii_digit (drop n rest) = []"
      using number_pieceI(1) [OF k(2) ne ds] len take_i digits_end [of k] by (simp add: ds_def)
  qed
qed

lemma string_pieces:
  assumes "string_token pos rest = Ok (t, stop)" "rest \<noteq> []" "rest ! 0 = CHR 0x27"
  obtains p tail where "rest = p @ tail" "string_piece p" "stop = pos + length p"
proof -
  obtain s where s: "rest = CHR 0x27 # s" using assms(2,3) by (cases rest) auto
  let ?body = "takeWhile (\<lambda>c. c \<noteq> CHR 0x27) s"
  have i: "scan_while (\<lambda>c. c \<noteq> CHR 0x27) rest 1 = 1 + length ?body" by (simp add: s scan_while_takeWhile)
  then have "length ?body < length s" and stop: "stop = pos + (1 + length ?body) + 1"
    using assms(1) by (auto simp: string_token_def Let_def s split: if_splits)
  then have "dropWhile (\<lambda>c. c \<noteq> CHR 0x27) s \<noteq> []" by (metis append_Nil2 less_irrefl takeWhile_dropWhile_id)
  then obtain tail where "dropWhile (\<lambda>c. c \<noteq> CHR 0x27) s = CHR 0x27 # tail"
    using hd_dropWhile [of "\<lambda>c. c \<noteq> CHR 0x27" s] by (cases "dropWhile (\<lambda>c. c \<noteq> CHR 0x27) s") auto
  then have "rest = (CHR 0x27 # ?body @ [CHR 0x27]) @ tail" using takeWhile_dropWhile_id [of "\<lambda>c. c \<noteq> CHR 0x27" s] by (simp add: s)
  moreover have "string_piece (CHR 0x27 # ?body @ [CHR 0x27])"
    unfolding string_piece_def by (auto dest: set_takeWhileD)
  ultimately show ?thesis by (rule that) (simp add: stop)
qed

lemma word_token_pieces:
  assumes "word_token src pos (drop pos src) = Ok (t, stop)" "pos \<le> length src"
  shows "\<exists>ps. ps \<noteq> [] \<and> consumes src pos ps stop"
proof -
  let ?r = "drop pos src"
  from assms(1) obtain w where w: "sql_slice ?r 0 (word_len ?r) = Ok w"
    and run: "to_ascii_uppercase w \<in> {''AND'', ''OR'', ''NOT'', ''IN''} \<and> stop = pos + word_len ?r \<or>
      to_ascii_uppercase w = ''IS'' \<and> is_null_operator src (pos + word_len ?r) = Ok (t, stop) \<or>
      is_identifier w \<and> stop = pos + word_len ?r"
    by (auto simp: word_token_def Let_def obind_Ok_iff split: if_splits)
  have "word_piece w" using run by (auto simp: word_piece_def)
  then have c: "consumes src pos [w] (pos + word_len ?r)" using consumes_word [OF word_Ok [OF w]] by simp
  show ?thesis
  proof (cases "stop = pos + word_len ?r")
    case False
    then obtain qs where "consumes src (pos + word_len ?r) qs stop"
      using run is_null_pieces consumes_bound [OF c assms(2)] by blast
    then have "consumes src pos ([w] @ qs) stop" by (rule consumes_trans [OF c])
    then show ?thesis by blast
  qed (use c in auto)
qed

lemma token_pieces:
  assumes "token_at src pos (drop pos src) = Ok (t, stop)" "drop pos src \<noteq> []"
  shows "\<exists>ps. ps \<noteq> [] \<and> consumes src pos ps stop"
proof -
  let ?r = "drop pos src"
  have one: "\<exists>ps. ps \<noteq> [] \<and> consumes src pos ps (pos + length p)" if "?r = p @ tail" "allowed_piece p" "separated [p] tail" for p tail
    using consumes_one [OF that] by blast
  consider (punct) "?r ! 0 \<in> {CHR ''('', CHR '')'', CHR '',''}" "stop = pos + 1"
    | (symbol) n where "match_symbolic_operator ?r = Some n" "stop = pos + n"
    | (string) "string_token pos ?r = Ok (t, stop)" "?r ! 0 = CHR 0x27"
    | (number) n where "match_numeric ?r = Some n" "stop = pos + n"
    | (word) "word_token src pos ?r = Ok (t, stop)"
    using assms(1)
    by (auto simp: token_at_def Let_def stray_token_def obind_Ok_iff split: if_splits option.splits)
  then show ?thesis
  proof cases
    case punct
    then have "?r = [?r ! 0] @ tl ?r" "symbol_piece [?r ! 0]" using assms(2) by (cases ?r; auto simp: symbol_piece_def)+
    then show ?thesis using one [of "[?r ! 0]" "tl ?r"] punct(2) not_word_piece not_number_piece by (simp add: allowed_piece_def)
  next
    case (symbol n)
    then show ?thesis using one symbolic_pieces [OF symbol(1)] not_word_piece(2) not_number_piece(2)
      by (metis allowed_piece_def separated.simps)
  next
    case string
    from string_pieces [OF this(1) assms(2) this(2)] show ?thesis using one not_word_piece(1) not_number_piece(1)
      by (metis allowed_piece_def separated.simps)
  next
    case (number n)
    have "?r = take n ?r @ drop n ?r" by (rule append_take_drop_id [symmetric])
    moreover have "separated [take n ?r] (drop n ?r)" "allowed_piece (take n ?r)" "length (take n ?r) = n"
      using numeric_pieces [OF number(1) assms(2)] not_word_piece(3) by (simp_all add: allowed_piece_def)
    ultimately show ?thesis using one number(2) by metis
  next
    case word
    then show ?thesis using word_token_pieces assms(2) by (metis drop_eq_Nil nat_le_linear)
  qed
qed

lemma next_token_pieces:
  assumes "next_token src pos = Ok (Some (t, stop))" "pos \<le> length src"
  shows "\<exists>ps. ps \<noteq> [] \<and> consumes src pos ps stop"
proof -
  let ?p = "skip_whitespace src pos"
  from assms(1) obtain r where r: "sql_rest src ?p = Ok r" "r \<noteq> []" "token_at src ?p r = Ok (t, stop)"
    by (auto simp: next_token_def Let_def obind_Ok_iff split: if_splits)
  obtain ps where ps: "consumes src pos ps ?p" using consumes_whitespace [OF assms(2)] ..
  obtain qs where "qs \<noteq> []" "consumes src ?p qs stop" using token_pieces r sql_rest_Ok [OF r(1)] by blast
  then show ?thesis using consumes_trans [OF ps] by blast
qed

lemma next_token_end:
  assumes "next_token src pos = Ok None" "pos \<le> length src"
  shows "\<exists>ps. consumes src pos ps (length src)"
proof -
  have "skip_whitespace src pos = length src"
    using assms(1) sql_rest_Ok by (fastforce simp: next_token_def Let_def obind_Ok_iff split: if_splits)
  then show ?thesis using consumes_whitespace [OF assms(2)] by auto
qed

lemma allowed_nonempty: "allowed_piece p \<Longrightarrow> p \<noteq> []"
  by (auto simp: allowed_piece_def number_piece_def word_piece_def string_piece_def symbol_piece_def space_piece_def to_ascii_uppercase_def)

lemma consumes_forward: "consumes src pos ps stop \<Longrightarrow> ps \<noteq> [] \<Longrightarrow> pos < stop"
  using allowed_nonempty by (cases ps) (auto simp: consumes_def pieces_def)

lemma next_token_forward:
  assumes "next_token src pos = Ok (Some (t, stop))"
  shows "pos < stop \<and> stop \<le> length src"
proof -
  have "pos \<le> length src"
    using assms scan_while_ge [of pos latin1_whitespace src]
    by (auto simp: next_token_def Let_def obind_Ok_iff skip_whitespace_def dest!: sql_rest_Ok split: if_splits)
  then show ?thesis using next_token_pieces [OF assms] consumes_forward consumes_bound by blast
qed

section \<open>The validator\<close>

function token_loop :: "string \<Rightarrow> nat \<Rightarrow> (status, unit) outcome" where
  "token_loop src pos =
     obind (next_token src pos) (\<lambda>r. case r of None \<Rightarrow> Ok () | Some (_, stop) \<Rightarrow> token_loop src stop)"
  by pat_completeness auto
termination
  by (relation "measure (\<lambda>(src, pos). length src - pos)") (auto dest!: next_token_forward)

declare token_loop.simps [simp del]

definition contains_pattern :: "string \<Rightarrow> string \<Rightarrow> bool" where
  "contains_pattern s p \<longleftrightarrow> list_ex (\<lambda>i. take (length p) (drop i s) = p) [0..<Suc (length s)]"

definition validate_filter_sql :: "string \<Rightarrow> (status, unit) outcome" where
  "validate_filter_sql sql =
     (if sql = [] \<or> blank sql then Err (invalid ''filter_sql must not be empty'')
      else if max_filter_sql_len < length sql then Err (invalid (''filter_sql exceeds '' @ show_nat max_filter_sql_len @ '' character limit''))
      else if CHR '';'' \<in> set sql then Err (invalid ''filter_sql must not contain semicolons'')
      else if contains_pattern sql ''--'' \<or> contains_pattern sql ''/*'' \<or> contains_pattern sql ''*/''
      then Err (invalid ''filter_sql must not contain SQL comments'')
      else if contains_function_call sql then Err (invalid ''filter_sql must not contain function calls'')
      else if contains_select_keyword sql then Err (invalid ''filter_sql must not contain subqueries'')
      else token_loop sql 0)"

section \<open>Accepted filters\<close>

lemma token_loop_pieces:
  "token_loop src pos = Ok () \<Longrightarrow> pos \<le> length src \<Longrightarrow> \<exists>ps. consumes src pos ps (length src)"
proof (induction src pos rule: token_loop.induct)
  case (1 src pos)
  from "1.prems"(1) obtain r where r: "next_token src pos = Ok r"
    "(case r of None \<Rightarrow> Ok () | Some (_, stop) \<Rightarrow> token_loop src stop) = Ok ()"
    unfolding token_loop.simps [of src pos] obind_Ok_iff by blast
  show ?case
  proof (cases r)
    case None
    then show ?thesis using next_token_end r(1) "1.prems"(2) by simp
  next
    case (Some ts)
    obtain t stop where ts: "ts = (t, stop)" by (cases ts)
    note tok = r(1) [unfolded Some ts]
    obtain ps where ps: "consumes src pos ps stop" using next_token_pieces [OF tok "1.prems"(2)] by blast
    moreover have "\<exists>qs. consumes src stop qs (length src)"
      using "1.IH" [OF tok refl refl] r(2) next_token_forward [OF tok] by (simp add: Some ts)
    ultimately show ?thesis using consumes_trans by blast
  qed
qed

text \<open>String literals are whole pieces, so the mask is off at the start of every piece.\<close>

lemma mask_from_append: "mask_from b (s @ t) = mask_from b s @ mask_from (if even (count_list s (CHR 0x27)) then b else \<not> b) t"
  by (induction s arbitrary: b) auto

lemma length_mask_from [simp]: "length (mask_from b s) = length s"
  by (induction s arbitrary: b) auto

lemma mask_plain: "CHR 0x27 \<notin> set s \<Longrightarrow> mask_from False s = replicate (length s) False"
  by (induction s) auto

lemma quote_not_word: "\<not> is_word_char (CHR 0x27)"
  by (simp add: is_word_char_def is_ascii_alpha_def is_ascii_lower_def is_ascii_digit_def less_eq_char_def)

lemma keyword_chars: "to_ascii_uppercase w \<in> {''AND'', ''OR'', ''NOT'', ''IN'', ''IS'', ''NULL'', ''SELECT''} \<Longrightarrow> list_all is_word_char w"
proof -
  assume w: "to_ascii_uppercase w \<in> {''AND'', ''OR'', ''NOT'', ''IN'', ''IS'', ''NULL'', ''SELECT''}"
  have "\<forall>c \<in> set (to_ascii_uppercase w). CHR ''A'' \<le> c \<and> c \<le> CHR ''Z''"
    using w by (elim insertE) (simp_all add: less_eq_char_def)
  then show ?thesis using ascii_upper_letter by (auto simp: list_all_iff to_ascii_uppercase_def is_word_char_def)
qed

lemma word_piece_chars: "word_piece p \<Longrightarrow> list_all is_word_char p"
  using word_chars keyword_chars by (auto simp: word_piece_def)

lemma number_no_quote: "number_piece p \<Longrightarrow> CHR 0x27 \<notin> set p"
proof -
  have "\<not> is_ascii_digit (CHR 0x27)" by (simp add: is_ascii_digit_def less_eq_char_def)
  then show "number_piece p \<Longrightarrow> ?thesis" by (auto simp: number_piece_def list_all_iff)
qed

lemma piece_quotes: "allowed_piece p \<Longrightarrow> even (count_list p (CHR 0x27))"
proof -
  assume "allowed_piece p"
  then have "string_piece p \<or> CHR 0x27 \<notin> set p"
    using word_piece_chars [of p] quote_not_word number_no_quote [of p]
    by (auto simp: allowed_piece_def symbol_piece_def space_piece_def list_all_iff latin1_whitespace_def Let_def)
  then show ?thesis by (auto simp: string_piece_def)
qed

lemma pieces_quotes: "list_all allowed_piece ps \<Longrightarrow> even (count_list (concat ps) (CHR 0x27))"
  by (induction ps) (auto simp: piece_quotes)

lemma mask_at_word:
  assumes "list_all allowed_piece xs" "list_all is_word_char w"
  shows "mask_from False (concat xs @ w @ t) = mask_from False (concat xs) @ replicate (length w) False @ mask_from False t"
proof -
  have "CHR 0x27 \<notin> set w" using assms(2) quote_not_word by (auto simp: list_all_iff)
  then show ?thesis using pieces_quotes [OF assms(1)] by (simp add: mask_from_append mask_plain)
qed

lemma last_piece_char:
  assumes "allowed_piece p" "\<not> number_piece p" "\<not> word_piece p"
  shows "\<not> is_word_char (List.last p)"
  using assms space_not_word quote_not_word
  by (auto simp: allowed_piece_def string_piece_def space_piece_def symbol_piece_def is_word_char_def is_ascii_alpha_def is_ascii_lower_def is_ascii_digit_def less_eq_char_def)

lemma separated_last: "separated (xs @ [x]) (w @ t) \<Longrightarrow> word_piece x \<Longrightarrow> w \<noteq> [] \<Longrightarrow> \<not> is_word_char (hd w)"
  by (cases w) auto

lemma separated_number:
  "separated xs t \<Longrightarrow> xs \<noteq> [] \<Longrightarrow> t \<noteq> [] \<Longrightarrow> is_ascii_digit (hd t) \<Longrightarrow> \<not> number_piece (List.last xs)"
  by (induction xs rule: rev_induct) (auto simp: neq_Nil_conv)

lemma before_word:
  assumes "pieces (xs @ w # ys) []" "w \<noteq> []" "list_all is_word_char w" "xs \<noteq> []" "\<not> number_piece (List.last xs)"
  shows "\<not> is_word_char (List.last (concat xs))"
proof -
  obtain zs x where xs: "xs = zs @ [x]" using assms(4) by (metis append_butlast_last_id)
  have x: "allowed_piece x" using assms(1) by (simp add: pieces_def xs)
  have "\<not> word_piece x" using assms(1-3) separated_last [of zs x w "concat ys"] by (cases w) (auto simp: pieces_def xs)
  then show ?thesis using last_piece_char [OF x] assms(5) allowed_nonempty [OF x] by (simp add: xs)
qed

lemma select_piece:
  assumes "to_ascii_uppercase w = ''SELECT''" "allowed_piece w"
  shows "word_piece w"
proof -
  have "list_all is_word_char w" using keyword_chars assms(1) by simp
  moreover have "length w = 6" using arg_cong [OF assms(1), of length] by (simp add: to_ascii_uppercase_def)
  moreover from this obtain c s where w: "w = c # s" by (cases w) auto
  have "is_ascii_alpha c" using assms(1) by (intro ascii_upper_letter) (simp add: to_ascii_uppercase_def w less_eq_char_def)
  then have "\<not> number_piece w"
    using number_hd [of w] by (auto simp: w is_ascii_alpha_def is_ascii_lower_def is_ascii_digit_def less_eq_char_def)
  ultimately show ?thesis using assms(2) quote_not_word
    by (auto simp: allowed_piece_def string_piece_def symbol_piece_def space_piece_def)
qed

lemma select_detected:
  assumes "pieces (xs @ w # ys) []" "to_ascii_uppercase w = ''SELECT''" "word_piece w"
    and "xs = [] \<or> \<not> number_piece (List.last xs)"
  shows "contains_select_keyword (concat (xs @ w # ys))"
proof -
  let ?s = "concat (xs @ w # ys)" and ?i = "length (concat xs)"
  have w: "length w = 6" "list_all is_word_char w"
    using assms(2) keyword_chars by (auto simp: to_ascii_uppercase_def dest!: arg_cong [of _ _ length])
  then have "w \<noteq> []" by auto
  have xs: "list_all allowed_piece xs" using assms(1) by (simp add: pieces_def)
  let ?m = "string_literal_mask ?s"
  have m: "?m = mask_from False (concat xs) @ replicate 6 False @ mask_from False (concat ys)"
    using mask_at_word [OF xs w(2)] w(1) by (simp add: string_literal_mask_def)
  have off: "\<not> ?m ! (?i + j)" if "j < 6" for j unfolding m using that by (simp add: nth_append)
  have before: "\<not> (0 < ?i \<and> is_word_char (?s ! (?i - 1)))"
  proof (cases "concat xs = []")
    case False
    then have "xs \<noteq> []" by auto
    then have "\<not> is_word_char (List.last (concat xs))" using before_word [OF assms(1) \<open>w \<noteq> []\<close> w(2)] assms(4) by blast
    then show ?thesis using False by (simp add: nth_append last_conv_nth)
  qed simp
  have eq: "ascii_upper (?s ! (?i + j)) = ascii_upper (''SELECT'' ! j)" if "j < 6" for j
  proof -
    have "ascii_upper (w ! j) = ''SELECT'' ! j" using arg_cong [OF assms(2), of "\<lambda>u. u ! j"] that w(1) by (simp add: to_ascii_uppercase_def)
    moreover have "ascii_upper (''SELECT'' ! j) = ''SELECT'' ! j"
      using that by (auto simp: less_Suc_eq eval_nat_numeral ascii_upper_def is_ascii_lower_of_char)
    ultimately show ?thesis using that w(1) by (simp add: nth_append)
  qed
  have "takeWhile is_word_char (concat ys) = []" using assms(1,3) by (simp add: pieces_def)
  then have after: "\<not> (?i + 6 < length ?s \<and> is_word_char (?s ! (?i + 6)))"
    using w(1) by (cases "concat ys") (auto simp: nth_append split: if_splits)
  have len: "length ''SELECT'' = 6" by simp
  have "list_all (\<lambda>j. \<not> ?m ! (?i + j) \<and> ascii_upper (?s ! (?i + j)) = ascii_upper (''SELECT'' ! j)) [0..<6]"
    using off eq by (auto simp only: list_all_iff set_upt atLeastLessThan_iff)
  moreover have "\<not> ?m ! ?i" using off [of 0] by simp
  ultimately have "keyword_at ?s ?m ''SELECT'' ?i" unfolding keyword_at_def len using before after by blast
  moreover have "length ?s = ?i + 6 + length (concat ys)" using w(1) by simp
  then have "?i \<in> set [0..<length ?s - length ''SELECT'' + 1]" unfolding len set_upt atLeastLessThan_iff by linarith
  moreover have "\<not> length ?s < length ''SELECT''" using w(1) by simp
  ultimately show ?thesis unfolding contains_select_keyword_def contains_keyword_ci_def list_ex_iff by auto
qed

section \<open>Function calls\<close>

lemma call_scan_skip:
  assumes "length m1 = length pre" "pre = [] \<and> ws = None \<or> pre \<noteq> [] \<and> (List.last m1 \<or> \<not> is_word_char (List.last pre))"
    and "call_scan sql bs m2 (i + length pre) None"
  shows "call_scan sql (pre @ bs) (m1 @ m2) i ws"
  using assms
proof (induction pre arbitrary: m1 i ws)
  case (Cons b pre)
  then obtain m ms where m1: "m1 = m # ms" by (cases m1) auto
  show ?case
  proof (cases "pre = []")
    case True
    then have "m \<or> \<not> is_word_char b" "ms = []" using Cons.prems by (auto simp: m1)
    then show ?thesis using Cons.prems(3) True by (auto simp: m1)
  next
    case False
    then have "call_scan sql (pre @ bs) (ms @ m2) (i + 1) ws'" for ws'
      using Cons.IH [of ms ws' "i + 1"] Cons.prems by (cases ms) (auto simp: m1)
    then show ?thesis by (simp add: m1)
  qed
qed simp

lemma call_scan_run:
  assumes "list_all is_word_char run"
  shows "call_scan sql (run @ bs) (replicate (length run) False @ ms) i (Some st) = call_scan sql bs ms (i + length run) (Some st)"
  using assms by (induction run arbitrary: i) auto

lemma call_scan_call:
  assumes "sql = pre @ run @ CHR ''('' # post" "list_all is_word_char run" "run \<noteq> []" "\<not> is_keyword_followable_by_paren run"
    and "string_literal_mask sql = m1 @ replicate (length run) False @ False # m2" "length m1 = length pre"
    and "pre = [] \<or> List.last m1 \<or> \<not> is_word_char (List.last pre)"
  shows "contains_function_call sql"
proof -
  obtain c run' where run: "run = c # run'" using assms(3) by (cases run) auto
  have "substr sql (length pre) (length pre + length run) = run" by (simp add: assms(1) substr_def)
  moreover have "\<not> is_word_char (CHR ''('')" by (simp add: is_word_char_def is_ascii_alpha_def is_ascii_lower_def is_ascii_digit_def less_eq_char_def)
  ultimately have "call_scan sql (run @ CHR ''('' # post) (replicate (length run) False @ False # m2) (length pre) None"
    using call_scan_run [of run' sql "CHR ''('' # post" "False # m2" "length pre + 1" "length pre"] assms(2,4) by (simp add: run)
  then have "call_scan sql (pre @ run @ CHR ''('' # post) (m1 @ replicate (length run) False @ False # m2) 0 None"
    using call_scan_skip [of m1 pre None sql "run @ CHR ''('' # post" "replicate (length run) False @ False # m2" 0] assms(6,7) by auto
  then show ?thesis using assms(5) by (simp add: contains_function_call_def assms(1))
qed

text \<open>The word before a parenthesis may be glued to the digits that end a number.\<close>

lemma digits_word: "is_ascii_digit c \<Longrightarrow> is_word_char c"
  by (simp add: is_word_char_def)

lemma followable_start: "is_keyword_followable_by_paren w \<Longrightarrow> to_ascii_uppercase w \<in> {''IN'', ''NOT'', ''AND'', ''OR''}"
  by (auto simp: is_keyword_followable_by_paren_def keywords_followable_by_paren_def eq_ignore_ascii_case_def to_ascii_uppercase_def
      ascii_upper_def is_ascii_lower_of_char)

lemma digit_not_followable: "is_ascii_digit c \<Longrightarrow> \<not> is_keyword_followable_by_paren (c # w)"
  using followable_start [of "c # w"] keyword_start [of c w]
  by (auto simp: is_ascii_digit_def is_ascii_alpha_def is_ascii_lower_def less_eq_char_def)

lemma number_tail:
  assumes "number_piece p"
  obtains pre ds where "p = pre @ ds" "ds \<noteq> []" "list_all is_ascii_digit ds" "pre = [] \<or> \<not> is_word_char (List.last pre)"
proof -
  from assms obtain sign ds fs where p: "p = sign @ ds @ fs" "sign \<in> {[], ''-''}" "ds \<noteq> []" "list_all is_ascii_digit ds"
    "fs = [] \<or> (\<exists>f. fs = CHR ''.'' # f \<and> f \<noteq> [] \<and> list_all is_ascii_digit f)" by (auto simp: number_piece_def)
  have sep: "\<not> is_word_char (CHR ''.'')" "\<not> is_word_char (CHR ''-'')"
    by (simp_all add: is_word_char_def is_ascii_alpha_def is_ascii_lower_def is_ascii_digit_def less_eq_char_def)
  from p(5) show ?thesis
  proof
    assume "fs = []"
    then show ?thesis using that [of sign ds] p sep by auto
  next
    assume "\<exists>f. fs = CHR ''.'' # f \<and> f \<noteq> [] \<and> list_all is_ascii_digit f"
    then obtain f where "fs = CHR ''.'' # f" "f \<noteq> []" "list_all is_ascii_digit f" by blast
    then show ?thesis using that [of "sign @ ds @ ''.''" f] p sep by simp
  qed
qed

lemma call_detected:
  assumes "pieces (xs @ w # ''('' # ys) []" "word_piece w" "\<not> is_keyword_followable_by_paren w"
  shows "contains_function_call (concat (xs @ w # ''('' # ys))"
proof -
  have w: "list_all is_word_char w" "w \<noteq> []" using word_piece_chars assms(1,2) allowed_nonempty by (auto simp: pieces_def)
  have xs: "list_all allowed_piece xs" using assms(1) by (simp add: pieces_def)
  have mask: "string_literal_mask (concat (xs @ w # ''('' # ys)) =
      mask_from False (concat xs) @ replicate (length w) False @ False # mask_from False (concat ys)"
    using mask_at_word [OF xs w(1)] by (simp add: string_literal_mask_def)
  show ?thesis
  proof (cases "xs \<noteq> [] \<and> number_piece (List.last xs)")
    case False
    then have "concat xs = [] \<or> \<not> is_word_char (List.last (concat xs))"
      using before_word [OF assms(1) w(2,1)] by (cases "xs = []") auto
    then show ?thesis
      by (intro call_scan_call [OF _ w(1,2) assms(3) mask]) auto
  next
    case True
    then obtain zs x where x: "xs = zs @ [x]" "number_piece x" by (metis append_butlast_last_id)
    from number_tail [OF x(2)] obtain pre ds where ds: "x = pre @ ds" "ds \<noteq> []" "list_all is_ascii_digit ds"
      "pre = [] \<or> \<not> is_word_char (List.last pre)" .
    have zs: "list_all allowed_piece zs" using xs by (simp add: x)
    have q: "CHR 0x27 \<notin> set pre" using number_no_quote [OF x(2)] by (simp add: ds)
    have run: "list_all is_word_char (ds @ w)" "ds @ w \<noteq> []" "\<not> is_keyword_followable_by_paren (ds @ w)"
      using ds w digits_word digit_not_followable by (auto simp: list_all_iff neq_Nil_conv)
    have "mask_from False (concat xs) = mask_from False (concat zs @ pre) @ replicate (length ds) False"
      using ds(3) number_no_quote [OF x(2)] pieces_quotes [OF zs] q by (simp add: x(1) ds(1) mask_from_append mask_plain)
    then have mask': "string_literal_mask (concat (xs @ w # ''('' # ys)) =
        mask_from False (concat zs @ pre) @ replicate (length (ds @ w)) False @ False # mask_from False (concat ys)"
      unfolding mask by (simp add: replicate_add)
    have "concat zs @ pre = [] \<or> List.last (mask_from False (concat zs @ pre)) \<or> \<not> is_word_char (List.last (concat zs @ pre))"
    proof (cases "pre = []")
      case True
      have "\<not> is_word_char (List.last (concat zs))" if "zs \<noteq> []"
      proof (rule before_word [OF _ _ _ that])
        show "pieces (zs @ x # w # ''('' # ys) []" using assms(1) by (simp add: x)
        then show "\<not> number_piece (List.last zs)"
          using separated_number [of zs "x @ w @ ''('' @ concat ys"] ds True that by (cases x) (auto simp: pieces_def)
      qed (use ds True digits_word in \<open>auto simp: list_all_iff\<close>)
      then show ?thesis using True by (cases "zs = []") auto
    qed (use ds(4) in simp)
    then show ?thesis
      by (intro call_scan_call [OF _ run mask', of "concat zs @ pre" "concat ys"]) (simp_all add: x(1) ds(1))
  qed
qed

section \<open>Properties\<close>

definition quoted_text :: "string \<Rightarrow> string" where
  "quoted_text s = [CHR 0x27] @ s @ [CHR 0x27]"

lemma validated_pieces:
  assumes "validate_filter_sql sql = Ok ()"
  obtains ps where "sql = concat ps" "pieces ps []"
    "\<not> contains_function_call sql" "\<not> contains_select_keyword sql" "length sql \<le> max_filter_sql_len" "CHR '';'' \<notin> set sql"
proof -
  have "token_loop sql 0 = Ok ()" "\<not> contains_function_call sql" "\<not> contains_select_keyword sql"
    "length sql \<le> max_filter_sql_len" "CHR '';'' \<notin> set sql"
    using assms by (auto simp: validate_filter_sql_def split: if_splits)
  moreover from this(1) obtain ps where "consumes sql 0 ps (length sql)" using token_loop_pieces by blast
  ultimately show ?thesis using that [of ps] by (simp add: consumes_def)
qed

text \<open>
  C14: An accepted filter is at most 4096 bytes and is made of allowed pieces only: lower-case identifiers, the six keywords in any case, numbers, closed string literals, the comparison operators, parentheses, commas and white space, where words and numbers are read as far as they go. Outside string literals the word SELECT does not occur, except glued to the end of a number, and no word other than IN, NOT, AND and OR is directly followed by an opening parenthesis.
\<close>

theorem accepted_filters_are_allow_listed:
  assumes "validate_filter_sql sql = Ok ()"
  shows "length sql \<le> 4096 \<and> (\<exists>ps. sql = concat ps \<and> pieces ps [] \<and>
    (\<forall>xs w ys. ps = xs @ w # ys \<and> to_ascii_uppercase w = ''SELECT'' \<longrightarrow> xs \<noteq> [] \<and> number_piece (List.last xs)) \<and>
    (\<forall>xs w ys. ps = xs @ w # ''('' # ys \<and> word_piece w \<longrightarrow> is_keyword_followable_by_paren w))"
proof -
  obtain ps where ps: "sql = concat ps" "pieces ps []"
    "\<not> contains_function_call sql" "\<not> contains_select_keyword sql" "length sql \<le> max_filter_sql_len"
    using validated_pieces [OF assms] by blast
  have "xs \<noteq> [] \<and> number_piece (List.last xs)" if "ps = xs @ w # ys" "to_ascii_uppercase w = ''SELECT''" for xs w ys
  proof -
    have "allowed_piece w" using ps(2) that(1) by (simp add: pieces_def)
    then have "word_piece w" by (rule select_piece [OF that(2)])
    then show ?thesis using select_detected [of xs w ys] ps(1,2,4) that by blast
  qed
  moreover have "is_keyword_followable_by_paren w" if "ps = xs @ w # ''('' # ys" "word_piece w" for xs w ys
    using call_detected [of xs w ys] ps(1-3) that by blast
  moreover have "length sql \<le> 4096" using ps(5) by (simp add: max_filter_sql_len_def)
  ultimately show ?thesis using ps(1,2) by blast
qed

text \<open>
  Three of the shapes that the documentation lists as rejected pass the validator: a function call with white space before the parenthesis, and LIKE and BETWEEN in lower case, which are read as identifiers. The same texts without the space or in upper case are rejected.
\<close>

theorem documented_rejects_accepted:
  "validate_filter_sql ''sleep (10) = 1'' = Ok () \<and>
   validate_filter_sql ''sleep(10) = 1'' = Err (invalid ''filter_sql must not contain function calls'') \<and>
   validate_filter_sql (''title like '' @ quoted_text ''a%'') = Ok () \<and>
   validate_filter_sql (''title LIKE '' @ quoted_text ''a%'') = Err (invalid ''filter_sql contains disallowed token: LIKE'') \<and>
   validate_filter_sql ''n between 1 and 2'' = Ok () \<and>
   validate_filter_sql ''n BETWEEN 1 and 2'' = Err (invalid ''filter_sql contains disallowed token: BETWEEN'')"
  by code_simp

text \<open>
  The message of a rejected token slices the text at a byte offset: a filter with the letter a-grave, or with a no-break space, panics instead of being rejected.
\<close>

theorem non_ascii_filter_panics:
  "validate_filter_sql (''x = '' @ [CHR 0xC3, CHR 0xA0]) = Panic \<and>
   validate_filter_sql (''x'' @ [CHR 0xC2, CHR 0xA0] @ ''= 1'') = Panic"
  by code_simp

section \<open>ASCII filters are always answered\<close>

lemma ascii_slice: "list_all is_ascii s \<Longrightarrow> a \<le> b \<Longrightarrow> b \<le> length s \<Longrightarrow> \<exists>t. sql_slice s a b = Ok t"
  by (auto simp: str_index_def is_char_boundary_def list_all_length is_ascii_def is_continuation_def not_le)

lemma ascii_drop: "list_all is_ascii s \<Longrightarrow> list_all is_ascii (drop n s)"
  by (auto simp: list_all_iff dest: in_set_dropD)

lemma skip_le: "pos \<le> length src \<Longrightarrow> skip_whitespace src pos \<le> length src"
  by (simp add: skip_whitespace_def scan_while_le)

lemma ascii_rest: "list_all is_ascii src \<Longrightarrow> pos \<le> length src \<Longrightarrow> sql_rest src pos = Ok (drop pos src)"
  using ascii_slice [of src pos "length src"] by (auto simp: sql_rest_def str_index_Ok_iff substr_def)

lemma ascii_word: "list_all is_ascii s \<Longrightarrow> \<exists>w. sql_slice s 0 (word_len s) = Ok w"
  using ascii_slice word_len_eq length_takeWhile_le by (metis le0)

definition answers :: "(status, 'a) outcome \<Rightarrow> bool" where
  "answers r \<longleftrightarrow> (\<exists>x. r = Ok x) \<or> (\<exists>msg. r = Err (invalid msg))"

lemma answers_simps [simp]: "answers (Ok x)" "answers (Err (invalid msg))"
  by (auto simp: answers_def)

lemma next_word_bound: "pos \<le> length src \<Longrightarrow> skip_whitespace src pos + word_len (drop (skip_whitespace src pos) src) \<le> length src"
  using skip_le [of pos src] length_takeWhile_le [of is_word_char "drop (skip_whitespace src pos) src"] by (simp add: word_len_eq)

lemma null_after_not_answers: "list_all is_ascii src \<Longrightarrow> pos \<le> length src \<Longrightarrow> answers (null_after_not src pos)"
  using ascii_word [OF ascii_drop, of src "skip_whitespace src pos"]
  by (auto simp: null_after_not_def Let_def ascii_rest skip_le)

lemma is_null_answers: "list_all is_ascii src \<Longrightarrow> pos \<le> length src \<Longrightarrow> answers (is_null_operator src pos)"
  using ascii_word [OF ascii_drop, of src "skip_whitespace src pos"] null_after_not_answers next_word_bound
  by (auto simp: is_null_operator_def Let_def ascii_rest skip_le)

lemma word_token_answers:
  assumes "list_all is_ascii src" "pos \<le> length src"
  shows "answers (word_token src pos (drop pos src))"
proof -
  have "pos + word_len (drop pos src) \<le> length src"
    using assms(2) length_takeWhile_le [of is_word_char "drop pos src"] by (simp add: word_len_eq)
  then show ?thesis
    using ascii_word [OF ascii_drop [OF assms(1)], of pos] is_null_answers [OF assms(1)] by (auto simp: word_token_def Let_def)
qed

lemma stray_token_answers: "list_all is_ascii rest \<Longrightarrow> answers (stray_token rest)"
  using ascii_slice [of rest 0 "min 32 (scan_while (\<lambda>c. \<not> latin1_whitespace c) rest 0)"] scan_while_le [of 0 rest]
  by (auto simp: stray_token_def Let_def min.coboundedI2)

lemma next_token_answers:
  assumes "list_all is_ascii src" "pos \<le> length src"
  shows "answers (next_token src pos)"
proof -
  let ?p = "skip_whitespace src pos"
  have "answers (token_at src ?p (drop ?p src))"
    using word_token_answers [OF assms(1) skip_le [OF assms(2)]] stray_token_answers [OF ascii_drop [OF assms(1)], of ?p]
    by (auto simp: token_at_def Let_def string_token_def split: option.split)
  then show ?thesis using assms by (auto simp: next_token_def Let_def ascii_rest skip_le answers_def)
qed

lemma token_loop_answers: "list_all is_ascii src \<Longrightarrow> pos \<le> length src \<Longrightarrow> answers (token_loop src pos)"
proof (induction src pos rule: token_loop.induct)
  case (1 src pos)
  then show ?case
    using next_token_answers [OF "1.prems"]
    by (auto simp: token_loop.simps [of src pos] answers_def [of "next_token src pos"] split: option.splits dest!: next_token_forward)
qed

text \<open>
  Every filter of ASCII characters is answered: the validator accepts it or rejects it as an invalid argument, and never panics.
\<close>

theorem ascii_filters_answered:
  assumes "list_all is_ascii sql"
  shows "validate_filter_sql sql = Ok () \<or> (\<exists>msg. validate_filter_sql sql = Err (Status InvalidArgument msg))"
  using token_loop_answers [OF assms, of 0]
  by (auto simp: validate_filter_sql_def answers_def invalid_def)

section \<open>Witnesses\<close>

definition sample_filter :: string where
  "sample_filter = ''platform = '' @ quoted_text ''tv'' @ '' AND n in(1, -2.5)''"

theorem accepted_filters_are_allow_listed_witness:
  "length sample_filter \<le> 4096 \<and> (\<exists>ps. sample_filter = concat ps \<and> pieces ps [] \<and>
    (\<forall>xs w ys. ps = xs @ w # ys \<and> to_ascii_uppercase w = ''SELECT'' \<longrightarrow> xs \<noteq> [] \<and> number_piece (List.last xs)) \<and>
    (\<forall>xs w ys. ps = xs @ w # ''('' # ys \<and> word_piece w \<longrightarrow> is_keyword_followable_by_paren w))"
  by (rule accepted_filters_are_allow_listed) code_simp

theorem ascii_filters_answered_witness:
  "validate_filter_sql ''x like 1'' = Ok () \<or> (\<exists>msg. validate_filter_sql ''x like 1'' = Err (Status InvalidArgument msg))"
  by (rule ascii_filters_answered) code_simp

end
