(* ===== verification/Metric_Store.thy ===== *)
theory Metric_Store
  imports Metric_Cycle Filter_Sql
begin

text \<open>
  The metric catalogue in the store (the metric part of \<^verbatim>\<open>store.rs\<close>): the conversions between the
  protobuf message and the row, the JSON of the type-specific configuration, and the statements on the
  tables \<^verbatim>\<open>metric_definitions\<close> and \<^verbatim>\<open>metric_migrations\<close> with the constraints of the migrations 001, 007,
  011, 013 and 016. The text of a constraint violation comes from PostgreSQL and is a parameter.
\<close>

section \<open>Messages\<close>

record composite_operand =
  co_metric_id :: string
  co_weight :: f64

record composite_config =
  cc_operands :: "composite_operand list"
  cc_operator :: int

record filtered_mean_config =
  fm_filter_sql :: string
  fm_value_column :: string

record windowed_count_config =
  wc_event_type :: string
  wc_filter_sql :: string
  wc_window_hours :: int

datatype metric_type_config =
    FilteredMeanCfg filtered_mean_config
  | CompositeCfg composite_config
  | WindowedCountCfg windowed_count_config

record proto_metric =
  pm_metric_id :: string
  pm_name :: string
  pm_description :: string
  pm_type :: int
  pm_source_event_type :: string
  pm_numerator_event_type :: string
  pm_denominator_event_type :: string
  pm_percentile :: f64
  pm_custom_sql :: string
  pm_lower_is_better :: bool
  pm_surrogate_target_metric_id :: string
  pm_is_qoe_metric :: bool
  pm_cuped_covariate_metric_id :: string
  pm_minimum_detectable_effect :: f64
  pm_stakeholder :: int
  pm_aggregation_level :: int
  pm_type_config :: "metric_type_config option"
  pm_metricql_expression :: string

text \<open>Enumerations travel as 32-bit integers; an unknown value reads as the unspecified one.\<close>

definition metric_types :: "metric_type list" where
  "metric_types = [MtUnspecified, MtMean, MtProportion, MtRatio, MtCount, MtPercentile, MtCustom,
     MtFilteredMean, MtComposite, MtWindowedCount, MtMetricql]"

definition metric_type_of_i32 :: "int \<Rightarrow> metric_type" where
  "metric_type_of_i32 n = (if 0 \<le> n \<and> n < 11 then metric_types ! nat n else MtUnspecified)"

fun metric_type_as_i32 :: "metric_type \<Rightarrow> int" where
  "metric_type_as_i32 MtUnspecified = 0"
| "metric_type_as_i32 MtMean = 1"
| "metric_type_as_i32 MtProportion = 2"
| "metric_type_as_i32 MtRatio = 3"
| "metric_type_as_i32 MtCount = 4"
| "metric_type_as_i32 MtPercentile = 5"
| "metric_type_as_i32 MtCustom = 6"
| "metric_type_as_i32 MtFilteredMean = 7"
| "metric_type_as_i32 MtComposite = 8"
| "metric_type_as_i32 MtWindowedCount = 9"
| "metric_type_as_i32 MtMetricql = 10"

datatype metric_stakeholder = StUnspecified | StUser | StProvider | StPlatform

definition stakeholder_of_i32 :: "int \<Rightarrow> metric_stakeholder" where
  "stakeholder_of_i32 n = (if n = 1 then StUser else if n = 2 then StProvider else if n = 3 then StPlatform else StUnspecified)"

fun stakeholder_as_i32 :: "metric_stakeholder \<Rightarrow> int" where
  "stakeholder_as_i32 StUnspecified = 0"
| "stakeholder_as_i32 StUser = 1"
| "stakeholder_as_i32 StProvider = 2"
| "stakeholder_as_i32 StPlatform = 3"

datatype metric_aggregation_level = AlUnspecified | AlUser | AlExperiment | AlProvider

definition aggregation_level_of_i32 :: "int \<Rightarrow> metric_aggregation_level" where
  "aggregation_level_of_i32 n = (if n = 1 then AlUser else if n = 2 then AlExperiment else if n = 3 then AlProvider else AlUnspecified)"

fun aggregation_level_as_i32 :: "metric_aggregation_level \<Rightarrow> int" where
  "aggregation_level_as_i32 AlUnspecified = 0"
| "aggregation_level_as_i32 AlUser = 1"
| "aggregation_level_as_i32 AlExperiment = 2"
| "aggregation_level_as_i32 AlProvider = 3"

section \<open>Columns\<close>

fun metric_type_to_sql :: "metric_type \<Rightarrow> string" where
  "metric_type_to_sql MtUnspecified = ''''"
| "metric_type_to_sql MtMean = ''MEAN''"
| "metric_type_to_sql MtProportion = ''PROPORTION''"
| "metric_type_to_sql MtRatio = ''RATIO''"
| "metric_type_to_sql MtCount = ''COUNT''"
| "metric_type_to_sql MtPercentile = ''PERCENTILE''"
| "metric_type_to_sql MtCustom = ''CUSTOM''"
| "metric_type_to_sql MtFilteredMean = ''FILTERED_MEAN''"
| "metric_type_to_sql MtComposite = ''COMPOSITE''"
| "metric_type_to_sql MtWindowedCount = ''WINDOWED_COUNT''"
| "metric_type_to_sql MtMetricql = ''METRICQL''"

definition metric_type_from_sql :: "string \<Rightarrow> metric_type" where
  "metric_type_from_sql s =
     (if s = ''MEAN'' then MtMean else if s = ''PROPORTION'' then MtProportion else if s = ''RATIO'' then MtRatio
      else if s = ''COUNT'' then MtCount else if s = ''PERCENTILE'' then MtPercentile else if s = ''CUSTOM'' then MtCustom
      else if s = ''FILTERED_MEAN'' then MtFilteredMean else if s = ''COMPOSITE'' then MtComposite
      else if s = ''WINDOWED_COUNT'' then MtWindowedCount else if s = ''METRICQL'' then MtMetricql else MtUnspecified)"

fun stakeholder_to_sql :: "metric_stakeholder \<Rightarrow> string" where
  "stakeholder_to_sql StUnspecified = ''''"
| "stakeholder_to_sql StUser = ''USER''"
| "stakeholder_to_sql StProvider = ''PROVIDER''"
| "stakeholder_to_sql StPlatform = ''PLATFORM''"

definition stakeholder_from_sql :: "string \<Rightarrow> metric_stakeholder" where
  "stakeholder_from_sql s = (if s = ''USER'' then StUser else if s = ''PROVIDER'' then StProvider
     else if s = ''PLATFORM'' then StPlatform else StUnspecified)"

fun aggregation_level_to_sql :: "metric_aggregation_level \<Rightarrow> string" where
  "aggregation_level_to_sql AlUnspecified = ''''"
| "aggregation_level_to_sql AlUser = ''USER''"
| "aggregation_level_to_sql AlExperiment = ''EXPERIMENT''"
| "aggregation_level_to_sql AlProvider = ''PROVIDER''"

definition aggregation_level_from_sql :: "string \<Rightarrow> metric_aggregation_level" where
  "aggregation_level_from_sql s = (if s = ''USER'' then AlUser else if s = ''EXPERIMENT'' then AlExperiment
     else if s = ''PROVIDER'' then AlProvider else AlUnspecified)"

definition opt_str :: "string \<Rightarrow> string option" where
  "opt_str s = (if s = [] then None else Some s)"

definition opt_pos_f64 :: "f64 \<Rightarrow> f64 option" where
  "opt_pos_f64 v = (if f64_lt (Fin 0) v then Some v else None)"

section \<open>The JSON configuration\<close>

definition operand_json :: "composite_operand \<Rightarrow> json" where
  "operand_json op = JObject [(''metric_id'', JString (co_metric_id op)), (''weight'', json_of_f64 (co_weight op))]"

definition build_metric_type_config :: "proto_metric \<Rightarrow> json option" where
  "build_metric_type_config m =
     (case pm_type_config m of
        None \<Rightarrow> None
      | Some (FilteredMeanCfg cfg) \<Rightarrow> Some (JObject
          [(''filter_sql'', JString (fm_filter_sql cfg)), (''value_column'', JString (fm_value_column cfg))])
      | Some (CompositeCfg cfg) \<Rightarrow> Some (JObject
          [(''operator'', JInt (cc_operator cfg)), (''operands'', JArray (map operand_json (cc_operands cfg)))])
      | Some (WindowedCountCfg cfg) \<Rightarrow> Some (JObject
          [(''event_type'', JString (wc_event_type cfg)), (''filter_sql'', JString (wc_filter_sql cfg)),
           (''window_hours'', JInt (wc_window_hours cfg))]))"

definition json_str :: "string \<Rightarrow> json \<Rightarrow> string" where
  "json_str k v = unwrap_or '''' (Option.bind (json_get k v) as_str_json)"

text \<open>
  \<open>jr\<close> is what a double is read back as from the text of a JSON number: \<^verbatim>\<open>serde_json\<close> is used without
  \<^verbatim>\<open>float_roundtrip\<close>, so the last digit of some doubles changes.
\<close>

definition operand_of_json :: "(f64 \<Rightarrow> f64) \<Rightarrow> json \<Rightarrow> composite_operand" where
  "operand_of_json jr op =
     \<lparr>co_metric_id = json_str ''metric_id'' op,
      co_weight = unwrap_or (Fin 0) (map_option jr (Option.bind (json_get ''weight'' op) as_f64_json))\<rparr>"

definition json_i32 :: "string \<Rightarrow> json \<Rightarrow> int" where
  "json_i32 k v = i64_as_i32 (unwrap_or 0 (Option.bind (json_get k v) as_i64_json))"

definition metric_type_config_from_json :: "(f64 \<Rightarrow> f64) \<Rightarrow> metric_type \<Rightarrow> json option \<Rightarrow> metric_type_config option" where
  "metric_type_config_from_json jr ty j =
     (case j of
        None \<Rightarrow> None
      | Some v \<Rightarrow>
          if ty = MtFilteredMean
          then Some (FilteredMeanCfg \<lparr>fm_filter_sql = json_str ''filter_sql'' v, fm_value_column = json_str ''value_column'' v\<rparr>)
          else if ty = MtComposite
          then Some (CompositeCfg
            \<lparr>cc_operands = (case Option.bind (json_get ''operands'' v) as_array_json of None \<Rightarrow> [] | Some ops \<Rightarrow> map (operand_of_json jr) ops),
             cc_operator = json_i32 ''operator'' v\<rparr>)
          else if ty = MtWindowedCount
          then Some (WindowedCountCfg \<lparr>wc_event_type = json_str ''event_type'' v, wc_filter_sql = json_str ''filter_sql'' v,
             wc_window_hours = json_i32 ''window_hours'' v\<rparr>)
          else None)"

definition into_proto :: "(f64 \<Rightarrow> f64) \<Rightarrow> metric_row \<Rightarrow> proto_metric" where
  "into_proto jr r =
     (let ty = metric_type_from_sql (mr_type r)
      in \<lparr>pm_metric_id = mr_metric_id r,
          pm_name = mr_name r,
          pm_description = unwrap_or '''' (mr_description r),
          pm_type = metric_type_as_i32 ty,
          pm_source_event_type = unwrap_or '''' (mr_source_event_type r),
          pm_numerator_event_type = unwrap_or '''' (mr_numerator_event_type r),
          pm_denominator_event_type = unwrap_or '''' (mr_denominator_event_type r),
          pm_percentile = unwrap_or (Fin 0) (mr_percentile r),
          pm_custom_sql = unwrap_or '''' (mr_custom_sql r),
          pm_lower_is_better = mr_lower_is_better r,
          pm_surrogate_target_metric_id = '''',
          pm_is_qoe_metric = mr_is_qoe_metric r,
          pm_cuped_covariate_metric_id = unwrap_or '''' (mr_cuped_covariate_metric_id r),
          pm_minimum_detectable_effect = unwrap_or (Fin 0) (mr_minimum_detectable_effect r),
          pm_stakeholder = stakeholder_as_i32 (stakeholder_from_sql (mr_stakeholder r)),
          pm_aggregation_level = aggregation_level_as_i32 (aggregation_level_from_sql (mr_aggregation_level r)),
          pm_type_config = metric_type_config_from_json jr ty (mr_type_config r),
          pm_metricql_expression = unwrap_or '''' (mr_metricql_expression r)\<rparr>)"

section \<open>Statements\<close>

datatype pg_constraint = MetricPrimaryKey | MetricTypeCheck | SingleDefinitionSource | MigrationOldUnique

definition metric_values :: "proto_metric \<Rightarrow> int \<Rightarrow> metric_row" where
  "metric_values m now =
     \<lparr>mr_metric_id = pm_metric_id m,
      mr_name = pm_name m,
      mr_description = opt_str (pm_description m),
      mr_type = metric_type_to_sql (metric_type_of_i32 (pm_type m)),
      mr_source_event_type = opt_str (pm_source_event_type m),
      mr_numerator_event_type = opt_str (pm_numerator_event_type m),
      mr_denominator_event_type = opt_str (pm_denominator_event_type m),
      mr_percentile = opt_pos_f64 (pm_percentile m),
      mr_custom_sql = opt_str (pm_custom_sql m),
      mr_lower_is_better = pm_lower_is_better m,
      mr_is_qoe_metric = pm_is_qoe_metric m,
      mr_cuped_covariate_metric_id = opt_str (pm_cuped_covariate_metric_id m),
      mr_minimum_detectable_effect = opt_pos_f64 (pm_minimum_detectable_effect m),
      mr_stakeholder = stakeholder_to_sql (stakeholder_of_i32 (pm_stakeholder m)),
      mr_aggregation_level = aggregation_level_to_sql (aggregation_level_of_i32 (pm_aggregation_level m)),
      mr_type_config = build_metric_type_config m,
      mr_metricql_expression = opt_str (pm_metricql_expression m),
      mr_created_at = now\<rparr>"

definition metric_type_admitted :: "string \<Rightarrow> bool" where
  "metric_type_admitted s \<longleftrightarrow> s \<in> set [''MEAN'', ''PROPORTION'', ''RATIO'', ''COUNT'', ''PERCENTILE'', ''CUSTOM'',
     ''FILTERED_MEAN'', ''COMPOSITE'', ''WINDOWED_COUNT'', ''METRICQL'']"

definition single_definition_source :: "metric_row \<Rightarrow> bool" where
  "single_definition_source r \<longleftrightarrow>
     (if mr_custom_sql r \<noteq> None then 1 else 0) + (if mr_type_config r \<noteq> None then 1 else 0) +
     (if mr_metricql_expression r \<noteq> None then 1 else 0) \<le> (1 :: nat)"

text \<open>\<^verbatim>\<open>INSERT INTO metric_definitions\<close>: the check constraints, then the primary key.\<close>

definition insert_metric :: "proto_metric \<Rightarrow> database \<Rightarrow> (pg_constraint + metric_row) \<times> database" where
  "insert_metric m db =
     (let r = metric_values m (db_now db)
      in if \<not> metric_type_admitted (mr_type r) then (Inl MetricTypeCheck, db)
         else if \<not> single_definition_source r then (Inl SingleDefinitionSource, db)
         else if db_metrics db (pm_metric_id m) \<noteq> None then (Inl MetricPrimaryKey, db)
         else (Inr r, db\<lparr>db_metrics := (db_metrics db)(pm_metric_id m \<mapsto> r)\<rparr>))"

definition unique_violation :: "string \<Rightarrow> bool" where
  "unique_violation msg \<longleftrightarrow> contains_pattern msg ''unique'' \<or> contains_pattern msg ''duplicate''"

type_synonym pg_messages = "pg_constraint \<Rightarrow> string"

text \<open>\<^verbatim>\<open>fetch_one(...).map_err(...)\<close> on the result of an insertion.\<close>

fun inserted_or :: "(pg_constraint \<Rightarrow> store_error) \<Rightarrow> pg_constraint + 'a \<Rightarrow> (store_error, 'a) outcome" where
  "inserted_or err (Inl c) = Err (err c)"
| "inserted_or err (Inr x) = Ok x"

lemma inserted_or_Ok [simp]: "inserted_or err r = Ok x \<longleftrightarrow> r = Inr x"
  by (cases r) auto

definition create_metric :: "pg_messages \<Rightarrow> proto_metric \<Rightarrow> (store_error, metric_row) db_op" where
  "create_metric pg m =
     dbind (query (insert_metric m)) (\<lambda>r. dreturn (inserted_or (\<lambda>c.
       if unique_violation (pg c) then StoreAlreadyExists (pm_metric_id m) else StoreDb (pg c)) r))"

definition insert_migration :: "string \<Rightarrow> string \<Rightarrow> uuid \<Rightarrow> string \<Rightarrow> database \<Rightarrow> (pg_constraint + nat \<times> int) \<times> database" where
  "insert_migration old new shadow operator db =
     (if \<exists>g \<in> set (db_migrations db). mg_old_metric_id g = old then (Inl MigrationOldUnique, db)
      else let i = length (db_migrations db)
           in (Inr (i, db_now db), db\<lparr>db_migrations := db_migrations db @
                [\<lparr>mg_migration_id = i, mg_old_metric_id = old, mg_new_metric_id = new, mg_shadow_run_result_id = shadow,
                  mg_operator = operator, mg_applied_at = db_now db\<rparr>]\<rparr>))"

text \<open>A transaction: when a statement of it fails, the tables are as before.\<close>

definition transaction :: "(store_error, 'a) db_op \<Rightarrow> (store_error, 'a) db_op" where
  "transaction body db =
     (case body db of (Ok x, db') \<Rightarrow> (Ok x, db') | (r, db') \<Rightarrow> (r, db\<lparr>db_faults := db_faults db'\<rparr>))"

definition migrate_metric ::
  "pg_messages \<Rightarrow> proto_metric \<Rightarrow> string \<Rightarrow> uuid \<Rightarrow> string \<Rightarrow> (store_error, metric_row \<times> nat \<times> int) db_op" where
  "migrate_metric pg m old shadow operator =
     transaction (
       dbind (query (\<lambda>db. ((), db))) (\<lambda>_.
       dbind (query (insert_metric m)) (\<lambda>r.
       dbind (dreturn (inserted_or (\<lambda>c.
           if unique_violation (pg c) then StoreAlreadyExists (''new metric_id already exists: '' @ pm_metric_id m)
           else StoreDb (pg c)) r)) (\<lambda>row.
       dbind (query (insert_migration old (pm_metric_id m) shadow operator)) (\<lambda>a.
       dbind (dreturn (inserted_or (\<lambda>c.
           if unique_violation (pg c) \<and> contains_pattern (pg c) ''uq_metric_migrations_old''
           then StoreAlreadyExists (''old metric already migrated: '' @ old)
           else if unique_violation (pg c)
           then StoreAlreadyExists (''migration audit-row collision for old metric: '' @ old)
           else StoreDb (pg c)) a)) (\<lambda>(i, applied_at).
       dbind (query (\<lambda>db. ((), db))) (\<lambda>_.
         dreturn (Ok (row, i, applied_at)))))))))"

definition get_metric_migration_by_id :: "nat \<Rightarrow> (store_error, metric_migration_row) db_op" where
  "get_metric_migration_by_id i =
     dbind (query (\<lambda>db. (find (\<lambda>g. mg_migration_id g = i) (db_migrations db), db)))
       (\<lambda>row. dreturn (ok_or (StoreNotFound (show_nat i)) row))"

definition get_metric :: "string \<Rightarrow> (store_error, metric_row) db_op" where
  "get_metric i = dbind (query (\<lambda>db. (db_metrics db i, db))) (\<lambda>row. dreturn (ok_or (StoreNotFound i) row))"

record metric_filter =
  mf_stakeholder :: "string option"
  mf_aggregation_level :: "string option"
  mf_type :: "string option"

definition filter_matches :: "metric_filter \<Rightarrow> metric_row \<Rightarrow> bool" where
  "filter_matches f r \<longleftrightarrow>
     (case mf_stakeholder f of None \<Rightarrow> True | Some s \<Rightarrow> mr_stakeholder r = s) \<and>
     (case mf_aggregation_level f of None \<Rightarrow> True | Some a \<Rightarrow> mr_aggregation_level r = a) \<and>
     (case mf_type f of None \<Rightarrow> True | Some t \<Rightarrow> mr_type r = t)"

definition metric_ids_of :: "database \<Rightarrow> string list" where
  "metric_ids_of db = sorted_list_of_set (dom (db_metrics db))"

definition list_metrics :: "metric_filter \<Rightarrow> (store_error, metric_row list) db_op" where
  "list_metrics f = query (\<lambda>db. (filter (filter_matches f) (map (\<lambda>i. the (db_metrics db i)) (metric_ids_of db)), db))"

definition list_metric_ids :: "(store_error, string list) db_op" where
  "list_metric_ids = query (\<lambda>db. (metric_ids_of db, db))"

definition exists_metric :: "string \<Rightarrow> (store_error, bool) db_op" where
  "exists_metric i = query (\<lambda>db. (db_metrics db i \<noteq> None, db))"

definition exists_all_metrics :: "string list \<Rightarrow> (store_error, bool) db_op" where
  "exists_all_metrics ids =
     (if ids = [] then dreturn (Ok True)
      else let owned = remdups_adj (sort ids)
           in query (\<lambda>db. (length (filter (\<lambda>i. db_metrics db i \<noteq> None) owned) = length owned, db)))"

definition get_composite_operands :: "string \<Rightarrow> (store_error, string list) db_op" where
  "get_composite_operands i =
     dbind (query (\<lambda>db. (db_metrics db i, db))) (\<lambda>row. dreturn (
       obind (ok_or (StoreNotFound i) row) (\<lambda>r.
         if mr_type r \<noteq> ''COMPOSITE'' then Ok []
         else case Option.bind (mr_type_config r) (\<lambda>j. Option.bind (json_get ''operands'' j) as_array_json) of
                None \<Rightarrow> Ok []
              | Some operands \<Rightarrow> Ok (List.map_filter (\<lambda>op. Option.bind (json_get ''metric_id'' op) as_str_json) operands))))"

definition get_metricql_refs :: "string \<Rightarrow> (store_error, string list) db_op" where
  "get_metricql_refs i =
     dbind (query (\<lambda>db. (db_metrics db i, db))) (\<lambda>row. dreturn (
       obind (ok_or (StoreNotFound i) row) (\<lambda>r.
         if mr_type r \<noteq> ''METRICQL'' then Ok []
         else case mr_metricql_expression r of
                None \<Rightarrow> Ok []
              | Some e \<Rightarrow> if blank e then Ok []
                          else case parse_only e of Ok ast \<Rightarrow> Ok (extract_metric_refs ast) | Err _ \<Rightarrow> Ok [] | Panic \<Rightarrow> Panic)))"

definition get_metric_type :: "string \<Rightarrow> (store_error, metric_type) db_op" where
  "get_metric_type i =
     dbind (query (\<lambda>db. (db_metrics db i, db))) (\<lambda>row. dreturn (
       obind (ok_or (StoreNotFound i) row) (\<lambda>r. Ok (metric_type_from_sql (mr_type r)))))"

section \<open>Round trips\<close>

lemma metric_type_i32 [simp]: "metric_type_of_i32 (metric_type_as_i32 t) = t"
  by (cases t) (simp_all add: metric_type_of_i32_def metric_types_def)

lemma metric_type_sql [simp]: "metric_type_from_sql (metric_type_to_sql t) = t"
  by (cases t) (simp_all add: metric_type_from_sql_def)

lemma stakeholder_i32 [simp]: "stakeholder_of_i32 (stakeholder_as_i32 t) = t"
  by (cases t) (simp_all add: stakeholder_of_i32_def)

lemma stakeholder_sql [simp]: "stakeholder_from_sql (stakeholder_to_sql t) = t"
  by (cases t) (simp_all add: stakeholder_from_sql_def)

lemma aggregation_level_i32 [simp]: "aggregation_level_of_i32 (aggregation_level_as_i32 t) = t"
  by (cases t) (simp_all add: aggregation_level_of_i32_def)

lemma aggregation_level_sql [simp]: "aggregation_level_from_sql (aggregation_level_to_sql t) = t"
  by (cases t) (simp_all add: aggregation_level_from_sql_def)

lemma opt_str_default [simp]: "unwrap_or [] (opt_str s) = s"
  by (simp add: opt_str_def)

lemma opt_pos_default: "v = Fin 0 \<or> f64_lt (Fin 0) v \<Longrightarrow> unwrap_or (Fin 0) (opt_pos_f64 v) = v"
  by (auto simp: opt_pos_f64_def)

text \<open>The configurations that JSON can carry, and the type they belong to.\<close>

fun config_fits :: "metric_type \<Rightarrow> metric_type_config \<Rightarrow> bool" where
  "config_fits ty (FilteredMeanCfg cfg) \<longleftrightarrow> ty = MtFilteredMean"
| "config_fits ty (CompositeCfg cfg) \<longleftrightarrow>
     ty = MtComposite \<and> is_i32 (cc_operator cfg) \<and> (\<forall>op \<in> set (cc_operands cfg). co_weight op \<in> range Fin)"
| "config_fits ty (WindowedCountCfg cfg) \<longleftrightarrow> ty = MtWindowedCount \<and> is_i32 (wc_window_hours cfg)"

text \<open>A definition as it is read back, and the weights that JSON carries.\<close>

fun reread_config :: "(f64 \<Rightarrow> f64) \<Rightarrow> metric_type_config \<Rightarrow> metric_type_config" where
  "reread_config jr (CompositeCfg cfg) = CompositeCfg (cfg\<lparr>cc_operands := map (\<lambda>op. op\<lparr>co_weight := jr (co_weight op)\<rparr>) (cc_operands cfg)\<rparr>)"
| "reread_config jr cfg = cfg"

definition reread :: "(f64 \<Rightarrow> f64) \<Rightarrow> proto_metric \<Rightarrow> proto_metric" where
  "reread jr m = m\<lparr>pm_type_config := map_option (reread_config jr) (pm_type_config m)\<rparr>"

fun config_weights :: "metric_type_config option \<Rightarrow> f64 set" where
  "config_weights (Some (CompositeCfg cfg)) = co_weight ` set (cc_operands cfg)"
| "config_weights _ = {}"

abbreviation weights_of :: "proto_metric \<Rightarrow> f64 set" where
  "weights_of m \<equiv> config_weights (pm_type_config m)"

lemma reread_id: "\<forall>w \<in> weights_of m. jr w = w \<Longrightarrow> reread jr m = m"
proof (cases "pm_type_config m")
  case (Some cfg)
  assume "\<forall>w \<in> weights_of m. jr w = w"
  then have "reread_config jr cfg = cfg" by (cases cfg) (auto simp: Some map_idI)
  then show ?thesis by (simp add: reread_def Some)
qed (simp add: reread_def)

lemma operand_roundtrip:
  "co_weight op \<in> range Fin \<Longrightarrow> operand_of_json jr (operand_json op) = op\<lparr>co_weight := jr (co_weight op)\<rparr>"
  by (simp add: operand_of_json_def operand_json_def json_str_def json_f64_roundtrip)

lemma config_roundtrip:
  assumes "pm_type_config m = Some cfg" "config_fits ty cfg"
  shows "metric_type_config_from_json jr ty (build_metric_type_config m) = Some (reread_config jr cfg)"
proof (cases cfg)
  case (CompositeCfg c)
  have "map (operand_of_json jr) (map operand_json (cc_operands c)) = map (\<lambda>op. op\<lparr>co_weight := jr (co_weight op)\<rparr>) (cc_operands c)"
    using assms(2) operand_roundtrip by (simp add: CompositeCfg)
  then show ?thesis using assms CompositeCfg as_i64_i32 i64_as_i32_id
    by (simp add: build_metric_type_config_def metric_type_config_from_json_def json_i32_def)
next
  case (WindowedCountCfg c)
  then show ?thesis using assms as_i64_i32 i64_as_i32_id
    by (simp add: build_metric_type_config_def metric_type_config_from_json_def json_i32_def json_str_def)
next
  case (FilteredMeanCfg c)
  then show ?thesis using assms by (simp add: build_metric_type_config_def metric_type_config_from_json_def json_str_def)
qed

text \<open>A definition in normal form: what the flat columns and the JSON can represent.\<close>

definition canonical_metric :: "proto_metric \<Rightarrow> bool" where
  "canonical_metric m \<longleftrightarrow>
     pm_type m = metric_type_as_i32 (metric_type_of_i32 (pm_type m)) \<and>
     pm_stakeholder m = stakeholder_as_i32 (stakeholder_of_i32 (pm_stakeholder m)) \<and>
     pm_aggregation_level m = aggregation_level_as_i32 (aggregation_level_of_i32 (pm_aggregation_level m)) \<and>
     (pm_percentile m = Fin 0 \<or> f64_lt (Fin 0) (pm_percentile m)) \<and>
     (pm_minimum_detectable_effect m = Fin 0 \<or> f64_lt (Fin 0) (pm_minimum_detectable_effect m)) \<and>
     pm_surrogate_target_metric_id m = [] \<and>
     (case pm_type_config m of None \<Rightarrow> True | Some cfg \<Rightarrow> config_fits (metric_type_of_i32 (pm_type m)) cfg)"

lemma config_none: "pm_type_config m = None \<Longrightarrow> metric_type_config_from_json jr ty (build_metric_type_config m) = None"
  by (simp add: build_metric_type_config_def metric_type_config_from_json_def)

lemma into_proto_values:
  assumes "canonical_metric m"
  shows "into_proto jr (metric_values m now) = reread jr m"
proof -
  have "metric_type_config_from_json jr (metric_type_of_i32 (pm_type m)) (build_metric_type_config m) = map_option (reread_config jr) (pm_type_config m)"
    using assms config_none config_roundtrip by (cases "pm_type_config m") (auto simp: canonical_metric_def)
  then show ?thesis using assms
    by (simp add: canonical_metric_def into_proto_def metric_values_def Let_def opt_pos_default reread_def)
qed

section \<open>Effects\<close>

lemma insert_metric_cases:
  obtains (rejected) c where "insert_metric m db = (Inl c, db)"
  | (inserted) "insert_metric m db = (Inr (metric_values m (db_now db)), db\<lparr>db_metrics := (db_metrics db)(pm_metric_id m \<mapsto> metric_values m (db_now db))\<rparr>)"
      "db_metrics db (pm_metric_id m) = None"
      "metric_type_admitted (mr_type (metric_values m (db_now db)))" "single_definition_source (metric_values m (db_now db))"
  by (cases "metric_type_admitted (mr_type (metric_values m (db_now db)))";
      cases "single_definition_source (metric_values m (db_now db))"; cases "db_metrics db (pm_metric_id m)")
    (auto simp: insert_metric_def Let_def)

lemma create_metric_Ok:
  assumes "create_metric pg m db = (Ok row, db')"
  shows "row = metric_values m (db_now db) \<and> db_metrics db (pm_metric_id m) = None \<and>
    db' = db\<lparr>db_metrics := (db_metrics db)(pm_metric_id m \<mapsto> row), db_faults := tl (db_faults db)\<rparr> \<and>
    metric_type_admitted (mr_type row) \<and> single_definition_source row"
proof (cases rule: query_cases [of "insert_metric m" db])
  case (fault msg)
  then show ?thesis using assms by (simp add: create_metric_def)
next
  case runs
  show ?thesis
  proof (cases rule: insert_metric_cases [of m "db\<lparr>db_faults := tl (db_faults db)\<rparr>"])
    case (rejected c)
    then show ?thesis using assms runs by (simp add: create_metric_def dreturn_def)
  next
    case inserted
    then show ?thesis using assms runs by (auto simp: create_metric_def dreturn_def)
  qed
qed

lemma create_metric_failed:
  assumes "create_metric pg m db = (r, db')" "\<forall>row. r \<noteq> Ok row"
  shows "db' = db\<lparr>db_faults := tl (db_faults db)\<rparr> \<and> (\<exists>e. r = Err e)"
proof (cases rule: query_cases [of "insert_metric m" db])
  case (fault msg)
  then show ?thesis using assms by (auto simp: create_metric_def)
next
  case runs
  show ?thesis
  proof (cases rule: insert_metric_cases [of m "db\<lparr>db_faults := tl (db_faults db)\<rparr>"])
    case (rejected c)
    then show ?thesis using assms runs by (auto simp: create_metric_def dreturn_def)
  next
    case inserted
    then show ?thesis using assms runs by (auto simp: create_metric_def dreturn_def)
  qed
qed

lemma get_metric_no_fault: "db_faults db = [] \<Longrightarrow> get_metric i db = (ok_or (StoreNotFound i) (db_metrics db i), db)"
  by (simp add: get_metric_def dbind_def dreturn_def)

lemma insert_metric_Inr:
  assumes "insert_metric m db = (Inr row, db')"
  shows "row = metric_values m (db_now db) \<and> db_metrics db (pm_metric_id m) = None \<and>
    db' = db\<lparr>db_metrics := (db_metrics db)(pm_metric_id m \<mapsto> row)\<rparr> \<and> metric_type_admitted (mr_type row) \<and> single_definition_source row"
  using assms by (cases rule: insert_metric_cases [of m db]) auto

lemma insert_migration_Inr:
  assumes "insert_migration old new shadow operator db = (Inr (i, at_time), db')"
  shows "old \<notin> mg_old_metric_id ` set (db_migrations db) \<and> i = length (db_migrations db) \<and>
    db' = db\<lparr>db_migrations := db_migrations db @ [\<lparr>mg_migration_id = i, mg_old_metric_id = old, mg_new_metric_id = new,
      mg_shadow_run_result_id = shadow, mg_operator = operator, mg_applied_at = db_now db\<rparr>]\<rparr>"
  using assms by (auto simp: insert_migration_def Let_def split: if_splits)

lemma migrate_metric_Ok:
  assumes "migrate_metric pg m old shadow operator db = (Ok (row, i, at_time), db')"
  shows "row = metric_values m (db_now db) \<and> db_metrics db (pm_metric_id m) = None \<and>
    db_metrics db' = (db_metrics db)(pm_metric_id m \<mapsto> row) \<and>
    old \<notin> mg_old_metric_id ` set (db_migrations db) \<and>
    db_migrations db' = db_migrations db @ [\<lparr>mg_migration_id = i, mg_old_metric_id = old, mg_new_metric_id = pm_metric_id m,
      mg_shadow_run_result_id = shadow, mg_operator = operator, mg_applied_at = db_now db\<rparr>] \<and>
    db_experiments db' = db_experiments db"
proof -
  from assms obtain d1 r d2 a d3 d4 where
    q1: "query (\<lambda>db. ((), db)) db = (Ok (), d1)" and
    q2: "query (insert_metric m) d1 = (Ok (Inr row), d2)" and
    q3: "query (insert_migration old (pm_metric_id m) shadow operator) d2 = (Ok (Inr (i, at_time)), d3)" and
    q4: "query (\<lambda>db. ((), db)) d3 = (Ok (), db')"
    unfolding migrate_metric_def transaction_def
    by (auto simp: dbind_Ok dreturn_def split: prod.splits outcome.splits)
  have "d1 = db\<lparr>db_faults := tl (db_faults db)\<rparr>" "db' = d3\<lparr>db_faults := tl (db_faults d3)\<rparr>"
    using query_Ok [OF q1] query_Ok [OF q4] by simp_all
  then show ?thesis using insert_metric_Inr [OF query_Ok [OF q2]] insert_migration_Inr [OF query_Ok [OF q3]] by auto
qed

lemma migrate_metric_failed:
  assumes "migrate_metric pg m old shadow operator db = (r, db')" "\<forall>x. r \<noteq> Ok x"
  shows "\<exists>fs. db' = db\<lparr>db_faults := fs\<rparr>"
  using assms by (auto simp: migrate_metric_def transaction_def split: prod.splits outcome.splits)

section \<open>Properties\<close>

text \<open>
  C15: What was created can be read back: the answer to the creation of a metric definition in normal form (its
  configuration belongs to its type, its numbers are representable, no surrogate target is named) is the definition
  that was sent, but for what reading a number from JSON makes of the weights of a composite metric, and reading the
  metric from the database afterwards gives the same again. When the weights survive JSON, it is the definition itself.
\<close>

theorem created_metric_reads_back:
  assumes "create_metric pg m db = (Ok row, db')" "canonical_metric m" "db_faults db' = []"
  shows "into_proto jr row = reread jr m \<and>
    (\<exists>row'. get_metric (pm_metric_id m) db' = (Ok row', db') \<and> into_proto jr row' = reread jr m) \<and>
    ((\<forall>w \<in> weights_of m. jr w = w) \<longrightarrow> into_proto jr row = m)"
proof -
  note c = create_metric_Ok [OF assms(1)]
  have "get_metric (pm_metric_id m) db' = (Ok row, db')" using c assms(3) by (simp add: get_metric_no_fault)
  then show ?thesis using c into_proto_values [OF assms(2)] reread_id by metis
qed

text \<open>
  Migrating a metric is atomic: either the new definition and its audit row are both stored and the old metric had not been migrated before, or nothing in the tables changes. The old metric keeps its row.
\<close>

theorem migration_atomic:
  assumes "migrate_metric pg m old shadow operator db = (r, db')"
  shows "(case r of
      Ok (row, i, _) \<Rightarrow>
        db_metrics db (pm_metric_id m) = None \<and> db_metrics db' = (db_metrics db)(pm_metric_id m \<mapsto> row) \<and>
        old \<notin> mg_old_metric_id ` set (db_migrations db) \<and>
        map mg_old_metric_id (db_migrations db') = map mg_old_metric_id (db_migrations db) @ [old] \<and>
        (old \<noteq> pm_metric_id m \<longrightarrow> db_metrics db' old = db_metrics db old)
    | _ \<Rightarrow> db_metrics db' = db_metrics db \<and> db_migrations db' = db_migrations db)"
proof (cases r)
  case (Ok x)
  obtain row i at_time where "x = (row, i, at_time)" by (cases x)
  then show ?thesis using migrate_metric_Ok [of pg m old shadow operator db row i at_time db'] assms Ok by simp
next
  case (Err e)
  then show ?thesis using migrate_metric_failed [OF assms] by auto
next
  case Panic
  then show ?thesis using migrate_metric_failed [OF assms] by auto
qed

section \<open>Witnesses\<close>

text \<open>The messages of PostgreSQL for the constraints of the two tables.\<close>

fun sample_pg :: pg_messages where
  "sample_pg MetricPrimaryKey = ''duplicate key value violates unique constraint metric_definitions_pkey''"
| "sample_pg MetricTypeCheck = ''new row violates check constraint metric_definitions_type_check''"
| "sample_pg SingleDefinitionSource = ''new row violates check constraint metric_definitions_single_definition_source''"
| "sample_pg MigrationOldUnique = ''duplicate key value violates unique constraint uq_metric_migrations_old''"

definition empty_database :: database where
  "empty_database = \<lparr>db_experiments = Map.empty, db_variants = [], db_layers = Map.empty, db_allocations = [],
     db_audit = [], db_metrics = Map.empty, db_migrations = [],
     db_targeting_rules = [], db_surrogate_models = [], db_ids = show_nat, db_salts = show_nat, db_next = 0, db_now = 10, db_faults = []\<rparr>"

definition sample_metric :: "string \<Rightarrow> int \<Rightarrow> metric_type_config option \<Rightarrow> proto_metric" where
  "sample_metric i ty cfg =
     \<lparr>pm_metric_id = i, pm_name = ''sample'', pm_description = [], pm_type = ty, pm_source_event_type = ''play'',
      pm_numerator_event_type = [], pm_denominator_event_type = [], pm_percentile = Fin 0, pm_custom_sql = [],
      pm_lower_is_better = False, pm_surrogate_target_metric_id = [], pm_is_qoe_metric = False,
      pm_cuped_covariate_metric_id = [], pm_minimum_detectable_effect = Fin 0, pm_stakeholder = 1,
      pm_aggregation_level = 1, pm_type_config = cfg, pm_metricql_expression = []\<rparr>"

definition sample_composite :: proto_metric where
  "sample_composite = sample_metric ''c'' 8 (Some (CompositeCfg
     \<lparr>cc_operands = [\<lparr>co_metric_id = ''a'', co_weight = Fin 0\<rparr>, \<lparr>co_metric_id = ''b'', co_weight = Fin (1 / 2)\<rparr>], cc_operator = 1\<rparr>))"

lemma sample_canonical: "canonical_metric sample_composite"
  by (simp add: canonical_metric_def sample_composite_def sample_metric_def metric_type_of_i32_def metric_types_def
      stakeholder_of_i32_def aggregation_level_of_i32_def is_i32_def rangeI)

lemma sample_create:
  "create_metric sample_pg sample_composite empty_database =
     (Ok (metric_values sample_composite 10), empty_database\<lparr>db_metrics := [''c'' \<mapsto> metric_values sample_composite 10]\<rparr>)"
  by (simp add: create_metric_def empty_database_def insert_metric_def Let_def metric_type_admitted_def single_definition_source_def
      metric_values_def sample_composite_def sample_metric_def metric_type_of_i32_def metric_types_def opt_str_def dreturn_def build_metric_type_config_def)

text \<open>A reading that changes some weights, and not those of the sample.\<close>

definition sample_reading :: "f64 \<Rightarrow> f64" where
  "sample_reading x = (if x = Fin 0 \<or> x = Fin (1 / 2) then x else Fin 1)"

theorem created_metric_reads_back_witness:
  "into_proto sample_reading (metric_values sample_composite 10) = sample_composite \<and>
   (\<exists>row'. get_metric (pm_metric_id sample_composite) (empty_database\<lparr>db_metrics := [''c'' \<mapsto> metric_values sample_composite 10]\<rparr>) =
      (Ok row', empty_database\<lparr>db_metrics := [''c'' \<mapsto> metric_values sample_composite 10]\<rparr>) \<and>
      into_proto sample_reading row' = reread sample_reading sample_composite)"
proof -
  have "\<forall>w \<in> weights_of sample_composite. sample_reading w = w"
    by (simp add: sample_composite_def sample_metric_def sample_reading_def)
  moreover have "db_faults (empty_database\<lparr>db_metrics := [''c'' \<mapsto> metric_values sample_composite 10]\<rparr>) = []"
    by (simp add: empty_database_def)
  ultimately show ?thesis using created_metric_reads_back [OF sample_create sample_canonical] by blast
qed

definition failing_database :: database where
  "failing_database = empty_database\<lparr>db_faults := [None, None, Some ''connection lost'']\<rparr>"

lemma sample_migration_fails:
  "migrate_metric sample_pg sample_composite ''old'' ''u'' ''op'' failing_database = (Err (StoreDb ''connection lost''), empty_database)"
  by (simp add: migrate_metric_def transaction_def dbind_def query_def Let_def dreturn_def failing_database_def empty_database_def
      insert_metric_def metric_type_admitted_def single_definition_source_def
      metric_values_def sample_composite_def sample_metric_def metric_type_of_i32_def metric_types_def opt_str_def build_metric_type_config_def insert_migration_def)

theorem migration_atomic_witness:
  "db_metrics empty_database = db_metrics failing_database \<and> db_migrations empty_database = db_migrations failing_database"
  using migration_atomic [OF sample_migration_fails] by simp

end
