(* ===== verification/Metric_Definition.thy ===== *)
theory Metric_Definition
  imports Metric_Store
begin

text \<open>
  Validation of metric definitions (\<^verbatim>\<open>validators/metric_definition.rs\<close>): the common checks, the four
  type-specific validators and their dispatch, over an abstract catalogue (a \<^verbatim>\<open>MetricLookup\<close>), and the
  catalogue of the store as an instance of it.
\<close>

section \<open>The validators\<close>

text \<open>The texts of diagnostics and of doubles in messages are formatted outside the model.\<close>

record metric_texts =
  mt_message :: "message \<Rightarrow> string"
  mt_f64 :: "f64 \<Rightarrow> string"

abbreviation invalid_argument :: "string \<Rightarrow> (status, 'a) outcome" where
  "invalid_argument msg \<equiv> Err (Status InvalidArgument msg)"

definition validate_metric_common_fields :: "proto_metric \<Rightarrow> (status, unit) outcome" where
  "validate_metric_common_fields m =
     (if blank (pm_metric_id m) then invalid_argument ''metric_id is required''
      else if blank (pm_name m) then invalid_argument ''metric.name is required''
      else Ok ())"

definition filtered_mean_cfg :: "proto_metric \<Rightarrow> filtered_mean_config option" where
  "filtered_mean_cfg m = (case pm_type_config m of Some (FilteredMeanCfg cfg) \<Rightarrow> Some cfg | _ \<Rightarrow> None)"

definition windowed_count_cfg :: "proto_metric \<Rightarrow> windowed_count_config option" where
  "windowed_count_cfg m = (case pm_type_config m of Some (WindowedCountCfg cfg) \<Rightarrow> Some cfg | _ \<Rightarrow> None)"

definition composite_cfg :: "proto_metric \<Rightarrow> composite_config option" where
  "composite_cfg m = (case pm_type_config m of Some (CompositeCfg cfg) \<Rightarrow> Some cfg | _ \<Rightarrow> None)"

definition validate_filtered_mean :: "filtered_mean_config option \<Rightarrow> (status, unit) outcome" where
  "validate_filtered_mean cfg =
     (case cfg of
        None \<Rightarrow> invalid_argument ''FILTERED_MEAN metric requires filtered_mean config (type_config.filtered_mean)''
      | Some cfg \<Rightarrow>
          if blank (fm_value_column cfg) then invalid_argument ''FILTERED_MEAN requires value_column''
          else if \<not> is_identifier (fm_value_column cfg)
          then invalid_argument (''FILTERED_MEAN value_column must be a bare lowercase identifier matching ^[a-z_][a-z0-9_]*$ (got '' @
                 quoted (fm_value_column cfg) @ '')'')
          else if blank (fm_filter_sql cfg)
          then invalid_argument ''filter_sql is required for FILTERED_MEAN; use METRIC_TYPE_MEAN if no filter is needed''
          else validate_filter_sql (fm_filter_sql cfg))"

definition windowed_count_max_hours :: int where
  "windowed_count_max_hours = 8760"

definition validate_windowed_count :: "windowed_count_config option \<Rightarrow> (status, unit) outcome" where
  "validate_windowed_count cfg =
     (case cfg of
        None \<Rightarrow> invalid_argument ''windowed_count metric requires WindowedCountConfig''
      | Some cfg \<Rightarrow>
          if wc_event_type cfg = [] then invalid_argument ''windowed_count.event_type must not be empty''
          else if \<not> is_identifier (wc_event_type cfg)
          then invalid_argument (''windowed_count.event_type must match identifier regex ^[a-z_][a-z0-9_]*$, got '' @ wc_event_type cfg)
          else if wc_window_hours cfg \<le> 0 then invalid_argument ''windowed_count.window_hours must be > 0''
          else if windowed_count_max_hours < wc_window_hours cfg
          then invalid_argument ''windowed_count.window_hours must be <= 8760 (1 year)''
          else if wc_filter_sql cfg \<noteq> [] then validate_filter_sql (wc_filter_sql cfg)
          else Ok ())"

definition default_depth_cap :: nat where
  "default_depth_cap = 5"

datatype composite_operator = CoUnspecified | CoAdd | CoSubtract | CoMultiply | CoDivide | CoWeightedSum

definition composite_operator_of_i32 :: "int \<Rightarrow> composite_operator" where
  "composite_operator_of_i32 n = (if n = 1 then CoAdd else if n = 2 then CoSubtract else if n = 3 then CoMultiply
     else if n = 4 then CoDivide else if n = 5 then CoWeightedSum else CoUnspecified)"

fun show_composite_operator :: "composite_operator \<Rightarrow> string" where
  "show_composite_operator CoUnspecified = ''Unspecified''"
| "show_composite_operator CoAdd = ''Add''"
| "show_composite_operator CoSubtract = ''Subtract''"
| "show_composite_operator CoMultiply = ''Multiply''"
| "show_composite_operator CoDivide = ''Divide''"
| "show_composite_operator CoWeightedSum = ''WeightedSum''"

definition arity_ok :: "composite_operator \<Rightarrow> nat \<Rightarrow> (status, unit) outcome" where
  "arity_ok op n =
     (if op \<in> {CoAdd, CoMultiply, CoWeightedSum}
      then if n < 2 then invalid_argument (''COMPOSITE '' @ show_composite_operator op @ '' requires at least 2 operands (got '' @ show_nat n @ '')'')
           else Ok ()
      else if n \<noteq> 2 then invalid_argument (''COMPOSITE '' @ show_composite_operator op @ '' requires exactly 2 operands (got '' @ show_nat n @ '')'')
      else Ok ())"

fun check_weights :: "metric_texts \<Rightarrow> composite_operand list \<Rightarrow> (status, unit) outcome" where
  "check_weights txt [] = Ok ()"
| "check_weights txt (op # ops) =
     (if co_weight op \<notin> range Fin \<or> f64_le (co_weight op) (Fin 0)
      then invalid_argument (''COMPOSITE WEIGHTED_SUM operand '' @ quoted (co_metric_id op) @ '' has invalid weight '' @
             mt_f64 txt (co_weight op) @ '' (must be > 0)'')
      else check_weights txt ops)"

definition lookup_failed :: "store_error \<Rightarrow> status" where
  "lookup_failed e = Status Internal (''metric lookup failed: '' @ show_store_error e)"

definition validate_composite :: "metric_texts \<Rightarrow> composite_config option \<Rightarrow> string \<Rightarrow> metric_lookup \<Rightarrow> (status, unit) outcome" where
  "validate_composite txt cfg this_metric_id L =
     (case cfg of
        None \<Rightarrow> invalid_argument ''COMPOSITE metric requires composite config (type_config.composite)''
      | Some cfg \<Rightarrow>
          (let op = composite_operator_of_i32 (cc_operator cfg); ids = map co_metric_id (cc_operands cfg)
           in if op = CoUnspecified then invalid_argument ''COMPOSITE metric requires a valid operator (got UNSPECIFIED)''
              else obind (arity_ok op (length (cc_operands cfg))) (\<lambda>_.
                   obind (if op = CoWeightedSum then check_weights txt (cc_operands cfg) else Ok ()) (\<lambda>_.
                   if list_ex blank ids then invalid_argument ''COMPOSITE operand metric_id must not be empty''
                   else obind (map_err lookup_failed (exists_all L ids)) (\<lambda>all_present.
                        if \<not> all_present
                        then invalid_argument (''COMPOSITE metric '' @ quoted this_metric_id @ '' references operands that do not exist'')
                        else check_no_cycles this_metric_id ids L default_depth_cap)))))"

definition join_texts :: "string list \<Rightarrow> string" where
  "join_texts ts = concat (case ts of [] \<Rightarrow> [] | x # xs \<Rightarrow> x # map (\<lambda>y. ''; '' @ y) xs)"

definition diagnostics_to_status :: "metric_texts \<Rightarrow> diagnostic list \<Rightarrow> status" where
  "diagnostics_to_status txt diags =
     Status InvalidArgument
       (if diags = [] then ''MetricQL validation failed''
        else if length diags = 1 then mt_message txt (dg_message (hd diags))
        else ''MetricQL validation failed with '' @ show_nat (length diags) @ '' errors: '' @
             join_texts (map (\<lambda>d. mt_message txt (dg_message d)) diags))"

definition validate_metricql_arm :: "metric_texts \<Rightarrow> string \<Rightarrow> string \<Rightarrow> metric_lookup \<Rightarrow> (status, unit) outcome" where
  "validate_metricql_arm txt expression this_metric_id L =
     (if blank expression then invalid_argument ''METRICQL metric requires non-empty metricql_expression''
      else obind (map_err (diagnostics_to_status txt) (validate_metricql expression \<lparr>known_metric_ids = None\<rparr>)) (\<lambda>refs.
           if refs = [] then Ok ()
           else obind (map_err lookup_failed (exists_all L refs)) (\<lambda>all_present.
                if \<not> all_present
                then invalid_argument (''METRICQL metric '' @ quoted this_metric_id @ '' references metrics that do not exist'')
                else check_no_cycles this_metric_id refs L default_depth_cap)))"

definition validate_metric_definition :: "metric_texts \<Rightarrow> proto_metric \<Rightarrow> metric_lookup \<Rightarrow> (status, unit) outcome" where
  "validate_metric_definition txt m L =
     obind (validate_metric_common_fields m) (\<lambda>_.
       (case metric_type_of_i32 (pm_type m) of
          MtFilteredMean \<Rightarrow> validate_filtered_mean (filtered_mean_cfg m)
        | MtComposite \<Rightarrow> validate_composite txt (composite_cfg m) (pm_metric_id m) L
        | MtWindowedCount \<Rightarrow> validate_windowed_count (windowed_count_cfg m)
        | MtMetricql \<Rightarrow> validate_metricql_arm txt (pm_metricql_expression m) (pm_metric_id m) L
        | _ \<Rightarrow> Ok ()))"

section \<open>The catalogue of the store\<close>

text \<open>
  \<^verbatim>\<open>impl MetricLookup for ManagementStore\<close>: every lookup is one statement. A validation asks for the
  type and for the references of a metric at most once, so the statements that fail are given by
  metric and kind of lookup.
\<close>

record lookup_faults =
  lf_exists :: "string option"
  lf_type :: "string \<Rightarrow> string option"
  lf_refs :: "string \<Rightarrow> string option"

definition no_lookup_faults :: lookup_faults where
  "no_lookup_faults = \<lparr>lf_exists = None, lf_type = (\<lambda>_. None), lf_refs = (\<lambda>_. None)\<rparr>"

definition lookup_answer :: "string option \<Rightarrow> (store_error, 'a) db_op \<Rightarrow> database \<Rightarrow> (store_error, 'a) outcome" where
  "lookup_answer fault op db = (case fault of Some msg \<Rightarrow> Err (StoreDb msg) | None \<Rightarrow> fst (op (db\<lparr>db_faults := []\<rparr>)))"

definition store_lookup :: "lookup_faults \<Rightarrow> database \<Rightarrow> metric_lookup" where
  "store_lookup f db =
     \<lparr>exists_all = (\<lambda>ids. lookup_answer (lf_exists f) (exists_all_metrics ids) db),
      composite_operands = (\<lambda>i. lookup_answer (lf_refs f i) (get_composite_operands i) db),
      metricql_refs = (\<lambda>i. lookup_answer (lf_refs f i) (get_metricql_refs i) db),
      type_of_metric = (\<lambda>i. lookup_answer (lf_type f i) (get_metric_type i) db)\<rparr>"

section \<open>The contract of a catalogue\<close>

text \<open>The metrics a definition refers to.\<close>

definition metric_refs :: "proto_metric \<Rightarrow> string list" where
  "metric_refs m =
     (case metric_type_of_i32 (pm_type m) of
        MtComposite \<Rightarrow> (case composite_cfg m of None \<Rightarrow> [] | Some cfg \<Rightarrow> map co_metric_id (cc_operands cfg))
      | MtMetricql \<Rightarrow> (case validate_metricql (pm_metricql_expression m) \<lparr>known_metric_ids = None\<rparr> of Ok refs \<Rightarrow> refs | _ \<Rightarrow> [])
      | _ \<Rightarrow> [])"

lemma map_err_Ok_iff [simp]: "map_err f r = Ok x \<longleftrightarrow> r = Ok x"
  by (cases r) auto

lemma validated_composite:
  assumes "validate_composite txt cfg this L = Ok ()"
  obtains c where "cfg = Some c" "exists_all L (map co_metric_id (cc_operands c)) = Ok True"
    "check_no_cycles this (map co_metric_id (cc_operands c)) L default_depth_cap = Ok ()"
    "arity_ok (composite_operator_of_i32 (cc_operator c)) (length (cc_operands c)) = Ok ()"
    "composite_operator_of_i32 (cc_operator c) \<noteq> CoUnspecified"
    "composite_operator_of_i32 (cc_operator c) = CoWeightedSum \<Longrightarrow> check_weights txt (cc_operands c) = Ok ()"
  using assms that
  by (auto simp: validate_composite_def Let_def obind_Ok_iff split: option.splits if_splits)

lemma validated_metricql:
  assumes "validate_metricql_arm txt e this L = Ok ()"
  obtains refs where "validate_metricql e \<lparr>known_metric_ids = None\<rparr> = Ok refs" "\<not> blank e"
    "refs \<noteq> [] \<Longrightarrow> exists_all L refs = Ok True \<and> check_no_cycles this refs L default_depth_cap = Ok ()"
  using assms that by (auto simp: validate_metricql_arm_def obind_Ok_iff split: if_splits)

text \<open>
  The contract of \<^verbatim>\<open>MetricLookup\<close>: what its methods say about the metrics that are present. A validated
  definition then only refers to present metrics.
\<close>

locale metric_catalogue =
  fixes L :: metric_lookup and present :: "string \<Rightarrow> bool"
  assumes exists_all_iff: "exists_all L ids = Ok b \<Longrightarrow> b \<longleftrightarrow> (\<forall>i \<in> set ids. present i)"
    and typed_present: "type_of_metric L i = Ok t \<Longrightarrow> present i"
begin

lemma validated_refs_present:
  assumes "validate_metric_definition txt m L = Ok ()" "r \<in> set (metric_refs m)"
  shows "present r"
proof -
  consider (composite) "metric_type_of_i32 (pm_type m) = MtComposite" | (metricql) "metric_type_of_i32 (pm_type m) = MtMetricql"
    using assms(2) by (cases "metric_type_of_i32 (pm_type m)") (auto simp: metric_refs_def)
  then show ?thesis
  proof cases
    case composite
    then have "validate_composite txt (composite_cfg m) (pm_metric_id m) L = Ok ()"
      using assms(1) by (simp add: validate_metric_definition_def obind_Ok_iff)
    then obtain c where "composite_cfg m = Some c" "exists_all L (map co_metric_id (cc_operands c)) = Ok True"
      by (rule validated_composite)
    then show ?thesis using exists_all_iff [of "map co_metric_id (cc_operands c)" True] assms(2) composite by (auto simp: metric_refs_def)
  next
    case metricql
    then have "validate_metricql_arm txt (pm_metricql_expression m) (pm_metric_id m) L = Ok ()"
      using assms(1) by (simp add: validate_metric_definition_def obind_Ok_iff)
    then obtain refs where refs: "validate_metricql (pm_metricql_expression m) \<lparr>known_metric_ids = None\<rparr> = Ok refs"
      "refs \<noteq> [] \<Longrightarrow> exists_all L refs = Ok True \<and> check_no_cycles (pm_metric_id m) refs L default_depth_cap = Ok ()"
      by (rule validated_metricql) blast
    then have "r \<in> set refs" using assms(2) metricql by (simp add: metric_refs_def)
    moreover from this have "exists_all L refs = Ok True" using refs(2) by fastforce
    ultimately show ?thesis using exists_all_iff [of refs True] by blast
  qed
qed

lemma grounded_refs_resolve:
  assumes "grounded (neighbors L) i"
  shows "present i"
  using grounded_resolves [OF assms] typed_present by (auto simp: neighbors_def obind_Ok_iff)

end

lemma filter_length_all: "length (filter P xs) = length xs \<longleftrightarrow> (\<forall>x \<in> set xs. P x)"
  by (metis filter_True length_filter_less less_irrefl)

lemma exists_all_store:
  "exists_all (store_lookup f db) ids = Ok b \<Longrightarrow> b \<longleftrightarrow> (\<forall>i \<in> set ids. db_metrics db i \<noteq> None)"
  by (auto simp: store_lookup_def lookup_answer_def exists_all_metrics_def Let_def filter_length_all dreturn_def split: option.splits if_splits)

lemma type_store:
  "lf_type f i = None \<Longrightarrow> type_of_metric (store_lookup f db) i =
     (case db_metrics db i of None \<Rightarrow> Err (StoreNotFound i) | Some r \<Rightarrow> Ok (metric_type_from_sql (mr_type r)))"
  by (simp add: store_lookup_def lookup_answer_def get_metric_type_def dbind_def dreturn_def split: option.split)

lemma type_store_fault: "lf_type f i = Some msg \<Longrightarrow> type_of_metric (store_lookup f db) i = Err (StoreDb msg)"
  by (simp add: store_lookup_def lookup_answer_def)

interpretation store_catalogue: metric_catalogue "store_lookup f db" "\<lambda>i. db_metrics db i \<noteq> None" for f db
proof
  show "exists_all (store_lookup f db) ids = Ok b \<Longrightarrow> b \<longleftrightarrow> (\<forall>i \<in> set ids. db_metrics db i \<noteq> None)" for ids b
    by (rule exists_all_store)
  show "type_of_metric (store_lookup f db) i = Ok t \<Longrightarrow> db_metrics db i \<noteq> None" for i t
    by (cases "lf_type f i") (auto simp: type_store type_store_fault split: option.splits)
qed

section \<open>The reference graph of the stored catalogue\<close>

abbreviation stored_refs :: "database \<Rightarrow> ref_graph" where
  "stored_refs db \<equiv> neighbors (store_lookup no_lookup_faults db)"

definition catalogue_ok :: "database \<Rightarrow> bool" where
  "catalogue_ok db \<longleftrightarrow> (\<forall>i. db_metrics db i \<noteq> None \<longrightarrow> grounded (stored_refs db) i)"

text \<open>The references of a metric depend on its row only.\<close>

lemma stored_refs_cong:
  assumes "db_metrics db i = db_metrics db' i"
  shows "stored_refs db i = stored_refs db' i"
proof -
  let ?L = "store_lookup no_lookup_faults"
  note defs = store_lookup_def lookup_answer_def no_lookup_faults_def get_metric_type_def get_composite_operands_def
    get_metricql_refs_def dbind_def dreturn_def
  have "type_of_metric (?L db) i = type_of_metric (?L db') i" "composite_operands (?L db) i = composite_operands (?L db') i"
    "metricql_refs (?L db) i = metricql_refs (?L db') i"
    using assms by (simp_all add: defs)
  then show ?thesis unfolding neighbors_def by (simp cong: if_cong)
qed

lemma operand_ids: "List.map_filter (\<lambda>op. Option.bind (json_get ''metric_id'' op) as_str_json) (map operand_json ops) = map co_metric_id ops"
  by (induction ops) (simp_all add: List.map_filter_def operand_json_def)

lemma metric_type_to_sql_eq [simp]: "metric_type_from_sql s = t \<Longrightarrow> t \<noteq> MtUnspecified \<Longrightarrow> metric_type_to_sql t = s"
  by (auto simp: metric_type_from_sql_def split: if_splits)

lemma stored_refs_created:
  assumes "validate_metric_definition txt m L = Ok ()" "db_metrics db i = Some (metric_values m now)"
  shows "stored_refs db i = Ok (metric_refs m)"
proof -
  let ?t = "metric_type_of_i32 (pm_type m)"
  have type: "type_of_metric (store_lookup no_lookup_faults db) i = Ok ?t"
    using assms(2) by (simp add: type_store no_lookup_faults_def metric_values_def)
  show ?thesis
  proof (cases "?t = MtComposite \<or> ?t = MtMetricql")
    case False
    then show ?thesis using type by (cases ?t) (auto simp: neighbors_def metric_refs_def)
  next
    case True
    then show ?thesis
    proof
      assume t: "?t = MtComposite"
      then have "validate_composite txt (composite_cfg m) (pm_metric_id m) L = Ok ()"
        using assms(1) by (simp add: validate_metric_definition_def obind_Ok_iff)
      then obtain c where c: "composite_cfg m = Some c" by (rule validated_composite)
      then have "pm_type_config m = Some (CompositeCfg c)" by (auto simp: composite_cfg_def split: option.splits metric_type_config.splits)
      then have "composite_operands (store_lookup no_lookup_faults db) i = Ok (map co_metric_id (cc_operands c))"
        using assms(2) t by (simp add: store_lookup_def lookup_answer_def no_lookup_faults_def get_composite_operands_def dbind_def dreturn_def
            metric_values_def build_metric_type_config_def operand_ids)
      then show ?thesis using type t c by (simp add: neighbors_def metric_refs_def)
    next
      assume t: "?t = MtMetricql"
      then have "validate_metricql_arm txt (pm_metricql_expression m) (pm_metric_id m) L = Ok ()"
        using assms(1) by (simp add: validate_metric_definition_def obind_Ok_iff)
      then obtain refs where refs: "validate_metricql (pm_metricql_expression m) \<lparr>known_metric_ids = None\<rparr> = Ok refs"
        "\<not> blank (pm_metricql_expression m)" by (rule validated_metricql) blast
      then obtain n where n: "parse (pm_metricql_expression m) = Ok n" "refs = extract_metric_refs n"
        by (auto simp: validate_metricql_eq obind_Ok_iff parse_diagnostics_Ok_iff split: if_splits)
      moreover have "pm_metricql_expression m \<noteq> []" using refs(2) by auto
      ultimately have "metricql_refs (store_lookup no_lookup_faults db) i = Ok refs"
        using assms(2) t refs(2) by (simp add: store_lookup_def lookup_answer_def no_lookup_faults_def get_metricql_refs_def dbind_def dreturn_def
            metric_values_def opt_str_def parse_only_def)
      then show ?thesis using type t refs(1) by (simp add: neighbors_def metric_refs_def)
    qed
  qed
qed

lemma grounded_extend:
  assumes "grounded S i" "\<And>j. grounded S j \<Longrightarrow> S' j = S j"
  shows "grounded S' i"
  using assms(1)
proof induction
  case (groundedI n ms)
  then have "grounded S n" by (auto intro: grounded.groundedI)
  then show ?case using assms(2) groundedI by (auto intro: grounded.groundedI)
qed

lemma insert_keeps_catalogue:
  assumes "catalogue_ok db'" "db_metrics db \<subseteq>\<^sub>m db_metrics db'"
    and "validate_metric_definition txt m (store_lookup f db) = Ok ()"
    and "db_metrics db' (pm_metric_id m) = None" "db_metrics db'' = (db_metrics db')(pm_metric_id m \<mapsto> metric_values m now)"
  shows "catalogue_ok db''"
proof -
  let ?x = "pm_metric_id m"
  have same: "stored_refs db'' j = stored_refs db' j" if "grounded (stored_refs db') j" for j
    using store_catalogue.grounded_refs_resolve [OF that] assms(4,5) by (intro stored_refs_cong) auto
  have old: "grounded (stored_refs db'') j" if "db_metrics db' j \<noteq> None" for j
    using assms(1) that same by (auto simp: catalogue_ok_def intro: grounded_extend)
  have "grounded (stored_refs db'') ?x"
  proof (rule groundedI)
    show "stored_refs db'' ?x = Ok (metric_refs m)" using stored_refs_created [OF assms(3)] assms(5) by simp
    show "\<forall>r \<in> set (metric_refs m). grounded (stored_refs db'') r"
      using store_catalogue.validated_refs_present [OF assms(3)] assms(2) old by (metis domI domIff map_le_def)
  qed
  then show ?thesis using old assms(5) by (auto simp: catalogue_ok_def split: if_splits)
qed

end
