(* ===== verification/Metric_Service.thy ===== *)
theory Metric_Service
  imports Metric_Definition Management_Service
begin

text \<open>
  The metric requests of the management service (the metric part of \<^verbatim>\<open>grpc.rs\<close>): creating, reading,
  listing and migrating metric definitions, and the live validation of MetricQL texts. M3, which runs
  the shadow computations of a migration, and the formatting of texts are parameters.
\<close>

section \<open>Environment\<close>

record metric_env =
  mv_texts :: metric_texts
  mv_pg :: pg_messages
  mv_parse_uuid :: "string \<Rightarrow> string + uuid"
  mv_shadow_results :: "string \<Rightarrow> (status, string) outcome"
  mv_rfc3339 :: "int \<Rightarrow> string"
  mv_json_f64 :: "f64 \<Rightarrow> f64"

fun show_metric_type :: "metric_type \<Rightarrow> string" where
  "show_metric_type MtUnspecified = ''Unspecified''"
| "show_metric_type MtMean = ''Mean''"
| "show_metric_type MtProportion = ''Proportion''"
| "show_metric_type MtRatio = ''Ratio''"
| "show_metric_type MtCount = ''Count''"
| "show_metric_type MtPercentile = ''Percentile''"
| "show_metric_type MtCustom = ''Custom''"
| "show_metric_type MtFilteredMean = ''FilteredMean''"
| "show_metric_type MtComposite = ''Composite''"
| "show_metric_type MtWindowedCount = ''WindowedCount''"
| "show_metric_type MtMetricql = ''Metricql''"

section \<open>Creating, reading and listing\<close>

text \<open>The validator reads the catalogue of the store and changes nothing.\<close>

definition validated :: "metric_env \<Rightarrow> lookup_faults \<Rightarrow> proto_metric \<Rightarrow> unit handler" where
  "validated env f m s = (validate_metric_definition (mv_texts env) m (store_lookup f (m5_db s)), s)"

text \<open>The flag of the answer says whether the deprecation header for CUSTOM metrics is set.\<close>

definition create_metric_definition :: "metric_env \<Rightarrow> lookup_faults \<Rightarrow> proto_metric option \<Rightarrow> (proto_metric \<times> bool) handler" where
  "create_metric_definition env f req =
     hbind (hreturn (ok_or (Status InvalidArgument ''metric is required'') req)) (\<lambda>m.
     hbind (validated env f m) (\<lambda>_.
     hbind (store (create_metric (mv_pg env) m)) (\<lambda>row.
       let response = into_proto (mv_json_f64 env) row
       in hreturn (Ok (response, metric_type_of_i32 (pm_type response) = MtCustom)))))"

definition get_metric_definition :: "metric_env \<Rightarrow> string \<Rightarrow> proto_metric handler" where
  "get_metric_definition env metric_id =
     (if blank metric_id then hreturn (Err (Status InvalidArgument ''metric_id is required''))
      else hbind (store (get_metric metric_id)) (\<lambda>row. hreturn (Ok (into_proto (mv_json_f64 env) row))))"

definition list_metric_definitions :: "metric_env \<Rightarrow> int \<Rightarrow> proto_metric list handler" where
  "list_metric_definitions env type_filter =
     (let t = metric_type_of_i32 type_filter;
          flt = \<lparr>mf_stakeholder = None, mf_aggregation_level = None,
                 mf_type = (if t = MtUnspecified then None else Some (metric_type_to_sql t))\<rparr>
      in hbind (store (list_metrics flt)) (\<lambda>rows. hreturn (Ok (map (into_proto (mv_json_f64 env)) rows))))"

section \<open>Migrating a CUSTOM metric\<close>

record migrate_request =
  rq_old_metric_id :: string
  rq_shadow_run_result_id :: string
  rq_operator :: string
  rq_new_metric :: "proto_metric option"

record migrate_response =
  rs_new_metric_id :: string
  rs_migration_id :: nat
  rs_applied_at :: string

definition old_metric_is_custom :: "string \<Rightarrow> unit handler" where
  "old_metric_is_custom old s =
     (case get_metric_type old (m5_db s) of
        (Ok t, db) \<Rightarrow>
          (if t = MtCustom then Ok ()
           else Err (Status InvalidArgument (''old metric must be CUSTOM but is '' @ show_metric_type t @ '': '' @ old)), s\<lparr>m5_db := db\<rparr>)
      | (Err (StoreNotFound _), db) \<Rightarrow> (Err (Status InvalidArgument (''old metric does not exist: '' @ old)), s\<lparr>m5_db := db\<rparr>)
      | (Err e, db) \<Rightarrow> (Err (store_err_to_status e), s\<lparr>m5_db := db\<rparr>)
      | (Panic, db) \<Rightarrow> (Panic, s\<lparr>m5_db := db\<rparr>))"

text \<open>\<^verbatim>\<open>Code::Unavailable\<close> is 14.\<close>

fun shadow_status_error :: "string \<Rightarrow> status \<Rightarrow> status" where
  "shadow_status_error shadow (Status code msg) =
     (if code = NotFound then Status FailedPrecondition (''shadow_run_result_id not found in M3: '' @ shadow)
      else if code = OtherCode 14 then Status (OtherCode 14) (''M3 unavailable while verifying shadow run: '' @ msg)
      else Status (OtherCode 14) (''M3 GetShadowResults failed: '' @ msg))"

definition shadow_approved :: "metric_env \<Rightarrow> string \<Rightarrow> (status, unit) outcome" where
  "shadow_approved env shadow =
     obind (map_err (shadow_status_error shadow) (mv_shadow_results env shadow)) (\<lambda>st.
       if st \<noteq> ''APPROVED''
       then Err (Status FailedPrecondition (''shadow run result must be APPROVED but is '' @ st @ '': '' @ shadow))
       else Ok ())"

text \<open>The steps of a migration request after the checks on its form.\<close>

definition migrate_checked :: "metric_env \<Rightarrow> lookup_faults \<Rightarrow> proto_metric \<Rightarrow> string \<Rightarrow> string \<Rightarrow> uuid \<Rightarrow> string \<Rightarrow> migrate_response handler" where
  "migrate_checked env f m old shadow shadow_uuid operator =
     hbind (old_metric_is_custom old) (\<lambda>_.
     hbind (validated env f m) (\<lambda>_.
     hbind (hreturn (shadow_approved env shadow)) (\<lambda>_.
     hbind (store (migrate_metric (mv_pg env) m old shadow_uuid operator)) (\<lambda>(row, i, applied_at).
       hreturn (Ok \<lparr>rs_new_metric_id = mr_metric_id row, rs_migration_id = i, rs_applied_at = mv_rfc3339 env applied_at\<rparr>)))))"

definition migrate_metric_definition :: "metric_env \<Rightarrow> lookup_faults \<Rightarrow> migrate_request \<Rightarrow> migrate_response handler" where
  "migrate_metric_definition env f req =
     (let old = trim (rq_old_metric_id req); shadow = trim (rq_shadow_run_result_id req); operator = trim (rq_operator req)
      in hbind (hreturn (ok_or (Status InvalidArgument ''new_metric is required'') (rq_new_metric req))) (\<lambda>m.
         if old = [] then hreturn (Err (Status InvalidArgument ''old_metric_id is required''))
         else if shadow = [] then hreturn (Err (Status InvalidArgument ''shadow_run_result_id is required''))
         else if operator = [] then hreturn (Err (Status InvalidArgument ''operator is required''))
         else case mv_parse_uuid env shadow of
                Inl e \<Rightarrow> hreturn (Err (Status InvalidArgument (''shadow_run_result_id is not a valid UUID: '' @ shadow @ '' ('' @ e @ '')'')))
              | Inr shadow_uuid \<Rightarrow>
                  if metric_type_of_i32 (pm_type m) = MtCustom
                  then hreturn (Err (Status InvalidArgument
                         ''new metric must not be CUSTOM (migrate to FILTERED_MEAN, COMPOSITE, WINDOWED_COUNT, or METRICQL)''))
                  else if trim (pm_metric_id m) = old
                  then hreturn (Err (Status InvalidArgument ''new metric_id must differ from old_metric_id (in-place migration is forbidden)''))
                  else migrate_checked env f m old shadow shadow_uuid operator))"

section \<open>Live validation of MetricQL\<close>

record proto_span =
  ps_start_offset :: i32
  ps_end_offset :: i32
  ps_line :: i32
  ps_column :: i32

record proto_diagnostic =
  pd_severity :: int
  pd_message :: string
  pd_proto_span :: proto_span

record validate_response =
  vs_diagnostics :: "proto_diagnostic list"
  vs_referenced_metric_ids :: "string list"

text \<open>The loop over the bytes before the offset; line and column are 32-bit integers that wrap.\<close>

fun line_col_loop :: "string \<Rightarrow> nat \<Rightarrow> i32 \<Rightarrow> i32 \<Rightarrow> i32 \<times> i32" where
  "line_col_loop [] n line col = (line, col)"
| "line_col_loop (b # bs) n line col =
     (if n = 0 then (line, col)
      else if b = CHR 0x0A then line_col_loop bs (n - 1) (line + 1) 1
      else line_col_loop bs (n - 1) line (col + 1))"

definition line_col_from_byte_offset :: "string \<Rightarrow> nat \<Rightarrow> i32 \<times> i32" where
  "line_col_from_byte_offset source byte_offset = line_col_loop source byte_offset 1 1"

fun severity_as_i32 :: "severity \<Rightarrow> int" where
  "severity_as_i32 Error = 1"
| "severity_as_i32 Warning = 2"

definition internal_to_proto_diag :: "metric_texts \<Rightarrow> string \<Rightarrow> diagnostic \<Rightarrow> proto_diagnostic" where
  "internal_to_proto_diag txt source d =
     (let (line, column) = line_col_from_byte_offset source (sp_start (dg_span d))
      in \<lparr>pd_severity = severity_as_i32 (dg_severity d), pd_message = mt_message txt (dg_message d),
          pd_proto_span = \<lparr>ps_start_offset = of_nat (sp_start (dg_span d)), ps_end_offset = of_nat (sp_end (dg_span d)),
                           ps_line = line, ps_column = column\<rparr>\<rparr>)"

fun diagnostics_response :: "metric_texts \<Rightarrow> string \<Rightarrow> (diagnostic list, string list) outcome \<Rightarrow> (status, validate_response) outcome" where
  "diagnostics_response txt source (Ok refs) = Ok \<lparr>vs_diagnostics = [], vs_referenced_metric_ids = refs\<rparr>"
| "diagnostics_response txt source (Err diags) =
     Ok \<lparr>vs_diagnostics = map (internal_to_proto_diag txt source) diags, vs_referenced_metric_ids = []\<rparr>"
| "diagnostics_response txt source Panic = Panic"

text \<open>An error of the catalogue query is reported with its text, unlike the other requests.\<close>

definition global_catalogue :: "string \<Rightarrow> string set option handler" where
  "global_catalogue experiment_id s =
     (if blank experiment_id
      then case dmap_err (\<lambda>e. Status Internal (''failed to load global metric catalog: '' @ show_store_error e)) list_metric_ids (m5_db s) of
             (Ok ids, db) \<Rightarrow> (Ok (Some (set ids)), s\<lparr>m5_db := db\<rparr>)
           | (Err e, db) \<Rightarrow> (Err e, s\<lparr>m5_db := db\<rparr>)
           | (Panic, db) \<Rightarrow> (Panic, s\<lparr>m5_db := db\<rparr>)
      else (Ok None, s))"

definition validate_metricql_request :: "metric_env \<Rightarrow> string \<Rightarrow> string \<Rightarrow> validate_response handler" where
  "validate_metricql_request env experiment_id expression =
     (if blank expression
      then hreturn (Ok \<lparr>vs_diagnostics =
             [\<lparr>pd_severity = 1, pd_message = ''empty MetricQL expression'',
               pd_proto_span = \<lparr>ps_start_offset = 0, ps_end_offset = 0, ps_line = 1, ps_column = 1\<rparr>\<rparr>],
             vs_referenced_metric_ids = []\<rparr>)
      else hbind (global_catalogue experiment_id) (\<lambda>known.
           hreturn (diagnostics_response (mv_texts env) expression (validate_metricql expression \<lparr>known_metric_ids = known\<rparr>))))"

section \<open>Preview\<close>

text \<open>\<^verbatim>\<open>str::parse::<u64>\<close>: decimal digits, with an optional plus sign, below the range of the type.\<close>

definition parse_u64 :: "string \<Rightarrow> nat option" where
  "parse_u64 s =
     (let digits = (case s of c # rest \<Rightarrow> if c = CHR ''+'' then rest else s | [] \<Rightarrow> []) in
      if digits = [] \<or> \<not> list_all is_ascii_digit digits \<or> 2 ^ 64 \<le> digits_val digits then None else Some (digits_val digits))"

definition checked_mul_u64 :: "nat \<Rightarrow> nat \<Rightarrow> nat option" where
  "checked_mul_u64 a b = (if a * b < 2 ^ 64 then Some (a * b) else None)"

text \<open>
  \<^verbatim>\<open>parse_grpc_timeout\<close>, in nanoseconds. Header values are ASCII, so the split before the last byte is at a
  character boundary.
\<close>

definition parse_grpc_timeout :: "string \<Rightarrow> nat option" where
  "parse_grpc_timeout s =
     Option.bind (parse_u64 (butlast s)) (\<lambda>n.
       let unit = drop (length s - 1) s in
       if unit = ''H'' then map_option (\<lambda>secs. secs * 10 ^ 9) (checked_mul_u64 n 3600)
       else if unit = ''M'' then map_option (\<lambda>secs. secs * 10 ^ 9) (checked_mul_u64 n 60)
       else if unit = ''S'' then Some (n * 10 ^ 9)
       else if unit = ''m'' then Some (n * 10 ^ 6)
       else if unit = ''u'' then Some (n * 10 ^ 3)
       else if unit = ''n'' then Some n
       else None)"

record preview_response =
  vp_compiled_sql :: string
  vp_diagnostics :: "proto_diagnostic list"

text \<open>M3 compiles the expression: it gets the identifier of the experiment, the expression and the deadline.\<close>

definition preview_metric_definition ::
  "(string \<Rightarrow> string \<Rightarrow> nat \<Rightarrow> (status, preview_response) outcome) \<Rightarrow> string option \<Rightarrow> string \<Rightarrow> string \<Rightarrow> preview_response handler" where
  "preview_metric_definition m3 grpc_timeout experiment_id expression =
     (if blank expression then hreturn (Err (Status InvalidArgument ''metricql_expression is required''))
      else hreturn (m3 experiment_id expression (unwrap_or (5 * 10 ^ 9) (Option.bind grpc_timeout parse_grpc_timeout))))"

text \<open>The deadline sent to M3 always fits the duration type: its seconds are below the range of \<^verbatim>\<open>u64\<close>.\<close>

lemma parse_u64_bound: "parse_u64 s = Some n \<Longrightarrow> n < 2 ^ 64"
  by (auto simp: parse_u64_def Let_def split: if_splits)

lemma timeout_fits:
  assumes "parse_grpc_timeout s = Some t"
  shows "t div 10 ^ 9 < 2 ^ 64"
proof -
  obtain n where n: "parse_u64 (butlast s) = Some n" using assms by (auto simp: parse_grpc_timeout_def bind_eq_Some_conv)
  have "n < 2 ^ 64" using n by (rule parse_u64_bound)
  moreover have "t div 10 ^ 9 = n * 3600 \<and> n * 3600 < 2 ^ 64 \<or> t div 10 ^ 9 = n * 60 \<and> n * 60 < 2 ^ 64 \<or> t div 10 ^ 9 \<le> n"
    using assms n by (auto simp: parse_grpc_timeout_def checked_mul_u64_def Let_def split: if_splits)
  ultimately show ?thesis by linarith
qed

lemma show_nat_is_number: "show_nat n \<noteq> [] \<and> list_all is_ascii_digit (show_nat n)"
proof (induction n rule: show_nat.induct)
  case (1 n)
  have "is_ascii_digit (char_of (48 + n mod 10))" "n < 10 \<Longrightarrow> is_ascii_digit (char_of (48 + n))" by (simp_all add: is_ascii_digit_of_char)
  then show ?case using 1 by (simp add: show_nat.simps [of n])
qed

lemma timeout_digits:
  "parse_grpc_timeout (show_nat n @ ''S'') = (if n < 2 ^ 64 then Some (n * 10 ^ 9) else None)"
proof -
  obtain c cs where s: "show_nat n = c # cs" "list_all is_ascii_digit (show_nat n)" using show_nat_is_number [of n] by (cases "show_nat n") auto
  then have "c \<noteq> CHR ''+''" by (auto simp: is_ascii_digit_def)
  then have "parse_u64 (show_nat n) = (if n < 2 ^ 64 then Some n else None)"
    using s digits_val_show_nat [of n] by (simp add: parse_u64_def)
  then show ?thesis by (simp add: parse_grpc_timeout_def butlast_append)
qed

section \<open>The catalogue stays well-founded\<close>

lemma catalogue_ok_cong: "db_metrics db = db_metrics db' \<Longrightarrow> catalogue_ok db = catalogue_ok db'"
proof -
  assume same: "db_metrics db = db_metrics db'"
  then have "stored_refs db = stored_refs db'" by (intro ext stored_refs_cong) simp
  then show ?thesis using same by (simp add: catalogue_ok_def)
qed

text \<open>The change a request makes to the catalogue: none, or the insertion of a definition that was validated on it.\<close>

definition catalogue_change :: "metric_env \<Rightarrow> lookup_faults \<Rightarrow> database \<Rightarrow> database \<Rightarrow> bool" where
  "catalogue_change env f db db' \<longleftrightarrow>
     db_metrics db' = db_metrics db \<or>
     (\<exists>m now. validate_metric_definition (mv_texts env) m (store_lookup f db) = Ok () \<and>
        db_metrics db (pm_metric_id m) = None \<and> db_metrics db' = (db_metrics db)(pm_metric_id m \<mapsto> metric_values m now))"

lemma catalogue_change_refl: "db_metrics db' = db_metrics db \<Longrightarrow> catalogue_change env f db db'"
  by (simp add: catalogue_change_def)

lemma catalogue_change_insert:
  "validate_metric_definition (mv_texts env) m (store_lookup f db) = Ok () \<Longrightarrow> db_metrics db (pm_metric_id m) = None \<Longrightarrow>
   db_metrics db' = (db_metrics db)(pm_metric_id m \<mapsto> metric_values m now) \<Longrightarrow> catalogue_change env f db db'"
  by (auto simp: catalogue_change_def)

lemma catalogue_change_ok: "catalogue_change env f db db' \<Longrightarrow> catalogue_ok db \<Longrightarrow> catalogue_ok db'"
  unfolding catalogue_change_def using catalogue_ok_cong insert_keeps_catalogue [of db db] by (metis map_le_refl)

lemma hbind_result:
  "hbind m k s = (case m s of (r, s1) \<Rightarrow> case r of Ok x \<Rightarrow> k x s1 | Err e \<Rightarrow> (Err e, s1) | Panic \<Rightarrow> (Panic, s1))"
  by (auto simp: hbind_def split: prod.splits outcome.splits)

lemma store_result: "store op s = (let (r, db) = op (m5_db s) in (map_err store_err_to_status r, s\<lparr>m5_db := db\<rparr>))"
  by (auto simp: store_def dmap_err_def Let_def split: prod.splits outcome.splits)

lemma create_metric_metrics:
  assumes "create_metric pg m db = (r, db')"
  shows "(case r of Ok row \<Rightarrow> row = metric_values m (db_now db) \<and> db_metrics db (pm_metric_id m) = None \<and>
            db_metrics db' = (db_metrics db)(pm_metric_id m \<mapsto> row)
          | _ \<Rightarrow> db_metrics db' = db_metrics db)"
  using create_metric_Ok [of pg m db _ db'] create_metric_failed [OF assms] assms by (cases r) auto

lemma create_change: "catalogue_change env f (m5_db s) (m5_db (snd (create_metric_definition env f req s)))"
proof (cases "req = None \<or> validate_metric_definition (mv_texts env) (the req) (store_lookup f (m5_db s)) \<noteq> Ok ()")
  case True
  then have "snd (create_metric_definition env f req s) = s"
    by (cases req; cases "validate_metric_definition (mv_texts env) (the req) (store_lookup f (m5_db s))")
      (auto simp: create_metric_definition_def hbind_result hreturn_def validated_def)
  then show ?thesis by (simp add: catalogue_change_def)
next
  case False
  then obtain m where m: "req = Some m" and v: "validate_metric_definition (mv_texts env) m (store_lookup f (m5_db s)) = Ok ()" by auto
  obtain r db' where c: "create_metric (mv_pg env) m (m5_db s) = (r, db')" by (cases "create_metric (mv_pg env) m (m5_db s)")
  have "m5_db (snd (create_metric_definition env f req s)) = db'"
    using m v c by (cases r) (auto simp: create_metric_definition_def hbind_result hreturn_def validated_def store_result Let_def)
  then show ?thesis using create_metric_metrics [OF c] v by (cases r) (auto simp: catalogue_change_def)
qed

lemma old_metric_reads: "\<exists>fs. snd (old_metric_is_custom old s) = s\<lparr>m5_db := (m5_db s)\<lparr>db_faults := fs\<rparr>\<rparr>"
proof -
  have "read_only (get_metric_type old)" unfolding get_metric_type_def by (intro read_only_intros)
  then obtain r fs where "get_metric_type old (m5_db s) = (r, (m5_db s)\<lparr>db_faults := fs\<rparr>)" using read_only_cases by blast
  then have "snd (old_metric_is_custom old s) = s\<lparr>m5_db := (m5_db s)\<lparr>db_faults := fs\<rparr>\<rparr>"
    by (auto simp: old_metric_is_custom_def split: outcome.splits store_error.splits)
  then show ?thesis by blast
qed

lemma store_lookup_cong:
  assumes "db_metrics db = db_metrics db'"
  shows "store_lookup f db = store_lookup f db'"
proof -
  have "fst (exists_all_metrics ids (db\<lparr>db_faults := []\<rparr>)) = fst (exists_all_metrics ids (db'\<lparr>db_faults := []\<rparr>))" for ids
    by (simp add: assms exists_all_metrics_def dreturn_def Let_def)
  moreover have "fst (get_metric_type i (db\<lparr>db_faults := []\<rparr>)) = fst (get_metric_type i (db'\<lparr>db_faults := []\<rparr>))"
    "fst (get_composite_operands i (db\<lparr>db_faults := []\<rparr>)) = fst (get_composite_operands i (db'\<lparr>db_faults := []\<rparr>))"
    "fst (get_metricql_refs i (db\<lparr>db_faults := []\<rparr>)) = fst (get_metricql_refs i (db'\<lparr>db_faults := []\<rparr>))" for i
    by (simp_all add: assms get_metric_type_def get_composite_operands_def get_metricql_refs_def dbind_def dreturn_def)
  ultimately show ?thesis by (simp add: store_lookup_def lookup_answer_def cong: option.case_cong)
qed

lemma migrate_form:
  obtains (rejected) e where "migrate_metric_definition env f req s = (Err e, s)"
  | (checked) m shadow_uuid where "rq_new_metric req = Some m" "metric_type_of_i32 (pm_type m) \<noteq> MtCustom"
      "trim (pm_metric_id m) \<noteq> trim (rq_old_metric_id req)" "trim (rq_operator req) \<noteq> []"
      "mv_parse_uuid env (trim (rq_shadow_run_result_id req)) = Inr shadow_uuid"
      "migrate_metric_definition env f req s =
         migrate_checked env f m (trim (rq_old_metric_id req)) (trim (rq_shadow_run_result_id req)) shadow_uuid (trim (rq_operator req)) s"
proof (cases "rq_new_metric req")
  case None
  then show ?thesis by (intro rejected) (simp add: migrate_metric_definition_def Let_def hbind_result hreturn_def)
next
  case (Some m)
  note form = migrate_metric_definition_def Let_def hbind_result hreturn_def Some ok_or.simps
  show ?thesis
  proof (cases "\<exists>e. migrate_metric_definition env f req s = (Err e, s)")
    case False
    then obtain u where u: "mv_parse_uuid env (trim (rq_shadow_run_result_id req)) = Inr u"
      by (simp add: form split: if_splits sum.splits)
    with False have "trim (rq_old_metric_id req) \<noteq> [] \<and> trim (rq_shadow_run_result_id req) \<noteq> [] \<and> trim (rq_operator req) \<noteq> []
      \<and> metric_type_of_i32 (pm_type m) \<noteq> MtCustom \<and> trim (pm_metric_id m) \<noteq> trim (rq_old_metric_id req)"
      by (simp add: form split: if_splits)
    then show ?thesis by (intro checked [OF Some _ _ _ u]) (simp_all add: form u)
  qed (use rejected in blast)
qed

lemma old_metric_is_custom_Ok:
  assumes "old_metric_is_custom old s = (Ok (), s1)"
  shows "\<exists>row. db_metrics (m5_db s) old = Some row \<and> mr_type row = ''CUSTOM''"
proof -
  from assms obtain db where t: "get_metric_type old (m5_db s) = (Ok MtCustom, db)"
    by (auto simp: old_metric_is_custom_def split: prod.splits outcome.splits store_error.splits if_splits)
  then obtain row db1 where q: "query (\<lambda>db. (db_metrics db old, db)) (m5_db s) = (Ok (Some row), db1)"
    and ty: "metric_type_from_sql (mr_type row) = MtCustom"
    by (auto simp: get_metric_type_def dbind_Ok dreturn_def obind_Ok_iff ok_or_Ok_iff)
  have "mr_type row = ''CUSTOM''" using ty by (auto simp: metric_type_from_sql_def split: if_splits)
  then show ?thesis using query_Ok [OF q] by auto
qed

lemma migrate_checked_stages:
  obtains (stopped) "\<forall>x. fst (migrate_checked env f m old shadow u operator s) \<noteq> Ok x"
      "db_metrics (m5_db (snd (migrate_checked env f m old shadow u operator s))) = db_metrics (m5_db s)"
  | (inserted) s1 r db' where "old_metric_is_custom old s = (Ok (), s1)"
      "validate_metric_definition (mv_texts env) m (store_lookup f (m5_db s)) = Ok ()" "shadow_approved env shadow = Ok ()"
      "migrate_metric (mv_pg env) m old u operator (m5_db s1) = (r, db')" "\<exists>fs. s1 = s\<lparr>m5_db := (m5_db s)\<lparr>db_faults := fs\<rparr>\<rparr>"
      "m5_db (snd (migrate_checked env f m old shadow u operator s)) = db'"
      "fst (migrate_checked env f m old shadow u operator s) =
         obind (map_err store_err_to_status r) (\<lambda>(row, i, applied_at).
           Ok \<lparr>rs_new_metric_id = mr_metric_id row, rs_migration_id = i, rs_applied_at = mv_rfc3339 env applied_at\<rparr>)"
proof -
  obtain r0 s1 where o: "old_metric_is_custom old s = (r0, s1)" by (cases "old_metric_is_custom old s")
  have upd: "\<exists>fs. s1 = s\<lparr>m5_db := (m5_db s)\<lparr>db_faults := fs\<rparr>\<rparr>" using old_metric_reads [of old s] o by simp
  then have s1: "db_metrics (m5_db s1) = db_metrics (m5_db s)" by auto
  have v: "validated env f m s1 = (validate_metric_definition (mv_texts env) m (store_lookup f (m5_db s)), s1)"
    using store_lookup_cong [OF s1] by (simp add: validated_def)
  obtain r db' where mg: "migrate_metric (mv_pg env) m old u operator (m5_db s1) = (r, db')"
    by (cases "migrate_metric (mv_pg env) m old u operator (m5_db s1)")
  consider "r0 = Ok ()" "validate_metric_definition (mv_texts env) m (store_lookup f (m5_db s)) = Ok ()" "shadow_approved env shadow = Ok ()"
    | "r0 \<noteq> Ok ()" | "r0 = Ok ()" "validate_metric_definition (mv_texts env) m (store_lookup f (m5_db s)) \<noteq> Ok ()"
    | "r0 = Ok ()" "validate_metric_definition (mv_texts env) m (store_lookup f (m5_db s)) = Ok ()" "shadow_approved env shadow \<noteq> Ok ()"
    by blast
  then show ?thesis
  proof cases
    case 1
    show ?thesis
      by (rule inserted [OF _ 1(2,3) mg upd])
        (use o v mg 1 in \<open>cases r; auto simp: migrate_checked_def hbind_result hreturn_def store_result Let_def\<close>)+
  next
    case 2
    show ?thesis
      by (rule stopped) (use 2 o s1 in \<open>cases r0; auto simp: migrate_checked_def hbind_result\<close>)+
  next
    case 3
    show ?thesis
      by (rule stopped)
        (use 3 o v s1 in \<open>cases "validate_metric_definition (mv_texts env) m (store_lookup f (m5_db s))"; auto simp: migrate_checked_def hbind_result\<close>)+
  next
    case 4
    show ?thesis
      by (rule stopped)
        (use 4 o v s1 in \<open>cases "shadow_approved env shadow"; auto simp: migrate_checked_def hbind_result hreturn_def\<close>)+
  qed
qed

lemma migrate_change: "catalogue_change env f (m5_db s) (m5_db (snd (migrate_metric_definition env f req s)))"
proof (cases rule: migrate_form [of env f req s])
  case (checked m u)
  show ?thesis
  proof (cases rule: migrate_checked_stages [of env f m "trim (rq_old_metric_id req)" "trim (rq_shadow_run_result_id req)" u "trim (rq_operator req)" s])
    case (inserted s1 r db')
    then have db': "m5_db (snd (migrate_metric_definition env f req s)) = db'" using checked(6) by simp
    have s1: "db_metrics (m5_db s1) = db_metrics (m5_db s)" using inserted(5) by auto
    show ?thesis
    proof (cases r)
      case (Ok x)
      obtain row i t where x: "x = (row, i, t)" by (cases x)
      show ?thesis unfolding db'
        by (rule catalogue_change_insert [OF inserted(2)]) (use migrate_metric_Ok [OF inserted(4) [unfolded Ok x]] s1 in auto)
    qed (use db' s1 migrate_metric_failed [OF inserted(4)] in \<open>auto intro: catalogue_change_refl\<close>)
  qed (use checked in \<open>auto intro: catalogue_change_refl\<close>)
qed (auto intro: catalogue_change_refl)

section \<open>The metric requests as steps\<close>

inductive metric_step :: "metric_env \<Rightarrow> m5 \<Rightarrow> m5 \<Rightarrow> bool" for env where
  create: "metric_step env s (snd (create_metric_definition env f req s))"
| get: "metric_step env s (snd (get_metric_definition env i s))"
| list_all: "metric_step env s (snd (list_metric_definitions env t s))"
| migrate: "metric_step env s (snd (migrate_metric_definition env f mreq s))"
| validate: "metric_step env s (snd (validate_metricql_request env experiment_id expression s))"

lemma read_only_metrics: "read_only op \<Longrightarrow> db_metrics (snd (op db)) = db_metrics db"
  by (erule read_only_cases [of op db]) simp

lemma hbind_read_only:
  assumes "read_only op" "\<And>x s. snd (k x s) = s"
  shows "db_metrics (m5_db (snd (hbind (store op) k s))) = db_metrics (m5_db s)"
  using read_only_metrics [OF assms(1), of "m5_db s"] assms(2)
  by (auto simp: hbind_result store_result Let_def split: prod.splits outcome.splits)

lemma metric_reads_keep:
  "db_metrics (m5_db (snd (get_metric_definition env i s))) = db_metrics (m5_db s)"
  "db_metrics (m5_db (snd (list_metric_definitions env t s))) = db_metrics (m5_db s)"
  "db_metrics (m5_db (snd (global_catalogue x s))) = db_metrics (m5_db s)"
  "db_metrics (m5_db (snd (validate_metricql_request env x expression s))) = db_metrics (m5_db s)"
proof -
  have "read_only (get_metric i)" unfolding get_metric_def by (intro read_only_intros)
  then show "db_metrics (m5_db (snd (get_metric_definition env i s))) = db_metrics (m5_db s)"
    unfolding get_metric_definition_def by (auto simp: hreturn_def hbind_read_only)
  have "read_only (list_metrics flt)" for flt unfolding list_metrics_def by (intro read_only_intros)
  then show "db_metrics (m5_db (snd (list_metric_definitions env t s))) = db_metrics (m5_db s)"
    unfolding list_metric_definitions_def Let_def by (simp add: hreturn_def hbind_read_only)
  have "read_only list_metric_ids" unfolding list_metric_ids_def by (intro read_only_intros)
  note ids = read_only_metrics [OF this, of "m5_db s"]
  show g: "db_metrics (m5_db (snd (global_catalogue x s))) = db_metrics (m5_db s)"
    using ids by (auto simp: global_catalogue_def dmap_err_def split: prod.splits outcome.splits)
  show "db_metrics (m5_db (snd (validate_metricql_request env x expression s))) = db_metrics (m5_db s)"
    using g by (auto simp: validate_metricql_request_def hbind_result hreturn_def split: prod.splits outcome.splits)
qed

lemma metric_step_change: "metric_step env s s' \<Longrightarrow> \<exists>f. catalogue_change env f (m5_db s) (m5_db s')"
  by (induction rule: metric_step.induct; rule exI)
    (rule create_change migrate_change metric_reads_keep [THEN catalogue_change_refl])+

text \<open>
  C11: Whatever metric requests the service handles, in any order and with any failures of the
  database, of M3 and of the lookups, the catalogue stays sound: every reference of every stored
  composite and MetricQL metric leads to a stored metric, and no metric refers to itself, directly or
  through others, so a computation over the definitions always ends.
\<close>

theorem catalogue_stays_acyclic:
  assumes "(metric_step env)\<^sup>*\<^sup>* s s'" "catalogue_ok (m5_db s)" "db_metrics (m5_db s') i \<noteq> None"
  shows "\<not> (ref_edge (stored_refs (m5_db s')))\<^sup>+\<^sup>+ i i \<and>
    (\<forall>j. (ref_edge (stored_refs (m5_db s')))\<^sup>*\<^sup>* i j \<longrightarrow> db_metrics (m5_db s') j \<noteq> None)"
proof -
  from assms(1,2) have "catalogue_ok (m5_db s')"
    by (induction rule: rtranclp_induct) (use metric_step_change catalogue_change_ok in blast)+
  then have "grounded (stored_refs (m5_db s')) i" using assms(3) by (simp add: catalogue_ok_def)
  then show ?thesis
    using grounded_acyclic grounded_reachable store_catalogue.grounded_refs_resolve by blast
qed

section \<open>Migrations\<close>

text \<open>
  C13: A migration is only recorded after every one of its gates: the old metric is stored and CUSTOM,
  the new one is not CUSTOM, has another id and passed the validators on the catalogue, the operator is
  named, and M3 reported the shadow run as APPROVED. Then the new definition is the only change of the
  catalogue, the audit trail gets exactly one entry, which names the shadow run and the operator, and
  the old metric had not been migrated before.
\<close>

theorem migration_only_after_approval:
  assumes "migrate_metric_definition env f req s = (Ok resp, s')"
  shows "\<exists>m old shadow_uuid.
    rq_new_metric req = Some m \<and> old = trim (rq_old_metric_id req) \<and>
    metric_type_of_i32 (pm_type m) \<noteq> MtCustom \<and> trim (pm_metric_id m) \<noteq> old \<and>
    (\<exists>row. db_metrics (m5_db s) old = Some row \<and> mr_type row = ''CUSTOM'') \<and>
    validate_metric_definition (mv_texts env) m (store_lookup f (m5_db s)) = Ok () \<and>
    mv_shadow_results env (trim (rq_shadow_run_result_id req)) = Ok ''APPROVED'' \<and>
    mv_parse_uuid env (trim (rq_shadow_run_result_id req)) = Inr shadow_uuid \<and> trim (rq_operator req) \<noteq> [] \<and>
    db_metrics (m5_db s') = (db_metrics (m5_db s))(pm_metric_id m \<mapsto> metric_values m (db_now (m5_db s))) \<and>
    old \<notin> mg_old_metric_id ` set (db_migrations (m5_db s)) \<and>
    db_migrations (m5_db s') = db_migrations (m5_db s) @
      [\<lparr>mg_migration_id = rs_migration_id resp, mg_old_metric_id = old, mg_new_metric_id = pm_metric_id m,
        mg_shadow_run_result_id = shadow_uuid, mg_operator = trim (rq_operator req), mg_applied_at = db_now (m5_db s)\<rparr>]"
proof (cases rule: migrate_form [of env f req s])
  case (checked m u)
  let ?old = "trim (rq_old_metric_id req)" and ?shadow = "trim (rq_shadow_run_result_id req)"
  have run: "migrate_checked env f m ?old ?shadow u (trim (rq_operator req)) s = (Ok resp, s')" using checked(6) assms by simp
  show ?thesis
  proof (cases rule: migrate_checked_stages [of env f m ?old ?shadow u "trim (rq_operator req)" s])
    case (inserted s1 r db')
    then obtain row i t fs where r: "r = Ok (row, i, t)" and resp: "rs_migration_id resp = i" and s1: "s1 = s\<lparr>m5_db := (m5_db s)\<lparr>db_faults := fs\<rparr>\<rparr>"
      using run by (cases r) auto
    have appr: "mv_shadow_results env ?shadow = Ok ''APPROVED''"
      using inserted(3) by (auto simp: shadow_approved_def obind_Ok_iff split: if_splits)
    show ?thesis
      using migrate_metric_Ok [OF inserted(4) [unfolded r]] old_metric_is_custom_Ok [OF inserted(1)] appr checked inserted(2,6) run resp s1
      by (intro exI [of _ m] exI [of _ ?old] exI [of _ u]) auto
  qed (use run in auto)
qed (use assms in auto)

section \<open>What a request loses\<close>

text \<open>
  A request to create a metric with a surrogate target is answered by a definition without one,
  and so is every later read: the column is neither written nor read back.
\<close>

theorem surrogate_target_dropped:
  "fst (create_metric_definition env f req s) = Ok (response, flag) \<or> fst (get_metric_definition env i s) = Ok response \<Longrightarrow>
   pm_surrogate_target_metric_id response = []"
  by (auto simp: create_metric_definition_def get_metric_definition_def hbind_result hreturn_def into_proto_def Let_def
      split: prod.splits outcome.splits if_splits)

section \<open>Positions of diagnostics\<close>

text \<open>
  The reference: the line is one more than the number of line feeds before the offset, the column one
  more than the number of bytes since the last of them.
\<close>

definition line_of_offset :: "string \<Rightarrow> nat \<Rightarrow> nat" where
  "line_of_offset source n = Suc (length (filter (\<lambda>c. c = CHR 0x0A) (take n source)))"

definition column_of_offset :: "string \<Rightarrow> nat \<Rightarrow> nat" where
  "column_of_offset source n = Suc (length (takeWhile (\<lambda>c. c \<noteq> CHR 0x0A) (rev (take n source))))"

lemma line_col_loop_take: "line_col_loop bs n line col = line_col_loop (take n bs) (length (take n bs)) line col"
  by (induction bs n line col rule: line_col_loop.induct) (auto simp: take_Cons')

lemma line_col_loop_all:
  "line_col_loop bs (length bs) line col =
     (line + of_nat (length (filter (\<lambda>c. c = CHR 0x0A) bs)),
      if CHR 0x0A \<in> set bs then of_nat (Suc (length (takeWhile (\<lambda>c. c \<noteq> CHR 0x0A) (rev bs)))) else col + of_nat (length bs))"
proof (induction bs arbitrary: line col)
  case (Cons b bs)
  show ?case
    by (cases "CHR 0x0A \<in> set bs") (auto simp: Cons takeWhile_append)
qed simp

lemma takeWhile_rev_all: "c \<notin> set bs \<Longrightarrow> takeWhile (\<lambda>d. d \<noteq> c) (rev bs) = rev bs"
  by (induction bs) (auto simp: takeWhile_append)

lemma line_col_exact:
  "line_col_from_byte_offset source n = (of_nat (line_of_offset source n), of_nat (column_of_offset source n))"
proof -
  have "line_col_from_byte_offset source n = line_col_loop (take n source) (length (take n source)) 1 1"
    unfolding line_col_from_byte_offset_def by (rule line_col_loop_take)
  then show ?thesis
    unfolding line_col_loop_all line_of_offset_def column_of_offset_def
    by (auto simp: takeWhile_rev_all simp del: length_take)
qed

lemma offsets_small:
  assumes "n \<le> length source"
  shows "line_of_offset source n \<le> Suc (length source)" "column_of_offset source n \<le> Suc (length source)"
proof -
  have "length (filter P (take n source)) \<le> length (take n source)" for P by (rule length_filter_le)
  moreover have "length (takeWhile P (rev (take n source))) \<le> length (rev (take n source))" for P by (rule length_takeWhile_le)
  moreover have "length (take n source) \<le> length source" by simp
  ultimately show "line_of_offset source n \<le> Suc (length source)" "column_of_offset source n \<le> Suc (length source)"
    unfolding line_of_offset_def column_of_offset_def by (metis Suc_le_mono le_trans length_rev)+
qed

text \<open>
  The line and the column of a diagnostic are those of its byte offset in the expression, and the
  offsets survive the conversion to the 32-bit fields of the wire format, for every expression that is
  at least two bytes shorter than 2 to the power of 31; a longer one would wrap.
\<close>

theorem diagnostic_positions_exact:
  assumes "Suc (length source) < 2 ^ 31" "sp_start (dg_span d) \<le> length source" "sp_end (dg_span d) \<le> length source"
    and "p = pd_proto_span (internal_to_proto_diag txt source d)"
  shows "sint (ps_start_offset p) = int (sp_start (dg_span d)) \<and> sint (ps_end_offset p) = int (sp_end (dg_span d)) \<and>
    sint (ps_line p) = int (line_of_offset source (sp_start (dg_span d))) \<and>
    sint (ps_column p) = int (column_of_offset source (sp_start (dg_span d)))"
  using assms offsets_small [OF assms(2)]
  by (simp add: internal_to_proto_diag_def line_col_exact sint_i32_nat)

section \<open>Experiment-scoped validation\<close>

text \<open>
  Naming an experiment in a validation request switches the existence checks off: whatever the
  catalogue holds, an expression without syntax errors and self-contained checks is then reported as
  fine, references to metrics that do not exist included.
\<close>

theorem scoped_validation_unchecked:
  assumes "\<not> blank experiment_id" "\<not> blank expression"
    and "validate_metricql expression \<lparr>known_metric_ids = None\<rparr> = Ok refs"
  shows "validate_metricql_request env experiment_id expression s = (Ok \<lparr>vs_diagnostics = [], vs_referenced_metric_ids = refs\<rparr>, s)"
  using assms by (simp add: validate_metricql_request_def hbind_result global_catalogue_def hreturn_def)

section \<open>Witnesses\<close>

definition sample_metric_env :: metric_env where
  "sample_metric_env =
     \<lparr>mv_texts = \<lparr>mt_message = (\<lambda>_. []), mt_f64 = (\<lambda>_. [])\<rparr>, mv_pg = sample_pg, mv_parse_uuid = Inr,
      mv_shadow_results = (\<lambda>_. Ok ''APPROVED''), mv_rfc3339 = (\<lambda>_. []), mv_json_f64 = (\<lambda>x. x)\<rparr>"

abbreviation metrics_m5 :: "database \<Rightarrow> m5" where
  "metrics_m5 db \<equiv> \<lparr>m5_db = db, m5_version = 1, m5_events = [], m5_spawned = []\<rparr>"

definition stored_metric :: "proto_metric \<Rightarrow> database" where
  "stored_metric m = empty_database\<lparr>db_metrics := [pm_metric_id m \<mapsto> metric_values m 10]\<rparr>"

lemma sample_mean_valid: "\<not> blank i \<Longrightarrow> validate_metric_definition txt (sample_metric i 1 None) L = Ok ()"
  by (simp add: validate_metric_definition_def validate_metric_common_fields_def sample_metric_def metric_type_of_i32_def metric_types_def
      blank.simps is_ascii_def latin1_whitespace_def)

lemma sample_insert:
  "db_metrics db i = None \<Longrightarrow> insert_metric (sample_metric i 1 None) db = (Inr (metric_values (sample_metric i 1 None) (db_now db)), db\<lparr>db_metrics := (db_metrics db)(i \<mapsto> metric_values (sample_metric i 1 None) (db_now db))\<rparr>)"
  by (simp add: insert_metric_def Let_def metric_type_admitted_def single_definition_source_def
      metric_values_def sample_metric_def metric_type_of_i32_def metric_types_def opt_str_def build_metric_type_config_def)

lemma letter_not_blank: "\<not> blank ''a''" "\<not> blank ''old''"
  by code_simp+

lemma sample_creation:
  "snd (create_metric_definition sample_metric_env no_lookup_faults (Some (sample_metric ''a'' 1 None)) (metrics_m5 empty_database)) =
     metrics_m5 (stored_metric (sample_metric ''a'' 1 None))"
  using sample_insert [of empty_database "''a''"] sample_mean_valid [OF letter_not_blank(1)]
  by (simp add: create_metric_definition_def hbind_result hreturn_def validated_def store_result create_metric_def query_def
      inserted_or.simps dbind_def dreturn_def empty_database_def stored_metric_def sample_metric_env_def sample_metric_def Let_def)

theorem catalogue_stays_acyclic_witness:
  "\<not> (ref_edge (stored_refs (stored_metric (sample_metric ''a'' 1 None))))\<^sup>+\<^sup>+ ''a'' ''a''"
proof -
  have "metric_step sample_metric_env (metrics_m5 empty_database) (metrics_m5 (stored_metric (sample_metric ''a'' 1 None)))"
    using metric_step.create [of sample_metric_env "metrics_m5 empty_database" no_lookup_faults "Some (sample_metric ''a'' 1 None)"] sample_creation by simp
  then have "(metric_step sample_metric_env)\<^sup>*\<^sup>* (metrics_m5 empty_database) (metrics_m5 (stored_metric (sample_metric ''a'' 1 None)))" ..
  from catalogue_stays_acyclic [OF this, of "''a''"] show ?thesis
    by (simp add: catalogue_ok_def empty_database_def stored_metric_def sample_metric_def)
qed

definition sample_migration :: migrate_request where
  "sample_migration = \<lparr>rq_old_metric_id = ''old'', rq_shadow_run_result_id = ''u'', rq_operator = ''op'',
     rq_new_metric = Some (sample_metric ''a'' 1 None)\<rparr>"

lemma sample_old_custom:
  "old_metric_is_custom ''old'' (metrics_m5 (stored_metric (sample_metric ''old'' 6 None))) = (Ok (), metrics_m5 (stored_metric (sample_metric ''old'' 6 None)))"
  by (simp add: old_metric_is_custom_def get_metric_type_def dbind_def query_def dreturn_def stored_metric_def empty_database_def
      sample_metric_def metric_values_def metric_type_of_i32_def metric_types_def metric_type_from_sql_def)

lemma sample_trims: "trim ''old'' = ''old''" "trim ''u'' = ''u''" "trim ''op'' = ''op''" "trim ''a'' = ''a''"
  by code_simp+

lemma sample_store_migration:
  "\<exists>db'. migrate_metric sample_pg (sample_metric ''a'' 1 None) ''old'' ''u'' ''op'' (stored_metric (sample_metric ''old'' 6 None)) =
     (Ok (metric_values (sample_metric ''a'' 1 None) 10, 0, 10), db')"
proof -
  let ?d = "stored_metric (sample_metric ''old'' 6 None)"
  have "db_metrics ?d ''a'' = None" "db_now ?d = 10" "db_faults ?d = []" "db_migrations ?d = []"
    by (simp_all add: stored_metric_def sample_metric_def empty_database_def)
  then show ?thesis
    by (simp add: migrate_metric_def transaction_def query_def dbind_def dreturn_def sample_insert insert_migration_def Let_def)
qed

lemma sample_migrated:
  "\<exists>s'. migrate_metric_definition sample_metric_env no_lookup_faults sample_migration
     (metrics_m5 (stored_metric (sample_metric ''old'' 6 None))) =
   (Ok \<lparr>rs_new_metric_id = ''a'', rs_migration_id = 0, rs_applied_at = []\<rparr>, s')"
proof -
  have fields: "pm_metric_id (sample_metric ''a'' 1 None) = ''a''" "metric_type_of_i32 (pm_type (sample_metric ''a'' 1 None)) = MtMean"
    "mr_metric_id (metric_values (sample_metric ''a'' 1 None) 10) = ''a''"
    by (simp_all add: sample_metric_def metric_type_of_i32_def metric_types_def metric_values_def)
  obtain db' where "migrate_metric sample_pg (sample_metric ''a'' 1 None) ''old'' ''u'' ''op'' (stored_metric (sample_metric ''old'' 6 None)) =
     (Ok (metric_values (sample_metric ''a'' 1 None) 10, 0, 10), db')" using sample_store_migration by blast
  then show ?thesis
    by (simp add: migrate_metric_definition_def migrate_checked_def sample_migration_def hbind_result hreturn_def Let_def sample_trims fields
      sample_old_custom validated_def sample_mean_valid [OF letter_not_blank(1)] shadow_approved_def store_result sample_metric_env_def)
qed

theorem migration_only_after_approval_witness:
  "\<exists>row. db_metrics (stored_metric (sample_metric ''old'' 6 None)) ''old'' = Some row \<and> mr_type row = ''CUSTOM''"
proof -
  obtain s' where "migrate_metric_definition sample_metric_env no_lookup_faults sample_migration
     (metrics_m5 (stored_metric (sample_metric ''old'' 6 None))) = (Ok \<lparr>rs_new_metric_id = ''a'', rs_migration_id = 0, rs_applied_at = []\<rparr>, s')"
    using sample_migrated by blast
  from migration_only_after_approval [OF this] show ?thesis by (auto simp: sample_migration_def sample_trims)
qed

theorem surrogate_target_dropped_witness:
  "fst (get_metric_definition sample_metric_env ''a'' (metrics_m5 (stored_metric (sample_metric ''a'' 1 None)))) =
     Ok (into_proto (\<lambda>x. x) (metric_values (sample_metric ''a'' 1 None) 10)) \<and>
   pm_surrogate_target_metric_id (into_proto (\<lambda>x. x) (metric_values (sample_metric ''a'' 1 None) 10)) = []"
proof -
  have "fst (get_metric_definition sample_metric_env ''a'' (metrics_m5 (stored_metric (sample_metric ''a'' 1 None)))) = Ok (into_proto (\<lambda>x. x) (metric_values (sample_metric ''a'' 1 None) 10))"
    using letter_not_blank(1)
    by (simp add: get_metric_definition_def hbind_result store_result get_metric_def query_def dbind_def dreturn_def hreturn_def stored_metric_def
        empty_database_def sample_metric_def sample_metric_env_def Let_def)
  then show ?thesis using surrogate_target_dropped by blast
qed

theorem diagnostic_positions_exact_witness:
  "sint (ps_line (pd_proto_span (internal_to_proto_diag \<lparr>mt_message = (\<lambda>_. []), mt_f64 = (\<lambda>_. [])\<rparr> [CHR ''a'', CHR 0x0A, CHR ''b'']
     \<lparr>dg_severity = Error, dg_message = UnexpectedBang, dg_span = \<lparr>sp_start = 2, sp_end = 3\<rparr>\<rparr>))) = 2"
  using diagnostic_positions_exact [of "[CHR ''a'', CHR 0x0A, CHR ''b'']" "\<lparr>dg_severity = Error, dg_message = UnexpectedBang, dg_span = \<lparr>sp_start = 2, sp_end = 3\<rparr>\<rparr>", OF _ _ _ refl]
  by (simp add: line_of_offset_def)

theorem scoped_validation_unchecked_witness:
  "validate_metricql_request sample_metric_env ''x'' ''@nope + @gone'' (metrics_m5 empty_database) =
     (Ok \<lparr>vs_diagnostics = [], vs_referenced_metric_ids = [''gone'', ''nope'']\<rparr>, metrics_m5 empty_database)"
proof (rule scoped_validation_unchecked)
  show "\<not> blank ''x''" "\<not> blank ''@nope + @gone''" by code_simp+
  show "validate_metricql ''@nope + @gone'' \<lparr>known_metric_ids = None\<rparr> = Ok [''gone'', ''nope'']" by code_simp
qed

end
