(* ===== verification/Event_Validation.thy ===== *)
theory Event_Validation
  imports Float64
begin

text \<open>
  Validation of incoming events (\<^verbatim>\<open>experimentation-ingest/src/validation.rs\<close>), the classification of
  exits before video start (\<^verbatim>\<open>classification.rs\<close>) and the fail-fast check of
  \<^verbatim>\<open>experimentation-core/src/error.rs\<close>.

  An instant is its number of nanoseconds since the epoch. The wall clock and the conversion of a
  protobuf timestamp (chrono's \<^verbatim>\<open>from_timestamp\<close>) are parameters. Error texts are constructors.
\<close>

section \<open>Errors\<close>

datatype validation_message =
    Required string
  | OutsideWindow int int
  | NegativeNanos string int
  | InvalidTimestamp string int int
  | EmptyItemId
  | EmptyAlgorithmId string
  | WindowNotAfterStart
  | NegativeBufferHealth f64
  | NotInRange string int int int
  | RatioNotInRange f64
  | RateNotBinary f64

datatype core_error = Validation validation_message

type_synonym 'a checked = "(core_error, 'a) outcome"

definition assert_finite :: "f64 \<Rightarrow> unit checked" where
  "assert_finite x = (if is_finite x then Ok () else Panic)"

definition ensure :: "bool \<Rightarrow> validation_message \<Rightarrow> unit checked" where
  "ensure c msg = (if c then Ok () else Err (Validation msg))"

section \<open>Events\<close>

record timestamp =
  ts_seconds :: int
  ts_nanos :: int

text \<open>The entries of the provenance map are in the order in which the map is iterated.\<close>

record exposure_event =
  xe_event_id :: string
  xe_experiment_id :: string
  xe_user_id :: string
  xe_variant_id :: string
  xe_timestamp :: "timestamp option"
  xe_assignment_probability :: f64
  xe_interleaving_provenance :: "(string \<times> string) list"

record metric_event =
  me_event_id :: string
  me_user_id :: string
  me_event_type :: string
  me_value :: f64
  me_timestamp :: "timestamp option"

record reward_event =
  re_event_id :: string
  re_experiment_id :: string
  re_user_id :: string
  re_arm_id :: string
  re_reward :: f64
  re_timestamp :: "timestamp option"

record retraining_event =
  rt_event_id :: string
  rt_model_id :: string
  rt_training_data_start :: "timestamp option"
  rt_training_data_end :: "timestamp option"

record heartbeat_event =
  hb_user_id :: string
  hb_session_id :: string
  hb_device_id :: string
  hb_timestamp :: "timestamp option"
  hb_current_bitrate_kbps :: int
  hb_current_resolution_height :: int
  hb_buffer_health_seconds :: f64
  hb_is_rebuffering :: bool
  hb_is_startup :: bool
  hb_content_id :: string

record playback_metrics =
  pb_time_to_first_frame_ms :: int
  pb_rebuffer_count :: int
  pb_rebuffer_ratio :: f64
  pb_avg_bitrate_kbps :: int
  pb_resolution_switches :: int
  pb_peak_resolution_height :: int
  pb_startup_failure_rate :: f64
  pb_playback_duration_ms :: int
  pb_ebvs_detected :: bool

record qoe_event =
  qe_event_id :: string
  qe_session_id :: string
  qe_content_id :: string
  qe_user_id :: string
  qe_metrics :: "playback_metrics option"
  qe_timestamp :: "timestamp option"

section \<open>Fields\<close>

record time_env =
  te_now :: int
  te_from_timestamp :: "int \<Rightarrow> int \<Rightarrow> int option"

abbreviation hours_24 :: int where
  "hours_24 \<equiv> 24 * 3600 * 10 ^ 9"

definition validate_timestamp :: "time_env \<Rightarrow> int \<Rightarrow> unit checked" where
  "validate_timestamp env event_time =
     (let now = te_now env; lower = now - hours_24; upper = now + hours_24
      in ensure (\<not> (event_time < lower \<or> event_time > upper)) (OutsideWindow event_time now))"

definition validate_required :: "string \<Rightarrow> string \<Rightarrow> unit checked" where
  "validate_required field field_name = ensure (field \<noteq> []) (Required field_name)"

text \<open>The checks that both kinds of timestamps share.\<close>

definition require_retraining_timestamp :: "time_env \<Rightarrow> timestamp option \<Rightarrow> string \<Rightarrow> int checked" where
  "require_retraining_timestamp env ts name =
     obind (ok_or (Validation (Required name)) ts) (\<lambda>ts.
     obind (ensure (\<not> ts_nanos ts < 0) (NegativeNanos name (ts_nanos ts))) (\<lambda>_.
       ok_or (Validation (InvalidTimestamp name (ts_seconds ts) (ts_nanos ts))) (te_from_timestamp env (ts_seconds ts) (ts_nanos ts))))"

definition require_timestamp :: "time_env \<Rightarrow> timestamp option \<Rightarrow> string \<Rightarrow> int checked" where
  "require_timestamp env ts name =
     obind (ok_or (Validation (Required name)) ts) (\<lambda>ts.
     obind (ensure (\<not> ts_nanos ts < 0) (NegativeNanos name (ts_nanos ts))) (\<lambda>_.
     obind (ok_or (Validation (InvalidTimestamp name (ts_seconds ts) (ts_nanos ts))) (te_from_timestamp env (ts_seconds ts) (ts_nanos ts))) (\<lambda>dt.
     obind (validate_timestamp env dt) (\<lambda>_. Ok dt))))"

fun validate_interleaving_provenance :: "(string \<times> string) list \<Rightarrow> unit checked" where
  "validate_interleaving_provenance [] = Ok ()"
| "validate_interleaving_provenance ((item_id, algorithm_id) # ps) =
     (if item_id = [] then Err (Validation EmptyItemId)
      else if algorithm_id = [] then Err (Validation (EmptyAlgorithmId item_id))
      else validate_interleaving_provenance ps)"

section \<open>Events, one validator each\<close>

definition validate_exposure :: "time_env \<Rightarrow> exposure_event \<Rightarrow> unit checked" where
  "validate_exposure env event =
     obind (validate_required (xe_event_id event) ''event_id'') (\<lambda>_.
     obind (validate_required (xe_experiment_id event) ''experiment_id'') (\<lambda>_.
     obind (validate_required (xe_user_id event) ''user_id'') (\<lambda>_.
     obind (validate_required (xe_variant_id event) ''variant_id'') (\<lambda>_.
     obind (require_timestamp env (xe_timestamp event) ''timestamp'') (\<lambda>_.
     obind (if \<not> f64_eq (xe_assignment_probability event) (Fin 0) then assert_finite (xe_assignment_probability event) else Ok ()) (\<lambda>_.
     obind (validate_interleaving_provenance (xe_interleaving_provenance event)) (\<lambda>_. Ok ())))))))"

definition validate_metric_event :: "time_env \<Rightarrow> metric_event \<Rightarrow> unit checked" where
  "validate_metric_event env event =
     obind (validate_required (me_event_id event) ''event_id'') (\<lambda>_.
     obind (validate_required (me_user_id event) ''user_id'') (\<lambda>_.
     obind (validate_required (me_event_type event) ''event_type'') (\<lambda>_.
     obind (require_timestamp env (me_timestamp event) ''timestamp'') (\<lambda>_.
     obind (assert_finite (me_value event)) (\<lambda>_. Ok ())))))"

definition validate_reward_event :: "time_env \<Rightarrow> reward_event \<Rightarrow> unit checked" where
  "validate_reward_event env event =
     obind (validate_required (re_event_id event) ''event_id'') (\<lambda>_.
     obind (validate_required (re_experiment_id event) ''experiment_id'') (\<lambda>_.
     obind (validate_required (re_user_id event) ''user_id'') (\<lambda>_.
     obind (validate_required (re_arm_id event) ''arm_id'') (\<lambda>_.
     obind (require_timestamp env (re_timestamp event) ''timestamp'') (\<lambda>_.
     obind (assert_finite (re_reward event)) (\<lambda>_. Ok ()))))))"

definition validate_model_retraining_event :: "time_env \<Rightarrow> retraining_event \<Rightarrow> unit checked" where
  "validate_model_retraining_event env event =
     obind (validate_required (rt_event_id event) ''event_id'') (\<lambda>_.
     obind (validate_required (rt_model_id event) ''model_id'') (\<lambda>_.
     obind (require_retraining_timestamp env (rt_training_data_start event) ''training_data_start'') (\<lambda>start.
     obind (require_retraining_timestamp env (rt_training_data_end event) ''training_data_end'') (\<lambda>stop.
       ensure (\<not> stop \<le> start) WindowNotAfterStart))))"

definition model_retraining_dedup_key :: "retraining_event \<Rightarrow> string option" where
  "model_retraining_dedup_key event =
     map_option (\<lambda>ts. rt_model_id event @ '':'' @ show_int (ts_seconds ts)) (rt_training_data_start event)"

definition validate_range :: "string \<Rightarrow> int \<Rightarrow> int \<Rightarrow> unit checked" where
  "validate_range name hi v = ensure (\<not> (v < 0 \<or> v > hi)) (NotInRange name 0 hi v)"

definition validate_heartbeat_event :: "time_env \<Rightarrow> heartbeat_event \<Rightarrow> unit checked" where
  "validate_heartbeat_event env event =
     obind (validate_required (hb_user_id event) ''user_id'') (\<lambda>_.
     obind (validate_required (hb_device_id event) ''device_id'') (\<lambda>_.
     obind (validate_required (hb_content_id event) ''content_id'') (\<lambda>_.
     obind (require_timestamp env (hb_timestamp event) ''timestamp'') (\<lambda>_.
     obind (assert_finite (hb_buffer_health_seconds event)) (\<lambda>_.
     obind (ensure (\<not> f64_lt (hb_buffer_health_seconds event) (Fin 0)) (NegativeBufferHealth (hb_buffer_health_seconds event))) (\<lambda>_.
     obind (validate_range ''current_bitrate_kbps'' 200000 (hb_current_bitrate_kbps event)) (\<lambda>_.
       validate_range ''current_resolution_height'' 8640 (hb_current_resolution_height event))))))))"

definition validate_playback_metrics :: "playback_metrics \<Rightarrow> unit checked" where
  "validate_playback_metrics m =
     obind (assert_finite (pb_rebuffer_ratio m)) (\<lambda>_.
     obind (ensure (\<not> (f64_lt (pb_rebuffer_ratio m) (Fin 0) \<or> f64_lt (Fin 1) (pb_rebuffer_ratio m))) (RatioNotInRange (pb_rebuffer_ratio m))) (\<lambda>_.
     obind (assert_finite (pb_startup_failure_rate m)) (\<lambda>_.
     obind (ensure (\<not> (\<not> f64_eq (pb_startup_failure_rate m) (Fin 0) \<and> \<not> f64_eq (pb_startup_failure_rate m) (Fin 1)))
              (RateNotBinary (pb_startup_failure_rate m))) (\<lambda>_.
     obind (validate_range ''time_to_first_frame_ms'' 120000 (pb_time_to_first_frame_ms m)) (\<lambda>_.
     obind (validate_range ''rebuffer_count'' 10000 (pb_rebuffer_count m)) (\<lambda>_.
     obind (validate_range ''avg_bitrate_kbps'' 200000 (pb_avg_bitrate_kbps m)) (\<lambda>_.
     obind (validate_range ''resolution_switches'' 10000 (pb_resolution_switches m)) (\<lambda>_.
     obind (validate_range ''playback_duration_ms'' 86400000 (pb_playback_duration_ms m)) (\<lambda>_.
       validate_range ''peak_resolution_height'' 8640 (pb_peak_resolution_height m))))))))))"

definition validate_qoe_event :: "time_env \<Rightarrow> qoe_event \<Rightarrow> unit checked" where
  "validate_qoe_event env event =
     obind (validate_required (qe_event_id event) ''event_id'') (\<lambda>_.
     obind (validate_required (qe_session_id event) ''session_id'') (\<lambda>_.
     obind (validate_required (qe_content_id event) ''content_id'') (\<lambda>_.
     obind (validate_required (qe_user_id event) ''user_id'') (\<lambda>_.
     obind (require_timestamp env (qe_timestamp event) ''timestamp'') (\<lambda>_.
     obind (ok_or (Validation (Required ''metrics'')) (qe_metrics event)) (\<lambda>metrics.
       validate_playback_metrics metrics))))))"

section \<open>Exit before video start\<close>

definition ebvs_default_threshold_ms :: int where
  "ebvs_default_threshold_ms = 10000"

definition classify_ebvs :: "int \<Rightarrow> int \<Rightarrow> int \<Rightarrow> bool" where
  "classify_ebvs ttff_ms playback_duration_ms threshold_ms =
     (if playback_duration_ms > 0 then False
      else let ttff = max ttff_ms 0; threshold = max threshold_ms 0 in ttff = 0 \<or> ttff > threshold)"

definition set_ebvs_detected :: "playback_metrics \<Rightarrow> int \<Rightarrow> playback_metrics" where
  "set_ebvs_detected metrics threshold_ms =
     metrics\<lparr>pb_ebvs_detected := classify_ebvs (pb_time_to_first_frame_ms metrics) (pb_playback_duration_ms metrics) threshold_ms\<rparr>"

section \<open>What the checks accept\<close>

lemma ensure_simps [outcome_simps]:
  "ensure c msg = Ok u \<longleftrightarrow> c" "ensure c msg = Err e \<longleftrightarrow> \<not> c \<and> e = Validation msg" "ensure c msg \<noteq> Panic"
  by (auto simp: ensure_def)

lemma assert_finite_simps [outcome_simps]: "assert_finite x = Ok u \<longleftrightarrow> is_finite x" "assert_finite x \<noteq> Err e" "assert_finite x = Panic \<longleftrightarrow> \<not> is_finite x"
  by (auto simp: assert_finite_def)

lemma validate_required_Ok [outcome_simps]: "validate_required f name = Ok u \<longleftrightarrow> f \<noteq> []"
  by (simp add: validate_required_def outcome_simps)

lemma validate_range_Ok [outcome_simps]: "validate_range name hi v = Ok u \<longleftrightarrow> 0 \<le> v \<and> v \<le> hi"
  by (auto simp: validate_range_def outcome_simps)

lemma require_timestamp_Ok [outcome_simps]:
  "require_timestamp env ts name = Ok dt \<longleftrightarrow>
     (\<exists>t. ts = Some t \<and> 0 \<le> ts_nanos t \<and> te_from_timestamp env (ts_seconds t) (ts_nanos t) = Some dt \<and> \<bar>dt - te_now env\<bar> \<le> hours_24)"
  by (auto simp: require_timestamp_def validate_timestamp_def Let_def outcome_simps)

lemma provenance_Ok: "validate_interleaving_provenance ps = Ok u \<longleftrightarrow> (\<forall>(i, a) \<in> set ps. i \<noteq> [] \<and> a \<noteq> [])"
  by (induction ps rule: validate_interleaving_provenance.induct) auto

lemma heartbeat_valid:
  "validate_heartbeat_event env h = Ok u \<longleftrightarrow>
     hb_user_id h \<noteq> [] \<and> hb_device_id h \<noteq> [] \<and> hb_content_id h \<noteq> [] \<and> (\<exists>t. require_timestamp env (hb_timestamp h) ''timestamp'' = Ok t) \<and>
     (\<exists>q \<ge> 0. hb_buffer_health_seconds h = Fin q) \<and> hb_current_bitrate_kbps h \<in> {0..200000} \<and> hb_current_resolution_height h \<in> {0..8640}"
  by (cases "hb_buffer_health_seconds h") (auto simp: validate_heartbeat_event_def obind_Ok_iff ensure_simps assert_finite_simps validate_required_Ok validate_range_Ok)

lemma playback_valid:
  "validate_playback_metrics m = Ok u \<longleftrightarrow>
     (\<exists>q. pb_rebuffer_ratio m = Fin q \<and> 0 \<le> q \<and> q \<le> 1) \<and> pb_startup_failure_rate m \<in> {Fin 0, Fin 1} \<and>
     pb_time_to_first_frame_ms m \<in> {0..120000} \<and> pb_rebuffer_count m \<in> {0..10000} \<and> pb_avg_bitrate_kbps m \<in> {0..200000} \<and>
     pb_resolution_switches m \<in> {0..10000} \<and> pb_playback_duration_ms m \<in> {0..86400000} \<and> pb_peak_resolution_height m \<in> {0..8640}"
  by (cases "pb_rebuffer_ratio m"; cases "pb_startup_failure_rate m")
    (auto simp: validate_playback_metrics_def obind_Ok_iff ensure_simps assert_finite_simps validate_required_Ok validate_range_Ok)

end
