(* ===== verification/Sessionization.thy ===== *)
theory Sessionization
  imports Event_Validation
begin

text \<open>
  Sessionization of heartbeats (\<^verbatim>\<open>experimentation-ingest/src/sessionization.rs\<close>): heartbeats are grouped by
  user, device and content; an inactivity gap closes a session and emits one aggregated \<^verbatim>\<open>QoEEvent\<close>.

  The identifiers of the emitted events are drawn from a parameter. Saturating arithmetic is written out
  on integers.
\<close>

section \<open>Configuration and keys\<close>

definition default_session_gap_secs :: int where
  "default_session_gap_secs = 30"

definition max_time_to_first_frame_ms :: int where
  "max_time_to_first_frame_ms = 120000"

definition max_playback_duration_ms :: int where
  "max_playback_duration_ms = 86400000"

definition max_rebuffer_count :: int where
  "max_rebuffer_count = 10000"

definition max_resolution_switches :: int where
  "max_resolution_switches = 10000"

definition max_avg_bitrate_kbps :: int where
  "max_avg_bitrate_kbps = 200000"

definition max_peak_resolution_height :: int where
  "max_peak_resolution_height = 8640"

record session_key =
  sk_user_id :: string
  sk_device_id :: string
  sk_content_id :: string

definition session_key_of :: "heartbeat_event \<Rightarrow> session_key" where
  "session_key_of hb = \<lparr>sk_user_id = hb_user_id hb, sk_device_id = hb_device_id hb, sk_content_id = hb_content_id hb\<rparr>"

section \<open>Arithmetic\<close>

definition i64_saturating_add :: "int \<Rightarrow> int \<Rightarrow> int" where
  "i64_saturating_add a b = max (- (2 ^ 63)) (min (2 ^ 63 - 1) (a + b))"

definition i32_saturating_add :: "int \<Rightarrow> int \<Rightarrow> int" where
  "i32_saturating_add a b = max (- (2 ^ 31)) (min (2 ^ 31 - 1) (a + b))"

definition as_i32 :: "int \<Rightarrow> int" where
  "as_i32 i = (i + 2 ^ 31) mod 2 ^ 32 - 2 ^ 31"

definition clamp :: "int \<Rightarrow> int \<Rightarrow> int \<Rightarrow> int" where
  "clamp lo hi v = (if v < lo then lo else if v > hi then hi else v)"

text \<open>\<^verbatim>\<open>num_milliseconds\<close> and the division of integers truncate towards zero.\<close>

definition div_trunc :: "int \<Rightarrow> int \<Rightarrow> int" where
  "div_trunc a b = (if (a < 0) = (b < 0) then \<bar>a\<bar> div \<bar>b\<bar> else - (\<bar>a\<bar> div \<bar>b\<bar>))"

definition num_milliseconds :: "int \<Rightarrow> int" where
  "num_milliseconds nanos = div_trunc nanos (10 ^ 6)"

definition f64_of_int :: "int \<Rightarrow> f64" where
  "f64_of_int i = f64_round (of_int i)"

text \<open>\<^verbatim>\<open>f64::clamp\<close>; a NaN stays a NaN.\<close>

definition f64_clamp :: "f64 \<Rightarrow> f64 \<Rightarrow> f64 \<Rightarrow> f64" where
  "f64_clamp lo hi x = (if f64_lt x lo then lo else if f64_lt hi x then hi else x)"

section \<open>The state of a session\<close>

record session_state =
  ss_client_session_id :: string
  ss_first_timestamp :: int
  ss_last_timestamp :: int
  ss_first_frame_timestamp :: "int option"
  ss_rebuffer_transitions :: int
  ss_prev_is_rebuffering :: bool
  ss_total_rebuffer_ms :: int
  ss_bitrate_sum :: int
  ss_heartbeat_count :: int
  ss_prev_resolution_height :: "int option"
  ss_resolution_switches :: int
  ss_peak_resolution_height :: int
  ss_startup_completed :: bool

definition session_open :: "heartbeat_event \<Rightarrow> int \<Rightarrow> session_state" where
  "session_open hb ts =
     \<lparr>ss_client_session_id = hb_session_id hb,
      ss_first_timestamp = ts,
      ss_last_timestamp = ts,
      ss_first_frame_timestamp = (if \<not> hb_is_startup hb then Some ts else None),
      ss_rebuffer_transitions = (if hb_is_rebuffering hb then 1 else 0),
      ss_prev_is_rebuffering = hb_is_rebuffering hb,
      ss_total_rebuffer_ms = 0,
      ss_bitrate_sum = hb_current_bitrate_kbps hb,
      ss_heartbeat_count = 1,
      ss_prev_resolution_height = Some (hb_current_resolution_height hb),
      ss_resolution_switches = 0,
      ss_peak_resolution_height = max (hb_current_resolution_height hb) 0,
      ss_startup_completed = (\<not> hb_is_startup hb)\<rparr>"

definition session_apply :: "session_state \<Rightarrow> heartbeat_event \<Rightarrow> int \<Rightarrow> session_state" where
  "session_apply s hb ts =
     (let elapsed_ms = num_milliseconds (ts - ss_last_timestamp s)
      in s\<lparr>ss_total_rebuffer_ms :=
             (if ss_prev_is_rebuffering s \<and> elapsed_ms > 0 then i64_saturating_add (ss_total_rebuffer_ms s) elapsed_ms
              else ss_total_rebuffer_ms s),
           ss_rebuffer_transitions :=
             (if \<not> ss_prev_is_rebuffering s \<and> hb_is_rebuffering hb then i32_saturating_add (ss_rebuffer_transitions s) 1
              else ss_rebuffer_transitions s),
           ss_prev_is_rebuffering := hb_is_rebuffering hb,
           ss_startup_completed := (ss_startup_completed s \<or> \<not> hb_is_startup hb),
           ss_first_frame_timestamp :=
             (if \<not> hb_is_startup hb \<and> \<not> ss_startup_completed s then Some ts else ss_first_frame_timestamp s),
           ss_bitrate_sum := i64_saturating_add (ss_bitrate_sum s) (hb_current_bitrate_kbps hb),
           ss_heartbeat_count := i64_saturating_add (ss_heartbeat_count s) 1,
           ss_resolution_switches :=
             (case ss_prev_resolution_height s of
                Some prev \<Rightarrow>
                  if prev \<noteq> hb_current_resolution_height hb then i32_saturating_add (ss_resolution_switches s) 1
                  else ss_resolution_switches s
              | None \<Rightarrow> ss_resolution_switches s),
           ss_prev_resolution_height := Some (hb_current_resolution_height hb),
           ss_peak_resolution_height :=
             (if hb_current_resolution_height hb > ss_peak_resolution_height s then hb_current_resolution_height hb
              else ss_peak_resolution_height s),
           ss_last_timestamp := ts\<rparr>)"

definition rebuffer_ratio :: "session_state \<Rightarrow> int \<Rightarrow> f64 checked" where
  "rebuffer_ratio s playback_duration_ms =
     (if playback_duration_ms > 0
      then let ratio = f64_div (f64_of_int (min (ss_total_rebuffer_ms s) playback_duration_ms)) (f64_of_int playback_duration_ms)
           in obind (assert_finite ratio) (\<lambda>_. Ok (f64_clamp (Fin 0) (Fin 1) ratio))
      else Ok (Fin 0))"

text \<open>\<^verbatim>\<open>timestamp()\<close>, \<^verbatim>\<open>timestamp_subsec_nanos()\<close> and \<^verbatim>\<open>timestamp_millis()\<close> of an instant.\<close>

definition timestamp_of :: "int \<Rightarrow> timestamp" where
  "timestamp_of t = \<lparr>ts_seconds = t div 10 ^ 9, ts_nanos = t mod 10 ^ 9\<rparr>"

definition synthesized_session_id :: "session_key \<Rightarrow> int \<Rightarrow> string" where
  "synthesized_session_id key first =
     ''srv-sess-'' @ sk_user_id key @ ''-'' @ sk_device_id key @ ''-'' @ show_int (first div 10 ^ 6)"

definition finalize :: "session_state \<Rightarrow> session_key \<Rightarrow> string \<Rightarrow> qoe_event checked" where
  "finalize s key new_id =
     (let playback_duration_ms = max (num_milliseconds (ss_last_timestamp s - ss_first_timestamp s)) 0;
          ttff_ms = min (unwrap_or 0 (map_option (\<lambda>t. max (num_milliseconds (t - ss_first_timestamp s)) 0) (ss_first_frame_timestamp s)))
                      max_time_to_first_frame_ms;
          avg_bitrate = (if ss_heartbeat_count s > 0 then as_i32 (div_trunc (ss_bitrate_sum s) (ss_heartbeat_count s)) else 0)
      in obind (rebuffer_ratio s playback_duration_ms) (\<lambda>ratio.
           Ok \<lparr>qe_event_id = new_id,
               qe_session_id =
                 (if ss_client_session_id s = [] then synthesized_session_id key (ss_first_timestamp s) else ss_client_session_id s),
               qe_content_id = sk_content_id key,
               qe_user_id = sk_user_id key,
               qe_metrics = Some
                 \<lparr>pb_time_to_first_frame_ms = ttff_ms,
                  pb_rebuffer_count = clamp 0 max_rebuffer_count (ss_rebuffer_transitions s),
                  pb_rebuffer_ratio = ratio,
                  pb_avg_bitrate_kbps = clamp 0 max_avg_bitrate_kbps avg_bitrate,
                  pb_resolution_switches = clamp 0 max_resolution_switches (ss_resolution_switches s),
                  pb_peak_resolution_height = clamp 0 max_peak_resolution_height (ss_peak_resolution_height s),
                  pb_startup_failure_rate = (if ss_startup_completed s then Fin 0 else Fin 1),
                  pb_playback_duration_ms = min playback_duration_ms max_playback_duration_ms,
                  pb_ebvs_detected = (\<not> ss_startup_completed s)\<rparr>,
               qe_timestamp = Some (timestamp_of (ss_last_timestamp s))\<rparr>))"

section \<open>The sessionizer\<close>

record sessionizer =
  sz_sessions :: "(session_key, session_state) hash_map"
  sz_session_gap :: int
  sz_dropped_out_of_order :: int

definition sessionizer_with_config :: "int \<Rightarrow> sessionizer" where
  "sessionizer_with_config gap = \<lparr>sz_sessions = Map.empty, sz_session_gap = gap, sz_dropped_out_of_order = 0\<rparr>"

definition default_sessionizer :: sessionizer where
  "default_sessionizer = sessionizer_with_config (default_session_gap_secs * 10 ^ 9)"

definition active_sessions :: "sessionizer \<Rightarrow> nat" where
  "active_sessions z = card (dom (sz_sessions z))"

definition u64_saturating_add :: "int \<Rightarrow> int \<Rightarrow> int" where
  "u64_saturating_add a b = min (2 ^ 64 - 1) (a + b)"

text \<open>The last step of \<^verbatim>\<open>ingest\<close>: the heartbeat continues the session of its key, or opens one.\<close>

definition continue_session :: "(session_key, session_state) hash_map \<Rightarrow> heartbeat_event \<Rightarrow> int \<Rightarrow> (session_key, session_state) hash_map" where
  "continue_session sessions hb ts =
     (let key = session_key_of hb
      in case sessions key of
           Some state \<Rightarrow> sessions(key \<mapsto> session_apply state hb ts)
         | None \<Rightarrow> sessions(key \<mapsto> session_open hb ts))"

definition ingest :: "time_env \<Rightarrow> string \<Rightarrow> heartbeat_event \<Rightarrow> sessionizer \<Rightarrow> qoe_event option checked \<times> sessionizer" where
  "ingest env new_id hb z =
     (case obind (validate_heartbeat_event env hb) (\<lambda>_. require_timestamp env (hb_timestamp hb) ''timestamp'') of
        Err e \<Rightarrow> (Err e, z)
      | Panic \<Rightarrow> (Panic, z)
      | Ok ts \<Rightarrow>
          (let key = session_key_of hb
           in case sz_sessions z key of
                None \<Rightarrow> (Ok None, z\<lparr>sz_sessions := continue_session (sz_sessions z) hb ts\<rparr>)
              | Some existing \<Rightarrow>
                  (let gap = ts - ss_last_timestamp existing
                   in if gap < 0
                      then (Ok None, z\<lparr>sz_dropped_out_of_order := u64_saturating_add (sz_dropped_out_of_order z) 1\<rparr>)
                      else if gap > sz_session_gap z
                      then (case finalize existing key new_id of
                              Ok event \<Rightarrow> (Ok (Some event), z\<lparr>sz_sessions := continue_session ((sz_sessions z)(key := None)) hb ts\<rparr>)
                            | Err e \<Rightarrow> (Err e, z)
                            | Panic \<Rightarrow> (Panic, z))
                      else (Ok None, z\<lparr>sz_sessions := continue_session (sz_sessions z) hb ts\<rparr>))))"

text \<open>
  The loops of \<^verbatim>\<open>flush_expired\<close> and \<^verbatim>\<open>drain\<close> over the keys, in the order in which the map is iterated; every
  emitted event gets the next identifier.
\<close>

fun emit_sessions :: "session_key list \<Rightarrow> string list \<Rightarrow> (session_key, session_state) hash_map \<Rightarrow>
    (qoe_event list \<times> (session_key, session_state) hash_map) checked" where
  "emit_sessions [] ids sessions = Ok ([], sessions)"
| "emit_sessions (key # keys) ids sessions =
     (case sessions key of
        None \<Rightarrow> emit_sessions keys ids sessions
      | Some state \<Rightarrow>
          obind (finalize state key (hd (ids @ [[]]))) (\<lambda>event.
          obind (emit_sessions keys (tl ids) (sessions(key := None))) (\<lambda>(events, sessions).
            Ok (event # events, sessions))))"

definition flush_expired :: "session_key list \<Rightarrow> string list \<Rightarrow> int \<Rightarrow> sessionizer \<Rightarrow> qoe_event list checked \<times> sessionizer" where
  "flush_expired iteration ids now z =
     (let cutoff = now - sz_session_gap z;
          expired_keys = filter (\<lambda>k. case sz_sessions z k of Some s \<Rightarrow> ss_last_timestamp s < cutoff | None \<Rightarrow> False) iteration
      in case emit_sessions expired_keys ids (sz_sessions z) of
           Ok (events, sessions) \<Rightarrow> (Ok events, z\<lparr>sz_sessions := sessions\<rparr>)
         | Err e \<Rightarrow> (Err e, z)
         | Panic \<Rightarrow> (Panic, z))"

definition drain :: "session_key list \<Rightarrow> string list \<Rightarrow> sessionizer \<Rightarrow> qoe_event list checked \<times> sessionizer" where
  "drain iteration ids z =
     (case emit_sessions iteration ids (sz_sessions z) of
        Ok (events, sessions) \<Rightarrow> (Ok events, z\<lparr>sz_sessions := sessions\<rparr>)
      | Err e \<Rightarrow> (Err e, z)
      | Panic \<Rightarrow> (Panic, z))"

section \<open>Emitted events are valid\<close>

lemma f64_le_Fin: "f64_le x (Fin r) \<Longrightarrow> x = Inf True \<or> (\<exists>v. x = Fin v \<and> v \<le> r)"
  by (cases x) (auto simp: f64_le_def)

lemma f64_round_between:
  assumes "0 \<le> a" "a \<le> r" "f64_round r = Fin r"
  obtains v where "f64_round a = Fin v" "0 \<le> v" "v \<le> r"
  using f64_round_nonneg [OF assms(1)] f64_le_Fin [OF f64_round_mono_nonneg [OF assms(1,2), unfolded assms(3)]] by auto

lemma f64_round_one: "f64_round 1 = Fin 1"
  using f64_round_of_int [of 1] by simp

lemma f64_of_int_ratio:
  assumes "0 \<le> a" "a \<le> d" "0 < d" "d < 2 ^ 100"
  obtains q where "f64_div (f64_of_int a) (f64_of_int d) = Fin q" "0 \<le> q" "q \<le> 1"
proof -
  have big: "f64_round (2 ^ 100) = Fin (2 ^ 100)"
  proof (rule f64_round_representable)
    have "\<bar>2 ^ 100 :: rat\<bar> < 2 ^ 1024" using power_strict_increasing [of 100 1024 "2 :: rat"] by simp
    moreover have "(2 ^ 100 :: rat) = of_int 1 * 2 powi 100" using power_int_of_nat [of "2 :: rat" 100] by simp
    ultimately show "representable (2 ^ 100)" unfolding representable_def by (intro conjI exI [of _ 1] exI [of _ 100]) auto
  qed
  have "(of_int d :: rat) \<le> of_int (2 ^ 100)" using assms(4) by (simp only: of_int_le_iff)
  then obtain w where w: "f64_round (of_int d) = Fin w" "0 \<le> w" using assms(3) by (auto intro: f64_round_between [OF _ _ big, of "of_int d"])
  have le: "f64_le (f64_round (of_int a)) (f64_round (of_int d))" using assms by (intro f64_round_mono_nonneg) auto
  obtain v where v: "f64_round (of_int a) = Fin v" "0 \<le> v" "v \<le> w"
    using f64_round_nonneg [of "of_int a"] f64_le_Fin [OF le [unfolded w(1)]] assms(1) by auto
  have "f64_le (Fin 1) (Fin w)" using f64_round_mono_nonneg [of 1 "of_int d"] assms(3) by (simp add: w(1) f64_round_one)
  then have "1 \<le> w" by (auto simp: f64_le_def)
  then obtain q where "f64_round (v / w) = Fin q" "0 \<le> q" "q \<le> 1"
    using v by (auto intro: f64_round_between [of "v / w" 1, OF _ _ f64_round_one])
  then show ?thesis using \<open>1 \<le> w\<close> by (intro that [of q]) (simp_all add: f64_of_int_def v(1) w(1))
qed

text \<open>What a session keeps true of its state.\<close>

definition session_ok :: "session_key \<Rightarrow> session_state \<Rightarrow> bool" where
  "session_ok k s \<longleftrightarrow>
     sk_user_id k \<noteq> [] \<and> sk_content_id k \<noteq> [] \<and> 0 \<le> ss_total_rebuffer_ms s \<and>
     \<bar>ss_first_timestamp s\<bar> < 2 ^ 73 \<and> \<bar>ss_last_timestamp s\<bar> < 2 ^ 73"

lemma abs_div_le: "\<bar>i\<bar> div 10 ^ 6 \<le> \<bar>i :: int\<bar>"
  using div_le_mono [of 1] by (metis abs_ge_zero div_by_1 numeral_le_one_iff one_le_power pos_imp_zdiv_pos_iff semiring_norm(69) zdiv_mono2 zero_less_one one_le_numeral)

lemma num_milliseconds_bound: "\<bar>i\<bar> < 2 ^ 74 \<Longrightarrow> num_milliseconds i < 2 ^ 100"
  using abs_div_le [of i] by (auto simp: num_milliseconds_def div_trunc_def pos_imp_zdiv_nonneg_iff split: if_splits)

lemma rebuffer_ratio_ok:
  assumes "0 \<le> ss_total_rebuffer_ms s" "d < 2 ^ 100"
  obtains q where "rebuffer_ratio s d = Ok (Fin q)" "0 \<le> q" "q \<le> 1"
proof (cases "d > 0")
  case True
  obtain q where "f64_div (f64_of_int (min (ss_total_rebuffer_ms s) d)) (f64_of_int d) = Fin q" "0 \<le> q" "q \<le> 1"
    using f64_of_int_ratio [of "min (ss_total_rebuffer_ms s) d" d] assms True by auto
  then show ?thesis using True by (intro that [of q]) (simp_all add: rebuffer_ratio_def Let_def assert_finite_def f64_clamp_def)
next
  case False
  then show ?thesis by (intro that [of 0]) (simp_all add: rebuffer_ratio_def)
qed

lemma finalize_valid:
  assumes "session_ok k s"
  obtains ev m where "finalize s k new_id = Ok ev" "qe_metrics ev = Some m" "validate_playback_metrics m = Ok ()"
    "qe_session_id ev \<noteq> []" "qe_user_id ev \<noteq> []" "qe_content_id ev \<noteq> []" "qe_event_id ev = new_id"
proof -
  let ?d = "max (num_milliseconds (ss_last_timestamp s - ss_first_timestamp s)) 0"
  have "\<bar>ss_last_timestamp s - ss_first_timestamp s\<bar> < 2 ^ 74" using assms by (auto simp: session_ok_def)
  then have "?d < 2 ^ 100" using num_milliseconds_bound by simp
  moreover have "0 \<le> ss_total_rebuffer_ms s" using assms by (simp add: session_ok_def)
  ultimately obtain q where "rebuffer_ratio s ?d = Ok (Fin q)" "0 \<le> q" "q \<le> 1" using rebuffer_ratio_ok by blast
  then show ?thesis
    using assms
    by (intro that) (auto simp: finalize_def Let_def session_ok_def playback_valid synthesized_session_id_def
        max_time_to_first_frame_ms_def max_playback_duration_ms_def max_rebuffer_count_def max_resolution_switches_def
        max_avg_bitrate_kbps_def max_peak_resolution_height_def unwrap_or_def clamp_def split: option.splits if_splits)
qed

section \<open>The reference: maximal runs\<close>

text \<open>
  The heartbeats of one key that are accepted, with their instants. A session is a maximal run of them
  without a gap longer than the limit; \<open>runs_of\<close> says that a list of runs is that decomposition.
\<close>

type_synonym stamped = "heartbeat_event \<times> int"

definition runs_of :: "int \<Rightarrow> stamped list \<Rightarrow> stamped list list \<Rightarrow> bool" where
  "runs_of gap xs rs \<longleftrightarrow>
     concat rs = xs \<and> [] \<notin> set rs \<and> (\<forall>r \<in> set rs. successively (\<lambda>x y. snd y - snd x \<le> gap) r) \<and>
     successively (\<lambda>r r'. snd (hd r') - snd (List.last r) > gap) rs"

fun run_state :: "stamped list \<Rightarrow> session_state" where
  "run_state [] = undefined"
| "run_state ((h, t) # xs) = foldl (\<lambda>s (h, t). session_apply s h t) (session_open h t) xs"

text \<open>The instant of a heartbeat that passes validation, and the heartbeats of a key that are in order.\<close>

definition stamp :: "time_env \<Rightarrow> heartbeat_event \<Rightarrow> int option" where
  "stamp env hb =
     (case obind (validate_heartbeat_event env hb) (\<lambda>_. require_timestamp env (hb_timestamp hb) ''timestamp'') of Ok t \<Rightarrow> Some t | _ \<Rightarrow> None)"

type_synonym ingest_call = "time_env \<times> string \<times> heartbeat_event"

definition offered :: "session_key \<Rightarrow> ingest_call list \<Rightarrow> stamped list" where
  "offered k calls = List.map_filter (\<lambda>(env, i, hb). if session_key_of hb = k then map_option (Pair hb) (stamp env hb) else None) calls"

definition keep_in_order :: "stamped list \<Rightarrow> stamped \<Rightarrow> stamped list" where
  "keep_in_order xs x = (if xs \<noteq> [] \<and> snd x < snd (List.last xs) then xs else xs @ [x])"

definition accepted :: "session_key \<Rightarrow> ingest_call list \<Rightarrow> stamped list" where
  "accepted k calls = foldl keep_in_order [] (offered k calls)"

text \<open>A sequence of calls; a rejected heartbeat leaves no trace, a panic ends the process.\<close>

fun ingest_all :: "ingest_call list \<Rightarrow> sessionizer \<Rightarrow> (unit, (session_key \<times> qoe_event) list \<times> sessionizer) outcome" where
  "ingest_all [] z = Ok ([], z)"
| "ingest_all ((env, i, hb) # calls) z =
     (case ingest env i hb z of
        (Panic, _) \<Rightarrow> Panic
      | (r, z1) \<Rightarrow> obind (ingest_all calls z1) (\<lambda>(evs, z2).
          Ok ((case r of Ok (Some ev) \<Rightarrow> [(session_key_of hb, ev)] | _ \<Rightarrow> []) @ evs, z2)))"

lemma accepted_snoc:
  "accepted k (calls @ [(env, i, hb)]) =
     (case stamp env hb of Some t \<Rightarrow> if session_key_of hb = k then keep_in_order (accepted k calls) (hb, t) else accepted k calls
      | None \<Rightarrow> accepted k calls)"
  by (auto simp: accepted_def offered_def List.map_filter_def split: option.split)

lemma obind_assoc: "obind (obind m f) g = obind m (\<lambda>x. obind (f x) g)"
  by (cases m) auto

lemma obind_Ok_id: "obind m Ok = m"
  by (cases m) auto

lemma ingest_all_append:
  "ingest_all (calls @ calls') z =
     obind (ingest_all calls z) (\<lambda>(evs, z1). obind (ingest_all calls' z1) (\<lambda>(evs', z2). Ok (evs @ evs', z2)))"
proof (induction calls arbitrary: z)
  case Nil
  then show ?case by (cases "ingest_all calls' z") auto
next
  case (Cons c calls)
  obtain env i hb where c: "c = (env, i, hb)" by (cases c)
  obtain r z1 where "ingest env i hb z = (r, z1)" by (cases "ingest env i hb z")
  then show ?case
    by (cases r; cases "ingest_all calls z1") (auto simp: c Cons obind_assoc split_def obind_Ok_id)
qed

lemma run_state_snoc: "r \<noteq> [] \<Longrightarrow> run_state (r @ [(h, t)]) = session_apply (run_state r) h t"
  by (cases r rule: run_state.cases) auto

lemma last_timestamp_simps [simp]: "ss_last_timestamp (session_open h t) = t" "ss_last_timestamp (session_apply s h t) = t"
  by (simp_all add: session_open_def session_apply_def Let_def)

lemma run_state_last: "r \<noteq> [] \<Longrightarrow> ss_last_timestamp (run_state r) = snd (List.last r)"
proof (cases r rule: rev_cases)
  case (snoc r0 x)
  then show ?thesis by (cases x; cases "r0 = []") (auto simp: run_state_snoc simp del: run_state.simps(2), simp)
qed simp

lemma runs_of_extend:
  assumes "runs_of gap xs rs" "rs \<noteq> []" "snd x - snd (List.last xs) \<le> gap"
  shows "runs_of gap (xs @ [x]) (butlast rs @ [List.last rs @ [x]])"
proof -
  obtain rs0 r where rs: "rs = rs0 @ [r]" using assms(2) by (metis append_butlast_last_id)
  then have r: "r \<noteq> []" "List.last xs = List.last r" using assms(1) by (auto simp: runs_of_def)
  then show ?thesis
    using assms(1,3) by (auto simp: runs_of_def rs successively_append_iff hd_append)
qed

lemma runs_of_open:
  assumes "runs_of gap xs rs" "rs \<noteq> [] \<Longrightarrow> snd x - snd (List.last xs) > gap"
  shows "runs_of gap (xs @ [x]) (rs @ [[x]])"
proof (cases "rs = []")
  case False
  then obtain rs0 r where rs: "rs = rs0 @ [r]" by (metis append_butlast_last_id)
  then have "r \<noteq> []" "List.last xs = List.last r" using assms(1) by (auto simp: runs_of_def)
  then show ?thesis using assms by (auto simp: runs_of_def rs successively_append_iff)
qed (use assms in \<open>auto simp: runs_of_def\<close>)

text \<open>The session of a key and the events it has emitted, against the runs of its heartbeats.\<close>

definition tracked :: "int \<Rightarrow> session_key \<Rightarrow> stamped list \<Rightarrow> session_state option \<Rightarrow> qoe_event list \<Rightarrow> bool" where
  "tracked gap k xs s evs \<longleftrightarrow>
     (\<exists>rs. runs_of gap xs rs \<and> s = (if rs = [] then None else Some (run_state (List.last rs))) \<and>
        list_all2 (\<lambda>r ev. \<exists>i. finalize (run_state r) k i = Ok ev) (butlast rs) evs \<and> (\<forall>r \<in> set rs. session_ok k (run_state r)))"

lemma tracked_empty: "tracked gap k [] None []"
  by (auto simp: tracked_def runs_of_def intro!: exI [of _ "[]"])

lemma tracked_Some:
  assumes "tracked gap k xs (Some s) evs"
  shows "xs \<noteq> []" "snd (List.last xs) = ss_last_timestamp s" "session_ok k s"
proof -
  from assms obtain rs where rs: "runs_of gap xs rs" "rs \<noteq> []" "s = run_state (List.last rs)" "\<forall>r \<in> set rs. session_ok k (run_state r)"
    by (auto simp: tracked_def split: if_splits)
  then obtain rs0 r where "rs = rs0 @ [r]" by (metis append_butlast_last_id)
  then have "r \<noteq> []" "xs = concat rs0 @ r" "s = run_state r" "session_ok k s" using rs by (auto simp: runs_of_def)
  then show "xs \<noteq> []" "snd (List.last xs) = ss_last_timestamp s" "session_ok k s" by (auto simp: run_state_last)
qed

lemma tracked_None: "tracked gap k xs None evs \<Longrightarrow> xs = [] \<and> evs = []"
  by (auto simp: tracked_def runs_of_def split: if_splits)

lemma tracked_open:
  "session_ok k (session_open h t) \<Longrightarrow> tracked gap k [(h, t)] (Some (session_open h t)) []"
  by (auto simp: tracked_def runs_of_def intro!: exI [of _ "[[(h, t)]]"])

lemma session_ok_apply: "session_ok k s \<Longrightarrow> \<bar>t\<bar> < 2 ^ 73 \<Longrightarrow> session_ok k (session_apply s h t)"
  by (auto simp: session_ok_def session_apply_def Let_def i64_saturating_add_def)

lemma tracked_apply:
  assumes "tracked gap k xs (Some s) evs" "t - ss_last_timestamp s \<le> gap" "\<bar>t\<bar> < 2 ^ 73"
  shows "tracked gap k (xs @ [(h, t)]) (Some (session_apply s h t)) evs"
proof -
  from assms(1) obtain rs where rs: "runs_of gap xs rs" "rs \<noteq> []" "s = run_state (List.last rs)" "\<forall>r \<in> set rs. session_ok k (run_state r)"
    "list_all2 (\<lambda>r ev. \<exists>i. finalize (run_state r) k i = Ok ev) (butlast rs) evs"
    by (auto simp: tracked_def split: if_splits)
  have "List.last rs \<noteq> []" using rs(1) last_in_set [OF rs(2)] by (auto simp: runs_of_def)
  then have st: "run_state (List.last rs @ [(h, t)]) = session_apply s h t" by (simp add: run_state_snoc rs(3))
  have "runs_of gap (xs @ [(h, t)]) (butlast rs @ [List.last rs @ [(h, t)]])"
    using rs(1,2) assms(2) tracked_Some(2) [OF assms(1)] by (intro runs_of_extend) auto
  then show ?thesis
    unfolding tracked_def using rs st session_ok_apply [OF tracked_Some(3) [OF assms(1)] assms(3)]
    by (intro exI [of _ "butlast rs @ [List.last rs @ [(h, t)]]"]) (auto dest: in_set_butlastD)
qed

lemma tracked_close:
  assumes "tracked gap k xs (Some s) evs" "t - ss_last_timestamp s > gap" "finalize s k i = Ok ev" "session_ok k (session_open h t)"
  shows "tracked gap k (xs @ [(h, t)]) (Some (session_open h t)) (evs @ [ev])"
proof -
  from assms(1) obtain rs where rs: "runs_of gap xs rs" "rs \<noteq> []" "s = run_state (List.last rs)" "\<forall>r \<in> set rs. session_ok k (run_state r)"
    "list_all2 (\<lambda>r ev. \<exists>i. finalize (run_state r) k i = Ok ev) (butlast rs) evs"
    by (auto simp: tracked_def split: if_splits)
  have "runs_of gap (xs @ [(h, t)]) (rs @ [[(h, t)]])"
    using rs(1) assms(2) tracked_Some(2) [OF assms(1)] by (intro runs_of_open) auto
  moreover have "list_all2 (\<lambda>r ev. \<exists>i. finalize (run_state r) k i = Ok ev) (butlast rs @ [List.last rs]) (evs @ [ev])"
    using rs assms(3) by (intro list_all2_appendI) auto
  ultimately show ?thesis
    unfolding tracked_def using rs assms(4) by (intro exI [of _ "rs @ [[(h, t)]]"]) auto
qed

section \<open>The sessionizer follows the reference\<close>

text \<open>The instants of chrono lie within 262143 years around the epoch.\<close>

definition chrono_range :: "time_env \<Rightarrow> bool" where
  "chrono_range env \<longleftrightarrow> (\<forall>s n t. te_from_timestamp env s n = Some t \<longrightarrow> \<bar>t\<bar> < 2 ^ 73)"

definition emitted :: "session_key \<Rightarrow> session_key \<Rightarrow> qoe_event option checked \<Rightarrow> qoe_event list" where
  "emitted k key r = (if k = key then case r of Ok (Some ev) \<Rightarrow> [ev] | _ \<Rightarrow> [] else [])"

lemma emitted_simps [simp]: "emitted k key (Ok None) = []" "emitted k key (Err e) = []" "emitted k key (Ok (Some ev)) = (if k = key then [ev] else [])"
  by (simp_all add: emitted_def)

lemma stamp_cases:
  assumes "chrono_range env" "is_finite (hb_buffer_health_seconds hb)"
  obtains (rejected) e where "stamp env hb = None"
      "obind (validate_heartbeat_event env hb) (\<lambda>_. require_timestamp env (hb_timestamp hb) ''timestamp'') = Err e"
  | (stamped) t where "stamp env hb = Some t"
      "obind (validate_heartbeat_event env hb) (\<lambda>_. require_timestamp env (hb_timestamp hb) ''timestamp'') = Ok t"
      "\<bar>t\<bar> < 2 ^ 73" "hb_user_id hb \<noteq> []" "hb_content_id hb \<noteq> []"
proof -
  let ?r = "obind (validate_heartbeat_event env hb) (\<lambda>_. require_timestamp env (hb_timestamp hb) ''timestamp'')"
  have np: "require_timestamp env ts name \<noteq> Panic" for ts name
    by (auto simp: require_timestamp_def validate_timestamp_def obind_Panic_iff ensure_simps Let_def)
  have "?r \<noteq> Panic" using assms(2)
    by (auto simp: np validate_heartbeat_event_def obind_Panic_iff ensure_simps assert_finite_simps validate_required_def validate_range_def)
  moreover have "?thesis" if "?r = Ok t" for t
  proof (rule stamped [OF _ that])
    show "stamp env hb = Some t" using that by (simp add: stamp_def)
    show "\<bar>t\<bar> < 2 ^ 73" using that assms(1) by (auto simp: obind_Ok_iff require_timestamp_Ok chrono_range_def)
  qed (use that in \<open>auto simp: obind_Ok_iff heartbeat_valid\<close>)
  moreover have "?thesis" if "?r = Err e" for e using that by (intro rejected) (simp_all add: stamp_def)
  ultimately show ?thesis by (cases ?r) auto
qed

lemma session_ok_open: "\<bar>t\<bar> < 2 ^ 73 \<Longrightarrow> hb_user_id hb \<noteq> [] \<Longrightarrow> hb_content_id hb \<noteq> [] \<Longrightarrow> session_ok (session_key_of hb) (session_open hb t)"
  by (simp add: session_ok_def session_key_of_def session_open_def)

lemma ingest_tracked:
  assumes "chrono_range env" "is_finite (hb_buffer_health_seconds hb)"
    and tr: "\<And>k. tracked (sz_session_gap z) k (accepted k calls) (sz_sessions z k) (evs k)"
  obtains r z' where "ingest env i hb z = (r, z')" "r \<noteq> Panic" "sz_session_gap z' = sz_session_gap z"
    "\<And>k. tracked (sz_session_gap z) k (accepted k (calls @ [(env, i, hb)])) (sz_sessions z' k) (evs k @ emitted k (session_key_of hb) r)"
  using assms(1,2)
proof (cases rule: stamp_cases)
  case (rejected e)
  then show ?thesis using tr by (intro that [of "Err e" z]) (simp_all add: ingest_def accepted_snoc)
next
  case (stamped t)
  let ?k = "session_key_of hb"
  note ok = session_ok_open [OF stamped(3-5)]
  have key: "tracked (sz_session_gap z) k (accepted k (calls @ [(env, i, hb)])) (sz_sessions z' k) (evs k @ emitted k ?k r)"
    if "tracked (sz_session_gap z) ?k (keep_in_order (accepted ?k calls) (hb, t)) (sz_sessions z' ?k) (evs ?k @ emitted ?k ?k r)"
      "\<And>k. k \<noteq> ?k \<Longrightarrow> sz_sessions z' k = sz_sessions z k" for k r and z' :: sessionizer
    using that tr [of k] stamped(1) by (cases "k = ?k") (auto simp: accepted_snoc emitted_def)
  show ?thesis
  proof (cases "sz_sessions z ?k")
    case None
    note fresh = tracked_None [OF tr [of ?k, unfolded None]]
    have run: "ingest env i hb z = (Ok None, z\<lparr>sz_sessions := (sz_sessions z)(?k \<mapsto> session_open hb t)\<rparr>)"
      using None stamped(2) by (simp add: ingest_def Let_def continue_session_def)
    show ?thesis
      by (rule that [OF run _ _ key]) (use fresh tracked_open [OF ok] in \<open>auto simp: keep_in_order_def\<close>)
  next
    case (Some s)
    note st = tr [of ?k, unfolded Some]
    note last_s = tracked_Some [OF st]
    consider "t < ss_last_timestamp s" | "0 \<le> t - ss_last_timestamp s" "t - ss_last_timestamp s \<le> sz_session_gap z"
      | "0 \<le> t - ss_last_timestamp s" "t - ss_last_timestamp s > sz_session_gap z" by linarith
    then show ?thesis
    proof cases
      case 1
      have run: "ingest env i hb z = (Ok None, z\<lparr>sz_dropped_out_of_order := u64_saturating_add (sz_dropped_out_of_order z) 1\<rparr>)"
        using 1 Some stamped(2) by (simp add: ingest_def Let_def)
      show ?thesis
        by (rule that [OF run _ _ key]) (use 1 Some last_s st in \<open>auto simp: keep_in_order_def\<close>)
    next
      case 2
      have run: "ingest env i hb z = (Ok None, z\<lparr>sz_sessions := (sz_sessions z)(?k \<mapsto> session_apply s hb t)\<rparr>)"
        using 2 Some stamped(2) by (simp add: ingest_def Let_def continue_session_def)
      show ?thesis
        by (rule that [OF run _ _ key]) (use 2 last_s tracked_apply [OF st 2(2) stamped(3)] in \<open>auto simp: keep_in_order_def\<close>)
    next
      case 3
      obtain ev where ev: "finalize s ?k i = Ok ev" using finalize_valid [OF last_s(3)] by metis
      have run: "ingest env i hb z = (Ok (Some ev), z\<lparr>sz_sessions := (sz_sessions z)(?k \<mapsto> session_open hb t)\<rparr>)"
        using 3 Some stamped(2) ev by (simp add: ingest_def Let_def continue_session_def)
      show ?thesis
        by (rule that [OF run _ _ key]) (use 3 last_s tracked_close [OF st 3(2) ev ok] in \<open>auto simp: keep_in_order_def\<close>)
    qed
  qed
qed

section \<open>Properties\<close>

definition healthy_calls :: "ingest_call list \<Rightarrow> bool" where
  "healthy_calls calls \<longleftrightarrow> (\<forall>(env, i, hb) \<in> set calls. chrono_range env \<and> is_finite (hb_buffer_health_seconds hb))"

lemma ingest_all_tracked:
  assumes "healthy_calls calls"
  shows "\<exists>evs z. ingest_all calls (sessionizer_with_config gap) = Ok (evs, z) \<and> sz_session_gap z = gap \<and>
    (\<forall>k. tracked gap k (accepted k calls) (sz_sessions z k) (map snd (filter (\<lambda>(k', _). k' = k) evs)))"
  using assms
proof (induction calls rule: rev_induct)
  case Nil
  then show ?case by (auto simp: sessionizer_with_config_def accepted_def offered_def List.map_filter_def tracked_empty)
next
  case (snoc c calls)
  obtain env i hb where c: "c = (env, i, hb)" by (cases c)
  from snoc obtain evs z where IH: "ingest_all calls (sessionizer_with_config gap) = Ok (evs, z)" "sz_session_gap z = gap"
    "\<And>k. tracked (sz_session_gap z) k (accepted k calls) (sz_sessions z k) (map snd (filter (\<lambda>(k', _). k' = k) evs))"
    by (auto simp: healthy_calls_def)
  have "chrono_range env" "is_finite (hb_buffer_health_seconds hb)" using snoc.prems by (auto simp: healthy_calls_def c)
  then obtain r z' where step: "ingest env i hb z = (r, z')" "r \<noteq> Panic" "sz_session_gap z' = sz_session_gap z"
    "\<And>k. tracked (sz_session_gap z) k (accepted k (calls @ [c])) (sz_sessions z' k)
       (map snd (filter (\<lambda>(k', _). k' = k) evs) @ emitted k (session_key_of hb) r)"
    unfolding c by (rule ingest_tracked [OF _ _ IH(3)]) blast
  let ?e = "case r of Ok (Some ev) \<Rightarrow> [(session_key_of hb, ev)] | _ \<Rightarrow> []"
  have "ingest_all (calls @ [c]) (sessionizer_with_config gap) = Ok (evs @ ?e, z')"
    using step(1,2) by (cases r) (auto simp: ingest_all_append IH(1) c)
  moreover have "map snd (filter (\<lambda>(k', _). k' = k) ?e) = emitted k (session_key_of hb) r" for k
    by (auto simp: emitted_def split: outcome.split option.split)
  ultimately show ?case using step IH(2) by (intro exI [of _ "evs @ ?e"] exI [of _ z']) auto
qed

text \<open>
  C24: The sessions are exactly the maximal runs of the heartbeats of a user on a device and a content:
  for every sequence of heartbeats with a finite buffer health, of any number of keys interleaved, with late ones and ones that fail
  validation among them, the heartbeats of a key that are valid and in order split into runs at the gaps longer than the
  limit; each run but the last has been emitted once, in order, as the event computed from it, and the
  state of the last run is what the map holds. A heartbeat whose buffer health is not finite is outside the
  claim: the validation asserts that it is finite, and panics.
\<close>

theorem sessions_are_maximal_runs:
  assumes "healthy_calls calls"
  shows "\<exists>evs z. ingest_all calls (sessionizer_with_config gap) = Ok (evs, z) \<and>
    (\<forall>k. \<exists>rs. runs_of gap (accepted k calls) rs \<and>
       list_all2 (\<lambda>r ev. \<exists>i. finalize (run_state r) k i = Ok ev) (butlast rs) (map snd (filter (\<lambda>(k', _). k' = k) evs)) \<and>
       sz_sessions z k = (if rs = [] then None else Some (run_state (List.last rs))))"
proof -
  from ingest_all_tracked [OF assms] obtain evs z where "ingest_all calls (sessionizer_with_config gap) = Ok (evs, z)"
    "\<And>k. tracked gap k (accepted k calls) (sz_sessions z k) (map snd (filter (\<lambda>(k', _). k' = k) evs))" by blast
  then show ?thesis unfolding tracked_def by (intro exI [of _ evs] exI [of _ z]) meson
qed

text \<open>The operations of the sessionizer in any order: a heartbeat, the sweep of expired sessions, the drain at a shutdown.\<close>

datatype sessionizer_op =
    Heartbeat time_env string heartbeat_event
  | Sweep "session_key list" "string list" int
  | Drain "session_key list" "string list"

fun run_op :: "sessionizer_op \<Rightarrow> sessionizer \<Rightarrow> qoe_event list checked \<times> sessionizer" where
  "run_op (Heartbeat env i hb) z =
     (case ingest env i hb z of (r, z') \<Rightarrow> (obind r (\<lambda>ev. Ok (case ev of None \<Rightarrow> [] | Some e \<Rightarrow> [e])), z'))"
| "run_op (Sweep iteration ids now) z = flush_expired iteration ids now z"
| "run_op (Drain iteration ids) z = drain iteration ids z"

text \<open>The events they emit; an error leaves no event, a panic ends the process.\<close>

fun run_ops :: "sessionizer_op list \<Rightarrow> sessionizer \<Rightarrow> (unit, qoe_event list \<times> sessionizer) outcome" where
  "run_ops [] z = Ok ([], z)"
| "run_ops (op # ops) z =
     (case run_op op z of
        (Panic, _) \<Rightarrow> Panic
      | (r, z1) \<Rightarrow> obind (run_ops ops z1) (\<lambda>(evs, z2). Ok ((case r of Ok es \<Rightarrow> es | _ \<Rightarrow> []) @ evs, z2)))"

definition healthy_op :: "sessionizer_op \<Rightarrow> bool" where
  "healthy_op op = (case op of Heartbeat env i hb \<Rightarrow> chrono_range env \<and> is_finite (hb_buffer_health_seconds hb) | _ \<Rightarrow> True)"

definition sessions_ok :: "(session_key, session_state) hash_map \<Rightarrow> bool" where
  "sessions_ok m \<longleftrightarrow> (\<forall>k s. m k = Some s \<longrightarrow> session_ok k s)"

definition from_session :: "qoe_event \<Rightarrow> bool" where
  "from_session ev \<longleftrightarrow> (\<exists>k s i. session_ok k s \<and> finalize s k i = Ok ev)"

lemma sessions_ok_upd: "sessions_ok m \<Longrightarrow> session_ok k s \<Longrightarrow> sessions_ok (m(k \<mapsto> s))"
  by (simp add: sessions_ok_def)

lemma ingest_safe:
  assumes "chrono_range env" "is_finite (hb_buffer_health_seconds hb)" "sessions_ok (sz_sessions z)"
  obtains r z' where "ingest env i hb z = (r, z')" "r \<noteq> Panic" "sessions_ok (sz_sessions z')" "\<And>ev. r = Ok (Some ev) \<Longrightarrow> from_session ev"
  using assms(1,2)
proof (cases rule: stamp_cases)
  case (rejected e)
  then show ?thesis using assms(3) by (intro that [of "Err e" z]) (simp_all add: ingest_def)
next
  case (stamped t)
  let ?k = "session_key_of hb"
  note opened = sessions_ok_upd [OF assms(3) session_ok_open [OF stamped(3-5)]]
  show ?thesis
  proof (cases "sz_sessions z ?k")
    case None
    then show ?thesis using stamped(2) opened
      by (intro that [of "Ok None" "z\<lparr>sz_sessions := (sz_sessions z)(?k \<mapsto> session_open hb t)\<rparr>"]) (simp_all add: ingest_def Let_def continue_session_def)
  next
    case (Some s)
    then have ok: "session_ok ?k s" using assms(3) by (simp add: sessions_ok_def)
    note applied = sessions_ok_upd [OF assms(3) session_ok_apply [OF ok stamped(3)], of hb]
    obtain ev where ev: "finalize s ?k i = Ok ev" using finalize_valid [OF ok] by metis
    then have fs: "from_session ev" using ok by (auto simp: from_session_def)
    consider "t < ss_last_timestamp s" | "\<not> t < ss_last_timestamp s" "t - ss_last_timestamp s \<le> sz_session_gap z"
      | "\<not> t < ss_last_timestamp s" "t - ss_last_timestamp s > sz_session_gap z" by linarith
    then show ?thesis
    proof cases
      case 1
      then show ?thesis using Some stamped(2) assms(3)
        by (intro that [of "Ok None" "z\<lparr>sz_dropped_out_of_order := u64_saturating_add (sz_dropped_out_of_order z) 1\<rparr>"]) (simp_all add: ingest_def Let_def)
    next
      case 2
      then show ?thesis using Some stamped(2) applied
        by (intro that [of "Ok None" "z\<lparr>sz_sessions := (sz_sessions z)(?k \<mapsto> session_apply s hb t)\<rparr>"]) (simp_all add: ingest_def Let_def continue_session_def)
    next
      case 3
      then show ?thesis using Some stamped(2) opened ev fs
        by (intro that [of "Ok (Some ev)" "z\<lparr>sz_sessions := (sz_sessions z)(?k \<mapsto> session_open hb t)\<rparr>"]) (simp_all add: ingest_def Let_def continue_session_def)
    qed
  qed
qed

lemma emit_sessions_safe:
  assumes "sessions_ok m"
  shows "\<exists>evs. emit_sessions keys ids m = Ok (evs, m |` (- set keys)) \<and> (\<forall>ev \<in> set evs. from_session ev) \<and>
    length evs = card (set keys \<inter> dom m)"
  using assms
proof (induction keys arbitrary: ids m)
  case (Cons k keys)
  show ?case
  proof (cases "m k")
    case None
    then have "m |` (- set (k # keys)) = m |` (- set keys)" "set (k # keys) \<inter> dom m = set keys \<inter> dom m"
      by (auto simp: restrict_map_def fun_eq_iff)
    then show ?thesis using Cons.IH [OF Cons.prems, of ids] None by simp
  next
    case (Some s)
    then have ok: "session_ok k s" using Cons.prems by (simp add: sessions_ok_def)
    obtain ev where ev: "finalize s k (hd (ids @ [[]])) = Ok ev" using finalize_valid [OF ok] by metis
    have "sessions_ok (m(k := None))" using Cons.prems by (simp add: sessions_ok_def)
    from Cons.IH [OF this, of "tl ids"] obtain evs where evs: "emit_sessions keys (tl ids) (m(k := None)) = Ok (evs, m(k := None) |` (- set keys))"
      "\<forall>ev \<in> set evs. from_session ev" "length evs = card (set keys \<inter> dom (m(k := None)))" by blast
    have "m(k := None) |` (- set keys) = m |` (- set (k # keys))" by (auto simp: restrict_map_def fun_eq_iff)
    moreover have "set (k # keys) \<inter> dom m = insert k (set keys \<inter> dom (m(k := None)))" using Some by auto
    moreover have "k \<notin> set keys \<inter> dom (m(k := None))" "finite (set keys \<inter> dom (m(k := None)))" by auto
    ultimately show ?thesis using evs ev ok Some by (intro exI [of _ "ev # evs"]) (auto simp: from_session_def)
  qed
qed (simp add: restrict_map_def)

abbreviation expired :: "int \<Rightarrow> sessionizer \<Rightarrow> session_key set" where
  "expired now z \<equiv> {k. \<exists>s. sz_sessions z k = Some s \<and> ss_last_timestamp s < now - sz_session_gap z}"

lemma flush_safe:
  assumes "sessions_ok (sz_sessions z)"
  shows "\<exists>evs. flush_expired iteration ids now z =
      (Ok evs, z\<lparr>sz_sessions := sz_sessions z |` (- (set iteration \<inter> expired now z))\<rparr>) \<and>
    (\<forall>ev \<in> set evs. from_session ev) \<and> length evs = card (set iteration \<inter> expired now z)"
proof -
  let ?keys = "filter (\<lambda>k. case sz_sessions z k of Some s \<Rightarrow> ss_last_timestamp s < now - sz_session_gap z | None \<Rightarrow> False) iteration"
  have "set ?keys = set iteration \<inter> expired now z" "set ?keys \<inter> dom (sz_sessions z) = set iteration \<inter> expired now z"
    by (auto split: option.splits)
  then show ?thesis using emit_sessions_safe [OF assms, of ?keys ids] by (auto simp: flush_expired_def Let_def)
qed

lemma drain_safe:
  assumes "sessions_ok (sz_sessions z)"
  shows "\<exists>evs. drain iteration ids z = (Ok evs, z\<lparr>sz_sessions := sz_sessions z |` (- set iteration)\<rparr>) \<and>
    (\<forall>ev \<in> set evs. from_session ev) \<and> length evs = card (set iteration \<inter> dom (sz_sessions z))"
  using emit_sessions_safe [OF assms, of iteration ids] by (auto simp: drain_def)

lemma restrict_sessions_ok: "sessions_ok m \<Longrightarrow> sessions_ok (m |` A)"
  by (auto simp: sessions_ok_def restrict_map_def split: if_splits)

lemma run_op_safe:
  assumes "healthy_op op" "sessions_ok (sz_sessions z)"
  obtains r z' where "run_op op z = (r, z')" "r \<noteq> Panic" "sessions_ok (sz_sessions z')" "\<And>es ev. r = Ok es \<Longrightarrow> ev \<in> set es \<Longrightarrow> from_session ev"
proof (cases op)
  case (Heartbeat env i hb)
  then have h: "chrono_range env" "is_finite (hb_buffer_health_seconds hb)" using assms(1) by (simp_all add: healthy_op_def)
  obtain r z' where r: "ingest env i hb z = (r, z')" "r \<noteq> Panic" "sessions_ok (sz_sessions z')" "\<And>ev. r = Ok (Some ev) \<Longrightarrow> from_session ev"
    using ingest_safe [OF h assms(2)] by metis
  show ?thesis
    by (rule that [of "obind r (\<lambda>ev. Ok (case ev of None \<Rightarrow> [] | Some e \<Rightarrow> [e]))" z'])
      (use Heartbeat r in \<open>auto simp: obind_Panic_iff obind_Ok_iff split: option.splits\<close>)
next
  case (Sweep iteration ids now)
  then show ?thesis using that flush_safe [OF assms(2), of iteration ids now] restrict_sessions_ok [OF assms(2)] by auto
next
  case (Drain iteration ids)
  then show ?thesis using that drain_safe [OF assms(2), of iteration ids] restrict_sessions_ok [OF assms(2)] by auto
qed

lemma run_ops_safe:
  assumes "list_all healthy_op ops" "sessions_ok (sz_sessions z)"
  shows "\<exists>evs z'. run_ops ops z = Ok (evs, z') \<and> sessions_ok (sz_sessions z') \<and> (\<forall>ev \<in> set evs. from_session ev)"
  using assms
proof (induction ops arbitrary: z)
  case (Cons op ops)
  have h: "healthy_op op" "list_all healthy_op ops" using Cons.prems(1) by simp_all
  obtain r z1 where r: "run_op op z = (r, z1)" "r \<noteq> Panic" "sessions_ok (sz_sessions z1)" "\<And>es ev. r = Ok es \<Longrightarrow> ev \<in> set es \<Longrightarrow> from_session ev"
    using run_op_safe [OF h(1) Cons.prems(2)] by metis
  from Cons.IH [OF h(2) r(3)] obtain evs z2 where "run_ops ops z1 = Ok (evs, z2)" "sessions_ok (sz_sessions z2)" "\<forall>ev \<in> set evs. from_session ev"
    by blast
  then show ?case using r by (cases r) auto
qed simp

lemma from_session_valid:
  assumes "from_session ev" "qe_event_id ev \<noteq> []" "require_timestamp env (qe_timestamp ev) ''timestamp'' = Ok t"
  shows "validate_qoe_event env ev = Ok ()"
proof -
  obtain k s j where s: "session_ok k s" "finalize s k j = Ok ev" using assms(1) by (auto simp: from_session_def)
  from finalize_valid [OF s(1), of j] s(2) obtain m where "qe_metrics ev = Some m" "validate_playback_metrics m = Ok ()"
    "qe_session_id ev \<noteq> []" "qe_user_id ev \<noteq> []" "qe_content_id ev \<noteq> []" by (metis outcome.inject(1))
  then show ?thesis using assms(2,3) by (simp add: validate_qoe_event_def validate_required_def ensure_def)
qed

text \<open>
  C26: Everything the sessionizer emits is valid downstream. Whatever heartbeats with a finite buffer health arrive, valid or
  not, with sweeps and drains among them in any order, nothing panics, and every event that is emitted, on a gap, on a
  sweep or on a drain, passes the validation of QoE events, as long as it has an identifier and its timestamp is still inside the window when
  it is published. At any time a sweep emits one event for each session whose last heartbeat is longer ago than the limit and removes
  exactly these, and a drain emits one event for each session and leaves none.
\<close>

theorem emitted_events_validate:
  assumes "list_all healthy_op ops"
  shows "\<exists>evs z. run_ops ops (sessionizer_with_config gap) = Ok (evs, z) \<and>
    (\<forall>ev \<in> set evs. \<forall>env t. qe_event_id ev \<noteq> [] \<and> require_timestamp env (qe_timestamp ev) ''timestamp'' = Ok t \<longrightarrow>
       validate_qoe_event env ev = Ok ()) \<and>
    (\<forall>iteration ids now. dom (sz_sessions z) \<subseteq> set iteration \<longrightarrow>
       (\<exists>swept. flush_expired iteration ids now z = (Ok swept, z\<lparr>sz_sessions := sz_sessions z |` (- expired now z)\<rparr>) \<and>
          length swept = card (expired now z)) \<and>
       (\<exists>drained. drain iteration ids z = (Ok drained, z\<lparr>sz_sessions := Map.empty\<rparr>) \<and> length drained = active_sessions z))"
proof -
  have "sessions_ok (sz_sessions (sessionizer_with_config gap))" by (simp add: sessions_ok_def sessionizer_with_config_def)
  from run_ops_safe [OF assms this] obtain evs z where run: "run_ops ops (sessionizer_with_config gap) = Ok (evs, z)"
    "sessions_ok (sz_sessions z)" "\<forall>ev \<in> set evs. from_session ev" by blast
  have "(\<exists>swept. flush_expired iteration ids now z = (Ok swept, z\<lparr>sz_sessions := sz_sessions z |` (- expired now z)\<rparr>) \<and>
          length swept = card (expired now z)) \<and>
       (\<exists>drained. drain iteration ids z = (Ok drained, z\<lparr>sz_sessions := Map.empty\<rparr>) \<and> length drained = active_sessions z)"
    if all: "dom (sz_sessions z) \<subseteq> set iteration" for iteration ids now
  proof -
    have "set iteration \<inter> expired now z = expired now z" "set iteration \<inter> dom (sz_sessions z) = dom (sz_sessions z)"
      "sz_sessions z |` (- set iteration) = Map.empty" using all by (auto simp: restrict_map_def fun_eq_iff)
    then show ?thesis
      using flush_safe [OF run(2), of iteration ids now] drain_safe [OF run(2), of iteration ids] by (auto simp: active_sessions_def)
  qed
  then show ?thesis using run(1,3) from_session_valid by blast
qed

section \<open>What an event says about its run\<close>

text \<open>The references: stalls that begin, changes of resolution, and the time spent in stalls.\<close>

fun stalls_from :: "bool \<Rightarrow> heartbeat_event list \<Rightarrow> nat" where
  "stalls_from prev [] = 0"
| "stalls_from prev (h # hs) = (if \<not> prev \<and> hb_is_rebuffering h then 1 else 0) + stalls_from (hb_is_rebuffering h) hs"

fun switches_from :: "int \<Rightarrow> heartbeat_event list \<Rightarrow> nat" where
  "switches_from prev [] = 0"
| "switches_from prev (h # hs) = (if prev \<noteq> hb_current_resolution_height h then 1 else 0) + switches_from (hb_current_resolution_height h) hs"

lemma stalls_bound: "stalls_from prev hs \<le> length hs"
  by (induction hs arbitrary: prev) (auto simp: le_SucI)

lemma switches_bound: "switches_from prev hs \<le> length hs"
  by (induction hs arbitrary: prev) (auto simp: le_SucI)

definition small_bitrates :: "heartbeat_event list \<Rightarrow> bool" where
  "small_bitrates hs \<longleftrightarrow> (\<forall>h \<in> set hs. hb_current_bitrate_kbps h \<in> {0..200000})"

lemma bitrate_sum_bound: "small_bitrates hs \<Longrightarrow> 0 \<le> sum_list (map hb_current_bitrate_kbps hs) \<and> sum_list (map hb_current_bitrate_kbps hs) \<le> 200000 * int (length hs)"
  by (induction hs) (auto simp: small_bitrates_def)

abbreviation apply_all :: "session_state \<Rightarrow> stamped list \<Rightarrow> session_state" where
  "apply_all s xs \<equiv> foldl (\<lambda>s (h, t). session_apply s h t) s xs"

lemma apply_all_counts:
  assumes "0 \<le> ss_heartbeat_count s" "ss_heartbeat_count s + int (length xs) < 2 ^ 63"
    "0 \<le> ss_bitrate_sum s" "ss_bitrate_sum s + 200000 * int (length xs) < 2 ^ 63" "small_bitrates (map fst xs)"
  shows "ss_heartbeat_count (apply_all s xs) = ss_heartbeat_count s + int (length xs) \<and>
    ss_bitrate_sum (apply_all s xs) = ss_bitrate_sum s + sum_list (map (hb_current_bitrate_kbps \<circ> fst) xs)"
  using assms
proof (induction xs arbitrary: s)
  case (Cons x xs)
  obtain h t where x: "x = (h, t)" by (cases x)
  have "hb_current_bitrate_kbps h \<in> {0..200000}" "small_bitrates (map fst xs)" using Cons.prems(5) by (auto simp: small_bitrates_def x)
  then show ?case
    using Cons.IH [of "session_apply s h t"] Cons.prems by (simp add: x session_apply_def Let_def i64_saturating_add_def)
qed simp

lemma apply_all_events:
  assumes "0 \<le> ss_rebuffer_transitions s" "ss_rebuffer_transitions s + int (length xs) < 2 ^ 31"
    "0 \<le> ss_resolution_switches s" "ss_resolution_switches s + int (length xs) < 2 ^ 31" "ss_prev_resolution_height s = Some p"
  shows "ss_rebuffer_transitions (apply_all s xs) = ss_rebuffer_transitions s + int (stalls_from (ss_prev_is_rebuffering s) (map fst xs)) \<and>
    ss_resolution_switches (apply_all s xs) = ss_resolution_switches s + int (switches_from p (map fst xs))"
  using assms
proof (induction xs arbitrary: s p)
  case (Cons x xs)
  obtain h t where x: "x = (h, t)" by (cases x)
  show ?case
    using Cons.IH [of "session_apply s h t" "hb_current_resolution_height h"] Cons.prems
    by (auto simp: x session_apply_def Let_def i32_saturating_add_def)
qed simp

lemma apply_all_peak:
  "ss_peak_resolution_height (apply_all s xs) = fold max (map (hb_current_resolution_height \<circ> fst) xs) (ss_peak_resolution_height s)"
  by (induction xs arbitrary: s) (auto simp: session_apply_def Let_def max_def split: if_splits)

lemma apply_all_startup:
  "ss_startup_completed (apply_all s xs) \<longleftrightarrow> ss_startup_completed s \<or> (\<exists>h \<in> set (map fst xs). \<not> hb_is_startup h)"
  by (induction xs arbitrary: s) (auto simp: session_apply_def Let_def)

lemma run_state_metrics:
  assumes "length r < 2 ^ 31" "r \<noteq> []" "small_bitrates (map fst r)"
  shows "ss_heartbeat_count (run_state r) = int (length r)"
    "ss_bitrate_sum (run_state r) = sum_list (map (hb_current_bitrate_kbps \<circ> fst) r)"
    "ss_rebuffer_transitions (run_state r) = int (stalls_from False (map fst r))"
    "ss_resolution_switches (run_state r) = int (switches_from (hb_current_resolution_height (fst (hd r))) (map fst (tl r)))"
    "ss_peak_resolution_height (run_state r) = fold max (map (hb_current_resolution_height \<circ> fst) r) 0"
    "ss_startup_completed (run_state r) \<longleftrightarrow> (\<exists>h \<in> set (map fst r). \<not> hb_is_startup h)"
    "ss_first_timestamp (run_state r) = snd (hd r)"
proof -
  obtain h t xs where r: "r = (h, t) # xs" using assms(2) by (metis list.exhaust prod.exhaust)
  let ?s = "session_open h t"
  have h: "hb_current_bitrate_kbps h \<in> {0..200000}" "small_bitrates (map fst xs)" using assms(3) by (auto simp: small_bitrates_def r)
  have len: "int (length xs) < 2 ^ 31 - 1" using assms(1) by (simp add: r)
  have open_s: "ss_heartbeat_count ?s = 1" "ss_bitrate_sum ?s = hb_current_bitrate_kbps h" "ss_prev_resolution_height ?s = Some (hb_current_resolution_height h)"
    "ss_rebuffer_transitions ?s = (if hb_is_rebuffering h then 1 else 0)" "ss_resolution_switches ?s = 0" "ss_prev_is_rebuffering ?s = hb_is_rebuffering h"
    "ss_peak_resolution_height ?s = max (hb_current_resolution_height h) 0" "ss_startup_completed ?s = (\<not> hb_is_startup h)" "ss_first_timestamp ?s = t"
    by (simp_all add: session_open_def)
  have counts: "ss_heartbeat_count (apply_all ?s xs) = 1 + int (length xs) \<and>
    ss_bitrate_sum (apply_all ?s xs) = hb_current_bitrate_kbps h + sum_list (map (hb_current_bitrate_kbps \<circ> fst) xs)"
    using apply_all_counts [of ?s xs] h len by (simp add: open_s)
  then show "ss_heartbeat_count (run_state r) = int (length r)" "ss_bitrate_sum (run_state r) = sum_list (map (hb_current_bitrate_kbps \<circ> fst) r)"
    by (simp_all add: r)
  have events: "ss_rebuffer_transitions (apply_all ?s xs) = (if hb_is_rebuffering h then 1 else 0) + int (stalls_from (hb_is_rebuffering h) (map fst xs)) \<and>
    ss_resolution_switches (apply_all ?s xs) = int (switches_from (hb_current_resolution_height h) (map fst xs))"
    using apply_all_events [of ?s xs "hb_current_resolution_height h"] len by (simp add: open_s)
  then show "ss_rebuffer_transitions (run_state r) = int (stalls_from False (map fst r))"
    "ss_resolution_switches (run_state r) = int (switches_from (hb_current_resolution_height (fst (hd r))) (map fst (tl r)))"
    by (simp_all add: r)
  show "ss_peak_resolution_height (run_state r) = fold max (map (hb_current_resolution_height \<circ> fst) r) 0"
    by (simp add: r apply_all_peak open_s max.commute)
  show "ss_startup_completed (run_state r) \<longleftrightarrow> (\<exists>h \<in> set (map fst r). \<not> hb_is_startup h)"
    using apply_all_startup [of ?s xs] by (auto simp: r open_s)
  have "ss_first_timestamp (apply_all s xs) = ss_first_timestamp s" for s :: session_state
    by (induction xs arbitrary: s) (auto simp: session_apply_def Let_def)
  then show "ss_first_timestamp (run_state r) = snd (hd r)" by (simp add: r open_s)
qed

lemma fold_max_Max: "xs \<noteq> [] \<Longrightarrow> \<forall>x \<in> set xs. 0 \<le> x \<Longrightarrow> fold max xs (0 :: int) = Max (set xs)"
  by (metis Max.set_eq_fold Max_insert List.finite_set Max_ge_iff list.set_intros(1) list.simps(15) max.absorb2 neq_Nil_conv set_empty)

lemma mean_range:
  assumes "small_bitrates hs" "hs \<noteq> []"
  defines "q \<equiv> sum_list (map hb_current_bitrate_kbps hs) div int (length hs)"
  shows "0 \<le> q \<and> q \<le> 200000"
proof -
  have n: "0 < int (length hs)" using assms(2) by simp
  have "0 \<le> sum_list (map hb_current_bitrate_kbps hs)" "sum_list (map hb_current_bitrate_kbps hs) \<le> 200000 * int (length hs)"
    using bitrate_sum_bound [OF assms(1)] by auto
  then show ?thesis
    unfolding q_def using n zdiv_mono1 [of "sum_list (map hb_current_bitrate_kbps hs)" "200000 * int (length hs)" "int (length hs)"]
    by (auto simp: pos_imp_zdiv_nonneg_iff)
qed

lemma finalize_metrics:
  assumes "finalize s k i = Ok ev" "qe_metrics ev = Some m" "0 < ss_heartbeat_count s"
  shows "pb_avg_bitrate_kbps m = clamp 0 200000 (as_i32 (div_trunc (ss_bitrate_sum s) (ss_heartbeat_count s)))"
    "pb_rebuffer_count m = clamp 0 10000 (ss_rebuffer_transitions s)" "pb_resolution_switches m = clamp 0 10000 (ss_resolution_switches s)"
    "pb_peak_resolution_height m = clamp 0 8640 (ss_peak_resolution_height s)" "pb_ebvs_detected m = (\<not> ss_startup_completed s)"
    "pb_startup_failure_rate m = (if ss_startup_completed s then Fin 0 else Fin 1)"
    "pb_playback_duration_ms m = min (max (num_milliseconds (ss_last_timestamp s - ss_first_timestamp s)) 0) 86400000"
  using assms
  by (auto simp: finalize_def Let_def obind_Ok_iff max_avg_bitrate_kbps_def max_rebuffer_count_def max_resolution_switches_def
      max_peak_resolution_height_def max_playback_duration_ms_def)

lemma clamp_nat: "0 \<le> hi \<Longrightarrow> clamp 0 hi (int n) = min hi (int n)"
  by (auto simp: clamp_def)

lemma clamp_inside: "v \<in> {lo..hi} \<Longrightarrow> clamp lo hi v = v"
  by (auto simp: clamp_def)

text \<open>
  The event of a session reports exactly the aggregates of its heartbeats: the mean bitrate rounded
  down, the number of stalls that began and of resolution changes (capped at ten thousand), the highest
  resolution, whether the player ever left start-up, and the milliseconds between the first and the last
  heartbeat (capped at one day). No sum or counter saturates for fewer than 2 to the power of 31 heartbeats.
\<close>

theorem session_metrics_exact:
  assumes "length r < 2 ^ 31" "r \<noteq> []" "snd (hd r) \<le> snd (List.last r)"
    and "\<forall>h \<in> set (map fst r). hb_current_bitrate_kbps h \<in> {0..200000} \<and> hb_current_resolution_height h \<in> {0..8640}"
    and "finalize (run_state r) k i = Ok ev" "qe_metrics ev = Some m"
  defines "hs \<equiv> map fst r"
  shows "pb_avg_bitrate_kbps m = sum_list (map hb_current_bitrate_kbps hs) div int (length hs) \<and>
    pb_rebuffer_count m = min 10000 (int (stalls_from False hs)) \<and>
    pb_resolution_switches m = min 10000 (int (switches_from (hb_current_resolution_height (hd hs)) (tl hs))) \<and>
    pb_peak_resolution_height m = Max (set (map hb_current_resolution_height hs)) \<and>
    pb_ebvs_detected m = (\<forall>h \<in> set hs. hb_is_startup h) \<and>
    pb_startup_failure_rate m = (if \<forall>h \<in> set hs. hb_is_startup h then Fin 1 else Fin 0) \<and>
    pb_playback_duration_ms m = min 86400000 ((snd (List.last r) - snd (hd r)) div 10 ^ 6)"
proof -
  have sb: "small_bitrates (map fst r)" using assms(4) by (auto simp: small_bitrates_def)
  note st = run_state_metrics [OF assms(1,2) sb]
  have hs: "hs \<noteq> []" using assms(2) by (simp add: hs_def)
  let ?mean = "sum_list (map hb_current_bitrate_kbps hs) div int (length hs)"
  have mean: "div_trunc (ss_bitrate_sum (run_state r)) (ss_heartbeat_count (run_state r)) = ?mean" "0 \<le> ?mean" "?mean \<le> 200000"
    using mean_range [OF sb] bitrate_sum_bound [OF sb] hs by (auto simp: st div_trunc_def hs_def)
  have peak: "ss_peak_resolution_height (run_state r) = Max (set (map hb_current_resolution_height hs))"
    "Max (set (map hb_current_resolution_height hs)) \<in> set (map hb_current_resolution_height hs)"
    using fold_max_Max [of "map hb_current_resolution_height hs"] assms(4) hs Max_in by (auto simp: st hs_def)
  have range: "Max (set (map hb_current_resolution_height hs)) \<in> {0..8640}" using peak(2) assms(4) by (auto simp: hs_def)
  have wide: "as_i32 ?mean = ?mean" using mean(2,3) by (simp add: as_i32_def)
  have span: "max (num_milliseconds (snd (List.last r) - snd (hd r))) 0 = (snd (List.last r) - snd (hd r)) div 10 ^ 6"
    using assms(3) by (simp add: num_milliseconds_def div_trunc_def pos_imp_zdiv_nonneg_iff)
  have "0 < ss_heartbeat_count (run_state r)" using assms(2) by (simp add: st)
  note m = finalize_metrics [OF assms(5,6) this]
  have "pb_avg_bitrate_kbps m = ?mean" unfolding m(1) mean(1) wide using mean(2,3) by (simp add: clamp_inside)
  moreover have "pb_rebuffer_count m = min 10000 (int (stalls_from False hs))" by (simp add: m(2) st(3) clamp_nat hs_def)
  moreover have "pb_resolution_switches m = min 10000 (int (switches_from (hb_current_resolution_height (hd hs)) (tl hs)))"
    using assms(2) by (simp add: m(3) st(4) clamp_nat hs_def hd_map map_tl)
  moreover have "pb_peak_resolution_height m = Max (set (map hb_current_resolution_height hs))"
    unfolding m(4) peak(1) using range by (rule clamp_inside)
  moreover have "pb_ebvs_detected m = (\<forall>h \<in> set hs. hb_is_startup h)" "pb_startup_failure_rate m = (if \<forall>h \<in> set hs. hb_is_startup h then Fin 1 else Fin 0)"
    by (auto simp: m(5,6) st(6) hs_def)
  moreover have "pb_playback_duration_ms m = min 86400000 ((snd (List.last r) - snd (hd r)) div 10 ^ 6)"
    by (simp add: m(7) st(7) run_state_last [OF assms(2)] span min.commute)
  ultimately show ?thesis by blast
qed

section \<open>Exit before video start\<close>

text \<open>A small clock and three heartbeats that never leave start-up.\<close>

definition startup_heartbeat :: "int \<Rightarrow> heartbeat_event" where
  "startup_heartbeat secs =
     \<lparr>hb_user_id = ''u'', hb_session_id = ''s'', hb_device_id = ''d'', hb_timestamp = Some \<lparr>ts_seconds = secs, ts_nanos = 0\<rparr>,
      hb_current_bitrate_kbps = 100, hb_current_resolution_height = 720, hb_buffer_health_seconds = Fin 1,
      hb_is_rebuffering = False, hb_is_startup = True, hb_content_id = ''c''\<rparr>"

definition sample_clock :: time_env where
  "sample_clock = \<lparr>te_now = 0, te_from_timestamp = (\<lambda>s n. if s \<in> {0..100} \<and> n \<in> {0..<10 ^ 9} then Some (s * 10 ^ 9 + n) else None)\<rparr>"

definition sample_calls :: "ingest_call list" where
  "sample_calls = [(sample_clock, ''a'', startup_heartbeat 0), (sample_clock, ''b'', startup_heartbeat 10), (sample_clock, ''c'', startup_heartbeat 60)]"

lemma sample_range: "chrono_range sample_clock"
proof -
  have "\<bar>s * 10 ^ 9 + n\<bar> < 2 ^ 73" if "s \<in> {0..100}" "n \<in> {0..<10 ^ 9}" for s n :: int
    using that by simp
  then show ?thesis by (simp add: chrono_range_def sample_clock_def)
qed

lemma sample_healthy: "healthy_calls sample_calls"
  by (simp add: healthy_calls_def sample_calls_def sample_range startup_heartbeat_def)

abbreviation sample_key :: session_key where
  "sample_key \<equiv> \<lparr>sk_user_id = ''u'', sk_device_id = ''d'', sk_content_id = ''c''\<rparr>"

definition sample_run :: "stamped list" where
  "sample_run = [(startup_heartbeat 0, 0), (startup_heartbeat 10, 10 * 10 ^ 9)]"

definition sample_metrics :: playback_metrics where
  "sample_metrics =
     \<lparr>pb_time_to_first_frame_ms = 0, pb_rebuffer_count = 0, pb_rebuffer_ratio = Fin 0, pb_avg_bitrate_kbps = 100, pb_resolution_switches = 0,
      pb_peak_resolution_height = 720, pb_startup_failure_rate = Fin 1, pb_playback_duration_ms = 10000, pb_ebvs_detected = True\<rparr>"

definition sample_qoe :: qoe_event where
  "sample_qoe = \<lparr>qe_event_id = ''c'', qe_session_id = ''s'', qe_content_id = ''c'', qe_user_id = ''u'', qe_metrics = Some sample_metrics,
     qe_timestamp = Some \<lparr>ts_seconds = 10, ts_nanos = 0\<rparr>\<rparr>"

lemma sample_finalize: "finalize (run_state sample_run) sample_key ''c'' = Ok sample_qoe"
proof -
  have "f64_round 0 = Fin 0" "f64_round 10000 = Fin 10000" using f64_round_of_int [of 0] f64_round_of_int [of 10000] by simp_all
  then show ?thesis
    by (simp add: finalize_def sample_run_def sample_qoe_def sample_metrics_def session_open_def session_apply_def startup_heartbeat_def Let_def
        rebuffer_ratio_def num_milliseconds_def div_trunc_def i64_saturating_add_def as_i32_def clamp_def f64_of_int_def assert_finite_def
        f64_clamp_def timestamp_of_def max_time_to_first_frame_ms_def max_playback_duration_ms_def max_rebuffer_count_def
        max_resolution_switches_def max_avg_bitrate_kbps_def max_peak_resolution_height_def)
qed

text \<open>
  The flag for an exit before video start does not follow the classification that the wire format
  documents: a session of two start-up heartbeats ten seconds apart is flagged although its playback
  duration is ten seconds, and the classifier says no.
\<close>

theorem ebvs_flag_diverges:
  "finalize (run_state sample_run) sample_key ''c'' = Ok sample_qoe \<and> qe_metrics sample_qoe = Some sample_metrics \<and>
   pb_ebvs_detected sample_metrics \<and> pb_playback_duration_ms sample_metrics = 10000 \<and>
   \<not> pb_ebvs_detected (set_ebvs_detected sample_metrics ebvs_default_threshold_ms)"
  using sample_finalize by (simp add: sample_qoe_def sample_metrics_def set_ebvs_detected_def classify_ebvs_def)

section \<open>Witnesses\<close>

lemma sample_ingest:
  "ingest_all sample_calls default_sessionizer =
     Ok ([(sample_key, sample_qoe)], default_sessionizer\<lparr>sz_sessions := [sample_key \<mapsto> session_open (startup_heartbeat 60) (60 * 10 ^ 9)]\<rparr>)"
proof -
  have key: "session_key_of (startup_heartbeat s) = sample_key" for s by (simp add: session_key_of_def startup_heartbeat_def)
  have valid: "obind (validate_heartbeat_event sample_clock (startup_heartbeat s)) (\<lambda>_. require_timestamp sample_clock (hb_timestamp (startup_heartbeat s)) ''timestamp'') = Ok (s * 10 ^ 9)"
    if "s \<in> {0..100}" for s
    using that by (simp add: validate_heartbeat_event_def require_timestamp_def startup_heartbeat_def sample_clock_def validate_required_def validate_range_def
        ensure_def assert_finite_def validate_timestamp_def Let_def)
  have run: "session_apply (session_open (startup_heartbeat 0) 0) (startup_heartbeat 10) 10000000000 = run_state sample_run" by (simp add: sample_run_def)
  have last_run: "ss_last_timestamp (run_state sample_run) = 10 * 10 ^ 9" by (simp add: sample_run_def)
  have z: "sz_sessions default_sessionizer = Map.empty" "sz_session_gap default_sessionizer = 30 * 10 ^ 9"
    by (simp_all add: default_sessionizer_def sessionizer_with_config_def default_session_gap_secs_def)
  show ?thesis
    using valid [of 0] valid [of 10] valid [of 60] sample_finalize
    by (simp add: sample_calls_def ingest_def Let_def key z continue_session_def run last_run)
qed

theorem sessions_are_maximal_runs_witness:
  "\<exists>evs z. ingest_all sample_calls (sessionizer_with_config (30 * 10 ^ 9)) = Ok (evs, z) \<and>
    (\<forall>k. \<exists>rs. runs_of (30 * 10 ^ 9) (accepted k sample_calls) rs \<and>
       list_all2 (\<lambda>r ev. \<exists>i. finalize (run_state r) k i = Ok ev) (butlast rs) (map snd (filter (\<lambda>(k', _). k' = k) evs)) \<and>
       sz_sessions z k = (if rs = [] then None else Some (run_state (List.last rs))))"
  by (rule sessions_are_maximal_runs [OF sample_healthy])

text \<open>Two heartbeats, a sweep that is too early, a sweep that ends the session, a heartbeat after it, and the drain.\<close>

definition sample_ops :: "sessionizer_op list" where
  "sample_ops = [Heartbeat sample_clock ''a'' (startup_heartbeat 0), Heartbeat sample_clock ''b'' (startup_heartbeat 10),
     Sweep [sample_key] [''y''] (40 * 10 ^ 9), Sweep [sample_key] [''c''] (41 * 10 ^ 9), Heartbeat sample_clock ''d'' (startup_heartbeat 60),
     Drain [sample_key] [''e'']]"

theorem emitted_events_validate_witness:
  "\<exists>evs z. run_ops sample_ops default_sessionizer = Ok (evs, z) \<and>
    (\<forall>env t. sample_qoe \<in> set evs \<and> require_timestamp env (qe_timestamp sample_qoe) ''timestamp'' = Ok t \<longrightarrow>
       validate_qoe_event env sample_qoe = Ok ())"
proof -
  have "list_all healthy_op sample_ops"
    by (simp add: sample_ops_def healthy_op_def sample_range startup_heartbeat_def)
  from emitted_events_validate [OF this, of "default_session_gap_secs * 10 ^ 9", folded default_sessionizer_def]
  show ?thesis by (auto simp: sample_qoe_def)
qed

theorem session_metrics_exact_witness: "pb_avg_bitrate_kbps sample_metrics = 100 \<and> pb_playback_duration_ms sample_metrics = 10000"
  using session_metrics_exact [OF _ _ _ _ sample_finalize, of sample_metrics]
  by (simp add: sample_run_def sample_qoe_def startup_heartbeat_def)

end
