(* ===== verification/Event_Dedup.thy ===== *)
theory Event_Dedup
  imports Float64
begin

text \<open>
  Deduplication of events (\<^verbatim>\<open>experimentation-ingest/src/dedup.rs\<close>): two Bloom filters, the current one and
  the one before the last rotation. The filters come from the bloomfilter crate and are a parameter;
  \<open>bloom_laws\<close> is what its documentation promises: an inserted item is always found again.

  Instants are nanoseconds of the monotonic clock.
\<close>

section \<open>Filters\<close>

record 'b bloom_ops =
  bl_new_for_fp_rate :: "nat \<Rightarrow> f64 \<Rightarrow> 'b"
  bl_check :: "'b \<Rightarrow> string \<Rightarrow> bool"
  bl_set :: "'b \<Rightarrow> string \<Rightarrow> 'b"

definition bloom_laws :: "'b bloom_ops \<Rightarrow> bool" where
  "bloom_laws ops \<longleftrightarrow>
     (\<forall>b x. bl_check ops (bl_set ops b x) x) \<and> (\<forall>b x y. bl_check ops b x \<longrightarrow> bl_check ops (bl_set ops b y) x)"

section \<open>The deduplicator\<close>

record dedup_metrics =
  dm_items_current :: int
  dm_items_previous :: int
  dm_rotations_total :: nat
  dm_duplicates_total :: nat

record dedup_config =
  dc_items_per_interval :: nat
  dc_fp_rate :: f64
  dc_rotation_interval_secs :: nat

definition default_dedup_config :: dedup_config where
  "default_dedup_config = \<lparr>dc_items_per_interval = 4166667, dc_fp_rate = f64_round (1 / 1000), dc_rotation_interval_secs = 3600\<rparr>"

definition dedup_config_from_daily :: "nat \<Rightarrow> f64 \<Rightarrow> dedup_config" where
  "dedup_config_from_daily expected_daily fp_rate =
     \<lparr>dc_items_per_interval = expected_daily div 24, dc_fp_rate = fp_rate, dc_rotation_interval_secs = 3600\<rparr>"

record 'b event_dedup =
  ed_current :: 'b
  ed_previous :: "'b option"
  ed_items_per_interval :: nat
  ed_fp_rate :: f64
  ed_rotation_interval_secs :: nat
  ed_last_rotation :: nat
  ed_current_count :: nat
  ed_previous_count :: nat
  ed_metrics :: dedup_metrics

definition event_dedup_with_config :: "'b bloom_ops \<Rightarrow> dedup_config \<Rightarrow> dedup_metrics \<Rightarrow> nat \<Rightarrow> 'b event_dedup" where
  "event_dedup_with_config ops config metrics now =
     \<lparr>ed_current = bl_new_for_fp_rate ops (dc_items_per_interval config) (dc_fp_rate config), ed_previous = None,
      ed_items_per_interval = dc_items_per_interval config, ed_fp_rate = dc_fp_rate config,
      ed_rotation_interval_secs = dc_rotation_interval_secs config, ed_last_rotation = now,
      ed_current_count = 0, ed_previous_count = 0, ed_metrics = metrics\<rparr>"

text \<open>\<^verbatim>\<open>EventDedup::new\<close>: the interval is \<^verbatim>\<open>u64::MAX\<close> seconds, so the filter never rotates.\<close>

definition event_dedup_new :: "'b bloom_ops \<Rightarrow> nat \<Rightarrow> f64 \<Rightarrow> nat \<Rightarrow> 'b event_dedup" where
  "event_dedup_new ops expected_items fp_rate now =
     event_dedup_with_config ops
       \<lparr>dc_items_per_interval = expected_items, dc_fp_rate = fp_rate, dc_rotation_interval_secs = 2 ^ 64 - 1\<rparr>
       \<lparr>dm_items_current = 0, dm_items_previous = 0, dm_rotations_total = 0, dm_duplicates_total = 0\<rparr> now"

definition rotate_filters :: "'b bloom_ops \<Rightarrow> nat \<Rightarrow> 'b event_dedup \<Rightarrow> 'b event_dedup" where
  "rotate_filters ops now d =
     d\<lparr>ed_previous := Some (ed_current d),
       ed_current := bl_new_for_fp_rate ops (ed_items_per_interval d) (ed_fp_rate d),
       ed_previous_count := ed_current_count d,
       ed_current_count := 0,
       ed_last_rotation := now,
       ed_metrics := (ed_metrics d)\<lparr>dm_rotations_total := dm_rotations_total (ed_metrics d) + 1, dm_items_current := 0,
                                    dm_items_previous := int (ed_current_count d)\<rparr>\<rparr>"

text \<open>\<^verbatim>\<open>elapsed().as_secs()\<close>: whole seconds, zero if the clock has not advanced.\<close>

definition elapsed_secs :: "nat \<Rightarrow> nat \<Rightarrow> nat" where
  "elapsed_secs now since = (now - since) div 10 ^ 9"

definition maybe_rotate :: "'b bloom_ops \<Rightarrow> nat \<Rightarrow> 'b event_dedup \<Rightarrow> 'b event_dedup" where
  "maybe_rotate ops now d =
     (if elapsed_secs now (ed_last_rotation d) \<ge> ed_rotation_interval_secs d then rotate_filters ops now d else d)"

definition insert_current :: "'b bloom_ops \<Rightarrow> string \<Rightarrow> 'b event_dedup \<Rightarrow> 'b event_dedup" where
  "insert_current ops event_id d =
     d\<lparr>ed_current := bl_set ops (ed_current d) event_id,
       ed_current_count := ed_current_count d + 1,
       ed_metrics := (ed_metrics d)\<lparr>dm_items_current := int (ed_current_count d + 1)\<rparr>\<rparr>"

definition count_duplicate :: "'b event_dedup \<Rightarrow> 'b event_dedup" where
  "count_duplicate d = d\<lparr>ed_metrics := (ed_metrics d)\<lparr>dm_duplicates_total := dm_duplicates_total (ed_metrics d) + 1\<rparr>\<rparr>"

definition is_duplicate :: "'b bloom_ops \<Rightarrow> nat \<Rightarrow> string \<Rightarrow> 'b event_dedup \<Rightarrow> bool \<times> 'b event_dedup" where
  "is_duplicate ops now event_id d0 =
     (let d = maybe_rotate ops now d0
      in if bl_check ops (ed_current d) event_id then (True, count_duplicate d)
         else case ed_previous d of
                Some prev \<Rightarrow>
                  if bl_check ops prev event_id then (True, count_duplicate (insert_current ops event_id d))
                  else (False, insert_current ops event_id d)
              | None \<Rightarrow> (False, insert_current ops event_id d))"

definition total_items :: "'b event_dedup \<Rightarrow> nat" where
  "total_items d = ed_current_count d + ed_previous_count d"

section \<open>What the filters remember\<close>

text \<open>A filter is in use since a moment \<open>t\<close> for an item: it is in the current filter, or the filters rotated only once since.\<close>

definition remembers :: "'b bloom_ops \<Rightarrow> nat \<Rightarrow> string \<Rightarrow> 'b event_dedup \<Rightarrow> bool" where
  "remembers ops t x d \<longleftrightarrow>
     bl_check ops (ed_current d) x \<or>
     (\<exists>p. ed_previous d = Some p \<and> bl_check ops p x \<and> t \<le> ed_last_rotation d)"

lemma is_duplicate_inserts:
  assumes "bloom_laws ops"
  shows "bl_check ops (ed_current (snd (is_duplicate ops now x d))) x"
  using assms by (auto simp: is_duplicate_def Let_def insert_current_def count_duplicate_def bloom_laws_def split: option.splits)

lemma maybe_rotate_remembers:
  assumes "remembers ops t x d" "t \<le> now" "now < t + ed_rotation_interval_secs d * 10 ^ 9"
  shows "remembers ops t x (maybe_rotate ops now d)"
proof (cases "elapsed_secs now (ed_last_rotation d) \<ge> ed_rotation_interval_secs d")
  case True
  have "bl_check ops (ed_current d) x"
  proof (rule ccontr)
    assume "\<not> ?thesis"
    then have "t \<le> ed_last_rotation d" using assms(1) by (auto simp: remembers_def)
    then have "now - ed_last_rotation d < ed_rotation_interval_secs d * 10 ^ 9" using assms(2,3) by linarith
    then show False using True by (simp add: elapsed_secs_def less_mult_imp_div_less not_le [symmetric])
  qed
  then show ?thesis using True assms(2) by (simp add: maybe_rotate_def rotate_filters_def remembers_def)
qed (use assms in \<open>simp add: maybe_rotate_def\<close>)

lemma is_duplicate_remembers:
  assumes "bloom_laws ops" "remembers ops t x d" "t \<le> now" "now < t + ed_rotation_interval_secs d * 10 ^ 9"
  shows "remembers ops t x (snd (is_duplicate ops now y d))"
  using maybe_rotate_remembers [OF assms(2-4)] assms(1)
  by (auto simp: is_duplicate_def Let_def remembers_def insert_current_def count_duplicate_def bloom_laws_def split: option.splits)

lemma remembered_is_duplicate:
  assumes "remembers ops t x d" "t \<le> now" "now < t + ed_rotation_interval_secs d * 10 ^ 9"
  shows "fst (is_duplicate ops now x d)"
  using maybe_rotate_remembers [OF assms] by (auto simp: is_duplicate_def Let_def remembers_def split: option.splits)

lemma interval_kept [simp]: "ed_rotation_interval_secs (snd (is_duplicate ops now x d)) = ed_rotation_interval_secs d"
  by (auto simp: is_duplicate_def Let_def insert_current_def count_duplicate_def maybe_rotate_def rotate_filters_def split: option.splits)

section \<open>Properties\<close>

text \<open>A sequence of checks, each at its instant.\<close>

fun checks :: "'b bloom_ops \<Rightarrow> (nat \<times> string) list \<Rightarrow> 'b event_dedup \<Rightarrow> 'b event_dedup" where
  "checks ops [] d = d"
| "checks ops ((now, x) # cs) d = checks ops cs (snd (is_duplicate ops now x d))"

lemma checks_remember:
  assumes "bloom_laws ops" "remembers ops t x d" "\<forall>(now, y) \<in> set cs. t \<le> now \<and> now < t + ed_rotation_interval_secs d * 10 ^ 9"
  shows "remembers ops t x (checks ops cs d)" "ed_rotation_interval_secs (checks ops cs d) = ed_rotation_interval_secs d"
  using assms by (induction ops cs d rule: checks.induct) (auto simp: is_duplicate_remembers)

text \<open>
  C23: No event slips through twice within one rotation interval: whatever other events are checked in
  between, and however often the filters rotate, a second check of the same identifier less than one
  interval after the first reports a duplicate. It needs nothing of the filters but that they find what
  was inserted.
\<close>

theorem repeats_within_interval_detected:
  assumes "bloom_laws ops" "is_duplicate ops t x d = (r, d1)"
    and "\<forall>(now, y) \<in> set cs. t \<le> now \<and> now < t + ed_rotation_interval_secs d * 10 ^ 9"
    and "t \<le> t'" "t' < t + ed_rotation_interval_secs d * 10 ^ 9"
  shows "fst (is_duplicate ops t' x (checks ops cs d1))"
proof -
  have d1: "d1 = snd (is_duplicate ops t x d)" using assms(2) by simp
  have i: "ed_rotation_interval_secs d1 = ed_rotation_interval_secs d" by (simp add: d1)
  have "remembers ops t x d1" using is_duplicate_inserts [OF assms(1)] by (simp add: d1 remembers_def)
  then show ?thesis
    using checks_remember [OF assms(1), of t x d1 cs] assms(3-5) i by (intro remembered_is_duplicate) auto
qed

definition set_filter :: "string set bloom_ops" where
  "set_filter = \<lparr>bl_new_for_fp_rate = (\<lambda>_ _. {}), bl_check = (\<lambda>b x. x \<in> b), bl_set = (\<lambda>b x. insert x b)\<rparr>"

lemma set_filter_laws: "bloom_laws set_filter"
  by (simp add: bloom_laws_def set_filter_def)

theorem repeats_within_interval_detected_witness:
  "fst (is_duplicate set_filter (3700 * 10 ^ 9) ''e''
     (checks set_filter [(3650 * 10 ^ 9, ''f'')] (snd (is_duplicate set_filter (3590 * 10 ^ 9) ''e''
       (event_dedup_with_config set_filter default_dedup_config
          \<lparr>dm_items_current = 0, dm_items_previous = 0, dm_rotations_total = 0, dm_duplicates_total = 0\<rparr> 0)))))"
  by (rule repeats_within_interval_detected [OF set_filter_laws surjective_pairing])
    (auto simp: event_dedup_with_config_def default_dedup_config_def)

end
