(* ===== verification/Disk_Buffer.thy ===== *)
theory Disk_Buffer
  imports Prelude
begin

text \<open>
  The disk buffer of the event pipeline (\<^verbatim>\<open>experimentation-pipeline/src/buffer.rs\<close>): a write-ahead log of
  length-prefixed entries that keeps the newest events below a size limit while Kafka is unreachable.

  The file is its list of bytes. Every group of system calls that can fail (an append, the read of the
  whole file, the rewrite of a compaction, the removal) consumes one entry of a script of faults; an
  append that fails may have written a part of its bytes.
\<close>

section \<open>Bytes\<close>

text \<open>\<^verbatim>\<open>u32::to_le_bytes\<close> of a length cast to 32 bits, and back.\<close>

definition u32_le_bytes :: "nat \<Rightarrow> string" where
  "u32_le_bytes n = [char_of n, char_of (n div 2 ^ 8), char_of (n div 2 ^ 16), char_of (n div 2 ^ 24)]"

definition u32_from_le_bytes :: "string \<Rightarrow> nat" where
  "u32_from_le_bytes bs = foldr (\<lambda>b n. of_char b + 2 ^ 8 * n) bs 0"

text \<open>\<^verbatim>\<open>String::from_utf8\<close>: the well-formed byte sequences of the Unicode standard.\<close>

definition continuation :: "char \<Rightarrow> bool" where
  "continuation c \<longleftrightarrow> 0x80 \<le> (of_char c :: nat) \<and> of_char c \<le> (0xBF :: nat)"

definition second_byte :: "nat \<Rightarrow> char \<Rightarrow> bool" where
  "second_byte a c \<longleftrightarrow>
     continuation c \<and> (a = 0xE0 \<longrightarrow> 0xA0 \<le> (of_char c :: nat)) \<and> (a = 0xED \<longrightarrow> of_char c \<le> (0x9F :: nat)) \<and>
     (a = 0xF0 \<longrightarrow> 0x90 \<le> (of_char c :: nat)) \<and> (a = 0xF4 \<longrightarrow> of_char c \<le> (0x8F :: nat))"

fun is_utf8 :: "string \<Rightarrow> bool" where
  "is_utf8 [] = True"
| "is_utf8 (a # s) =
     (let n = of_char a :: nat
      in if n < 0x80 then is_utf8 s
         else if 0xC2 \<le> n \<and> n \<le> 0xDF then (case s of b # s1 \<Rightarrow> continuation b \<and> is_utf8 s1 | _ \<Rightarrow> False)
         else if 0xE0 \<le> n \<and> n \<le> 0xEF then (case s of b # c # s2 \<Rightarrow> second_byte n b \<and> continuation c \<and> is_utf8 s2 | _ \<Rightarrow> False)
         else if 0xF0 \<le> n \<and> n \<le> 0xF4
         then (case s of b # c # d # s3 \<Rightarrow> second_byte n b \<and> continuation c \<and> continuation d \<and> is_utf8 s3 | _ \<Rightarrow> False)
         else False)"

section \<open>Entries\<close>

record buffered_event =
  be_topic :: string
  be_key :: string
  be_payload :: string

datatype io_error = UnexpectedEof | InvalidData | OtherIo string

definition serialize_entry :: "buffered_event \<Rightarrow> string" where
  "serialize_entry event =
     u32_le_bytes (length (be_topic event)) @ be_topic event @
     u32_le_bytes (length (be_key event)) @ be_key event @
     u32_le_bytes (length (be_payload event)) @ be_payload event"

definition read_exact :: "nat \<Rightarrow> string \<Rightarrow> (io_error, string \<times> string) outcome" where
  "read_exact n reader = (if length reader < n then Err UnexpectedEof else Ok (take n reader, drop n reader))"

definition from_utf8 :: "string \<Rightarrow> (io_error, string) outcome" where
  "from_utf8 bs = (if is_utf8 bs then Ok bs else Err InvalidData)"

text \<open>One field: its length, then its bytes.\<close>

definition read_field :: "string \<Rightarrow> (io_error, string \<times> string) outcome" where
  "read_field reader = obind (read_exact 4 reader) (\<lambda>(len_buf, reader). read_exact (u32_from_le_bytes len_buf) reader)"

definition deserialize_entry :: "string \<Rightarrow> (io_error, (buffered_event \<times> string) option) outcome" where
  "deserialize_entry reader =
     (case read_exact 4 reader of
        Err e \<Rightarrow> if e = UnexpectedEof then Ok None else Err e
      | Panic \<Rightarrow> Panic
      | Ok (len_buf, reader) \<Rightarrow>
          obind (read_exact (u32_from_le_bytes len_buf) reader) (\<lambda>(topic_buf, reader).
          obind (from_utf8 topic_buf) (\<lambda>topic.
          obind (read_field reader) (\<lambda>(key_buf, reader).
          obind (from_utf8 key_buf) (\<lambda>key.
          obind (read_field reader) (\<lambda>(payload, reader).
            Ok (Some (\<lparr>be_topic = topic, be_key = key, be_payload = payload\<rparr>, reader))))))))"

lemma read_exact_Ok: "read_exact n r = Ok (bs, r') \<longleftrightarrow> r = bs @ r' \<and> length bs = n"
  by (auto simp: read_exact_def)

lemma read_field_shrinks: "read_field r = Ok (bs, r') \<Longrightarrow> length r' < length r"
  by (auto simp: read_field_def obind_Ok_iff read_exact_Ok)

lemma deserialize_shrinks: "deserialize_entry r = Ok (Some (event, r')) \<Longrightarrow> length r' < length r"
  by (auto simp: deserialize_entry_def obind_Ok_iff read_exact_Ok split: outcome.splits if_splits dest!: read_field_shrinks)

text \<open>The loop of \<^verbatim>\<open>read_all\<close>: a truncated entry ends it, any other error is returned.\<close>

function read_entries :: "string \<Rightarrow> (io_error, buffered_event list) outcome" where
  "read_entries reader =
     (case deserialize_entry reader of
        Ok None \<Rightarrow> Ok []
      | Ok (Some (event, reader')) \<Rightarrow> obind (read_entries reader') (\<lambda>events. Ok (event # events))
      | Err e \<Rightarrow> if e = UnexpectedEof then Ok [] else Err e
      | Panic \<Rightarrow> Panic)"
  by pat_completeness auto

termination read_entries
  by (relation "measure length") (auto dest: deserialize_shrinks)

declare read_entries.simps [simp del]

section \<open>The buffer\<close>

datatype io_fault = Works | Fails io_error nat

record disk_buffer =
  bf_max_size_bytes :: nat
  bf_current_size :: nat
  bf_file :: "string option"
  bf_faults :: "io_fault list"

type_synonym 'a disk_op = "disk_buffer \<Rightarrow> (io_error, 'a) outcome \<times> disk_buffer"

definition next_fault :: "disk_buffer \<Rightarrow> io_fault \<times> disk_buffer" where
  "next_fault b = (case bf_faults b of [] \<Rightarrow> (Works, b) | f # fs \<Rightarrow> (f, b\<lparr>bf_faults := fs\<rparr>))"

definition file_bytes :: "disk_buffer \<Rightarrow> string" where
  "file_bytes b = unwrap_or [] (bf_file b)"

text \<open>\<^verbatim>\<open>DiskBuffer::new\<close> on a directory that may hold a file of an earlier run.\<close>

definition disk_buffer_new :: "nat \<Rightarrow> string option \<Rightarrow> io_fault list \<Rightarrow> disk_buffer" where
  "disk_buffer_new max_size existing faults =
     \<lparr>bf_max_size_bytes = max_size, bf_current_size = length (unwrap_or [] existing), bf_file = existing, bf_faults = faults\<rparr>"

definition read_all :: "buffered_event list disk_op" where
  "read_all b =
     (if bf_file b = None \<or> bf_current_size b = 0 then (Ok [], b)
      else case next_fault b of
             (Fails e _, b1) \<Rightarrow> (Err e, b1)
           | (Works, b1) \<Rightarrow> (read_entries (file_bytes b), b1))"

definition has_pending :: "disk_buffer \<Rightarrow> bool" where
  "has_pending b \<longleftrightarrow> 0 < bf_current_size b"

definition clear :: "unit disk_op" where
  "clear b =
     (if bf_file b = None then (Ok (), b\<lparr>bf_current_size := 0\<rparr>)
      else case next_fault b of
             (Fails e _, b1) \<Rightarrow> (Err e, b1)
           | (Works, b1) \<Rightarrow> (Ok (), b1\<lparr>bf_file := None, bf_current_size := 0\<rparr>))"

text \<open>The scan from the newest entry: the entries that fit, oldest first, and their size.\<close>

fun keep_newest :: "nat \<Rightarrow> buffered_event list \<Rightarrow> nat \<Rightarrow> buffered_event list \<Rightarrow> buffered_event list \<times> nat" where
  "keep_newest target [] kept_size kept = (kept, kept_size)"
| "keep_newest target (event # older) kept_size kept =
     (let entry_size = length (serialize_entry event)
      in if target < kept_size + entry_size then (kept, kept_size)
         else keep_newest target older (kept_size + entry_size) (event # kept))"

text \<open>The rewritten file replaces the old one by a rename, so a fault leaves the old one.\<close>

definition compact_buffer :: "nat \<Rightarrow> unit disk_op" where
  "compact_buffer needed_bytes b =
     (case read_all b of
        (Ok events, b1) \<Rightarrow>
          let target_size = bf_max_size_bytes b1 - needed_bytes;
              (kept, kept_size) = keep_newest target_size (rev events) 0 []
          in (case next_fault b1 of
                (Fails e _, b2) \<Rightarrow> (Err e, b2)
              | (Works, b2) \<Rightarrow> (Ok (), b2\<lparr>bf_file := Some (concat (map serialize_entry kept)), bf_current_size := kept_size\<rparr>))
      | (Err e, b1) \<Rightarrow> (Err e, b1)
      | (Panic, b1) \<Rightarrow> (Panic, b1))"

definition write_entry :: "string \<Rightarrow> unit disk_op" where
  "write_entry entry_bytes b =
     (case next_fault b of
        (Fails e n, b1) \<Rightarrow> (Err e, b1\<lparr>bf_file := Some (file_bytes b @ take n entry_bytes)\<rparr>)
      | (Works, b1) \<Rightarrow>
          (Ok (), b1\<lparr>bf_file := Some (file_bytes b @ entry_bytes), bf_current_size := bf_current_size b + length entry_bytes\<rparr>))"

definition append_event :: "buffered_event \<Rightarrow> unit disk_op" where
  "append_event event b =
     (let entry_bytes = serialize_entry event; entry_len = length entry_bytes
      in if bf_max_size_bytes b < entry_len then (Ok (), b)
         else if bf_max_size_bytes b < bf_current_size b + entry_len
         then (case compact_buffer entry_len b of
                 (Ok _, b1) \<Rightarrow> write_entry entry_bytes b1
               | (Err e, b1) \<Rightarrow> (Err e, b1)
               | (Panic, b1) \<Rightarrow> (Panic, b1))
         else write_entry entry_bytes b)"

section \<open>Reading back what was written\<close>

text \<open>The events the buffer can hold: topic and key are \<^verbatim>\<open>String\<close>s, and every length fits its 32-bit prefix.\<close>

definition storable :: "buffered_event \<Rightarrow> bool" where
  "storable e \<longleftrightarrow> is_utf8 (be_topic e) \<and> is_utf8 (be_key e) \<and>
     length (be_topic e) < 2 ^ 32 \<and> length (be_key e) < 2 ^ 32 \<and> length (be_payload e) < 2 ^ 32"

lemma length_u32_le_bytes [simp]: "length (u32_le_bytes n) = 4"
  by (simp add: u32_le_bytes_def)

lemma u32_bytes_roundtrip: "n < 2 ^ 32 \<Longrightarrow> u32_from_le_bytes (u32_le_bytes n) = n"
proof -
  assume n: "n < 2 ^ 32"
  have byte: "m mod 2 ^ 8 + 2 ^ 8 * (m div 2 ^ 8) = m" for m :: nat by (rule mod_mult_div_eq)
  have "n div 2 ^ 16 = n div 2 ^ 8 div 2 ^ 8" "n div 2 ^ 24 = n div 2 ^ 8 div 2 ^ 8 div 2 ^ 8" by (simp_all add: div_mult2_eq [symmetric])
  then have "n mod 2 ^ 8 + 2 ^ 8 * (n div 2 ^ 8 mod 2 ^ 8 + 2 ^ 8 * (n div 2 ^ 16 mod 2 ^ 8 + 2 ^ 8 * (n div 2 ^ 24))) = n"
    by (simp only: byte)
  moreover have "n div 2 ^ 24 mod 2 ^ 8 = n div 2 ^ 24" using n by (simp add: div_less_iff_less_mult)
  ultimately show ?thesis by (simp add: u32_from_le_bytes_def u32_le_bytes_def of_char_of)
qed

lemma read_exact_append: "length bs = n \<Longrightarrow> read_exact n (bs @ r) = Ok (bs, r)"
  by (simp add: read_exact_def)

lemma read_exact_short: "length r < n \<Longrightarrow> read_exact n r = Err UnexpectedEof"
  by (simp add: read_exact_def)

lemma read_field_append: "length bs < 2 ^ 32 \<Longrightarrow> read_field (u32_le_bytes (length bs) @ bs @ r) = Ok (bs, r)"
  by (simp add: read_field_def read_exact_append u32_bytes_roundtrip)

lemma entry_roundtrip:
  assumes "storable e"
  shows "deserialize_entry (serialize_entry e @ r) = Ok (Some (e, r))"
  using assms
  by (simp add: deserialize_entry_def serialize_entry_def storable_def read_exact_append u32_bytes_roundtrip read_field_append from_utf8_def)

text \<open>A reader at the end of the file, or inside an entry that was cut off, ends the loop.\<close>

definition ended :: "string \<Rightarrow> bool" where
  "ended r \<longleftrightarrow> deserialize_entry r = Ok None \<or> deserialize_entry r = Err UnexpectedEof"

lemma read_entries_written:
  "\<forall>e \<in> set es. storable e \<Longrightarrow> ended r \<Longrightarrow> read_entries (concat (map serialize_entry es) @ r) = Ok es"
proof (induction es)
  case Nil
  then show ?case by (auto simp: read_entries.simps [of r] ended_def)
next
  case (Cons e es)
  then show ?case
    by (simp add: read_entries.simps [of "serialize_entry e @ concat (map serialize_entry es) @ r"] entry_roundtrip)
qed

lemma read_field_torn:
  assumes "length bs < 2 ^ 32" "n < 4 + length bs"
  shows "read_field (take n (u32_le_bytes (length bs) @ bs)) = Err UnexpectedEof"
proof (cases "n < 4")
  case True
  then show ?thesis by (simp add: read_field_def read_exact_short)
next
  case False
  then have "take n (u32_le_bytes (length bs) @ bs) = u32_le_bytes (length bs) @ take (n - 4) bs" by simp
  then show ?thesis using assms False by (simp add: read_field_def read_exact_append u32_bytes_roundtrip read_exact_short)
qed

lemma from_utf8_Ok: "is_utf8 bs \<Longrightarrow> from_utf8 bs = Ok bs"
  by (simp add: from_utf8_def)

lemma ended_torn:
  assumes "storable e" "n < length (serialize_entry e)"
  shows "ended (take n (serialize_entry e))"
proof -
  let ?field = "\<lambda>bs. u32_le_bytes (length bs) @ bs"
  let ?t = "be_topic e" and ?k = "be_key e" and ?p = "be_payload e"
  have entry: "serialize_entry e = ?field ?t @ ?field ?k @ ?field ?p" by (simp add: serialize_entry_def)
  have ok: "is_utf8 ?t" "is_utf8 ?k" "length ?t < 2 ^ 32" "length ?k < 2 ^ 32" "length ?p < 2 ^ 32" using assms(1) by (auto simp: storable_def)
  note read = deserialize_entry_def read_exact_append u32_bytes_roundtrip [OF ok(3)] read_exact_short from_utf8_Ok ok(1,2) read_field_append [OF ok(4)]
  define a where "a = length (?field ?t)"
  define b where "b = length (?field ?k)"
  consider "n < 4" | "4 \<le> n" "n < a" | "a \<le> n" "n < a + b" | "a + b \<le> n" by linarith
  then show ?thesis
  proof cases
    case 1
    then show ?thesis by (simp add: ended_def read)
  next
    case 2
    then have "take n (serialize_entry e) = u32_le_bytes (length ?t) @ take (n - 4) ?t" by (simp add: entry a_def)
    then show ?thesis using 2 by (simp add: ended_def read a_def)
  next
    case 3
    then have "take n (serialize_entry e) = u32_le_bytes (length ?t) @ ?t @ take (n - a) (?field ?k)" by (simp add: entry a_def b_def)
    then show ?thesis using 3 read_field_torn [OF ok(4), of "n - a"] by (simp add: ended_def read a_def b_def)
  next
    case 4
    then have "take n (serialize_entry e) = u32_le_bytes (length ?t) @ ?t @ u32_le_bytes (length ?k) @ ?k @ take (n - (a + b)) (?field ?p)"
      by (simp add: entry a_def b_def add.assoc)
    moreover have "n - (a + b) < 4 + length ?p" using 4 assms(2) by (simp add: entry a_def b_def)
    ultimately show ?thesis using read_field_torn [OF ok(5), of "n - (a + b)"] by (simp add: ended_def read)
  qed
qed

lemma ended_Nil: "ended []"
  by (simp add: ended_def deserialize_entry_def read_exact_def)

section \<open>What the buffer holds\<close>

definition entries_size :: "buffered_event list \<Rightarrow> nat" where
  "entries_size es = length (concat (map serialize_entry es))"

text \<open>
  The abstract buffer is the list of its events, oldest first. A file holds the events \<open>es\<close> when it is
  their entries, with nothing after them.
\<close>

definition holds :: "disk_buffer \<Rightarrow> buffered_event list \<Rightarrow> bool" where
  "holds b es \<longleftrightarrow> (\<forall>e \<in> set es. storable e) \<and> file_bytes b = concat (map serialize_entry es) \<and> bf_current_size b = entries_size es"

text \<open>The newest events of a list that fit a size: its longest suffix that does.\<close>

definition newest_fitting :: "nat \<Rightarrow> buffered_event list \<Rightarrow> buffered_event list \<Rightarrow> bool" where
  "newest_fitting target es kept \<longleftrightarrow>
     (\<exists>dropped. es = dropped @ kept \<and> entries_size kept \<le> target \<and>
        (dropped \<noteq> [] \<longrightarrow> target < length (serialize_entry (List.last dropped)) + entries_size kept))"

lemma entries_size_simps [simp]:
  "entries_size [] = 0" "entries_size (e # es) = length (serialize_entry e) + entries_size es"
  "entries_size (es @ fs) = entries_size es + entries_size fs"
  by (simp_all add: entries_size_def)

lemma keep_newest_spec:
  "keep_newest target (rev es) kept_size kept = (kept', size') \<Longrightarrow> kept_size = entries_size kept \<Longrightarrow> kept_size \<le> target \<Longrightarrow>
   newest_fitting target (es @ kept) kept' \<and> size' = entries_size kept'"
proof (induction es arbitrary: kept_size kept rule: rev_induct)
  case Nil
  then show ?case by (auto simp: newest_fitting_def)
next
  case (snoc e es)
  show ?case
  proof (cases "target < kept_size + length (serialize_entry e)")
    case True
    then show ?thesis using snoc.prems by (auto simp: newest_fitting_def Let_def intro!: exI [of _ "es @ [e]"])
  next
    case False
    then show ?thesis using snoc.IH [of "kept_size + length (serialize_entry e)" "e # kept"] snoc.prems by (simp add: Let_def)
  qed
qed

lemma newest_fitting_subset: "newest_fitting target es kept \<Longrightarrow> set kept \<subseteq> set es"
  by (auto simp: newest_fitting_def)

lemma holds_read_all:
  assumes "holds b es" "bf_faults b = []"
  shows "read_all b = (Ok es, b)"
proof (cases "es = []")
  case True
  then show ?thesis using assms by (simp add: read_all_def holds_def)
next
  case False
  then obtain e es' where "es = e # es'" by (cases es) auto
  then have "0 < entries_size es" by (simp add: serialize_entry_def)
  moreover have "bf_file b = None \<Longrightarrow> entries_size es = 0" using assms(1) by (simp add: holds_def file_bytes_def entries_size_def)
  ultimately have "bf_file b \<noteq> None" "bf_current_size b \<noteq> 0" using assms(1) by (auto simp: holds_def)
  then show ?thesis
    using assms read_entries_written [of es "[]", OF _ ended_Nil]
    by (auto simp: read_all_def next_fault_def holds_def)
qed

lemma file_bytes_simps [simp]:
  "file_bytes (b\<lparr>bf_current_size := n\<rparr>) = file_bytes b" "file_bytes (b\<lparr>bf_faults := fs\<rparr>) = file_bytes b"
  "file_bytes (b\<lparr>bf_file := Some bs\<rparr>) = bs"
  by (simp_all add: file_bytes_def)

lemma compact_holds:
  assumes "holds b es" "bf_faults b = []"
  obtains kept b' where "compact_buffer n b = (Ok (), b')" "holds b' kept" "newest_fitting (bf_max_size_bytes b - n) es kept"
    "bf_faults b' = []" "bf_max_size_bytes b' = bf_max_size_bytes b"
proof -
  obtain kept sz where k: "keep_newest (bf_max_size_bytes b - n) (rev es) 0 [] = (kept, sz)" by (cases "keep_newest (bf_max_size_bytes b - n) (rev es) 0 []")
  have spec: "newest_fitting (bf_max_size_bytes b - n) es kept" "sz = entries_size kept" using keep_newest_spec [OF k] by simp_all
  let ?b = "b\<lparr>bf_file := Some (concat (map serialize_entry kept)), bf_current_size := sz\<rparr>"
  show ?thesis
  proof (rule that [of ?b kept])
    show "compact_buffer n b = (Ok (), ?b)"
      using k by (simp add: compact_buffer_def holds_read_all [OF assms] next_fault_def assms(2))
    show "holds ?b kept" using assms(1) spec newest_fitting_subset [OF spec(1)] by (auto simp: holds_def)
  qed (use spec assms in auto)
qed

section \<open>Properties\<close>

lemma append_newest:
  assumes "holds b es" "bf_faults b = []" "storable event" "length (serialize_entry event) \<le> bf_max_size_bytes b"
  shows "\<exists>kept b'. append_event event b = (Ok (), b') \<and> holds b' (kept @ [event]) \<and>
    newest_fitting (bf_max_size_bytes b - length (serialize_entry event)) es kept \<and>
    bf_current_size b' \<le> bf_max_size_bytes b \<and> read_all b' = (Ok (kept @ [event]), b')"
proof -
  let ?n = "length (serialize_entry event)" and ?max = "bf_max_size_bytes b"
  obtain kept b1 where b1: "append_event event b = write_entry (serialize_entry event) b1" "holds b1 kept"
    "newest_fitting (?max - ?n) es kept" "bf_faults b1 = []"
  proof (cases "?max < bf_current_size b + ?n")
    case True
    obtain kept b1 where "compact_buffer ?n b = (Ok (), b1)" "holds b1 kept" "newest_fitting (?max - ?n) es kept" "bf_faults b1 = []"
      by (rule compact_holds [OF assms(1,2)])
    then show ?thesis using True assms(4) by (intro that [of b1 kept]) (simp_all add: append_event_def Let_def)
  next
    case False
    have "newest_fitting (?max - ?n) es es" using False assms(1) by (auto simp: newest_fitting_def holds_def)
    then show ?thesis using False assms by (intro that [of b es]) (simp_all add: append_event_def Let_def)
  qed
  let ?b = "b1\<lparr>bf_file := Some (file_bytes b1 @ serialize_entry event), bf_current_size := bf_current_size b1 + ?n\<rparr>"
  have run: "append_event event b = (Ok (), ?b)" using b1 by (simp add: write_entry_def next_fault_def)
  have h: "holds ?b (kept @ [event])" using b1(2) assms(3) by (auto simp: holds_def)
  have "bf_current_size ?b \<le> ?max" using b1(2,3) assms(4) by (auto simp: holds_def newest_fitting_def)
  moreover have "read_all ?b = (Ok (kept @ [event]), ?b)" using h b1(4) by (intro holds_read_all) simp_all
  ultimately show ?thesis using run h b1(3) by blast
qed

text \<open>
  Appending an event to a healthy buffer keeps it healthy and within its size limit: the event is
  the newest entry, and of the older ones exactly the newest that still fit remain, all of them if there
  is room. Only an event that is larger than the whole buffer is not stored.
\<close>

theorem append_keeps_newest:
  assumes "holds b es" "bf_faults b = []" "storable event" "length (serialize_entry event) \<le> bf_max_size_bytes b"
  shows "\<exists>kept b'. append_event event b = (Ok (), b') \<and> holds b' (kept @ [event]) \<and>
    newest_fitting (bf_max_size_bytes b - length (serialize_entry event)) es kept \<and>
    bf_current_size b' \<le> bf_max_size_bytes b \<and> read_all b' = (Ok (kept @ [event]), b')"
  by (rule append_newest [OF assms])

text \<open>
  A crash in the middle of an append loses that entry only: after the restart the buffer reads back
  every event that was written before, whatever part of the new entry reached the disk.
\<close>

theorem torn_append_keeps_older:
  assumes "\<forall>e \<in> set es. storable e" "storable event" "n < length (serialize_entry event)"
    and "file = concat (map serialize_entry es) @ take n (serialize_entry event)"
  shows "fst (read_all (disk_buffer_new max_size (Some file) [])) = Ok es"
proof (cases "file = []")
  case True
  then have "es = []" using assms(4) by (cases es) (auto simp: serialize_entry_def u32_le_bytes_def)
  then show ?thesis using True by (simp add: read_all_def disk_buffer_new_def)
next
  case False
  then show ?thesis
    using read_entries_written [OF assms(1) ended_torn [OF assms(2,3)], folded assms(4)]
    by (simp add: read_all_def disk_buffer_new_def next_fault_def file_bytes_def)
qed

text \<open>
  The part of an entry that a crash or a failed write left behind is not cut off, so the events that
  are appended after it are lost: here the second event is acknowledged and written, and the buffer
  reads back as empty.
\<close>

theorem torn_append_hides_newer:
  "let e1 = \<lparr>be_topic = ''exposures'', be_key = ''k'', be_payload = ''p''\<rparr>;
       e2 = \<lparr>be_topic = ''exposures'', be_key = ''k2'', be_payload = ''q''\<rparr>;
       (r1, b1) = append_event e1 (disk_buffer_new 1000 None [Fails (OtherIo ''disk full'') 6]);
       (r2, b2) = append_event e2 b1
   in r1 = Err (OtherIo ''disk full'') \<and> r2 = Ok () \<and> fst (read_all b2) = Ok []"
  by (simp add: Let_def append_event_def disk_buffer_new_def write_entry_def next_fault_def serialize_entry_def u32_le_bytes_def file_bytes_def
    read_all_def read_entries.simps deserialize_entry_def read_exact_def u32_from_le_bytes_def from_utf8_def read_field_def)

section \<open>Witnesses\<close>

definition sample_event :: buffered_event where
  "sample_event = \<lparr>be_topic = ''exposures'', be_key = ''k'', be_payload = ''p''\<rparr>"

lemma sample_storable: "storable sample_event"
  by (simp add: storable_def sample_event_def Let_def)

lemma sample_length: "length (serialize_entry sample_event) = 23"
  by (simp add: serialize_entry_def sample_event_def)

theorem append_keeps_newest_witness:
  "\<exists>kept b'. append_event sample_event (disk_buffer_new 30 (Some (serialize_entry sample_event)) []) = (Ok (), b') \<and>
     holds b' (kept @ [sample_event]) \<and> newest_fitting 7 [sample_event] kept \<and> bf_current_size b' \<le> 30 \<and>
     read_all b' = (Ok (kept @ [sample_event]), b')"
proof -
  let ?b = "disk_buffer_new 30 (Some (serialize_entry sample_event)) []"
  have "holds ?b [sample_event]" by (simp add: holds_def disk_buffer_new_def file_bytes_def sample_storable)
  from append_keeps_newest [OF this _ sample_storable] show ?thesis by (simp add: disk_buffer_new_def sample_length)
qed

theorem torn_append_keeps_older_witness:
  "fst (read_all (disk_buffer_new 30 (Some (serialize_entry sample_event @ take 6 (serialize_entry sample_event))) [])) = Ok [sample_event]"
  by (rule torn_append_keeps_older [of _ sample_event 6]) (simp_all add: sample_storable sample_length)

end
