(* ===== verification/Ingestion_Service.thy ===== *)
theory Ingestion_Service
  imports Event_Validation Event_Dedup Disk_Buffer
begin

text \<open>
  The ingestion service of the event pipeline (\<^verbatim>\<open>experimentation-pipeline/src/service.rs\<close>) and its Kafka
  producer (\<^verbatim>\<open>kafka.rs\<close>): validate, deduplicate, publish; when the broker is unreachable the event goes to
  the disk buffer, which is replayed at start-up.

  What Kafka answers is a script of results, one per record. The protobuf encoding of events, the
  rendering of errors and the clocks are parameters. Latency histograms and the ingest-delay histogram
  are only observed and are left out; the event counters are modelled.
\<close>

section \<open>The producer\<close>

datatype kafka_error = MessageProductionQueueFull | OtherKafkaError string

datatype produce_error = QueueFull | Kafka string

record kafka_record =
  kr_topic :: string
  kr_key :: string
  kr_payload :: string
  kr_headers :: "(string \<times> string) list"

record producer =
  kp_results :: "kafka_error option list"
  kp_delivered :: "kafka_record list"

definition kafka_send :: "kafka_record \<Rightarrow> producer \<Rightarrow> kafka_error option \<times> producer" where
  "kafka_send rec p =
     (case kp_results p of
        [] \<Rightarrow> (None, p\<lparr>kp_delivered := kp_delivered p @ [rec]\<rparr>)
      | None # rs \<Rightarrow> (None, p\<lparr>kp_results := rs, kp_delivered := kp_delivered p @ [rec]\<rparr>)
      | Some e # rs \<Rightarrow> (Some e, p\<lparr>kp_results := rs\<rparr>))"

definition header_entry :: "string \<Rightarrow> string option \<Rightarrow> (string \<times> string) list" where
  "header_entry name v = (case v of None \<Rightarrow> [] | Some x \<Rightarrow> [(name, x)])"

definition publish_with_headers ::
  "nat \<Rightarrow> string \<Rightarrow> string \<Rightarrow> string \<Rightarrow> string option \<Rightarrow> string option \<Rightarrow> producer \<Rightarrow> (produce_error, unit) outcome \<times> producer" where
  "publish_with_headers epoch_ms topic key payload event_type traceparent p =
     (let headers = [(''x-ingest-ts-ms'', show_nat epoch_ms)] @ header_entry ''x-event-type'' event_type @ header_entry ''traceparent'' traceparent
      in case kafka_send \<lparr>kr_topic = topic, kr_key = key, kr_payload = payload, kr_headers = headers\<rparr> p of
           (None, p') \<Rightarrow> (Ok (), p')
         | (Some MessageProductionQueueFull, p') \<Rightarrow> (Err QueueFull, p')
         | (Some (OtherKafkaError msg), p') \<Rightarrow> (Err (Kafka msg), p'))"

definition publish_record :: "nat \<Rightarrow> string \<Rightarrow> string \<Rightarrow> string \<Rightarrow> producer \<Rightarrow> (produce_error, unit) outcome \<times> producer" where
  "publish_record epoch_ms topic key payload = publish_with_headers epoch_ms topic key payload None None"

fun is_broker_unreachable :: "produce_error \<Rightarrow> bool" where
  "is_broker_unreachable (Kafka _) = True"
| "is_broker_unreachable QueueFull = False"

section \<open>The service\<close>

record pipeline_counters =
  pc_accepted :: "string \<Rightarrow> nat"
  pc_rejected :: "string \<Rightarrow> nat"
  pc_deduplicated :: "string \<Rightarrow> nat"
  pc_backpressure :: "string \<Rightarrow> nat"

record 'b ingestion =
  ig_producer :: producer
  ig_dedup :: "'b event_dedup"
  ig_buffer :: disk_buffer
  ig_metrics :: pipeline_counters

text \<open>The moment of a request: the monotonic clock, the wall clock and its milliseconds.\<close>

record moment =
  mo_instant :: nat
  mo_clock :: time_env
  mo_epoch_ms :: nat

record 'b pipeline_env =
  pv_bloom :: "'b bloom_ops"
  pv_error_text :: "core_error \<Rightarrow> string"
  pv_encode_exposure :: "exposure_event \<Rightarrow> string"
  pv_encode_metric :: "metric_event \<Rightarrow> string"
  pv_encode_reward :: "reward_event \<Rightarrow> string"
  pv_encode_qoe :: "qoe_event \<Rightarrow> string"
  pv_encode_retraining :: "retraining_event \<Rightarrow> string"

definition map_validation_error :: "'b pipeline_env \<Rightarrow> core_error \<Rightarrow> status" where
  "map_validation_error env e = Status InvalidArgument (pv_error_text env e)"

text \<open>\<^verbatim>\<open>Code::ResourceExhausted\<close> is 8.\<close>

definition queue_full_status :: status where
  "queue_full_status = Status (OtherCode 8) ''Kafka producer queue full, retry later''"

definition bump :: "string \<Rightarrow> (string \<Rightarrow> nat) \<Rightarrow> string \<Rightarrow> nat" where
  "bump label f = f(label := f label + 1)"

definition buffer_event :: "string \<Rightarrow> string \<Rightarrow> string \<Rightarrow> 'b ingestion \<Rightarrow> 'b ingestion" where
  "buffer_event topic key payload svc =
     svc\<lparr>ig_buffer := snd (append_event \<lparr>be_topic = topic, be_key = key, be_payload = payload\<rparr> (ig_buffer svc))\<rparr>"

record event_request =
  er_event_id :: string
  er_event_type :: string
  er_topic :: string
  er_key :: string
  er_payload :: string
  er_validate :: "unit checked"
  er_traceparent :: "string option"

definition check_duplicate :: "'b pipeline_env \<Rightarrow> moment \<Rightarrow> string \<Rightarrow> 'b ingestion \<Rightarrow> bool \<times> 'b ingestion" where
  "check_duplicate env now event_id svc =
     (case is_duplicate (pv_bloom env) (mo_instant now) event_id (ig_dedup svc) of (dup, d) \<Rightarrow> (dup, svc\<lparr>ig_dedup := d\<rparr>))"

text \<open>The publishing half that \<^verbatim>\<open>process_event\<close> and \<^verbatim>\<open>process_batch_event\<close> share: \<open>Ok\<close> when the event was published or buffered.\<close>

definition publish_or_buffer :: "moment \<Rightarrow> event_request \<Rightarrow> 'b ingestion \<Rightarrow> (status, unit) outcome \<times> 'b ingestion" where
  "publish_or_buffer now rq svc =
     (case publish_with_headers (mo_epoch_ms now) (er_topic rq) (er_key rq) (er_payload rq) (Some (er_event_type rq)) (er_traceparent rq) (ig_producer svc) of
        (Ok _, p) \<Rightarrow>
          (Ok (), svc\<lparr>ig_producer := p, ig_metrics := (ig_metrics svc)\<lparr>pc_accepted := bump (er_event_type rq) (pc_accepted (ig_metrics svc))\<rparr>\<rparr>)
      | (Err QueueFull, p) \<Rightarrow>
          (Err queue_full_status,
           svc\<lparr>ig_producer := p, ig_metrics := (ig_metrics svc)\<lparr>pc_backpressure := bump (er_event_type rq) (pc_backpressure (ig_metrics svc))\<rparr>\<rparr>)
      | (Err (Kafka msg), p) \<Rightarrow>
          (Ok (), buffer_event (er_topic rq) (er_key rq) (er_payload rq)
             (svc\<lparr>ig_producer := p, ig_metrics := (ig_metrics svc)\<lparr>pc_accepted := bump (er_event_type rq) (pc_accepted (ig_metrics svc))\<rparr>\<rparr>))
      | (Panic, p) \<Rightarrow> (Panic, svc))"

definition process_event :: "'b pipeline_env \<Rightarrow> moment \<Rightarrow> event_request \<Rightarrow> 'b ingestion \<Rightarrow> (status, bool) outcome \<times> 'b ingestion" where
  "process_event env now rq svc =
     (case er_validate rq of
        Err e \<Rightarrow>
          (Err (map_validation_error env e),
           svc\<lparr>ig_metrics := (ig_metrics svc)\<lparr>pc_rejected := bump (er_event_type rq) (pc_rejected (ig_metrics svc))\<rparr>\<rparr>)
      | Panic \<Rightarrow> (Panic, svc)
      | Ok _ \<Rightarrow>
          (case check_duplicate env now (er_event_id rq) svc of
             (True, svc1) \<Rightarrow>
               (Ok False, svc1\<lparr>ig_metrics := (ig_metrics svc1)\<lparr>pc_deduplicated := bump (er_event_type rq) (pc_deduplicated (ig_metrics svc1))\<rparr>\<rparr>)
           | (False, svc1) \<Rightarrow>
               (case publish_or_buffer now rq svc1 of
                  (Ok _, svc2) \<Rightarrow> (Ok True, svc2)
                | (Err e, svc2) \<Rightarrow> (Err e, svc2)
                | (Panic, svc2) \<Rightarrow> (Panic, svc2))))"

definition process_batch_event ::
  "'b pipeline_env \<Rightarrow> moment \<Rightarrow> event_request \<Rightarrow> 'b ingestion \<Rightarrow> (status, i32 \<times> i32 \<times> i32) outcome \<times> 'b ingestion" where
  "process_batch_event env now rq svc =
     (case er_validate rq of
        Err e \<Rightarrow> (Ok (0, 0, 1), svc\<lparr>ig_metrics := (ig_metrics svc)\<lparr>pc_rejected := bump (er_event_type rq) (pc_rejected (ig_metrics svc))\<rparr>\<rparr>)
      | Panic \<Rightarrow> (Panic, svc)
      | Ok _ \<Rightarrow>
          (case check_duplicate env now (er_event_id rq) svc of
             (True, svc1) \<Rightarrow>
               (Ok (0, 1, 0), svc1\<lparr>ig_metrics := (ig_metrics svc1)\<lparr>pc_deduplicated := bump (er_event_type rq) (pc_deduplicated (ig_metrics svc1))\<rparr>\<rparr>)
           | (False, svc1) \<Rightarrow>
               (case publish_or_buffer now rq svc1 of
                  (Ok _, svc2) \<Rightarrow> (Ok (1, 0, 0), svc2)
                | (Err e, svc2) \<Rightarrow> (Err e, svc2)
                | (Panic, svc2) \<Rightarrow> (Panic, svc2))))"

record batch_response =
  br_accepted_count :: i32
  br_duplicate_count :: i32
  br_invalid_count :: i32

text \<open>The loop of the batch requests; every event has its own moment.\<close>

fun batch_loop ::
  "'b pipeline_env \<Rightarrow> (moment \<times> event_request) list \<Rightarrow> i32 \<Rightarrow> i32 \<Rightarrow> i32 \<Rightarrow> 'b ingestion \<Rightarrow> (status, batch_response) outcome \<times> 'b ingestion" where
  "batch_loop env [] accepted duplicate invalid svc =
     (Ok \<lparr>br_accepted_count = accepted, br_duplicate_count = duplicate, br_invalid_count = invalid\<rparr>, svc)"
| "batch_loop env ((now, rq) # rqs) accepted duplicate invalid svc =
     (case process_batch_event env now rq svc of
        (Ok (a, d, i), svc1) \<Rightarrow> batch_loop env rqs (accepted + a) (duplicate + d) (invalid + i) svc1
      | (Err e, svc1) \<Rightarrow> (Err e, svc1)
      | (Panic, svc1) \<Rightarrow> (Panic, svc1))"

section \<open>The requests\<close>

definition exposure_request :: "'b pipeline_env \<Rightarrow> moment \<Rightarrow> string option \<Rightarrow> exposure_event \<Rightarrow> event_request" where
  "exposure_request env now traceparent event =
     \<lparr>er_event_id = xe_event_id event, er_event_type = ''exposure'', er_topic = ''exposures'', er_key = xe_experiment_id event,
      er_payload = pv_encode_exposure env event, er_validate = validate_exposure (mo_clock now) event, er_traceparent = traceparent\<rparr>"

definition metric_request :: "'b pipeline_env \<Rightarrow> moment \<Rightarrow> string option \<Rightarrow> metric_event \<Rightarrow> event_request" where
  "metric_request env now traceparent event =
     \<lparr>er_event_id = me_event_id event, er_event_type = ''metric'', er_topic = ''metric_events'', er_key = me_user_id event,
      er_payload = pv_encode_metric env event, er_validate = validate_metric_event (mo_clock now) event, er_traceparent = traceparent\<rparr>"

definition reward_request :: "'b pipeline_env \<Rightarrow> moment \<Rightarrow> string option \<Rightarrow> reward_event \<Rightarrow> event_request" where
  "reward_request env now traceparent event =
     \<lparr>er_event_id = re_event_id event, er_event_type = ''reward'', er_topic = ''reward_events'', er_key = re_experiment_id event,
      er_payload = pv_encode_reward env event, er_validate = validate_reward_event (mo_clock now) event, er_traceparent = traceparent\<rparr>"

definition qoe_request :: "'b pipeline_env \<Rightarrow> moment \<Rightarrow> string option \<Rightarrow> qoe_event \<Rightarrow> event_request" where
  "qoe_request env now traceparent event =
     \<lparr>er_event_id = qe_event_id event, er_event_type = ''qoe'', er_topic = ''qoe_events'', er_key = qe_session_id event,
      er_payload = pv_encode_qoe env event, er_validate = validate_qoe_event (mo_clock now) event, er_traceparent = traceparent\<rparr>"

definition retraining_request :: "'b pipeline_env \<Rightarrow> moment \<Rightarrow> string option \<Rightarrow> retraining_event \<Rightarrow> event_request" where
  "retraining_request env now traceparent event =
     \<lparr>er_event_id = unwrap_or (rt_event_id event) (model_retraining_dedup_key event), er_event_type = ''model_retraining'',
      er_topic = ''model_retraining_events'', er_key = rt_model_id event, er_payload = pv_encode_retraining env event,
      er_validate = validate_model_retraining_event (mo_clock now) event, er_traceparent = traceparent\<rparr>"

definition ingest_one ::
  "'b pipeline_env \<Rightarrow> moment \<Rightarrow> ('e \<Rightarrow> event_request) \<Rightarrow> 'e option \<Rightarrow> 'b ingestion \<Rightarrow> (status, bool) outcome \<times> 'b ingestion" where
  "ingest_one env now request event svc =
     (case event of
        None \<Rightarrow> (Err (Status InvalidArgument ''event is required''), svc)
      | Some ev \<Rightarrow> process_event env now (request ev) svc)"

definition ingest_exposure where
  "ingest_exposure env now traceparent = ingest_one env now (exposure_request env now traceparent)"

definition ingest_metric_event where
  "ingest_metric_event env now traceparent = ingest_one env now (metric_request env now traceparent)"

definition ingest_reward_event where
  "ingest_reward_event env now traceparent = ingest_one env now (reward_request env now traceparent)"

definition ingest_qo_e_event where
  "ingest_qo_e_event env now traceparent = ingest_one env now (qoe_request env now traceparent)"

definition ingest_model_retraining_event where
  "ingest_model_retraining_event env now traceparent = ingest_one env now (retraining_request env now traceparent)"

definition ingest_exposure_batch where
  "ingest_exposure_batch env traceparent events =
     batch_loop env (map (\<lambda>(now, ev). (now, exposure_request env now traceparent ev)) events) 0 0 0"

definition ingest_metric_event_batch where
  "ingest_metric_event_batch env traceparent events =
     batch_loop env (map (\<lambda>(now, ev). (now, metric_request env now traceparent ev)) events) 0 0 0"

definition ingest_qo_e_event_batch where
  "ingest_qo_e_event_batch env traceparent events =
     batch_loop env (map (\<lambda>(now, ev). (now, qoe_request env now traceparent ev)) events) 0 0 0"

section \<open>Replay\<close>

text \<open>The loop over the buffered events: the number that failed, or \<open>None\<close> when the broker is still unreachable.\<close>

fun replay_loop :: "nat \<Rightarrow> buffered_event list \<Rightarrow> nat \<Rightarrow> producer \<Rightarrow> nat option \<times> producer" where
  "replay_loop epoch_ms [] failed p = (Some failed, p)"
| "replay_loop epoch_ms (event # events) failed p =
     (case publish_record epoch_ms (be_topic event) (be_key event) (be_payload event) p of
        (Err e, p1) \<Rightarrow> if is_broker_unreachable e then (None, p1) else replay_loop epoch_ms events (failed + 1) p1
      | (_, p1) \<Rightarrow> replay_loop epoch_ms events failed p1)"

definition replay_buffer :: "nat \<Rightarrow> 'b ingestion \<Rightarrow> 'b ingestion" where
  "replay_buffer epoch_ms svc =
     (if \<not> has_pending (ig_buffer svc) then svc
      else case read_all (ig_buffer svc) of
             (Ok events, b1) \<Rightarrow>
               (case replay_loop epoch_ms events 0 (ig_producer svc) of
                  (None, p) \<Rightarrow> svc\<lparr>ig_buffer := b1, ig_producer := p\<rparr>
                | (Some failed, p) \<Rightarrow>
                    svc\<lparr>ig_producer := p, ig_buffer := (if failed = 0 then snd (clear b1) else b1)\<rparr>)
           | (_, b1) \<Rightarrow> svc\<lparr>ig_buffer := b1\<rparr>)"

section \<open>The contract of the buffer\<close>

text \<open>
  What the service relies on: a log whose contents are a list of entries, with room for a total size; an
  entry that fits is appended at the end.
\<close>

locale event_log =
  fixes append :: "'e \<Rightarrow> 'l \<Rightarrow> (io_error, unit) outcome \<times> 'l"
    and contents :: "'l \<Rightarrow> 'e list \<Rightarrow> bool"
    and room :: "'l \<Rightarrow> nat"
    and cost :: "'e \<Rightarrow> nat"
    and fit_to_store :: "'e \<Rightarrow> bool"
  assumes append_fits: "contents l es \<Longrightarrow> fit_to_store e \<Longrightarrow> sum_list (map cost es) + cost e \<le> room l \<Longrightarrow>
      \<exists>l'. append e l = (Ok (), l') \<and> contents l' (es @ [e]) \<and> room l' = room l"
begin

lemma append_all:
  "contents l es \<Longrightarrow> \<forall>e \<in> set es'. fit_to_store e \<Longrightarrow> sum_list (map cost (es @ es')) \<le> room l \<Longrightarrow>
   contents (fold (\<lambda>e l. snd (append e l)) es' l) (es @ es')"
proof (induction es' arbitrary: l es)
  case (Cons e es')
  then obtain l' where "append e l = (Ok (), l')" "contents l' (es @ [e])" "room l' = room l"
    using append_fits [of l es e] by auto
  then show ?case using Cons.IH [of l' "es @ [e]"] Cons.prems by simp
qed simp

end

definition healthy_log :: "disk_buffer \<Rightarrow> buffered_event list \<Rightarrow> bool" where
  "healthy_log b es \<longleftrightarrow> holds b es \<and> bf_faults b = []"

lemma entries_size_sum: "entries_size es = sum_list (map (\<lambda>e. length (serialize_entry e)) es)"
  by (induction es) simp_all

interpretation disk_log: event_log append_event healthy_log bf_max_size_bytes "\<lambda>e. length (serialize_entry e)" storable
proof
  fix b es e
  assume h: "healthy_log b es" "storable e" "sum_list (map (\<lambda>e. length (serialize_entry e)) es) + length (serialize_entry e) \<le> bf_max_size_bytes b"
  let ?b = "b\<lparr>bf_file := Some (file_bytes b @ serialize_entry e), bf_current_size := bf_current_size b + length (serialize_entry e)\<rparr>"
  have "append_event e b = (Ok (), ?b)"
    using h by (simp add: append_event_def Let_def write_entry_def next_fault_def healthy_log_def holds_def entries_size_sum)
  moreover have "healthy_log ?b (es @ [e])" using h(1,2) by (auto simp: healthy_log_def holds_def)
  ultimately show "\<exists>b'. append_event e b = (Ok (), b') \<and> healthy_log b' (es @ [e]) \<and> bf_max_size_bytes b' = bf_max_size_bytes b" by simp
qed

section \<open>Publishing\<close>

definition buffered_of :: "event_request \<Rightarrow> buffered_event" where
  "buffered_of rq = \<lparr>be_topic = er_topic rq, be_key = er_key rq, be_payload = er_payload rq\<rparr>"

definition carries :: "buffered_event \<Rightarrow> kafka_record \<Rightarrow> bool" where
  "carries e rec \<longleftrightarrow> kr_topic rec = be_topic e \<and> kr_key rec = be_key e \<and> kr_payload rec = be_payload e"

lemma publish_cases:
  obtains (delivered) rec where "publish_with_headers ms topic key payload et tp p = (Ok (), p\<lparr>kp_results := tl (kp_results p), kp_delivered := kp_delivered p @ [rec]\<rparr>)"
      "kr_topic rec = topic" "kr_key rec = key" "kr_payload rec = payload" "kp_results p = [] \<or> hd (kp_results p) = None"
  | (full) "publish_with_headers ms topic key payload et tp p = (Err QueueFull, p\<lparr>kp_results := tl (kp_results p)\<rparr>)"
      "kp_results p \<noteq> []" "hd (kp_results p) = Some MessageProductionQueueFull"
  | (failed) msg where "publish_with_headers ms topic key payload et tp p = (Err (Kafka msg), p\<lparr>kp_results := tl (kp_results p)\<rparr>)"
      "kp_results p \<noteq> []" "hd (kp_results p) = Some (OtherKafkaError msg)"
proof -
  let ?rec = "\<lparr>kr_topic = topic, kr_key = key, kr_payload = payload,
    kr_headers = [(''x-ingest-ts-ms'', show_nat ms)] @ header_entry ''x-event-type'' et @ header_entry ''traceparent'' tp\<rparr>"
  show ?thesis
proof (cases "kp_results p")
  case Nil
  show ?thesis using Nil by (intro delivered [of ?rec]) (cases p; simp add: publish_with_headers_def kafka_send_def Let_def)+
next
  case (Cons r rs)
  then show ?thesis
  proof (cases r)
    case None
    then show ?thesis using Cons by (intro delivered [of ?rec]) (simp_all add: publish_with_headers_def kafka_send_def Let_def)
  next
    case (Some e)
    then show ?thesis using Cons
      by (cases e) (auto intro: full failed simp: publish_with_headers_def kafka_send_def Let_def)
  qed
qed
qed

lemma publish_or_buffer_cases:
  obtains (delivered) rec where "publish_or_buffer now rq svc = (Ok (), svc\<lparr>ig_producer := (ig_producer svc)\<lparr>kp_results := tl (kp_results (ig_producer svc)),
        kp_delivered := kp_delivered (ig_producer svc) @ [rec]\<rparr>, ig_metrics := (ig_metrics svc)\<lparr>pc_accepted := bump (er_event_type rq) (pc_accepted (ig_metrics svc))\<rparr>\<rparr>)"
      "carries (buffered_of rq) rec" "kp_results (ig_producer svc) = [] \<or> hd (kp_results (ig_producer svc)) = None"
  | (full) svc' where "publish_or_buffer now rq svc = (Err queue_full_status, svc')" "ig_dedup svc' = ig_dedup svc" "ig_buffer svc' = ig_buffer svc"
      "kp_delivered (ig_producer svc') = kp_delivered (ig_producer svc)"
      "kp_results (ig_producer svc) \<noteq> []" "hd (kp_results (ig_producer svc)) = Some MessageProductionQueueFull"
  | (failed) svc' msg where "publish_or_buffer now rq svc = (Ok (), svc')" "ig_dedup svc' = ig_dedup svc"
      "ig_buffer svc' = snd (append_event (buffered_of rq) (ig_buffer svc))"
      "ig_producer svc' = (ig_producer svc)\<lparr>kp_results := tl (kp_results (ig_producer svc))\<rparr>"
      "kp_results (ig_producer svc) \<noteq> []" "hd (kp_results (ig_producer svc)) = Some (OtherKafkaError msg)"
  by (cases rule: publish_cases [of "mo_epoch_ms now" "er_topic rq" "er_key rq" "er_payload rq" "Some (er_event_type rq)" "er_traceparent rq" "ig_producer svc"])
    (auto simp: publish_or_buffer_def carries_def buffer_event_def buffered_of_def intro!: that)

section \<open>Properties\<close>

text \<open>
  C20: What an acknowledgement is worth. When the service answers that it accepted an event, the event has been
  delivered to Kafka, or Kafka was unreachable and the event went to the disk buffer: if the buffer was intact, the disk works
  and the entry fits, it is the newest entry of the file, behind the newest of the older entries that fit beside it, and the file reads
  back with it; but an entry larger than the whole buffer is dropped, with the same answer.
\<close>

theorem acknowledged_event_safe:
  assumes "process_event env now rq svc = (Ok True, svc')"
  shows "(\<exists>rec. carries (buffered_of rq) rec \<and> kp_delivered (ig_producer svc') = kp_delivered (ig_producer svc) @ [rec] \<and>
      ig_buffer svc' = ig_buffer svc) \<or>
    kp_delivered (ig_producer svc') = kp_delivered (ig_producer svc) \<and>
    (if bf_max_size_bytes (ig_buffer svc) < length (serialize_entry (buffered_of rq)) then ig_buffer svc' = ig_buffer svc
     else \<forall>es. healthy_log (ig_buffer svc) es \<and> storable (buffered_of rq) \<longrightarrow>
       (\<exists>kept. newest_fitting (bf_max_size_bytes (ig_buffer svc) - length (serialize_entry (buffered_of rq))) es kept \<and>
          holds (ig_buffer svc') (kept @ [buffered_of rq]) \<and> fst (read_all (ig_buffer svc')) = Ok (kept @ [buffered_of rq])))"
proof -
  obtain d where d: "check_duplicate env now (er_event_id rq) svc = (False, svc\<lparr>ig_dedup := d\<rparr>)" "er_validate rq = Ok ()"
    using assms(1) by (auto simp: process_event_def check_duplicate_def split: outcome.splits prod.splits bool.splits)
  show ?thesis
  proof (cases rule: publish_or_buffer_cases [of now rq "svc\<lparr>ig_dedup := d\<rparr>"])
    case (delivered rec)
    then show ?thesis using assms(1) d by (auto simp: process_event_def)
  next
    case (full svc2)
    then show ?thesis using assms(1) d by (simp add: process_event_def)
  next
    case (failed svc2 msg)
    then have svc': "ig_buffer svc' = snd (append_event (buffered_of rq) (ig_buffer svc))" "ig_producer svc' = ig_producer svc2"
      using assms(1) d by (simp_all add: process_event_def)
    have "kp_delivered (ig_producer svc') = kp_delivered (ig_producer svc)" using failed(4) svc'(2) by simp
    moreover have "\<exists>kept. newest_fitting (bf_max_size_bytes (ig_buffer svc) - length (serialize_entry (buffered_of rq))) es kept \<and>
          holds (ig_buffer svc') (kept @ [buffered_of rq]) \<and> fst (read_all (ig_buffer svc')) = Ok (kept @ [buffered_of rq])"
      if "\<not> bf_max_size_bytes (ig_buffer svc) < length (serialize_entry (buffered_of rq))" "healthy_log (ig_buffer svc) es" "storable (buffered_of rq)" for es
      using append_newest [of "ig_buffer svc" es "buffered_of rq"] that svc'(1) by (auto simp: healthy_log_def)
    moreover have "ig_buffer svc' = ig_buffer svc" if "bf_max_size_bytes (ig_buffer svc) < length (serialize_entry (buffered_of rq))"
      using that svc'(1) by (simp add: append_event_def Let_def)
    ultimately show ?thesis by auto
  qed
qed

text \<open>A sequence of requests with their answers.\<close>

fun process_all :: "'b pipeline_env \<Rightarrow> (moment \<times> event_request) list \<Rightarrow> 'b ingestion \<Rightarrow> (status, bool) outcome list \<times> 'b ingestion" where
  "process_all env [] svc = ([], svc)"
| "process_all env ((now, rq) # rqs) svc =
     (let (r, svc1) = process_event env now rq svc; (rs, svc2) = process_all env rqs svc1 in (r # rs, svc2))"

lemma process_event_dedup:
  "ig_dedup (snd (process_event env now rq svc)) \<in>
     {ig_dedup svc, snd (is_duplicate (pv_bloom env) (mo_instant now) (er_event_id rq) (ig_dedup svc))}"
proof (cases "er_validate rq")
  case (Ok u)
  obtain dup d where d: "is_duplicate (pv_bloom env) (mo_instant now) (er_event_id rq) (ig_dedup svc) = (dup, d)" by fastforce
  have "ig_dedup (snd (publish_or_buffer now rq (svc\<lparr>ig_dedup := d\<rparr>))) = d"
    by (cases rule: publish_or_buffer_cases [of now rq "svc\<lparr>ig_dedup := d\<rparr>"]) simp_all
  then show ?thesis using Ok d
    by (cases dup) (auto simp: process_event_def check_duplicate_def split: prod.splits outcome.splits)
qed (simp_all add: process_event_def)

lemma process_all_remembers:
  assumes "bloom_laws (pv_bloom env)" "remembers (pv_bloom env) t x (ig_dedup svc)"
    and "\<forall>(now, rq) \<in> set rqs. t \<le> mo_instant now \<and> mo_instant now < t + ed_rotation_interval_secs (ig_dedup svc) * 10 ^ 9"
  shows "remembers (pv_bloom env) t x (ig_dedup (snd (process_all env rqs svc))) \<and>
    ed_rotation_interval_secs (ig_dedup (snd (process_all env rqs svc))) = ed_rotation_interval_secs (ig_dedup svc)"
  using assms(2,3)
proof (induction rqs arbitrary: svc)
  case (Cons c rqs)
  obtain now rq where c: "c = (now, rq)" by (cases c)
  let ?s = "snd (process_event env now rq svc)"
  have "t \<le> mo_instant now" "mo_instant now < t + ed_rotation_interval_secs (ig_dedup svc) * 10 ^ 9" using Cons.prems(2) c by auto
  then have "remembers (pv_bloom env) t x (ig_dedup ?s) \<and> ed_rotation_interval_secs (ig_dedup ?s) = ed_rotation_interval_secs (ig_dedup svc)"
    using process_event_dedup [of env now rq svc] is_duplicate_remembers [OF assms(1) Cons.prems(1)] Cons.prems(1) by auto
  then show ?case using Cons.IH [of ?s] Cons.prems(2) by (simp add: c case_prod_beta Let_def)
qed simp

text \<open>
  C27: An event that is refused because the producer queue is full is lost if the client does what it is
  told: the identifier is already in the filter, so every retry within the rotation interval, after any other
  requests, retries among them, is answered as a duplicate, without an error, and delivers and buffers nothing.
\<close>

theorem queue_full_retry_lost:
  assumes "bloom_laws (pv_bloom env)" "process_event env now rq svc = (Err queue_full_status, svc1)" "er_validate rq = Ok ()"
    and "process_all env rqs svc1 = (rs, svc2)"
    and "\<forall>(between, r) \<in> set ((later, rq') # rqs).
      mo_instant now \<le> mo_instant between \<and> mo_instant between < mo_instant now + ed_rotation_interval_secs (ig_dedup svc) * 10 ^ 9"
    and "er_event_id rq' = er_event_id rq" "er_validate rq' = Ok ()" "process_event env later rq' svc2 = (r', svc3)"
  shows "r' = Ok False \<and> ig_producer svc3 = ig_producer svc2 \<and> ig_buffer svc3 = ig_buffer svc2 \<and>
    kp_delivered (ig_producer svc1) = kp_delivered (ig_producer svc) \<and> ig_buffer svc1 = ig_buffer svc"
proof -
  let ?ops = "pv_bloom env" and ?x = "er_event_id rq"
  obtain d where d: "is_duplicate ?ops (mo_instant now) ?x (ig_dedup svc) = (False, d)"
    and pub: "publish_or_buffer now rq (svc\<lparr>ig_dedup := d\<rparr>) = (Err queue_full_status, svc1)"
    using assms(2,3) by (auto simp: process_event_def check_duplicate_def split: prod.splits bool.splits outcome.splits)
  have rest: "ig_dedup svc1 = d" "ig_buffer svc1 = ig_buffer svc" "kp_delivered (ig_producer svc1) = kp_delivered (ig_producer svc)"
    using pub by (cases rule: publish_or_buffer_cases [of now rq "svc\<lparr>ig_dedup := d\<rparr>"]; simp)+
  have interval: "ed_rotation_interval_secs d = ed_rotation_interval_secs (ig_dedup svc)"
    using interval_kept [of ?ops "mo_instant now" ?x "ig_dedup svc"] d by simp
  have "remembers ?ops (mo_instant now) ?x d" using is_duplicate_inserts [OF assms(1), of "mo_instant now" ?x "ig_dedup svc"] d by (simp add: remembers_def)
  then have "remembers ?ops (mo_instant now) ?x (ig_dedup svc2) \<and> ed_rotation_interval_secs (ig_dedup svc2) = ed_rotation_interval_secs (ig_dedup svc)"
    using process_all_remembers [OF assms(1), of "mo_instant now" ?x svc1 rqs] assms(4,5) rest(1) interval by auto
  then have "fst (is_duplicate ?ops (mo_instant later) ?x (ig_dedup svc2))" using assms(5) by (intro remembered_is_duplicate) auto
  then obtain d' where "is_duplicate ?ops (mo_instant later) ?x (ig_dedup svc2) = (True, d')" by (metis prod.collapse)
  then show ?thesis using rest assms(6-8) by (auto simp: process_event_def check_duplicate_def)
qed

section \<open>Replay and outages\<close>

lemma replay_loop_delivers:
  "replay_loop ms es f p = (r, p') \<Longrightarrow>
   \<exists>recs. kp_delivered p' = kp_delivered p @ recs \<and> (\<forall>n. r = Some n \<longrightarrow> f \<le> n) \<and> (r = Some f \<longrightarrow> list_all2 carries es recs)"
proof (induction es arbitrary: f p)
  case (Cons e es)
  show ?case
  proof (cases rule: publish_cases [of ms "be_topic e" "be_key e" "be_payload e" None None p])
    case (delivered rec)
    let ?p = "p\<lparr>kp_results := tl (kp_results p), kp_delivered := kp_delivered p @ [rec]\<rparr>"
    have "replay_loop ms es f ?p = (r, p')" using Cons.prems delivered(1) by (simp add: publish_record_def)
    from Cons.IH [OF this] obtain recs where "kp_delivered p' = kp_delivered p @ rec # recs" "\<forall>n. r = Some n \<longrightarrow> f \<le> n"
      "r = Some f \<longrightarrow> list_all2 carries es recs" by auto
    moreover have "carries e rec" using delivered(2-4) by (simp add: carries_def)
    ultimately show ?thesis by (intro exI [of _ "rec # recs"]) auto
  next
    case full
    then have "replay_loop ms es (f + 1) (p\<lparr>kp_results := tl (kp_results p)\<rparr>) = (r, p')" using Cons.prems by (simp add: publish_record_def)
    from Cons.IH [OF this] show ?thesis by fastforce
  next
    case (failed msg)
    then show ?thesis using Cons.prems by (auto simp: publish_record_def)
  qed
qed auto

lemma clear_healthy: "healthy_log b es \<Longrightarrow> healthy_log (snd (clear b)) []"
  by (auto simp: clear_def healthy_log_def holds_def next_fault_def file_bytes_def)

lemma replay_cases:
  assumes "healthy_log (ig_buffer svc) es"
  shows "\<exists>recs. kp_delivered (ig_producer (replay_buffer ms svc)) = kp_delivered (ig_producer svc) @ recs \<and>
    (healthy_log (ig_buffer (replay_buffer ms svc)) [] \<and> list_all2 carries es recs \<or> ig_buffer (replay_buffer ms svc) = ig_buffer svc)"
proof (cases "has_pending (ig_buffer svc)")
  case True
  have read: "read_all (ig_buffer svc) = (Ok es, ig_buffer svc)" using assms holds_read_all by (auto simp: healthy_log_def)
  obtain r p where loop: "replay_loop ms es 0 (ig_producer svc) = (r, p)" by (cases "replay_loop ms es 0 (ig_producer svc)")
  from replay_loop_delivers [OF this] True read loop show ?thesis
    using clear_healthy [OF assms] by (cases r) (auto simp: replay_buffer_def)
next
  case False
  then show ?thesis by (simp add: replay_buffer_def)
qed

lemma replay_loop_all:
  "kp_results p = [] \<Longrightarrow> \<exists>recs p'. replay_loop ms es f p = (Some f, p') \<and> kp_delivered p' = kp_delivered p @ recs \<and> list_all2 carries es recs"
proof -
  assume "kp_results p = []"
  then have "fst (replay_loop ms es f p) = Some f"
    by (induction es arbitrary: p) (auto simp: publish_record_def publish_with_headers_def kafka_send_def Let_def)
  then show ?thesis using replay_loop_delivers [of ms es f p "Some f" "snd (replay_loop ms es f p)"] by (metis prod.collapse)
qed

lemma replay_all_delivered:
  assumes "healthy_log (ig_buffer svc) es" "kp_results (ig_producer svc) = []"
  shows "\<exists>recs. kp_delivered (ig_producer (replay_buffer ms svc)) = kp_delivered (ig_producer svc) @ recs \<and> (es = [] \<or> list_all2 carries es recs)"
proof (cases "has_pending (ig_buffer svc)")
  case True
  have "read_all (ig_buffer svc) = (Ok es, ig_buffer svc)" using assms(1) holds_read_all by (auto simp: healthy_log_def)
  then show ?thesis using True replay_loop_all [OF assms(2), of ms es 0] by (auto simp: replay_buffer_def)
next
  case False
  then have "es = []" using assms(1) by (cases es) (auto simp: has_pending_def healthy_log_def holds_def serialize_entry_def)
  then show ?thesis using False by (simp add: replay_buffer_def)
qed

text \<open>
  Replay never discards an event it has not delivered: afterwards the buffer is empty and every
  buffered event has been delivered, in order, or the buffer is as it was before.
\<close>

theorem replay_at_least_once:
  assumes "healthy_log (ig_buffer svc) es"
  shows "\<exists>recs. kp_delivered (ig_producer (replay_buffer ms svc)) = kp_delivered (ig_producer svc) @ recs \<and>
    (healthy_log (ig_buffer (replay_buffer ms svc)) [] \<and> list_all2 carries es recs \<or> ig_buffer (replay_buffer ms svc) = ig_buffer svc)"
  by (rule replay_cases [OF assms])

text \<open>The restart of the process.\<close>

definition restart :: "'b event_dedup \<Rightarrow> producer \<Rightarrow> pipeline_counters \<Rightarrow> 'b ingestion \<Rightarrow> 'b ingestion" where
  "restart d p c svc =
     \<lparr>ig_producer = p, ig_dedup = d, ig_buffer = disk_buffer_new (bf_max_size_bytes (ig_buffer svc)) (bf_file (ig_buffer svc)) [], ig_metrics = c\<rparr>"

lemma process_event_buffer:
  assumes "process_event env now rq svc = (r, svc')" "healthy_log (ig_buffer svc) es" "storable (buffered_of rq)"
    "sum_list (map (\<lambda>e. length (serialize_entry e)) es) + length (serialize_entry (buffered_of rq)) \<le> bf_max_size_bytes (ig_buffer svc)"
  obtains new where "healthy_log (ig_buffer svc') (es @ new)" "new = [] \<or> new = [buffered_of rq]"
    "bf_max_size_bytes (ig_buffer svc') = bf_max_size_bytes (ig_buffer svc)" "set (kp_delivered (ig_producer svc)) \<subseteq> set (kp_delivered (ig_producer svc'))"
    "r = Ok True \<Longrightarrow> new = [buffered_of rq] \<or> (\<exists>rec \<in> set (kp_delivered (ig_producer svc')). carries (buffered_of rq) rec)"
proof (cases "er_validate rq = Ok () \<and> fst (check_duplicate env now (er_event_id rq) svc) = False")
  case False
  then have "r \<noteq> Ok True" "ig_buffer svc' = ig_buffer svc" "ig_producer svc' = ig_producer svc"
    using assms(1) by (auto simp: process_event_def check_duplicate_def split: outcome.splits prod.splits bool.splits)
  then show ?thesis using assms(2) by (intro that [of "[]"]) auto
next
  case True
  then obtain d where d: "check_duplicate env now (er_event_id rq) svc = (False, svc\<lparr>ig_dedup := d\<rparr>)" "er_validate rq = Ok ()"
    by (auto simp: check_duplicate_def split: prod.splits)
  show ?thesis
  proof (cases rule: publish_or_buffer_cases [of now rq "svc\<lparr>ig_dedup := d\<rparr>"])
    case (delivered rec)
    then show ?thesis using assms(1,2) d by (intro that [of "[]"]) (auto simp: process_event_def)
  next
    case (full svc2)
    then show ?thesis using assms(1,2) d by (intro that [of "[]"]) (auto simp: process_event_def)
  next
    case (failed svc2 msg)
    then have svc': "svc' = svc2" using assms(1) d by (simp add: process_event_def)
    obtain b where "append_event (buffered_of rq) (ig_buffer svc) = (Ok (), b)" "healthy_log b (es @ [buffered_of rq])"
      "bf_max_size_bytes b = bf_max_size_bytes (ig_buffer svc)" using disk_log.append_fits [OF assms(2,3,4)] by blast
    then show ?thesis using failed(3,4) svc' by (intro that [of "[buffered_of rq]"]) simp_all
  qed
qed

abbreviation entry_size :: "buffered_event \<Rightarrow> nat" where
  "entry_size e \<equiv> length (serialize_entry e)"

lemma process_all_safe:
  assumes "process_all env rqs svc = (rs, svc')" "healthy_log (ig_buffer svc) es"
    "\<forall>(now, rq) \<in> set rqs. storable (buffered_of rq)"
    "sum_list (map entry_size es) + sum_list (map (entry_size \<circ> buffered_of \<circ> snd) rqs) \<le> bf_max_size_bytes (ig_buffer svc)"
  shows "\<exists>buf. healthy_log (ig_buffer svc') (es @ buf) \<and> set (kp_delivered (ig_producer svc)) \<subseteq> set (kp_delivered (ig_producer svc')) \<and>
    length rs = length rqs \<and>
    (\<forall>i < length rqs. rs ! i = Ok True \<longrightarrow> buffered_of (snd (rqs ! i)) \<in> set buf \<or>
       (\<exists>rec \<in> set (kp_delivered (ig_producer svc')). carries (buffered_of (snd (rqs ! i))) rec))"
  using assms
proof (induction rqs arbitrary: svc rs es)
  case (Cons c rqs)
  obtain now rq where c: "c = (now, rq)" by (cases c)
  obtain r svc1 where r: "process_event env now rq svc = (r, svc1)" by (cases "process_event env now rq svc")
  obtain rs2 svc2 where rs2: "process_all env rqs svc1 = (rs2, svc2)" by (cases "process_all env rqs svc1")
  have rs: "rs = r # rs2" "svc' = svc2" using Cons.prems(1) r rs2 by (auto simp: c)
  obtain new where new: "healthy_log (ig_buffer svc1) (es @ new)" "new = [] \<or> new = [buffered_of rq]"
    "bf_max_size_bytes (ig_buffer svc1) = bf_max_size_bytes (ig_buffer svc)" "set (kp_delivered (ig_producer svc)) \<subseteq> set (kp_delivered (ig_producer svc1))"
    "r = Ok True \<Longrightarrow> new = [buffered_of rq] \<or> (\<exists>rec \<in> set (kp_delivered (ig_producer svc1)). carries (buffered_of rq) rec)"
    using process_event_buffer [OF r Cons.prems(2)] Cons.prems(3,4) by (auto simp: c)
  have "\<exists>buf. healthy_log (ig_buffer svc2) ((es @ new) @ buf) \<and> set (kp_delivered (ig_producer svc1)) \<subseteq> set (kp_delivered (ig_producer svc2)) \<and>
    length rs2 = length rqs \<and>
    (\<forall>i < length rqs. rs2 ! i = Ok True \<longrightarrow> buffered_of (snd (rqs ! i)) \<in> set buf \<or>
       (\<exists>rec \<in> set (kp_delivered (ig_producer svc2)). carries (buffered_of (snd (rqs ! i))) rec))"
    unfolding rs(2) [symmetric]
    by (rule Cons.IH [of svc1 rs2 "es @ new"]) (use Cons.prems(3,4) new(1-3) rs2 rs(2) in \<open>auto simp: c\<close>)
  then obtain buf where buf: "healthy_log (ig_buffer svc2) ((es @ new) @ buf)" "set (kp_delivered (ig_producer svc1)) \<subseteq> set (kp_delivered (ig_producer svc2))"
    "length rs2 = length rqs" "\<forall>i < length rqs. rs2 ! i = Ok True \<longrightarrow> buffered_of (snd (rqs ! i)) \<in> set buf \<or>
       (\<exists>rec \<in> set (kp_delivered (ig_producer svc2)). carries (buffered_of (snd (rqs ! i))) rec)" by blast
  have "buffered_of (snd ((c # rqs) ! i)) \<in> set (new @ buf) \<or>
       (\<exists>rec \<in> set (kp_delivered (ig_producer svc')). carries (buffered_of (snd ((c # rqs) ! i))) rec)"
    if "i < length (c # rqs)" "rs ! i = Ok True" for i
    using that new(5) buf rs by (cases i) (auto simp: c)
  then show ?case using buf new(4) rs by (intro exI [of _ "new @ buf"]) auto
qed (auto intro: exI [of _ "[]"])

text \<open>
  C21: An outage of Kafka loses nothing that was acknowledged, as long as the buffer has room: take any
  sequence of requests with one event each (a batch does what its events do one after the other), whatever Kafka answers to each of them, on a service whose disk works; restart the
  process at any later time and let the replay reach Kafka. Every event that was answered as accepted has
  then been delivered, before the restart or by the replay.
\<close>

theorem outage_loses_nothing:
  assumes "process_all env rqs svc = (rs, svc')" "healthy_log (ig_buffer svc) es"
    and "\<forall>(now, rq) \<in> set rqs. storable (buffered_of rq)"
    and "sum_list (map entry_size es) + sum_list (map (entry_size \<circ> buffered_of \<circ> snd) rqs) \<le> bf_max_size_bytes (ig_buffer svc)"
    and "kp_results p = []" "i < length rqs" "rs ! i = Ok True"
  shows "\<exists>rec \<in> set (kp_delivered (ig_producer svc')) \<union> set (kp_delivered (ig_producer (replay_buffer ms (restart d p c svc')))).
    carries (buffered_of (snd (rqs ! i))) rec"
proof -
  from process_all_safe [OF assms(1-4)] obtain buf where buf: "healthy_log (ig_buffer svc') (es @ buf)"
    "buffered_of (snd (rqs ! i)) \<in> set buf \<or> (\<exists>rec \<in> set (kp_delivered (ig_producer svc')). carries (buffered_of (snd (rqs ! i))) rec)"
    using assms(6,7) by blast
  let ?s = "restart d p c svc'"
  have s: "healthy_log (ig_buffer ?s) (es @ buf)" "ig_producer ?s = p"
    using buf(1) by (auto simp: restart_def disk_buffer_new_def healthy_log_def holds_def file_bytes_def entries_size_def)
  obtain recs where recs: "kp_delivered (ig_producer (replay_buffer ms ?s)) = kp_delivered p @ recs"
    "es @ buf = [] \<or> list_all2 carries (es @ buf) recs"
    using replay_all_delivered [OF s(1)] assms(5) s(2) by auto
  show ?thesis
    using buf(2)
  proof
    assume "buffered_of (snd (rqs ! i)) \<in> set buf"
    then have "buffered_of (snd (rqs ! i)) \<in> set (es @ buf)" "list_all2 carries (es @ buf) recs" using recs(2) by auto
    then obtain rec where "rec \<in> set recs" "carries (buffered_of (snd (rqs ! i))) rec" by (metis list_all2_conv_all_nth in_set_conv_nth)
    then show ?thesis using recs(1) by auto
  qed blast
qed

section \<open>Batches\<close>

definition rejected :: "event_request \<Rightarrow> bool" where
  "rejected rq \<longleftrightarrow> (\<exists>e. er_validate rq = Err e)"

text \<open>What a batch counts of an event, and what a request for the event alone answers.\<close>

lemma batch_event_single:
  assumes "process_batch_event env now rq svc = (Ok (a, d, i), svc')"
  obtains "(a, d, i) = (0, 0, 1)" "rejected rq" "process_event env now rq svc = (Err (map_validation_error env (case er_validate rq of Err e \<Rightarrow> e)), svc')"
  | "(a, d, i) = (1, 0, 0)" "\<not> rejected rq" "process_event env now rq svc = (Ok True, svc')"
  | "(a, d, i) = (0, 1, 0)" "\<not> rejected rq" "process_event env now rq svc = (Ok False, svc')"
proof (cases "er_validate rq")
  case (Err e)
  then show ?thesis using assms by (intro that(1)) (auto simp: process_batch_event_def process_event_def rejected_def)
next
  case (Ok u)
  show ?thesis
  proof (cases "check_duplicate env now (er_event_id rq) svc")
    case (Pair dup svc1)
    then show ?thesis using assms Ok that(2,3)
      by (cases dup) (auto simp: process_batch_event_def process_event_def rejected_def split: prod.splits outcome.splits)
  qed
qed (use assms in \<open>simp add: process_batch_event_def\<close>)

definition answered :: "(status, bool) outcome \<Rightarrow> (status, bool) outcome list \<Rightarrow> nat" where
  "answered r rs = length (filter (\<lambda>r'. r' = r) rs)"

lemma batch_loop_counts:
  assumes "batch_loop env rqs (of_nat a) (of_nat d) (of_nat i) svc = (Ok resp, svc')"
  shows "\<exists>rs. process_all env rqs svc = (rs, svc') \<and>
    resp = \<lparr>br_accepted_count = of_nat (a + answered (Ok True) rs), br_duplicate_count = of_nat (d + answered (Ok False) rs),
      br_invalid_count = of_nat (i + length (filter (rejected \<circ> snd) rqs))\<rparr> \<and>
    answered (Ok True) rs + answered (Ok False) rs + length (filter (rejected \<circ> snd) rqs) = length rqs"
  using assms
proof (induction rqs arbitrary: a d i svc)
  case Nil
  then show ?case by (simp add: answered_def)
next
  case (Cons c rqs)
  obtain now rq where c: "c = (now, rq)" by (cases c)
  obtain x y z svc1 where one: "process_batch_event env now rq svc = (Ok (x, y, z), svc1)"
    and loop: "batch_loop env rqs (of_nat a + x) (of_nat d + y) (of_nat i + z) svc1 = (Ok resp, svc')"
    using Cons.prems by (auto simp: c split: prod.splits outcome.splits)
  from one show ?case
  proof (cases rule: batch_event_single)
    case 1
    then show ?thesis using Cons.IH [of a d "Suc i" svc1] loop by (auto simp: c add.commute answered_def)
  next
    case 2
    then show ?thesis using Cons.IH [of "Suc a" d i svc1] loop by (auto simp: c add.commute answered_def)
  next
    case 3
    then show ?thesis using Cons.IH [of a "Suc d" i svc1] loop by (auto simp: c add.commute answered_def)
  qed
qed

text \<open>
  C22: A batch counts what single requests answer. When a batch of fewer than 2 to the power of 31 events succeeds, it leaves the service as
  the requests one by one would, and its counters are exact: accepted is the number of events that a single
  request would have answered as accepted, duplicate the number answered as duplicates, invalid the number that validation rejects, and
  every event is counted once.
\<close>

theorem batch_counts_exact:
  assumes "batch_loop env rqs 0 0 0 svc = (Ok resp, svc')" "length rqs < 2 ^ 31"
  shows "\<exists>rs. process_all env rqs svc = (rs, svc') \<and>
    sint (br_accepted_count resp) = int (answered (Ok True) rs) \<and> sint (br_duplicate_count resp) = int (answered (Ok False) rs) \<and>
    sint (br_invalid_count resp) = int (length (filter (rejected \<circ> snd) rqs)) \<and>
    answered (Ok True) rs + answered (Ok False) rs + length (filter (rejected \<circ> snd) rqs) = length rqs"
proof -
  from batch_loop_counts [of env rqs 0 0 0 svc resp svc'] assms(1) obtain rs where
    rs: "process_all env rqs svc = (rs, svc')"
    "resp = \<lparr>br_accepted_count = of_nat (answered (Ok True) rs), br_duplicate_count = of_nat (answered (Ok False) rs),
      br_invalid_count = of_nat (length (filter (rejected \<circ> snd) rqs))\<rparr>"
    "answered (Ok True) rs + answered (Ok False) rs + length (filter (rejected \<circ> snd) rqs) = length rqs" by auto
  have "answered (Ok True) rs < 2 ^ 31" "answered (Ok False) rs < 2 ^ 31" "length (filter (rejected \<circ> snd) rqs) < 2 ^ 31"
    using rs(3) assms(2) by linarith+
  then show ?thesis using rs by (intro exI [of _ rs]) (simp add: sint_i32_nat)
qed

section \<open>Witnesses\<close>

definition sample_request :: event_request where
  "sample_request = \<lparr>er_event_id = ''e1'', er_event_type = ''exposure'', er_topic = ''exposures'', er_key = ''k'', er_payload = ''p'',
     er_validate = Ok (), er_traceparent = None\<rparr>"

definition sample_pipeline :: "string set pipeline_env" where
  "sample_pipeline = \<lparr>pv_bloom = set_filter, pv_error_text = (\<lambda>_. []), pv_encode_exposure = (\<lambda>_. []), pv_encode_metric = (\<lambda>_. []),
     pv_encode_reward = (\<lambda>_. []), pv_encode_qoe = (\<lambda>_. []), pv_encode_retraining = (\<lambda>_. [])\<rparr>"

definition sample_moment :: "nat \<Rightarrow> moment" where
  "sample_moment t = \<lparr>mo_instant = t, mo_clock = \<lparr>te_now = 0, te_from_timestamp = (\<lambda>_ _. None)\<rparr>, mo_epoch_ms = 0\<rparr>"

definition sample_ingestion :: "kafka_error option list \<Rightarrow> string set ingestion" where
  "sample_ingestion results =
     \<lparr>ig_producer = \<lparr>kp_results = results, kp_delivered = []\<rparr>,
      ig_dedup = event_dedup_with_config set_filter default_dedup_config
        \<lparr>dm_items_current = 0, dm_items_previous = 0, dm_rotations_total = 0, dm_duplicates_total = 0\<rparr> 0,
      ig_buffer = disk_buffer_new 1000 None [],
      ig_metrics = \<lparr>pc_accepted = (\<lambda>_. 0), pc_rejected = (\<lambda>_. 0), pc_deduplicated = (\<lambda>_. 0), pc_backpressure = (\<lambda>_. 0)\<rparr>\<rparr>"

lemma sample_request_event: "buffered_of sample_request = sample_event"
  by (simp add: buffered_of_def sample_request_def sample_event_def)

lemma sample_healthy_log: "healthy_log (ig_buffer (sample_ingestion rs)) []"
  by (simp add: healthy_log_def holds_def sample_ingestion_def disk_buffer_new_def file_bytes_def)

lemma sample_buffer_room: "bf_max_size_bytes (ig_buffer (sample_ingestion rs)) = 1000"
  by (simp add: sample_ingestion_def disk_buffer_new_def)

lemma sample_not_duplicate: "fst (check_duplicate sample_pipeline (sample_moment 0) ''e1'' (sample_ingestion rs)) = False"
  by (simp add: check_duplicate_def is_duplicate_def sample_pipeline_def sample_moment_def sample_ingestion_def event_dedup_with_config_def
      default_dedup_config_def maybe_rotate_def elapsed_secs_def set_filter_def Let_def)

lemma sample_processed:
  "fst (process_event sample_pipeline (sample_moment 0) sample_request (sample_ingestion [Some (OtherKafkaError ''down'')])) = Ok True"
  "fst (process_event sample_pipeline (sample_moment 0) sample_request (sample_ingestion [Some MessageProductionQueueFull])) = Err queue_full_status"
  using sample_not_duplicate
  by (auto simp: process_event_def sample_request_def check_duplicate_def publish_or_buffer_def publish_with_headers_def kafka_send_def Let_def
      sample_ingestion_def split: prod.splits)

abbreviation down :: "string set ingestion" where
  "down \<equiv> sample_ingestion [Some (OtherKafkaError ''down'')]"

abbreviation sample_down :: "string set ingestion" where
  "sample_down \<equiv> snd (process_event sample_pipeline (sample_moment 0) sample_request down)"

lemma sample_down_run: "process_event sample_pipeline (sample_moment 0) sample_request down = (Ok True, sample_down)"
  using sample_processed(1) by (metis prod.collapse)

theorem acknowledged_event_safe_witness:
  "kp_delivered (ig_producer sample_down) = [] \<and> (\<exists>kept. fst (read_all (ig_buffer sample_down)) = Ok (kept @ [sample_event]))"
proof -
  have none: "kp_delivered (ig_producer down) = []" "ig_buffer down = ig_buffer (sample_ingestion [])" by (simp_all add: sample_ingestion_def)
  have "ig_dedup (snd (check_duplicate sample_pipeline (sample_moment 0) ''e1'' down)) = ig_dedup sample_down \<and> kp_delivered (ig_producer sample_down) = []"
    using sample_down_run sample_not_duplicate [of "[Some (OtherKafkaError ''down'')]"]
    by (auto simp: process_event_def sample_request_def check_duplicate_def publish_or_buffer_def publish_with_headers_def kafka_send_def Let_def
        sample_ingestion_def buffer_event_def split: prod.splits)
  then have "kp_delivered (ig_producer sample_down) = []" ..
  then show ?thesis
    using acknowledged_event_safe [OF sample_down_run] sample_storable sample_length sample_healthy_log
    by (auto simp: sample_request_event sample_buffer_room none)
qed

theorem queue_full_retry_lost_witness:
  "fst (process_event sample_pipeline (sample_moment (5 * 10 ^ 9)) sample_request (snd (process_all sample_pipeline
     [(sample_moment (4 * 10 ^ 9), sample_request)]
     (snd (process_event sample_pipeline (sample_moment 0) sample_request (sample_ingestion [Some MessageProductionQueueFull])))))) = Ok False"
proof -
  let ?s = "sample_ingestion [Some MessageProductionQueueFull]" and ?between = "[(sample_moment (4 * 10 ^ 9), sample_request)]"
  let ?s1 = "snd (process_event sample_pipeline (sample_moment 0) sample_request ?s)"
  have run: "process_event sample_pipeline (sample_moment 0) sample_request ?s = (Err queue_full_status, ?s1)"
    using sample_processed(2) by (metis prod.collapse)
  have laws: "bloom_laws (pv_bloom sample_pipeline)" "er_validate sample_request = Ok ()" "ed_rotation_interval_secs (ig_dedup ?s) = 3600"
    by (simp_all add: sample_pipeline_def set_filter_laws sample_request_def sample_ingestion_def event_dedup_with_config_def default_dedup_config_def)
  have "\<forall>(between, r) \<in> set ((sample_moment (5 * 10 ^ 9), sample_request) # ?between).
      mo_instant (sample_moment 0) \<le> mo_instant between \<and>
      mo_instant between < mo_instant (sample_moment 0) + ed_rotation_interval_secs (ig_dedup ?s) * 10 ^ 9"
    by (simp add: laws(3)) (simp add: sample_moment_def)
  from queue_full_retry_lost [OF laws(1) run laws(2) surjective_pairing this refl laws(2) surjective_pairing] show ?thesis by blast
qed

theorem replay_at_least_once_witness:
  "\<exists>recs. kp_delivered (ig_producer (replay_buffer 0 (sample_ingestion []))) = kp_delivered (ig_producer (sample_ingestion [])) @ recs \<and>
    (healthy_log (ig_buffer (replay_buffer 0 (sample_ingestion []))) [] \<and> list_all2 carries [] recs \<or>
     ig_buffer (replay_buffer 0 (sample_ingestion [])) = ig_buffer (sample_ingestion []))"
  by (rule replay_at_least_once [OF sample_healthy_log])

theorem outage_loses_nothing_witness:
  "\<exists>rec \<in> set (kp_delivered (ig_producer sample_down)) \<union>
      set (kp_delivered (ig_producer (replay_buffer 0 (restart (ig_dedup down) \<lparr>kp_results = [], kp_delivered = []\<rparr> (ig_metrics down) sample_down)))).
    carries sample_event rec"
proof -
  have "process_all sample_pipeline [(sample_moment 0, sample_request)] down = ([Ok True], sample_down)"
    by (simp add: split_def sample_processed(1))
  from outage_loses_nothing [OF this sample_healthy_log, of "\<lparr>kp_results = [], kp_delivered = []\<rparr>" 0] show ?thesis
    using sample_storable sample_length by (simp add: sample_request_event sample_buffer_room)
qed

theorem batch_counts_exact_witness:
  "\<exists>rs. process_all sample_pipeline [(sample_moment 0, sample_request\<lparr>er_validate := Err (Validation EmptyItemId)\<rparr>)] down = (rs, down\<lparr>ig_metrics :=
       (ig_metrics down)\<lparr>pc_rejected := bump ''exposure'' (pc_rejected (ig_metrics down))\<rparr>\<rparr>) \<and>
     answered (Ok True) rs = 0 \<and> answered (Ok False) rs = 0"
proof -
  let ?rq = "sample_request\<lparr>er_validate := Err (Validation EmptyItemId)\<rparr>"
  have "batch_loop sample_pipeline [(sample_moment 0, ?rq)] 0 0 0 down = (Ok \<lparr>br_accepted_count = 0, br_duplicate_count = 0, br_invalid_count = 1\<rparr>,
      down\<lparr>ig_metrics := (ig_metrics down)\<lparr>pc_rejected := bump ''exposure'' (pc_rejected (ig_metrics down))\<rparr>\<rparr>)"
    by (simp add: process_batch_event_def sample_request_def)
  from batch_counts_exact [OF this] show ?thesis by auto
qed

end
