(* ===== verification/Flags.thy ===== *)
theory Flags
  imports Hashing Rust_Text Json
begin

text \<open>
  Feature flags (M7, \<^verbatim>\<open>experimentation-flags\<close>): the flag and its variants, the wire messages and their
  conversions, the validation of a request and the evaluation of a flag for a user. The parsing of
  UUIDs, base64, the fixed-point rendering of a double and the table of printable characters are
  fields of \<open>flag_env\<close>.
\<close>

section \<open>Data\<close>

record flag_variant =
  fv_variant_id :: uuid
  fv_flag_id :: uuid
  fv_value :: string
  fv_traffic_fraction :: f64
  fv_ordinal :: int

record flag_row =
  fl_flag_id :: uuid
  fl_name :: string
  fl_description :: string
  fl_flag_type :: string
  fl_default_value :: string
  fl_enabled :: bool
  fl_rollout_percentage :: f64
  fl_salt :: string
  fl_targeting_rule_id :: "uuid option"
  fl_created_at :: int
  fl_updated_at :: int
  fl_promoted_experiment_id :: "uuid option"
  fl_promoted_at :: "int option"
  fl_resolved_at :: "int option"

record flag = flag_row +
  fl_variants :: "flag_variant list"

text \<open>\<^verbatim>\<open>Flag::from(row)\<close>: the columns, and no variants yet.\<close>

definition flag_of_row :: "flag_row \<Rightarrow> flag" where
  "flag_of_row r = flag_row.extend r (flag.fields [])"

record proto_flag_variant =
  pfv_variant_id :: string
  pfv_value :: string
  pfv_traffic_fraction :: f64

record proto_flag =
  pf_flag_id :: string
  pf_name :: string
  pf_description :: string
  pf_type :: int
  pf_default_value :: string
  pf_enabled :: bool
  pf_rollout_percentage :: f64
  pf_variants :: "proto_flag_variant list"
  pf_targeting_rule_id :: string
  pf_audience_rule_id :: string

record flag_env =
  fe_parse_uuid :: "string \<Rightarrow> uuid option"
  fe_b64_encode :: "string \<Rightarrow> string"
  fe_b64_decode :: "string \<Rightarrow> string option"
  fe_fixed6 :: "f64 \<Rightarrow> string"
  fe_wide :: "string \<Rightarrow> string"

text \<open>The nil UUID.\<close>

definition nil_uuid :: uuid where
  "nil_uuid = ''00000000-0000-0000-0000-000000000000''"

section \<open>Conversions\<close>

definition flag_type_to_str :: "int \<Rightarrow> string" where
  "flag_type_to_str t =
     (if t = 2 then ''STRING'' else if t = 3 then ''NUMERIC'' else if t = 4 then ''JSON'' else ''BOOLEAN'')"

definition str_to_flag_type :: "string \<Rightarrow> int" where
  "str_to_flag_type s =
     (if s = ''BOOLEAN'' then 1 else if s = ''STRING'' then 2 else if s = ''NUMERIC'' then 3 else if s = ''JSON'' then 4 else 0)"

definition flag_domain_to_proto :: "flag \<Rightarrow> proto_flag" where
  "flag_domain_to_proto f =
     \<lparr>pf_flag_id = fl_flag_id f, pf_name = fl_name f, pf_description = fl_description f,
      pf_type = str_to_flag_type (fl_flag_type f), pf_default_value = fl_default_value f, pf_enabled = fl_enabled f,
      pf_rollout_percentage = fl_rollout_percentage f,
      pf_variants = map (\<lambda>v. \<lparr>pfv_variant_id = fv_variant_id v, pfv_value = fv_value v, pfv_traffic_fraction = fv_traffic_fraction v\<rparr>)
        (fl_variants f),
      pf_targeting_rule_id = unwrap_or [] (fl_targeting_rule_id f), pf_audience_rule_id = []\<rparr>"

definition flag_proto_to_domain :: "flag_env \<Rightarrow> int \<Rightarrow> proto_flag \<Rightarrow> (status, flag) outcome" where
  "flag_proto_to_domain env now pb =
     obind (if pf_flag_id pb = [] then Ok nil_uuid
            else ok_or (Status InvalidArgument ''invalid flag_id UUID'') (fe_parse_uuid env (pf_flag_id pb))) (\<lambda>flag_id.
     obind (if pf_targeting_rule_id pb = [] then Ok None
            else obind (ok_or (Status InvalidArgument ''invalid targeting_rule_id UUID'') (fe_parse_uuid env (pf_targeting_rule_id pb)))
                   (\<lambda>u. Ok (Some u))) (\<lambda>targeting_rule_id.
       Ok \<lparr>fl_flag_id = flag_id, fl_name = pf_name pb, fl_description = pf_description pb,
           fl_flag_type = flag_type_to_str (pf_type pb), fl_default_value = pf_default_value pb, fl_enabled = pf_enabled pb,
           fl_rollout_percentage = pf_rollout_percentage pb, fl_salt = [], fl_targeting_rule_id = targeting_rule_id,
           fl_created_at = now, fl_updated_at = now, fl_promoted_experiment_id = None, fl_promoted_at = None, fl_resolved_at = None,
           fl_variants = map (\<lambda>v. \<lparr>fv_variant_id = nil_uuid, fv_flag_id = flag_id, fv_value = pfv_value v,
             fv_traffic_fraction = pfv_traffic_fraction v, fv_ordinal = 0\<rparr>) (pf_variants pb)\<rparr>))"

section \<open>Validation\<close>

definition outside_unit :: "f64 \<Rightarrow> bool" where
  "outside_unit x \<longleftrightarrow> f64_lt x (Fin 0) \<or> f64_lt (Fin 1) x"

definition fraction_sum :: "proto_flag_variant list \<Rightarrow> f64" where
  "fraction_sum vs = foldl f64_add (Fin 0) (map pfv_traffic_fraction vs)"

definition validate_flag :: "flag_env \<Rightarrow> proto_flag \<Rightarrow> (status, unit) outcome" where
  "validate_flag env pb =
     (let invalid = (\<lambda>msg. Err (Status InvalidArgument msg)) in
      if pf_audience_rule_id pb \<noteq> [] then invalid ''audience_rule_id is not supported yet; use targeting_rule_id (#822)''
      else if trim (pf_name pb) = [] then invalid ''name is required''
      else if pf_type pb = 0 then invalid ''type must be specified''
      else if outside_unit (pf_rollout_percentage pb) then invalid ''rollout_percentage must be between 0.0 and 1.0''
      else if pf_type pb = 1 \<and> pf_default_value pb \<noteq> ''true'' \<and> pf_default_value pb \<noteq> ''false''
      then invalid (''boolean flag default_value must be '' @ [CHR 0x22] @ ''true'' @ [CHR 0x22] @ '' or '' @ [CHR 0x22] @ ''false'' @ [CHR 0x22])
      else if pf_variants pb \<noteq> [] \<and> f64_lt (f64_round (1 / 1000)) (f64_abs (f64_sub (fraction_sum (pf_variants pb)) (Fin 1)))
      then invalid (''variant traffic_fractions must sum to 1.0 (got '' @ fe_fixed6 env (fraction_sum (pf_variants pb)) @ '')'')
      else if list_ex (\<lambda>v. outside_unit (pfv_traffic_fraction v)) (pf_variants pb)
      then invalid ''variant traffic_fraction must be between 0.0 and 1.0''
      else Ok ())"

section \<open>Evaluation\<close>

fun flag_variant_loop :: "f64 \<Rightarrow> f64 \<Rightarrow> flag_variant list \<Rightarrow> flag_variant option" where
  "flag_variant_loop bucket_fraction cumulative [] = None"
| "flag_variant_loop bucket_fraction cumulative (v # vs) =
     (let cumulative' = f64_add cumulative (fv_traffic_fraction v)
      in if f64_lt bucket_fraction cumulative' then Some v else flag_variant_loop bucket_fraction cumulative' vs)"

definition rollout_threshold :: "flag \<Rightarrow> u32" where
  "rollout_threshold f = f64_to_u32 (f64_mul (fl_rollout_percentage f) (Fin 10000))"

definition evaluate_flag :: "flag \<Rightarrow> string \<Rightarrow> ('e, string \<times> string) outcome" where
  "evaluate_flag f user_id =
     (if \<not> fl_enabled f then Ok (fl_default_value f, [])
      else obind (bucket user_id (fl_salt f) 10000) (\<lambda>b.
        if rollout_threshold f \<le> b then Ok (fl_default_value f, [])
        else if fl_variants f = []
        then if fl_flag_type f = ''BOOLEAN'' then Ok (''true'', []) else Ok (fl_default_value f, [])
        else case flag_variant_loop (f64_div (f64_of_u32 b) (Fin 10000)) (Fin 0) (fl_variants f) of
               Some v \<Rightarrow> Ok (fv_value v, fv_variant_id v)
             | None \<Rightarrow> Ok (fv_value (last (fl_variants f)), fv_variant_id (last (fl_variants f)))))"

section \<open>The rollout\<close>

text \<open>The flag serves a user when it is enabled and the bucket of the user is below the threshold.\<close>

definition flag_bucket :: "string \<Rightarrow> string \<Rightarrow> u32" where
  "flag_bucket salt u = murmurhash3_x86_32 (as_bytes (bucket_key u salt)) 0 mod 10000"

definition serves :: "flag \<Rightarrow> string \<Rightarrow> bool" where
  "serves f u \<longleftrightarrow> fl_enabled f \<and> flag_bucket (fl_salt f) u < rollout_threshold f"

lemma bucket_10000 [simp]: "bucket u s 10000 = Ok (flag_bucket s u)"
  by (simp add: bucket_def flag_bucket_def)

lemma flag_bucket_less: "unat (flag_bucket s u) < 10000"
  by (simp add: flag_bucket_def unat_mod)

lemma threshold_rounds:
  assumes "fl_rollout_percentage f = Fin r" "0 \<le> r" "r \<le> 1"
  obtains v where "f64_round (r * 10000) = Fin v" "0 \<le> v" "v \<le> 10000" "\<bar>v - r * 10000\<bar> \<le> 2 powi - 40"
    "unat (rollout_threshold f) = nat \<lfloor>v\<rfloor>"
proof -
  have "r * 10000 < 2 powi 14" using assms(3) by simp
  then obtain v where v: "f64_round (r * 10000) = Fin v" "0 \<le> v" "\<bar>v - r * 10000\<bar> \<le> 2 powi (14 - 54)"
    using f64_round_error [of "r * 10000" 14] assms(2) by auto
  have "f64_le (f64_round (r * 10000)) (f64_round (of_int 10000))" using assms(2,3) by (intro f64_round_mono_nonneg) auto
  then have "v \<le> 10000" using f64_round_of_int [of 10000] by (auto simp: v(1) f64_le_def)
  moreover from this have "unat (rollout_threshold f) = nat \<lfloor>v\<rfloor>"
    unfolding rollout_threshold_def assms(1) f64_mul.simps v(1) using v(2) by (intro unat_f64_to_u32) auto
  ultimately show ?thesis using v by (intro that [of v]) auto
qed

lemma threshold_mono:
  assumes "fl_rollout_percentage f = Fin r" "fl_rollout_percentage f' = Fin r'" "0 \<le> r" "r \<le> r'" "r' \<le> 1"
  shows "rollout_threshold f \<le> rollout_threshold f'"
proof -
  have range: "r \<le> 1" "0 \<le> r'" using assms by simp_all
  obtain v where v: "f64_round (r * 10000) = Fin v" "unat (rollout_threshold f) = nat \<lfloor>v\<rfloor>"
    by (rule threshold_rounds [OF assms(1,3) range(1)])
  obtain v' where v': "f64_round (r' * 10000) = Fin v'" "unat (rollout_threshold f') = nat \<lfloor>v'\<rfloor>"
    by (rule threshold_rounds [OF assms(2) range(2) assms(5)])
  have "f64_le (Fin v) (Fin v')"
    unfolding v(1) [symmetric] v'(1) [symmetric] using assms by (intro f64_round_mono_nonneg) auto
  then have "v \<le> v'" by (auto simp: f64_le_def)
  then show ?thesis by (simp add: word_le_nat_alt v(2) v'(2) nat_mono floor_mono)
qed

lemma evaluate_unserved: "\<not> serves f u \<Longrightarrow> evaluate_flag f u = Ok (fl_default_value f, [])"
  by (auto simp: serves_def evaluate_flag_def not_less)

text \<open>What a served user gets.\<close>

definition served_variant :: "flag \<Rightarrow> string \<Rightarrow> flag_variant" where
  "served_variant f u =
     unwrap_or (last (fl_variants f)) (flag_variant_loop (f64_div (f64_of_u32 (flag_bucket (fl_salt f) u)) (Fin 10000)) (Fin 0) (fl_variants f))"

lemma evaluate_served:
  assumes "serves f u"
  shows "evaluate_flag f u =
    Ok (if fl_variants f = [] then (if fl_flag_type f = ''BOOLEAN'' then ''true'' else fl_default_value f, [])
        else (fv_value (served_variant f u), fv_variant_id (served_variant f u)))"
  using assms by (auto simp: serves_def evaluate_flag_def served_variant_def leD split: option.split)

lemma variant_loop_member: "flag_variant_loop bf cum vs = Some v \<Longrightarrow> v \<in> set vs"
  by (induction vs arbitrary: cum) (auto simp: Let_def split: if_splits)

lemma served_variant_member: "fl_variants f \<noteq> [] \<Longrightarrow> served_variant f u \<in> set (fl_variants f)"
  by (auto simp: served_variant_def unwrap_or_def variant_loop_member split: option.split)

type_synonym flag_answer = "(status, string \<times> string) outcome"

text \<open>
  C31: Raising the rollout percentage only adds users. Every user has a bucket below 10000. An enabled flag gives the users whose bucket
  is below the threshold of its percentage what it gives them at one hundred per cent, and everybody else the default; the
  threshold grows with the percentage, so a user below it gets the same answer at every larger
  percentage. At zero per cent and when the flag is disabled everybody gets the default; at one hundred per cent everybody gets the
  value true of a Boolean flag without variants, or one of the variants.
\<close>

theorem rollout_only_grows:
  assumes "fl_rollout_percentage f = Fin r" "0 \<le> r" "r \<le> r'" "r' \<le> 1" "bucket u (fl_salt f) 10000 = (Ok b :: (unit, u32) outcome)"
  shows "(evaluate_flag f u :: flag_answer) = (if fl_enabled f \<and> b < rollout_threshold f then evaluate_flag (f\<lparr>fl_rollout_percentage := Fin 1\<rparr>) u
      else Ok (fl_default_value f, [])) \<and>
    rollout_threshold f \<le> rollout_threshold (f\<lparr>fl_rollout_percentage := Fin r'\<rparr>) \<and>
    (fl_enabled f \<and> b < rollout_threshold f \<longrightarrow> evaluate_flag (f\<lparr>fl_rollout_percentage := Fin r'\<rparr>) u = (evaluate_flag f u :: flag_answer)) \<and>
    (r = 0 \<or> \<not> fl_enabled f \<longrightarrow> (evaluate_flag f u :: flag_answer) = Ok (fl_default_value f, [])) \<and>
    (r = 1 \<and> fl_enabled f \<longrightarrow> b < rollout_threshold f \<and>
       (fl_variants f = [] \<and> fl_flag_type f = ''BOOLEAN'' \<longrightarrow> (evaluate_flag f u :: flag_answer) = Ok (''true'', [])) \<and>
       (fl_variants f \<noteq> [] \<longrightarrow> (\<exists>v \<in> set (fl_variants f). (evaluate_flag f u :: flag_answer) = Ok (fv_value v, fv_variant_id v))))"
proof -
  let ?f = "f\<lparr>fl_rollout_percentage := Fin r'\<rparr>" and ?full = "f\<lparr>fl_rollout_percentage := Fin 1\<rparr>"
  have b: "b = flag_bucket (fl_salt f) u" using assms(5) by simp
  have full: "rollout_threshold ?full = 10000" using f64_round_of_int [of 10000] by (simp add: rollout_threshold_def)
  have below: "b < 10000" using flag_bucket_less [of "fl_salt f" u] by (simp add: b word_less_nat_alt)
  have mono: "rollout_threshold f \<le> rollout_threshold ?f" using assms by (intro threshold_mono [of f r ?f r']) auto
  have same: "evaluate_flag g u = (evaluate_flag f u :: flag_answer)" if "serves f u" "serves g u" "g = f\<lparr>fl_rollout_percentage := Fin q\<rparr>" for g q
    using that by (simp add: evaluate_served served_variant_def)
  have serves: "serves f u \<longleftrightarrow> fl_enabled f \<and> b < rollout_threshold f" by (simp add: serves_def b)
  have all: "fl_enabled f \<longrightarrow> serves ?full u" using full below by (simp add: serves_def b)
  have "rollout_threshold f = 0" if "r = 0" using that assms(1) by (simp add: rollout_threshold_def f64_round_def)
  then have zero: "\<not> serves f u" if "r = 0 \<or> \<not> fl_enabled f" using that by (auto simp: serves)
  have one: "serves f u" if "r = 1" "fl_enabled f"
    using that below assms(1) f64_round_of_int [of 10000] by (simp add: serves rollout_threshold_def)
  have more: "serves ?f u" if "serves f u" using that mono by (auto simp: serves_def)
  have member: "\<exists>v \<in> set (fl_variants f). (evaluate_flag f u :: flag_answer) = Ok (fv_value v, fv_variant_id v)" if "serves f u" "fl_variants f \<noteq> []"
    using evaluate_served [OF that(1)] that(2) served_variant_member [OF that(2)] by auto
  show ?thesis
  proof (intro conjI impI; (elim conjE)?)
    show "(evaluate_flag f u :: flag_answer) = (if fl_enabled f \<and> b < rollout_threshold f then evaluate_flag ?full u else Ok (fl_default_value f, []))"
      using all same [OF _ _ refl, of 1] evaluate_unserved [of f u] by (auto simp: serves)
    show "rollout_threshold f \<le> rollout_threshold ?f" by (rule mono)
  next
    assume "fl_enabled f" "b < rollout_threshold f"
    then show "evaluate_flag ?f u = (evaluate_flag f u :: flag_answer)" using more same [OF _ _ refl] serves by blast
  next
    assume "r = 0 \<or> \<not> fl_enabled f"
    then show "(evaluate_flag f u :: flag_answer) = Ok (fl_default_value f, [])" using zero evaluate_unserved by blast
  next
    assume r: "r = 1" "fl_enabled f"
    then show "b < rollout_threshold f" using one serves by blast
    show "(evaluate_flag f u :: flag_answer) = Ok (''true'', [])" if "fl_variants f = []" "fl_flag_type f = ''BOOLEAN''"
      using evaluate_served [OF one [OF r]] that by simp
    show "\<exists>v \<in> set (fl_variants f). (evaluate_flag f u :: flag_answer) = Ok (fv_value v, fv_variant_id v)" if "fl_variants f \<noteq> []"
      using member [OF one [OF r] that] .
  qed
qed

section \<open>Variants under a partial rollout\<close>

definition cumulative_fraction :: "flag \<Rightarrow> nat \<Rightarrow> f64" where
  "cumulative_fraction f n = foldl f64_add (Fin 0) (map fv_traffic_fraction (take n (fl_variants f)))"

lemma variant_loop_prefix:
  assumes "f64_lt bf (foldl f64_add cum (map fv_traffic_fraction (take (Suc n) vs)))" "n < length vs"
  shows "\<exists>v \<in> set (take (Suc n) vs). flag_variant_loop bf cum vs = Some v"
  using assms
proof (induction vs arbitrary: n cum)
  case (Cons v vs)
  then show ?case by (cases n) (auto simp: Let_def)
qed simp

text \<open>The fraction of a bucket below the threshold is below the rollout percentage, in spite of both roundings.\<close>

lemma bucket_fraction_below:
  assumes "fl_rollout_percentage f = Fin r" "0 \<le> r" "r \<le> 1" "b < rollout_threshold f" "unat b < 10000"
  shows "f64_lt (f64_div (f64_of_u32 b) (Fin 10000)) (Fin r)"
proof -
  define n where "n = unat b"
  let ?q = "of_nat n / 10000 :: rat"
  have n: "n < 10000" using assms(5) by (simp add: n_def)
  obtain v where v: "\<bar>v - r * 10000\<bar> \<le> 2 powi - 40" "unat (rollout_threshold f) = nat \<lfloor>v\<rfloor>"
    by (rule threshold_rounds [OF assms(1-3)])
  obtain w where w: "f64_round ?q = Fin w" "\<bar>w - ?q\<bar> \<le> 2 powi (0 - 54)"
    by (rule f64_round_error [of ?q 0]) (use n in simp_all)
  have "n < nat \<lfloor>v\<rfloor>" using assms(4) v(2) by (simp add: word_less_nat_alt n_def)
  then have "of_nat n + 1 \<le> v" by linarith
  moreover have "(2 :: rat) powi - 40 \<le> 1 / 10" "(2 :: rat) powi (0 - 54) \<le> 1 / 1000000" by (simp_all add: power_int_def field_simps)
  ultimately have "w < r" using v(1) w(2) by linarith
  then show ?thesis unfolding f64_of_u32_exact n_def [symmetric] using w(1) by simp
qed

text \<open>
  A partial rollout starves variants: the bucket that is compared with the rollout percentage is compared
  with the cumulative traffic fractions as well, so when the fractions of the first variants already
  reach the rollout percentage, no user at all gets one of the others.
\<close>

theorem partial_rollout_starves:
  assumes "fl_rollout_percentage f = Fin r" "0 \<le> r" "r \<le> 1"
    and "cumulative_fraction f (Suc n) = Fin c" "r \<le> c" "n < length (fl_variants f)"
  shows "evaluate_flag f u = Ok (fl_default_value f, []) \<or>
    (\<exists>v \<in> set (take (Suc n) (fl_variants f)). evaluate_flag f u = Ok (fv_value v, fv_variant_id v))"
proof (cases "serves f u")
  case True
  let ?bf = "f64_div (f64_of_u32 (flag_bucket (fl_salt f) u)) (Fin 10000)"
  have "f64_lt ?bf (Fin r)" using True assms(1-3) flag_bucket_less by (intro bucket_fraction_below) (auto simp: serves_def)
  then have "f64_lt ?bf (Fin c)" using assms(5) by (cases ?bf) auto
  then have "served_variant f u \<in> set (take (Suc n) (fl_variants f))"
    using variant_loop_prefix [of ?bf "Fin 0" n "fl_variants f"] assms(4,6) by (auto simp: cumulative_fraction_def served_variant_def)
  moreover have "evaluate_flag f u = Ok (fv_value (served_variant f u), fv_variant_id (served_variant f u))"
    using evaluate_served [OF True] assms(6) by (cases "fl_variants f = []") simp_all
  ultimately show ?thesis by blast
qed (simp add: evaluate_unserved)

section \<open>Witnesses\<close>

definition sample_flag_variants :: "flag_variant list" where
  "sample_flag_variants =
     [\<lparr>fv_variant_id = ''v1'', fv_flag_id = ''f'', fv_value = ''red'', fv_traffic_fraction = Fin (1 / 2), fv_ordinal = 0\<rparr>,
      \<lparr>fv_variant_id = ''v2'', fv_flag_id = ''f'', fv_value = ''blue'', fv_traffic_fraction = Fin (1 / 2), fv_ordinal = 1\<rparr>]"

definition sample_flag :: flag where
  "sample_flag =
     \<lparr>fl_flag_id = ''f'', fl_name = ''colour'', fl_description = [], fl_flag_type = ''STRING'', fl_default_value = ''grey'',
      fl_enabled = True, fl_rollout_percentage = Fin (1 / 2), fl_salt = ''s'', fl_targeting_rule_id = None,
      fl_created_at = 0, fl_updated_at = 0, fl_promoted_experiment_id = None, fl_promoted_at = None, fl_resolved_at = None,
      fl_variants = sample_flag_variants\<rparr>"

theorem partial_rollout_starves_witness:
  "\<forall>u. evaluate_flag sample_flag u = Ok (''grey'', []) \<or> evaluate_flag sample_flag u = Ok (''red'', ''v1'')"
proof
  fix u
  have "cumulative_fraction sample_flag (Suc 0) = Fin (1 / 2)"
    using f64_round_representable [OF half_representable] by (simp add: cumulative_fraction_def sample_flag_def sample_flag_variants_def)
  then show "evaluate_flag sample_flag u = Ok (''grey'', []) \<or> evaluate_flag sample_flag u = Ok (''red'', ''v1'')"
    using partial_rollout_starves [of sample_flag "1 / 2" 0 "1 / 2" u] by (auto simp: sample_flag_def sample_flag_variants_def)
qed

theorem rollout_only_grows_witness:
  "evaluate_flag (sample_flag\<lparr>fl_rollout_percentage := Fin 1\<rparr>) ''u3'' = (evaluate_flag sample_flag ''u3'' :: flag_answer) \<and>
   (evaluate_flag (sample_flag\<lparr>fl_rollout_percentage := Fin 0\<rparr>) ''u3'' :: flag_answer) = Ok (''grey'', [])"
proof -
  let ?b = "flag_bucket ''s'' ''u3''" and ?none = "sample_flag\<lparr>fl_rollout_percentage := Fin 0\<rparr>"
  have fields: "fl_rollout_percentage sample_flag = Fin (1 / 2)" "fl_salt sample_flag = ''s''" "fl_enabled sample_flag"
    by (simp_all add: sample_flag_def)
  have none: "fl_rollout_percentage ?none = Fin 0" "fl_salt ?none = ''s''" "fl_default_value ?none = ''grey''"
    by (simp_all add: sample_flag_def)
  have "?b < 5000" by code_simp
  then have served: "fl_enabled sample_flag \<and> ?b < rollout_threshold sample_flag"
    using fields f64_round_of_int [of 5000] by (simp add: rollout_threshold_def)
  have bucket: "bucket ''u3'' (fl_salt sample_flag) 10000 = (Ok ?b :: (unit, u32) outcome)"
    "bucket ''u3'' (fl_salt ?none) 10000 = (Ok ?b :: (unit, u32) outcome)" by (simp_all add: fields none)
  have le: "(0 :: rat) \<le> 1 / 2" "(1 / 2 :: rat) \<le> 1" "(0 :: rat) \<le> 0" "(0 :: rat) \<le> 1" "(1 :: rat) \<le> 1" by simp_all
  note half = rollout_only_grows [OF fields(1) le(1,2,5) bucket(1)] and zero = rollout_only_grows [OF none(1) le(3,3,4) bucket(2)]
  have "evaluate_flag (sample_flag\<lparr>fl_rollout_percentage := Fin 1\<rparr>) ''u3'' = (evaluate_flag sample_flag ''u3'' :: flag_answer)"
    by (rule half [THEN conjunct2, THEN conjunct2, THEN conjunct1, THEN mp, OF served])
  moreover have "(evaluate_flag ?none ''u3'' :: flag_answer) = Ok (fl_default_value ?none, [])"
    by (rule zero [THEN conjunct2, THEN conjunct2, THEN conjunct2, THEN conjunct1, THEN mp, OF disjI1, OF refl])
  ultimately show ?thesis by (simp only: none(3))
qed

end
