(* ===== verification/Flag_Store.thy ===== *)
theory Flag_Store
  imports Flags Postgres
begin

text \<open>
  The PostgreSQL store of the flag service (\<^verbatim>\<open>store.rs\<close>, \<^verbatim>\<open>audit.rs\<close> and the migrations 002 to 005): the
  tables with their constraints, one definition per operation, transactions, and injected faults. A
  statement either runs or fails and then changes nothing; \<open>fd_faults\<close> schedules which of the next
  statements fail. Generated identifiers and salts come from a supply. The texts of constraint
  violations are a parameter, since the code looks for words in them.
\<close>

section \<open>Tables\<close>

record flag_audit_row =
  fa_audit_id :: uuid
  fa_flag_id :: uuid
  fa_action :: string
  fa_actor_email :: string
  fa_previous_value :: json
  fa_new_value :: json
  fa_created_at :: int

record flag_database =
  fd_flags :: "flag_row list"
  fd_variants :: "flag_variant list"
  fd_audit :: "flag_audit_row list"
  fd_rules :: "uuid list"
  fd_ids :: "nat \<Rightarrow> uuid"
  fd_salts :: "nat \<Rightarrow> string"
  fd_next :: nat
  fd_now :: int
  fd_faults :: "string option list"

datatype flag_constraint =
    FlagsPkey | FlagsNameKey | FlagsTypeCheck | FlagsRolloutCheck | FlagsRuleFkey
  | VariantsPkey | VariantsFlagFkey | VariantsFractionCheck | AuditFlagFkey | AuditActionCheck

type_synonym flag_texts = "flag_constraint \<Rightarrow> string"

datatype flag_store_error = FlagNotFound string | FlagAlreadyExists string | InvalidPageToken | FlagDb string

type_synonym ('e, 'a) flag_op = "(flag_database, 'e, 'a) state_op"

section \<open>Statements\<close>

definition fstatement :: "(flag_database \<Rightarrow> (string, 'a) outcome \<times> flag_database) \<Rightarrow> (string, 'a) flag_op" where
  "fstatement f db =
     (let db' = db\<lparr>fd_faults := tl (fd_faults db)\<rparr>
      in case fd_faults db of Some msg # _ \<Rightarrow> (Err msg, db') | _ \<Rightarrow> f db')"

text \<open>\<^verbatim>\<open>map_err(StoreError::Db)\<close>, and the form that recognises a duplicate name by the text of the error.\<close>

definition db_statement :: "(flag_database \<Rightarrow> (string, 'a) outcome \<times> flag_database) \<Rightarrow> (flag_store_error, 'a) flag_op" where
  "db_statement f = dmap_err FlagDb (fstatement f)"

definition name_error :: "string \<Rightarrow> string \<Rightarrow> flag_store_error" where
  "name_error name msg =
     (if str_contains msg ''unique'' \<or> str_contains msg ''duplicate'' then FlagAlreadyExists name else FlagDb msg)"

definition row_violation :: "uuid list \<Rightarrow> flag_row list \<Rightarrow> flag_row \<Rightarrow> flag_constraint option" where
  "row_violation rules others r =
     (if fl_flag_type r \<notin> {''BOOLEAN'', ''STRING'', ''NUMERIC'', ''JSON''} then Some FlagsTypeCheck
      else if \<not> in_unit_check (fl_rollout_percentage r) then Some FlagsRolloutCheck
      else if fl_flag_id r \<in> fl_flag_id ` set others then Some FlagsPkey
      else if fl_name r \<in> fl_name ` set others then Some FlagsNameKey
      else case fl_targeting_rule_id r of
             Some u \<Rightarrow> if u \<in> set rules then None else Some FlagsRuleFkey
           | None \<Rightarrow> None)"

text \<open>\<^verbatim>\<open>INSERT INTO feature_flags ... RETURNING\<close>: identifier, salt and times are the defaults of the columns.\<close>

definition insert_flag_row :: "flag_texts \<Rightarrow> flag \<Rightarrow> flag_database \<Rightarrow> (string, flag_row) outcome \<times> flag_database" where
  "insert_flag_row pg f db =
     (let r = \<lparr>fl_flag_id = fd_ids db (fd_next db), fl_name = fl_name f, fl_description = fl_description f,
               fl_flag_type = fl_flag_type f, fl_default_value = fl_default_value f, fl_enabled = fl_enabled f,
               fl_rollout_percentage = fl_rollout_percentage f, fl_salt = fd_salts db (fd_next db),
               fl_targeting_rule_id = fl_targeting_rule_id f, fl_created_at = fd_now db, fl_updated_at = fd_now db,
               fl_promoted_experiment_id = None, fl_promoted_at = None, fl_resolved_at = None\<rparr>;
          db' = db\<lparr>fd_next := fd_next db + 1\<rparr>
      in case row_violation (fd_rules db) (fd_flags db) r of
           Some c \<Rightarrow> (Err (pg c), db')
         | None \<Rightarrow> (Ok r, db'\<lparr>fd_flags := fd_flags db @ [r]\<rparr>))"

definition insert_variant_row ::
  "flag_texts \<Rightarrow> uuid \<Rightarrow> nat \<Rightarrow> flag_variant \<Rightarrow> flag_database \<Rightarrow> (string, unit) outcome \<times> flag_database" where
  "insert_variant_row pg flag_id ordinal v db =
     (let r = \<lparr>fv_variant_id = fd_ids db (fd_next db), fv_flag_id = flag_id, fv_value = fv_value v,
               fv_traffic_fraction = fv_traffic_fraction v, fv_ordinal = i64_as_i32 (int ordinal)\<rparr>;
          db' = db\<lparr>fd_next := fd_next db + 1\<rparr>
      in if \<not> in_unit_check (fv_traffic_fraction r) then (Err (pg VariantsFractionCheck), db')
         else if fv_variant_id r \<in> fv_variant_id ` set (fd_variants db) then (Err (pg VariantsPkey), db')
         else if flag_id \<notin> fl_flag_id ` set (fd_flags db) then (Err (pg VariantsFlagFkey), db')
         else (Ok (), db'\<lparr>fd_variants := fd_variants db @ [r]\<rparr>))"

text \<open>
  \<^verbatim>\<open>UPDATE feature_flags SET ... WHERE flag_id = $1\<close>. The identifier is the primary key, so at most one
  row changes; the constraints are checked against the other rows.
\<close>

definition update_flag_row ::
  "flag_texts \<Rightarrow> uuid \<Rightarrow> (int \<Rightarrow> flag_row \<Rightarrow> flag_row) \<Rightarrow> flag_database \<Rightarrow> (string, nat) outcome \<times> flag_database" where
  "update_flag_row pg i upd db =
     (case find (\<lambda>r. fl_flag_id r = i) (fd_flags db) of
        None \<Rightarrow> (Ok 0, db)
      | Some r \<Rightarrow>
          (case row_violation (fd_rules db) (filter (\<lambda>r. fl_flag_id r \<noteq> i) (fd_flags db)) (upd (fd_now db) r) of
             Some c \<Rightarrow> (Err (pg c), db)
           | None \<Rightarrow> (Ok 1, db\<lparr>fd_flags := map (\<lambda>r. if fl_flag_id r = i then upd (fd_now db) r else r) (fd_flags db)\<rparr>)))"

text \<open>A transaction: when one of its steps fails, the tables are as before.\<close>

definition ftransaction :: "(flag_store_error, 'a) flag_op \<Rightarrow> (flag_store_error, 'a) flag_op" where
  "ftransaction body db =
     (case body db of
        (Ok x, db') \<Rightarrow> (Ok x, db')
      | (r, db') \<Rightarrow> (r, db'\<lparr>fd_flags := fd_flags db, fd_variants := fd_variants db, fd_audit := fd_audit db\<rparr>))"

definition begin_or_commit :: "(flag_store_error, unit) flag_op" where
  "begin_or_commit = db_statement (\<lambda>db. (Ok (), db))"

section \<open>Reading\<close>

definition get_flag_variants :: "uuid \<Rightarrow> (flag_store_error, flag_variant list) flag_op" where
  "get_flag_variants i =
     db_statement (\<lambda>db. (Ok (sort_key fv_ordinal (filter (\<lambda>v. fv_flag_id v = i) (fd_variants db))), db))"

definition with_variants :: "flag_row \<Rightarrow> (flag_store_error, flag) flag_op" where
  "with_variants r = dbind (get_flag_variants (fl_flag_id r)) (\<lambda>vs. dreturn (Ok ((flag_of_row r)\<lparr>fl_variants := vs\<rparr>)))"

text \<open>\<^verbatim>\<open>for flag in &mut flags { flag.variants = ... }\<close>\<close>

fun all_with_variants :: "flag_row list \<Rightarrow> (flag_store_error, flag list) flag_op" where
  "all_with_variants [] = dreturn (Ok [])"
| "all_with_variants (r # rs) =
     dbind (with_variants r) (\<lambda>f. dbind (all_with_variants rs) (\<lambda>fs. dreturn (Ok (f # fs))))"

definition store_get_flag :: "uuid \<Rightarrow> (flag_store_error, flag) flag_op" where
  "store_get_flag i =
     dbind (db_statement (\<lambda>db. (Ok (find (\<lambda>r. fl_flag_id r = i) (fd_flags db)), db))) (\<lambda>row.
     dbind (dreturn (ok_or (FlagNotFound i) row)) with_variants)"

definition rows_by_id :: "flag_database \<Rightarrow> flag_row list" where
  "rows_by_id db = sort_key fl_flag_id (fd_flags db)"

definition page_rows :: "uuid option \<Rightarrow> int \<Rightarrow> flag_database \<Rightarrow> (string, flag_row list) outcome \<times> flag_database" where
  "page_rows cursor n db =
     (Ok (take (nat n) (filter (\<lambda>r. case cursor of None \<Rightarrow> True | Some k \<Rightarrow> k < fl_flag_id r) (rows_by_id db))), db)"

definition clamp_page_size :: "int \<Rightarrow> int" where
  "clamp_page_size n = (if n \<le> 0 \<or> 100 < n then 50 else n)"

definition store_list_flags :: "flag_env \<Rightarrow> int \<Rightarrow> string \<Rightarrow> (flag_store_error, flag list \<times> string) flag_op" where
  "store_list_flags env page_size page_token =
     (let n = clamp_page_size page_size in
      dbind (if page_token = [] then dreturn (Ok None)
             else dreturn (ok_or InvalidPageToken
                    (case fe_b64_decode env page_token of
                       None \<Rightarrow> None
                     | Some s \<Rightarrow> map_option Some (fe_parse_uuid env s)))) (\<lambda>cursor.
      dbind (db_statement (page_rows cursor (n + 1))) (\<lambda>rows.
        let more = n < int (length rows);
            rows' = (if more then take (nat n) rows else rows);
            next_token = (if more then fe_b64_encode env (fl_flag_id (rows ! nat (n - 1))) else [])
        in dbind (all_with_variants rows') (\<lambda>flags. dreturn (Ok (flags, next_token))))))"

definition get_all_enabled_flags :: "(flag_store_error, flag list) flag_op" where
  "get_all_enabled_flags =
     dbind (db_statement (\<lambda>db. (Ok (filter fl_enabled (rows_by_id db)), db))) all_with_variants"

text \<open>\<^verbatim>\<open>fetch_optional\<close> takes the first row the query yields.\<close>

definition get_flag_by_experiment :: "uuid \<Rightarrow> (flag_store_error, flag) flag_op" where
  "get_flag_by_experiment x =
     dbind (db_statement (\<lambda>db. (Ok (find (\<lambda>r. fl_promoted_experiment_id r = Some x) (fd_flags db)), db))) (\<lambda>row.
     dbind (dreturn (ok_or (FlagNotFound (''no flag for experiment '' @ x)) row)) with_variants)"

text \<open>\<^verbatim>\<open>ORDER BY name\<close>: the sort key of the collation of the database is a parameter.\<close>

definition get_flags_by_targeting_rule :: "(string \<Rightarrow> string) \<Rightarrow> uuid \<Rightarrow> (flag_store_error, flag list) flag_op" where
  "get_flags_by_targeting_rule collation u =
     dbind (db_statement (\<lambda>db.
       (Ok (sort_key (\<lambda>r. collation (fl_name r)) (filter (\<lambda>r. fl_targeting_rule_id r = Some u) (fd_flags db))), db)))
       all_with_variants"

text \<open>\<^verbatim>\<open>ORDER BY promoted_at DESC\<close>; the two columns are always set together.\<close>

definition get_promoted_flags :: "(flag_store_error, flag list) flag_op" where
  "get_promoted_flags =
     dbind (db_statement (\<lambda>db.
       (Ok (sort_key (\<lambda>r. - unwrap_or 0 (fl_promoted_at r)) (filter (\<lambda>r. fl_promoted_experiment_id r \<noteq> None) (fd_flags db))), db)))
       all_with_variants"

section \<open>Writing\<close>

text \<open>\<^verbatim>\<open>if rows_affected == 0 { return Err(NotFound) }\<close>\<close>

definition affected :: "uuid \<Rightarrow> nat \<Rightarrow> (flag_store_error, unit) flag_op" where
  "affected i n = dreturn (if n = 0 then Err (FlagNotFound i) else Ok ())"

fun insert_variants :: "flag_texts \<Rightarrow> uuid \<Rightarrow> nat \<Rightarrow> flag_variant list \<Rightarrow> (flag_store_error, unit) flag_op" where
  "insert_variants pg i ordinal [] = dreturn (Ok ())"
| "insert_variants pg i ordinal (v # vs) =
     dbind (db_statement (insert_variant_row pg i ordinal v)) (\<lambda>_. insert_variants pg i (ordinal + 1) vs)"

definition store_create_flag :: "flag_texts \<Rightarrow> flag \<Rightarrow> (flag_store_error, flag) flag_op" where
  "store_create_flag pg f =
     dbind (ftransaction (
       dbind begin_or_commit (\<lambda>_.
       dbind (dmap_err (name_error (fl_name f)) (fstatement (insert_flag_row pg f))) (\<lambda>row.
       dbind (insert_variants pg (fl_flag_id row) 0 (fl_variants f)) (\<lambda>_.
       dbind begin_or_commit (\<lambda>_. dreturn (Ok (fl_flag_id row)))))))) store_get_flag"

definition store_update_flag :: "flag_texts \<Rightarrow> flag \<Rightarrow> (flag_store_error, flag) flag_op" where
  "store_update_flag pg f =
     dbind (ftransaction (
       dbind begin_or_commit (\<lambda>_.
       dbind (dmap_err (name_error (fl_name f)) (fstatement (update_flag_row pg (fl_flag_id f) (\<lambda>now r.
           r\<lparr>fl_name := fl_name f, fl_description := fl_description f, fl_flag_type := fl_flag_type f,
             fl_default_value := fl_default_value f, fl_enabled := fl_enabled f,
             fl_rollout_percentage := fl_rollout_percentage f, fl_targeting_rule_id := fl_targeting_rule_id f,
             fl_updated_at := now\<rparr>)))) (\<lambda>n.
       dbind (affected (fl_flag_id f) n) (\<lambda>_.
       dbind (db_statement (\<lambda>db. (Ok (), db\<lparr>fd_variants := filter (\<lambda>v. fv_flag_id v \<noteq> fl_flag_id f) (fd_variants db)\<rparr>))) (\<lambda>_.
       dbind (insert_variants pg (fl_flag_id f) 0 (fl_variants f)) (\<lambda>_.
         begin_or_commit))))))) (\<lambda>_. store_get_flag (fl_flag_id f))"

text \<open>The variants and the audit trail of a deleted flag go with it (\<^verbatim>\<open>ON DELETE CASCADE\<close>).\<close>

definition store_delete_flag :: "uuid \<Rightarrow> (flag_store_error, unit) flag_op" where
  "store_delete_flag i =
     dbind (db_statement (\<lambda>db.
       (Ok (length (filter (\<lambda>r. fl_flag_id r = i) (fd_flags db))),
        db\<lparr>fd_flags := filter (\<lambda>r. fl_flag_id r \<noteq> i) (fd_flags db),
           fd_variants := filter (\<lambda>v. fv_flag_id v \<noteq> i) (fd_variants db),
           fd_audit := filter (\<lambda>a. fa_flag_id a \<noteq> i) (fd_audit db)\<rparr>))) (affected i)"

definition link_flag_to_experiment :: "flag_texts \<Rightarrow> uuid \<Rightarrow> uuid \<Rightarrow> (flag_store_error, unit) flag_op" where
  "link_flag_to_experiment pg i x =
     dbind (db_statement (update_flag_row pg i (\<lambda>now r.
       r\<lparr>fl_promoted_experiment_id := Some x, fl_promoted_at := Some now, fl_updated_at := now\<rparr>))) (affected i)"

datatype resolution_action = RolloutFull | Rollback | Keep

fun resolution :: "resolution_action \<Rightarrow> int \<Rightarrow> flag_row \<Rightarrow> flag_row" where
  "resolution RolloutFull now r =
     r\<lparr>fl_rollout_percentage := Fin 1, fl_enabled := True, fl_resolved_at := Some now, fl_updated_at := now\<rparr>"
| "resolution Rollback now r =
     r\<lparr>fl_rollout_percentage := Fin 0, fl_enabled := False, fl_resolved_at := Some now, fl_updated_at := now\<rparr>"
| "resolution Keep now r = r\<lparr>fl_resolved_at := Some now, fl_updated_at := now\<rparr>"

definition resolve_flag :: "flag_texts \<Rightarrow> uuid \<Rightarrow> resolution_action \<Rightarrow> (flag_store_error, unit) flag_op" where
  "resolve_flag pg i action = dbind (db_statement (update_flag_row pg i (resolution action))) (affected i)"

section \<open>The audit trail\<close>

definition audit_actions :: "string list" where
  "audit_actions =
     [''create'', ''update'', ''delete'', ''enable'', ''disable'', ''rollout_change'', ''promote_to_experiment'', ''resolve_experiment'']"

definition record_flag_audit :: "flag_texts \<Rightarrow> uuid \<Rightarrow> string \<Rightarrow> string \<Rightarrow> json \<Rightarrow> json \<Rightarrow> (string, unit) flag_op" where
  "record_flag_audit pg i action actor prev new =
     fstatement (\<lambda>db.
       if action \<notin> set audit_actions then (Err (pg AuditActionCheck), db)
       else if i \<notin> fl_flag_id ` set (fd_flags db) then (Err (pg AuditFlagFkey), db)
       else (Ok (), db\<lparr>fd_next := fd_next db + 1, fd_audit := fd_audit db @
              [\<lparr>fa_audit_id = fd_ids db (fd_next db), fa_flag_id = i, fa_action = action, fa_actor_email = actor, fa_previous_value = prev, fa_new_value = new,
                fa_created_at = fd_now db\<rparr>]\<rparr>))"

text \<open>Most recent first; rows of the same instant keep the order of the table.\<close>

definition get_audit_log :: "uuid \<Rightarrow> int \<Rightarrow> (string, flag_audit_row list) flag_op" where
  "get_audit_log i limit =
     fstatement (\<lambda>db. (Ok (take (nat (max 1 (min 1000 limit)))
       (sort_key (\<lambda>a. - fa_created_at a) (filter (\<lambda>a. fa_flag_id a = i) (fd_audit db)))), db))"

definition flag_snapshot :: "flag \<Rightarrow> json" where
  "flag_snapshot f =
     JObject [(''name'', JString (fl_name f)), (''description'', JString (fl_description f)), (''type'', JString (fl_flag_type f)),
              (''default_value'', JString (fl_default_value f)), (''enabled'', JBool (fl_enabled f)),
              (''rollout_percentage'', json_of_f64 (fl_rollout_percentage f)),
              (''targeting_rule_id'', case fl_targeting_rule_id f of None \<Rightarrow> JNull | Some u \<Rightarrow> JString u),
              (''variant_count'', JInt (int (length (fl_variants f))))]"

section \<open>Invariants of the tables\<close>

definition preserves :: "(flag_database \<Rightarrow> bool) \<Rightarrow> ('e, 'a) flag_op \<Rightarrow> bool" where
  "preserves P m \<longleftrightarrow> (\<forall>db. P db \<longrightarrow> P (snd (m db)))"

text \<open>
  A property of the tables that a rolled-back transaction and the schedule of faults cannot change. In
  this interface the store operations preserve the property as soon as the statements do.
\<close>

locale table_property =
  fixes P :: "flag_database \<Rightarrow> bool"
  assumes P_faults: "P db \<Longrightarrow> P (db\<lparr>fd_faults := fs\<rparr>)"
    and P_restored: "P db \<Longrightarrow> P db' \<Longrightarrow> P (db'\<lparr>fd_flags := fd_flags db, fd_variants := fd_variants db, fd_audit := fd_audit db\<rparr>)"
begin

lemma statement: "(\<And>db. P db \<Longrightarrow> P (snd (f db))) \<Longrightarrow> preserves P (fstatement f)"
  using P_faults by (fastforce simp: preserves_def fstatement_def Let_def split: list.split option.split)

lemma mapped: "preserves P m \<Longrightarrow> preserves P (dmap_err g m)"
  by (simp add: preserves_def)

lemma db_stmt: "(\<And>db. P db \<Longrightarrow> P (snd (f db))) \<Longrightarrow> preserves P (db_statement f)"
  unfolding db_statement_def by (intro mapped statement)

lemma returned: "preserves P (dreturn x)"
  by (simp add: preserves_def dreturn_def)

lemma sequence:
  assumes "preserves P m" "\<And>x. preserves P (k x)"
  shows "preserves P (dbind m k)"
  unfolding preserves_def
proof (intro allI impI)
  fix db
  assume "P db"
  then have 1: "P (snd (m db))" using assms(1) by (simp add: preserves_def)
  then have "P (snd (k x (snd (m db))))" for x using assms(2) by (simp add: preserves_def)
  with 1 show "P (snd (dbind m k db))" by (cases "m db"; cases "fst (m db)") (auto simp: dbind_def)
qed

lemma atomic:
  assumes "preserves P m"
  shows "preserves P (ftransaction m)"
  unfolding preserves_def
proof (intro allI impI)
  fix db
  assume "P db"
  moreover from this have "P (snd (m db))" using assms by (simp add: preserves_def)
  ultimately show "P (snd (ftransaction m db))"
    using P_restored by (cases "m db"; cases "fst (m db)") (auto simp: ftransaction_def)
qed

lemma boundary: "preserves P begin_or_commit"
  unfolding begin_or_commit_def by (intro db_stmt) simp

lemma reads: "preserves P (get_flag_variants i)" "preserves P (with_variants r)"
  unfolding get_flag_variants_def with_variants_def by (intro sequence db_stmt returned; simp)+

lemma reads_all: "preserves P (all_with_variants rs)"
  by (induction rs) (auto intro: sequence reads returned)

lemma read_flag: "preserves P (store_get_flag i)"
  unfolding store_get_flag_def by (intro sequence db_stmt returned reads) simp

lemma read_lists: "preserves P (store_list_flags env n tok)" "preserves P get_all_enabled_flags"
  "preserves P (get_flag_by_experiment x)" "preserves P (get_flags_by_targeting_rule co u)" "preserves P get_promoted_flags"
  unfolding store_list_flags_def get_all_enabled_flags_def get_flag_by_experiment_def get_flags_by_targeting_rule_def
    get_promoted_flags_def Let_def page_rows_def
  by (intro sequence db_stmt returned reads reads_all; auto intro: sequence reads_all returned simp: page_rows_def split: if_splits)+

lemma variants_inserted:
  assumes "\<And>ord v db. P db \<Longrightarrow> P (snd (insert_variant_row pg i ord v db))"
  shows "preserves P (insert_variants pg i ord vs)"
proof (induction vs arbitrary: ord)
  case (Cons v vs)
  then show ?case unfolding insert_variants.simps by (intro sequence db_stmt assms)
qed (simp add: returned)

lemma creates:
  assumes "\<And>db. P db \<Longrightarrow> P (snd (insert_flag_row pg f db))" "\<And>i ord v db. P db \<Longrightarrow> P (snd (insert_variant_row pg i ord v db))"
  shows "preserves P (store_create_flag pg f)"
  unfolding store_create_flag_def
  by (intro sequence atomic boundary mapped statement variants_inserted returned read_flag assms; assumption)

lemma updates_row:
  assumes "\<And>db. P db \<Longrightarrow> P (snd (update_flag_row pg i u db))"
  shows "preserves P (dbind (db_statement (update_flag_row pg i u)) (affected i))"
  unfolding affected_def by (intro sequence db_stmt returned assms; assumption)

lemma updates:
  assumes "\<And>db upd. P db \<Longrightarrow> (\<And>now r. fl_flag_id (upd now r) = fl_flag_id r \<and> fl_salt (upd now r) = fl_salt r \<and>
      fl_resolved_at (upd now r) = fl_resolved_at r) \<Longrightarrow> P (snd (update_flag_row pg (fl_flag_id f) upd db))"
    and "\<And>i ord v db. P db \<Longrightarrow> P (snd (insert_variant_row pg i ord v db))"
    and "\<And>db. P db \<Longrightarrow> P (db\<lparr>fd_variants := filter (\<lambda>v. fv_flag_id v \<noteq> fl_flag_id f) (fd_variants db)\<rparr>)"
  shows "preserves P (store_update_flag pg f)"
  unfolding store_update_flag_def affected_def
  by (intro sequence atomic boundary mapped statement db_stmt variants_inserted returned read_flag assms) (simp_all add: assms)

lemma audits:
  assumes "\<And>db a n. P db \<Longrightarrow> fa_action a \<in> set audit_actions \<Longrightarrow> fa_flag_id a \<in> fl_flag_id ` set (fd_flags db) \<Longrightarrow>
    P (db\<lparr>fd_next := n, fd_audit := fd_audit db @ [a]\<rparr>)"
  shows "preserves P (record_flag_audit pg i action actor prev new)"
  unfolding record_flag_audit_def by (intro statement) (simp add: assms)

lemma audit_reads: "preserves P (get_audit_log i n)"
  unfolding get_audit_log_def by (intro statement) simp

end

section \<open>Integrity\<close>

text \<open>What the constraints of the schema promise of the tables, \<open>R\<close> being the targeting rules.\<close>

definition row_ok :: "uuid list \<Rightarrow> flag_row \<Rightarrow> bool" where
  "row_ok R r \<longleftrightarrow> fl_flag_type r \<in> {''BOOLEAN'', ''STRING'', ''NUMERIC'', ''JSON''} \<and> in_unit_check (fl_rollout_percentage r) \<and>
     (\<forall>u. fl_targeting_rule_id r = Some u \<longrightarrow> u \<in> set R)"

definition intact :: "uuid list \<Rightarrow> flag_database \<Rightarrow> bool" where
  "intact R db \<longleftrightarrow> fd_rules db = R \<and> distinct (map fl_flag_id (fd_flags db)) \<and> distinct (map fl_name (fd_flags db)) \<and>
     list_all (row_ok R) (fd_flags db) \<and> distinct (map fv_variant_id (fd_variants db)) \<and>
     (\<forall>v \<in> set (fd_variants db). fv_flag_id v \<in> fl_flag_id ` set (fd_flags db) \<and> in_unit_check (fv_traffic_fraction v)) \<and>
     (\<forall>a \<in> set (fd_audit db). fa_flag_id a \<in> fl_flag_id ` set (fd_flags db) \<and> fa_action a \<in> set audit_actions)"

interpretation integrity: table_property "intact R" for R
  by unfold_locales (simp_all add: intact_def)

lemma row_violation_None:
  "row_violation R others r = None \<longleftrightarrow> row_ok R r \<and> fl_flag_id r \<notin> fl_flag_id ` set others \<and> fl_name r \<notin> fl_name ` set others"
  by (auto simp: row_violation_def row_ok_def split: option.splits)

lemma intact_insert_flag: "intact R db \<Longrightarrow> intact R (snd (insert_flag_row pg f db))"
  by (auto simp: insert_flag_row_def Let_def row_violation_None intact_def split: option.split)

lemma intact_insert_variant: "intact R db \<Longrightarrow> intact R (snd (insert_variant_row pg i ord v db))"
  by (auto simp: insert_variant_row_def Let_def intact_def)

lemma map_update_ids: "(\<And>r. fl_flag_id (g r) = fl_flag_id r) \<Longrightarrow> map fl_flag_id (map (\<lambda>r. if fl_flag_id r = i then g r else r) rs) = map fl_flag_id rs"
  by (induction rs) auto

lemma distinct_names_update:
  assumes "distinct (map fl_flag_id rs)" "distinct (map fl_name rs)"
    and "\<And>r. r \<in> set rs \<Longrightarrow> fl_flag_id r = i \<Longrightarrow> fl_name (g r) \<notin> fl_name ` set (filter (\<lambda>r. fl_flag_id r \<noteq> i) rs)"
  shows "distinct (map fl_name (map (\<lambda>r. if fl_flag_id r = i then g r else r) rs))"
  using assms
proof (induction rs)
  case (Cons r rs)
  have same: "map (\<lambda>r. if fl_flag_id r = i then g r else r) rs = rs" if "fl_flag_id r = i"
    using Cons.prems(1) that by (intro map_idI) (force simp: image_iff)
  have rest: "filter (\<lambda>r. fl_flag_id r \<noteq> i) rs = rs" if "fl_flag_id r = i"
    using Cons.prems(1) that by (intro filter_True) (force simp: image_iff)
  show ?case
  proof (cases "fl_flag_id r = i")
    case True
    then show ?thesis using Cons.prems(2) Cons.prems(3) [of r] same [OF True] rest [OF True] by simp
  next
    case False
    have "distinct (map fl_name (map (\<lambda>r. if fl_flag_id r = i then g r else r) rs))"
      using Cons.prems False by (intro Cons.IH) (auto simp: image_iff)
    moreover have "fl_name r \<noteq> fl_name (if fl_flag_id x = i then g x else x)" if "x \<in> set rs" for x
      using Cons.prems(2) Cons.prems(3) [of x] False that by (auto simp: image_iff)
    ultimately show ?thesis using False by (auto simp: image_iff)
  qed
qed simp

lemma find_row: "find (\<lambda>r. fl_flag_id r = i) rs = Some r \<Longrightarrow> r \<in> set rs \<and> fl_flag_id r = i"
  by (induction rs) (auto split: if_splits)

lemma intact_update:
  assumes "intact R db" "\<And>now r. fl_flag_id (upd now r) = fl_flag_id r"
  shows "intact R (snd (update_flag_row pg i upd db))"
proof (cases "find (\<lambda>r. fl_flag_id r = i) (fd_flags db)")
  case (Some r)
  note r = find_row [OF Some]
  show ?thesis
  proof (cases "row_violation R (filter (\<lambda>r. fl_flag_id r \<noteq> i) (fd_flags db)) (upd (fd_now db) r)")
    case None
    define fs where "fs = map (\<lambda>r. if fl_flag_id r = i then upd (fd_now db) r else r) (fd_flags db)"
    have unique: "r' = r" if "r' \<in> set (fd_flags db)" "fl_flag_id r' = i" for r'
      using that r assms(1) by (auto simp: intact_def dest: distinct_map [THEN iffD1] inj_onD)
    have ids: "map fl_flag_id fs = map fl_flag_id (fd_flags db)" unfolding fs_def using assms(2) by (intro map_update_ids)
    then have idset: "fl_flag_id ` set fs = fl_flag_id ` set (fd_flags db)" by (metis list.set_map)
    have new: "row_ok R (upd (fd_now db) r)" "fl_name (upd (fd_now db) r) \<notin> fl_name ` set (filter (\<lambda>r. fl_flag_id r \<noteq> i) (fd_flags db))"
      using None by (auto simp: row_violation_None)
    have "distinct (map fl_name fs)"
      unfolding fs_def using assms(1) new(2) unique by (intro distinct_names_update) (auto simp: intact_def)
    moreover have "list_all (row_ok R) fs" using assms(1) new(1) unique by (auto simp: intact_def list_all_iff fs_def)
    moreover have "snd (update_flag_row pg i upd db) = db\<lparr>fd_flags := fs\<rparr>"
      using Some None assms(1) by (simp add: update_flag_row_def intact_def fs_def)
    ultimately show ?thesis using assms(1) ids idset by (simp add: intact_def)
  qed (use Some assms(1) in \<open>simp add: update_flag_row_def intact_def\<close>)
qed (use assms(1) in \<open>simp add: update_flag_row_def\<close>)

lemma intact_delete: "intact R db \<Longrightarrow> preserves (intact R) (store_delete_flag i)"
  unfolding store_delete_flag_def affected_def
  by (intro integrity.sequence integrity.db_stmt integrity.returned)
    (auto simp: intact_def list_all_iff distinct_map inj_on_def image_iff)

lemmas intact_intros = integrity.creates [OF intact_insert_flag intact_insert_variant] integrity.updates_row [OF intact_update]
  integrity.updates [OF intact_update intact_insert_variant] integrity.read_lists integrity.read_flag integrity.audit_reads

section \<open>Listing in pages\<close>

definition flag_page :: "nat \<Rightarrow> uuid option \<Rightarrow> flag_database \<Rightarrow> flag_row list \<times> uuid option" where
  "flag_page n c db = key_page fl_flag_id n c (rows_by_id db)"

definition flag_ids :: "flag_database \<Rightarrow> uuid set" where
  "flag_ids db = fl_flag_id ` set (fd_flags db)"

definition unique_ids :: "flag_database \<Rightarrow> bool" where
  "unique_ids db \<longleftrightarrow> distinct (map fl_flag_id (fd_flags db))"

lemma rows_sorted:
  assumes "unique_ids db"
  shows "strictly_sorted fl_flag_id (rows_by_id db)"
proof -
  have "distinct (map fl_flag_id (rows_by_id db))"
    using assms unfolding unique_ids_def rows_by_id_def by (metis distinct_map distinct_sort set_sort)
  then show ?thesis unfolding strictly_sorted_def strict_sorted_iff by (simp add: rows_by_id_def)
qed

lemma flag_ids_rows: "flag_ids db = fl_flag_id ` set (rows_by_id db)"
  by (simp add: flag_ids_def rows_by_id_def)

interpretation flag_pages: keyset_listing "flag_page (Suc n)" fl_flag_id flag_ids unique_ids for n
  unfolding flag_page_def flag_ids_rows
  by unfold_locales (blast dest: rows_sorted key_pages.page_sorted key_pages.page_beyond key_pages.page_last key_pages.page_more key_pages.page_dense)+

text \<open>A statement on a database whose schedule has no fault.\<close>

lemma fstatement_ok: "fd_faults db = [] \<Longrightarrow> fstatement f db = f db"
  by (cases db) (simp add: fstatement_def Let_def)

lemma db_read_ok: "fd_faults db = [] \<Longrightarrow> db_statement (\<lambda>db. (Ok (g db), db)) db = (Ok (g db), db)"
  by (simp add: db_statement_def dmap_err_def fstatement_ok)

definition stored_flag :: "flag_database \<Rightarrow> flag_row \<Rightarrow> flag" where
  "stored_flag db r =
     (flag_of_row r)\<lparr>fl_variants := sort_key fv_ordinal (filter (\<lambda>v. fv_flag_id v = fl_flag_id r) (fd_variants db))\<rparr>"

lemma stored_flag_id [simp]: "fl_flag_id (stored_flag db r) = fl_flag_id r"
  by (simp add: stored_flag_def flag_of_row_def flag_row.defs)

lemma with_variants_ok: "fd_faults db = [] \<Longrightarrow> with_variants r db = (Ok (stored_flag db r), db)"
  by (simp add: with_variants_def get_flag_variants_def dbind_def db_read_ok dreturn_def stored_flag_def)

lemma all_with_variants_ok: "fd_faults db = [] \<Longrightarrow> all_with_variants rs db = (Ok (map (stored_flag db) rs), db)"
  by (induction rs) (simp_all add: dbind_def with_variants_ok dreturn_def)

lemma store_get_flag_ok:
  "fd_faults db = [] \<Longrightarrow> store_get_flag i db =
    (case find (\<lambda>r. fl_flag_id r = i) (fd_flags db) of None \<Rightarrow> (Err (FlagNotFound i), db) | Some r \<Rightarrow> (Ok (stored_flag db r), db))"
  by (simp add: store_get_flag_def dbind_def db_read_ok dreturn_def with_variants_ok split: option.split)

text \<open>The tokens: the encoding of a stored identifier is not empty and is read back.\<close>

definition token_codec :: "flag_env \<Rightarrow> uuid \<Rightarrow> bool" where
  "token_codec env i \<longleftrightarrow> fe_b64_encode env i \<noteq> [] \<and> fe_b64_decode env (fe_b64_encode env i) = Some i \<and> fe_parse_uuid env i = Some i"

definition token_of :: "flag_env \<Rightarrow> uuid option \<Rightarrow> string" where
  "token_of env c = (case c of None \<Rightarrow> [] | Some i \<Rightarrow> fe_b64_encode env i)"

lemma list_flags_page:
  assumes "fd_faults db = []" "\<forall>i. c = Some i \<longrightarrow> token_codec env i" "flag_page (nat (clamp_page_size psize)) c db = (rs, d)"
  shows "store_list_flags env psize (token_of env c) db = (Ok (map (stored_flag db) rs, token_of env d), db)"
proof -
  let ?n = "clamp_page_size psize"
  have n: "0 < ?n" by (simp add: clamp_page_size_def)
  have sizes: "nat (?n + 1) = nat ?n + 1" "nat (?n - 1) = nat ?n - 1" "?n < int (length (xs :: flag_row list)) \<longleftrightarrow> nat ?n < length xs" for xs
    using n by linarith+
  have "(if token_of env c = [] then dreturn (Ok None)
         else dreturn (ok_or InvalidPageToken
                (case fe_b64_decode env (token_of env c) of None \<Rightarrow> None | Some s \<Rightarrow> map_option Some (fe_parse_uuid env s)))) db = (Ok c, db)"
    using assms(2) by (cases c) (simp_all add: token_of_def token_codec_def dreturn_def)
  moreover have "db_statement (page_rows c (?n + 1)) db =
      (Ok (take (nat ?n + 1) (filter (\<lambda>r. case c of None \<Rightarrow> True | Some k \<Rightarrow> k < fl_flag_id r) (rows_by_id db))), db)"
    unfolding page_rows_def sizes(1) using db_read_ok [OF assms(1)] by simp
  ultimately show ?thesis
    using assms(1,3) n unfolding store_list_flags_def Let_def
    by (auto simp: sizes all_with_variants_ok dreturn_def token_of_def flag_page_def key_page_def beyond_def Let_def split: if_splits)
qed

text \<open>A client that follows the tokens, one call per state of the table.\<close>

fun list_all_flags :: "flag_env \<Rightarrow> int \<Rightarrow> string \<Rightarrow> flag_database list \<Rightarrow> flag list \<times> bool" where
  "list_all_flags env psize tok [] = ([], False)"
| "list_all_flags env psize tok (db # dbs) =
     (case fst (store_list_flags env psize tok db) of
        Ok (fs, tok') \<Rightarrow> if tok' = [] then (fs, True) else (let (gs, d) = list_all_flags env psize tok' dbs in (fs @ gs, d))
      | _ \<Rightarrow> ([], False))"

lemma listing_pages:
  assumes "\<forall>db \<in> set dbs. fd_faults db = [] \<and> (\<forall>i \<in> flag_ids db. token_codec env i)" "\<forall>i. c = Some i \<longrightarrow> token_codec env i"
    and "nat (clamp_page_size psize) = Suc n" "list_all unique_ids dbs"
  shows "map fl_flag_id (fst (list_all_flags env psize (token_of env c) dbs)) = map fl_flag_id (fst (flag_pages.pages n c dbs)) \<and>
    snd (list_all_flags env psize (token_of env c) dbs) = snd (flag_pages.pages n c dbs)"
  using assms(1,2,4)
proof (induction dbs arbitrary: c)
  case (Cons db dbs)
  obtain rs d where p: "flag_page (Suc n) c db = (rs, d)" by fastforce
  have run: "store_list_flags env psize (token_of env c) db = (Ok (map (stored_flag db) rs, token_of env d), db)"
    using Cons.prems p assms(3) by (intro list_flags_page) simp_all
  show ?case
  proof (cases d)
    case None
    then show ?thesis using run p by (simp add: token_of_def comp_def)
  next
    case (Some i)
    have i: "rs \<noteq> []" "i = fl_flag_id (last rs)" using flag_pages.page_more [of db n c rs i] p Some Cons.prems(3) by simp_all
    then have "token_codec env i"
      using flag_pages.page_beyond [of db n c rs d "last rs"] p Cons.prems by auto
    then have "token_of env (Some i) \<noteq> []" "\<forall>j. Some i = Some j \<longrightarrow> token_codec env j" by (simp_all add: token_of_def token_codec_def)
    then show ?thesis using Cons.IH [of "Some i"] Cons.prems run p Some by (simp add: case_prod_beta comp_def)
  qed
qed simp

text \<open>
  C36: Listing the flags page by page never shows a flag twice and shows them in the order of their
  identifiers, whatever is created or deleted between two pages; when it reaches the last page, every
  flag that was there all the time has been shown; and on a table that does not change it reaches the last
  page within as many calls as there are flags and one more.
\<close>

theorem listing_complete:
  assumes "\<forall>db \<in> set dbs. fd_faults db = [] \<and> unique_ids db \<and> (\<forall>i \<in> flag_ids db. token_codec env i)"
    and "list_all_flags env psize [] dbs = (fs, ended)"
  shows "sorted (map fl_flag_id fs) \<and> distinct (map fl_flag_id fs) \<and>
    (ended \<longrightarrow> (\<forall>i. (\<forall>db \<in> set dbs. i \<in> flag_ids db) \<longrightarrow> i \<in> fl_flag_id ` set fs)) \<and>
    (dbs = replicate (length (fd_flags db) + 1) db \<longrightarrow> ended)"
proof -
  have "0 < nat (clamp_page_size psize)" by (simp add: clamp_page_size_def)
  then obtain n where n: "nat (clamp_page_size psize) = Suc n" using gr0_implies_Suc by blast
  have ok: "list_all unique_ids dbs" using assms(1) by (simp add: list_all_iff)
  have p: "map fl_flag_id fs = map fl_flag_id (fst (flag_pages.pages n None dbs))" "ended = snd (flag_pages.pages n None dbs)"
    using listing_pages [of dbs env None psize n] assms n ok by (auto simp: token_of_def)
  then have ids: "fl_flag_id ` set fs = fl_flag_id ` set (fst (flag_pages.pages n None dbs))" by (metis list.set_map)
  have "sorted_wrt (<) (map fl_flag_id fs)" unfolding p(1) by (rule flag_pages.pages_sorted [OF ok])
  then have 1: "sorted (map fl_flag_id fs)" "distinct (map fl_flag_id fs)" by (simp_all only: strict_sorted_iff)
  have 2: "i \<in> fl_flag_id ` set fs" if "ended" "\<forall>db \<in> set dbs. i \<in> flag_ids db" for i
    unfolding ids using flag_pages.pages_complete [OF ok, of n None i] that p(2) by simp
  have 3: "ended" if "dbs = replicate (length (fd_flags db) + 1) db"
  proof -
    have "card (flag_ids db) \<le> length (fd_flags db)" unfolding flag_ids_def by (metis card_length list.set_map length_map)
    moreover have "unique_ids db" using ok that by simp
    ultimately have "snd (flag_pages.pages n None (replicate (length (fd_flags db) + 1) db))"
      by (intro flag_pages.pages_end) (simp_all add: flag_ids_def)
    then show ?thesis using p(2) that by simp
  qed
  from 1 2 3 show ?thesis by blast
qed

section \<open>Writing flags\<close>

definition same_tables :: "flag_database \<Rightarrow> flag_database \<Rightarrow> bool" where
  "same_tables db db' \<longleftrightarrow> fd_flags db' = fd_flags db \<and> fd_variants db' = fd_variants db \<and> fd_audit db' = fd_audit db"

lemma fstatement_OkD: "fstatement f db = (Ok x, db') \<Longrightarrow> f (db\<lparr>fd_faults := tl (fd_faults db)\<rparr>) = (Ok x, db')"
  by (auto simp: fstatement_def Let_def split: list.splits option.splits)

lemma dmap_err_Ok_iff: "dmap_err g m db = (Ok x, db') \<longleftrightarrow> m db = (Ok x, db')"
  by (auto simp: dmap_err_def split: prod.splits outcome.splits)

lemma db_statement_OkD: "db_statement f db = (Ok x, db') \<Longrightarrow> f (db\<lparr>fd_faults := tl (fd_faults db)\<rparr>) = (Ok x, db')"
  by (auto simp: db_statement_def dmap_err_Ok_iff dest: fstatement_OkD)

lemma ftransaction_cases:
  obtains (commits) x db' where "ftransaction body db = (Ok x, db')" "body db = (Ok x, db')"
  | (rolls_back) r db' where "ftransaction body db = (r, db')" "\<forall>x. r \<noteq> Ok x" "same_tables db db'"
  by (cases "body db"; cases "fst (body db)") (auto simp: ftransaction_def same_tables_def)

lemma begin_or_commit_Ok: "begin_or_commit db = (Ok u, db') \<Longrightarrow> db' = db\<lparr>fd_faults := tl (fd_faults db)\<rparr>"
  unfolding begin_or_commit_def by (drule db_statement_OkD) simp

text \<open>The variants of a flag as they are stored: in the order of the request, with fresh identifiers.\<close>

definition variant_rows :: "uuid \<Rightarrow> nat \<Rightarrow> flag_variant list \<Rightarrow> flag_variant list \<Rightarrow> bool" where
  "variant_rows i ordinal vs rs \<longleftrightarrow> map fv_value rs = map fv_value vs \<and> map fv_traffic_fraction rs = map fv_traffic_fraction vs \<and>
     map fv_flag_id rs = replicate (length vs) i \<and> map fv_ordinal rs = map (\<lambda>j. i64_as_i32 (int j)) [ordinal..<ordinal + length vs]"

lemma insert_variants_Ok:
  "insert_variants pg i ord vs db = (Ok u, db') \<Longrightarrow>
    \<exists>rs n fs. db' = db\<lparr>fd_variants := fd_variants db @ rs, fd_next := n, fd_faults := fs\<rparr> \<and> variant_rows i ord vs rs"
proof (induction vs arbitrary: ord db)
  case Nil
  then show ?case
    by (intro exI [of _ "[]"] exI [of _ "fd_next db"] exI [of _ "fd_faults db"]) (cases db; simp add: dreturn_def variant_rows_def)
next
  case (Cons v vs)
  then obtain db1 x where 1: "db_statement (insert_variant_row pg i ord v) db = (Ok x, db1)" "insert_variants pg i (Suc ord) vs db1 = (Ok u, db')"
    by (auto simp: dbind_Ok)
  from db_statement_OkD [OF this(1)] obtain r where r: "db1 = db\<lparr>fd_faults := tl (fd_faults db), fd_next := fd_next db + 1, fd_variants := fd_variants db @ [r]\<rparr>"
    "fv_value r = fv_value v" "fv_traffic_fraction r = fv_traffic_fraction v" "fv_flag_id r = i" "fv_ordinal r = i64_as_i32 (int ord)"
    by (auto simp: insert_variant_row_def Let_def split: if_splits)
  from Cons.IH [OF 1(2)] obtain rs n fs where rs: "db' = db1\<lparr>fd_variants := fd_variants db1 @ rs, fd_next := n, fd_faults := fs\<rparr>"
    "variant_rows i (Suc ord) vs rs" by blast
  have "variant_rows i ord (v # vs) (r # rs)" using rs(2) r by (auto simp: variant_rows_def upt_conv_Cons simp del: upt_Suc)
  then show ?case using rs(1) r(1) by (intro exI [of _ "r # rs"]) auto
qed

lemma variant_rows_sorted:
  assumes "variant_rows i 0 vs rs" "length vs < 2 ^ 31" "\<forall>v \<in> set old. fv_flag_id v \<noteq> i"
  shows "sort_key fv_ordinal (filter (\<lambda>v. fv_flag_id v = i) (old @ rs)) = rs"
proof -
  have "map fv_ordinal rs = map int [0..<length vs]"
    using assms(1,2) by (auto simp: variant_rows_def i64_as_i32_id is_i32_def)
  moreover have "sorted (map int [0..<length vs])" by (simp add: sorted_map sorted_wrt_upt sorted_wrt_mono_rel [of _ "(<)"])
  ultimately have "sorted (map fv_ordinal rs)" by simp
  moreover have "filter (\<lambda>v. fv_flag_id v = i) rs = rs"
    using assms(1) unfolding variant_rows_def filter_id_conv by (metis in_set_replicate list.set_map image_eqI)
  moreover have "filter (\<lambda>v. fv_flag_id v = i) old = []" using assms(3) by simp
  ultimately show ?thesis by (simp add: sort_key_id_if_sorted)
qed

end
