(* ===== verification/Flag_Writes.thy ===== *)
theory Flag_Writes
  imports Flag_Store
begin

text \<open>
  What the writing operations of the flag store do: \<^verbatim>\<open>create_flag\<close> and \<^verbatim>\<open>update_flag\<close> are one transaction
  and a read, so either nothing changes or the flag is stored as a whole.
\<close>

section \<open>Outcomes of the transactions\<close>

text \<open>What a row and its variants hold of the flag that was written.\<close>

definition holds_flag :: "flag_database \<Rightarrow> flag_row \<Rightarrow> flag \<Rightarrow> bool" where
  "holds_flag db r f \<longleftrightarrow>
     fl_name r = fl_name f \<and> fl_description r = fl_description f \<and> fl_flag_type r = fl_flag_type f \<and>
     fl_default_value r = fl_default_value f \<and> fl_enabled r = fl_enabled f \<and>
     fl_rollout_percentage r = fl_rollout_percentage f \<and> fl_targeting_rule_id r = fl_targeting_rule_id f \<and>
     map (\<lambda>v. (fv_value v, fv_traffic_fraction v)) (fl_variants (stored_flag db r)) =
       map (\<lambda>v. (fv_value v, fv_traffic_fraction v)) (fl_variants f)"

lemma map_pairs: "map f xs = map f ys \<Longrightarrow> map g xs = map g ys \<Longrightarrow> map (\<lambda>v. (f v, g v)) xs = map (\<lambda>v. (f v, g v)) ys"
  by (auto simp: list_eq_iff_nth_eq)

lemma variant_rows_pairs:
  "variant_rows i k vs rs \<Longrightarrow> map (\<lambda>v. (fv_value v, fv_traffic_fraction v)) rs = map (\<lambda>v. (fv_value v, fv_traffic_fraction v)) vs"
  unfolding variant_rows_def by (elim conjE) (rule map_pairs)

lemma intact_variant_flag: "intact R db \<Longrightarrow> v \<in> set (fd_variants db) \<Longrightarrow> fv_flag_id v \<in> flag_ids db"
  by (simp add: intact_def flag_ids_def)

interpretation unchanged: table_property "same_tables db" for db
  by unfold_locales (simp_all add: same_tables_def)

lemma store_get_flag_Ok:
  assumes "store_get_flag i db = (Ok g, db')"
  shows "\<exists>r. find (\<lambda>r. fl_flag_id r = i) (fd_flags db) = Some r \<and> g = stored_flag db r"
proof -
  from assms obtain x d1 r d2 where 1: "db_statement (\<lambda>db. (Ok (find (\<lambda>r. fl_flag_id r = i) (fd_flags db)), db)) db = (Ok x, d1)"
    "ok_or (FlagNotFound i) x = Ok r" "with_variants r d1 = (Ok g, d2)"
    by (auto simp: store_get_flag_def dbind_Ok dreturn_def)
  have x: "x = find (\<lambda>r. fl_flag_id r = i) (fd_flags db)" "d1 = db\<lparr>fd_faults := tl (fd_faults db)\<rparr>"
    using db_statement_OkD [OF 1(1)] by auto
  from 1(3) obtain vs d3 where "db_statement (\<lambda>db. (Ok (sort_key fv_ordinal (filter (\<lambda>v. fv_flag_id v = fl_flag_id r) (fd_variants db))), db)) d1 = (Ok vs, d3)"
    "g = (flag_of_row r)\<lparr>fl_variants := vs\<rparr>"
    by (auto simp: with_variants_def get_flag_variants_def dbind_Ok dreturn_def)
  then have "g = stored_flag db r" using db_statement_OkD x(2) by (fastforce simp: stored_flag_def)
  then show ?thesis using x(1) 1(2) by (simp add: ok_or_Ok_iff)
qed

lemma get_keeps: "same_tables db (snd (store_get_flag i db))"
  using unchanged.read_flag [of db i] by (auto simp: preserves_def same_tables_def)

lemma stored_flag_cong: "fd_variants db' = fd_variants db \<Longrightarrow> stored_flag db' r = stored_flag db r"
  by (simp add: stored_flag_def)

lemma stored_variants:
  "fl_variants (stored_flag db r) = sort_key fv_ordinal (filter (\<lambda>v. fv_flag_id v = fl_flag_id r) (fd_variants db))"
  by (simp add: stored_flag_def)

text \<open>What the transaction of \<^verbatim>\<open>create_flag\<close> does when it commits.\<close>

definition created :: "flag \<Rightarrow> uuid \<Rightarrow> flag_database \<Rightarrow> flag_database \<Rightarrow> bool" where
  "created f i db db' \<longleftrightarrow>
     (\<exists>r rs. fd_flags db' = fd_flags db @ [r] \<and> fd_variants db' = fd_variants db @ rs \<and> fd_audit db' = fd_audit db \<and>
        fl_flag_id r = i \<and> i \<notin> flag_ids db \<and> fl_salt r = fd_salts db (fd_next db) \<and> fl_promoted_experiment_id r = None \<and>
        fl_resolved_at r = None \<and> holds_flag db' r f)"

lemma create_commits:
  assumes "intact R db" "length (fl_variants f) < 2 ^ 31"
    and "(dbind begin_or_commit (\<lambda>_.
       dbind (dmap_err (name_error (fl_name f)) (fstatement (insert_flag_row pg f))) (\<lambda>row.
       dbind (insert_variants pg (fl_flag_id row) 0 (fl_variants f)) (\<lambda>_.
       dbind begin_or_commit (\<lambda>_. dreturn (Ok (fl_flag_id row))))))) db = (Ok i, db')"
  shows "created f i db db'"
proof -
  from assms(3) obtain u d1 r d2 u3 d3 u4 where
    1: "begin_or_commit db = (Ok u, d1)" "fstatement (insert_flag_row pg f) d1 = (Ok r, d2)"
      "insert_variants pg (fl_flag_id r) 0 (fl_variants f) d2 = (Ok u3, d3)" "begin_or_commit d3 = (Ok u4, db')" "i = fl_flag_id r"
    by (auto simp: dbind_Ok dmap_err_Ok_iff dreturn_def)
  note d1 = begin_or_commit_Ok [OF 1(1)]
  from fstatement_OkD [OF 1(2)] obtain new where r: "fd_flags d2 = fd_flags db @ [r]" "fd_variants d2 = fd_variants db" "fd_audit d2 = fd_audit db"
    "fl_name r = fl_name f" "fl_description r = fl_description f" "fl_flag_type r = fl_flag_type f" "fl_default_value r = fl_default_value f"
    "fl_enabled r = fl_enabled f" "fl_rollout_percentage r = fl_rollout_percentage f" "fl_targeting_rule_id r = fl_targeting_rule_id f"
    "fl_salt r = fd_salts db (fd_next db)" "fl_promoted_experiment_id r = None" "fl_resolved_at r = None"
    "row_violation (fd_rules db) (fd_flags db) r = None"
    by (auto simp: insert_flag_row_def Let_def d1 split: option.splits)
  from insert_variants_Ok [OF 1(3)] obtain rs n fs where rs: "d3 = d2\<lparr>fd_variants := fd_variants d2 @ rs, fd_next := n, fd_faults := fs\<rparr>"
    "variant_rows (fl_flag_id r) 0 (fl_variants f) rs" by blast
  have db': "fd_flags db' = fd_flags db @ [r]" "fd_variants db' = fd_variants db @ rs" "fd_audit db' = fd_audit db"
    using begin_or_commit_Ok [OF 1(4)] rs(1) r by simp_all
  have fresh: "fl_flag_id r \<notin> flag_ids db" using r(14) by (simp add: row_violation_None flag_ids_def)
  then have "\<forall>v \<in> set (fd_variants db). fv_flag_id v \<noteq> fl_flag_id r" using intact_variant_flag [OF assms(1)] by metis
  then have "fl_variants (stored_flag db' r) = rs" using variant_rows_sorted [OF rs(2) assms(2)] by (simp add: stored_variants db'(2))
  then have "holds_flag db' r f" using r variant_rows_pairs [OF rs(2)] by (simp add: holds_flag_def)
  then show ?thesis unfolding created_def using r db' fresh 1(5) by blast
qed

text \<open>Only the last two statements, the reads, can fail once the transaction has committed.\<close>

lemma begin_or_commit_ok: "fd_faults db = [] \<Longrightarrow> begin_or_commit db = (Ok (), db)"
  by (simp add: begin_or_commit_def db_statement_def dmap_err_def fstatement_ok)

lemma fstatement_faults:
  assumes "fstatement f db = (Ok x, db')" "\<And>d. fd_faults (snd (f d)) = fd_faults d"
  shows "fd_faults db' = tl (fd_faults db)"
  using assms(2) [of "db\<lparr>fd_faults := tl (fd_faults db)\<rparr>"] fstatement_OkD [OF assms(1)] by simp

lemma insert_row_faults: "fd_faults (snd (insert_flag_row pg f db)) = fd_faults db"
  "fd_faults (snd (insert_variant_row pg i ord v db)) = fd_faults db"
  by (simp_all add: insert_flag_row_def insert_variant_row_def Let_def split: option.split)

lemma insert_variants_faults:
  "insert_variants pg i ord vs db = (Ok u, db') \<Longrightarrow> fd_faults db' = drop (length vs) (fd_faults db)"
proof (induction vs arbitrary: ord db)
  case (Cons v vs)
  then obtain db1 x where 1: "db_statement (insert_variant_row pg i ord v) db = (Ok x, db1)" "insert_variants pg i (Suc ord) vs db1 = (Ok u, db')"
    by (auto simp: dbind_Ok)
  have "fd_faults db1 = tl (fd_faults db)"
    using 1(1) fstatement_faults [OF _ insert_row_faults(2)] by (auto simp: db_statement_def dmap_err_Ok_iff)
  then show ?case using Cons.IH [OF 1(2)] by (simp add: drop_Suc)
qed (simp add: dreturn_def)

lemma create_faults:
  assumes "(dbind begin_or_commit (\<lambda>_.
       dbind (dmap_err (name_error (fl_name f)) (fstatement (insert_flag_row pg f))) (\<lambda>row.
       dbind (insert_variants pg (fl_flag_id row) 0 (fl_variants f)) (\<lambda>_.
       dbind begin_or_commit (\<lambda>_. dreturn (Ok (fl_flag_id row))))))) db = (Ok i, db')"
  shows "fd_faults db' = drop (length (fl_variants f) + 3) (fd_faults db)"
proof -
  from assms obtain u d1 r d2 u3 d3 u4 where
    1: "begin_or_commit db = (Ok u, d1)" "fstatement (insert_flag_row pg f) d1 = (Ok r, d2)"
      "insert_variants pg (fl_flag_id r) 0 (fl_variants f) d2 = (Ok u3, d3)" "begin_or_commit d3 = (Ok u4, db')"
    by (auto simp: dbind_Ok dmap_err_Ok_iff dreturn_def)
  have "fd_faults d2 = tl (tl (fd_faults db))"
    using fstatement_faults [OF 1(2) insert_row_faults(1)] begin_or_commit_Ok [OF 1(1)] by simp
  then show ?thesis
    using insert_variants_faults [OF 1(3)] begin_or_commit_Ok [OF 1(4)] by (simp add: tl_drop drop_Suc add.commute eval_nat_numeral)
qed

lemma db_read_cases:
  "fst (db_statement (\<lambda>db. (Ok (g db), db)) db) = Ok (g (db\<lparr>fd_faults := tl (fd_faults db)\<rparr>)) \<or>
   (\<exists>msg. fst (db_statement (\<lambda>db. (Ok (g db), db)) db) = Err (FlagDb msg) \<and> Some msg \<in> set (fd_faults db))"
  by (auto simp: db_statement_def dmap_err_def fstatement_def Let_def split: list.split option.split)

lemma store_get_flag_cases:
  assumes "find (\<lambda>r. fl_flag_id r = i) (fd_flags db) = Some r" "store_get_flag i db = (res, db')"
  shows "res = Ok (stored_flag db r) \<or> (\<exists>msg. res = Err (FlagDb msg) \<and> Some msg \<in> set (fd_faults db))"
proof -
  let ?d = "db\<lparr>fd_faults := tl (fd_faults db)\<rparr>"
  obtain row d1 where 1: "db_statement (\<lambda>db. (Ok (find (\<lambda>r. fl_flag_id r = i) (fd_flags db)), db)) db = (row, d1)" by fastforce
  obtain vs d2 where 2: "db_statement (\<lambda>db. (Ok (sort_key fv_ordinal (filter (\<lambda>v. fv_flag_id v = fl_flag_id r) (fd_variants db))), db)) ?d = (vs, d2)"
    by fastforce
  show ?thesis
  proof (cases "\<exists>x. row = Ok x")
    case True
    then have row: "row = Ok (Some r)" "d1 = ?d" using db_statement_OkD 1 assms(1) by fastforce+
    have "set (fd_faults ?d) \<subseteq> set (fd_faults db)" by (cases "fd_faults db") auto
    then show ?thesis
      using assms(2) 1 2 row db_read_cases [of "\<lambda>db. sort_key fv_ordinal (filter (\<lambda>v. fv_flag_id v = fl_flag_id r) (fd_variants db))" ?d]
      by (auto simp: store_get_flag_def dreturn_def with_variants_def get_flag_variants_def stored_flag_def dbind_def)
  next
    case False
    then show ?thesis
      using assms(2) 1 db_read_cases [of "\<lambda>db. find (\<lambda>r. fl_flag_id r = i) (fd_flags db)" db] by (auto simp: store_get_flag_def)
  qed
qed

text \<open>
  Without faults a creation succeeds exactly when the constraints of the tables hold of the request,
  provided the generator of identifiers does not repeat itself.
\<close>

definition acceptable_flag :: "flag_database \<Rightarrow> flag \<Rightarrow> bool" where
  "acceptable_flag db f \<longleftrightarrow>
     fl_flag_type f \<in> {''BOOLEAN'', ''STRING'', ''NUMERIC'', ''JSON''} \<and> in_unit_check (fl_rollout_percentage f) \<and>
     fl_name f \<notin> fl_name ` set (fd_flags db) \<and> (\<forall>u. fl_targeting_rule_id f = Some u \<longrightarrow> u \<in> set (fd_rules db)) \<and>
     (\<forall>v \<in> set (fl_variants f). in_unit_check (fv_traffic_fraction v))"

definition fresh_flag_ids :: "flag_database \<Rightarrow> bool" where
  "fresh_flag_ids db \<longleftrightarrow> inj (fd_ids db) \<and>
     (\<forall>n \<ge> fd_next db. fd_ids db n \<notin> flag_ids db \<and> fd_ids db n \<notin> fv_variant_id ` set (fd_variants db))"

lemma insert_variants_succeeds:
  assumes "fd_faults db = []" "i \<in> flag_ids db" "inj (fd_ids db)" "\<forall>n \<ge> fd_next db. fd_ids db n \<notin> fv_variant_id ` set (fd_variants db)"
  shows "(\<exists>db'. insert_variants pg i ord vs db = (Ok (), db')) \<longleftrightarrow> (\<forall>v \<in> set vs. in_unit_check (fv_traffic_fraction v))"
  using assms
proof (induction vs arbitrary: ord db)
  case (Cons v vs)
  show ?case
  proof (cases "in_unit_check (fv_traffic_fraction v)")
    case True
    then obtain db1 where db1: "insert_variant_row pg i ord v db = (Ok (), db1)" "fd_faults db1 = []" "flag_ids db1 = flag_ids db"
      "fd_ids db1 = fd_ids db" "fd_next db1 = fd_next db + 1"
      "fv_variant_id ` set (fd_variants db1) = insert (fd_ids db (fd_next db)) (fv_variant_id ` set (fd_variants db))"
      using Cons.prems by (simp add: insert_variant_row_def Let_def flag_ids_def)
    then have "db_statement (insert_variant_row pg i ord v) db = (Ok (), db1)"
      using Cons.prems(1) by (simp add: db_statement_def dmap_err_def fstatement_ok)
    moreover have "\<forall>n \<ge> fd_next db1. fd_ids db1 n \<notin> fv_variant_id ` set (fd_variants db1)"
      using Cons.prems(3,4) unfolding db1(4-6) by (auto simp: inj_eq)
    ultimately show ?thesis using Cons.IH [of db1 "Suc ord"] Cons.prems db1 True by simp
  next
    case False
    then show ?thesis
      using Cons.prems(1) by (simp add: db_statement_def dmap_err_def fstatement_ok insert_variant_row_def Let_def)
  qed
qed (simp add: dreturn_def)

lemma insert_flag_row_succeeds:
  assumes "fresh_flag_ids db"
  obtains r e where
    "insert_flag_row pg f db =
       (if acceptable_flag db (f\<lparr>fl_variants := []\<rparr>) then (Ok r, db\<lparr>fd_next := fd_next db + 1, fd_flags := fd_flags db @ [r]\<rparr>)
        else (Err e, db\<lparr>fd_next := fd_next db + 1\<rparr>))"
    "fl_flag_id r = fd_ids db (fd_next db)"
proof -
  define r where "r = \<lparr>fl_flag_id = fd_ids db (fd_next db), fl_name = fl_name f, fl_description = fl_description f,
    fl_flag_type = fl_flag_type f, fl_default_value = fl_default_value f, fl_enabled = fl_enabled f,
    fl_rollout_percentage = fl_rollout_percentage f, fl_salt = fd_salts db (fd_next db),
    fl_targeting_rule_id = fl_targeting_rule_id f, fl_created_at = fd_now db, fl_updated_at = fd_now db,
    fl_promoted_experiment_id = None, fl_promoted_at = None, fl_resolved_at = None\<rparr>"
  have "row_violation (fd_rules db) (fd_flags db) r = None \<longleftrightarrow> acceptable_flag db (f\<lparr>fl_variants := []\<rparr>)"
    using assms by (simp add: row_violation_None row_ok_def r_def acceptable_flag_def fresh_flag_ids_def flag_ids_def) blast
  then show ?thesis
    using that [of r "pg (the (row_violation (fd_rules db) (fd_flags db) r))"]
    by (cases "row_violation (fd_rules db) (fd_flags db) r") (simp_all add: insert_flag_row_def r_def Let_def)
qed

lemma create_flag_succeeds:
  assumes "fd_faults db = []" "fresh_flag_ids db"
  shows "(\<exists>i db'. (dbind begin_or_commit (\<lambda>_.
       dbind (dmap_err (name_error (fl_name f)) (fstatement (insert_flag_row pg f))) (\<lambda>row.
       dbind (insert_variants pg (fl_flag_id row) 0 (fl_variants f)) (\<lambda>_.
       dbind begin_or_commit (\<lambda>_. dreturn (Ok (fl_flag_id row))))))) db = (Ok i, db')) \<longleftrightarrow> acceptable_flag db f"
proof -
  obtain r e where run: "insert_flag_row pg f db =
       (if acceptable_flag db (f\<lparr>fl_variants := []\<rparr>) then (Ok r, db\<lparr>fd_next := fd_next db + 1, fd_flags := fd_flags db @ [r]\<rparr>)
        else (Err e, db\<lparr>fd_next := fd_next db + 1\<rparr>))" "fl_flag_id r = fd_ids db (fd_next db)"
    by (rule insert_flag_row_succeeds [OF assms(2)])
  show ?thesis
  proof (cases "acceptable_flag db (f\<lparr>fl_variants := []\<rparr>)")
    case True
    let ?d = "db\<lparr>fd_next := fd_next db + 1, fd_flags := fd_flags db @ [r]\<rparr>"
    have ins: "dmap_err (name_error (fl_name f)) (fstatement (insert_flag_row pg f)) db = (Ok r, ?d)"
      using run True assms(1) by (simp add: dmap_err_def fstatement_ok)
    have vs: "(\<exists>db'. insert_variants pg (fl_flag_id r) 0 (fl_variants f) ?d = (Ok (), db')) \<longleftrightarrow> (\<forall>v \<in> set (fl_variants f). in_unit_check (fv_traffic_fraction v))"
      using assms by (intro insert_variants_succeeds) (auto simp: flag_ids_def fresh_flag_ids_def)
    have "fd_faults db' = []" if "insert_variants pg (fl_flag_id r) 0 (fl_variants f) ?d = (Ok (), db')" for db'
      using insert_variants_faults [OF that] assms(1) by simp
    then have "(\<exists>i db'. dbind (insert_variants pg (fl_flag_id r) 0 (fl_variants f)) (\<lambda>_. dbind begin_or_commit (\<lambda>_. dreturn (Ok (fl_flag_id r)))) ?d = (Ok i, db')) \<longleftrightarrow>
      (\<exists>db'. insert_variants pg (fl_flag_id r) 0 (fl_variants f) ?d = (Ok (), db'))"
      by (auto simp: dbind_Ok dreturn_def begin_or_commit_ok) 
    then show ?thesis using True vs by (simp add: begin_or_commit_ok [OF assms(1)] ins acceptable_flag_def)
  next
    case False
    then have "\<exists>e d. dmap_err (name_error (fl_name f)) (fstatement (insert_flag_row pg f)) db = (Err e, d)"
      using run(1) assms(1) by (auto simp: dmap_err_def fstatement_ok split: prod.split)
    then show ?thesis using False by (auto simp: begin_or_commit_ok [OF assms(1)] acceptable_flag_def)
  qed
qed

text \<open>
  C35: Creating a flag is atomic and reads back. Either the tables are as before and the answer is no flag, or
  the flag is stored under a fresh identifier with a fresh salt, its fields and its variants in the order
  of the request, and no other flag is touched; the answer is then the stored flag, unless one of the
  reads after the commit failed, whose database error it is. When no statement fails and the generator of
  identifiers does not repeat itself, a flag is answered exactly if the constraints of the tables admit it.
\<close>

theorem created_flag_reads_back:
  assumes "intact R db" "length (fl_variants f) < 2 ^ 31" "store_create_flag pg f db = (res, db')"
  shows "((same_tables db db' \<and> (\<forall>g. res \<noteq> Ok g)) \<or>
     (\<exists>i. created f i db db' \<and> (\<exists>r \<in> set (fd_flags db'). fl_flag_id r = i \<and>
        (res = Ok (stored_flag db' r) \<or>
         (\<exists>msg. res = Err (FlagDb msg) \<and> Some msg \<in> set (drop (length (fl_variants f) + 3) (fd_faults db))))))) \<and>
    (fd_faults db = [] \<and> fresh_flag_ids db \<longrightarrow> ((\<exists>g. res = Ok g) \<longleftrightarrow> acceptable_flag db f))"
proof -
  let ?body = "dbind begin_or_commit (\<lambda>_.
       dbind (dmap_err (name_error (fl_name f)) (fstatement (insert_flag_row pg f))) (\<lambda>row.
       dbind (insert_variants pg (fl_flag_id row) 0 (fl_variants f)) (\<lambda>_.
       dbind begin_or_commit (\<lambda>_. dreturn (Ok (fl_flag_id row))))))"
  have run: "dbind (ftransaction ?body) store_get_flag db = (res, db')" using assms(3) by (simp add: store_create_flag_def)
  show ?thesis
  proof (cases rule: ftransaction_cases [of ?body db])
    case (commits i d1)
    then have c: "created f i db d1" using create_commits [OF assms(1,2)] by blast
    have faults: "fd_faults d1 = drop (length (fl_variants f) + 3) (fd_faults db)" by (rule create_faults [OF commits(2)])
    have g: "store_get_flag i d1 = (res, db')" using run commits(1) by simp
    then have same: "same_tables d1 db'" using get_keeps [of d1 i] by simp
    then have c': "created f i db db'" using c by (simp add: created_def same_tables_def holds_flag_def stored_flag_cong [of db' d1])
    have "find (\<lambda>r. fl_flag_id r = i) (fd_flags d1) \<noteq> None" using c by (auto simp: created_def find_None_iff)
    then obtain r where r: "find (\<lambda>r. fl_flag_id r = i) (fd_flags d1) = Some r" by blast
    then have r': "r \<in> set (fd_flags db')" "fl_flag_id r = i" "stored_flag d1 r = stored_flag db' r"
      using find_row [OF r] same stored_flag_cong [of db' d1 r] by (auto simp: same_tables_def)
    have answer: "res = Ok (stored_flag db' r) \<or> (\<exists>msg. res = Err (FlagDb msg) \<and> Some msg \<in> set (drop (length (fl_variants f) + 3) (fd_faults db)))"
      using store_get_flag_cases [OF r g] faults r'(3) by simp
    have "(\<exists>g. res = Ok g) \<longleftrightarrow> acceptable_flag db f" if "fd_faults db = []" "fresh_flag_ids db"
      using answer that create_flag_succeeds [of db f pg] commits(2) by auto
    then show ?thesis using c' r'(1,2) answer by blast
  next
    case (rolls_back r d1)
    then have none: "\<forall>x. res \<noteq> Ok x" "db' = d1" using run by (cases r; auto simp: dbind_def)+
    have "\<not> (\<exists>i d. ?body db = (Ok i, d))" using rolls_back(1,2) by (auto simp: ftransaction_def)
    then show ?thesis using rolls_back(3) none create_flag_succeeds [of db f pg] by blast
  qed
qed

text \<open>What the transaction of \<^verbatim>\<open>update_flag\<close> does when it commits: the salt, the times and the promotion stay.\<close>

definition rewritten :: "flag \<Rightarrow> int \<Rightarrow> flag_row \<Rightarrow> flag_row" where
  "rewritten f now r =
     r\<lparr>fl_name := fl_name f, fl_description := fl_description f, fl_flag_type := fl_flag_type f,
       fl_default_value := fl_default_value f, fl_enabled := fl_enabled f,
       fl_rollout_percentage := fl_rollout_percentage f, fl_targeting_rule_id := fl_targeting_rule_id f,
       fl_updated_at := now\<rparr>"

definition updated :: "flag \<Rightarrow> flag_database \<Rightarrow> flag_database \<Rightarrow> bool" where
  "updated f db db' \<longleftrightarrow>
     (\<exists>r. find (\<lambda>r. fl_flag_id r = fl_flag_id f) (fd_flags db) = Some r \<and>
        fd_flags db' = map (\<lambda>x. if fl_flag_id x = fl_flag_id f then rewritten f (fd_now db) r else x) (fd_flags db) \<and>
        filter (\<lambda>v. fv_flag_id v \<noteq> fl_flag_id f) (fd_variants db') = filter (\<lambda>v. fv_flag_id v \<noteq> fl_flag_id f) (fd_variants db) \<and>
        fd_audit db' = fd_audit db \<and> holds_flag db' (rewritten f (fd_now db) r) f)"

lemma variant_rows_flag: "variant_rows i k vs rs \<Longrightarrow> v \<in> set rs \<Longrightarrow> fv_flag_id v = i"
  unfolding variant_rows_def by (metis image_eqI in_set_replicate list.set_map)

lemma unique_row:
  assumes "intact R db" "r \<in> set (fd_flags db)" "r' \<in> set (fd_flags db)" "fl_flag_id r = fl_flag_id r'"
  shows "r = r'"
  using assms by (auto simp: intact_def distinct_map dest: inj_onD)

lemma update_flag_row_Ok:
  assumes "intact R db" "update_flag_row pg i upd db = (Ok n, db')" "n \<noteq> 0"
  shows "\<exists>r. find (\<lambda>r. fl_flag_id r = i) (fd_flags db) = Some r \<and>
    db' = db\<lparr>fd_flags := map (\<lambda>x. if fl_flag_id x = i then upd (fd_now db) r else x) (fd_flags db)\<rparr>"
proof -
  from assms(2,3) obtain r where r: "find (\<lambda>r. fl_flag_id r = i) (fd_flags db) = Some r"
    "db' = db\<lparr>fd_flags := map (\<lambda>x. if fl_flag_id x = i then upd (fd_now db) x else x) (fd_flags db)\<rparr>"
    by (auto simp: update_flag_row_def split: option.splits)
  have "x = r" if "x \<in> set (fd_flags db)" "fl_flag_id x = i" for x
    using unique_row [OF assms(1) that(1)] find_row [OF r(1)] that(2) by simp
  then have "map (\<lambda>x. if fl_flag_id x = i then upd (fd_now db) x else x) (fd_flags db) =
      map (\<lambda>x. if fl_flag_id x = i then upd (fd_now db) r else x) (fd_flags db)" by (intro map_cong) auto
  with r show ?thesis by simp
qed

lemma update_commits:
  assumes "intact R db" "length (fl_variants f) < 2 ^ 31"
    and "(dbind begin_or_commit (\<lambda>_.
       dbind (dmap_err (name_error (fl_name f)) (fstatement (update_flag_row pg (fl_flag_id f) (rewritten f)))) (\<lambda>n.
       dbind (affected (fl_flag_id f) n) (\<lambda>_.
       dbind (db_statement (\<lambda>db. (Ok (), db\<lparr>fd_variants := filter (\<lambda>v. fv_flag_id v \<noteq> fl_flag_id f) (fd_variants db)\<rparr>))) (\<lambda>_.
       dbind (insert_variants pg (fl_flag_id f) 0 (fl_variants f)) (\<lambda>_.
         begin_or_commit)))))) db = (Ok u, db')"
  shows "updated f db db'"
proof -
  let ?i = "fl_flag_id f"
  from assms(3) obtain u1 d1 n d2 u2 d3 u3 d4 where
    1: "begin_or_commit db = (Ok u1, d1)" "fstatement (update_flag_row pg ?i (rewritten f)) d1 = (Ok n, d2)" "n \<noteq> 0"
      "db_statement (\<lambda>db. (Ok (), db\<lparr>fd_variants := filter (\<lambda>v. fv_flag_id v \<noteq> ?i) (fd_variants db)\<rparr>)) d2 = (Ok u2, d3)"
      "insert_variants pg ?i 0 (fl_variants f) d3 = (Ok u3, d4)" "begin_or_commit d4 = (Ok u, db')"
    by (auto simp: dbind_Ok dmap_err_Ok_iff dreturn_def affected_def split: if_splits)
  note d1 = begin_or_commit_Ok [OF 1(1)]
  have ok: "intact R (d1\<lparr>fd_faults := tl (fd_faults d1)\<rparr>)" using assms(1) by (simp add: d1 intact_def)
  from update_flag_row_Ok [OF ok fstatement_OkD [OF 1(2)] 1(3)] obtain r where
    r: "find (\<lambda>r. fl_flag_id r = ?i) (fd_flags db) = Some r"
      "fd_flags d2 = map (\<lambda>x. if fl_flag_id x = ?i then rewritten f (fd_now db) r else x) (fd_flags db)"
      "fd_variants d2 = fd_variants db" "fd_audit d2 = fd_audit db"
    by (auto simp: d1)
  have d3: "d3 = d2\<lparr>fd_faults := tl (fd_faults d2), fd_variants := filter (\<lambda>v. fv_flag_id v \<noteq> ?i) (fd_variants db)\<rparr>"
    using db_statement_OkD [OF 1(4)] r(3) by simp
  from insert_variants_Ok [OF 1(5)] obtain rs n fs where rs: "d4 = d3\<lparr>fd_variants := fd_variants d3 @ rs, fd_next := n, fd_faults := fs\<rparr>"
    "variant_rows ?i 0 (fl_variants f) rs" by blast
  have db': "fd_flags db' = fd_flags d2" "fd_variants db' = filter (\<lambda>v. fv_flag_id v \<noteq> ?i) (fd_variants db) @ rs" "fd_audit db' = fd_audit db"
    using begin_or_commit_Ok [OF 1(6)] rs(1) d3 r(4) by simp_all
  have id: "fl_flag_id (rewritten f (fd_now db) r) = ?i" using find_row [OF r(1)] by (simp add: rewritten_def)
  have "fl_variants (stored_flag db' (rewritten f (fd_now db) r)) = rs"
    using variant_rows_sorted [OF rs(2) assms(2), of "[]"] by (simp add: stored_variants db'(2) id)
  then have "holds_flag db' (rewritten f (fd_now db) r) f"
    using variant_rows_pairs [OF rs(2)] by (simp add: holds_flag_def) (simp add: rewritten_def)
  moreover have "filter (\<lambda>v. fv_flag_id v \<noteq> ?i) rs = []"
    using variant_rows_flag [OF rs(2)] by (simp add: filter_empty_conv)
  ultimately show ?thesis unfolding updated_def using r db' by auto
qed

text \<open>
  Updating a flag is atomic: either the tables are as before and the answer is an error, or exactly the
  row and the variants of that flag are replaced by what the request says. The salt, the link to an
  experiment and its resolution are never touched, so the users of the flag keep their buckets; an answer
  without error is the stored flag.
\<close>

theorem update_keeps_identity:
  assumes "intact R db" "length (fl_variants f) < 2 ^ 31" "store_update_flag pg f db = (res, db')"
  shows "(same_tables db db' \<and> (\<forall>g. res \<noteq> Ok g)) \<or>
    (updated f db db' \<and> (\<forall>r. find (\<lambda>r. fl_flag_id r = fl_flag_id f) (fd_flags db) = Some r \<longrightarrow>
       (\<forall>g. res = Ok g \<longrightarrow> g = stored_flag db' (rewritten f (fd_now db) r) \<and> fl_salt g = fl_salt r \<and>
          fl_promoted_experiment_id g = fl_promoted_experiment_id r \<and> fl_resolved_at g = fl_resolved_at r)))"
proof -
  let ?i = "fl_flag_id f"
  let ?body = "dbind begin_or_commit (\<lambda>_.
       dbind (dmap_err (name_error (fl_name f)) (fstatement (update_flag_row pg ?i (rewritten f)))) (\<lambda>n.
       dbind (affected ?i n) (\<lambda>_.
       dbind (db_statement (\<lambda>db. (Ok (), db\<lparr>fd_variants := filter (\<lambda>v. fv_flag_id v \<noteq> ?i) (fd_variants db)\<rparr>))) (\<lambda>_.
       dbind (insert_variants pg ?i 0 (fl_variants f)) (\<lambda>_. begin_or_commit)))))"
  have run: "dbind (ftransaction ?body) (\<lambda>_. store_get_flag ?i) db = (res, db')"
    using assms(3) unfolding store_update_flag_def rewritten_def by simp
  show ?thesis
  proof (cases rule: ftransaction_cases [of ?body db])
    case (commits u d1)
    then have c: "updated f db d1" using update_commits [OF assms(1,2)] by blast
    have g: "store_get_flag ?i d1 = (res, db')" using run commits(1) by simp
    then have same: "same_tables d1 db'" using get_keeps [of d1 ?i] by simp
    then have "updated f db db'" using c by (simp add: updated_def same_tables_def holds_flag_def stored_flag_cong [of db' d1])
    moreover have "x = stored_flag db' (rewritten f (fd_now db) r)" if r: "find (\<lambda>r. fl_flag_id r = ?i) (fd_flags db) = Some r" and ok: "res = Ok x" for x r
    proof -
      obtain r' where r': "find (\<lambda>r. fl_flag_id r = ?i) (fd_flags d1) = Some r'" "x = stored_flag d1 r'"
        using store_get_flag_Ok [of ?i d1 x db'] g ok by auto
      have "r' = rewritten f (fd_now db) r"
        using find_row [OF r'(1)] c r find_row [OF r] by (auto simp: updated_def split: if_splits)
      then show ?thesis using r'(2) same stored_flag_cong [of db' d1] by (simp add: same_tables_def)
    qed
    moreover have "fl_salt (stored_flag db' (rewritten f (fd_now db) r)) = fl_salt r"
      "fl_promoted_experiment_id (stored_flag db' (rewritten f (fd_now db) r)) = fl_promoted_experiment_id r"
      "fl_resolved_at (stored_flag db' (rewritten f (fd_now db) r)) = fl_resolved_at r" for r
      by (simp_all add: stored_flag_def flag_of_row_def rewritten_def flag_row.defs)
    ultimately show ?thesis by blast
  next
    case (rolls_back r d1)
    then have "\<forall>x. res \<noteq> Ok x" "db' = d1" using run by (cases r; auto simp: dbind_def)+
    then show ?thesis using rolls_back(3) by blast
  qed
qed

end
