(* ===== verification/Flag_Service.thy ===== *)
theory Flag_Service
  imports Flag_Writes
begin

text \<open>
  The flag service (\<^verbatim>\<open>grpc.rs\<close>), the reconciler (\<^verbatim>\<open>reconciler.rs\<close>), the consumer of lifecycle events
  (\<^verbatim>\<open>kafka.rs\<close>) and the admin endpoints (\<^verbatim>\<open>admin.rs\<close>), each request as a function on the database.
  The management service M5, the generation of identifiers, the decoding of messages and the rendering of
  times are fields of \<open>flags_handler\<close>.
\<close>

section \<open>The experiment of a promoted flag\<close>

record promoted_variant =
  prv_variant_id :: string
  prv_name :: string
  prv_traffic_fraction :: f64
  prv_is_control :: bool
  prv_payload_json :: string

record promoted_interleaving =
  pri_method :: int
  pri_algorithm_ids :: "string list"
  pri_credit_assignment :: int
  pri_credit_metric_event :: string
  pri_max_list_size :: int

record promoted_session =
  prs_session_id_attribute :: string
  prs_allow_cross_session_variation :: bool
  prs_min_sessions_per_user :: int

record promoted_arm =
  pra_arm_id :: string
  pra_name :: string
  pra_payload_json :: string

record promoted_bandit =
  prb_algorithm :: int
  prb_arms :: "promoted_arm list"
  prb_min_exploration_fraction :: f64
  prb_warmup_observations :: int

record promoted_experiment =
  prx_experiment_id :: string
  prx_name :: string
  prx_description :: string
  prx_owner_email :: string
  prx_type :: int
  prx_state :: int
  prx_layer_id :: string
  prx_variants :: "promoted_variant list"
  prx_primary_metric_id :: string
  prx_secondary_metric_ids :: "string list"
  prx_targeting_rule_id :: string
  prx_hash_salt :: string
  prx_is_cumulative_holdout :: bool
  prx_interleaving :: "promoted_interleaving option"
  prx_session :: "promoted_session option"
  prx_bandit :: "promoted_bandit option"

definition default_experiment :: promoted_experiment where
  "default_experiment =
     \<lparr>prx_experiment_id = [], prx_name = [], prx_description = [], prx_owner_email = [], prx_type = 0, prx_state = 0,
      prx_layer_id = [], prx_variants = [], prx_primary_metric_id = [], prx_secondary_metric_ids = [],
      prx_targeting_rule_id = [], prx_hash_salt = [], prx_is_cumulative_holdout = False, prx_interleaving = None,
      prx_session = None, prx_bandit = None\<rparr>"

text \<open>\<^verbatim>\<open>{"value": s}\<close> with an already quoted \<open>s\<close>.\<close>

definition value_payload :: "string \<Rightarrow> string" where
  "value_payload quoted = ''{'' @ [CHR 0x22] @ ''value'' @ [CHR 0x22] @ '': '' @ quoted @ ''}''"

definition quoted :: "string \<Rightarrow> string" where
  "quoted s = [CHR 0x22] @ s @ [CHR 0x22]"

definition build_variants :: "flag_env \<Rightarrow> flag \<Rightarrow> promoted_variant list" where
  "build_variants env f =
     (if fl_variants f \<noteq> []
      then map (\<lambda>(i, v). \<lparr>prv_variant_id = fv_variant_id v, prv_name = ''variant_'' @ show_nat i,
                 prv_traffic_fraction = fv_traffic_fraction v, prv_is_control = (i = 0),
                 prv_payload_json = value_payload (debug_str (fe_wide env) (fv_value v))\<rparr>)
             (zip [0..<length (fl_variants f)] (fl_variants f))
      else [\<lparr>prv_variant_id = [], prv_name = ''control'', prv_traffic_fraction = f64_sub (Fin 1) (fl_rollout_percentage f),
             prv_is_control = True, prv_payload_json = value_payload (quoted ''false'')\<rparr>,
            \<lparr>prv_variant_id = [], prv_name = ''treatment'', prv_traffic_fraction = fl_rollout_percentage f,
             prv_is_control = False, prv_payload_json = value_payload (quoted ''true'')\<rparr>])"

definition build_bandit_config :: "flag_env \<Rightarrow> int \<Rightarrow> flag \<Rightarrow> promoted_bandit" where
  "build_bandit_config env algo f =
     \<lparr>prb_algorithm = algo,
      prb_arms = map (\<lambda>v. \<lparr>pra_arm_id = fv_variant_id v, pra_name = fv_value v,
        pra_payload_json = value_payload (debug_str (fe_wide env) (fv_value v))\<rparr>) (fl_variants f),
      prb_min_exploration_fraction = f64_round (1 / 10), prb_warmup_observations = 1000\<rparr>"

definition apply_type_config :: "flag_env \<Rightarrow> flag \<Rightarrow> promoted_experiment \<Rightarrow> (status, promoted_experiment) outcome" where
  "apply_type_config env f x =
     (let t = prx_type x; few = length (fl_variants f) < 2 in
      if t = 8 then Ok (x\<lparr>prx_is_cumulative_holdout := True\<rparr>)
      else if t = 3
      then if few then Err (Status InvalidArgument ''interleaving requires at least 2 variants (algorithm_ids)'')
           else Ok (x\<lparr>prx_interleaving := Some \<lparr>pri_method = 1, pri_algorithm_ids = map fv_value (fl_variants f),
             pri_credit_assignment = 1, pri_credit_metric_event = [], pri_max_list_size = 50\<rparr>\<rparr>)
      else if t = 4
      then Ok (x\<lparr>prx_session := Some \<lparr>prs_session_id_attribute = ''session_id'', prs_allow_cross_session_variation = True,
             prs_min_sessions_per_user = 0\<rparr>\<rparr>)
      else if t = 6
      then if few then Err (Status InvalidArgument ''MAB requires at least 2 variants (arms)'')
           else Ok (x\<lparr>prx_bandit := Some (build_bandit_config env 1 f)\<rparr>)
      else if t = 7
      then if few then Err (Status InvalidArgument ''contextual bandit requires at least 2 variants (arms)'')
           else Ok (x\<lparr>prx_bandit := Some (build_bandit_config env 2 f)\<rparr>)
      else Ok x)"

section \<open>The handler\<close>

record flags_handler =
  fh_env :: flag_env
  fh_texts :: flag_texts
  fh_audit :: bool
  fh_default_layer_id :: string
  fh_m5_create :: "(promoted_experiment \<Rightarrow> (string, promoted_experiment) outcome) option"
  fh_m5_state :: "uuid \<Rightarrow> (string, int) outcome"
  fh_new_uuid :: uuid
  fh_rfc3339 :: "int \<Rightarrow> string"
  fh_serde_time :: "int \<Rightarrow> string"
  fh_decode_event :: "string \<Rightarrow> (string \<times> string) option"

fun flag_err_to_status :: "flag_store_error \<Rightarrow> status" where
  "flag_err_to_status (FlagNotFound msg) = Status NotFound msg"
| "flag_err_to_status (FlagAlreadyExists msg) = Status AlreadyExists msg"
| "flag_err_to_status InvalidPageToken = Status InvalidArgument ''invalid page token''"
| "flag_err_to_status (FlagDb e) = Status Internal (''database error: '' @ e)"

definition flag_store :: "(flag_store_error, 'a) flag_op \<Rightarrow> (status, 'a) flag_op" where
  "flag_store m = dmap_err flag_err_to_status m"

definition record_audit_nonfatal ::
  "flags_handler \<Rightarrow> uuid \<Rightarrow> string \<Rightarrow> string \<Rightarrow> flag option \<Rightarrow> flag option \<Rightarrow> ('e, unit) flag_op" where
  "record_audit_nonfatal h i action actor prev cur =
     (let snap = (\<lambda>f. case f of None \<Rightarrow> JNull | Some f \<Rightarrow> flag_snapshot f) in
      if fh_audit h then ignore (record_flag_audit (fh_texts h) i action actor (snap prev) (snap cur)) else dreturn (Ok ()))"

text \<open>\<^verbatim>\<open>op.await.ok()\<close>\<close>

definition tried :: "('e, 'a) flag_op \<Rightarrow> ('f, 'a option) flag_op" where
  "tried m db = (case m db of (Ok x, db') \<Rightarrow> (Ok (Some x), db') | (Err e, db') \<Rightarrow> (Ok None, db') | (Panic, db') \<Rightarrow> (Panic, db'))"

definition domain_of :: "flags_handler \<Rightarrow> proto_flag \<Rightarrow> (status, flag) flag_op" where
  "domain_of h pb db = (flag_proto_to_domain (fh_env h) (fd_now db) pb, db)"

definition parsed_id :: "flags_handler \<Rightarrow> string \<Rightarrow> (status, uuid) flag_op" where
  "parsed_id h s = dreturn (ok_or (Status InvalidArgument ''invalid flag_id UUID'') (fe_parse_uuid (fh_env h) s))"

definition required :: "string \<Rightarrow> string \<Rightarrow> (status, unit) flag_op" where
  "required name s = dreturn (if s = [] then Err (Status InvalidArgument (name @ '' is required'')) else Ok ())"

section \<open>Requests\<close>

definition create_flag :: "flags_handler \<Rightarrow> proto_flag option \<Rightarrow> (status, proto_flag) flag_op" where
  "create_flag h req =
     dbind (dreturn (ok_or (Status InvalidArgument ''flag is required'') req)) (\<lambda>pb.
     dbind (dreturn (validate_flag (fh_env h) pb)) (\<lambda>_.
     dbind (domain_of h pb) (\<lambda>domain.
     dbind (flag_store (store_create_flag (fh_texts h) domain)) (\<lambda>f.
     dbind (record_audit_nonfatal h (fl_flag_id f) ''create'' ''system'' None (Some f)) (\<lambda>_.
       dreturn (Ok (flag_domain_to_proto f)))))))"

definition get_flag :: "flags_handler \<Rightarrow> string \<Rightarrow> (status, proto_flag) flag_op" where
  "get_flag h flag_id =
     dbind (required ''flag_id'' flag_id) (\<lambda>_.
     dbind (parsed_id h flag_id) (\<lambda>i.
     dbind (flag_store (store_get_flag i)) (\<lambda>f. dreturn (Ok (flag_domain_to_proto f)))))"

definition update_action :: "flag option \<Rightarrow> flag \<Rightarrow> string" where
  "update_action prev f =
     (case prev of
        None \<Rightarrow> ''update''
      | Some p \<Rightarrow>
          if fl_enabled p \<noteq> fl_enabled f then if fl_enabled f then ''enable'' else ''disable''
          else if f64_lt (f64_round (1 / 10 ^ 9)) (f64_abs (f64_sub (fl_rollout_percentage p) (fl_rollout_percentage f)))
          then ''rollout_change''
          else ''update'')"

definition update_flag :: "flags_handler \<Rightarrow> proto_flag option \<Rightarrow> (status, proto_flag) flag_op" where
  "update_flag h req =
     dbind (dreturn (ok_or (Status InvalidArgument ''flag is required'') req)) (\<lambda>pb.
     dbind (required ''flag_id'' (pf_flag_id pb)) (\<lambda>_.
     dbind (dreturn (validate_flag (fh_env h) pb)) (\<lambda>_.
     dbind (if fh_audit h
            then case fe_parse_uuid (fh_env h) (pf_flag_id pb) of Some i \<Rightarrow> tried (store_get_flag i) | None \<Rightarrow> dreturn (Ok None)
            else dreturn (Ok None)) (\<lambda>previous.
     dbind (domain_of h pb) (\<lambda>domain.
     dbind (flag_store (store_update_flag (fh_texts h) domain)) (\<lambda>f.
     dbind (record_audit_nonfatal h (fl_flag_id f) (update_action previous f) ''system'' previous (Some f)) (\<lambda>_.
       dreturn (Ok (flag_domain_to_proto f)))))))))"

definition list_flags :: "flags_handler \<Rightarrow> int \<Rightarrow> string \<Rightarrow> (status, proto_flag list \<times> string) flag_op" where
  "list_flags h page_size page_token =
     dbind (flag_store (store_list_flags (fh_env h) page_size page_token)) (\<lambda>(fs, next).
       dreturn (Ok (map flag_domain_to_proto fs, next)))"

record evaluation =
  ev_flag_id :: string
  ev_value :: string
  ev_variant_id :: string

definition evaluation_of :: "string \<Rightarrow> flag \<Rightarrow> string \<Rightarrow> (status, evaluation) outcome" where
  "evaluation_of flag_id f user_id =
     obind (evaluate_flag f user_id) (\<lambda>(v, x). Ok \<lparr>ev_flag_id = flag_id, ev_value = v, ev_variant_id = x\<rparr>)"

definition evaluate_flag_request :: "flags_handler \<Rightarrow> string \<Rightarrow> string \<Rightarrow> (status, evaluation) flag_op" where
  "evaluate_flag_request h flag_id user_id =
     dbind (required ''flag_id'' flag_id) (\<lambda>_.
     dbind (required ''user_id'' user_id) (\<lambda>_.
     dbind (parsed_id h flag_id) (\<lambda>i.
     dbind (flag_store (store_get_flag i)) (\<lambda>f. dreturn (evaluation_of flag_id f user_id)))))"

fun evaluate_all :: "flag list \<Rightarrow> string \<Rightarrow> (status, evaluation list) outcome" where
  "evaluate_all [] user_id = Ok []"
| "evaluate_all (f # fs) user_id =
     obind (evaluation_of (fl_flag_id f) f user_id) (\<lambda>e. obind (evaluate_all fs user_id) (\<lambda>es. Ok (e # es)))"

definition evaluate_flags_request :: "flags_handler \<Rightarrow> string \<Rightarrow> (status, evaluation list) flag_op" where
  "evaluate_flags_request h user_id =
     dbind (required ''user_id'' user_id) (\<lambda>_.
     dbind (flag_store get_all_enabled_flags) (\<lambda>fs. dreturn (evaluate_all fs user_id)))"

section \<open>Promotion\<close>

record promote_request =
  pq_flag_id :: string
  pq_experiment_type :: int
  pq_primary_metric_id :: string
  pq_secondary_metric_ids :: "string list"

definition experiment_of_flag :: "flags_handler \<Rightarrow> promote_request \<Rightarrow> flag \<Rightarrow> promoted_experiment" where
  "experiment_of_flag h req f =
     default_experiment
       \<lparr>prx_name := ''Promoted from flag: '' @ fl_name f,
        prx_description := ''Auto-promoted from feature flag '' @ fl_name f @ '' ('' @ fl_flag_id f @ '')'',
        prx_owner_email := ''system'', prx_type := pq_experiment_type req, prx_layer_id := fh_default_layer_id h,
        prx_variants := build_variants (fh_env h) f, prx_primary_metric_id := pq_primary_metric_id req,
        prx_secondary_metric_ids := pq_secondary_metric_ids req,
        prx_targeting_rule_id := unwrap_or [] (fl_targeting_rule_id f), prx_hash_salt := fl_salt f\<rparr>"

text \<open>Without a client for M5 the experiment is only mocked.\<close>

definition create_in_m5 :: "flags_handler \<Rightarrow> promote_request \<Rightarrow> flag \<Rightarrow> promoted_experiment \<Rightarrow> (status, promoted_experiment) outcome" where
  "create_in_m5 h req f x =
     (case fh_m5_create h of
        Some call \<Rightarrow>
          (case call x of
             Ok y \<Rightarrow> Ok y
           | Err e \<Rightarrow> Err (Status Internal (''create experiment in M5: '' @ e))
           | Panic \<Rightarrow> Panic)
      | None \<Rightarrow>
          apply_type_config (fh_env h) f
            ((experiment_of_flag h req f)\<lparr>prx_variants := [], prx_targeting_rule_id := [],
              prx_experiment_id := fh_new_uuid h, prx_state := 1\<rparr>))"

definition link_promoted :: "flags_handler \<Rightarrow> uuid \<Rightarrow> string \<Rightarrow> (status, unit) flag_op" where
  "link_promoted h i experiment_id =
     (if experiment_id = [] then dreturn (Ok ())
      else case fe_parse_uuid (fh_env h) experiment_id of
             Some x \<Rightarrow> ignore (link_flag_to_experiment (fh_texts h) i x)
           | None \<Rightarrow> dreturn (Ok ()))"

definition promote_to_experiment :: "flags_handler \<Rightarrow> promote_request \<Rightarrow> (status, promoted_experiment) flag_op" where
  "promote_to_experiment h req =
     dbind (required ''flag_id'' (pq_flag_id req)) (\<lambda>_.
     dbind (required ''primary_metric_id'' (pq_primary_metric_id req)) (\<lambda>_.
     dbind (dreturn (if pq_experiment_type req \<notin> {1..11}
              then Err (Status InvalidArgument ''experiment_type is required'') else Ok ())) (\<lambda>_.
     dbind (parsed_id h (pq_flag_id req)) (\<lambda>i.
     dbind (flag_store (store_get_flag i)) (\<lambda>f.
     dbind (dreturn (if fl_enabled f then Ok ()
              else Err (Status FailedPrecondition ''flag must be enabled to promote to experiment''))) (\<lambda>_.
     dbind (dreturn (apply_type_config (fh_env h) f (experiment_of_flag h req f))) (\<lambda>x.
     dbind (dreturn (create_in_m5 h req f x)) (\<lambda>result.
     dbind (link_promoted h i (prx_experiment_id result)) (\<lambda>_.
     dbind (record_audit_nonfatal h i ''promote_to_experiment'' ''system'' (Some f) None) (\<lambda>_.
       dreturn (Ok result)))))))))))"

section \<open>The reconciler\<close>

fun action_as_str :: "resolution_action \<Rightarrow> string" where
  "action_as_str RolloutFull = ''rollout_full''"
| "action_as_str Rollback = ''rollback''"
| "action_as_str Keep = ''keep''"

definition parse_action :: "string \<Rightarrow> resolution_action option" where
  "parse_action s =
     (if s = ''rollout_full'' then Some RolloutFull else if s = ''rollback'' then Some Rollback
      else if s = ''keep'' then Some Keep else None)"

definition is_terminal :: "int \<Rightarrow> bool" where
  "is_terminal state \<longleftrightarrow> state = 5 \<or> state = 6"

text \<open>Errors are logged and dropped, so the operation itself never fails.\<close>

definition reconcile_flag :: "flags_handler \<Rightarrow> resolution_action \<Rightarrow> uuid \<Rightarrow> uuid \<Rightarrow> ('e, unit) flag_op" where
  "reconcile_flag h action i x =
     (case fh_m5_state h x of
        Ok state \<Rightarrow>
          if is_terminal state
          then dbind (tried (resolve_flag (fh_texts h) i action)) (\<lambda>done.
                 if done = None \<or> \<not> fh_audit h then dreturn (Ok ())
                 else (\<lambda>db. ignore (record_flag_audit (fh_texts h) i (''auto_resolve_'' @ action_as_str action) ''system/reconciler''
                        (JObject [(''experiment_id'', JString x), (''experiment_state'', JInt state)])
                        (JObject [(''action'', JString (action_as_str action)), (''resolved_at'', JString (fh_rfc3339 h (fd_now db)))])) db))
          else dreturn (Ok ())
      | _ \<Rightarrow> dreturn (Ok ()))"

fun reconcile_all :: "flags_handler \<Rightarrow> resolution_action \<Rightarrow> flag list \<Rightarrow> ('e, unit) flag_op" where
  "reconcile_all h action [] = dreturn (Ok ())"
| "reconcile_all h action (f # fs) =
     dbind (if fl_resolved_at f \<noteq> None then dreturn (Ok ())
            else case fl_promoted_experiment_id f of
                   None \<Rightarrow> dreturn (Ok ())
                 | Some x \<Rightarrow> reconcile_flag h action (fl_flag_id f) x)
       (\<lambda>_. reconcile_all h action fs)"

definition reconcile_once :: "flags_handler \<Rightarrow> resolution_action \<Rightarrow> ('e, unit) flag_op" where
  "reconcile_once h action =
     dbind (tried get_promoted_flags) (\<lambda>fs. case fs of None \<Rightarrow> dreturn (Ok ()) | Some fs \<Rightarrow> reconcile_all h action fs)"

section \<open>Lifecycle events\<close>

definition terminal_states :: "string list" where
  "terminal_states = [''CONCLUDED'', ''ARCHIVED'', ''EXPERIMENT_STATE_CONCLUDED'', ''EXPERIMENT_STATE_ARCHIVED'']"

text \<open>One message of the topic; a message that cannot be used is skipped.\<close>

definition consume_message :: "flags_handler \<Rightarrow> resolution_action \<Rightarrow> string option \<Rightarrow> ('e, unit) flag_op" where
  "consume_message h action payload =
     (case payload of
        None \<Rightarrow> dreturn (Ok ())
      | Some b \<Rightarrow>
          if b = [] then dreturn (Ok ())
          else case fh_decode_event h b of
                 None \<Rightarrow> dreturn (Ok ())
               | Some (experiment_id, state) \<Rightarrow>
                   if state \<notin> set terminal_states then dreturn (Ok ())
                   else case fe_parse_uuid (fh_env h) experiment_id of
                          None \<Rightarrow> dreturn (Ok ())
                        | Some x \<Rightarrow>
                            dbind (tried (get_flag_by_experiment x)) (\<lambda>f.
                              case f of None \<Rightarrow> dreturn (Ok ()) | Some f \<Rightarrow> reconcile_flag h action (fl_flag_id f) x))"

section \<open>Admin endpoints\<close>

datatype http_response = HttpJson json | HttpText nat string

fun http_of :: "string \<Rightarrow> ('a \<Rightarrow> json) \<Rightarrow> (string, 'a) outcome \<Rightarrow> ('e, http_response) outcome" where
  "http_of what f (Ok x) = Ok (HttpJson (f x))"
| "http_of what f (Err e) = Ok (HttpText 500 (what @ e))"
| "http_of what f Panic = Panic"

definition audit_json :: "flags_handler \<Rightarrow> flag_audit_row \<Rightarrow> json" where
  "audit_json h a =
     JObject [(''audit_id'', JString (fa_audit_id a)), (''flag_id'', JString (fa_flag_id a)), (''action'', JString (fa_action a)),
              (''actor_email'', JString (fa_actor_email a)), (''previous_value'', fa_previous_value a), (''new_value'', fa_new_value a),
              (''created_at'', JString (fh_serde_time h (fa_created_at a)))]"

definition handle_audit :: "flags_handler \<Rightarrow> string \<Rightarrow> int \<Rightarrow> (unit, http_response) flag_op" where
  "handle_audit h flag_id limit =
     (if \<not> fh_audit h then dreturn (Ok (HttpText 503 ''audit store not configured''))
      else case fe_parse_uuid (fh_env h) flag_id of
             None \<Rightarrow> dreturn (Ok (HttpText 400 ''invalid flag_id UUID''))
           | Some i \<Rightarrow> (\<lambda>db. case get_audit_log i limit db of
                           (r, db') \<Rightarrow> (http_of ''get audit log: '' (\<lambda>as. JArray (map (audit_json h) as)) r, db')))"

definition flag_error_text :: "flag_store_error \<Rightarrow> string" where
  "flag_error_text e =
     (case e of FlagNotFound s \<Rightarrow> ''flag not found: '' @ s | FlagAlreadyExists s \<Rightarrow> ''flag already exists: '' @ s
      | InvalidPageToken \<Rightarrow> ''invalid page token'' | FlagDb s \<Rightarrow> ''database error: '' @ s)"

definition promoted_json :: "flags_handler \<Rightarrow> flag \<Rightarrow> json" where
  "promoted_json h f =
     JObject [(''flag_id'', JString (fl_flag_id f)), (''name'', JString (fl_name f)), (''enabled'', JBool (fl_enabled f)),
              (''rollout_percentage'', json_of_f64 (fl_rollout_percentage f)),
              (''promoted_experiment_id'', JString (unwrap_or [] (fl_promoted_experiment_id f))),
              (''promoted_at'', case fl_promoted_at f of None \<Rightarrow> JNull | Some t \<Rightarrow> JString (fh_rfc3339 h t))]"

definition handle_promoted :: "flags_handler \<Rightarrow> (unit, http_response) flag_op" where
  "handle_promoted h db =
     (case dmap_err flag_error_text get_promoted_flags db of
        (r, db') \<Rightarrow> (http_of ''get promoted flags: '' (\<lambda>fs. JArray (map (promoted_json h) fs)) r, db'))"

definition handle_resolve :: "flags_handler \<Rightarrow> string \<Rightarrow> string \<Rightarrow> (unit, http_response) flag_op" where
  "handle_resolve h flag_id action =
     (case fe_parse_uuid (fh_env h) flag_id of
        None \<Rightarrow> dreturn (Ok (HttpText 400 ''invalid flag_id UUID''))
      | Some i \<Rightarrow>
          (case parse_action action of
             None \<Rightarrow> dreturn (Ok (HttpText 400 ''action must be rollout_full, rollback, or keep''))
           | Some a \<Rightarrow> (\<lambda>db. case resolve_flag (fh_texts h) i a db of
                 (Ok _, db') \<Rightarrow> (Ok (HttpJson (JObject [(''flag_id'', JString i), (''action'', JString action), (''ok'', JBool True)])), db')
               | (Err (FlagNotFound msg), db') \<Rightarrow> (Ok (HttpText 404 msg), db')
               | (Err e, db') \<Rightarrow> (Ok (HttpText 500 (''resolve flag: '' @ flag_error_text e)), db')
               | (Panic, db') \<Rightarrow> (Panic, db'))))"

section \<open>What every request keeps\<close>

text \<open>
  A property of the tables that the writing operations of the store keep is kept by every request: the
  interface the invariants of the service rest on.
\<close>

locale flag_property = table_property +
  assumes P_env: "P db \<Longrightarrow> P (db\<lparr>fd_now := t, fd_faults := fs\<rparr>)"
    and P_create: "preserves P (store_create_flag pg f)"
    and P_update: "preserves P (store_update_flag pg f)"
    and P_link: "preserves P (link_flag_to_experiment pg i x)"
    and P_resolve: "preserves P (resolve_flag pg i action)"
    and P_audit: "preserves P (record_flag_audit pg i what actor prev new)"
begin

lemma tried_keeps: "preserves P m \<Longrightarrow> preserves P (tried m)"
  by (auto simp: preserves_def tried_def split: prod.split outcome.split)

lemma ignored: "preserves P m \<Longrightarrow> preserves P (ignore m)"
  by (simp add: preserves_def ignore_def)

lemma small: "preserves P (required s t)" "preserves P (parsed_id h s)" "preserves P (domain_of h pb)"
  by (simp_all add: required_def parsed_id_def returned) (simp add: preserves_def domain_of_def)

lemma stored: "preserves P m \<Longrightarrow> preserves P (flag_store m)"
  unfolding flag_store_def by (rule mapped)

lemma audited: "preserves P (record_audit_nonfatal h i what actor prev cur)"
  unfolding record_audit_nonfatal_def Let_def by (auto intro: ignored P_audit returned)

lemmas keeps = sequence returned small stored audited tried_keeps ignored read_flag read_lists P_create P_update P_link P_resolve P_audit

lemma requests:
  "preserves P (create_flag h req)" "preserves P (get_flag h s)" "preserves P (list_flags h n tok)"
  "preserves P (evaluate_flag_request h s u)" "preserves P (evaluate_flags_request h u)"
  unfolding create_flag_def get_flag_def list_flags_def evaluate_flag_request_def evaluate_flags_request_def
  by (intro keeps; auto intro: keeps split: prod.split)+

lemma update_request: "preserves P (update_flag h req)"
  unfolding update_flag_def by (intro keeps) (auto intro: keeps split: option.split)

lemma promote_request: "preserves P (promote_to_experiment h preq)"
  unfolding promote_to_experiment_def link_promoted_def by (intro keeps) (auto intro: keeps split: option.split)

lemma reconciles: "preserves P (reconcile_flag h action i x)"
proof -
  have "preserves P (\<lambda>db. ignore (record_flag_audit pg i what actor prev (new db)) db)" for pg what actor prev new
    using P_audit unfolding preserves_def ignore_def by simp
  then show ?thesis
    unfolding reconcile_flag_def by (auto intro!: sequence tried_keeps P_resolve returned split: outcome.split)
qed

lemma reconciles_all: "preserves P (reconcile_all h action fs)"
  by (induction fs) (auto intro!: sequence returned reconciles split: option.split)

lemma reconciler: "preserves P (reconcile_once h action)" "preserves P (consume_message h action b)"
  unfolding reconcile_once_def consume_message_def
  by (auto intro!: keeps reconciles reconciles_all split: option.split prod.split)

lemma admin: "preserves P (handle_audit h s n)" "preserves P (handle_promoted h)" "preserves P (handle_resolve h s a)"
proof -
  show "preserves P (handle_audit h s n)"
    using audit_reads unfolding handle_audit_def preserves_def by (auto simp: dreturn_def split: option.split prod.split) (metis snd_conv)
  show "preserves P (handle_promoted h)"
    using mapped [OF read_lists(5)] unfolding handle_promoted_def preserves_def by (simp add: case_prod_beta)
  show "preserves P (handle_resolve h s a)"
    using P_resolve unfolding handle_resolve_def preserves_def
    by (auto simp: dreturn_def split: option.split prod.split outcome.split flag_store_error.split) (metis snd_conv)+
qed

end

section \<open>The service as a transition system\<close>

datatype flag_call =
    CreateFlag "proto_flag option" | GetFlag string | UpdateFlag "proto_flag option" | ListFlags int string
  | EvaluateFlag string string | EvaluateFlags string | PromoteToExperiment promote_request
  | ReconcilerTick resolution_action | LifecycleMessage resolution_action "string option"
  | AdminAudit string int | AdminPromoted | AdminResolve string string

fun run_call :: "flags_handler \<Rightarrow> flag_call \<Rightarrow> flag_database \<Rightarrow> flag_database" where
  "run_call h (CreateFlag req) db = snd (create_flag h req db)"
| "run_call h (GetFlag s) db = snd (get_flag h s db)"
| "run_call h (UpdateFlag req) db = snd (update_flag h req db)"
| "run_call h (ListFlags n tok) db = snd (list_flags h n tok db)"
| "run_call h (EvaluateFlag s u) db = snd (evaluate_flag_request h s u db)"
| "run_call h (EvaluateFlags u) db = snd (evaluate_flags_request h u db)"
| "run_call h (PromoteToExperiment req) db = snd (promote_to_experiment h req db)"
| "run_call h (ReconcilerTick a) db = snd (reconcile_once h a db :: (unit, unit) outcome \<times> flag_database)"
| "run_call h (LifecycleMessage a b) db = snd (consume_message h a b db :: (unit, unit) outcome \<times> flag_database)"
| "run_call h (AdminAudit s n) db = snd (handle_audit h s n db)"
| "run_call h AdminPromoted db = snd (handle_promoted h db)"
| "run_call h (AdminResolve s a) db = snd (handle_resolve h s a db)"

text \<open>Any request, with whatever the environment answers; and time passes and faults come.\<close>

inductive flag_step :: "flag_database \<Rightarrow> flag_database \<Rightarrow> bool" where
  call: "flag_step db (run_call h c db)"
| environment: "flag_step db (db\<lparr>fd_now := t, fd_faults := fs\<rparr>)"

lemma preserves_snd: "preserves P m \<Longrightarrow> P db \<Longrightarrow> P (snd (m db))"
  by (simp add: preserves_def)

context flag_property
begin

lemma run_keeps: "P db \<Longrightarrow> P (run_call h c db)"
  by (cases c) (auto intro: preserves_snd requests update_request promote_request reconciler admin)

lemma step_keeps: "flag_step db db' \<Longrightarrow> P db \<Longrightarrow> P db'"
  by (induction rule: flag_step.induct) (auto intro: run_keeps P_env)

lemma steps_keep: "flag_step\<^sup>*\<^sup>* db db' \<Longrightarrow> P db \<Longrightarrow> P db'"
  by (induction rule: rtranclp_induct) (auto intro: step_keeps)

end

lemma intact_audit: "intact R db \<Longrightarrow> fa_action a \<in> set audit_actions \<Longrightarrow> fa_flag_id a \<in> fl_flag_id ` set (fd_flags db) \<Longrightarrow>
    intact R (db\<lparr>fd_next := n, fd_audit := fd_audit db @ [a]\<rparr>)"
  by (auto simp: intact_def)

lemma intact_drop_variants: "intact R db \<Longrightarrow> intact R (db\<lparr>fd_variants := filter Q (fd_variants db)\<rparr>)"
  by (auto simp: intact_def distinct_map_filter)

lemma resolution_id [simp]: "fl_flag_id (resolution a now r) = fl_flag_id r" "fl_salt (resolution a now r) = fl_salt r"
  "fl_name (resolution a now r) = fl_name r" "fl_promoted_experiment_id (resolution a now r) = fl_promoted_experiment_id r"
  "fl_resolved_at (resolution a now r) = Some now"
  by (cases a; simp)+

interpretation intact_service: flag_property "intact R" for R
proof unfold_locales
  show "preserves (intact R) (store_create_flag pg f)" for pg f
    by (rule integrity.creates) (auto intro: intact_insert_flag intact_insert_variant)
  show "preserves (intact R) (store_update_flag pg f)" for pg f
    by (rule integrity.updates) (auto intro: intact_update intact_insert_variant intact_drop_variants)
  show "preserves (intact R) (link_flag_to_experiment pg i x)" for pg i x
    unfolding link_flag_to_experiment_def by (rule integrity.updates_row) (auto intro: intact_update)
  show "preserves (intact R) (resolve_flag pg i action)" for pg i action
    unfolding resolve_flag_def by (rule integrity.updates_row) (auto intro: intact_update)
  show "preserves (intact R) (record_flag_audit pg i what actor prev new)" for pg i what actor prev new
    by (rule integrity.audits) (rule intact_audit)
qed (simp add: intact_def)

text \<open>A flag keeps its identifier and its salt.\<close>

definition salted :: "uuid \<Rightarrow> string \<Rightarrow> flag_database \<Rightarrow> bool" where
  "salted i s db \<longleftrightarrow> (\<exists>r \<in> set (fd_flags db). fl_flag_id r = i \<and> fl_salt r = s)"

lemma salted_insert: "salted i s db \<Longrightarrow> salted i s (snd (insert_flag_row pg f db))"
  by (auto simp: salted_def insert_flag_row_def Let_def split: option.split)

lemma salted_insert_variant: "salted i s db \<Longrightarrow> salted i s (snd (insert_variant_row pg j ord v db))"
  by (auto simp: salted_def insert_variant_row_def Let_def)

lemma salted_update:
  assumes "salted i s db" "\<And>now r. fl_flag_id (upd now r) = fl_flag_id r \<and> fl_salt (upd now r) = fl_salt r"
  shows "salted i s (snd (update_flag_row pg j upd db))"
proof -
  from assms(1) obtain r where r: "r \<in> set (fd_flags db)" "fl_flag_id r = i" "fl_salt r = s" by (auto simp: salted_def)
  let ?g = "\<lambda>r. if fl_flag_id r = j then upd (fd_now db) r else r"
  have "?g r \<in> set (map ?g (fd_flags db))" "fl_flag_id (?g r) = i" "fl_salt (?g r) = s"
    using r assms(2) by simp_all
  then have "salted i s (db\<lparr>fd_flags := map ?g (fd_flags db)\<rparr>)" unfolding salted_def by (intro bexI [of _ "?g r"]) (simp_all split: if_splits)
  then show ?thesis using assms(1) by (simp add: update_flag_row_def split: option.split)
qed

lemma salted_drop: "salted i s db \<Longrightarrow> salted i s (db\<lparr>fd_variants := vs\<rparr>)"
  by (simp add: salted_def)

interpretation salts: table_property "salted i s" for i s
  by unfold_locales (simp_all add: salted_def)

interpretation salt_service: flag_property "salted i s" for i s
proof unfold_locales
  show "preserves (salted i s) (store_create_flag pg f)" for pg f
    by (rule salts.creates) (auto intro: salted_insert salted_insert_variant)
  show "preserves (salted i s) (store_update_flag pg f)" for pg f
    by (rule salts.updates) (auto intro: salted_update salted_insert_variant salted_drop)
  show "preserves (salted i s) (link_flag_to_experiment pg j x)" for pg j x
    unfolding link_flag_to_experiment_def by (rule salts.updates_row) (auto intro: salted_update)
  show "preserves (salted i s) (resolve_flag pg j action)" for pg j action
    unfolding resolve_flag_def by (rule salts.updates_row) (auto intro: salted_update)
  show "preserves (salted i s) (record_flag_audit pg j what actor prev new)" for pg j what actor prev new
    by (rule salts.audits) (simp add: salted_def)
qed (simp add: salted_def)

text \<open>
  C34: Whatever requests, reconciler passes, lifecycle events and database faults follow one another, the
  tables keep every constraint the evaluation relies on, and a flag, once created, stays with the salt it
  was created with: no request moves a user to another bucket.
\<close>

theorem flags_keep_their_salt:
  assumes "flag_step\<^sup>*\<^sup>* db db'" "intact R db" "r \<in> set (fd_flags db)"
  shows "intact R db' \<and> (\<exists>r' \<in> set (fd_flags db'). fl_flag_id r' = fl_flag_id r \<and> fl_salt r' = fl_salt r \<and>
    flag_bucket (fl_salt r') u = flag_bucket (fl_salt r) u)"
proof -
  have "salted (fl_flag_id r) (fl_salt r) db" using assms(3) by (auto simp: salted_def)
  then have "salted (fl_flag_id r) (fl_salt r) db'" by (rule salt_service.steps_keep [OF assms(1)])
  moreover have "intact R db'" by (rule intact_service.steps_keep [OF assms(1,2)])
  ultimately show ?thesis by (auto simp: salted_def)
qed

section \<open>Resolving promoted flags\<close>

lemma find_unique:
  "distinct (map k rs) \<Longrightarrow> r \<in> set rs \<Longrightarrow> find (\<lambda>x. k x = k r) rs = Some r"
  by (induction rs) (auto simp: image_iff)

text \<open>Resolving a row of intact tables violates no constraint.\<close>

lemma resolve_ok:
  assumes "intact R db" "fd_faults db = []" "r \<in> set (fd_flags db)"
  shows "resolve_flag pg (fl_flag_id r) a db =
    (Ok (), db\<lparr>fd_flags := map (\<lambda>x. if fl_flag_id x = fl_flag_id r then resolution a (fd_now db) x else x) (fd_flags db)\<rparr>)"
proof -
  have f: "find (\<lambda>x. fl_flag_id x = fl_flag_id r) (fd_flags db) = Some r"
    using assms(1,3) by (intro find_unique) (simp_all add: intact_def)
  have "row_ok R r" using assms(1,3) by (auto simp: intact_def list_all_iff)
  then have "row_ok R (resolution a (fd_now db) r)" by (cases a) (simp_all add: row_ok_def)
  moreover have "fl_name r \<notin> fl_name ` set (filter (\<lambda>x. fl_flag_id x \<noteq> fl_flag_id r) (fd_flags db))"
    using assms(1,3) by (auto simp: intact_def distinct_map dest: inj_onD)
  ultimately have v: "row_violation R (filter (\<lambda>x. fl_flag_id x \<noteq> fl_flag_id r) (fd_flags db)) (resolution a (fd_now db) r) = None"
    by (auto simp: row_violation_None)
  have R: "fd_rules db = R" using assms(1) by (simp add: intact_def)
  have "update_flag_row pg (fl_flag_id r) (resolution a) db =
      (Ok 1, db\<lparr>fd_flags := map (\<lambda>x. if fl_flag_id x = fl_flag_id r then resolution a (fd_now db) x else x) (fd_flags db)\<rparr>)"
    unfolding update_flag_row_def R f using v by simp
  then show ?thesis
    by (simp add: resolve_flag_def dbind_def db_statement_def dmap_err_def fstatement_ok [OF assms(2)] affected_def dreturn_def)
qed

lemma auto_action_unknown: "''auto_resolve_'' @ action_as_str a \<notin> set audit_actions"
  by (cases a) (simp_all add: audit_actions_def)

text \<open>The audit entry of the reconciler is refused by the schema, so only the row changes.\<close>

lemma audit_refused:
  "action \<notin> set audit_actions \<Longrightarrow> \<exists>fs. snd (record_flag_audit pg i action actor prev new db) = db\<lparr>fd_faults := fs\<rparr>"
  by (cases db) (auto simp: record_flag_audit_def fstatement_def Let_def split: list.split option.split)

lemma audit_refused_ok:
  "action \<notin> set audit_actions \<Longrightarrow> fd_faults db = [] \<Longrightarrow> snd (record_flag_audit pg i action actor prev new db) = db"
  by (simp add: record_flag_audit_def fstatement_ok)

definition concludes :: "flags_handler \<Rightarrow> uuid \<Rightarrow> bool" where
  "concludes h x \<longleftrightarrow> (\<exists>st. fh_m5_state h x = Ok st \<and> is_terminal st)"

lemma reconcile_flag_ok:
  assumes "intact R db" "fd_faults db = []" "r \<in> set (fd_flags db)"
  shows "reconcile_flag h a (fl_flag_id r) x db =
    (Ok (), if concludes h x
            then db\<lparr>fd_flags := map (\<lambda>y. if fl_flag_id y = fl_flag_id r then resolution a (fd_now db) y else y) (fd_flags db)\<rparr> else db)"
proof -
  let ?db = "db\<lparr>fd_flags := map (\<lambda>y. if fl_flag_id y = fl_flag_id r then resolution a (fd_now db) y else y) (fd_flags db)\<rparr>"
  have f: "fd_faults ?db = []" using assms(2) by simp
  show ?thesis
    unfolding reconcile_flag_def concludes_def
    by (cases "fh_m5_state h x")
      (simp_all add: dbind_def tried_def resolve_ok [OF assms] dreturn_def ignore_def audit_refused_ok [OF auto_action_unknown [of a] f]
        del: append.simps)
qed

lemma reconcile_all_ok:
  assumes "intact R db" "fd_faults db = []" "distinct (map fl_flag_id fs)" "\<forall>f \<in> set fs. \<exists>r \<in> set (fd_flags db). fl_flag_id r = fl_flag_id f"
  shows "reconcile_all h a fs db =
    (Ok () :: ('e, unit) outcome, db\<lparr>fd_flags := map (\<lambda>y. if \<exists>f \<in> set fs. fl_flag_id f = fl_flag_id y \<and> fl_resolved_at f = None \<and>
        (\<exists>x. fl_promoted_experiment_id f = Some x \<and> concludes h x) then resolution a (fd_now db) y else y) (fd_flags db)\<rparr>)"
  using assms
proof (induction fs arbitrary: db)
  case (Cons f fs)
  obtain r where r: "r \<in> set (fd_flags db)" "fl_flag_id r = fl_flag_id f" using Cons.prems(4) by auto
  define hit where "hit \<longleftrightarrow> fl_resolved_at f = None \<and> (\<exists>x. fl_promoted_experiment_id f = Some x \<and> concludes h x)"
  define d1 where "d1 = (if hit then db\<lparr>fd_flags := map (\<lambda>y. if fl_flag_id y = fl_flag_id f then resolution a (fd_now db) y else y) (fd_flags db)\<rparr> else db)"
  have first: "(if fl_resolved_at f \<noteq> None then dreturn (Ok ())
            else case fl_promoted_experiment_id f of
                   None \<Rightarrow> dreturn (Ok ())
                 | Some x \<Rightarrow> reconcile_flag h a (fl_flag_id f) x) db = (Ok () :: ('e, unit) outcome, d1)"
    by (cases "fl_promoted_experiment_id f")
      (auto simp: d1_def hit_def dreturn_def reconcile_flag_ok [OF Cons.prems(1,2) r(1), unfolded r(2)])
  have "intact R (snd (resolve_flag pg (fl_flag_id r) a db))" for pg
    using intact_service.P_resolve Cons.prems(1) by (simp add: preserves_def)
  then have ok: "intact R d1" using resolve_ok [OF Cons.prems(1,2) r(1)] r(2) Cons.prems(1) by (auto simp: d1_def)
  have d1: "fd_faults d1 = []" "fd_now d1 = fd_now db" using Cons.prems(2) by (simp_all add: d1_def)
  have "map fl_flag_id (fd_flags d1) = map fl_flag_id (fd_flags db)"
    using map_update_ids [of "resolution a (fd_now db)" "fl_flag_id f" "fd_flags db"] by (cases hit) (simp_all add: d1_def)
  then have "fl_flag_id ` set (fd_flags d1) = fl_flag_id ` set (fd_flags db)" by (metis list.set_map)
  then have "\<forall>g \<in> set fs. \<exists>r \<in> set (fd_flags d1). fl_flag_id r = fl_flag_id g"
    using Cons.prems(4) by (metis image_iff list.set_intros(2))
  then have rest: "reconcile_all h a fs d1 =
    (Ok () :: ('e, unit) outcome, d1\<lparr>fd_flags := map (\<lambda>y. if \<exists>f \<in> set fs. fl_flag_id f = fl_flag_id y \<and> fl_resolved_at f = None \<and>
        (\<exists>x. fl_promoted_experiment_id f = Some x \<and> concludes h x) then resolution a (fd_now d1) y else y) (fd_flags d1)\<rparr>)"
    using Cons.prems(3) by (intro Cons.IH [OF ok d1(1)]) simp_all
  have sep: "fl_flag_id g \<noteq> fl_flag_id f" if "g \<in> set fs" for g using Cons.prems(3) that by (metis distinct.simps(2) image_eqI list.set_map list.simps(9))
  have eq: "map (\<lambda>y. if \<exists>g \<in> set fs. fl_flag_id g = fl_flag_id y \<and> fl_resolved_at g = None \<and>
        (\<exists>x. fl_promoted_experiment_id g = Some x \<and> concludes h x) then resolution a (fd_now db) y else y) (fd_flags d1) =
      map (\<lambda>y. if \<exists>g \<in> set (f # fs). fl_flag_id g = fl_flag_id y \<and> fl_resolved_at g = None \<and>
        (\<exists>x. fl_promoted_experiment_id g = Some x \<and> concludes h x) then resolution a (fd_now db) y else y) (fd_flags db)"
    using sep unfolding d1_def hit_def by (auto simp: fun_eq_iff)
  have "reconcile_all h a (f # fs) db = (reconcile_all h a fs d1 :: ('e, unit) outcome \<times> flag_database)"
    using first by (simp add: dbind_def)
  moreover have "d1\<lparr>fd_flags := X\<rparr> = db\<lparr>fd_flags := X\<rparr>" for X by (simp add: d1_def)
  ultimately show ?case unfolding rest d1(2) eq by simp
qed (simp add: dreturn_def)

lemma reconcile_once_exact:
  assumes "intact R db" "fd_faults db = []"
  shows "reconcile_once h a db =
    (Ok () :: ('e, unit) outcome, db\<lparr>fd_flags := map (\<lambda>r. if fl_resolved_at r = None \<and> (\<exists>x. fl_promoted_experiment_id r = Some x \<and> concludes h x)
        then resolution a (fd_now db) r else r) (fd_flags db)\<rparr>)"
proof -
  define rows where "rows = sort_key (\<lambda>r. - unwrap_or 0 (fl_promoted_at r)) (filter (\<lambda>r. fl_promoted_experiment_id r \<noteq> None) (fd_flags db))"
  have got: "get_promoted_flags db = (Ok (map (stored_flag db) rows), db)"
    by (simp add: rows_def get_promoted_flags_def dbind_def db_read_ok [OF assms(2)] all_with_variants_ok [OF assms(2)])
  have unique: "inj_on fl_flag_id (set (fd_flags db))" using assms(1) by (simp add: intact_def distinct_map)
  have "distinct (map fl_flag_id rows)"
    using assms(1) by (auto simp: rows_def intact_def distinct_map intro: inj_on_subset)
  then have run: "reconcile_all h a (map (stored_flag db) rows) db =
    (Ok () :: ('e, unit) outcome, db\<lparr>fd_flags := map (\<lambda>y. if \<exists>f \<in> set (map (stored_flag db) rows). fl_flag_id f = fl_flag_id y \<and> fl_resolved_at f = None \<and>
        (\<exists>x. fl_promoted_experiment_id f = Some x \<and> concludes h x) then resolution a (fd_now db) y else y) (fd_flags db)\<rparr>)"
    by (intro reconcile_all_ok [OF assms]) (auto simp: comp_def rows_def)
  have fields: "fl_resolved_at (stored_flag db r) = fl_resolved_at r" "fl_promoted_experiment_id (stored_flag db r) = fl_promoted_experiment_id r" for r
    by (simp_all add: stored_flag_def flag_of_row_def flag_row.defs)
  have "(\<exists>f \<in> set (map (stored_flag db) rows). fl_flag_id f = fl_flag_id y \<and> fl_resolved_at f = None \<and>
        (\<exists>x. fl_promoted_experiment_id f = Some x \<and> concludes h x)) \<longleftrightarrow>
      fl_resolved_at y = None \<and> (\<exists>x. fl_promoted_experiment_id y = Some x \<and> concludes h x)" if "y \<in> set (fd_flags db)" for y
    using that inj_onD [OF unique, of _ y] by (auto simp: fields rows_def)
  then have eq: "map (\<lambda>y. if \<exists>f \<in> set (map (stored_flag db) rows). fl_flag_id f = fl_flag_id y \<and> fl_resolved_at f = None \<and>
        (\<exists>x. fl_promoted_experiment_id f = Some x \<and> concludes h x) then resolution a (fd_now db) y else y) (fd_flags db) =
      map (\<lambda>r. if fl_resolved_at r = None \<and> (\<exists>x. fl_promoted_experiment_id r = Some x \<and> concludes h x)
        then resolution a (fd_now db) r else r) (fd_flags db)"
    by (intro map_cong) simp_all
  have "reconcile_once h a db = (reconcile_all h a (map (stored_flag db) rows) db :: ('e, unit) outcome \<times> flag_database)"
    by (simp add: reconcile_once_def dbind_def tried_def got)
  then show ?thesis unfolding run eq .
qed

text \<open>
  C37: A sequential pass of the polling reconciler, on tables that satisfy the schema and with no failing
  statement, does exactly what it promises. Every flag that was promoted, is not resolved yet and whose
  experiment M5 reports as concluded or archived gets the configured action and the time of the pass as its
  time of resolution: it is switched on for everybody, switched off, or left as it is; every other row stays
  as it was. A resolved flag is never resolved again: a later pass, whenever it runs, with any action and
  whatever M5 then answers, leaves the resolved rows as they are, and changes nothing at all as long as
  the answers of M5 are the same.
\<close>

theorem polling_resolves_exactly:
  assumes "intact R db" "fd_faults db = []" "reconcile_once h a db = (res :: ('e, unit) outcome, db')"
  shows "res = Ok () \<and> db' = db\<lparr>fd_flags := fd_flags db'\<rparr> \<and>
    list_all2 (\<lambda>r r'. if fl_resolved_at r = None \<and> (\<exists>x. fl_promoted_experiment_id r = Some x \<and> concludes h x)
        then r' = (case a of
            RolloutFull \<Rightarrow> r\<lparr>fl_enabled := True, fl_rollout_percentage := Fin 1, fl_resolved_at := Some (fd_now db), fl_updated_at := fd_now db\<rparr>
          | Rollback \<Rightarrow> r\<lparr>fl_enabled := False, fl_rollout_percentage := Fin 0, fl_resolved_at := Some (fd_now db), fl_updated_at := fd_now db\<rparr>
          | Keep \<Rightarrow> r\<lparr>fl_resolved_at := Some (fd_now db), fl_updated_at := fd_now db\<rparr>)
        else r' = r) (fd_flags db) (fd_flags db') \<and>
    (\<forall>r' \<in> set (fd_flags db'). fl_resolved_at r' \<noteq> None \<longrightarrow>
       r' \<in> set (fd_flags (snd (reconcile_once h' a' (db'\<lparr>fd_now := t\<rparr>) :: ('e, unit) outcome \<times> flag_database)))) \<and>
    reconcile_once h a' (db'\<lparr>fd_now := t\<rparr>) = (Ok () :: ('e, unit) outcome, db'\<lparr>fd_now := t\<rparr>)"
proof -
  let ?due = "\<lambda>h r. fl_resolved_at r = None \<and> (\<exists>x. fl_promoted_experiment_id r = Some x \<and> concludes h x)"
  note run = reconcile_once_exact [OF assms(1,2), of h a, where 'e = 'e]
  have db': "db' = db\<lparr>fd_flags := map (\<lambda>r. if ?due h r then resolution a (fd_now db) r else r) (fd_flags db)\<rparr>" and res: "res = Ok ()"
    using run assms(3) by simp_all
  let ?d = "db'\<lparr>fd_now := t\<rparr>"
  have "intact R (snd (reconcile_once h a db :: ('e, unit) outcome \<times> flag_database))"
    by (rule preserves_snd [OF intact_service.reconciler(1) assms(1)])
  then have ok: "intact R ?d" "fd_faults ?d = []" using assms(2,3) by (simp_all add: intact_def db')
  have rows: "list_all2 (\<lambda>r r'. r' = (if ?due h r then resolution a (fd_now db) r else r)) (fd_flags db) (fd_flags db')"
    by (simp add: db' list_all2_conv_all_nth)
  have left: "r \<in> set (fd_flags (snd (reconcile_once h' a' ?d :: ('e, unit) outcome \<times> flag_database)))"
    if "r \<in> set (fd_flags db')" "fl_resolved_at r \<noteq> None" for r
    using that by (auto simp: reconcile_once_exact [OF ok] image_iff intro!: bexI [of _ r])
  have "map (\<lambda>r. if ?due h r then resolution a' (fd_now ?d) r else r) (fd_flags ?d) = fd_flags ?d"
    by (auto simp: db')
  then have again: "reconcile_once h a' ?d = (Ok () :: ('e, unit) outcome, ?d)" unfolding reconcile_once_exact [OF ok] by simp
  have "list_all2 (\<lambda>r r'. if ?due h r
        then r' = (case a of
            RolloutFull \<Rightarrow> r\<lparr>fl_enabled := True, fl_rollout_percentage := Fin 1, fl_resolved_at := Some (fd_now db), fl_updated_at := fd_now db\<rparr>
          | Rollback \<Rightarrow> r\<lparr>fl_enabled := False, fl_rollout_percentage := Fin 0, fl_resolved_at := Some (fd_now db), fl_updated_at := fd_now db\<rparr>
          | Keep \<Rightarrow> r\<lparr>fl_resolved_at := Some (fd_now db), fl_updated_at := fd_now db\<rparr>)
        else r' = r) (fd_flags db) (fd_flags db')"
    using rows by (rule list_all2_mono) (cases a; auto)
  moreover have "db' = db\<lparr>fd_flags := fd_flags db'\<rparr>" by (simp add: db')
  ultimately show ?thesis using res again left by blast
qed

section \<open>Resolutions and the audit trail\<close>

interpretation trail: table_property "\<lambda>db. fd_audit db = A" for A
  by unfold_locales simp_all

lemma trail_update: "fd_audit db = A \<Longrightarrow> fd_audit (snd (update_flag_row pg i upd db)) = A"
  by (auto simp: update_flag_row_def split: option.split)

lemma trail_resolve: "preserves (\<lambda>db. fd_audit db = A) (resolve_flag pg i a)"
  unfolding resolve_flag_def by (rule trail.updates_row) (rule trail_update)

lemma trail_tried: "preserves (\<lambda>db. fd_audit db = A) m \<Longrightarrow> preserves (\<lambda>db. fd_audit db = A) (tried m)"
  by (auto simp: preserves_def tried_def split: prod.split outcome.split)

lemma trail_refused:
  "preserves (\<lambda>db. fd_audit db = A) (\<lambda>db. ignore (record_flag_audit pg i (''auto_resolve_'' @ action_as_str a) actor prev (new db)) db)"
  unfolding preserves_def
proof (intro allI impI)
  fix db :: flag_database
  assume "fd_audit db = A"
  moreover obtain fs where "snd (record_flag_audit pg i (''auto_resolve_'' @ action_as_str a) actor prev (new db) db) = db\<lparr>fd_faults := fs\<rparr>"
    using audit_refused [OF auto_action_unknown] by blast
  ultimately show "fd_audit (snd (ignore (record_flag_audit pg i (''auto_resolve_'' @ action_as_str a) actor prev (new db)) db)) = A"
    by (simp add: ignore_def del: append.simps)
qed

lemma trail_reconcile: "preserves (\<lambda>db. fd_audit db = A) (reconcile_flag h a i x)"
  unfolding reconcile_flag_def
  by (auto intro!: trail.sequence trail_tried trail_resolve trail_refused trail.returned split: outcome.split simp del: append.simps)

lemma trail_reconcile_all: "preserves (\<lambda>db. fd_audit db = A) (reconcile_all h a fs)"
  by (induction fs) (auto intro!: trail.sequence trail.returned trail_reconcile split: option.split)

lemma trail_once: "preserves (\<lambda>db. fd_audit db = A) (reconcile_once h a)"
  unfolding reconcile_once_def
  by (auto intro!: trail.sequence trail_tried trail.read_lists trail.returned trail_reconcile_all split: option.split)

lemma trail_consume: "preserves (\<lambda>db. fd_audit db = A) (consume_message h a b)"
  unfolding consume_message_def
  by (auto intro!: trail.sequence trail_tried trail.read_lists trail.returned trail_reconcile split: option.split prod.split)

text \<open>
  No resolution of a flag is ever audited: the name of the action the reconciler records is not among the
  names the schema allows, so the database refuses every such entry, and the admin endpoint writes none.
\<close>

theorem resolutions_never_audited:
  "fd_audit (snd (reconcile_once h a db :: ('e, unit) outcome \<times> flag_database)) = fd_audit db \<and>
   fd_audit (snd (consume_message h a b db :: ('e, unit) outcome \<times> flag_database)) = fd_audit db \<and>
   fd_audit (snd (handle_resolve h s what db)) = fd_audit db"
proof (intro conjI)
  show "fd_audit (snd (reconcile_once h a db)) = fd_audit db" by (rule preserves_snd [OF trail_once]) simp
  show "fd_audit (snd (consume_message h a b db)) = fd_audit db" by (rule preserves_snd [OF trail_consume]) simp
  show "fd_audit (snd (handle_resolve h s what db)) = fd_audit db"
  proof (cases "fe_parse_uuid (fh_env h) s"; cases "parse_action what")
    fix i x
    assume p: "fe_parse_uuid (fh_env h) s = Some i" "parse_action what = Some x"
    obtain res db' where run: "resolve_flag (fh_texts h) i x db = (res, db')" by fastforce
    then have kept: "fd_audit db' = fd_audit db" using preserves_snd [OF trail_resolve, of db "fd_audit db"] by (metis snd_conv)
    show ?thesis
    proof (cases res)
      case (Err e)
      then show ?thesis using p run kept by (cases e) (simp_all add: handle_resolve_def)
    qed (use p run kept in \<open>simp_all add: handle_resolve_def\<close>)
  qed (simp_all add: handle_resolve_def dreturn_def)
qed

section \<open>Late lifecycle events\<close>

text \<open>A message that announces the end of experiment \<open>x\<close>.\<close>

definition announces :: "flags_handler \<Rightarrow> string \<Rightarrow> uuid \<Rightarrow> bool" where
  "announces h b x \<longleftrightarrow> b \<noteq> [] \<and> (\<exists>s st. fh_decode_event h b = Some (s, st) \<and> st \<in> set terminal_states \<and> fe_parse_uuid (fh_env h) s = Some x)"

lemma consume_ok:
  assumes "intact R db" "fd_faults db = []" "announces h b x" "concludes h x"
    and "find (\<lambda>r. fl_promoted_experiment_id r = Some x) (fd_flags db) = Some r"
  shows "consume_message h a (Some b) db =
    (Ok () :: ('e, unit) outcome,
     db\<lparr>fd_flags := map (\<lambda>y. if fl_flag_id y = fl_flag_id r then resolution a (fd_now db) y else y) (fd_flags db)\<rparr>)"
proof -
  have r: "r \<in> set (fd_flags db)" using assms(5) by (induction "fd_flags db" rule: list.induct) (auto simp: find_Some_iff in_set_conv_nth)
  have "get_flag_by_experiment x db = (Ok (stored_flag db r), db)"
    by (simp add: get_flag_by_experiment_def dbind_def db_read_ok [OF assms(2)] assms(5) dreturn_def with_variants_ok [OF assms(2)])
  then show ?thesis
    using assms(3,4) reconcile_flag_ok [OF assms(1,2) r, of h a x]
    by (auto simp: consume_message_def announces_def dbind_def tried_def reconcile_flag_ok [OF assms(1,2) r])
qed

text \<open>
  C38: A late event overrides the operator: after an operator has rolled a flag back, the next message about
  the end of its experiment, a redelivered one or the archiving that follows the conclusion, applies the
  configured action again, without looking at \<^verbatim>\<open>resolved_at\<close>; with the default action the flag is then
  enabled for everybody.
\<close>

theorem late_event_overrides_operator:
  assumes "intact R db" "fd_faults db = []" "find (\<lambda>r. fl_promoted_experiment_id r = Some x) (fd_flags db) = Some r"
    and "fe_parse_uuid (fh_env h) (fl_flag_id r) = Some (fl_flag_id r)" "announces h b x" "concludes h x"
  shows "\<exists>db1 db2 r1 r2. handle_resolve h (fl_flag_id r) ''rollback'' db =
      (Ok (HttpJson (JObject [(''flag_id'', JString (fl_flag_id r)), (''action'', JString ''rollback''), (''ok'', JBool True)])), db1) \<and>
    consume_message h RolloutFull (Some b) db1 = (Ok () :: ('e, unit) outcome, db2) \<and>
    r1 \<in> set (fd_flags db1) \<and> fl_flag_id r1 = fl_flag_id r \<and> \<not> fl_enabled r1 \<and> fl_rollout_percentage r1 = Fin 0 \<and> fl_resolved_at r1 \<noteq> None \<and>
    r2 \<in> set (fd_flags db2) \<and> fl_flag_id r2 = fl_flag_id r \<and> fl_enabled r2 \<and> fl_rollout_percentage r2 = Fin 1"
proof -
  let ?up = "\<lambda>a db. db\<lparr>fd_flags := map (\<lambda>y. if fl_flag_id y = fl_flag_id r then resolution a (fd_now db) y else y) (fd_flags db)\<rparr>"
  have r: "r \<in> set (fd_flags db)" using assms(3) by (auto simp: find_Some_iff in_set_conv_nth)
  define db1 where "db1 = ?up Rollback db"
  have run: "resolve_flag (fh_texts h) (fl_flag_id r) Rollback db = (Ok (), db1)"
    unfolding db1_def by (rule resolve_ok [OF assms(1,2) r])
  then have op: "handle_resolve h (fl_flag_id r) ''rollback'' db =
      (Ok (HttpJson (JObject [(''flag_id'', JString (fl_flag_id r)), (''action'', JString ''rollback''), (''ok'', JBool True)])), db1)"
    by (simp add: handle_resolve_def assms(4) parse_action_def)
  have ok1: "intact R db1" using intact_service.P_resolve assms(1) run by (metis preserves_def snd_conv)
  have f1: "fd_faults db1 = []" using assms(2) by (simp add: db1_def)
  have r1: "resolution Rollback (fd_now db) r \<in> set (fd_flags db1)" using r by (auto simp: db1_def)
  have "find (\<lambda>r. fl_promoted_experiment_id r = Some x) (map (\<lambda>y. if fl_flag_id y = fl_flag_id r then resolution Rollback (fd_now db) y else y) rs) =
      map_option (\<lambda>y. if fl_flag_id y = fl_flag_id r then resolution Rollback (fd_now db) y else y)
        (find (\<lambda>r. fl_promoted_experiment_id r = Some x) rs)" for rs
    by (induction rs) auto
  then have find1: "find (\<lambda>r. fl_promoted_experiment_id r = Some x) (fd_flags db1) = Some (resolution Rollback (fd_now db) r)"
    using assms(3) by (simp add: db1_def)
  have con: "consume_message h RolloutFull (Some b) db1 = (Ok () :: ('e, unit) outcome, ?up RolloutFull db1)"
    using consume_ok [OF ok1 f1 assms(5,6) find1, of RolloutFull] by simp
  let ?g = "\<lambda>y. if fl_flag_id y = fl_flag_id r then resolution RolloutFull (fd_now db1) y else y"
  have "?g (resolution Rollback (fd_now db) r) \<in> set (map ?g (fd_flags db1))" using imageI [OF r1, of ?g] by (simp only: set_map)
  then have "resolution RolloutFull (fd_now db1) (resolution Rollback (fd_now db) r) \<in> set (fd_flags (?up RolloutFull db1))"
    by (simp del: set_map)
  note r2 = this
  show ?thesis
    by (rule exI [of _ db1], rule exI [of _ "?up RolloutFull db1"], rule exI [of _ "resolution Rollback (fd_now db) r"],
        rule exI [of _ "resolution RolloutFull (fd_now db1) (resolution Rollback (fd_now db) r)"], intro conjI op con r1 r2) simp_all
qed

section \<open>Witnesses\<close>

definition sample_env :: flag_env where
  "sample_env = \<lparr>fe_parse_uuid = Some, fe_b64_encode = (\<lambda>s. s @ ''=''), fe_b64_decode = (\<lambda>s. Some (butlast s)), fe_fixed6 = (\<lambda>x. []),
     fe_wide = (\<lambda>s. s)\<rparr>"

definition sample_handler :: flags_handler where
  "sample_handler =
     \<lparr>fh_env = sample_env, fh_texts = (\<lambda>c. ''constraint''), fh_audit = True, fh_default_layer_id = ''layer'', fh_m5_create = None,
      fh_m5_state = (\<lambda>x. Ok 6), fh_new_uuid = ''x1'', fh_rfc3339 = (\<lambda>t. []), fh_serde_time = (\<lambda>t. []),
      fh_decode_event = (\<lambda>b. Some (b, ''ARCHIVED''))\<rparr>"

definition sample_row :: flag_row where
  "sample_row =
     \<lparr>fl_flag_id = ''f'', fl_name = ''colour'', fl_description = [], fl_flag_type = ''BOOLEAN'', fl_default_value = ''false'',
      fl_enabled = True, fl_rollout_percentage = Fin (1 / 2), fl_salt = ''s'', fl_targeting_rule_id = None,
      fl_created_at = 0, fl_updated_at = 0, fl_promoted_experiment_id = Some ''x1'', fl_promoted_at = Some 1, fl_resolved_at = None\<rparr>"

definition sample_flags :: flag_database where
  "sample_flags =
     \<lparr>fd_flags = [sample_row], fd_variants = [], fd_audit = [], fd_rules = [], fd_ids = (\<lambda>n. ''id'' @ show_nat n), fd_salts = (\<lambda>n. ''salt''),
      fd_next = 0, fd_now = 5, fd_faults = []\<rparr>"

lemma sample_intact: "intact [] sample_flags"
  by (simp add: intact_def sample_flags_def row_ok_def sample_row_def)

lemma sample_concludes: "concludes sample_handler ''x1''"
  by (simp add: concludes_def sample_handler_def is_terminal_def)

theorem flags_keep_their_salt_witness:
  "\<exists>r' \<in> set (fd_flags (run_call sample_handler (AdminResolve ''f'' ''keep'') sample_flags)). fl_flag_id r' = ''f'' \<and> fl_salt r' = ''s''"
proof -
  have "flag_step\<^sup>*\<^sup>* sample_flags (run_call sample_handler (AdminResolve ''f'' ''keep'') sample_flags)"
    by (rule r_into_rtranclp, rule flag_step.call)
  from flags_keep_their_salt [OF this sample_intact, of sample_row "''u''"] show ?thesis
    by (auto simp: sample_flags_def sample_row_def)
qed

theorem polling_resolves_exactly_witness:
  "\<exists>db'. reconcile_once sample_handler Rollback sample_flags = (Ok () :: (unit, unit) outcome, db') \<and>
    fd_flags db' = [sample_row\<lparr>fl_enabled := False, fl_rollout_percentage := Fin 0, fl_resolved_at := Some 5, fl_updated_at := 5\<rparr>] \<and>
    reconcile_once sample_handler RolloutFull (db'\<lparr>fd_now := 6\<rparr>) = (Ok () :: (unit, unit) outcome, db'\<lparr>fd_now := 6\<rparr>)"
proof -
  obtain res db' where run: "reconcile_once sample_handler Rollback sample_flags = (res :: (unit, unit) outcome, db')" by fastforce
  have "fd_faults sample_flags = []" by (simp add: sample_flags_def)
  from polling_resolves_exactly [OF sample_intact this run, of sample_handler RolloutFull 6]
  show ?thesis using sample_concludes run by (auto simp: sample_flags_def sample_row_def list_all2_Cons1)
qed

theorem late_event_overrides_operator_witness:
  "\<exists>db1 db2 r1 r2. handle_resolve sample_handler ''f'' ''rollback'' sample_flags =
      (Ok (HttpJson (JObject [(''flag_id'', JString ''f''), (''action'', JString ''rollback''), (''ok'', JBool True)])), db1) \<and>
    consume_message sample_handler RolloutFull (Some ''x1'') db1 = (Ok () :: (unit, unit) outcome, db2) \<and>
    r1 \<in> set (fd_flags db1) \<and> \<not> fl_enabled r1 \<and> r2 \<in> set (fd_flags db2) \<and> fl_enabled r2 \<and> fl_rollout_percentage r2 = Fin 1"
proof -
  have "find (\<lambda>r. fl_promoted_experiment_id r = Some ''x1'') (fd_flags sample_flags) = Some sample_row" "fd_faults sample_flags = []"
    "fe_parse_uuid (fh_env sample_handler) (fl_flag_id sample_row) = Some (fl_flag_id sample_row)"
    "announces sample_handler ''x1'' ''x1''" "fl_flag_id sample_row = ''f''"
    by (simp_all add: sample_flags_def sample_row_def sample_handler_def sample_env_def announces_def terminal_states_def)
  with late_event_overrides_operator [OF sample_intact, of "''x1''" sample_row sample_handler "''x1''", where 'e = unit] sample_concludes
  show ?thesis by metis
qed

theorem created_flag_reads_back_witness:
  "\<exists>g i db'. store_create_flag (\<lambda>c. []) (sample_flag\<lparr>fl_name := ''new'', fl_variants := []\<rparr>) sample_flags = (Ok g, db') \<and>
    created (sample_flag\<lparr>fl_name := ''new'', fl_variants := []\<rparr>) i sample_flags db' \<and> fl_flag_id g = i"
proof -
  let ?f = "sample_flag\<lparr>fl_name := ''new'', fl_variants := []\<rparr>"
  obtain res db' where run: "store_create_flag (\<lambda>c. []) ?f sample_flags = (res, db')" by fastforce
  have "inj (\<lambda>n. ''id'' @ show_nat n)" using inj_show_nat by (simp add: inj_def)
  then have "fresh_flag_ids sample_flags"
    by (simp add: fresh_flag_ids_def sample_flags_def sample_row_def flag_ids_def)
  moreover have "acceptable_flag sample_flags ?f" "fd_faults sample_flags = []"
    by (simp_all add: acceptable_flag_def sample_flags_def sample_row_def sample_flag_def)
  ultimately show ?thesis
    using created_flag_reads_back [OF sample_intact _ run] run by auto
qed

theorem update_keeps_identity_witness:
  "\<exists>res db'. store_update_flag (\<lambda>c. []) (sample_flag\<lparr>fl_name := ''new'', fl_variants := []\<rparr>) sample_flags = (res, db') \<and>
    updated (sample_flag\<lparr>fl_name := ''new'', fl_variants := []\<rparr>) sample_flags db'"
proof -
  obtain res db' where run: "store_update_flag (\<lambda>c. []) (sample_flag\<lparr>fl_name := ''new'', fl_variants := []\<rparr>) sample_flags = (res, db')" by fastforce
  have "fst (store_update_flag (\<lambda>c. []) (sample_flag\<lparr>fl_name := ''new'', fl_variants := []\<rparr>) sample_flags) \<in> range Ok"
  proof -
    have "(case fst (store_update_flag (\<lambda>c. []) (sample_flag\<lparr>fl_name := ''new'', fl_variants := []\<rparr>) sample_flags) of Ok g \<Rightarrow> True | _ \<Rightarrow> False)"
      by code_simp
    then show ?thesis by (auto split: outcome.splits)
  qed
  with update_keeps_identity [OF sample_intact _ run] run show ?thesis by (auto simp: image_iff)
qed

theorem listing_complete_witness:
  "\<exists>fs ended. list_all_flags sample_env 1 [] [sample_flags, sample_flags] = (fs, ended) \<and> ended \<and> ''f'' \<in> fl_flag_id ` set fs"
proof -
  obtain fs ended where run: "list_all_flags sample_env 1 [] [sample_flags, sample_flags] = (fs, ended)" by fastforce
  have hyps: "\<forall>db \<in> set [sample_flags, sample_flags]. fd_faults db = [] \<and> unique_ids db \<and> (\<forall>i \<in> flag_ids db. token_codec sample_env i)"
    by (simp add: sample_flags_def unique_ids_def flag_ids_def token_codec_def sample_env_def)
  have two: "[sample_flags, sample_flags] = replicate (length (fd_flags sample_flags) + 1) sample_flags"
    by (simp add: sample_flags_def numeral_2_eq_2)
  from listing_complete [OF hyps run] two have "ended" "\<forall>i. (\<forall>db \<in> set [sample_flags, sample_flags]. i \<in> flag_ids db) \<longrightarrow> i \<in> fl_flag_id ` set fs"
    by blast+
  then show ?thesis using run by (auto simp: flag_ids_def sample_flags_def sample_row_def)
qed

end
