(* ===== verification/Reward_Composer.thy ===== *)
theory Reward_Composer
  imports Float64
begin

text \<open>
  Composition of several metrics into one reward (\<^verbatim>\<open>reward_composer.rs\<close> of \<^verbatim>\<open>experimentation-bandit\<close>): running
  means and variances per metric, normalised values, and the three methods of composition. Square root and
  exponential are parameters; a value that is not finite stops the program.
\<close>

section \<open>Running statistics of a metric\<close>

record bandit_math =
  bm_sqrt :: "f64 \<Rightarrow> f64"
  bm_exp :: "f64 \<Rightarrow> f64"

definition fail_fast :: "f64 \<Rightarrow> ('e, f64) outcome" where
  "fail_fast x = (if is_finite x then Ok x else Panic)"

definition ema_alpha :: f64 where
  "ema_alpha = f64_round (1 / 100)"

record metric_stats =
  ms_mean :: f64
  ms_variance :: f64
  ms_ideal :: f64
  ms_n :: nat

definition new_stats :: metric_stats where
  "new_stats = \<lparr>ms_mean = Fin 0, ms_variance = Fin 1, ms_ideal = Fin 0, ms_n = 0\<rparr>"

definition stats_update :: "f64 \<Rightarrow> metric_stats \<Rightarrow> ('e, metric_stats) outcome" where
  "stats_update v s =
     obind (fail_fast v) (\<lambda>v.
       let delta = f64_sub v (ms_mean s);
           mean = f64_add (ms_mean s) (f64_mul ema_alpha delta);
           variance = f64_mul (f64_sub (Fin 1) ema_alpha) (f64_add (ms_variance s) (f64_mul (f64_mul ema_alpha delta) delta))
       in obind (fail_fast mean) (\<lambda>_. obind (fail_fast variance) (\<lambda>_.
            Ok (s\<lparr>ms_mean := mean, ms_variance := variance, ms_n := ms_n s + 1\<rparr>))))"

definition stats_normalize :: "bandit_math \<Rightarrow> metric_stats \<Rightarrow> f64 \<Rightarrow> ('e, f64) outcome" where
  "stats_normalize M s v =
     fail_fast (f64_div (f64_sub v (ms_mean s)) (bm_sqrt M (f64_max (ms_variance s) (f64_round (1 / 10 ^ 8)))))"

type_synonym metric_normalizer = "(string, metric_stats) hash_map"

definition update_and_normalize :: "bandit_math \<Rightarrow> string \<Rightarrow> f64 \<Rightarrow> metric_normalizer \<Rightarrow> ('e, f64 \<times> metric_normalizer) outcome" where
  "update_and_normalize M metric v m =
     obind (stats_update v (unwrap_or new_stats (m metric))) (\<lambda>s.
     obind (stats_normalize M s v) (\<lambda>z.
       Ok (z, m(metric \<mapsto> (if f64_lt (ms_ideal s) z then s\<lparr>ms_ideal := z\<rparr> else s)))))"

definition ideal_of :: "metric_normalizer \<Rightarrow> string \<Rightarrow> f64" where
  "ideal_of m metric = unwrap_or (Fin 0) (map_option ms_ideal (m metric))"

section \<open>Objectives and their composition\<close>

datatype composition_method = WeightedScalarization | EpsilonConstraint | Tchebycheff

record objective =
  ob_metric_id :: string
  ob_weight :: f64
  ob_floor :: f64
  ob_is_primary :: bool

record reward_composer =
  rc_objectives :: "objective list"
  rc_method :: composition_method
  rc_normalizer :: metric_normalizer

definition sum_f64 :: "f64 list \<Rightarrow> f64" where
  "sum_f64 = foldl f64_add (Fin 0)"

fun method_admits :: "composition_method \<Rightarrow> objective list \<Rightarrow> bool" where
  "method_admits WeightedScalarization obs =
     f64_lt (f64_abs (f64_sub (sum_f64 (map ob_weight obs)) (Fin 1))) (f64_round (1 / 10 ^ 6))"
| "method_admits EpsilonConstraint obs = (length (filter ob_is_primary obs) = 1)"
| "method_admits Tchebycheff obs = list_all (\<lambda>ob. f64_lt (Fin 0) (ob_weight ob)) obs"

definition new_composer :: "objective list \<Rightarrow> composition_method \<Rightarrow> ('e, reward_composer) outcome" where
  "new_composer obs method =
     (if obs \<noteq> [] \<and> list_all (\<lambda>ob. is_finite (ob_weight ob) \<and> f64_le (Fin 0) (ob_weight ob)) obs \<and> method_admits method obs
      then Ok \<lparr>rc_objectives = obs, rc_method = method, rc_normalizer = Map.empty\<rparr>
      else Panic)"

fun raw_values :: "(string, f64) hash_map \<Rightarrow> objective list \<Rightarrow> ('e, (objective \<times> f64) list) outcome" where
  "raw_values vals [] = Ok []"
| "raw_values vals (ob # obs) =
     (case vals (ob_metric_id ob) of
        None \<Rightarrow> Panic
      | Some v \<Rightarrow> obind (fail_fast v) (\<lambda>v. obind (raw_values vals obs) (\<lambda>raw. Ok ((ob, v) # raw))))"

fun normalized_values ::
  "bandit_math \<Rightarrow> (objective \<times> f64) list \<Rightarrow> metric_normalizer \<Rightarrow> ('e, (objective \<times> f64) list \<times> metric_normalizer) outcome" where
  "normalized_values M [] m = Ok ([], m)"
| "normalized_values M ((ob, v) # raw) m =
     obind (update_and_normalize M (ob_metric_id ob) v m) (\<lambda>(z, m').
     obind (normalized_values M raw m') (\<lambda>(zs, m''). Ok ((ob, z) # zs, m'')))"

definition deviation :: "metric_normalizer \<Rightarrow> objective \<times> f64 \<Rightarrow> f64" where
  "deviation m = (\<lambda>(ob, z). f64_mul (ob_weight ob) (f64_max (f64_sub (ideal_of m (ob_metric_id ob)) z) (Fin 0)))"

fun scalarize :: "composition_method \<Rightarrow> metric_normalizer \<Rightarrow> (objective \<times> f64) list \<Rightarrow> f64" where
  "scalarize WeightedScalarization m zs = sum_f64 (map (\<lambda>(ob, z). f64_mul (ob_weight ob) z) zs)"
| "scalarize EpsilonConstraint m zs =
     sum_f64 (map (\<lambda>(ob, z). f64_mul (ob_weight ob) (if ob_is_primary ob then z else f64_max (f64_sub z (ob_floor ob)) (Fin 0))) zs)"
| "scalarize Tchebycheff m zs = f64_neg (foldl f64_max (Inf True) (map (deviation m) zs))"

definition compose :: "bandit_math \<Rightarrow> (string, f64) hash_map \<Rightarrow> reward_composer \<Rightarrow> ('e, f64 \<times> reward_composer) outcome" where
  "compose M vals c =
     obind (raw_values vals (rc_objectives c)) (\<lambda>raw.
     obind (normalized_values M raw (rc_normalizer c)) (\<lambda>(zs, m).
     obind (fail_fast (scalarize (rc_method c) m zs)) (\<lambda>r. Ok (r, c\<lparr>rc_normalizer := m\<rparr>))))"

definition sigmoid :: "bandit_math \<Rightarrow> f64 \<Rightarrow> f64" where
  "sigmoid M x = f64_div (Fin 1) (f64_add (Fin 1) (bm_exp M (f64_neg x)))"

section \<open>Properties of a composition\<close>

lemma fail_fast_Ok [simp]: "fail_fast x = Ok y \<longleftrightarrow> y = x \<and> is_finite x"
  by (auto simp: fail_fast_def)

lemma fail_fast_no_error [simp]: "fail_fast x \<noteq> Err e"
  by (simp add: fail_fast_def)

text \<open>A composition that succeeds: its three passes, and nothing but the statistics changes.\<close>

lemma compose_Ok:
  assumes "compose M vals c = (Ok (r, c') :: ('e, f64 \<times> reward_composer) outcome)"
  obtains raw zs m where "raw_values vals (rc_objectives c) = (Ok raw :: ('e, (objective \<times> f64) list) outcome)"
    "normalized_values M raw (rc_normalizer c) = (Ok (zs, m) :: ('e, (objective \<times> f64) list \<times> metric_normalizer) outcome)"
    "r = scalarize (rc_method c) m zs" "is_finite r" "c' = c\<lparr>rc_normalizer := m\<rparr>"
  using assms by (fastforce simp: compose_def obind_Ok_iff split: prod.splits)

lemma raw_values_Ok: "raw_values vals obs = Ok raw \<Longrightarrow> map fst raw = obs \<and> list_all (\<lambda>p. vals (ob_metric_id (fst p)) = Some (snd p) \<and> is_finite (snd p)) raw"
  by (induction obs arbitrary: raw) (auto simp: obind_Ok_iff split: option.splits)

lemma raw_values_missing: "ob \<in> set obs \<Longrightarrow> vals (ob_metric_id ob) = None \<Longrightarrow> raw_values vals obs = Panic"
  by (induction obs) (auto simp: fail_fast_def split: option.splits)

text \<open>A metric that an objective names and the event does not carry stops the program.\<close>

lemma compose_missing_metric: "ob \<in> set (rc_objectives c) \<Longrightarrow> vals (ob_metric_id ob) = None \<Longrightarrow> compose M vals c = Panic"
  by (simp add: compose_def raw_values_missing)

section \<open>Counting observations\<close>

definition observations :: "metric_normalizer \<Rightarrow> string \<Rightarrow> nat" where
  "observations m metric = unwrap_or 0 (map_option ms_n (m metric))"

lemma update_and_normalize_count:
  assumes "update_and_normalize M metric v m = (Ok (z, m') :: ('e, f64 \<times> metric_normalizer) outcome)"
  shows "observations m' x = observations m x + (if metric = x then 1 else 0)"
proof -
  obtain s where s: "stats_update v (unwrap_or new_stats (m metric)) = (Ok s :: ('e, metric_stats) outcome)"
    "m' = m(metric \<mapsto> (if f64_lt (ms_ideal s) z then s\<lparr>ms_ideal := z\<rparr> else s))"
    using assms by (auto simp: update_and_normalize_def obind_Ok_iff)
  have n: "ms_n s = ms_n (unwrap_or new_stats (m metric)) + 1"
    using s(1) by (auto simp: stats_update_def obind_Ok_iff Let_def)
  have "observations m metric = ms_n (unwrap_or new_stats (m metric))"
    by (cases "m metric") (simp_all add: observations_def new_stats_def)
  then show ?thesis using n by (auto simp: observations_def s(2))
qed

lemma normalized_values_count:
  "normalized_values M raw m = (Ok (zs, m') :: ('e, (objective \<times> f64) list \<times> metric_normalizer) outcome) \<Longrightarrow>
     map fst zs = map fst raw \<and> observations m' x = observations m x + length (filter (\<lambda>ob. ob_metric_id ob = x) (map fst raw))"
proof (induction raw arbitrary: m zs)
  case (Cons p raw)
  obtain z m1 zs' where p: "update_and_normalize M (ob_metric_id (fst p)) (snd p) m = (Ok (z, m1) :: ('e, f64 \<times> metric_normalizer) outcome)"
    "normalized_values M raw m1 = (Ok (zs', m') :: ('e, (objective \<times> f64) list \<times> metric_normalizer) outcome)" "zs = (fst p, z) # zs'"
    using Cons.prems by (cases p) (auto simp: obind_Ok_iff)
  show ?case using Cons.IH [OF p(2)] update_and_normalize_count [OF p(1), of x] by (simp add: p(3))
qed simp

text \<open>Every objective counts one observation of its metric, also when two objectives name the same metric.\<close>

lemma compose_counts:
  assumes "compose M vals c = (Ok (r, c') :: ('e, f64 \<times> reward_composer) outcome)"
  shows "observations (rc_normalizer c') x =
    observations (rc_normalizer c) x + length (filter (\<lambda>ob. ob_metric_id ob = x) (rc_objectives c)) \<and>
    rc_objectives c' = rc_objectives c \<and> rc_method c' = rc_method c"
  using assms by (rule compose_Ok) (auto dest!: raw_values_Ok normalized_values_count [where x = x])

section \<open>Deviations from the ideal\<close>

lemma f64_max_zero: "f64_le (Fin 0) (f64_max x (Fin 0))"
  by (cases x) (auto simp: f64_max_def f64_le_def)

lemma f64_mul_nonneg: "0 < w \<Longrightarrow> f64_le (Fin 0) x \<Longrightarrow> f64_le (Fin 0) (f64_mul (Fin w) x)"
proof (cases x)
  case (Fin q)
  assume "0 < w" "f64_le (Fin 0) x"
  then have "0 \<le> w * q" using Fin by (auto simp: f64_le_def)
  then have "f64_le (f64_round 0) (f64_round (w * q))" by (intro f64_round_mono_nonneg) simp_all
  moreover have "f64_round 0 = Fin 0" by (simp add: f64_round_def)
  ultimately show ?thesis using Fin by simp
qed (auto simp: f64_le_def)

lemma f64_max_nonneg: "f64_le (Fin 0) y \<Longrightarrow> f64_le (Fin 0) (f64_max x y)"
  by (cases x; cases y) (auto simp: f64_max_def f64_le_def)

lemma f64_max_keeps_nonneg: "f64_le (Fin 0) x \<Longrightarrow> f64_le (Fin 0) (f64_max x y)"
  by (cases x; cases y) (auto simp: f64_max_def f64_le_def)

lemma foldl_max_nonneg: "f64_le (Fin 0) a \<Longrightarrow> f64_le (Fin 0) (foldl f64_max a xs)"
  by (induction xs arbitrary: a) (simp_all add: f64_max_keeps_nonneg)

lemma foldl_max_nonempty: "xs \<noteq> [] \<Longrightarrow> list_all (f64_le (Fin 0)) xs \<Longrightarrow> f64_le (Fin 0) (foldl f64_max a xs)"
  by (cases xs) (simp_all add: foldl_max_nonneg f64_max_nonneg)

lemma f64_neg_nonneg: "f64_le (Fin 0) x \<Longrightarrow> f64_le (f64_neg x) (Fin 0)"
  by (cases x) (auto simp: f64_le_def)

text \<open>
  The Tchebycheff composition never rewards: the negated largest deviation from the running ideal is at most
  zero, for every metric value and after every history.
\<close>

lemma tchebycheff_never_positive:
  assumes "new_composer obs Tchebycheff = (Ok c0 :: (unit, reward_composer) outcome)"
    and "rc_objectives c = obs" "rc_method c = Tchebycheff" "compose M vals c = (Ok (r, c') :: ('e, f64 \<times> reward_composer) outcome)"
  shows "f64_le r (Fin 0)"
proof -
  have obs: "obs \<noteq> []" "list_all (\<lambda>ob. is_finite (ob_weight ob) \<and> f64_lt (Fin 0) (ob_weight ob)) obs"
    using assms(1) by (auto simp: new_composer_def list_all_iff split: if_splits)
  from assms(4) show ?thesis
  proof (rule compose_Ok)
    fix raw zs m
    assume raw: "raw_values vals (rc_objectives c) = (Ok raw :: ('e, (objective \<times> f64) list) outcome)"
      and zs: "normalized_values M raw (rc_normalizer c) = (Ok (zs, m) :: ('e, (objective \<times> f64) list \<times> metric_normalizer) outcome)"
      and r: "r = scalarize (rc_method c) m zs"
    have ids: "map fst zs = obs"
      using raw_values_Ok [OF raw] normalized_values_count [OF zs] assms(2) by simp
    have "f64_le (Fin 0) (deviation m p)" if "p \<in> set zs" for p
    proof -
      have "fst p \<in> set obs" using that ids by (metis image_eqI list.set_map)
      then obtain w where "ob_weight (fst p) = Fin w" "0 < w"
        using obs(2) by (cases "ob_weight (fst p)") (auto simp: list_all_iff)
      then show ?thesis by (simp add: deviation_def case_prod_beta f64_mul_nonneg f64_max_zero)
    qed
    then have "f64_le (Fin 0) (foldl f64_max (Inf True) (map (deviation m) zs))"
      using obs(1) ids by (intro foldl_max_nonempty) (auto simp: list_all_iff)
    then show ?thesis by (simp add: r assms(3) f64_neg_nonneg)
  qed
qed

text \<open>
  So the sigmoid of such a reward, which a Thompson arm is updated with, is never above one half, when the
  exponential of a number that is not negative is at least one.
\<close>

lemma sigmoid_at_most_half:
  assumes "\<And>x. f64_le (Fin 0) x \<Longrightarrow> f64_le (Fin 1) (bm_exp M x)" "f64_le r (Fin 0)"
  shows "f64_le (sigmoid M r) (Fin (1 / 2))"
proof -
  have "f64_le (Fin 0) (f64_neg r)" using assms(2) by (cases r) (auto simp: f64_le_def)
  then have e: "f64_le (Fin 1) (bm_exp M (f64_neg r))" by (rule assms(1))
  have "f64_le (Fin 2) (f64_add (Fin 1) (bm_exp M (f64_neg r)))"
  proof (cases "bm_exp M (f64_neg r)")
    case (Fin q)
    then have "f64_le (f64_round 2) (f64_round (1 + q))" using e by (intro f64_round_mono_nonneg) (auto simp: f64_le_def)
    then show ?thesis using f64_round_of_int [of 2] Fin by simp
  qed (use e in \<open>auto simp: f64_le_def\<close>)
  then show ?thesis
  proof (cases "f64_add (Fin 1) (bm_exp M (f64_neg r))")
    case (Fin d)
    assume "f64_le (Fin 2) (f64_add (Fin 1) (bm_exp M (f64_neg r)))"
    then have d: "2 \<le> d" using Fin by (auto simp: f64_le_def)
    then have "f64_le (f64_round (1 / d)) (f64_round (1 / 2))" by (intro f64_round_mono_nonneg) (simp_all add: field_simps)
    then show ?thesis using Fin d f64_round_representable [OF half_representable] by (simp add: sigmoid_def)
  qed (auto simp: sigmoid_def f64_le_def)
qed

end
