(* ===== verification/Spec2Isabelle.thy ===== *)
theory Spec2Isabelle
  imports Control_Plane Portfolio Bucket_Reuse Metric_Service Sessionization Ingestion_Service Flag_Service
    Reward_Composer
begin

text \<open>
  The Kaizen experimentation platform: a verification library for its Rust services.

  \<^bold>\<open>The program.\<close> Operators create experiments, metrics and feature flags; users of a product are assigned to
  variants; clients send events about what the users do. Four services of \<^verbatim>\<open>src/crates\<close> carry this logic:
  \<^item> M1, assignment (\<^verbatim>\<open>experimentation-assignment\<close>), answers which variant a user gets. It keeps an index of
    the running experiments (\<^verbatim>\<open>config.rs\<close>), updated by a stream of \<^verbatim>\<open>ConfigUpdate\<close> messages (\<^verbatim>\<open>config_cache.rs\<close>,
    \<^verbatim>\<open>stream_client.rs\<close>), hashes users into buckets (\<^verbatim>\<open>experimentation-hash\<close>), interleaves result lists
    (\<^verbatim>\<open>experimentation-interleaving\<close>) and asks the policy service M4b for bandit arms.
  \<^item> M5, management (\<^verbatim>\<open>experimentation-management\<close>), owns the experiments, their lifecycle, the bucket
    allocations of the layers and the metric catalogue in PostgreSQL, and publishes changes as events of its own.
  \<^item> M2, the event pipeline (\<^verbatim>\<open>experimentation-ingest\<close>, \<^verbatim>\<open>experimentation-pipeline\<close>), validates,
    deduplicates and publishes events, with a disk buffer for outages of the broker.
  \<^item> M7, feature flags (\<^verbatim>\<open>experimentation-flags\<close>), evaluates flags, promotes them to experiments of M5 and
    resolves them when the experiment ends.

  \<^bold>\<open>The library.\<close> A fallible operation is a function into \<^verbatim>\<open>outcome\<close>: a value, an error value or a panic; an
  operation with effects passes its state explicitly (\<^verbatim>\<open>state_op\<close>); the reachable states of a service are an
  inductive relation over its requests. All definitions are executable.
  \<^item> \<open>Prelude\<close>: \<^verbatim>\<open>outcome\<close>, the operations and the invariant rule of a service (\<^verbatim>\<open>reach\<close>), byte classes, decimal
    numbers, and the list and map lemmas the components share. \<open>Rust_Text\<close>: \<^verbatim>\<open>trim\<close>, \<^verbatim>\<open>contains\<close>, \<^verbatim>\<open>{:?}\<close>.
    \<open>Float64\<close>: \<^verbatim>\<open>f64\<close> as exact rationals with round-to-nearest-even, infinities and NaN. \<open>Json\<close>: \<^verbatim>\<open>serde_json::Value\<close>.
  \<^item> \<open>Hashing\<close> (\<^verbatim>\<open>murmur3.rs\<close>, \<^verbatim>\<open>lib.rs\<close>): MurmurHash3 and \<^verbatim>\<open>bucket\<close> on 32-bit words: the bucket is in range,
    zero buckets panic. \<open>Interleaving\<close>: Team Draft, multileaving and optimized interleaving: results are
    complete, without repetition, and balanced between the teams.
  \<^item> \<open>Assignment_Config\<close>, \<open>Targeting\<close>, \<open>Switchback\<close>, \<open>Bandit_Client\<close> and \<open>Assignment_Service\<close> (the files of
    \<^verbatim>\<open>experimentation-assignment\<close> of these names): the index and its cache agree after every update; users are
    only assigned through the gates of status, targeting, holdout and allocation; the shares of the variants
    are exact in buckets; on one snapshot of the index a batch is the two-phase rule over single requests; every branch has
    its answer.
  \<^item> \<open>Management_Store\<close>, \<open>Lifecycle\<close>, \<open>Start_Validators\<close>, \<open>Bucket_Reuse\<close> and \<open>Management_Service\<close> (\<^verbatim>\<open>store.rs\<close>,
    \<^verbatim>\<open>state_machine.rs\<close>, \<^verbatim>\<open>validators/mod.rs\<close> and \<^verbatim>\<open>experiment_types.rs\<close>, \<^verbatim>\<open>bucket_reuse.rs\<close>, the lifecycle part
    of \<^verbatim>\<open>grpc.rs\<close>): the transitions of the store that the service calls refine the state machine (the unguarded
    \<^verbatim>\<open>transition_state_raw\<close>, which nothing calls, does not); the allocations of a layer stay disjoint, read as half-open;
    what strands an experiment when statements fail.
  \<^item> \<open>Postgres\<close>, \<open>Experiment_Store\<close>, \<open>Experiment_Requests\<close> and \<open>Portfolio\<close> (the tables, the creation and listing in
    \<^verbatim>\<open>store.rs\<close>, the other requests on experiments in \<^verbatim>\<open>grpc.rs\<close>, the alert consumer of \<^verbatim>\<open>kafka.rs\<close> and
    \<^verbatim>\<open>portfolio.rs\<close>): constraints, transactions and pages of a listing; every stored experiment stays well-formed
    and no request or alert revives a concluded one; what the optimizer recommends, number by number, and never reports.
  \<^item> \<open>Metricql_Ast\<close>, \<open>Metricql_Lexer\<close>, \<open>Metricql_Parser\<close>, \<open>Metricql_Grammar\<close>, \<open>Metricql_Trees\<close> and
    \<open>Metricql_Analyze\<close> (\<^verbatim>\<open>validators/metricql\<close>): the lexer and the parser with their error messages; the parser
    accepts exactly its grammar, always ends, and yields well-formed trees; the analyser accepts exactly the
    documented expressions. The recursion of the parser is a recursion here too; the depth of the stack is not modelled.
  \<^item> \<open>Metric_Cycle\<close>, \<open>Filter_Sql\<close>, \<open>Metric_Definition\<close>, \<open>Metric_Store\<close> and \<open>Metric_Service\<close> (\<^verbatim>\<open>validators\<close>, the
    metric parts of \<^verbatim>\<open>store.rs\<close> and \<^verbatim>\<open>grpc.rs\<close>): the cycle check against reachability in graphs within
    the depth cap, the allow-list of filters, what is stored and what a reader of its JSON gets back, the catalogue stays
    acyclic under every sequence of requests.
  \<^item> \<open>Event_Validation\<close>, \<open>Event_Dedup\<close>, \<open>Sessionization\<close>, \<open>Disk_Buffer\<close> and \<open>Ingestion_Service\<close> (\<^verbatim>\<open>validation.rs\<close>,
    \<^verbatim>\<open>classification.rs\<close>, \<^verbatim>\<open>dedup.rs\<close>, \<^verbatim>\<open>sessionization.rs\<close>, \<^verbatim>\<open>buffer.rs\<close>, \<^verbatim>\<open>service.rs\<close>, \<^verbatim>\<open>kafka.rs\<close>): where an
    acknowledged event is, published, buffered or dropped; an outage with room in the buffer loses nothing; the counts of a
    batch are those of its events one by one; repeats are detected; sessions are the maximal runs of the
    heartbeats, and what heartbeats, sweeps and a shutdown emit is valid; where an event can be lost.
  \<^item> \<open>Flags\<close>, \<open>Flag_Store\<close>, \<open>Flag_Writes\<close> and \<open>Flag_Service\<close> (\<^verbatim>\<open>experimentation-flags\<close> and the migrations 002 to
    005): evaluation, the tables with their constraints and transactions, listing by pages, the requests, the
    reconciler and the consumer of lifecycle events: raising a rollout only adds users, a flag never changes its salt,
    what was written is read back, a failed update changes nothing, a pass of the reconciler, run on its own, resolves
    exactly the concluded flags and each once.
  \<^item> \<open>Control_Plane\<close>: what M5 announces and what M1 does with an update, each on its own side: the two streams are
    different services in the code (M1 reads \<^verbatim>\<open>assignment.v1\<close> updates, the Rust M5 serves only its own), and nothing
    under \<^verbatim>\<open>src/crates\<close> turns one into the other, so no theorem joins them. An experiment that is created and started
    is announced once; a pause by an alert is not announced to the streams; M5 draws the salt of an experiment itself,
    whatever salt a promoted flag asked for; M1 serves what a running update describes, and drops an experiment
    only for a deletion that names it.
  \<^item> \<open>Reward_Composer\<close> (\<^verbatim>\<open>reward_composer.rs\<close> of \<^verbatim>\<open>experimentation-bandit\<close>): several metrics become one reward; every
    objective counts one observation, and the Tchebycheff composition never gives a positive reward.
  \<^item> This theory: the allocator and the hash crate read the end of a range differently.

  Interfaces are locales, each interpreted on the model of its provider: among them the grammar of an operator
  level of the parser, the source of references of the cycle check, the invariants of the requests of a
  service, the pages of a listing, and the properties that every step of the flag service keeps.

  \<^bold>\<open>Parameters.\<close> What is not under \<^verbatim>\<open>src\<close> is an argument: PostgreSQL (a record of the tables; each statement may
  fail as a list of faults in the state says; the tables, constraints and triggers are those of the
  migrations), the parsing and generation of UUIDs, the
  double that \<^verbatim>\<open>serde_json\<close> reads back from the text of a double (without \<^verbatim>\<open>float_roundtrip\<close> not always the same one), the text of error messages of libraries, base64, the order
  in which a hash map is iterated (hypothesis \<^verbatim>\<open>hash_map_values\<close>: each value once), the Bloom filter (an added key
  is found, an empty filter holds nothing), the random generator, \<^verbatim>\<open>exp\<close>, \<^verbatim>\<open>log2\<close> and \<^verbatim>\<open>sqrt\<close>, the clock, and the answers of
  Kafka, of M3 (metrics) and of M4b (policies). M5 is an argument of the flag service.

  \<^bold>\<open>Bounds and termination.\<close> No claim rests on fuel: the lexer, the parser and the walks are total functions with a measure
  (the remaining input; the unexplored metrics and the stack). The depth cap of the cycle walk and the limits of
  the parser are the constants of the code. Hash values and buckets are 32-bit words; row numbers, times and
  lengths are HOL integers, away from the limits of their machine types. Requests run one after the other: what the
  tasks of one process do between two statements of another is not modelled.

  \<^bold>\<open>Not modelled.\<close> Statistics and analysis (numerical algorithms, tested against golden files; their correctness is
  about real analysis); of the bandit crate the policies themselves, and the policy service M4b around them; the
  migration of custom SQL metrics (it walks the trees of the crate \<^verbatim>\<open>sqlparser\<close>); of M7 the report of stale flags
  (SQL intervals); connections, timers, back-off, process start, logging and metrics; the generated protobuf code;
  the Go services, the SDKs and the user interface.
\<close>

section \<open>Adjacent allocations\<close>

text \<open>
  Adjacent allocations share a bucket: the allocator accepts two ranges that meet, because it reads them as
  half-open; the hash crate, which decides who is in a range, reads the end as included, so users in the
  common bucket are in both.
\<close>

theorem adjacent_allocations_share_bucket:
  "\<exists>a b db1. allocate ''L'' ''x'' 0 5000 empty_layer_db = (Ok a, db1) \<and> b \<in> set (db_allocations (snd (allocate ''L'' ''y'' 5000 10000 db1))) \<and>
     al_experiment_id a \<noteq> al_experiment_id b \<and>
     is_in_allocation 5000 (of_int (al_start_bucket a)) (of_int (al_end_bucket a)) \<and>
     is_in_allocation 5000 (of_int (al_start_bucket b)) (of_int (al_end_bucket b))"
  by (rule exI [of _ "new_allocation empty_layer_db ''L'' ''x'' 0 5000"],
      rule exI [of _ "(new_allocation empty_layer_db ''L'' ''y'' 5000 10000)\<lparr>al_allocation_id := 1\<rparr>"],
      rule exI [of _ "empty_layer_db\<lparr>db_allocations := [new_allocation empty_layer_db ''L'' ''x'' 0 5000]\<rparr>"])
    (simp add: sample_allocation second_allocation, simp add: new_allocation_def is_in_allocation_def)

end
